(* ===== verification/Prelude.thy ===== *)
theory Prelude
  imports Complex_Main "HOL-Library.Multiset"
begin

text \<open>
  Shared base of the development: the error values of the model, the error monad on
  \<open>error + 'a\<close>, the two sequence algorithms of the C++ standard library that the sources
  use everywhere (\<open>std::sort\<close> / \<open>std::stable_sort\<close> with a comparator, and the insertion
  and removal of one element of a deque by position), and lemmas about them.

  Every C++ exception, failed \<open>pgassert\<close> and undefined access of the sources is a value
  \<open>Inl e\<close>.  \<open>pgassert\<close> is the macro of a build without \<open>NDEBUG\<close> (\<open>CMAKE_BUILD_TYPE\<close> Debug): it
  throws.  In the Release build, which is the default, the macro is empty and the code behind a
  failed assertion runs on; the model says nothing about what it then does.  A run that returns
  \<open>Inr\<close> has passed every assertion on its way, so it is the same run in both builds, and so is a
  run that ends in another error; \<open>AssertFailed\<close> is the only value that is one build's alone.
\<close>

named_theorems run_simps "unfolding rules of the error monad"
named_theorems wf_intros "introduction rules of the well-formedness predicates"

section \<open>Errors\<close>

datatype pgr_error =
    AssertFailed                 \<comment> \<open>\<open>AssertFailedException\<close> of \<open>pgassert\<close>, \<open>pgassertwm\<close>\<close>
  | UnableToFindNode int         \<comment> \<open>\<open>throw make_pair("Unable to find node on matrix", id)\<close>\<close>
  | NodeNotInMatrix int          \<comment> \<open>\<open>throw make_pair("(INTERNAL) Dmatrix: Unable to find node on matrix", id)\<close>\<close>
  | IllegalNumberOfVehicles int  \<comment> \<open>\<open>throw make_pair("Illegal number of vehicles found", n)\<close>\<close>
  | IllegalCapacity              \<comment> \<open>\<open>throw make_pair("Illegal value for capacity found", c)\<close>\<close>
  | IllegalVehicle int           \<comment> \<open>\<open>throw make_pair(msg().get_error(), msg().get_log())\<close>\<close>
  | KeyNotFound int              \<comment> \<open>\<open>std::out_of_range\<close> of \<open>std::map::at\<close>\<close>
  | Thrown string                \<comment> \<open>a \<open>std::string\<close>\<close>
  | UndefinedBehaviour           \<comment> \<open>an unchecked access out of bounds, a sort without an order\<close>
  | Diverges                     \<comment> \<open>the fuel given to a loop was used up\<close>

type_synonym 'a run = "pgr_error + 'a"

definition bindE :: "'e + 'a \<Rightarrow> ('a \<Rightarrow> 'e + 'b) \<Rightarrow> 'e + 'b" where
  "bindE m f = (case m of Inl e \<Rightarrow> Inl e | Inr x \<Rightarrow> f x)"

text \<open>\<open>pgassert\<close> of a build with assertions; the Release build has \<open>((void)0)\<close> in its place.\<close>

definition pgassert :: "bool \<Rightarrow> unit run" where
  "pgassert b = (if b then Inr () else Inl AssertFailed)"

lemma bindE_simps [simp, run_simps]:
  "bindE (Inl e) f = Inl e"
  "bindE (Inr x) f = f x"
  by (simp_all add: bindE_def)

lemma bindE_Inr_iff: "bindE m f = Inr y \<longleftrightarrow> (\<exists>x. m = Inr x \<and> f x = Inr y)"
  by (cases m) auto

lemma bindE_InrE [elim!]:
  assumes "bindE m f = Inr y"
  obtains x where "m = Inr x" "f x = Inr y"
  using assms by (auto simp: bindE_Inr_iff)

lemma bindE_cong [fundef_cong]:
  "m = m' \<Longrightarrow> (\<And>x. m' = Inr x \<Longrightarrow> f x = f' x) \<Longrightarrow> bindE m f = bindE m' f'"
  by (cases m') auto

lemma bindE_assoc: "bindE (bindE m f) g = bindE m (\<lambda>x. bindE (f x) g)"
  by (cases m) auto

lemma pgassert_simps [simp, run_simps]:
  "pgassert True = Inr ()"
  "pgassert False = Inl AssertFailed"
  by (simp_all add: pgassert_def)

lemma pgassert_Inr_iff [simp]: "pgassert b = Inr u \<longleftrightarrow> b"
  by (simp add: pgassert_def)

lemma pgassert_True: "b \<Longrightarrow> pgassert b = Inr ()"
  by simp

text \<open>The left fold of a fallible body, the shape of every range-based \<open>for\<close> that may throw.\<close>

fun foldE :: "('a \<Rightarrow> 's \<Rightarrow> 'e + 's) \<Rightarrow> 'a list \<Rightarrow> 's \<Rightarrow> 'e + 's" where
  "foldE f [] s = Inr s"
| "foldE f (x # xs) s = bindE (f x s) (foldE f xs)"

lemma foldE_cong [fundef_cong]:
  assumes "xs = ys" "s = t" "\<And>x s. x \<in> set ys \<Longrightarrow> f x s = g x s"
  shows "foldE f xs s = foldE g ys t"
  using assms(3) unfolding assms(1,2)
proof (induction ys arbitrary: t)
  case (Cons y ys)
  then show ?case by (cases "g y t") auto
qed simp

lemma foldE_append: "foldE f (xs @ ys) s = bindE (foldE f xs s) (foldE f ys)"
proof (induction xs arbitrary: s)
  case (Cons x xs)
  then show ?case by (cases "f x s") auto
qed simp

lemma foldE_invariant:
  assumes "foldE f xs s = Inr t" "I s"
    and "\<And>x s s'. x \<in> set xs \<Longrightarrow> I s \<Longrightarrow> f x s = Inr s' \<Longrightarrow> I s'"
  shows "I t"
  using assms
proof (induction xs arbitrary: s)
  case (Cons x xs)
  then show ?case by (auto elim!: bindE_InrE)
qed simp

lemma foldE_total:
  assumes "I s"
    and "\<And>x s. x \<in> set xs \<Longrightarrow> I s \<Longrightarrow> \<exists>s'. f x s = Inr s' \<and> I s'"
  shows "\<exists>t. foldE f xs s = Inr t \<and> I t"
  using assms
proof (induction xs arbitrary: s)
  case (Cons x xs)
  obtain s' where "f x s = Inr s'" "I s'"
    using Cons.prems(1) Cons.prems(2)[of x s] by auto
  then show ?case
    using Cons.IH[of s'] Cons.prems(2) by auto
qed simp

text \<open>The fallible body applied to every element.\<close>

fun mapE :: "('a \<Rightarrow> 'e + 'b) \<Rightarrow> 'a list \<Rightarrow> 'e + 'b list" where
  "mapE f [] = Inr []"
| "mapE f (x # xs) = bindE (f x) (\<lambda>y. bindE (mapE f xs) (\<lambda>ys. Inr (y # ys)))"

lemma mapE_cong [fundef_cong]:
  assumes "xs = ys" "\<And>x. x \<in> set ys \<Longrightarrow> f x = g x"
  shows "mapE f xs = mapE g ys"
  using assms(2) unfolding assms(1) by (induction ys) auto

lemma mapE_Inr_iff: "mapE f xs = Inr ys \<longleftrightarrow> list_all2 (\<lambda>x y. f x = Inr y) xs ys"
proof (induction xs arbitrary: ys)
  case (Cons x xs)
  then show ?case by (cases ys) (auto simp: bindE_Inr_iff)
qed auto

lemma mapE_map: "(\<And>x. x \<in> set xs \<Longrightarrow> f x = Inr (g x)) \<Longrightarrow> mapE f xs = Inr (map g xs)"
  by (induction xs) auto

text \<open>The short-circuit \<open>&&\<close> of two fallible tests, and an unchecked \<open>operator[]\<close>.\<close>

definition andE :: "'e + bool \<Rightarrow> 'e + bool \<Rightarrow> 'e + bool" where
  "andE a b = bindE a (\<lambda>x. if x then b else Inr False)"

definition nthE :: "'a list \<Rightarrow> nat \<Rightarrow> 'a run" where
  "nthE xs i = (if i < length xs then Inr (xs ! i) else Inl UndefinedBehaviour)"

lemma andE_Inr [simp]: "andE (Inr x) (Inr y) = Inr (x \<and> y)"
  by (simp add: andE_def)

lemma nthE_Inr [simp]: "i < length xs \<Longrightarrow> nthE xs i = Inr (xs ! i)"
  by (simp add: nthE_def)

section \<open>Sequences\<close>

definition insert_at :: "nat \<Rightarrow> 'a \<Rightarrow> 'a list \<Rightarrow> 'a list" where
  "insert_at i x xs = take i xs @ x # drop i xs"

definition erase_at :: "nat \<Rightarrow> 'a list \<Rightarrow> 'a list" where
  "erase_at i xs = take i xs @ drop (Suc i) xs"

definition swap_at :: "nat \<Rightarrow> nat \<Rightarrow> 'a list \<Rightarrow> 'a list" where
  "swap_at i j xs = xs[i := xs ! j, j := xs ! i]"

lemma length_insert_at [simp]: "i \<le> length xs \<Longrightarrow> length (insert_at i x xs) = Suc (length xs)"
  by (simp add: insert_at_def)

lemma length_erase_at [simp]: "i < length xs \<Longrightarrow> length (erase_at i xs) = length xs - 1"
  by (simp add: erase_at_def)

lemma length_swap_at [simp]: "length (swap_at i j xs) = length xs"
  by (simp add: swap_at_def)

lemma erase_insert_at [simp]: "i \<le> length xs \<Longrightarrow> erase_at i (insert_at i x xs) = xs"
  by (simp add: erase_at_def insert_at_def)

lemma map_insert_at: "map f (insert_at i x xs) = insert_at i (f x) (map f xs)"
  by (simp add: insert_at_def take_map drop_map)

lemma map_erase_at: "map f (erase_at i xs) = erase_at i (map f xs)"
  by (simp add: erase_at_def take_map drop_map)

lemma map_swap_at:
  "i < length xs \<Longrightarrow> j < length xs \<Longrightarrow> map f (swap_at i j xs) = swap_at i j (map f xs)"
  by (simp add: swap_at_def map_update)

lemma set_insert_at [simp]: "i \<le> length xs \<Longrightarrow> set (insert_at i x xs) = insert x (set xs)"
  by (metis Un_insert_right append_take_drop_id insert_at_def list.simps(15) set_append)

lemma mset_insert_at [simp]: "i \<le> length xs \<Longrightarrow> mset (insert_at i x xs) = add_mset x (mset xs)"
  by (metis append_take_drop_id insert_at_def mset.simps(2) mset_append union_mset_add_mset_right)

lemma set_erase_at: "set (erase_at i xs) \<subseteq> set xs"
  by (auto simp: erase_at_def dest: in_set_takeD in_set_dropD)

lemma mset_erase_at:
  "i < length xs \<Longrightarrow> add_mset (xs ! i) (mset (erase_at i xs)) = mset xs"
  by (metis append_take_drop_id Cons_nth_drop_Suc erase_at_def mset.simps(2) mset_append
      union_mset_add_mset_right)

lemma nth_insert_at_same [simp]: "i \<le> length xs \<Longrightarrow> insert_at i x xs ! i = x"
  by (simp add: insert_at_def nth_append)

lemma nth_insert_at:
  "i \<le> length xs \<Longrightarrow> j \<le> length xs \<Longrightarrow>
    insert_at i x xs ! j = (if j < i then xs ! j else if j = i then x else xs ! (j - 1))"
  by (auto simp: insert_at_def nth_append nth_Cons min_def split: nat.splits)
     (metis One_nat_def Suc_eq_plus1 add_diff_inverse_nat add_Suc_right diff_Suc_1)

lemma nth_erase_at:
  "i < length xs \<Longrightarrow> j < length xs - 1 \<Longrightarrow>
    erase_at i xs ! j = (if j < i then xs ! j else xs ! Suc j)"
  by (auto simp: erase_at_def nth_append min_def)

lemma take_insert_at [simp]: "i \<le> length xs \<Longrightarrow> take i (insert_at i x xs) = take i xs"
  by (simp add: insert_at_def)

lemma take_erase_at [simp]: "i < length xs \<Longrightarrow> take i (erase_at i xs) = take i xs"
  by (simp add: erase_at_def)

lemma hd_insert_at: "0 < i \<Longrightarrow> i \<le> length xs \<Longrightarrow> hd (insert_at i x xs) = hd xs"
  by (cases xs; cases i) (auto simp: insert_at_def)

lemma last_insert_at: "i < length xs \<Longrightarrow> last (insert_at i x xs) = last xs"
  by (simp add: insert_at_def)

lemma hd_erase_at: "0 < i \<Longrightarrow> i < length xs \<Longrightarrow> hd (erase_at i xs) = hd xs"
  by (cases xs; cases i) (auto simp: erase_at_def)

lemma last_erase_at: "Suc i < length xs \<Longrightarrow> last (erase_at i xs) = last xs"
  by (simp add: erase_at_def)

lemma mset_swap_at:
  "i < length xs \<Longrightarrow> j < length xs \<Longrightarrow> mset (swap_at i j xs) = mset xs"
  by (simp add: swap_at_def mset_swap)

section \<open>Sorting with a comparator\<close>

text \<open>
  \<open>std::sort\<close> and \<open>std::stable_sort\<close> with a comparator \<open>lt\<close> are modelled by a stable
  insertion sort, once the comparator is known to order the range (see \<open>std_sort\<close> below, which
  checks that).  For elements that the comparator does not separate \<open>std::sort\<close> promises
  no order; the stable order is one it may return.  The lemmas below are what both promise.
\<close>

fun insert_by :: "('a \<Rightarrow> 'a \<Rightarrow> bool) \<Rightarrow> 'a \<Rightarrow> 'a list \<Rightarrow> 'a list" where
  "insert_by lt x [] = [x]"
| "insert_by lt x (y # ys) = (if lt y x then y # insert_by lt x ys else x # y # ys)"

fun sort_by :: "('a \<Rightarrow> 'a \<Rightarrow> bool) \<Rightarrow> 'a list \<Rightarrow> 'a list" where
  "sort_by lt [] = []"
| "sort_by lt (x # xs) = insert_by lt x (sort_by lt xs)"

lemma mset_insert_by [simp]: "mset (insert_by lt x xs) = add_mset x (mset xs)"
  by (induction xs) auto

lemma mset_sort_by [simp]: "mset (sort_by lt xs) = mset xs"
  by (induction xs) auto

lemma set_insert_by [simp]: "set (insert_by lt x xs) = insert x (set xs)"
  by (metis mset_insert_by set_mset_add_mset_insert set_mset_mset)

lemma set_sort_by [simp]: "set (sort_by lt xs) = set xs"
  by (metis mset_sort_by set_mset_mset)

lemma length_sort_by [simp]: "length (sort_by lt xs) = length xs"
  by (metis mset_sort_by size_mset)

text \<open>
  A comparator is usable by \<open>std::sort\<close> on a set of values when it is a strict weak order
  there; then the result is sorted: no later element is less than an earlier one.
\<close>

definition strict_weak_on :: "'a set \<Rightarrow> ('a \<Rightarrow> 'a \<Rightarrow> bool) \<Rightarrow> bool" where
  "strict_weak_on A lt \<longleftrightarrow>
     (\<forall>x\<in>A. \<not> lt x x) \<and>
     (\<forall>x\<in>A. \<forall>y\<in>A. \<forall>z\<in>A. lt x y \<longrightarrow> lt y z \<longrightarrow> lt x z) \<and>
     (\<forall>x\<in>A. \<forall>y\<in>A. \<forall>z\<in>A. \<not> lt x y \<longrightarrow> \<not> lt y z \<longrightarrow> \<not> lt x z)"

lemma strict_weak_on_subset: "strict_weak_on A lt \<Longrightarrow> B \<subseteq> A \<Longrightarrow> strict_weak_on B lt"
  unfolding strict_weak_on_def by (meson subsetD)

lemma sorted_insert_by:
  assumes "strict_weak_on (insert x (set xs)) lt" "sorted_wrt (\<lambda>a b. \<not> lt b a) xs"
  shows "sorted_wrt (\<lambda>a b. \<not> lt b a) (insert_by lt x xs)"
  using assms
proof (induction xs)
  case (Cons y ys)
  have swo: "strict_weak_on (insert x (set ys)) lt"
    using Cons.prems(1) by (rule strict_weak_on_subset) auto
  show ?case
  proof (cases "lt y x")
    case True
    have "\<not> lt x y"
      using True Cons.prems(1) unfolding strict_weak_on_def by (metis insertI1 list.set_intros(1) insertI2)
    then show ?thesis
      using True Cons.IH[OF swo] Cons.prems(2) by auto
  next
    case False
    have "\<not> lt z x" if "z \<in> set ys" for z
      using False that Cons.prems unfolding strict_weak_on_def
      by (metis insertI1 insertI2 list.set(2) sorted_wrt.simps(2))
    then show ?thesis
      using False Cons.prems(2) by auto
  qed
qed simp

lemma sorted_sort_by:
  "strict_weak_on (set xs) lt \<Longrightarrow> sorted_wrt (\<lambda>a b. \<not> lt b a) (sort_by lt xs)"
proof (induction xs)
  case (Cons x xs)
  have "strict_weak_on (set xs) lt"
    using Cons.prems by (rule strict_weak_on_subset) auto
  then show ?case
    using Cons by (auto intro: sorted_insert_by)
qed simp

lemma hd_sort_by_least:
  assumes "strict_weak_on (set xs) lt" "xs \<noteq> []" "y \<in> set xs"
  shows "\<not> lt y (hd (sort_by lt xs))"
proof (cases "sort_by lt xs")
  case Nil
  then show ?thesis using assms(2) by (metis length_0_conv length_sort_by)
next
  case (Cons z zs)
  then have "y = z \<or> y \<in> set zs"
    using assms(3) set_sort_by[of lt xs] by auto
  moreover have "\<not> lt z z"
    using assms(1) Cons set_sort_by[of lt xs] unfolding strict_weak_on_def by auto
  ultimately show ?thesis
    using Cons sorted_sort_by[OF assms(1)] by auto
qed

text \<open>
  \<open>std::sort\<close> where the comparator may fail to be a strict weak order on the range: then the call
  is undefined (the range may even be left), and the model says so.
\<close>

definition std_sort :: "('a \<Rightarrow> 'a \<Rightarrow> bool) \<Rightarrow> 'a list \<Rightarrow> 'a list run" where
  "std_sort lt xs =
     (if strict_weak_on (set xs) lt then Inr (sort_by lt xs) else Inl UndefinedBehaviour)"

lemma std_sort_Inr [simp]: "strict_weak_on (set xs) lt \<Longrightarrow> std_sort lt xs = Inr (sort_by lt xs)"
  by (simp add: std_sort_def)

lemma std_sort_single: "\<not> lt x x \<Longrightarrow> std_sort lt [x] = Inr [x]"
  by (simp add: std_sort_def strict_weak_on_def)

section \<open>Removing adjacent repetitions\<close>

text \<open>\<open>std::unique\<close> with a predicate: each element is compared with the last one kept.\<close>

fun unique_by :: "('a \<Rightarrow> 'a \<Rightarrow> bool) \<Rightarrow> 'a list \<Rightarrow> 'a list" where
  "unique_by eq [] = []"
| "unique_by eq [x] = [x]"
| "unique_by eq (x # y # ys) =
     (if eq x y then unique_by eq (x # ys) else x # unique_by eq (y # ys))"

lemma set_unique_by_subset: "set (unique_by eq xs) \<subseteq> set xs"
  by (induction eq xs rule: unique_by.induct) auto

lemma set_unique_eq [simp]: "set (unique_by (=) xs) = set xs"
  by (induction "(=) :: 'a \<Rightarrow> 'a \<Rightarrow> bool" xs rule: unique_by.induct) auto

lemma sorted_unique_by:
  "sorted_wrt (\<le>) xs \<Longrightarrow> sorted_wrt (<) (unique_by (=) (xs :: 'a :: linorder list))"
proof (induction "(=) :: 'a \<Rightarrow> 'a \<Rightarrow> bool" xs rule: unique_by.induct)
  case (3 x y ys)
  then show ?case
    using set_unique_by_subset[of "(=)" "y # ys"] by (auto dest: le_neq_trans)
qed auto

lemma sorted_sort_by_less: "sorted_wrt (\<le>) (sort_by (<) (xs :: 'a :: linorder list))"
proof -
  have "strict_weak_on (set xs) ((<) :: 'a \<Rightarrow> 'a \<Rightarrow> bool)"
    unfolding strict_weak_on_def by auto
  from sorted_sort_by[OF this] show ?thesis
    by (simp add: not_less)
qed

end
