(* ===== verification/Doubles.thy ===== *)
theory Doubles
  imports Prelude
begin

text \<open>
  The C++ type \<open>double\<close>.  A value is a finite real, one of the two infinities or NaN, with the
  IEEE rules for infinities and NaN in the arithmetic and in the comparisons: every ordered
  comparison with NaN is false.  Two aspects are idealised: finite results are not rounded,
  and the two signed zeros are one value (so a finite value divided by zero takes the sign of
  the dividend).  Nothing proved later rests on rounding: the programs' results are
  characterised by the comparisons they make on computed values.

  The order is not a linear order, because of NaN: only irreflexivity and transitivity of
  \<open>\<open>\<close><\<open>\<close>\<close> hold for all values, and the comparators of the sources are strict weak
  orders on values that are not NaN.
\<close>

section \<open>Values\<close>

datatype double = Fin real | PInf | NInf | NaN

definition is_nan :: "double \<Rightarrow> bool" where
  "is_nan x \<longleftrightarrow> x = NaN"

definition dbl_max :: double where
  \<comment> \<open>\<open>std::numeric_limits<double>::max()\<close>\<close>
  "dbl_max = Fin (2 ^ 1024 - 2 ^ 971)"

fun sgn_inf :: "real \<Rightarrow> double" where
  "sgn_inf r = (if r = 0 then NaN else if 0 < r then PInf else NInf)"

section \<open>Arithmetic\<close>

instantiation double :: "{zero, one, plus, uminus, minus, times, abs, divide, ord}"
begin

definition zero_double :: double where "0 = Fin 0"

definition one_double :: double where "1 = Fin 1"

fun plus_double :: "double \<Rightarrow> double \<Rightarrow> double" where
  "Fin a + Fin b = Fin (a + b)"
| "NaN + y = NaN"
| "x + NaN = NaN"
| "PInf + NInf = NaN"
| "NInf + PInf = NaN"
| "PInf + y = PInf"
| "x + PInf = PInf"
| "NInf + y = NInf"
| "x + NInf = NInf"

fun uminus_double :: "double \<Rightarrow> double" where
  "- Fin a = Fin (- a)"
| "- PInf = NInf"
| "- NInf = PInf"
| "- NaN = NaN"

definition minus_double :: "double \<Rightarrow> double \<Rightarrow> double" where
  "x - y = x + (- y :: double)"

fun times_double :: "double \<Rightarrow> double \<Rightarrow> double" where
  "Fin a * Fin b = Fin (a * b)"
| "NaN * y = NaN"
| "x * NaN = NaN"
| "PInf * Fin b = sgn_inf b"
| "Fin a * PInf = sgn_inf a"
| "NInf * Fin b = sgn_inf (- b)"
| "Fin a * NInf = sgn_inf (- a)"
| "PInf * PInf = PInf"
| "NInf * NInf = PInf"
| "PInf * NInf = NInf"
| "NInf * PInf = NInf"

fun divide_double :: "double \<Rightarrow> double \<Rightarrow> double" where
  "Fin a div Fin b = (if b = 0 then sgn_inf a else Fin (a / b))"
| "NaN div y = NaN"
| "x div NaN = NaN"
| "Fin a div PInf = Fin 0"
| "Fin a div NInf = Fin 0"
| "PInf div Fin b = (if b < 0 then NInf else PInf)"
| "NInf div Fin b = (if b < 0 then PInf else NInf)"
| "PInf div y = NaN"
| "NInf div y = NaN"

fun abs_double :: "double \<Rightarrow> double" where
  "\<bar>Fin a\<bar> = Fin \<bar>a\<bar>"
| "\<bar>PInf\<bar> = PInf"
| "\<bar>NInf\<bar> = PInf"
| "\<bar>NaN\<bar> = NaN"

fun less_double :: "double \<Rightarrow> double \<Rightarrow> bool" where
  "Fin a < Fin b \<longleftrightarrow> a < b"
| "Fin a < PInf \<longleftrightarrow> True"
| "NInf < Fin b \<longleftrightarrow> True"
| "NInf < PInf \<longleftrightarrow> True"
| "(x :: double) < y \<longleftrightarrow> False"

fun less_eq_double :: "double \<Rightarrow> double \<Rightarrow> bool" where
  "NaN \<le> y \<longleftrightarrow> False"
| "x \<le> NaN \<longleftrightarrow> False"
| "(x :: double) \<le> y \<longleftrightarrow> x < y \<or> x = y"

instance
  by standard

end

instantiation double :: inverse
begin

definition inverse_double :: "double \<Rightarrow> double" where
  "inverse_double x = Fin 1 div x"

instance
  by standard

end

text \<open>The \<open>==\<close> of C++: NaN is different from every value, itself included.\<close>

definition deq :: "double \<Rightarrow> double \<Rightarrow> bool" where
  "deq x y \<longleftrightarrow> x = y \<and> x \<noteq> NaN"

lemma plus_double_0 [simp]: "(0 :: double) + x = x" "x + (0 :: double) = x"
  by (cases x; simp add: zero_double_def)+

lemma plus_double_assoc: "((a :: double) + b) + c = a + (b + c)"
  by (cases a; cases b; cases c) auto

lemma plus_double_commute: "(a :: double) + b = b + a"
  by (cases a; cases b) auto

instance double :: comm_monoid_add
proof
  fix a b c :: double
  show "a + b + c = a + (b + c)" by (rule plus_double_assoc)
  show "a + b = b + a" by (rule plus_double_commute)
  show "0 + a = a" by simp
qed

lemma dbl_le_0_iff [simp]:
  "(0 \<le> Fin a) = (0 \<le> a)" "(0 < Fin a) = (0 < a)" "(Fin a \<le> 0) = (a \<le> 0)" "(Fin a < 0) = (a < 0)"
  "(Fin a = 0) = (a = 0)" "(0 = Fin a) = (0 = a)"
  by (auto simp: zero_double_def)

lemma Fin_le_Fin [simp]: "(Fin a \<le> Fin b) = (a \<le> b)"
  by auto

lemma Fin_minus_Fin [simp]: "Fin a - Fin b = Fin (a - b)"
  by (simp add: minus_double_def)

section \<open>The order\<close>

lemma dbl_less_irrefl [simp]: "\<not> (x :: double) < x"
  by (cases x) auto

lemma dbl_less_trans: "(x :: double) < y \<Longrightarrow> y < z \<Longrightarrow> x < z"
  by (cases x; cases y; cases z) auto

lemma dbl_less_asym: "(x :: double) < y \<Longrightarrow> \<not> y < x"
  using dbl_less_trans dbl_less_irrefl by blast

lemma dbl_less_imp_not_nan: "(x :: double) < y \<Longrightarrow> x \<noteq> NaN \<and> y \<noteq> NaN"
  by (cases x; cases y) auto

lemma dbl_not_less_trans:
  "y \<noteq> NaN \<Longrightarrow> \<not> (x :: double) < y \<Longrightarrow> \<not> y < z \<Longrightarrow> \<not> x < z"
  by (cases x; cases y; cases z) auto

lemma dbl_linear: "x \<noteq> NaN \<Longrightarrow> y \<noteq> NaN \<Longrightarrow> (x :: double) < y \<or> x = y \<or> y < x"
  by (cases x; cases y) auto

lemma dbl_le_iff: "(x :: double) \<le> y \<longleftrightarrow> x \<noteq> NaN \<and> y \<noteq> NaN \<and> (x < y \<or> x = y)"
  by (cases x; cases y) auto

lemma dbl_le_refl: "x \<noteq> NaN \<Longrightarrow> (x :: double) \<le> x"
  by (simp add: dbl_le_iff)

lemma dbl_not_le: "x \<noteq> NaN \<Longrightarrow> y \<noteq> NaN \<Longrightarrow> (\<not> (x :: double) \<le> y) = (y < x)"
  using dbl_linear dbl_less_asym by (auto simp: dbl_le_iff)

lemma dbl_less_imp_le: "(x :: double) < y \<Longrightarrow> x \<le> y"
  by (simp add: dbl_le_iff dbl_less_imp_not_nan)

lemma dbl_le_trans: "(x :: double) \<le> y \<Longrightarrow> y \<le> z \<Longrightarrow> x \<le> z"
  by (auto simp: dbl_le_iff dest: dbl_less_trans)

lemma dbl_le_less_trans: "(x :: double) \<le> y \<Longrightarrow> y < z \<Longrightarrow> x < z"
  by (auto simp: dbl_le_iff dest: dbl_less_trans)

lemma dbl_less_le_trans: "(x :: double) < y \<Longrightarrow> y \<le> z \<Longrightarrow> x < z"
  by (auto simp: dbl_le_iff dest: dbl_less_trans)

lemma dbl_le_antisym: "(x :: double) \<le> y \<Longrightarrow> y \<le> x \<Longrightarrow> x = y"
  by (auto simp: dbl_le_iff dest: dbl_less_asym)

lemma dbl_add_nonneg_le: "x \<noteq> NaN \<Longrightarrow> 0 \<le> d \<Longrightarrow> x + d \<noteq> NaN \<Longrightarrow> x \<le> x + d"
  by (cases x; cases d) (auto simp: zero_double_def)

lemma dbl_add_nonneg: "0 \<le> (a :: double) \<Longrightarrow> 0 \<le> b \<Longrightarrow> 0 \<le> a + b"
  by (cases a; cases b) (auto simp: zero_double_def)

lemma dbl_diff_nonneg: "(a :: double) < b \<Longrightarrow> 0 \<le> b - a"
  by (cases a; cases b) (auto simp: zero_double_def minus_double_def)

lemma dbl_nonneg_not_nan: "0 \<le> (a :: double) \<Longrightarrow> a \<noteq> NaN"
  by (simp add: dbl_le_iff)

lemmas dbl_order = dbl_less_trans dbl_le_trans dbl_le_less_trans dbl_less_le_trans dbl_less_imp_le

section \<open>Comparators by a key\<close>

text \<open>
  Sorting by one \<open>double\<close> key is well defined as soon as no key is NaN; comparing a list of
  keys in turn is a strict weak order when each of them is.
\<close>

lemma strict_weak_on_key:
  assumes "\<And>x. x \<in> A \<Longrightarrow> key x \<noteq> NaN"
  shows "strict_weak_on A (\<lambda>x y. (key x :: double) < key y)"
  unfolding strict_weak_on_def by (meson assms dbl_less_irrefl dbl_less_trans dbl_not_less_trans)

lemma strict_weak_on_flip: "strict_weak_on A lt \<Longrightarrow> strict_weak_on A (\<lambda>x y. lt y x)"
  unfolding strict_weak_on_def by blast

lemma strict_weak_on_linorder: "strict_weak_on A (\<lambda>x y. (key x :: 'b :: linorder) < key y)"
  unfolding strict_weak_on_def by auto

lemma strict_weak_on_then:
  assumes p: "strict_weak_on A p" and q: "strict_weak_on A q"
  shows "strict_weak_on A (\<lambda>x y. if p x y then True else if p y x then False else q x y)"
proof -
  have p1: "\<not> p x x" and p2: "p x y \<Longrightarrow> p y z \<Longrightarrow> p x z"
    and p3: "\<not> p x y \<Longrightarrow> \<not> p y z \<Longrightarrow> \<not> p x z" if "x \<in> A" "y \<in> A" "z \<in> A" for x y z
    using p that unfolding strict_weak_on_def by blast+
  have q1: "\<not> q x x" and q2: "q x y \<Longrightarrow> q y z \<Longrightarrow> q x z"
    and q3: "\<not> q x y \<Longrightarrow> \<not> q y z \<Longrightarrow> \<not> q x z" if "x \<in> A" "y \<in> A" "z \<in> A" for x y z
    using q that unfolding strict_weak_on_def by blast+
  show ?thesis
    unfolding strict_weak_on_def
    by (intro conjI ballI impI) (smt (verit) p1 p2 p3 q1 q2 q3)+
qed

end
