(* ===== verification/Paths.thy ===== *)
theory Paths
  imports Doubles "HOL-Library.Sublist"
begin

text \<open>
  The result of a shortest path search, class \<open>Path\<close> of
  \<open>include/cpp_common/path.hpp\<close> and \<open>src/common/path.cpp\<close>, with the turn restrictions
  \<open>Rule\<close> (\<open>include/cpp_common/rule.hpp\<close>, \<open>src/cpp_common/rule.cpp\<close>) it is searched for.

  A \<open>std::deque\<close> is a list and an iterator is a position, \<open>end()\<close> being the length.  The
  functions that write result rows through a pointer and a running \<open>sequence\<close> return the
  rows they write; the new \<open>sequence\<close> is the old one plus their number.
\<close>

section \<open>Data\<close>

record Path_t =
  node :: int
  edge :: int
  cost :: double
  agg_cost :: double
  pred :: int

record Path =
  path :: "Path_t list"
  m_start_id :: int
  m_end_id :: int
  m_tot_cost :: double

record Path_rt =
  start_id :: int
  end_id :: int
  rt_node :: int
  rt_edge :: int
  rt_cost :: double
  rt_agg_cost :: double

record MST_rt =
  from_v :: int
  depth :: int
  t_pred :: int
  t_node :: int
  t_edge :: int
  t_cost :: double
  t_agg_cost :: double

section \<open>Turn restrictions\<close>

record Restriction_t =
  restriction_cost :: double
  via_edges :: "int list"

record Rule =
  m_dest_id :: int
  rule_cost :: double
  m_precedencelist :: "int list"
  m_all :: "int list"

text \<open>The constructor takes \<open>back()\<close> of the edges, which needs one.\<close>

definition Rule_of :: "Restriction_t \<Rightarrow> Rule run" where
  "Rule_of r =
     (if via_edges r = [] then Inl UndefinedBehaviour
      else Inr \<lparr>m_dest_id = last (via_edges r), rule_cost = restriction_cost r,
                m_precedencelist = rev (butlast (via_edges r)), m_all = via_edges r\<rparr>)"

section \<open>Operations of a path\<close>

text \<open>\<open>Path()\<close> and \<open>Path(s_id, e_id)\<close>.\<close>

definition Path_of :: "int \<Rightarrow> int \<Rightarrow> Path" where
  "Path_of s_id e_id = \<lparr>path = [], m_start_id = s_id, m_end_id = e_id, m_tot_cost = 0\<rparr>"

definition Path_none :: Path where
  "Path_none = Path_of 0 0"

definition push_front :: "Path_t \<Rightarrow> Path \<Rightarrow> Path" where
  "push_front d p = p\<lparr>path := d # path p, m_tot_cost := m_tot_cost p + cost d\<rparr>"

definition push_back :: "Path_t \<Rightarrow> Path \<Rightarrow> Path" where
  "push_back d p = p\<lparr>path := path p @ [d], m_tot_cost := m_tot_cost p + cost d\<rparr>"

text \<open>\<open>std::map::at\<close> throws on a missing key.\<close>

definition map_at :: "(int \<Rightarrow> int option) \<Rightarrow> int \<Rightarrow> int run" where
  "map_at m k = (case m k of None \<Rightarrow> Inl (KeyNotFound k) | Some x \<Rightarrow> Inr x)"

definition renumber_vertices :: "(int \<Rightarrow> int option) \<Rightarrow> Path \<Rightarrow> Path run" where
  "renumber_vertices idx_to_id p =
     bindE (mapE (\<lambda>r. bindE (map_at idx_to_id (node r)) (\<lambda>n. Inr (r\<lparr>node := n\<rparr>))) (path p)) (\<lambda>rs.
     bindE (map_at idx_to_id (m_start_id p)) (\<lambda>s.
     bindE (map_at idx_to_id (m_end_id p)) (\<lambda>e.
     Inr (p\<lparr>path := rs, m_start_id := s, m_end_id := e\<rparr>))))"

text \<open>The sum of two \<open>int64_t\<close>; a sum that does not fit is undefined behaviour.\<close>

definition int64 :: "int \<Rightarrow> bool" where
  "int64 x \<longleftrightarrow> - (2 ^ 63) \<le> x \<and> x < 2 ^ 63"

definition add64 :: "int \<Rightarrow> int \<Rightarrow> int run" where
  "add64 a b = (if int64 (a + b) then Inr (a + b) else Inl UndefinedBehaviour)"

definition renumber_by :: "int \<Rightarrow> Path \<Rightarrow> Path run" where
  "renumber_by v p =
     bindE (mapE (\<lambda>r. bindE (add64 (node r) v) (\<lambda>n. Inr (r\<lparr>node := n\<rparr>))) (path p)) (\<lambda>rs.
     bindE (add64 (m_start_id p) v) (\<lambda>s.
     bindE (add64 (m_end_id p) v) (\<lambda>e.
     Inr (p\<lparr>path := rs, m_start_id := s, m_end_id := e\<rparr>))))"

text \<open>The running sum that \<open>reverse\<close> and \<open>recalculate_agg_cost\<close> write into \<open>agg_cost\<close>.\<close>

fun accumulate :: "double \<Rightarrow> Path_t list \<Rightarrow> Path_t list" where
  "accumulate c [] = []"
| "accumulate c (r # rs) = r\<lparr>agg_cost := c\<rparr> # accumulate (c + cost r) rs"

text \<open>The new deque of \<open>reverse\<close>: each node gets the edge and the cost of the row before it.\<close>

fun turn_rows :: "int \<Rightarrow> double \<Rightarrow> Path_t list \<Rightarrow> Path_t list \<Rightarrow> Path_t list" where
  "turn_rows e c [] newpath = newpath"
| "turn_rows e c (r # rs) newpath =
     turn_rows (edge r) (cost r) rs
       (\<lparr>node = node r, edge = e, cost = c, agg_cost = 0, pred = 0\<rparr> # newpath)"

definition reverse_path :: "Path \<Rightarrow> Path" where
  "reverse_path p =
     (let p1 = p\<lparr>m_start_id := m_end_id p, m_end_id := m_start_id p\<rparr> in
      if length (path p) \<le> 1 then p1
      else p1\<lparr>path := accumulate 0 (turn_rows (-1) 0 (path p) [])\<rparr>)"

definition recalculate_agg_cost :: "Path \<Rightarrow> Path" where
  "recalculate_agg_cost p =
     p\<lparr>path := accumulate 0 (path p), m_tot_cost := foldl (\<lambda>t r. t + cost r) 0 (path p)\<rparr>"

definition clear_path :: "Path \<Rightarrow> Path" where
  "clear_path p = p\<lparr>path := [], m_tot_cost := 0, m_start_id := 0, m_end_id := 0\<rparr>"

text \<open>\<open>std::search\<close>: the first position where the second sequence occurs in the first.\<close>

fun starts_with :: "('a \<Rightarrow> 'b \<Rightarrow> bool) \<Rightarrow> 'a list \<Rightarrow> 'b list \<Rightarrow> bool" where
  "starts_with eq xs [] = True"
| "starts_with eq [] (y # ys) = False"
| "starts_with eq (x # xs) (y # ys) = (eq x y \<and> starts_with eq xs ys)"

fun std_search :: "('a \<Rightarrow> 'b \<Rightarrow> bool) \<Rightarrow> 'a list \<Rightarrow> 'b list \<Rightarrow> nat" where
  "std_search eq [] ys = 0"
| "std_search eq (x # xs) ys = (if starts_with eq (x # xs) ys then 0 else Suc (std_search eq xs ys))"

definition find_restriction :: "Rule \<Rightarrow> Path \<Rightarrow> nat" where
  "find_restriction rule p = std_search (\<lambda>r e. edge r = e) (path p) (m_all rule)"

definition has_restriction :: "Rule \<Rightarrow> Path \<Rightarrow> bool" where
  "has_restriction rule p \<longleftrightarrow> find_restriction rule p \<noteq> length (path p)"

definition inf_cost_on_restriction :: "Rule \<Rightarrow> Path \<Rightarrow> Path" where
  "inf_cost_on_restriction rule p =
     (let position = std_search (\<lambda>r e. edge r = e) (path p) (m_all rule) in
      if position \<noteq> length (path p)
      then p\<lparr>path := (path p)[position := (path p ! position)\<lparr>agg_cost := PInf\<rparr>]\<rparr>
      else p)"

definition countInfinityCost :: "Path \<Rightarrow> nat" where
  "countInfinityCost p = length (filter (\<lambda>r. agg_cost r = PInf \<or> agg_cost r = NInf) (path p))"

definition getSubpath :: "nat \<Rightarrow> Path \<Rightarrow> Path run" where
  "getSubpath j p =
     (let result = Path_of (m_start_id p) (m_end_id p) in
      if j = 0 then Inr result
      else if length (path p) < j then Inl UndefinedBehaviour
      else Inr (foldl (\<lambda>q r. push_back r q) result (take j (path p))))"

definition isEqual :: "Path \<Rightarrow> Path \<Rightarrow> bool" where
  "isEqual p subpath \<longleftrightarrow>
     (if path subpath = [] then True
      else if length (path p) \<le> length (path subpath) then False
      else list_all (\<lambda>(r, q). node r = node q) (zip (path p) (path subpath)))"

definition appendPath :: "Path \<Rightarrow> Path \<Rightarrow> Path" where
  "appendPath p o_path = recalculate_agg_cost (p\<lparr>path := path p @ path o_path\<rparr>)"

text \<open>\<open>append(other)\<close>; \<open>path.back()\<close> of an empty deque is undefined.\<close>

definition append_path :: "Path \<Rightarrow> Path \<Rightarrow> Path run" where
  "append_path p other =
     bindE (pgassert (m_end_id p = m_start_id other)) (\<lambda>_.
     if m_start_id other = m_end_id other
     then bindE (pgassert (path other = [])) (\<lambda>_. Inr p)
     else if m_start_id p = m_end_id p
     then bindE (pgassert (path p = [])) (\<lambda>_. Inr other)
     else if path p = [] then Inl UndefinedBehaviour
     else
       bindE (pgassert (edge (last (path p)) = -1)) (\<lambda>_.
       let agg = agg_cost (last (path p));
           p1 = p\<lparr>m_end_id := m_end_id other, path := butlast (path p)\<rparr> in
       Inr (foldl (\<lambda>q r. push_back (r\<lparr>agg_cost := agg_cost r + agg\<rparr>) q) p1 (path other))))"

section \<open>Result rows\<close>

definition max_to_infinity :: "double \<Rightarrow> double" where
  "max_to_infinity x = (if \<bar>x - dbl_max\<bar> < 1 then PInf else x)"

definition generate_postgres_data :: "Path \<Rightarrow> Path_rt list" where
  "generate_postgres_data p =
     map (\<lambda>e. \<lparr>start_id = m_start_id p, end_id = m_end_id p, rt_node = node e, rt_edge = edge e,
               rt_cost = max_to_infinity (cost e), rt_agg_cost = max_to_infinity (agg_cost e)\<rparr>)
       (path p)"

definition generate_tuples :: "Path \<Rightarrow> MST_rt list" where
  "generate_tuples p =
     map (\<lambda>e. \<lparr>from_v = m_start_id p, depth = 0, t_pred = pred e, t_node = node e,
               t_edge = edge e, t_cost = max_to_infinity (cost e),
               t_agg_cost = max_to_infinity (agg_cost e)\<rparr>) (path p)"

text \<open>\<open>agg\<close> is the \<open>agg_cost\<close> of the row written before, plus the cost of its edge.\<close>

fun nksp_rows :: "int \<Rightarrow> int \<Rightarrow> double \<Rightarrow> Path_t list \<Rightarrow> Path_rt list" where
  "nksp_rows s e agg [] = []"
| "nksp_rows s e agg (r # rs) =
     \<lparr>start_id = s, end_id = e, rt_node = node r, rt_edge = edge r, rt_cost = cost r,
      rt_agg_cost = agg\<rparr> # nksp_rows s e (agg + cost r) rs"

definition get_pg_nksp_path :: "Path \<Rightarrow> Path_rt list" where
  "get_pg_nksp_path p = nksp_rows (m_start_id p) (m_end_id p) 0 (path p)"

definition get_pg_turn_restricted_path :: "int \<Rightarrow> Path \<Rightarrow> Path_rt list" where
  "get_pg_turn_restricted_path routeId p =
     map (\<lambda>r. \<lparr>start_id = routeId, end_id = m_end_id p, rt_node = node r, rt_edge = edge r,
               rt_cost = cost r, rt_agg_cost = agg_cost r\<rparr>) (path p)"

text \<open>\<open>collapse_paths\<close> for both kinds of rows, and the number of rows \<open>count_tuples\<close>.\<close>

definition collapse_paths :: "Path list \<Rightarrow> Path_rt list" where
  "collapse_paths paths =
     concat (map (\<lambda>p. if 0 < length (path p) then generate_postgres_data p else []) paths)"

definition collapse_paths_tuples :: "Path list \<Rightarrow> MST_rt list" where
  "collapse_paths_tuples paths =
     concat (map (\<lambda>p. if 0 < length (path p) then generate_tuples p else []) paths)"

definition count_tuples :: "Path list \<Rightarrow> nat" where
  "count_tuples paths = foldl (\<lambda>count p. count + length (path p)) 0 paths"

section \<open>Many to many driving distance\<close>

definition sort_by_node_agg_cost :: "Path \<Rightarrow> Path" where
  "sort_by_node_agg_cost p =
     p\<lparr>path := sort_by (\<lambda>l r. agg_cost l < agg_cost r) (sort_by (\<lambda>l r. node l < node r) (path p))\<rparr>"

text \<open>\<open>std::lower_bound\<close> on a range sorted by node.\<close>

definition lower_bound_node :: "int \<Rightarrow> Path_t list \<Rightarrow> nat" where
  "lower_bound_node n rs = length (takeWhile (\<lambda>l. node l < n) rs)"

text \<open>The body of the innermost loop: one \<open>stop\<close> of the other path.\<close>

definition discard :: "Path_t \<Rightarrow> Path_t list \<Rightarrow> Path_t list" where
  "discard stop rs =
     (let i = lower_bound_node (node stop) rs in
      if i \<noteq> length rs \<and> node stop = node (rs ! i) \<and> agg_cost stop < agg_cost (rs ! i)
      then erase_at i rs else rs)"

text \<open>The loop over \<open>p2\<close> for the path at position \<open>i\<close>, which it changes in place.\<close>

definition equi_step :: "nat \<Rightarrow> nat \<Rightarrow> Path list \<Rightarrow> Path list" where
  "equi_step i j paths =
     (if m_start_id (paths ! i) = m_start_id (paths ! j) then paths
      else paths[i := (paths ! i)\<lparr>path := foldl (\<lambda>rs stop. discard stop rs) (path (paths ! i))
                                        (path (paths ! j))\<rparr>])"

definition equi_cost :: "Path list \<Rightarrow> Path list" where
  "equi_cost paths =
     (let by_size = sort_by (\<lambda>e1 e2. length (path e2) < length (path e1)) paths;
          by_node = map (\<lambda>p. if length (path p) < 2 then p
                             else p\<lparr>path := sort_by (\<lambda>e1 e2. node e1 < node e2) (path p)\<rparr>) by_size;
          n = length by_node;
          cleaned = foldl (\<lambda>ps i. foldl (\<lambda>ps j. equi_step i j ps) ps [0..<n]) by_node [0..<n];
          by_start = sort_by (\<lambda>e1 e2. m_start_id e1 < m_start_id e2) cleaned
      in map sort_by_node_agg_cost by_start)"

section \<open>Aggregate costs\<close>

text \<open>\<open>agg_cost\<close> of every row is the cost of the rows before it.\<close>

definition agg_from :: "double \<Rightarrow> Path_t list \<Rightarrow> bool" where
  "agg_from c rs \<longleftrightarrow> accumulate c rs = rs"

abbreviation path_cost :: "Path_t list \<Rightarrow> double" where
  "path_cost rs \<equiv> sum_list (map cost rs)"

lemma accumulate_fields [simp]:
  "length (accumulate c rs) = length rs" "map node (accumulate c rs) = map node rs"
  "map edge (accumulate c rs) = map edge rs" "map cost (accumulate c rs) = map cost rs"
  "map pred (accumulate c rs) = map pred rs" "accumulate c rs = [] \<longleftrightarrow> rs = []"
  by (induction rs arbitrary: c) auto

lemma accumulate_again [simp]: "accumulate c (accumulate d rs) = accumulate c rs"
  by (induction rs arbitrary: c d) auto

lemma agg_from_accumulate [simp]: "agg_from c (accumulate c rs)"
  by (simp add: agg_from_def)

lemma accumulate_append:
  "accumulate c (rs @ qs) = accumulate c rs @ accumulate (c + path_cost rs) qs"
  by (induction rs arbitrary: c) (auto simp: add.assoc)

lemma agg_from_append [simp]:
  "agg_from c (rs @ qs) \<longleftrightarrow> agg_from c rs \<and> agg_from (c + path_cost rs) qs"
  by (simp add: agg_from_def accumulate_append)

lemma agg_from_simps [simp]:
  "agg_from c []" "agg_from c (r # rs) \<longleftrightarrow> agg_cost r = c \<and> agg_from (c + cost r) rs"
  by (auto simp: agg_from_def) (metis Path_t.surjective Path_t.update_convs(4) Path_t.select_convs(4))+

lemma agg_from_nth:
  "agg_from c rs \<Longrightarrow> i < length rs \<Longrightarrow> agg_cost (rs ! i) = c + path_cost (take i rs)"
  by (induction rs arbitrary: c i) (auto simp: nth_Cons' take_Cons' add.assoc)

lemma agg_from_shift:
  "agg_from c rs \<Longrightarrow> c' = c + d \<Longrightarrow> agg_from c' (map (\<lambda>r. r\<lparr>agg_cost := agg_cost r + d\<rparr>) rs)"
proof (induction rs arbitrary: c c')
  case (Cons r rs)
  then show ?case using Cons.IH[of "c + cost r" "c' + cost r"] by (simp add: ac_simps)
qed simp

lemma foldl_push_back:
  "foldl (\<lambda>q r. push_back (f r) q) p rs =
    p\<lparr>path := path p @ map f rs, m_tot_cost := m_tot_cost p + path_cost (map f rs)\<rparr>"
  by (induction rs arbitrary: p) (auto simp: push_back_def add.assoc)

lemma foldl_cost: "foldl (\<lambda>t r. t + cost r) c rs = c + path_cost rs"
  by (induction rs arbitrary: c) (auto simp: add.assoc)

section \<open>Finished paths\<close>

text \<open>A path that a search returns: it starts and ends where it says, its last row has no edge.\<close>

definition path_ok :: "Path \<Rightarrow> bool" where
  "path_ok p \<longleftrightarrow>
     path p \<noteq> [] \<and> edge (last (path p)) = -1 \<and> cost (last (path p)) = 0 \<and>
     node (hd (path p)) = m_start_id p \<and> node (last (path p)) = m_end_id p \<and>
     agg_from 0 (path p) \<and> m_tot_cost p = path_cost (path p)"

lemma recalculate_agg_cost_ok:
  "agg_from 0 (path (recalculate_agg_cost p)) \<and>
   m_tot_cost (recalculate_agg_cost p) = path_cost (path (recalculate_agg_cost p))"
  by (simp add: recalculate_agg_cost_def foldl_cost)

lemma append_path_joins:
  assumes "path_ok p" "path_ok q" "m_end_id p = m_start_id q" "m_start_id p \<noteq> m_end_id p"
    "m_start_id q \<noteq> m_end_id q"
  shows "\<exists>r. append_path p q = Inr r \<and> path_ok r \<and> m_start_id r = m_start_id p \<and>
    m_end_id r = m_end_id q \<and> m_tot_cost r = m_tot_cost p + m_tot_cost q \<and>
    map node (path r) = butlast (map node (path p)) @ map node (path q) \<and>
    map edge (path r) = butlast (map edge (path p)) @ map edge (path q)"
proof -
  let ?a = "agg_cost (last (path p))"
  let ?f = "\<lambda>r. r\<lparr>agg_cost := agg_cost r + ?a\<rparr>"
  have p: "path p = butlast (path p) @ [last (path p)]" using assms(1) by (simp add: path_ok_def)
  have agg: "?a = path_cost (butlast (path p))" "agg_from 0 (butlast (path p))"
    using assms(1) p agg_from_append[of 0 "butlast (path p)" "[last (path p)]"]
    by (auto simp: path_ok_def)
  have tot: "m_tot_cost p = path_cost (butlast (path p))"
    using assms(1) arg_cong[OF p, of path_cost] by (simp add: path_ok_def)
  have costs: "map cost (map ?f (path q)) = map cost (path q)" by simp
  define r where "r = p\<lparr>m_end_id := m_end_id q, path := butlast (path p) @ map ?f (path q),
    m_tot_cost := m_tot_cost p + path_cost (path q)\<rparr>"
  have "append_path p q = Inr r"
    using assms unfolding append_path_def r_def
    by (simp add: path_ok_def foldl_push_back Let_def comp_def)
  moreover have "agg_from 0 (path r)"
    using agg agg_from_shift[of 0 "path q" ?a ?a] assms(2) by (simp add: r_def path_ok_def)
  moreover have "node (hd (path r)) = m_start_id p"
    using assms(1,2,3,4) arg_cong[OF p, of hd]
    by (cases "butlast (path p)") (auto simp: r_def path_ok_def hd_map hd_append)
  ultimately show ?thesis
    using assms tot by (intro exI[of _ r]) (auto simp: r_def path_ok_def comp_def last_map map_butlast)
qed

section \<open>Reversal\<close>

abbreviation legs :: "Path_t list \<Rightarrow> (int \<times> double) list" where
  "legs rs \<equiv> map (\<lambda>r. (edge r, cost r)) rs"

lemma turn_rows_fields:
  "map node (turn_rows e c rs qs) = rev (map node rs) @ map node qs"
  "legs (turn_rows e c rs qs) = rev (butlast ((e, c) # legs rs)) @ legs qs"
  "map pred (turn_rows e c rs qs) = replicate (length rs) 0 @ map pred qs"
  by (induction rs arbitrary: e c qs) (auto simp: replicate_app_Cons_same)

lemma rows_determined:
  assumes "map node rs = map node qs" "legs rs = legs qs" "map pred rs = map pred qs"
    and "agg_from c rs" "agg_from c qs"
  shows "rs = qs"
  using assms
proof (induction rs arbitrary: qs c)
  case (Cons r rs)
  then obtain q qs' where "qs = q # qs'" by (cases qs) auto
  then show ?case using Cons.prems Cons.IH[of qs' "c + cost r"] by (auto intro: Path_t.equality)
qed simp

lemma reverse_path_fields:
  assumes "path_ok p"
  shows "m_start_id (reverse_path p) = m_end_id p \<and> m_end_id (reverse_path p) = m_start_id p \<and>
    map node (path (reverse_path p)) = rev (map node (path p)) \<and>
    legs (path (reverse_path p)) = rev (butlast (legs (path p))) @ [(-1, 0)] \<and>
    agg_from 0 (path (reverse_path p)) \<and> m_tot_cost (reverse_path p) = m_tot_cost p"
proof (cases "length (path p) \<le> 1")
  case True
  then obtain r where r: "path p = [r]" using assms by (cases "path p") (auto simp: path_ok_def)
  then show ?thesis using assms by (simp add: reverse_path_def path_ok_def Let_def)
next
  case False
  have legs_acc: "legs (accumulate c rs) = legs rs" for c rs by (induction rs arbitrary: c) auto
  show ?thesis
    using assms False by (simp add: reverse_path_def path_ok_def Let_def turn_rows_fields legs_acc)
qed

lemma legs_cost: "path_cost rs = sum_list (map snd (legs rs))"
  by (simp add: comp_def)

lemma reverse_path_ok:
  assumes "path_ok p"
  shows "path_ok (reverse_path p)"
proof -
  note f = reverse_path_fields[OF assms]
  let ?rs = "path (reverse_path p)"
  have ne: "path p \<noteq> []" "?rs \<noteq> []" using assms f by (auto simp: path_ok_def)
  have "legs ?rs = rev (butlast (legs (path p))) @ [(-1, 0)]" using f by blast
  then have "last (legs ?rs) = (-1, 0)" by simp
  then have "edge (last ?rs) = -1 \<and> cost (last ?rs) = 0" using ne by (simp add: last_map)
  moreover have "node (hd ?rs) = m_end_id p" "node (last ?rs) = m_start_id p"
    using assms f ne by (simp_all add: path_ok_def flip: hd_map last_map) (simp_all add: hd_rev last_rev hd_map last_map)
  moreover have "path_cost ?rs = path_cost (path p)"
  proof -
    have "path_cost ?rs = sum_list (map snd (butlast (legs (path p))))"
      using f by (simp add: legs_cost rev_map[symmetric] del: map_map)
    also have "\<dots> = sum_list (map snd (butlast (legs (path p)) @ [last (legs (path p))]))"
      using assms ne by (simp add: last_map path_ok_def del: append_butlast_last_id)
    also have "\<dots> = path_cost (path p)" using ne by (simp add: comp_def)
    finally show ?thesis .
  qed
  ultimately show ?thesis using assms f ne by (simp add: path_ok_def)
qed

lemma reverse_reverse_path:
  assumes "path_ok p" "\<forall>r \<in> set (path p). pred r = 0"
  shows "reverse_path (reverse_path p) = p"
proof -
  note f = reverse_path_fields[OF assms(1)]
  note g = reverse_path_fields[OF reverse_path_ok[OF assms(1)]]
  let ?q = "reverse_path (reverse_path p)"
  have pred: "map pred (path (reverse_path q)) = replicate (length (path q)) 0"
    if "\<forall>r \<in> set (path q). pred r = 0" for q
    using that by (simp add: reverse_path_def Let_def turn_rows_fields map_replicate_const[symmetric])
  have "map pred (path (reverse_path p)) = replicate (length (path p)) 0" by (rule pred[OF assms(2)])
  then have "set (map pred (path (reverse_path p))) \<subseteq> {0}"
    by (simp only: set_replicate_conv_if) auto
  then have "\<forall>r \<in> set (path (reverse_path p)). pred r = 0" by auto
  from pred[OF this] have "map pred (path ?q) = replicate (length (path (reverse_path p))) 0" .
  have preds: "map pred (path ?q) = map pred (path p)"
  proof -
    have "length (path (reverse_path p)) = length (path p)"
      using f by (metis length_map length_rev)
    moreover have "map pred (path p) = replicate (length (path p)) 0"
      using assms(2) by (simp add: map_replicate_const[symmetric])
    ultimately show ?thesis using \<open>map pred (path ?q) = _\<close> by simp
  qed
  have "legs (path p) \<noteq> []" "last (legs (path p)) = (-1, 0)"
    using assms(1) by (simp_all add: path_ok_def last_map)
  then have "butlast (legs (path p)) @ [(-1, 0)] = legs (path p)" by (metis append_butlast_last_id)
  moreover have "legs (path ?q) = butlast (legs (path p)) @ [(-1, 0)]"
    using f g by (simp add: butlast_append)
  ultimately have legs: "legs (path ?q) = legs (path p)" by simp
  have nodes: "map node (path ?q) = map node (path p)" using f g by simp
  have "path ?q = path p"
    by (rule rows_determined[OF nodes legs preds, of 0]) (use g assms(1) in \<open>simp_all add: path_ok_def\<close>)
  then show ?thesis using f g by (intro Path.equality) simp_all
qed

section \<open>Searching a restriction\<close>

lemma starts_with_prefix: "starts_with (\<lambda>r e. f r = e) xs ys \<longleftrightarrow> prefix ys (map f xs)"
  by (induction "\<lambda>r e. f r = e" xs ys rule: starts_with.induct) auto

text \<open>The position found: an occurrence with none before it, or the length when there is none.\<close>

lemma std_search_le: "std_search eq xs ys \<le> length xs"
  by (induction xs) auto

lemma std_search_found:
  "std_search (\<lambda>r e. f r = e) xs ys < length xs \<Longrightarrow>
    prefix ys (drop (std_search (\<lambda>r e. f r = e) xs ys) (map f xs))"
  by (induction xs) (auto simp: starts_with_prefix simp del: starts_with.simps split: if_splits)

lemma std_search_first:
  "i < std_search (\<lambda>r e. f r = e) xs ys \<Longrightarrow> \<not> prefix ys (drop i (map f xs))"
proof (induction xs arbitrary: i)
  case (Cons x xs)
  then show ?case
    by (cases i) (auto simp: starts_with_prefix simp del: starts_with.simps split: if_splits)
qed simp

lemma has_restriction_sublist:
  assumes "m_all rule \<noteq> []"
  shows "has_restriction rule p \<longleftrightarrow> sublist (m_all rule) (map edge (path p))"
proof
  let ?i = "find_restriction rule p"
  assume "has_restriction rule p"
  then have "?i < length (path p)"
    using std_search_le by (auto simp: has_restriction_def find_restriction_def order.strict_iff_order)
  then have "prefix (m_all rule) (drop ?i (map edge (path p)))"
    unfolding find_restriction_def by (rule std_search_found)
  then show "sublist (m_all rule) (map edge (path p))"
    by (metis append_take_drop_id prefix_def sublist_appendI append.assoc)
next
  assume "sublist (m_all rule) (map edge (path p))"
  then obtain us vs where uv: "map edge (path p) = us @ m_all rule @ vs" by (auto simp: sublist_def)
  then have "prefix (m_all rule) (drop (length us) (map edge (path p)))" by simp
  then have "find_restriction rule p \<le> length us"
    using std_search_first[of "length us" edge "path p" "m_all rule"] unfolding find_restriction_def by fastforce
  also have "length us < length (path p)" using assms arg_cong[OF uv, of length] by simp
  finally show "has_restriction rule p" by (simp add: has_restriction_def)
qed

lemma Rule_of_parts:
  assumes "Rule_of r = Inr rule"
  shows "m_all rule = rev (m_precedencelist rule) @ [m_dest_id rule] \<and> m_all rule = via_edges r \<and>
    rule_cost rule = restriction_cost r"
  using assms by (auto simp: Rule_of_def split: if_splits)

section \<open>Rows and renumbering\<close>

lemma length_collapse_paths:
  "length (collapse_paths ps) = count_tuples ps" "length (collapse_paths_tuples ps) = count_tuples ps"
proof -
  have "foldl (\<lambda>n p. n + length (path p)) k ps = k + sum_list (map (\<lambda>p. length (path p)) ps)" for k
    by (induction ps arbitrary: k) auto
  then have "count_tuples ps = sum_list (map (\<lambda>p. length (path p)) ps)" by (simp add: count_tuples_def)
  then show "length (collapse_paths ps) = count_tuples ps" "length (collapse_paths_tuples ps) = count_tuples ps"
    by (auto simp: collapse_paths_def collapse_paths_tuples_def length_concat comp_def generate_postgres_data_def
        generate_tuples_def intro!: arg_cong[of _ _ sum_list] map_cong)
qed

lemma renumber_vertices_Inr_iff:
  "renumber_vertices m p = Inr q \<longleftrightarrow>
    m (m_start_id p) = Some (m_start_id q) \<and> m (m_end_id p) = Some (m_end_id q) \<and> m_tot_cost q = m_tot_cost p \<and>
    list_all2 (\<lambda>r r'. m (node r) = Some (node r') \<and> r' = r\<lparr>node := node r'\<rparr>) (path p) (path q)"
  (is "?L \<longleftrightarrow> ?R")
proof -
  have at: "map_at m k = Inr x \<longleftrightarrow> m k = Some x" for k x by (simp add: map_at_def split: option.splits)
  have row: "(\<exists>x. m (node r) = Some x \<and> r\<lparr>node := x\<rparr> = r') \<longleftrightarrow>
      m (node r) = Some (node r') \<and> r' = r\<lparr>node := node r'\<rparr>" for r r'
    by (metis Path_t.select_convs(1) Path_t.surjective Path_t.update_convs(1))
  show ?thesis
    by (auto simp: renumber_vertices_def bindE_Inr_iff at mapE_Inr_iff row intro!: Path.equality
        exI[of _ "path q"])
qed

lemma renumber_vertices_back:
  assumes "renumber_vertices m p = Inr q" "\<And>i x. m i = Some x \<Longrightarrow> m' x = Some i"
  shows "renumber_vertices m' q = Inr p"
proof -
  have "list_all2 (\<lambda>r r'. m' (node r) = Some (node r') \<and> r' = r\<lparr>node := node r'\<rparr>) (path q) (path p)"
    using assms unfolding renumber_vertices_Inr_iff
    by (auto simp: list_all2_conv_all_nth) (metis Path_t.surjective Path_t.update_convs(1))
  then show ?thesis using assms by (simp add: renumber_vertices_Inr_iff)
qed

end
