(* ===== verification/Equi_costs.thy ===== *)
theory Equi_costs
  imports Paths
begin

text \<open>
  What \<open>equi_cost\<close> computes: every path keeps exactly the nodes that no path reaches at a
  smaller aggregate cost.  The innermost loop is a filter on paths sorted by node
  (\<open>foldl_discard\<close>); the loop over the other paths may compare with paths that were already
  thinned out, which changes nothing because a cheapest row is never erased (\<open>cheapest_row\<close>).
\<close>

section \<open>The innermost loop\<close>

definition better :: "Path_t \<Rightarrow> Path_t \<Rightarrow> bool" where
  "better t r \<longleftrightarrow> node t = node r \<and> agg_cost t < agg_cost r"

abbreviation by_node :: "Path_t list \<Rightarrow> bool" where
  "by_node rs \<equiv> sorted_wrt (\<lambda>l r. node l < node r) rs"

lemma discard_filter: "by_node rs \<Longrightarrow> discard stop rs = filter (\<lambda>r. \<not> better stop r) rs"
proof (induction rs)
  case Nil
  then show ?case by (simp add: discard_def lower_bound_node_def Let_def)
next
  case (Cons r rs)
  have others: "filter (\<lambda>r. \<not> better stop r) rs = rs" if "node stop \<le> node r"
    using that Cons.prems by (auto simp: filter_id_conv better_def)
  show ?case
  proof (cases "node r < node stop")
    case True
    then have "discard stop (r # rs) = r # discard stop rs"
      by (simp add: discard_def lower_bound_node_def Let_def erase_at_def)
    then show ?thesis using Cons True by (simp add: better_def)
  next
    case False
    then show ?thesis
      using others by (auto simp: discard_def lower_bound_node_def Let_def erase_at_def better_def)
  qed
qed

lemma foldl_discard:
  "by_node rs \<Longrightarrow>
    foldl (\<lambda>rs stop. discard stop rs) rs stops = filter (\<lambda>r. \<not> (\<exists>t \<in> set stops. better t r)) rs"
proof (induction stops arbitrary: rs)
  case (Cons t ts)
  have "by_node (filter (\<lambda>r. \<not> better t r) rs)" using Cons.prems by (rule sorted_wrt_filter)
  from Cons.IH[OF this] show ?case
    using Cons.prems by (simp add: discard_filter conj_commute)
qed simp

section \<open>The loops over the paths\<close>

definition rows_for :: "Path list \<Rightarrow> nat \<Rightarrow> Path_t set" where
  "rows_for ps i = set (path (ps ! i))"

text \<open>The rows of a path that no path of the family reaches at a smaller cost.\<close>

definition nearest :: "Path list \<Rightarrow> Path_t list \<Rightarrow> Path_t list" where
  "nearest ps rs = filter (\<lambda>r. \<not> (\<exists>j < length ps. \<exists>t \<in> rows_for ps j. better t r)) rs"

definition equi_ok :: "Path list \<Rightarrow> bool" where
  "equi_ok ps \<longleftrightarrow> distinct (map m_start_id ps) \<and> (\<forall>p \<in> set ps. by_node (path p))"

lemma better_trans: "better s t \<Longrightarrow> better t r \<Longrightarrow> better s r"
  by (auto simp: better_def intro: dbl_less_trans)

lemma not_better_refl [simp]: "\<not> better r r"
  by (simp add: better_def)

text \<open>If some row is better than \<open>r\<close>, a best row is, and none is better than that one.\<close>

lemma cheapest_row:
  assumes "finite A" "t \<in> A" "better t r"
  obtains s where "s \<in> A" "better s r" "\<And>u. u \<in> A \<Longrightarrow> \<not> better u s"
proof -
  define B where "B = {s \<in> A. better s r}"
  have "finite B" "B \<noteq> {}" using assms by (auto simp: B_def)
  moreover have "transp_on B better" "asymp_on B better"
    by (auto intro!: transp_onI asymp_onI dest: better_trans)
  ultimately obtain s where s: "s \<in> B" "\<And>u. u \<in> B \<Longrightarrow> u \<noteq> s \<Longrightarrow> \<not> better u s"
    using Finite_Set.bex_min_element[of B better] by blast
  have "\<not> better u s" if "u \<in> A" for u
    using that s better_trans[of u s r] unfolding B_def by (cases "u = s") auto
  then show thesis using that s(1) unfolding B_def by blast
qed

lemma rows_update: "i < length ps \<Longrightarrow> rows_for (ps[i := p]) j = (if j = i then set (path p) else rows_for ps j)"
  by (simp add: rows_for_def)

lemma equi_loop:
  assumes "distinct (map m_start_id ps)" "i < length ps" "by_node (path (ps ! i))" "set js \<subseteq> {..<length ps}"
  shows "foldl (\<lambda>ps j. equi_step i j ps) ps js =
    ps[i := (ps ! i)\<lparr>path := filter (\<lambda>r. \<not> (\<exists>j \<in> set js - {i}. \<exists>t \<in> rows_for ps j. better t r)) (path (ps ! i))\<rparr>]"
  using assms(4)
proof (induction js rule: rev_induct)
  case Nil
  show ?case by (simp add: filter_True)
next
  case (snoc j js)
  let ?P = "\<lambda>js r. \<not> (\<exists>j \<in> set js - {i}. \<exists>t \<in> rows_for ps j. better t r)"
  let ?ps = "ps[i := (ps ! i)\<lparr>path := filter (?P js) (path (ps ! i))\<rparr>]"
  have j: "j < length ps" using snoc.prems by simp
  show ?case
  proof (cases "j = i")
    case True
    then show ?thesis using snoc by (simp add: equi_step_def)
  next
    case False
    then have "m_start_id (ps ! i) \<noteq> m_start_id (ps ! j)"
      using assms(1,2) j by (simp add: distinct_conv_nth)
    moreover have "by_node (filter (?P js) (path (ps ! i)))" using assms(3) by (rule sorted_wrt_filter)
    ultimately have "equi_step i j ?ps =
        ps[i := (ps ! i)\<lparr>path := filter (\<lambda>r. \<not> (\<exists>t \<in> rows_for ps j. better t r)) (filter (?P js) (path (ps ! i)))\<rparr>]"
      using False assms(2) by (simp add: equi_step_def foldl_discard rows_for_def)
    also have "filter (\<lambda>r. \<not> (\<exists>t \<in> rows_for ps j. better t r)) (filter (?P js) (path (ps ! i))) =
        filter (?P (js @ [j])) (path (ps ! i))"
      using False by (auto intro!: filter_cong)
    finally show ?thesis using snoc by simp
  qed
qed

text \<open>A path with one row per node: the row itself is not better than itself.\<close>

lemma better_within: "by_node rs \<Longrightarrow> t \<in> set rs \<Longrightarrow> r \<in> set rs \<Longrightarrow> \<not> better t r"
  by (induction rs) (auto simp: better_def)

definition thinned :: "Path list \<Rightarrow> nat \<Rightarrow> Path list" where
  "thinned ps m = map (\<lambda>k. if k < m then (ps ! k)\<lparr>path := nearest ps (path (ps ! k))\<rparr> else ps ! k) [0..<length ps]"

lemma thinned_simps [simp]:
  "length (thinned ps m) = length ps" "thinned ps 0 = ps"
  "map m_start_id (thinned ps m) = map m_start_id ps"
  by (auto simp: thinned_def map_nth intro: nth_equalityI)

lemma thinned_rows_subset: "j < length ps \<Longrightarrow> rows_for (thinned ps m) j \<subseteq> rows_for ps j"
  by (auto simp: thinned_def rows_for_def nearest_def)

lemma thinned_keeps_cheapest:
  assumes "j < length ps" "s \<in> rows_for ps j" "\<And>k u. k < length ps \<Longrightarrow> u \<in> rows_for ps k \<Longrightarrow> \<not> better u s"
  shows "s \<in> rows_for (thinned ps m) j"
  using assms by (auto simp: thinned_def rows_for_def nearest_def)

lemma finite_rows: "finite (\<Union>k < length ps. rows_for ps k)"
  by (auto simp: rows_for_def)

lemma better_in_thinned:
  "(\<exists>j < length ps. \<exists>t \<in> rows_for (thinned ps m) j. better t r) \<longleftrightarrow>
   (\<exists>j < length ps. \<exists>t \<in> rows_for ps j. better t r)" (is "?L \<longleftrightarrow> ?R")
proof
  show "?L \<Longrightarrow> ?R" using thinned_rows_subset by blast
next
  assume ?R
  then obtain j t where "j < length ps" "t \<in> rows_for ps j" "better t r" by blast
  then obtain s where s: "s \<in> (\<Union>k < length ps. rows_for ps k)" "better s r"
      "\<And>u. u \<in> (\<Union>k < length ps. rows_for ps k) \<Longrightarrow> \<not> better u s"
    using cheapest_row[OF finite_rows, of t ps r] by blast
  then obtain k where "k < length ps" "s \<in> rows_for ps k" by blast
  moreover from this s(3) have "s \<in> rows_for (thinned ps m) k" by (intro thinned_keeps_cheapest) auto
  ultimately show ?L using s(2) by blast
qed

lemma thinned_Suc:
  assumes "equi_ok ps" "m < length ps"
  shows "foldl (\<lambda>ps j. equi_step m j ps) (thinned ps m) [0..<length ps] = thinned ps (Suc m)"
proof -
  let ?q = "thinned ps m"
  have m: "?q ! m = ps ! m" using assms(2) by (simp add: thinned_def)
  have b: "by_node (path (ps ! m))" using assms by (simp add: equi_ok_def)
  have "(\<exists>j \<in> set [0..<length ps] - {m}. \<exists>t \<in> rows_for ?q j. better t r) \<longleftrightarrow>
      (\<exists>j < length ps. \<exists>t \<in> rows_for ps j. better t r)" if "r \<in> set (path (ps ! m))" for r
  proof -
    have "\<not> better t r" if "t \<in> rows_for ?q m" for t
      using better_within[OF b _ \<open>r \<in> _\<close>, of t] that m by (simp add: rows_for_def)
    then show ?thesis unfolding better_in_thinned[of ps m r, symmetric] by auto
  qed
  then have "filter (\<lambda>r. \<not> (\<exists>j \<in> set [0..<length ps] - {m}. \<exists>t \<in> rows_for ?q j. better t r)) (path (ps ! m)) =
      nearest ps (path (ps ! m))"
    unfolding nearest_def by (intro filter_cong) auto
  moreover have "foldl (\<lambda>ps j. equi_step m j ps) ?q [0..<length ps] =
      ?q[m := (?q ! m)\<lparr>path := filter (\<lambda>r. \<not> (\<exists>j \<in> set [0..<length ps] - {m}. \<exists>t \<in> rows_for ?q j. better t r)) (path (?q ! m))\<rparr>]"
    using assms b m by (intro equi_loop) (auto simp: equi_ok_def)
  ultimately have "foldl (\<lambda>ps j. equi_step m j ps) ?q [0..<length ps] =
      ?q[m := (ps ! m)\<lparr>path := nearest ps (path (ps ! m))\<rparr>]"
    by (simp only: m)
  also have "\<dots> = thinned ps (Suc m)"
    using assms(2) by (auto intro!: nth_equalityI simp: thinned_def nth_list_update less_Suc_eq)
  finally show ?thesis .
qed

lemma equi_loops:
  assumes "equi_ok ps" "m \<le> length ps"
  shows "foldl (\<lambda>ps' i. foldl (\<lambda>ps j. equi_step i j ps) ps' [0..<length ps]) ps [0..<m] = thinned ps m"
  using assms(2)
proof (induction m)
  case (Suc m)
  then show ?case using thinned_Suc[OF assms(1), of m] by simp
qed simp

section \<open>The whole function\<close>

lemma sorted_by_key:
  fixes f :: "'a \<Rightarrow> int"
  shows "sorted_wrt (\<lambda>a b. f a \<le> f b) (sort_by (\<lambda>x y. f x < f y) xs)"
proof -
  have "strict_weak_on (set xs) (\<lambda>x y. f x < f y)" by (auto simp: strict_weak_on_def)
  from sorted_sort_by[OF this] show ?thesis by (simp add: not_less)
qed

lemma by_node_sort:
  assumes "distinct (map node rs)"
  shows "by_node (sort_by (\<lambda>e1 e2. node e1 < node e2) rs)" (is "by_node ?s")
proof -
  have "mset (map node ?s) = mset (map node rs)" by simp
  then have "distinct (map node ?s)" using assms by (metis mset_eq_imp_distinct_iff)
  then show ?thesis
    using sorted_by_key[of node rs] by (auto simp: sorted_wrt_iff_nth_less distinct_conv_nth order.strict_iff_order)
qed

definition node_sorted :: "Path \<Rightarrow> Path" where
  "node_sorted p =
     (if length (path p) < 2 then p else p\<lparr>path := sort_by (\<lambda>e1 e2. node e1 < node e2) (path p)\<rparr>)"

lemma node_sorted_simps [simp]:
  "m_start_id (node_sorted p) = m_start_id p" "m_end_id (node_sorted p) = m_end_id p"
  "set (path (node_sorted p)) = set (path p)"
  by (simp_all add: node_sorted_def)

lemma by_node_node_sorted: "distinct (map node (path p)) \<Longrightarrow> by_node (path (node_sorted p))"
  by (cases "path p" rule: remdups_adj.cases) (auto simp: node_sorted_def by_node_sort simp del: sort_by.simps)

definition summary :: "Path \<Rightarrow> int \<times> int \<times> Path_t set" where
  "summary p = (m_start_id p, m_end_id p, set (path p))"

lemma summary_sorted [simp]: "summary (sort_by_node_agg_cost p) = summary p"
  by (simp add: summary_def sort_by_node_agg_cost_def)

lemma sort_by_node_agg_cost_start [simp]: "m_start_id (sort_by_node_agg_cost p) = m_start_id p"
  by (simp add: sort_by_node_agg_cost_def)

text \<open>The rows_for of \<open>p\<close> that no path of the family reaches at a smaller cost.\<close>

definition nearest_rows :: "Path set \<Rightarrow> Path \<Rightarrow> Path_t set" where
  "nearest_rows ps p = {r \<in> set (path p). \<forall>q \<in> ps. \<forall>t \<in> set (path q). \<not> better t r}"

lemma set_nearest: "set (nearest ps (path p)) = nearest_rows (set ps) p"
proof -
  have "(\<exists>j < length ps. \<exists>t \<in> rows_for ps j. better t r) \<longleftrightarrow> (\<exists>q \<in> set ps. \<exists>t \<in> set (path q). better t r)" for r
    unfolding rows_for_def by (metis in_set_conv_nth)
  then show ?thesis by (auto simp: nearest_def nearest_rows_def)
qed

lemma nearest_rows_node_sorted: "nearest_rows (node_sorted ` ps) (node_sorted p) = nearest_rows ps p"
  by (simp add: nearest_rows_def)

lemma summary_thinned:
  "set (map summary (thinned ps (length ps))) =
   (\<lambda>p. (m_start_id p, m_end_id p, nearest_rows (set ps) p)) ` set ps"
proof -
  have "map summary (thinned ps (length ps)) =
      map (\<lambda>k. (m_start_id (ps ! k), m_end_id (ps ! k), nearest_rows (set ps) (ps ! k))) [0..<length ps]"
    by (simp add: thinned_def summary_def set_nearest comp_def)
  also have "set \<dots> = (\<lambda>p. (m_start_id p, m_end_id p, nearest_rows (set ps) p)) ` ((!) ps ` {0..<length ps})"
    by (simp add: image_image)
  also have "(!) ps ` {0..<length ps} = set ps" by (simp add: set_conv_nth image_def) (metis atLeastLessThan_iff zero_le)
  finally show ?thesis .
qed

lemma equi_cost_summaries:
  assumes "distinct (map m_start_id paths)" "\<forall>p \<in> set paths. distinct (map node (path p))"
  shows "summary ` set (equi_cost paths) =
    (\<lambda>p. (m_start_id p, m_end_id p, nearest_rows (set paths) p)) ` set paths"
    and "sorted (map m_start_id (equi_cost paths))"
proof -
  define ps where "ps = map node_sorted (sort_by (\<lambda>e1 e2. length (path e2) < length (path e1)) paths)"
  have set_ps: "set ps = node_sorted ` set paths" by (simp add: ps_def)
  have "mset (map m_start_id ps) = mset (map m_start_id paths)" by (simp add: ps_def comp_def)
  then have "equi_ok ps"
    using assms set_ps mset_eq_imp_distinct_iff[of "map m_start_id ps" "map m_start_id paths"]
    by (auto simp: equi_ok_def by_node_node_sorted)
  then have equi: "equi_cost paths =
      map sort_by_node_agg_cost (sort_by (\<lambda>e1 e2. m_start_id e1 < m_start_id e2) (thinned ps (length ps)))"
    using equi_loops[of ps "length ps"] by (simp add: equi_cost_def Let_def ps_def node_sorted_def[abs_def])
  show "sorted (map m_start_id (equi_cost paths))"
    using sorted_by_key[of m_start_id "thinned ps (length ps)"]
    by (simp add: equi sorted_map sorted_wrt_map comp_def)
  have "summary ` set (equi_cost paths) = set (map summary (thinned ps (length ps)))"
    by (simp add: equi image_image)
  also have "\<dots> = (\<lambda>p. (m_start_id p, m_end_id p, nearest_rows (set ps) p)) ` set ps"
    by (rule summary_thinned)
  also have "\<dots> = (\<lambda>p. (m_start_id p, m_end_id p, nearest_rows (set paths) p)) ` set paths"
    by (simp add: set_ps image_image nearest_rows_node_sorted)
  finally show "summary ` set (equi_cost paths) =
    (\<lambda>p. (m_start_id p, m_end_id p, nearest_rows (set paths) p)) ` set paths" .
qed

end
