(* ===== verification/Trsp.thy ===== *)
theory Trsp
  imports Paths
begin

text \<open>
  Shortest paths with turn restrictions: classes \<open>EdgeInfo\<close> and \<open>TrspHandler\<close> of
  \<open>include/trsp\<close> and \<open>src/trsp\<close>.

  A \<open>std::map\<close> is a list of pairs in the order of the keys, a vector of the fixed size two is a
  pair, and the priority queue is a list in the order in which it is emptied.  Every access to a
  vector that the code does not check is an \<open>nthE\<close>.  The two loops that follow data (the
  exploration and the walk back along the predecessors) carry a bound on their rounds.
\<close>

section \<open>Maps\<close>

type_synonym ('k, 'v) std_map = "('k \<times> 'v) list"

fun map_put :: "'k :: linorder \<Rightarrow> 'v \<Rightarrow> ('k, 'v) std_map \<Rightarrow> ('k, 'v) std_map" where
  "map_put k v [] = [(k, v)]"
| "map_put k v ((k', v') # m) =
     (if k < k' then (k, v) # (k', v') # m
      else if k = k' then (k, v) # m
      else (k', v') # map_put k v m)"

text \<open>\<open>m[k].push_back(x)\<close>: a missing key gets an empty vector first.\<close>

definition map_push :: "'k :: linorder \<Rightarrow> 'x \<Rightarrow> ('k, 'x list) std_map \<Rightarrow> ('k, 'x list) std_map" where
  "map_push k x m = map_put k ((case map_of m k of None \<Rightarrow> [] | Some xs \<Rightarrow> xs) @ [x]) m"

section \<open>Edges\<close>

record Edge_t =
  edge_id :: int
  source :: int
  target :: int
  edge_cost :: double
  reverse_cost :: double

record EdgeInfo =
  m_edge :: Edge_t
  m_edgeIndex :: nat
  m_startConnectedEdge :: "nat list"
  m_endConnectedEdge :: "nat list"

definition EdgeInfo_of :: "Edge_t \<Rightarrow> nat \<Rightarrow> EdgeInfo" where
  "EdgeInfo_of edgeIn edgeIndex =
     \<lparr>m_edge = edgeIn, m_edgeIndex = edgeIndex, m_startConnectedEdge = [], m_endConnectedEdge = []\<rparr>"

abbreviation startNode :: "EdgeInfo \<Rightarrow> int" where
  "startNode e \<equiv> source (m_edge e)"

abbreviation endNode :: "EdgeInfo \<Rightarrow> int" where
  "endNode e \<equiv> target (m_edge e)"

abbreviation edgeID :: "EdgeInfo \<Rightarrow> int" where
  "edgeID e \<equiv> edge_id (m_edge e)"

abbreviation c_cost :: "EdgeInfo \<Rightarrow> double" where
  "c_cost e \<equiv> edge_cost (m_edge e)"

abbreviation r_cost :: "EdgeInfo \<Rightarrow> double" where
  "r_cost e \<equiv> reverse_cost (m_edge e)"

definition connect_endEdge :: "nat \<Rightarrow> EdgeInfo \<Rightarrow> EdgeInfo" where
  "connect_endEdge edge_idx e = e\<lparr>m_endConnectedEdge := m_endConnectedEdge e @ [edge_idx]\<rparr>"

definition connect_startEdge :: "nat \<Rightarrow> EdgeInfo \<Rightarrow> EdgeInfo" where
  "connect_startEdge edge_idx e = e\<lparr>m_startConnectedEdge := m_startConnectedEdge e @ [edge_idx]\<rparr>"

definition get_idx :: "bool \<Rightarrow> EdgeInfo \<Rightarrow> nat list" where
  "get_idx isStart e = (if isStart then m_startConnectedEdge e else m_endConnectedEdge e)"

definition get_cost :: "int \<Rightarrow> EdgeInfo \<Rightarrow> double run" where
  "get_cost n e =
     bindE (pgassert (n = startNode e \<or> n = endNode e)) (\<lambda>_.
     Inr (if n = startNode e then c_cost e else r_cost e))"

section \<open>The state of the handler\<close>

datatype Position = ILLEGAL | RC_EDGE | C_EDGE

text \<open>The vectors \<open>e_idx\<close> and \<open>v_pos\<close> of size two, indexed by a position; \<open>ILLEGAL\<close> is -1.\<close>

record Predecessor =
  e_idx :: "nat \<times> nat"
  v_pos :: "Position \<times> Position"

fun at_pos :: "'a \<times> 'a \<Rightarrow> Position \<Rightarrow> 'a run" where
  "at_pos xs ILLEGAL = Inl UndefinedBehaviour"
| "at_pos xs RC_EDGE = Inr (fst xs)"
| "at_pos xs C_EDGE = Inr (snd xs)"

definition no_predecessor :: Predecessor where
  "no_predecessor = \<lparr>e_idx = (0, 0), v_pos = (ILLEGAL, ILLEGAL)\<rparr>"

definition isIllegal :: "Position \<Rightarrow> Predecessor \<Rightarrow> bool run" where
  "isIllegal i p =
     bindE (pgassert (i \<noteq> ILLEGAL)) (\<lambda>_. bindE (at_pos (v_pos p) i) (\<lambda>q. Inr (q = ILLEGAL)))"

record CostHolder =
  startCost :: double
  endCost :: double

definition max_costs :: CostHolder where
  "max_costs = \<lparr>startCost = dbl_max, endCost = dbl_max\<rparr>"

text \<open>An element of the queue: cost, index of the edge, and whether its end node is explored.\<close>

type_synonym PDP = "double \<times> nat \<times> bool"

definition pdp_less :: "PDP \<Rightarrow> PDP \<Rightarrow> bool" where
  "pdp_less a b \<longleftrightarrow>
     fst a < fst b \<or> \<not> fst b < fst a \<and>
       (fst (snd a) < fst (snd b) \<or> fst (snd a) = fst (snd b) \<and> \<not> snd (snd a) \<and> snd (snd b))"

record TrspHandler =
  m_edges :: "EdgeInfo list"
  m_adjacency :: "(int, nat list) std_map"
  m_id_to_idx :: "(int, int) std_map"
  m_idx_to_id :: "(int, int) std_map"
  m_start_vertex :: int
  m_end_vertex :: int
  m_current_node :: int
  trsp_path :: Path
  m_parent :: "Predecessor list"
  m_dCost :: "CostHolder list"
  m_ruleTable :: "(int, Rule list) std_map"
  m_que :: "PDP list"

section \<open>Construction\<close>

definition initialize_restrictions :: "Rule list \<Rightarrow> TrspHandler \<Rightarrow> TrspHandler" where
  "initialize_restrictions ruleList h =
     foldl (\<lambda>h rule.
       (case map_of (m_ruleTable h) (m_dest_id rule) of
          Some rs \<Rightarrow> h\<lparr>m_ruleTable := map_put (m_dest_id rule) (rs @ [rule]) (m_ruleTable h)\<rparr>
        | None \<Rightarrow> h\<lparr>m_ruleTable := map_put (m_dest_id rule) [rule] (m_ruleTable h)\<rparr>)) h ruleList"

text \<open>A vertex met for the first time gets the next index.\<close>

definition number_vertex :: "int \<Rightarrow> (int, int) std_map \<times> int \<Rightarrow> (int, int) std_map \<times> int" where
  "number_vertex v = (\<lambda>(m, idx).
     if map_of m v = None then (map_put v idx m, idx + 1) else (m, idx))"

fun renumber_loop ::
    "Edge_t list \<Rightarrow> (int, int) std_map \<times> int \<Rightarrow> (Edge_t list \<times> (int, int) std_map \<times> int) run" where
  "renumber_loop [] st = Inr ([], st)"
| "renumber_loop (e # es) st =
     (let st1 = number_vertex (target e) (number_vertex (source e) st) in
      bindE (map_at (map_of (fst st1)) (source e)) (\<lambda>s.
      bindE (map_at (map_of (fst st1)) (target e)) (\<lambda>t.
      bindE (renumber_loop es st1) (\<lambda>(es', st2).
      Inr (e\<lparr>source := s, target := t\<rparr> # es', st2)))))"

text \<open>Both overloads of \<open>renumber_edges\<close>: the second one goes on with the new edges.\<close>

definition renumber_edges ::
    "Edge_t list \<Rightarrow> Edge_t list \<Rightarrow> TrspHandler \<Rightarrow> (Edge_t list \<times> Edge_t list \<times> TrspHandler) run" where
  "renumber_edges edges new_edges h =
     bindE (renumber_loop edges (m_id_to_idx h, 0)) (\<lambda>(es, st).
     bindE (renumber_loop new_edges st) (\<lambda>(ns, st').
     Inr (es, ns, h\<lparr>m_id_to_idx := fst st'\<rparr>)))"

definition connectStartEdge :: "nat \<Rightarrow> nat \<Rightarrow> EdgeInfo list \<Rightarrow> EdgeInfo list run" where
  "connectStartEdge firstEdge_idx secondEdge_idx es =
     bindE (nthE es firstEdge_idx) (\<lambda>firstEdge.
     bindE (nthE es secondEdge_idx) (\<lambda>secondEdge.
     let es1 = (if 0 \<le> r_cost firstEdge
                then es[firstEdge_idx := connect_startEdge secondEdge_idx firstEdge] else es);
         es2 = (if startNode firstEdge = startNode secondEdge \<and> 0 \<le> r_cost secondEdge
                then es1[secondEdge_idx := connect_startEdge firstEdge_idx (es1 ! secondEdge_idx)]
                else es1);
         es3 = (if startNode firstEdge = endNode secondEdge \<and> 0 \<le> c_cost secondEdge
                then es2[secondEdge_idx := connect_endEdge firstEdge_idx (es2 ! secondEdge_idx)]
                else es2)
     in Inr es3))"

definition connectEndEdge :: "nat \<Rightarrow> nat \<Rightarrow> EdgeInfo list \<Rightarrow> EdgeInfo list run" where
  "connectEndEdge firstEdge_idx secondEdge_idx es =
     bindE (nthE es firstEdge_idx) (\<lambda>firstEdge.
     bindE (nthE es secondEdge_idx) (\<lambda>secondEdge.
     let es1 = (if 0 \<le> c_cost firstEdge
                then es[firstEdge_idx := connect_endEdge secondEdge_idx firstEdge] else es);
         es2 = (if endNode firstEdge = startNode secondEdge \<and> 0 \<le> r_cost secondEdge
                then es1[secondEdge_idx := connect_startEdge firstEdge_idx (es1 ! secondEdge_idx)]
                else es1);
         es3 = (if endNode firstEdge = endNode secondEdge \<and> 0 \<le> c_cost secondEdge
                then es2[secondEdge_idx := connect_endEdge firstEdge_idx (es2 ! secondEdge_idx)]
                else es2)
     in Inr es3))"

text \<open>The two adjustments of the costs of an edge at the start of \<open>addEdge\<close>.\<close>

definition oriented :: "Edge_t \<Rightarrow> bool \<Rightarrow> Edge_t" where
  "oriented edgeIn directed =
     (let e1 = (if edge_cost edgeIn < 0 \<and> 0 < reverse_cost edgeIn
                then edgeIn\<lparr>edge_cost := reverse_cost edgeIn, reverse_cost := edge_cost edgeIn,
                            source := target edgeIn, target := source edgeIn\<rparr>
                else edgeIn)
      in if \<not> directed \<and> reverse_cost e1 < 0 then e1\<lparr>reverse_cost := edge_cost e1\<rparr> else e1)"

definition addEdge :: "bool \<Rightarrow> Edge_t \<Rightarrow> TrspHandler \<Rightarrow> TrspHandler run" where
  "addEdge directed edgeIn0 h =
     (let edgeIn = oriented edgeIn0 directed;
          idx = length (m_edges h);
          adjacent = (\<lambda>v. case map_of (m_adjacency h) v of None \<Rightarrow> [] | Some is \<Rightarrow> is) in
      bindE (foldE (\<lambda>i es. connectStartEdge idx i es) (adjacent (source edgeIn))
                   (m_edges h @ [EdgeInfo_of edgeIn idx])) (\<lambda>es1.
      bindE (foldE (\<lambda>i es. connectEndEdge idx i es) (adjacent (target edgeIn)) es1) (\<lambda>es2.
      Inr (h\<lparr>m_edges := es2,
             m_adjacency := map_push (target edgeIn) idx (map_push (source edgeIn) idx (m_adjacency h))\<rparr>))))"

definition construct_graph :: "Edge_t list \<Rightarrow> Edge_t list \<Rightarrow> bool \<Rightarrow> TrspHandler \<Rightarrow> TrspHandler run" where
  "construct_graph edges new_edges directed h =
     bindE (foldE (addEdge directed) edges h) (foldE (addEdge directed) new_edges)"

definition no_handler :: TrspHandler where
  "no_handler =
     \<lparr>m_edges = [], m_adjacency = [], m_id_to_idx = [], m_idx_to_id = [], m_start_vertex = 0,
      m_end_vertex = 0, m_current_node = 0, trsp_path = Path_none, m_parent = [], m_dCost = [],
      m_ruleTable = [], m_que = []\<rparr>"

text \<open>
  The constructors; the one without new edges is the case of none.  The caller's \<open>edges\<close> come
  back renumbered.
\<close>

definition TrspHandler_of ::
    "Edge_t list \<Rightarrow> Edge_t list \<Rightarrow> bool \<Rightarrow> Rule list \<Rightarrow> (Edge_t list \<times> TrspHandler) run" where
  "TrspHandler_of edges new_edges directed ruleList =
     bindE (renumber_edges edges new_edges (initialize_restrictions ruleList no_handler)) (\<lambda>(es, point_edges, h).
     let h1 = h\<lparr>m_idx_to_id := foldl (\<lambda>m (i, x). map_put x i m) (m_idx_to_id h) (m_id_to_idx h)\<rparr> in
     bindE (construct_graph es point_edges directed h1) (\<lambda>h2. Inr (es, h2)))"

section \<open>Exploration\<close>

definition clear_handler :: "TrspHandler \<Rightarrow> TrspHandler" where
  "clear_handler h = h\<lparr>m_parent := [], m_dCost := [], trsp_path := clear_path (trsp_path h)\<rparr>"

definition add_to_que :: "double \<Rightarrow> nat \<Rightarrow> bool \<Rightarrow> TrspHandler \<Rightarrow> TrspHandler" where
  "add_to_que c idx isStart h = h\<lparr>m_que := insert_by pdp_less (c, idx, isStart) (m_que h)\<rparr>"

text \<open>One rule: whether the edges before \<open>edge_ind\<close> are its precedences.\<close>

fun rule_applies :: "TrspHandler \<Rightarrow> int list \<Rightarrow> nat \<Rightarrow> Position \<Rightarrow> bool run" where
  "rule_applies h [] edge_ind vpos = Inr True"
| "rule_applies h (precedence # ps) edge_ind vpos =
     bindE (nthE (m_edges h) edge_ind) (\<lambda>e.
     if precedence \<noteq> edgeID e then Inr False
     else
       bindE (nthE (m_parent h) edge_ind) (\<lambda>p.
       bindE (at_pos (e_idx p) vpos) (\<lambda>parent_ind.
       bindE (at_pos (v_pos p) vpos) (\<lambda>vpos'.
       rule_applies h ps parent_ind vpos'))))"

definition getRestrictionCost :: "TrspHandler \<Rightarrow> nat \<Rightarrow> EdgeInfo \<Rightarrow> bool \<Rightarrow> double run" where
  "getRestrictionCost h edge_ind e isStart =
     (case map_of (m_ruleTable h) (edgeID e) of
        None \<Rightarrow> Inr 0
      | Some vecRules \<Rightarrow>
          foldE (\<lambda>rule c.
            bindE (rule_applies h (m_precedencelist rule) edge_ind (if isStart then C_EDGE else RC_EDGE))
              (\<lambda>flag. Inr (c + (if flag then rule_cost rule else 0)))) vecRules 0)"

definition get_tot_cost :: "TrspHandler \<Rightarrow> double \<Rightarrow> nat \<Rightarrow> bool \<Rightarrow> double run" where
  "get_tot_cost h c edge_idx isStart =
     bindE (nthE (m_dCost h) edge_idx) (\<lambda>d. Inr ((if isStart then startCost d else endCost d) + c))"

text \<open>The two halves of the loop body: arriving at the end and at the start of edge \<open>index\<close>.\<close>

definition reach_end :: "nat \<Rightarrow> EdgeInfo \<Rightarrow> EdgeInfo \<Rightarrow> bool \<Rightarrow> double \<Rightarrow> TrspHandler \<Rightarrow> TrspHandler run" where
  "reach_end index e cur_edge isStart extra_cost h =
     bindE (get_tot_cost h (c_cost e + extra_cost) (m_edgeIndex cur_edge) isStart) (\<lambda>totalCost.
     bindE (nthE (m_dCost h) index) (\<lambda>d.
     if totalCost < endCost d then
       bindE (nthE (m_parent h) (m_edgeIndex e)) (\<lambda>p.
       Inr (add_to_que totalCost (m_edgeIndex e) True
         (h\<lparr>m_dCost := (m_dCost h)[index := d\<lparr>endCost := totalCost\<rparr>],
            m_parent := (m_parent h)[m_edgeIndex e :=
              p\<lparr>v_pos := (if isStart then C_EDGE else RC_EDGE, snd (v_pos p)),
                e_idx := (m_edgeIndex cur_edge, snd (e_idx p))\<rparr>]\<rparr>)))
     else Inr h))"

definition reach_start :: "nat \<Rightarrow> EdgeInfo \<Rightarrow> EdgeInfo \<Rightarrow> bool \<Rightarrow> double \<Rightarrow> TrspHandler \<Rightarrow> TrspHandler run" where
  "reach_start index e cur_edge isStart extra_cost h =
     bindE (get_tot_cost h (r_cost e + extra_cost) (m_edgeIndex cur_edge) isStart) (\<lambda>totalCost.
     bindE (nthE (m_dCost h) index) (\<lambda>d.
     if totalCost < startCost d then
       bindE (nthE (m_parent h) (m_edgeIndex e)) (\<lambda>p.
       Inr (add_to_que totalCost (m_edgeIndex e) False
         (h\<lparr>m_dCost := (m_dCost h)[index := d\<lparr>startCost := totalCost\<rparr>],
            m_parent := (m_parent h)[m_edgeIndex e :=
              p\<lparr>v_pos := (fst (v_pos p), if isStart then C_EDGE else RC_EDGE),
                e_idx := (fst (e_idx p), m_edgeIndex cur_edge)\<rparr>]\<rparr>)))
     else Inr h))"

definition explore_edge :: "int \<Rightarrow> EdgeInfo \<Rightarrow> bool \<Rightarrow> nat \<Rightarrow> TrspHandler \<Rightarrow> TrspHandler run" where
  "explore_edge cur_node cur_edge isStart index h =
     bindE (nthE (m_edges h) index) (\<lambda>e.
     bindE (getRestrictionCost h (m_edgeIndex cur_edge) e isStart) (\<lambda>extra_cost.
     bindE (if startNode e = cur_node \<and> 0 \<le> c_cost e
            then reach_end index e cur_edge isStart extra_cost h else Inr h) (\<lambda>h1.
     if endNode e = cur_node \<and> 0 \<le> r_cost e
     then reach_start index e cur_edge isStart extra_cost h1 else Inr h1)))"

definition explore :: "int \<Rightarrow> EdgeInfo \<Rightarrow> bool \<Rightarrow> TrspHandler \<Rightarrow> TrspHandler run" where
  "explore cur_node cur_edge isStart h =
     foldE (explore_edge cur_node cur_edge isStart) (get_idx isStart cur_edge) h"

definition start_from :: "nat \<Rightarrow> TrspHandler \<Rightarrow> TrspHandler run" where
  "start_from s h =
     bindE (nthE (m_edges h) s) (\<lambda>e.
     let i = m_edgeIndex e in
     bindE (if startNode e = m_start_vertex h \<and> 0 \<le> c_cost e
            then bindE (nthE (m_dCost h) i) (\<lambda>d. bindE (nthE (m_parent h) i) (\<lambda>p.
                 Inr (add_to_que (c_cost e) i True
                   (h\<lparr>m_dCost := (m_dCost h)[i := d\<lparr>endCost := c_cost e\<rparr>],
                      m_parent := (m_parent h)[i := p\<lparr>v_pos := (ILLEGAL, snd (v_pos p))\<rparr>]\<rparr>))))
            else Inr h) (\<lambda>h1.
     if endNode e = m_start_vertex h \<and> 0 \<le> r_cost e
     then bindE (nthE (m_dCost h1) i) (\<lambda>d. bindE (nthE (m_parent h1) i) (\<lambda>p.
          Inr (add_to_que (r_cost e) i False
            (h1\<lparr>m_dCost := (m_dCost h1)[i := d\<lparr>startCost := r_cost e\<rparr>],
                m_parent := (m_parent h1)[i := p\<lparr>v_pos := (fst (v_pos p), ILLEGAL)\<rparr>]\<rparr>))))
     else Inr h1))"

definition initialize_que :: "TrspHandler \<Rightarrow> TrspHandler run" where
  "initialize_que h =
     foldE start_from (case map_of (m_adjacency h) (m_start_vertex h) of None \<Rightarrow> [] | Some is \<Rightarrow> is) h"

text \<open>
  The loop of \<open>dijkstra_exploration\<close>.  It returns \<open>cur_edge\<close>, which is not initialised when the
  queue was empty from the start.
\<close>

fun exploration_loop ::
    "nat \<Rightarrow> EdgeInfo option \<Rightarrow> TrspHandler \<Rightarrow> (EdgeInfo option \<times> TrspHandler) run" where
  "exploration_loop fuel cur h =
     (case m_que h of
        [] \<Rightarrow> Inr (cur, h)
      | (c, i, at_end) # que \<Rightarrow>
          (case fuel of
             0 \<Rightarrow> Inl Diverges
           | Suc fuel' \<Rightarrow>
               bindE (nthE (m_edges h) i) (\<lambda>cur_edge.
               let v = (if at_end then endNode cur_edge else startNode cur_edge);
                   h1 = h\<lparr>m_que := que, m_current_node := v\<rparr> in
               if (if at_end then c_cost cur_edge else r_cost cur_edge) < 0
               then exploration_loop fuel' (Some cur_edge) h1
               else if v = m_end_vertex h then Inr (Some cur_edge, h1)
               else bindE (explore v cur_edge (\<not> at_end) h1) (exploration_loop fuel' (Some cur_edge)))))"

declare exploration_loop.simps [simp del]

definition dijkstra_exploration :: "nat \<Rightarrow> TrspHandler \<Rightarrow> (EdgeInfo option \<times> TrspHandler) run" where
  "dijkstra_exploration fuel h =
     bindE (pgassert (m_current_node h = m_start_vertex h)) (\<lambda>_. exploration_loop fuel None h)"

section \<open>The path\<close>

definition path_row :: "int \<Rightarrow> int \<Rightarrow> double \<Rightarrow> Path_t" where
  "path_row n e c = \<lparr>node = n, edge = e, cost = c, agg_cost = 0, pred = 0\<rparr>"

fun construct_path :: "nat \<Rightarrow> nat \<Rightarrow> Position \<Rightarrow> TrspHandler \<Rightarrow> (double \<times> TrspHandler) run" where
  "construct_path fuel ed_id pos h =
     (if pos = ILLEGAL then Inr (dbl_max, h)
      else
        bindE (nthE (m_parent h) ed_id) (\<lambda>p.
        bindE (isIllegal pos p) (\<lambda>first.
        if first then
          bindE (nthE (m_edges h) ed_id) (\<lambda>e.
          let c = (if pos = RC_EDGE then c_cost e else r_cost e);
              h1 = h\<lparr>trsp_path := push_back
                (path_row (if pos = RC_EDGE then startNode e else endNode e) (edgeID e) c) (trsp_path h)\<rparr> in
          bindE (pgassert (m_start_id (trsp_path h1) = m_start_vertex h1)) (\<lambda>_. Inr (c, h1)))
        else
          (case fuel of
             0 \<Rightarrow> Inl Diverges
           | Suc fuel' \<Rightarrow>
               bindE (at_pos (e_idx p) pos) (\<lambda>i.
               bindE (at_pos (v_pos p) pos) (\<lambda>vpos.
               bindE (construct_path fuel' i vpos h) (\<lambda>(ret, h1).
               bindE (nthE (m_edges h1) ed_id) (\<lambda>e.
               bindE (nthE (m_dCost h1) ed_id) (\<lambda>d.
               let n = (if pos = RC_EDGE then startNode e else endNode e);
                   ret' = (if pos = RC_EDGE then endCost d else startCost d) in
               Inr (ret', h1\<lparr>trsp_path := push_back (path_row n (edgeID e) (ret' - ret)) (trsp_path h1)\<rparr>))))))))))"

declare construct_path.simps [simp del]

text \<open>The predecessors of a position never repeat, so twice the number of edges bounds the walk.\<close>

definition process_trsp :: "nat \<Rightarrow> nat \<Rightarrow> TrspHandler \<Rightarrow> (Path \<times> TrspHandler) run" where
  "process_trsp fuel edge_count h =
     bindE (pgassert (m_start_id (trsp_path h) = m_start_vertex h)) (\<lambda>_.
     bindE (pgassert (m_end_id (trsp_path h) = m_end_vertex h)) (\<lambda>_.
     bindE (pgassert (m_parent h = [])) (\<lambda>_.
     let h1 = h\<lparr>m_parent := replicate (edge_count + 1) no_predecessor,
                m_dCost := take (edge_count + 1) (m_dCost h) @
                           replicate (edge_count + 1 - length (m_dCost h)) max_costs\<rparr> in
     bindE (initialize_que h1) (\<lambda>h2.
     let h3 = h2\<lparr>m_current_node := m_start_vertex h2\<rparr> in
     bindE (pgassert (m_start_id (trsp_path h3) = m_start_vertex h3)) (\<lambda>_.
     bindE (dijkstra_exploration fuel h3) (\<lambda>(cur_edge, h4).
     bindE (pgassert (m_start_id (trsp_path h4) = m_start_vertex h4)) (\<lambda>_.
     if m_current_node h4 \<noteq> m_end_vertex h4 then
       bindE (renumber_vertices (map_of (m_idx_to_id h4)) (Path_of (m_start_vertex h4) (m_end_vertex h4)))
         (\<lambda>p. Inr (p, h4))
     else
       (case cur_edge of
          None \<Rightarrow> Inl UndefinedBehaviour
        | Some e \<Rightarrow>
            bindE (construct_path (2 * edge_count + 1) (m_edgeIndex e)
                     (if m_current_node h4 = startNode e then C_EDGE else RC_EDGE) h4) (\<lambda>(_, h5).
            let p = recalculate_agg_cost (push_back (path_row (m_end_vertex h5) (-1) 0) (trsp_path h5)) in
            bindE (renumber_vertices (map_of (m_idx_to_id h5)) p) (\<lambda>p'. Inr (p', h5\<lparr>trsp_path := p'\<rparr>)))))))))))"

definition process :: "nat \<Rightarrow> int \<Rightarrow> int \<Rightarrow> TrspHandler \<Rightarrow> (Path \<times> TrspHandler) run" where
  "process fuel start_vertex end_vertex h =
     (case (map_of (m_id_to_idx h) start_vertex, map_of (m_id_to_idx h) end_vertex) of
        (Some s, Some t) \<Rightarrow>
          (let h1 = (clear_handler h)\<lparr>m_start_vertex := s, m_end_vertex := t\<rparr> in
           bindE (map_at (map_of (m_idx_to_id h)) s) (\<lambda>s'.
           bindE (pgassert (s' = start_vertex)) (\<lambda>_.
           bindE (map_at (map_of (m_idx_to_id h)) t) (\<lambda>t'.
           bindE (pgassert (t' = end_vertex)) (\<lambda>_.
           let h2 = h1\<lparr>trsp_path := Path_of s t\<rparr> in
           if map_of (m_adjacency h) s = None then Inr (Path_none, h2)
           else if map_of (m_adjacency h) t = None then Inr (Path_none, h2)
           else process_trsp fuel (length (m_edges h)) h2)))))
      | _ \<Rightarrow> Inr (Path_none, h))"

text \<open>All combinations, in the order of the map and of the sets.\<close>

definition process_all ::
    "nat \<Rightarrow> (int \<times> int list) list \<Rightarrow> TrspHandler \<Rightarrow> (Path list \<times> TrspHandler) run" where
  "process_all fuel combinations h =
     foldE (\<lambda>(s, t) (paths, h).
       bindE (process fuel s t h) (\<lambda>(p, h'). Inr (paths @ [p], h')))
       (concat (map (\<lambda>(s, ts). map (Pair s) ts) combinations)) ([], h)"

end
