(* ===== verification/With_points.thy ===== *)
theory With_points
  imports Trsp "HOL-Library.Char_ord"
begin

text \<open>
  Points on edges: class \<open>Pg_points_graph\<close> of \<open>include/withPoints/withPoints.hpp\<close> and
  \<open>src/withPoints/withPoints.cpp\<close>.  The edges that carry points are cut into segments between
  the points; a point with id \<open>pid\<close> becomes the vertex \<open>-pid\<close>.  The text of the log is not
  modelled; a message written to \<open>error\<close> is an entry of \<open>wp_error\<close>.
\<close>

section \<open>Data\<close>

record Point_on_edge_t =
  pid :: int
  point_edge_id :: int
  side :: char
  fraction :: double
  vertex_id :: int

datatype points_error = SamePid | NoPointOnEdge | InvalidFraction

record Pg_points_graph =
  m_points :: "Point_on_edge_t list"
  m_o_points :: "Point_on_edge_t list"
  m_edges_of_points :: "Edge_t list"
  m_new_edges :: "Edge_t list"
  m_driving_side :: char
  m_directed :: bool
  wp_error :: "points_error list"

abbreviation (input) kLeft :: char where "kLeft \<equiv> CHR ''l''"
abbreviation (input) kRight :: char where "kRight \<equiv> CHR ''r''"
abbreviation (input) kBoth :: char where "kBoth \<equiv> CHR ''b''"

section \<open>Preparing the points\<close>

definition flip_side :: "char \<Rightarrow> char" where
  "flip_side s = (if s = kRight then kLeft else if s = kLeft then kRight else s)"

definition reverse_sides :: "Pg_points_graph \<Rightarrow> Pg_points_graph" where
  "reverse_sides g =
     g\<lparr>m_points := map (\<lambda>p. p\<lparr>side := flip_side (side p), fraction := 1 - fraction p\<rparr>) (m_points g),
       m_driving_side := flip_side (m_driving_side g)\<rparr>"

definition point_less :: "Point_on_edge_t \<Rightarrow> Point_on_edge_t \<Rightarrow> bool" where
  "point_less a b =
     (if pid a \<noteq> pid b then pid a < pid b
      else if point_edge_id a \<noteq> point_edge_id b then point_edge_id a < point_edge_id b
      else if \<not> deq (fraction a) (fraction b) then fraction a < fraction b
      else side a < side b)"

definition same_point :: "Point_on_edge_t \<Rightarrow> Point_on_edge_t \<Rightarrow> bool" where
  "same_point a b \<longleftrightarrow>
     pid a = pid b \<and> point_edge_id a = point_edge_id b \<and> deq (fraction a) (fraction b) \<and> side a = side b"

definition check_points :: "Pg_points_graph \<Rightarrow> Pg_points_graph" where
  "check_points g =
     (let different = unique_by same_point (sort_by point_less (m_points g));
          one_each = unique_by (\<lambda>a b. pid a = pid b) different;
          g' = g\<lparr>m_points := one_each\<rparr> in
      if length one_each \<noteq> length different then g'\<lparr>wp_error := wp_error g' @ [SamePid]\<rparr> else g')"

section \<open>Cutting an edge\<close>

text \<open>
  \<open>pointCompare\<close>, the order of the set of points on one edge.  The points are inserted in the
  order of their ids, and an element goes behind those that it does not precede.
\<close>

definition pointCompare :: "Point_on_edge_t \<Rightarrow> Point_on_edge_t \<Rightarrow> bool" where
  "pointCompare l r = (if fraction l < fraction r then True else pid l < pid r)"

definition put_point :: "Point_on_edge_t \<Rightarrow> Point_on_edge_t list \<Rightarrow> Point_on_edge_t list" where
  "put_point x ps = takeWhile (\<lambda>y. \<not> pointCompare x y) ps @ x # dropWhile (\<lambda>y. \<not> pointCompare x y) ps"

definition points_on_edge :: "Point_on_edge_t list \<Rightarrow> Edge_t \<Rightarrow> Point_on_edge_t list" where
  "points_on_edge points e = foldl (\<lambda>ps p. if edge_id e = point_edge_id p then put_point p ps else ps) [] points"

text \<open>The variables of the loop over the points of an edge.\<close>

record Cut =
  prev_target :: int
  prev_rtarget :: int
  prev_fraction :: double
  prev_rfraction :: double
  agg_fcost :: double
  agg_rcost :: double
  last_fcost :: double
  last_rcost :: double

definition Cut_of :: "Edge_t \<Rightarrow> Cut" where
  "Cut_of e = \<lparr>prev_target = source e, prev_rtarget = source e, prev_fraction = 0, prev_rfraction = 0,
               agg_fcost = 0, agg_rcost = 0, last_fcost = 0, last_rcost = 0\<rparr>"

definition new_edge :: "int \<Rightarrow> int \<Rightarrow> int \<Rightarrow> double \<Rightarrow> double \<Rightarrow> Edge_t" where
  "new_edge i s t c r = \<lparr>edge_id = i, source = s, target = t, edge_cost = c, reverse_cost = r\<rparr>"

definition inside_edge :: "Point_on_edge_t \<Rightarrow> bool" where
  "inside_edge p \<longleftrightarrow> 0 < fraction p \<and> fraction p < 1"

text \<open>A point at an end of the edge is tied to that end.\<close>

definition end_edges :: "Edge_t \<Rightarrow> Point_on_edge_t \<Rightarrow> Edge_t list" where
  "end_edges e p =
     (if deq (fraction p) 0 then [new_edge (edge_id e) (source e) (- pid p) 0 0] else []) @
     (if deq (fraction p) 1 then [new_edge (edge_id e) (target e) (- pid p) 0 0] else [])"

definition number_point :: "Point_on_edge_t \<Rightarrow> Point_on_edge_t" where
  "number_point p =
     (if deq (fraction p) 0 \<or> deq (fraction p) 1 \<or> inside_edge p then p\<lparr>vertex_id := - pid p\<rparr> else p)"

text \<open>The point is seen from both directions.\<close>

definition cut_both :: "Edge_t \<Rightarrow> Point_on_edge_t \<Rightarrow> Cut \<Rightarrow> Edge_t list \<times> Cut" where
  "cut_both e p c =
     (let deltaFraction = fraction p - prev_fraction c;
          deltarFraction = fraction p - prev_rfraction c;
          fwd = inside_edge p \<and> 0 \<le> edge_cost e;
          bwd = inside_edge p \<and> 0 \<le> reverse_cost e;
          lc = (if fwd then deltaFraction * edge_cost e else last_fcost c);
          lr = (if bwd then deltarFraction * reverse_cost e else last_rcost c) in
      ((if fwd then [new_edge (edge_id e) (prev_target c) (vertex_id p) lc (-1)] else []) @
       (if bwd then [new_edge (edge_id e) (prev_target c) (vertex_id p) (-1) lr] else []),
       \<lparr>prev_target = vertex_id p, prev_rtarget = vertex_id p, prev_fraction = fraction p, prev_rfraction = fraction p,
        agg_fcost = agg_fcost c + lc, agg_rcost = agg_rcost c + lr, last_fcost = lc, last_rcost = lr\<rparr>))"

text \<open>The point is on the driving side, or on the other one.\<close>

definition cut_forward :: "Edge_t \<Rightarrow> Point_on_edge_t \<Rightarrow> Cut \<Rightarrow> Edge_t list \<times> Cut" where
  "cut_forward e p c =
     (let lc = (if inside_edge p then (fraction p - prev_fraction c) * edge_cost e else last_fcost c) in
      (if inside_edge p then [new_edge (edge_id e) (prev_target c) (vertex_id p) lc (-1)] else [],
       c\<lparr>prev_target := vertex_id p, prev_fraction := fraction p, agg_fcost := agg_fcost c + lc, last_fcost := lc\<rparr>))"

definition cut_backward :: "Edge_t \<Rightarrow> Point_on_edge_t \<Rightarrow> Cut \<Rightarrow> Edge_t list \<times> Cut" where
  "cut_backward e p c =
     (let lr = (if inside_edge p then (fraction p - prev_rfraction c) * reverse_cost e else last_rcost c) in
      (if inside_edge p then [new_edge (edge_id e) (prev_rtarget c) (vertex_id p) (-1) lr] else [],
       c\<lparr>prev_rtarget := vertex_id p, prev_rfraction := fraction p, agg_rcost := agg_rcost c + lr, last_rcost := lr\<rparr>))"

definition two_way :: "Edge_t \<Rightarrow> bool" where
  "two_way e \<longleftrightarrow> \<not> (edge_cost e < 0 \<or> reverse_cost e < 0)"

definition cut_point :: "char \<Rightarrow> Edge_t \<Rightarrow> Point_on_edge_t \<Rightarrow> Cut \<Rightarrow> (Edge_t list \<times> Cut) run" where
  "cut_point driving_side e p c =
     (if \<not> two_way e \<or> driving_side = kBoth \<or> side p = kBoth then Inr (cut_both e p c)
      else
        bindE (pgassert (0 < edge_cost e \<and> 0 < reverse_cost e)) (\<lambda>_.
        bindE (pgassert (side p \<noteq> kBoth)) (\<lambda>_.
        Inr (if driving_side = side p then cut_forward e p c else cut_backward e p c))))"

text \<open>The points of one edge.  \<open>False\<close> is the return from \<open>create_new_edges\<close> at a bad fraction.\<close>

fun cut_points ::
    "char \<Rightarrow> Edge_t \<Rightarrow> Point_on_edge_t list \<Rightarrow> Cut \<Rightarrow>
       (bool \<times> Edge_t list \<times> Point_on_edge_t list \<times> Cut) run" where
  "cut_points driving_side e [] c = Inr (True, [], [], c)"
| "cut_points driving_side e (p0 # ps) c =
     (if fraction p0 < 0 \<or> 1 < fraction p0 then Inr (False, [], [], c)
      else
        let p = number_point p0 in
        bindE (cut_point driving_side e p c) (\<lambda>(es, c1).
        bindE (cut_points driving_side e ps c1) (\<lambda>(ok, es', ps', c2).
        Inr (ok, end_edges e p0 @ es @ es', p # ps', c2))))"

definition last_segments :: "Edge_t \<Rightarrow> Cut \<Rightarrow> Edge_t list" where
  "last_segments e c =
     [new_edge (edge_id e) (prev_target c) (target e) (edge_cost e - agg_fcost c) (-1),
      new_edge (edge_id e) (prev_rtarget c) (target e) (-1) (reverse_cost e - agg_rcost c)]"

text \<open>The loop over the edges; \<open>done\<close> are the points that got their vertex.\<close>

fun cut_edges ::
    "Edge_t list \<Rightarrow> Pg_points_graph \<Rightarrow> Point_on_edge_t list \<Rightarrow> Pg_points_graph run" where
  "cut_edges [] g new_points = Inr (g\<lparr>m_points := new_points\<rparr>)"
| "cut_edges (e # es) g new_points =
     (let ps = points_on_edge (m_points g) e in
      if ps = [] then Inr (g\<lparr>wp_error := wp_error g @ [NoPointOnEdge]\<rparr>)
      else
        bindE (cut_points (m_driving_side g) e ps (Cut_of e)) (\<lambda>(ok, segs, ps', c).
        if \<not> ok then Inr (g\<lparr>m_new_edges := m_new_edges g @ segs, wp_error := wp_error g @ [InvalidFraction]\<rparr>)
        else cut_edges es (g\<lparr>m_new_edges := m_new_edges g @ segs @ last_segments e c\<rparr>) (new_points @ ps')))"

definition create_new_edges :: "Pg_points_graph \<Rightarrow> Pg_points_graph run" where
  "create_new_edges g = cut_edges (m_edges_of_points g) g []"

definition Pg_points_graph_of ::
    "Point_on_edge_t list \<Rightarrow> Edge_t list \<Rightarrow> bool \<Rightarrow> char \<Rightarrow> bool \<Rightarrow> Pg_points_graph run" where
  "Pg_points_graph_of p_points p_edges_of_points p_normal p_driving_side p_directed =
     (let g0 = \<lparr>m_points = p_points, m_o_points = p_points, m_edges_of_points = p_edges_of_points,
                m_new_edges = [], m_driving_side = p_driving_side, m_directed = p_directed, wp_error = []\<rparr>;
          g1 = (if \<not> p_normal then reverse_sides g0 else g0);
          g2 = (if \<not> m_directed g1 then g1\<lparr>m_driving_side := kBoth\<rparr> else g1)
      in create_new_edges (check_points g2))"

section \<open>Lookups\<close>

definition point_edge_of :: "int \<Rightarrow> Pg_points_graph \<Rightarrow> int" where
  "point_edge_of q g = (case find (\<lambda>p. q = - pid p) (m_points g) of Some p \<Rightarrow> point_edge_id p | None \<Rightarrow> -1)"

definition get_edge_data :: "int \<Rightarrow> Pg_points_graph \<Rightarrow> Edge_t option" where
  "get_edge_data eid g = find (\<lambda>e. eid = edge_id e) (m_edges_of_points g)"

section \<open>Details of a path\<close>

definition eliminate_details_dd :: "Pg_points_graph \<Rightarrow> Path \<Rightarrow> Path run" where
  "eliminate_details_dd g p =
     (if path p = [] then Inr p
      else foldE (\<lambda>ps newPath.
        if node ps = m_start_id p \<or> 0 \<le> node ps then Inr (push_back ps newPath)
        else
          bindE (pgassert (get_edge_data (edge ps) g \<noteq> None)) (\<lambda>_.
          case get_edge_data (edge ps) g of
            None \<Rightarrow> Inl UndefinedBehaviour
          | Some e \<Rightarrow>
              if source e \<in> node ` set (path p) \<and> target e \<in> node ` set (path p) then Inr newPath
              else Inr (push_back ps newPath)))
        (path p) (Path_of (m_start_id p) (m_end_id p)))"

text \<open>The loop of \<open>eliminate_details\<close>: rows of the same edge are merged.\<close>

fun merge_rows :: "int \<Rightarrow> int \<Rightarrow> double \<Rightarrow> Path_t list \<Rightarrow> Path \<Rightarrow> Path" where
  "merge_rows n e c [] newPath = push_back (path_row n e c) newPath"
| "merge_rows n e c (r # rs) newPath =
     (if edge r = e then merge_rows n e (c + cost r) rs newPath
      else merge_rows (node r) (edge r) (cost r) rs (push_back (path_row n e c) newPath))"

definition eliminate_details :: "Path \<Rightarrow> Path" where
  "eliminate_details p =
     (if path p = [] then p
      else recalculate_agg_cost
        (merge_rows (node (hd (path p))) (edge (hd (path p))) 0 (path (recalculate_agg_cost p))
           (Path_of (m_start_id p) (m_end_id p))))"

definition adjust_pids_to :: "Point_on_edge_t list \<Rightarrow> int \<Rightarrow> int \<Rightarrow> Path \<Rightarrow> Path" where
  "adjust_pids_to points start_pid end_pid p =
     (if path p = [] then p
      else p\<lparr>m_start_id := start_pid, m_end_id := end_pid,
             path := map (\<lambda>r. case find (\<lambda>q. vertex_id q = node r) points of
                        Some q \<Rightarrow> r\<lparr>node := - pid q\<rparr> | None \<Rightarrow> r) (path p)\<rparr>)"

definition adjust_pids :: "Point_on_edge_t list \<Rightarrow> Path \<Rightarrow> Path" where
  "adjust_pids points p =
     (if path p = [] then p
      else
        let start_pid = foldl (\<lambda>s q. if vertex_id q = m_start_id p then - pid q else s) 0 points;
            end_pid = foldl (\<lambda>s q. if vertex_id q = m_end_id p then - pid q else s) 0 points
        in adjust_pids_to points start_pid end_pid p)"

end
