(* ===== verification/Cut_edges.thy ===== *)
theory Cut_edges
  imports With_points
begin

text \<open>
  What \<open>Pg_points_graph\<close> makes of an edge with points strictly inside it: in each direction the
  segments are a chain through the points visible there, and their costs add up to the cost of
  the edge.
\<close>

section \<open>Chains of segments\<close>

fun chain_of :: "int \<Rightarrow> Edge_t list \<Rightarrow> int \<Rightarrow> bool" where
  "chain_of s [] t \<longleftrightarrow> s = t"
| "chain_of s (e # es) t \<longleftrightarrow> source e = s \<and> chain_of (target e) es t"

lemma chain_of_append [simp]: "chain_of s (xs @ ys) t \<longleftrightarrow> (\<exists>u. chain_of s xs u \<and> chain_of u ys t)"
  by (induction xs arbitrary: s) auto

abbreviation forward :: "Edge_t list \<Rightarrow> Edge_t list" where
  "forward es \<equiv> filter (\<lambda>x. 0 \<le> edge_cost x) es"

abbreviation backward :: "Edge_t list \<Rightarrow> Edge_t list" where
  "backward es \<equiv> filter (\<lambda>x. 0 \<le> reverse_cost x) es"

lemma new_edge_fields [simp]:
  "edge_id (new_edge i s t c r) = i" "source (new_edge i s t c r) = s" "target (new_edge i s t c r) = t"
  "edge_cost (new_edge i s t c r) = c" "reverse_cost (new_edge i s t c r) = r"
  by (simp_all add: new_edge_def)

lemma not_le_minus_one [simp]: "\<not> (0 :: double) \<le> - 1"
  by (simp add: zero_double_def one_double_def)

definition both_ways :: "char \<Rightarrow> Edge_t \<Rightarrow> Point_on_edge_t \<Rightarrow> bool" where
  "both_ways ds e p \<longleftrightarrow> \<not> two_way e \<or> ds = kBoth \<or> side p = kBoth"

definition seen_forward :: "char \<Rightarrow> Edge_t \<Rightarrow> Point_on_edge_t \<Rightarrow> bool" where
  "seen_forward ds e p \<longleftrightarrow> both_ways ds e p \<or> side p = ds"

definition seen_backward :: "char \<Rightarrow> Edge_t \<Rightarrow> Point_on_edge_t \<Rightarrow> bool" where
  "seen_backward ds e p \<longleftrightarrow> both_ways ds e p \<or> side p \<noteq> ds"

lemma inner_fraction: "inside_edge p \<Longrightarrow> \<exists>f. fraction p = Fin f \<and> 0 < f \<and> f < 1"
  by (cases "fraction p") (auto simp: inside_edge_def zero_double_def one_double_def)

lemma inner_number: "inside_edge p \<Longrightarrow> number_point p = p\<lparr>vertex_id := - pid p\<rparr>"
  by (simp add: number_point_def)

lemma inner_no_ends: "inside_edge p \<Longrightarrow> end_edges e p = []"
  using inner_fraction[of p] by (auto simp: end_edges_def deq_def zero_double_def one_double_def)

lemma number_point_fields [simp]:
  "inside_edge (number_point p) = inside_edge p" "fraction (number_point p) = fraction p" "side (number_point p) = side p"
  "both_ways ds e (number_point p) = both_ways ds e p"
  by (auto simp: number_point_def inside_edge_def both_ways_def)

section \<open>One point\<close>

lemma cut_point_cases:
  assumes "cut_point ds e p c = Inr (es, c')"
  obtains "both_ways ds e p" "(es, c') = cut_both e p c"
    | "\<not> both_ways ds e p" "side p = ds" "(es, c') = cut_forward e p c"
    | "\<not> both_ways ds e p" "side p \<noteq> ds" "(es, c') = cut_backward e p c"
  using assms that by (auto simp: cut_point_def both_ways_def split: if_splits)

lemma cut_point_forward:
  assumes "cut_point ds e p c = Inr (es, c')" "inside_edge p" "fraction p = Fin f" "prev_fraction c = Fin pf" "pf \<le> f"
    and "edge_cost e = Fin ce" "0 \<le> ce" "agg_fcost c = Fin (pf * ce)"
  shows "if seen_forward ds e p
    then forward es = [new_edge (edge_id e) (prev_target c) (vertex_id p) (Fin ((f - pf) * ce)) (-1)] \<and>
      prev_target c' = vertex_id p \<and> prev_fraction c' = Fin f \<and> agg_fcost c' = Fin (f * ce)
    else forward es = [] \<and> prev_target c' = prev_target c \<and> prev_fraction c' = prev_fraction c \<and> agg_fcost c' = agg_fcost c"
proof -
  have v: "(Fin f - Fin pf) * Fin ce = Fin ((f - pf) * ce)" "0 \<le> Fin ((f - pf) * ce)" "0 \<le> edge_cost e"
    using assms(5-7) by (simp_all add: minus_double_def)
  have s: "Fin (pf * ce) + Fin ((f - pf) * ce) = Fin (f * ce)" by (simp add: algebra_simps)
  show ?thesis
    using assms(1)
  proof (cases rule: cut_point_cases)
    case 1
    then show ?thesis using assms v s by (simp add: cut_both_def seen_forward_def Let_def)
  next
    case 2
    then show ?thesis using assms v s by (simp add: cut_forward_def seen_forward_def Let_def)
  next
    case 3
    then show ?thesis using assms v s by (simp add: cut_backward_def seen_forward_def Let_def)
  qed
qed

lemma cut_point_backward:
  assumes "cut_point ds e p c = Inr (es, c')" "inside_edge p" "fraction p = Fin f" "prev_rfraction c = Fin pf" "pf \<le> f"
    and "reverse_cost e = Fin ce" "0 \<le> ce" "agg_rcost c = Fin (pf * ce)" "both_ways ds e p \<Longrightarrow> prev_target c = prev_rtarget c"
  shows "(if seen_backward ds e p
    then backward es = [new_edge (edge_id e) (prev_rtarget c) (vertex_id p) (-1) (Fin ((f - pf) * ce))] \<and>
      prev_rtarget c' = vertex_id p \<and> prev_rfraction c' = Fin f \<and> agg_rcost c' = Fin (f * ce)
    else backward es = [] \<and> prev_rtarget c' = prev_rtarget c \<and> prev_rfraction c' = prev_rfraction c \<and> agg_rcost c' = agg_rcost c) \<and>
    (both_ways ds e p \<longrightarrow> prev_target c' = prev_rtarget c')"
proof -
  have v: "(Fin f - Fin pf) * Fin ce = Fin ((f - pf) * ce)" "0 \<le> Fin ((f - pf) * ce)" "0 \<le> reverse_cost e"
    using assms(5-7) by (simp_all add: minus_double_def)
  have s: "Fin (pf * ce) + Fin ((f - pf) * ce) = Fin (f * ce)" by (simp add: algebra_simps)
  show ?thesis
    using assms(1)
  proof (cases rule: cut_point_cases)
    case 1
    then show ?thesis using assms v s by (simp add: cut_both_def seen_backward_def Let_def)
  next
    case 2
    then show ?thesis using assms v s by (simp add: cut_forward_def seen_backward_def Let_def)
  next
    case 3
    then show ?thesis using assms v s by (simp add: cut_backward_def seen_backward_def Let_def)
  qed
qed

section \<open>All points of an edge\<close>

abbreviation by_fraction :: "Point_on_edge_t list \<Rightarrow> bool" where
  "by_fraction ps \<equiv> sorted_wrt (\<lambda>p q. fraction p \<le> fraction q) ps"

lemma cut_points_forward:
  assumes "cut_points ds e ps c = Inr (ok, segs, ps', c')" "\<forall>p \<in> set ps. inside_edge p" "by_fraction ps"
    and "\<forall>p \<in> set ps. prev_fraction c \<le> fraction p" "prev_fraction c = Fin pf" "pf \<le> 1"
    and "edge_cost e = Fin ce" "0 \<le> ce" "agg_fcost c = Fin (pf * ce)"
  shows "ok \<and> chain_of (prev_target c) (forward segs) (prev_target c') \<and>
    map target (forward segs) = map (\<lambda>p. - pid p) (filter (seen_forward ds e) ps) \<and>
    (\<exists>pf' \<le> 1. prev_fraction c' = Fin pf' \<and> agg_fcost c' = Fin (pf' * ce) \<and>
       sum_list (map edge_cost (forward segs)) = Fin ((pf' - pf) * ce))"
  using assms(1-6,9)
proof (induction ps arbitrary: c pf segs ps')
  case Nil
  then show ?case by (auto simp: zero_double_def)
next
  case (Cons p0 ps)
  let ?p = "number_point p0"
  have p0: "inside_edge p0" "number_point p0 = p0\<lparr>vertex_id := - pid p0\<rparr>" "end_edges e p0 = []"
    using Cons.prems(2) inner_number inner_no_ends by simp_all
  obtain f where f: "fraction p0 = Fin f" "0 < f" "f < 1" using inner_fraction[OF p0(1)] by blast
  then have "\<not> (fraction p0 < 0 \<or> 1 < fraction p0)" by (simp add: zero_double_def one_double_def)
  then obtain es c1 segs1 ps1 where
    1: "cut_point ds e ?p c = Inr (es, c1)" and 2: "cut_points ds e ps c1 = Inr (ok, segs1, ps1, c')"
    and segs: "segs = es @ segs1"
    using Cons.prems(1) p0(3) by (auto simp: Let_def bindE_Inr_iff)
  have le: "pf \<le> f" using Cons.prems(4,5) f by auto
  note step = cut_point_forward[OF 1 _ _ Cons.prems(5) le assms(7,8) Cons.prems(7)]
  show ?case
  proof (cases "seen_forward ds e p0")
    case True
    then have seen: "seen_forward ds e ?p" by (simp add: seen_forward_def)
    have s: "forward es = [new_edge (edge_id e) (prev_target c) (vertex_id ?p) (Fin ((f - pf) * ce)) (-1)]"
        "prev_target c1 = vertex_id ?p" "prev_fraction c1 = Fin f" "agg_fcost c1 = Fin (f * ce)"
      using step p0(1) f(1) seen by simp_all
    have "\<forall>p \<in> set ps. prev_fraction c1 \<le> fraction p" using Cons.prems(3) s(3) f(1) by simp
    then obtain pf' where ih: "ok" "chain_of (prev_target c1) (forward segs1) (prev_target c')"
        "map target (forward segs1) = map (\<lambda>p. - pid p) (filter (seen_forward ds e) ps)"
        "pf' \<le> 1" "prev_fraction c' = Fin pf'" "agg_fcost c' = Fin (pf' * ce)"
        "sum_list (map edge_cost (forward segs1)) = Fin ((pf' - f) * ce)"
      using Cons.IH[OF 2 _ _ _ s(3) _ s(4)] Cons.prems(2,3) f(3) by auto
    have "Fin ((f - pf) * ce) + Fin ((pf' - f) * ce) = Fin ((pf' - pf) * ce)" by (simp add: algebra_simps)
    then show ?thesis using ih s(1,2) True p0(2) by (auto simp: segs)
  next
    case False
    then have seen: "\<not> seen_forward ds e ?p" by (simp add: seen_forward_def)
    have s: "forward es = []" "prev_target c1 = prev_target c" "prev_fraction c1 = Fin pf" "agg_fcost c1 = Fin (pf * ce)"
      using step p0(1) f(1) seen Cons.prems(5,7) by simp_all
    then show ?thesis
      using Cons.IH[OF 2 _ _ _ s(3) Cons.prems(6) s(4)] Cons.prems(2-4) Cons.prems(5) False by (simp add: segs)
  qed
qed

lemma cut_points_backward:
  assumes "cut_points ds e ps c = Inr (ok, segs, ps', c')" "\<forall>p \<in> set ps. inside_edge p" "by_fraction ps"
    and "\<forall>p \<in> set ps. prev_rfraction c \<le> fraction p" "prev_rfraction c = Fin pf" "pf \<le> 1"
    and "reverse_cost e = Fin ce" "0 \<le> ce" "agg_rcost c = Fin (pf * ce)"
    and "(\<forall>p \<in> set ps. both_ways ds e p) \<and> prev_target c = prev_rtarget c \<or> (\<forall>p \<in> set ps. \<not> both_ways ds e p)"
  shows "ok \<and> chain_of (prev_rtarget c) (backward segs) (prev_rtarget c') \<and>
    map target (backward segs) = map (\<lambda>p. - pid p) (filter (seen_backward ds e) ps) \<and>
    (\<exists>pf' \<le> 1. prev_rfraction c' = Fin pf' \<and> agg_rcost c' = Fin (pf' * ce) \<and>
       sum_list (map reverse_cost (backward segs)) = Fin ((pf' - pf) * ce))"
  using assms(1-6,9,10)
proof (induction ps arbitrary: c pf segs ps')
  case Nil
  then show ?case by (auto simp: zero_double_def)
next
  case (Cons p0 ps)
  let ?p = "number_point p0"
  have p0: "inside_edge p0" "number_point p0 = p0\<lparr>vertex_id := - pid p0\<rparr>" "end_edges e p0 = []"
    using Cons.prems(2) inner_number inner_no_ends by simp_all
  obtain f where f: "fraction p0 = Fin f" "0 < f" "f < 1" using inner_fraction[OF p0(1)] by blast
  then have "\<not> (fraction p0 < 0 \<or> 1 < fraction p0)" by (simp add: zero_double_def one_double_def)
  then obtain es c1 segs1 ps1 where
    1: "cut_point ds e ?p c = Inr (es, c1)" and 2: "cut_points ds e ps c1 = Inr (ok, segs1, ps1, c')"
    and segs: "segs = es @ segs1"
    using Cons.prems(1) p0(3) by (auto simp: Let_def bindE_Inr_iff)
  have le: "pf \<le> f" using Cons.prems(4,5) f by auto
  have same: "both_ways ds e ?p \<Longrightarrow> prev_target c = prev_rtarget c" using Cons.prems(8) by auto
  note step = cut_point_backward[OF 1 _ _ Cons.prems(5) le assms(7,8) Cons.prems(7) same]
  have mode: "(\<forall>p \<in> set ps. both_ways ds e p) \<and> prev_target c1 = prev_rtarget c1 \<or> (\<forall>p \<in> set ps. \<not> both_ways ds e p)"
    using Cons.prems(8) step p0(1) f(1) by auto
  show ?case
  proof (cases "seen_backward ds e p0")
    case True
    then have seen: "seen_backward ds e ?p" by (simp add: seen_backward_def)
    have s: "backward es = [new_edge (edge_id e) (prev_rtarget c) (vertex_id ?p) (-1) (Fin ((f - pf) * ce))]"
        "prev_rtarget c1 = vertex_id ?p" "prev_rfraction c1 = Fin f" "agg_rcost c1 = Fin (f * ce)"
      using step p0(1) f(1) seen by simp_all
    have "\<forall>p \<in> set ps. prev_rfraction c1 \<le> fraction p" using Cons.prems(3) s(3) f(1) by simp
    then obtain pf' where ih: "ok" "chain_of (prev_rtarget c1) (backward segs1) (prev_rtarget c')"
        "map target (backward segs1) = map (\<lambda>p. - pid p) (filter (seen_backward ds e) ps)"
        "pf' \<le> 1" "prev_rfraction c' = Fin pf'" "agg_rcost c' = Fin (pf' * ce)"
        "sum_list (map reverse_cost (backward segs1)) = Fin ((pf' - f) * ce)"
      using Cons.IH[OF 2 _ _ _ s(3) _ s(4) mode] Cons.prems(2,3) f(3) by auto
    have "Fin ((f - pf) * ce) + Fin ((pf' - f) * ce) = Fin ((pf' - pf) * ce)" by (simp add: algebra_simps)
    then show ?thesis using ih s(1,2) True p0(2) by (auto simp: segs)
  next
    case False
    then have seen: "\<not> seen_backward ds e ?p" by (simp add: seen_backward_def)
    have s: "backward es = []" "prev_rtarget c1 = prev_rtarget c" "prev_rfraction c1 = Fin pf" "agg_rcost c1 = Fin (pf * ce)"
      using step p0(1) f(1) seen Cons.prems(5,7) by simp_all
    then show ?thesis
      using Cons.IH[OF 2 _ _ _ s(3) Cons.prems(6) s(4) mode] Cons.prems(2-4) Cons.prems(5) False by (simp add: segs)
  qed
qed

section \<open>The points of an edge in order\<close>

lemma put_point_by_fraction:
  assumes "by_fraction ps" "\<forall>y \<in> set ps. pid y < pid x" "\<forall>y \<in> set (x # ps). fraction y \<noteq> NaN"
  shows "by_fraction (put_point x ps) \<and> set (put_point x ps) = insert x (set ps)"
proof -
  let ?P = "\<lambda>y. \<not> fraction x < fraction y"
  have cmp: "(\<not> pointCompare x y) = ?P y" if "y \<in> set ps" for y using assms(2) that by (auto simp: pointCompare_def)
  have ins: "put_point x ps = takeWhile ?P ps @ x # dropWhile ?P ps"
  proof -
    have "takeWhile (\<lambda>y. \<not> pointCompare x y) ps = takeWhile ?P ps" "dropWhile (\<lambda>y. \<not> pointCompare x y) ps = dropWhile ?P ps"
      by (rule takeWhile_cong[OF refl], erule cmp, rule dropWhile_cong[OF refl], erule cmp)
    then show ?thesis by (simp add: put_point_def)
  qed
  have "fraction y \<le> fraction x" if "y \<in> set (takeWhile ?P ps)" for y
  proof -
    have "\<not> fraction x < fraction y" "y \<in> set ps" using set_takeWhileD[OF that] by auto
    then show ?thesis using assms(3) dbl_linear[of "fraction x" "fraction y"] by (auto simp: dbl_le_iff)
  qed
  moreover have "fraction x \<le> fraction y" if "y \<in> set (dropWhile ?P ps)" for y
  proof (cases "dropWhile ?P ps")
    case Nil
    then show ?thesis using that by (simp only: Nil) simp
  next
    case (Cons z zs)
    then have z: "fraction x < fraction z" using hd_dropWhile[of ?P ps] by simp
    have "by_fraction (z # zs)"
      using assms(1) unfolding Cons[symmetric] by (metis sorted_wrt_append takeWhile_dropWhile_id)
    then have "y = z \<or> fraction z \<le> fraction y" using that Cons by auto
    then show ?thesis using z dbl_less_imp_le dbl_le_trans by blast
  qed
  moreover have parts: "by_fraction (takeWhile ?P ps @ dropWhile ?P ps)" using assms(1) by simp
  ultimately have "by_fraction (put_point x ps)"
    unfolding ins sorted_wrt_append using parts[unfolded sorted_wrt_append] by (auto intro: dbl_le_trans)
  moreover have "set (put_point x ps) = insert x (set (takeWhile ?P ps @ dropWhile ?P ps))"
    unfolding ins set_append list.set by blast
  ultimately show ?thesis by (simp only: takeWhile_dropWhile_id)
qed

lemma points_on_edge_by_fraction:
  assumes "sorted_wrt (\<lambda>p q. pid p < pid q) points" "\<forall>p \<in> set points. fraction p \<noteq> NaN"
  shows "by_fraction (points_on_edge points e) \<and>
    set (points_on_edge points e) = {p \<in> set points. edge_id e = point_edge_id p}"
  using assms
proof (induction points rule: rev_induct)
  case Nil
  then show ?case by (simp add: points_on_edge_def)
next
  case (snoc x ps)
  have IH: "by_fraction (points_on_edge ps e)" "set (points_on_edge ps e) = {p \<in> set ps. edge_id e = point_edge_id p}"
    using snoc by (simp_all add: sorted_wrt_append)
  have "by_fraction (put_point x (points_on_edge ps e)) \<and>
      set (put_point x (points_on_edge ps e)) = insert x (set (points_on_edge ps e))"
    using snoc.prems IH by (intro put_point_by_fraction) (auto simp: sorted_wrt_append)
  then show ?case using IH by (auto simp: points_on_edge_def)
qed

section \<open>The check of the points\<close>

lemma unique_by_subseq: "subseq (unique_by eq xs) xs"
proof (induction eq xs rule: unique_by.induct)
  case (3 eq x y ys)
  have "subseq ys (y # ys)" by (intro list_emb_Cons) simp
  then have "subseq (x # ys) (x # y # ys)" by simp
  then show ?case using 3 subseq_order.trans[of "unique_by eq (x # ys)" "x # ys" "x # y # ys"] by (cases "eq x y") simp_all
qed simp_all

lemma sorted_wrt_subseq: "subseq xs ys \<Longrightarrow> sorted_wrt P ys \<Longrightarrow> sorted_wrt P xs"
  by (induction rule: list_emb.induct) (auto dest: list_emb_set)

lemma unique_by_key:
  assumes "sorted_wrt (\<lambda>a b. key a \<le> (key b :: 'k :: linorder)) xs"
  shows "sorted_wrt (\<lambda>a b. key a < key b) (unique_by (\<lambda>a b. key a = key b) xs) \<and>
    key ` set (unique_by (\<lambda>a b. key a = key b) xs) = key ` set xs"
  using assms
proof (induction "\<lambda>a b. key a = key b" xs rule: unique_by.induct)
  case (3 x y ys)
  show ?case
  proof (cases "key x = key y")
    case True
    then show ?thesis using 3 by auto
  next
    case False
    have u: "set (unique_by (\<lambda>a b. key a = key b) (y # ys)) \<subseteq> set (y # ys)" by (rule set_unique_by_subset)
    have "key x < key z" if "z \<in> set (unique_by (\<lambda>a b. key a = key b) (y # ys))" for z
    proof -
      have "key x < key y" "key y \<le> key z" using 3(3) False u that by force+
      then show ?thesis by simp
    qed
    then show ?thesis using 3(2)[OF False] 3(3) False by auto
  qed
qed simp_all

lemma unique_by_same_length: "length (unique_by eq xs) = length xs \<Longrightarrow> unique_by eq xs = xs"
  using unique_by_subseq subseq_same_length by blast

lemma point_less_strict: "strict_weak_on {p. fraction p \<noteq> NaN} point_less"
  unfolding strict_weak_on_def point_less_def
  by (auto simp: deq_def split: if_splits dest: dbl_less_asym dbl_less_trans) (meson dbl_linear dbl_less_trans)+

lemma check_points_spec:
  assumes "\<forall>p \<in> set (m_points g). fraction p \<noteq> NaN"
  shows "sorted_wrt (\<lambda>p q. pid p < pid q) (m_points (check_points g))"
    "set (m_points (check_points g)) \<subseteq> set (m_points g)" "pid ` set (m_points (check_points g)) = pid ` set (m_points g)"
    "m_edges_of_points (check_points g) = m_edges_of_points g" "m_new_edges (check_points g) = m_new_edges g"
    "m_driving_side (check_points g) = m_driving_side g"
    "wp_error (check_points g) = wp_error g \<longleftrightarrow> (\<forall>p \<in> set (m_points g). \<forall>q \<in> set (m_points g). pid p = pid q \<longrightarrow> same_point p q)"
proof -
  let ?s = "sort_by point_less (m_points g)"
  let ?d = "unique_by same_point ?s"
  let ?o = "unique_by (\<lambda>a b. pid a = pid b) ?d"
  have sub: "strict_weak_on (set (m_points g)) point_less"
    using assms by (intro strict_weak_on_subset[OF point_less_strict]) blast
  have sorted: "sorted_wrt (\<lambda>a b. \<not> point_less b a) ?s" by (rule sorted_sort_by[OF sub])
  then have "sorted_wrt (\<lambda>a b. pid a \<le> pid b) ?s"
    by (rule sorted_wrt_mono_rel[rotated]) (auto simp: point_less_def split: if_splits)
  then have pids: "sorted_wrt (\<lambda>a b. pid a \<le> pid b) ?d" by (rule sorted_wrt_subseq[OF unique_by_subseq])
  note u = unique_by_key[OF pids]
  have points: "m_points (check_points g) = ?o" by (simp add: check_points_def Let_def)
  show "m_edges_of_points (check_points g) = m_edges_of_points g" "m_new_edges (check_points g) = m_new_edges g"
    "m_driving_side (check_points g) = m_driving_side g"
    by (simp_all add: check_points_def Let_def)
  show "sorted_wrt (\<lambda>p q. pid p < pid q) (m_points (check_points g))" unfolding points using u by blast
  show subset: "set (m_points (check_points g)) \<subseteq> set (m_points g)"
    unfolding points
    using order_trans[OF set_unique_by_subset[of "\<lambda>a b. pid a = pid b" ?d] set_unique_by_subset[of same_point ?s]] by simp
  have sp: "\<exists>q \<in> set (unique_by same_point xs). same_point q p" if "p \<in> set xs" "\<forall>p \<in> set xs. fraction p \<noteq> NaN" for p xs
    using that
  proof (induction same_point xs arbitrary: p rule: unique_by.induct)
    case (3 x y ys)
    show ?case
    proof (cases "same_point x y")
      case True
      have "same_point x x" using 3(4) by (simp add: same_point_def deq_def)
      show ?thesis
      proof (cases "p = y")
        case False
        then show ?thesis using 3(1)[OF True, of p] 3(3,4) True by auto
      next
        case py: True
        obtain q where "q \<in> set (unique_by same_point (x # ys))" "same_point q x" using 3(1)[OF True, of x] 3(4) by auto
        then show ?thesis using True py by (auto simp: same_point_def deq_def)
      qed
    next
      case False
      then show ?thesis using 3(2)[OF False, of p] 3(3,4) by (auto simp: same_point_def deq_def)
    qed
  qed (auto simp: same_point_def deq_def)
  have dpid: "pid ` set ?d = pid ` set (m_points g)"
  proof
    show "pid ` set ?d \<subseteq> pid ` set (m_points g)" using set_unique_by_subset[of same_point ?s] by auto
    show "pid ` set (m_points g) \<subseteq> pid ` set ?d"
    proof
      fix i assume "i \<in> pid ` set (m_points g)"
      then obtain p where "p \<in> set (m_points g)" "i = pid p" by blast
      then obtain q where "q \<in> set ?d" "same_point q p" using sp[of p ?s] assms by auto
      then show "i \<in> pid ` set ?d" using \<open>i = pid p\<close> by (intro image_eqI[of _ _ q]) (simp_all add: same_point_def)
    qed
  qed
  then show "pid ` set (m_points (check_points g)) = pid ` set (m_points g)" unfolding points using u by simp
  have err: "wp_error (check_points g) = wp_error g \<longleftrightarrow> ?o = ?d"
    using unique_by_same_length[of "\<lambda>a b. pid a = pid b" ?d] by (auto simp: check_points_def Let_def)
  show "wp_error (check_points g) = wp_error g \<longleftrightarrow>
      (\<forall>p \<in> set (m_points g). \<forall>q \<in> set (m_points g). pid p = pid q \<longrightarrow> same_point p q)"
    unfolding err
  proof
    assume eq: "?o = ?d"
    show "\<forall>p \<in> set (m_points g). \<forall>q \<in> set (m_points g). pid p = pid q \<longrightarrow> same_point p q"
    proof (intro ballI impI)
      fix p q assume pq: "p \<in> set (m_points g)" "q \<in> set (m_points g)" "pid p = pid q"
      then obtain p' q' where r: "p' \<in> set ?d" "same_point p' p" "q' \<in> set ?d" "same_point q' q"
        using sp[of p ?s] sp[of q ?s] assms by auto
      have "sorted_wrt (\<lambda>a b. pid a < pid b) ?d" using u eq by simp
      then have "distinct (map pid ?d)" using strict_sorted_iff[of "map pid ?d"] by (simp add: sorted_wrt_map)
      moreover have "pid p' = pid q'" using r pq(3) by (simp add: same_point_def)
      ultimately have "p' = q'" using r(1,3) by (meson distinct_map inj_onD)
      then show "same_point p q" using r by (auto simp: same_point_def deq_def)
    qed
  next
    assume same: "\<forall>p \<in> set (m_points g). \<forall>q \<in> set (m_points g). pid p = pid q \<longrightarrow> same_point p q"
    have adj: "unique_by (\<lambda>a b. pid a = pid b) (unique_by same_point xs) = unique_by same_point xs"
      if "\<forall>p \<in> set xs. \<forall>q \<in> set xs. pid p = pid q \<longrightarrow> same_point p q" for xs
      using that
    proof (induction same_point xs rule: unique_by.induct)
      case (3 x y ys)
      show ?case
      proof (cases "same_point x y")
        case True
        then show ?thesis using 3(1)[OF True] 3(3) by simp
      next
        case False
        then have ne: "pid x \<noteq> pid y" using 3(3) by auto
        have "hd (unique_by same_point (y # ys)) = y" for y ys
          by (induction ys arbitrary: y) auto
        moreover have "unique_by same_point (y # ys) \<noteq> []" for y ys
          by (induction ys arbitrary: y) auto
        ultimately obtain zs where "unique_by same_point (y # ys) = y # zs" by (metis list.collapse)
        then show ?thesis using 3(2)[OF False] 3(3) False ne by simp
      qed
    qed simp_all
    show "?o = ?d" by (rule adj) (use same in simp)
  qed
qed

section \<open>All edges\<close>

text \<open>The new edges that come from one edge.\<close>

definition segments :: "char \<Rightarrow> Point_on_edge_t list \<Rightarrow> Edge_t \<Rightarrow> Edge_t list" where
  "segments ds points e =
     (case cut_points ds e (points_on_edge points e) (Cut_of e) of
        Inr (_, segs, _, c) \<Rightarrow> segs @ last_segments e c
      | Inl _ \<Rightarrow> [])"

lemma cut_points_ids:
  "cut_points ds e ps c = Inr (ok, segs, ps', c') \<Longrightarrow> \<forall>x \<in> set segs. edge_id x = edge_id e"
proof (induction ps arbitrary: c segs ps')
  case (Cons p ps)
  have "\<forall>x \<in> set es. edge_id x = edge_id e" if "cut_point ds e q c = Inr (es, c1)" for q es c1
    using that by (cases rule: cut_point_cases)
      (auto simp: cut_both_def cut_forward_def cut_backward_def Let_def split: if_splits)
  moreover have "\<forall>x \<in> set (end_edges e p). edge_id x = edge_id e" by (auto simp: end_edges_def)
  ultimately show ?case using Cons by (auto simp: Let_def bindE_Inr_iff split: if_splits)
qed simp

lemma segments_ids: "x \<in> set (segments ds points e) \<Longrightarrow> edge_id x = edge_id e"
proof (cases "cut_points ds e (points_on_edge points e) (Cut_of e)")
  case (Inr r)
  assume "x \<in> set (segments ds points e)"
  then show ?thesis using Inr cut_points_ids[of ds e "points_on_edge points e" "Cut_of e"]
    by (cases r) (auto simp: segments_def last_segments_def)
qed (simp add: segments_def)

lemma cut_edges_new:
  assumes "cut_edges es g new_points = Inr g'" "wp_error g' = wp_error g"
  shows "m_new_edges g' = m_new_edges g @ concat (map (segments (m_driving_side g) (m_points g)) es) \<and>
    m_driving_side g' = m_driving_side g \<and>
    (\<forall>e \<in> set es. \<exists>segs ps' c. cut_points (m_driving_side g) e (points_on_edge (m_points g) e) (Cut_of e) = Inr (True, segs, ps', c))"
  using assms
proof (induction es arbitrary: g new_points)
  case (Cons e es)
  let ?ps = "points_on_edge (m_points g) e"
  have ne: "?ps \<noteq> []" using Cons.prems by (auto simp: Let_def)
  then obtain ok segs ps' c where 1: "cut_points (m_driving_side g) e ?ps (Cut_of e) = Inr (ok, segs, ps', c)"
    using Cons.prems(1) by (auto simp: Let_def bindE_Inr_iff)
  have ok: "ok" using Cons.prems ne 1 by (cases ok) (auto simp: Let_def)
  let ?g = "g\<lparr>m_new_edges := m_new_edges g @ segs @ last_segments e c\<rparr>"
  have "cut_edges es ?g (new_points @ ps') = Inr g'" using Cons.prems(1) ne 1 ok by (simp add: Let_def)
  from Cons.IH[OF this] Cons.prems(2) show ?case
    using 1 ok by (simp add: segments_def)
qed auto

lemma filter_concat_ids:
  assumes "distinct (map key xs)" "e \<in> set xs" "\<And>d x. d \<in> set xs \<Longrightarrow> x \<in> set (f d) \<Longrightarrow> id_of_part x = key d"
  shows "filter (\<lambda>x. id_of_part x = key e) (concat (map f xs)) = f e"
  using assms
proof (induction xs)
  case (Cons d xs)
  show ?case
  proof (cases "d = e")
    case True
    have "key c \<noteq> key e" if "c \<in> set xs" for c
      using Cons.prems(1) that True by (metis distinct.simps(2) image_eqI list.set_map list.simps(9))
    then have "filter (\<lambda>x. id_of_part x = key e) (concat (map f xs)) = []"
      using Cons.prems(3) by (fastforce simp: filter_empty_conv)
    moreover have "filter (\<lambda>x. id_of_part x = key e) (f e) = f e" using Cons.prems(3)[of e] True by (simp add: filter_id_conv)
    ultimately show ?thesis using True by simp
  next
    case False
    then have e: "e \<in> set xs" using Cons.prems(2) by simp
    then have "key d \<noteq> key e" using Cons.prems(1) by (metis distinct.simps(2) image_eqI list.set_map list.simps(9))
    then have "filter (\<lambda>x. id_of_part x = key e) (f d) = []" using Cons.prems(3)[of d] by (auto simp: filter_empty_conv)
    moreover have "filter (\<lambda>x. id_of_part x = key e) (concat (map f xs)) = f e"
      using Cons.IH Cons.prems(1,3) e by simp
    ultimately show ?thesis by simp
  qed
qed simp

section \<open>The constructor\<close>

text \<open>The points on edge \<open>e\<close> in the order of their fractions, all strictly inside it.\<close>

lemma segments_forward:
  assumes "cut_points ds e ps (Cut_of e) = Inr (ok, segs, ps', c)" "\<forall>p \<in> set ps. inside_edge p" "by_fraction ps"
    and "edge_cost e = Fin ce" "0 \<le> ce"
  shows "chain_of (source e) (forward (segs @ last_segments e c)) (target e) \<and>
    sum_list (map edge_cost (forward (segs @ last_segments e c))) = edge_cost e \<and>
    map target (forward (segs @ last_segments e c)) = map (\<lambda>p. - pid p) (filter (seen_forward ds e) ps) @ [target e]"
proof -
  have pos: "\<forall>p \<in> set ps. prev_fraction (Cut_of e) \<le> fraction p"
    using assms(2) by (auto simp: Cut_of_def inside_edge_def intro: dbl_less_imp_le)
  obtain pf where r: "chain_of (prev_target (Cut_of e)) (forward segs) (prev_target c)"
      "map target (forward segs) = map (\<lambda>p. - pid p) (filter (seen_forward ds e) ps)"
      "pf \<le> 1" "agg_fcost c = Fin (pf * ce)" "sum_list (map edge_cost (forward segs)) = Fin (pf * ce)"
    using cut_points_forward[OF assms(1-3) pos _ _ assms(4,5), of 0] by (auto simp: Cut_of_def zero_double_def)
  have "edge_cost e - agg_fcost c = Fin (ce - pf * ce)" "0 \<le> ce - pf * ce"
    using assms(4,5) r(3,4) by (simp_all add: minus_double_def mult_left_le_one_le mult_right_le_one_le mult.commute)
      (metis mult_left_le mult.commute)
  then have "forward (last_segments e c) = [new_edge (edge_id e) (prev_target c) (target e) (Fin (ce - pf * ce)) (-1)]"
    by (simp add: last_segments_def)
  then show ?thesis using r assms(4) by (simp add: Cut_of_def)
qed

lemma segments_backward:
  assumes "cut_points ds e ps (Cut_of e) = Inr (ok, segs, ps', c)" "\<forall>p \<in> set ps. inside_edge p" "by_fraction ps"
    and "reverse_cost e = Fin ce" "0 \<le> ce" "(\<forall>p \<in> set ps. both_ways ds e p) \<or> (\<forall>p \<in> set ps. \<not> both_ways ds e p)"
  shows "chain_of (source e) (backward (segs @ last_segments e c)) (target e) \<and>
    sum_list (map reverse_cost (backward (segs @ last_segments e c))) = reverse_cost e \<and>
    map target (backward (segs @ last_segments e c)) = map (\<lambda>p. - pid p) (filter (seen_backward ds e) ps) @ [target e]"
proof -
  have pos: "\<forall>p \<in> set ps. prev_rfraction (Cut_of e) \<le> fraction p"
    using assms(2) by (auto simp: Cut_of_def inside_edge_def intro: dbl_less_imp_le)
  obtain pf where r: "chain_of (prev_rtarget (Cut_of e)) (backward segs) (prev_rtarget c)"
      "map target (backward segs) = map (\<lambda>p. - pid p) (filter (seen_backward ds e) ps)"
      "pf \<le> 1" "agg_rcost c = Fin (pf * ce)" "sum_list (map reverse_cost (backward segs)) = Fin (pf * ce)"
    using cut_points_backward[OF assms(1-3) pos _ _ assms(4,5), of 0] assms(6) by (auto simp: Cut_of_def zero_double_def)
  have "reverse_cost e - agg_rcost c = Fin (ce - pf * ce)" "0 \<le> ce - pf * ce"
    using assms(4,5) r(3,4) by (simp_all add: minus_double_def)
      (metis mult_left_le mult.commute)
  then have "backward (last_segments e c) = [new_edge (edge_id e) (prev_rtarget c) (target e) (-1) (Fin (ce - pf * ce))]"
    by (simp add: last_segments_def)
  then show ?thesis using r assms(4) by (simp add: Cut_of_def)
qed

lemma inner_not_nan: "inside_edge p \<Longrightarrow> fraction p \<noteq> NaN"
  using inner_fraction[of p] by auto

lemma check_points_errors: "wp_error g = [] \<Longrightarrow> wp_error (check_points g) = [] \<or> wp_error (check_points g) = [SamePid]"
  by (simp add: check_points_def Let_def)

lemma cut_edges_errors: "cut_edges es g np = Inr g' \<Longrightarrow> \<exists>er. wp_error g' = wp_error g @ er"
  by (induction es g np rule: cut_edges.induct) (auto simp: Let_def bindE_Inr_iff split: if_splits)

text \<open>The graph of the points when no message was written.\<close>

lemma Pg_points_graph_cut:
  assumes "Pg_points_graph_of points edges True ds directed = Inr g" "wp_error g = []"
    and "distinct (map edge_id edges)" "e \<in> set edges" "\<forall>p \<in> set points. inside_edge p"
  shows "\<exists>ps segs ps' c. m_driving_side g = (if directed then ds else kBoth) \<and>
    set ps \<subseteq> {p \<in> set points. point_edge_id p = edge_id e} \<and>
    (\<forall>p \<in> set points. point_edge_id p = edge_id e \<longrightarrow> (\<exists>q \<in> set ps. same_point p q)) \<and>
    (\<forall>p \<in> set ps. inside_edge p) \<and> by_fraction ps \<and> distinct (map pid ps) \<and>
    cut_points (m_driving_side g) e ps (Cut_of e) = Inr (True, segs, ps', c) \<and>
    filter (\<lambda>x. edge_id x = edge_id e) (m_new_edges g) = segs @ last_segments e c"
proof -
  define g0 where "g0 = \<lparr>m_points = points, m_o_points = points, m_edges_of_points = edges, m_new_edges = [],
    m_driving_side = (if directed then ds else kBoth), m_directed = directed, wp_error = []\<rparr>"
  define g1 where "g1 = check_points g0"
  have nan: "\<forall>p \<in> set (m_points g0). fraction p \<noteq> NaN" using assms(5) inner_not_nan by (simp add: g0_def)
  note c = check_points_spec[OF nan, folded g1_def]
  have run: "cut_edges edges g1 [] = Inr g"
    using assms(1) c(4) by (cases directed) (simp_all add: Pg_points_graph_of_def create_new_edges_def Let_def g1_def g0_def)
  obtain er where "wp_error g = wp_error g1 @ er" using cut_edges_errors[OF run] by blast
  then have err: "wp_error g1 = []" using assms(2) by simp
  then have same: "\<forall>p \<in> set points. \<forall>q \<in> set points. pid p = pid q \<longrightarrow> same_point p q"
    using c(7) by (simp add: g0_def)
  note n = cut_edges_new[OF run]
  have ds: "m_driving_side g1 = (if directed then ds else kBoth)" "m_new_edges g1 = []" using c(5,6) by (simp_all add: g0_def)
  let ?ps = "points_on_edge (m_points g1) e"
  have sub: "set (m_points g1) \<subseteq> set points" "pid ` set (m_points g1) = pid ` set points" using c(2,3) by (simp_all add: g0_def)
  have ps: "by_fraction ?ps" "set ?ps = {p \<in> set (m_points g1). edge_id e = point_edge_id p}"
    using points_on_edge_by_fraction[OF c(1), of e] nan c(2) by blast+
  have dist: "distinct (map pid ?ps)"
  proof -
    have "mset (put_point x ps) = add_mset x (mset ps)" for x ps
      unfolding put_point_def by (metis mset.simps(2) mset_append takeWhile_dropWhile_id union_mset_add_mset_right)
    then have "mset (points_on_edge qs e) = mset (filter (\<lambda>p. edge_id e = point_edge_id p) qs)" for qs
      by (induction qs rule: rev_induct) (auto simp: points_on_edge_def)
    from arg_cong[OF this[of "m_points g1"], of "image_mset pid"] have
      "mset (map pid ?ps) = mset (map pid (filter (\<lambda>p. edge_id e = point_edge_id p) (m_points g1)))" by simp
    moreover have "distinct (map pid (m_points g1))"
      using c(1) strict_sorted_iff[of "map pid (m_points g1)"] by (simp add: sorted_wrt_map)
    ultimately show ?thesis using distinct_map_filter mset_eq_imp_distinct_iff by blast
  qed
  have all: "\<exists>q \<in> set ?ps. same_point p q" if p: "p \<in> set points" "point_edge_id p = edge_id e" for p
  proof -
    have "pid p \<in> pid ` set (m_points g1)" unfolding sub(2) using p(1) by (rule imageI)
    then obtain q where q: "q \<in> set (m_points g1)" "pid q = pid p" by auto
    then have "same_point p q" using same p(1) sub(1) by auto
    then show ?thesis unfolding ps(2) using q p(2) by (intro bexI[of _ q]) (simp_all add: same_point_def)
  qed
  obtain segs ps' cc where cut: "cut_points (m_driving_side g1) e ?ps (Cut_of e) = Inr (True, segs, ps', cc)"
    using n assms(2,4) err by auto
  have "filter (\<lambda>x. edge_id x = edge_id e) (m_new_edges g) = segments (m_driving_side g1) (m_points g1) e"
    using n assms(2) err ds(2) filter_concat_ids[of edge_id edges e "segments (m_driving_side g1) (m_points g1)" edge_id,
        OF assms(3,4) segments_ids] by simp
  then have seg: "filter (\<lambda>x. edge_id x = edge_id e) (m_new_edges g) = segs @ last_segments e cc"
    using cut by (simp add: segments_def)
  have "\<forall>p \<in> set ?ps. inside_edge p" unfolding ps(2) using sub(1) assms(5) by blast
  moreover have "set ?ps \<subseteq> {p \<in> set points. point_edge_id p = edge_id e}" unfolding ps(2) using sub(1) by auto
  moreover have side: "m_driving_side g = m_driving_side g1" using n assms(2) err by simp
  moreover have "m_driving_side g = (if directed then ds else kBoth)" unfolding side by (rule ds(1))
  moreover have "cut_points (m_driving_side g) e ?ps (Cut_of e) = Inr (True, segs, ps', cc)" unfolding side by (rule cut)
  moreover have "\<forall>p \<in> set points. point_edge_id p = edge_id e \<longrightarrow> (\<exists>q \<in> set ?ps. same_point p q)" using all by blast
  ultimately show ?thesis using ps(1) dist seg by blast
qed

lemma same_point_seen:
  "same_point p q \<Longrightarrow> pid p = pid q \<and> both_ways ds e p = both_ways ds e q \<and> seen_forward ds e p = seen_forward ds e q \<and>
    seen_backward ds e p = seen_backward ds e q"
  by (simp add: same_point_def both_ways_def seen_forward_def seen_backward_def)

lemma seen_pids:
  assumes "set ps \<subseteq> A" "\<forall>p \<in> A. \<exists>q \<in> set ps. same_point p q" "\<And>p q. same_point p q \<Longrightarrow> P p = P q"
  shows "(\<lambda>p. - pid p) ` {p \<in> set ps. P p} = (\<lambda>p. - pid p) ` {p \<in> A. P p}"
proof
  show "(\<lambda>p. - pid p) ` {p \<in> set ps. P p} \<subseteq> (\<lambda>p. - pid p) ` {p \<in> A. P p}" using assms(1) by blast
  show "(\<lambda>p. - pid p) ` {p \<in> A. P p} \<subseteq> (\<lambda>p. - pid p) ` {p \<in> set ps. P p}"
  proof
    fix i assume "i \<in> (\<lambda>p. - pid p) ` {p \<in> A. P p}"
    then obtain p where p: "p \<in> A" "P p" "i = - pid p" by blast
    then obtain q where q: "q \<in> set ps" "same_point p q" using assms(2) by blast
    then show "i \<in> (\<lambda>p. - pid p) ` {p \<in> set ps. P p}"
      using p assms(3)[OF q(2)] same_point_seen[OF q(2)] by (intro image_eqI[of _ _ q]) simp_all
  qed
qed

section \<open>Reversing the sides\<close>

lemma flip_side_twice [simp]: "flip_side (flip_side s) = s"
  by (simp add: flip_side_def)

lemma reverse_sides_twice:
  assumes "\<forall>p \<in> set (m_points g). \<exists>f. fraction p = Fin f"
  shows "reverse_sides (reverse_sides g) = g"
proof -
  have "p\<lparr>side := flip_side (flip_side (side p)), fraction := 1 - (1 - fraction p)\<rparr> = p" if "p \<in> set (m_points g)" for p
    using assms that by (auto simp: one_double_def minus_double_def)
  then have "map (\<lambda>p. p\<lparr>side := flip_side (flip_side (side p)), fraction := 1 - (1 - fraction p)\<rparr>) (m_points g) = m_points g"
    by (intro map_idI) blast
  then show ?thesis by (simp add: reverse_sides_def comp_def)
qed

section \<open>Merging the rows of an edge\<close>

text \<open>Rows of one edge in a row become one; each starts at the vertex where its edge begins.\<close>

fun groups :: "int \<Rightarrow> int \<Rightarrow> double \<Rightarrow> Path_t list \<Rightarrow> Path_t list" where
  "groups n e c [] = [path_row n e c]"
| "groups n e c (r # rs) =
     (if edge r = e then groups n e (c + cost r) rs else path_row n e c # groups (node r) (edge r) (cost r) rs)"

lemma merge_rows_groups:
  "merge_rows n e c rs p = p\<lparr>path := path p @ groups n e c rs, m_tot_cost := m_tot_cost p + path_cost (groups n e c rs)\<rparr>"
  by (induction rs arbitrary: n e c p) (auto simp: push_back_def path_row_def add.assoc)

lemma groups_cost: "path_cost (groups n e c rs) = c + path_cost rs"
  by (induction rs arbitrary: n e c) (auto simp: path_row_def add.assoc)

lemma groups_hd: "groups n e c rs \<noteq> [] \<and> node (hd (groups n e c rs)) = n \<and> edge (hd (groups n e c rs)) = e"
  by (induction rs arbitrary: n e c) (auto simp: path_row_def)

lemma groups_edges: "map edge (groups n e c rs) = unique_by (=) (e # map edge rs)"
  by (induction rs arbitrary: n e c) (auto simp: path_row_def)

lemma groups_nodes: "node ` set (groups n e c rs) \<subseteq> insert n (node ` set rs)"
proof (induction rs arbitrary: n e c)
  case (Cons r rs)
  show ?case
    using Cons.IH[of n e "c + cost r"] Cons.IH[of "node r" "edge r" "cost r"]
    by (cases "edge r = e"; simp add: path_row_def; blast)
qed (simp add: path_row_def)

lemma eliminate_details_spec:
  assumes "path p \<noteq> []"
  shows "map edge (path (eliminate_details p)) = unique_by (=) (map edge (path p)) \<and>
    m_tot_cost (eliminate_details p) = path_cost (path p) \<and> path_cost (path (eliminate_details p)) = path_cost (path p) \<and>
    agg_from 0 (path (eliminate_details p)) \<and>
    m_start_id (eliminate_details p) = m_start_id p \<and> m_end_id (eliminate_details p) = m_end_id p \<and>
    node (hd (path (eliminate_details p))) = node (hd (path p)) \<and>
    node ` set (path (eliminate_details p)) \<subseteq> node ` set (path p)"
proof -
  obtain r rs where p: "path p = r # rs" using assms by (cases "path p") auto
  let ?q = "(Path_of (m_start_id p) (m_end_id p))\<lparr>path := groups (node r) (edge r) 0 (accumulate 0 (path p)),
    m_tot_cost := path_cost (groups (node r) (edge r) 0 (accumulate 0 (path p)))\<rparr>"
  have q: "eliminate_details p = recalculate_agg_cost ?q"
    using p by (simp add: eliminate_details_def merge_rows_groups recalculate_agg_cost_def[of p] Path_of_def)
  let ?g = "groups (node r) (edge r) 0 (accumulate 0 (path p))"
  have f: "path (eliminate_details p) = accumulate 0 ?g" "m_start_id (eliminate_details p) = m_start_id p"
      "m_end_id (eliminate_details p) = m_end_id p"
    unfolding q by (simp_all add: recalculate_agg_cost_def Path_of_def)
  have costs: "path_cost ?g = path_cost (path p)" by (simp add: groups_cost)
  have tot: "m_tot_cost (eliminate_details p) = path_cost (path (eliminate_details p))"
    unfolding q using recalculate_agg_cost_ok by blast
  have edges: "map edge ?g = unique_by (=) (map edge (path p))" by (simp add: groups_edges p)
  have nodes: "node ` set ?g \<subseteq> node ` set (path p)"
  proof -
    have "node ` set (accumulate 0 (path p)) = node ` set (path p)"
      using accumulate_fields(2)[of 0 "path p"] by (metis list.set_map)
    then show ?thesis using groups_nodes[of "node r" "edge r" 0 "accumulate 0 (path p)"] p by auto
  qed
  have "node ` set (accumulate 0 ?g) = node ` set ?g"
    using accumulate_fields(2)[of 0 ?g] by (metis list.set_map)
  moreover have "node (hd (accumulate 0 ?g)) = node (hd ?g)"
    using accumulate_fields(2)[of 0 ?g] groups_hd by (metis accumulate_fields(6) hd_map)
  ultimately show ?thesis
    using f tot costs edges nodes groups_hd p by simp
qed

end
