(* ===== verification/Point_samples.thy ===== *)
theory Point_samples
  imports Cut_edges
begin

text \<open>
  A road with points, cut at run time: the concrete inputs of the witnesses, and the two inputs at
  which \<open>create_new_edges\<close> takes the edge apart.
\<close>

definition road :: Edge_t where
  "road = new_edge 1 10 20 (Fin 10) (Fin 8)"

definition point_at :: "int \<Rightarrow> double \<Rightarrow> char \<Rightarrow> Point_on_edge_t" where
  "point_at i f s = \<lparr>pid = i, point_edge_id = 1, side = s, fraction = f, vertex_id = 0\<rparr>"

definition road_with :: "Point_on_edge_t list \<Rightarrow> Pg_points_graph run" where
  "road_with points = Pg_points_graph_of points [road] True kRight True"

text \<open>The arcs that a search may use: an edge in the direction of its cost, and back.\<close>

definition arcs_of :: "Edge_t list \<Rightarrow> (int \<times> int) list" where
  "arcs_of es = map (\<lambda>x. (source x, target x)) (filter (\<lambda>x. 0 \<le> edge_cost x) es) @
     map (\<lambda>x. (target x, source x)) (filter (\<lambda>x. 0 \<le> reverse_cost x) es)"

lemma closed_not_reached: "E `` X \<subseteq> X \<Longrightarrow> a \<in> X \<Longrightarrow> b \<notin> X \<Longrightarrow> (a, b) \<notin> E\<^sup>*"
  by (metis ImageI Image_closed_trancl)

definition left_of :: "Point_on_edge_t" where "left_of = point_at 1 (Fin (1/4)) kLeft"
definition right_of :: "Point_on_edge_t" where "right_of = point_at 2 (Fin (1/2)) kRight"

lemma road_both_sides:
  "\<exists>g. road_with [right_of, left_of] = Inr g \<and> wp_error g = [] \<and> m_driving_side g = kRight \<and>
    m_new_edges g = [new_edge 1 10 (-1) (-1) (Fin 2), new_edge 1 10 (-2) (Fin 5) (-1),
      new_edge 1 (-2) 20 (Fin 5) (-1), new_edge 1 (-1) 20 (-1) (Fin 6)]"
proof -
  have "(case road_with [right_of, left_of] of Inr g \<Rightarrow> wp_error g = [] \<and> m_driving_side g = kRight \<and>
    m_new_edges g = [new_edge 1 10 (-1) (-1) (Fin 2), new_edge 1 10 (-2) (Fin 5) (-1),
      new_edge 1 (-2) 20 (Fin 5) (-1), new_edge 1 (-1) 20 (-1) (Fin 6)] | _ \<Rightarrow> False)" by code_simp
  then show ?thesis by (auto split: sum.splits)
qed

lemma road_points_inner: "\<forall>p \<in> set [right_of, left_of]. inside_edge p"
  by code_simp

lemma road_points_one_side: "\<forall>p \<in> set [right_of, left_of]. \<not> both_ways kRight road p"
  by code_simp

lemma road_fields: "edge_id road = 1" "source road = 10" "target road = 20" "edge_cost road = Fin 10" "reverse_cost road = Fin 8"
  by (simp_all add: road_def)

text \<open>A point at the far end of the edge, behind another one.\<close>

lemma road_end_point:
  "\<exists>g. road_with [point_at 1 (Fin (1/4)) kRight, point_at 2 1 kRight] = Inr g \<and> wp_error g = [] \<and>
    arcs_of (m_new_edges g) = [(10, -1), (20, -2), (-2, 20), (-2, 20), (20, 10)]"
proof -
  have "(case road_with [point_at 1 (Fin (1/4)) kRight, point_at 2 1 kRight] of Inr g \<Rightarrow> wp_error g = [] \<and>
    arcs_of (m_new_edges g) = [(10, -1), (20, -2), (-2, 20), (-2, 20), (20, 10)] | _ \<Rightarrow> False)" by code_simp
  then show ?thesis by (auto split: sum.splits)
qed

text \<open>A point of both sides behind a point of the driving side.\<close>

lemma road_mixed_points:
  "\<exists>g. road_with [point_at 1 (Fin (1/4)) kRight, point_at 2 (Fin (3/4)) kBoth] = Inr g \<and> wp_error g = [] \<and>
    arcs_of (m_new_edges g) = [(10, -1), (-1, -2), (-2, 20), (-2, -1), (20, -2)]"
proof -
  have "(case road_with [point_at 1 (Fin (1/4)) kRight, point_at 2 (Fin (3/4)) kBoth] of Inr g \<Rightarrow> wp_error g = [] \<and>
    arcs_of (m_new_edges g) = [(10, -1), (-1, -2), (-2, 20), (-2, -1), (20, -2)] | _ \<Rightarrow> False)" by code_simp
  then show ?thesis by (auto split: sum.splits)
qed

end
