(* ===== verification/Dmatrices.thy ===== *)
theory Dmatrices
  imports Doubles
begin

text \<open>
  The distance matrix (\<open>include/cpp_common/Dmatrix.hpp\<close>, \<open>src/cpp_common/Dmatrix.cpp\<close>):
  the user's vertex identifiers, sorted and without repetition, and a square table of costs
  indexed by their positions.  Looking up an identifier that is not in the matrix throws; a
  row or column index is not checked by the code.
\<close>

record IID_t_rt =
  from_vid :: int
  to_vid :: int
  iid_cost :: double

record Dmatrix =
  dm_ids :: "int list"
  dm_costs :: "double list list"

definition set_ids :: "IID_t_rt list \<Rightarrow> int list" where
  "set_ids data_costs =
     unique_by (=) (sort_by (<) (concat (map (\<lambda>c. [from_vid c, to_vid c]) data_costs)))"

definition dm_has_id :: "Dmatrix \<Rightarrow> int \<Rightarrow> bool" where
  "dm_has_id m i \<longleftrightarrow> List.member (dm_ids m) i"

fun index_from :: "int list \<Rightarrow> int \<Rightarrow> nat \<Rightarrow> nat option" where
  "index_from [] i pos = None"
| "index_from (x # xs) i pos = (if x = i then Some pos else index_from xs i (Suc pos))"

definition get_index :: "Dmatrix \<Rightarrow> int \<Rightarrow> nat run" where
  "get_index m i =
     (case index_from (dm_ids m) i 0 of Some pos \<Rightarrow> Inr pos | None \<Rightarrow> Inl (NodeNotInMatrix i))"

definition get_id :: "Dmatrix \<Rightarrow> nat \<Rightarrow> int run" where
  "get_id m pos = (if pos < length (dm_ids m) then Inr (dm_ids m ! pos) else Inl UndefinedBehaviour)"

definition dm_at :: "Dmatrix \<Rightarrow> nat \<Rightarrow> nat \<Rightarrow> double run" where
  "dm_at m i j =
     (if i < length (dm_costs m) \<and> j < length (dm_costs m ! i) then Inr (dm_costs m ! i ! j)
      else Inl UndefinedBehaviour)"

definition dm_put :: "nat \<Rightarrow> nat \<Rightarrow> double \<Rightarrow> Dmatrix \<Rightarrow> Dmatrix run" where
  "dm_put i j c m =
     (if i < length (dm_costs m) \<and> j < length (dm_costs m ! i)
      then Inr (m\<lparr>dm_costs := (dm_costs m)[i := (dm_costs m ! i)[j := c]]\<rparr>)
      else Inl UndefinedBehaviour)"

text \<open>\<open>Dmatrix::set\<close>: the same cost in both directions.\<close>

definition dm_set :: "nat \<Rightarrow> nat \<Rightarrow> double \<Rightarrow> Dmatrix \<Rightarrow> Dmatrix run" where
  "dm_set i j c m = bindE (dm_put j i c m) (dm_put i j c)"

definition dm_distance :: "Dmatrix \<Rightarrow> int \<Rightarrow> int \<Rightarrow> double run" where
  "dm_distance m i j = bindE (get_index m i) (\<lambda>a. bindE (get_index m j) (\<lambda>b. dm_at m a b))"

definition dm_empty :: "Dmatrix \<Rightarrow> bool" where
  "dm_empty m \<longleftrightarrow> dm_ids m = []"

definition square_of :: "int list \<Rightarrow> Dmatrix" where
  "square_of xs = \<lparr>dm_ids = xs, dm_costs = replicate (length xs) (replicate (length xs) dbl_max)\<rparr>"

definition zero_diagonal :: "Dmatrix \<Rightarrow> Dmatrix run" where
  "zero_diagonal m = foldE (\<lambda>i. dm_put i i 0) [0..<length (dm_costs m)] m"

definition put_row :: "IID_t_rt \<Rightarrow> Dmatrix \<Rightarrow> Dmatrix run" where
  "put_row d m =
     bindE (get_index m (from_vid d)) (\<lambda>i. bindE (get_index m (to_vid d)) (\<lambda>j. dm_put i j (iid_cost d) m))"

text \<open>The constructor from matrix rows: later rows overwrite earlier ones, the diagonal is 0.\<close>

definition Dmatrix_of_rows :: "IID_t_rt list \<Rightarrow> Dmatrix run" where
  "Dmatrix_of_rows data_costs =
     bindE (foldE put_row data_costs (square_of (set_ids data_costs))) zero_diagonal"

fun dbl_sqrt :: "double \<Rightarrow> double" where
  "dbl_sqrt (Fin a) = (if a < 0 then NaN else Fin (sqrt a))"
| "dbl_sqrt PInf = PInf"
| "dbl_sqrt NInf = NaN"
| "dbl_sqrt NaN = NaN"

definition get_distance :: "double \<times> double \<Rightarrow> double \<times> double \<Rightarrow> double" where
  "get_distance p1 p2 =
     (let dx = fst p1 - fst p2; dy = snd p1 - snd p2 in dbl_sqrt (dx * dx + dy * dy))"

definition put_euclidean ::
    "(double \<times> double) \<times> int \<Rightarrow> (double \<times> double) \<times> int \<Rightarrow> Dmatrix \<Rightarrow> Dmatrix run" where
  "put_euclidean p q m =
     bindE (get_index m (snd p)) (\<lambda>i. bindE (get_index m (snd q)) (\<lambda>j.
       bindE (dm_put i j (get_distance (fst p) (fst q)) m) (\<lambda>m'.
         bindE (dm_at m' i j) (\<lambda>c. dm_put j i c m'))))"

text \<open>The Euclidean constructor; its argument is the map in iteration order.\<close>

definition Dmatrix_of_points :: "((double \<times> double) \<times> int) list \<Rightarrow> Dmatrix run" where
  "Dmatrix_of_points pts =
     bindE (foldE (\<lambda>p. foldE (put_euclidean p) pts) pts (square_of (map snd pts))) zero_diagonal"

definition has_no_infinity :: "Dmatrix \<Rightarrow> bool" where
  "has_no_infinity m \<longleftrightarrow> list_all (list_all (\<lambda>v. v \<noteq> PInf \<and> v \<noteq> dbl_max)) (dm_costs m)"

definition obeys_triangle_inequality :: "Dmatrix \<Rightarrow> bool run" where
  "obeys_triangle_inequality m =
     (let r = [0..<length (dm_costs m)] in
      foldE (\<lambda>(i, j, k) ok.
          if \<not> ok then Inr ok
          else bindE (dm_at m i k) (\<lambda>ik. bindE (dm_at m i j) (\<lambda>ij. bindE (dm_at m j k) (\<lambda>jk.
            Inr (ik \<le> ij + jk)))))
        (concat (map (\<lambda>i. concat (map (\<lambda>j. map (\<lambda>k. (i, j, k)) r) r)) r)) True)"

definition is_symmetric :: "Dmatrix \<Rightarrow> bool run" where
  "is_symmetric m =
     (let r = [0..<length (dm_costs m)] in
      foldE (\<lambda>(i, j) ok.
          bindE (dm_at m i j) (\<lambda>ij. bindE (dm_at m j i) (\<lambda>ji.
            bindE (pgassert (\<not> Fin (1 / 1000000) < \<bar>ij - ji\<bar>)) (\<lambda>_. Inr ok))))
        (concat (map (\<lambda>i. map (\<lambda>j. (i, j)) r) r)) True)"

section \<open>Well-formed matrices\<close>

definition dm_wf :: "Dmatrix \<Rightarrow> bool" where
  "dm_wf m \<longleftrightarrow> length (dm_costs m) = length (dm_ids m) \<and>
     (\<forall>row \<in> set (dm_costs m). length row = length (dm_ids m))"

lemma dm_has_id_iff [simp]: "dm_has_id m i \<longleftrightarrow> i \<in> set (dm_ids m)"
  by (simp add: dm_has_id_def)

lemma index_from_None: "index_from xs i pos = None \<longleftrightarrow> i \<notin> set xs"
  by (induction xs arbitrary: pos) auto

lemma index_from_Some:
  "index_from xs i pos = Some p \<Longrightarrow> pos \<le> p \<and> p - pos < length xs \<and> xs ! (p - pos) = i"
proof (induction xs arbitrary: pos)
  case (Cons x xs)
  show ?case
  proof (cases "x = i")
    case False
    then have "Suc pos \<le> p \<and> p - Suc pos < length xs \<and> xs ! (p - Suc pos) = i"
      using Cons by auto
    then show ?thesis
      by (auto simp: nth_Cons' Suc_diff_le less_Suc_eq_le dest: Suc_leD)
  qed (use Cons.prems in auto)
qed simp

lemma get_index_Inr: "get_index m i = Inr p \<Longrightarrow> p < length (dm_ids m) \<and> dm_ids m ! p = i"
  using index_from_Some[of "dm_ids m" i 0] by (auto simp: get_index_def split: option.splits)

lemma get_index_total: "dm_has_id m i \<Longrightarrow> \<exists>p. get_index m i = Inr p"
  using index_from_None[of "dm_ids m" i 0] by (auto simp: get_index_def split: option.splits)

lemma get_index_cong: "dm_ids m = dm_ids m' \<Longrightarrow> get_index m i = get_index m' i"
  by (simp add: get_index_def)

lemma get_id_index:
  "get_index m i = Inr p \<Longrightarrow> get_id m p = Inr i"
  by (auto simp: get_id_def dest: get_index_Inr)

lemma get_index_inj:
  "get_index m i = Inr p \<Longrightarrow> get_index m j = Inr p \<Longrightarrow> i = j"
  by (metis get_index_Inr)

lemma dm_at_total: "dm_wf m \<Longrightarrow> i < length (dm_ids m) \<Longrightarrow> j < length (dm_ids m) \<Longrightarrow>
    dm_at m i j = Inr (dm_costs m ! i ! j)"
  by (auto simp: dm_at_def dm_wf_def)

lemma dm_put_total:
  assumes "dm_wf m" "i < length (dm_ids m)" "j < length (dm_ids m)"
  shows "\<exists>m'. dm_put i j c m = Inr m' \<and> dm_wf m' \<and> dm_ids m' = dm_ids m \<and>
    (\<forall>a b. a < length (dm_ids m) \<longrightarrow> b < length (dm_ids m) \<longrightarrow>
       dm_at m' a b = Inr (if a = i \<and> b = j then c else dm_costs m ! a ! b))"
proof -
  let ?m = "m\<lparr>dm_costs := (dm_costs m)[i := (dm_costs m ! i)[j := c]]\<rparr>"
  have len: "length (dm_costs m) = length (dm_ids m)"
      "\<And>a. a < length (dm_ids m) \<Longrightarrow> length (dm_costs m ! a) = length (dm_ids m)"
    using assms(1) by (auto simp: dm_wf_def)
  have "dm_wf ?m"
    using assms len by (auto simp: dm_wf_def dest!: set_update_subset_insert[THEN subsetD])
  moreover have "dm_at ?m a b = Inr (if a = i \<and> b = j then c else dm_costs m ! a ! b)"
    if "a < length (dm_ids m)" "b < length (dm_ids m)" for a b
    using that assms len by (auto simp: dm_at_def nth_list_update)
  ultimately show ?thesis
    using assms len by (simp add: dm_put_def)
qed

lemma dm_distance_total:
  assumes "dm_wf m" "dm_has_id m i" "dm_has_id m j"
  shows "\<exists>d. dm_distance m i j = Inr d"
proof -
  obtain a b where "get_index m i = Inr a" "get_index m j = Inr b"
    using assms get_index_total by blast
  then show ?thesis
    using assms(1) by (auto simp: dm_distance_def dm_at_total dest!: get_index_Inr)
qed

lemma dm_distance_missing: "\<not> dm_has_id m i \<Longrightarrow> dm_distance m i j = Inl (NodeNotInMatrix i)"
  using index_from_None[of "dm_ids m" i 0] by (auto simp: dm_distance_def get_index_def)

section \<open>What the constructor builds\<close>

lemma dm_wf_square_of: "dm_wf (square_of xs)"
  by (simp add: dm_wf_def square_of_def)

lemma set_ids_set: "set (set_ids rows) = from_vid ` set rows \<union> to_vid ` set rows"
  by (auto simp: set_ids_def)

lemma set_ids_ascending: "sorted_wrt (<) (set_ids rows)"
  unfolding set_ids_def by (rule sorted_unique_by) (rule sorted_sort_by_less)

text \<open>The cost a list of rows gives a pair: that of the last row for it.\<close>

fun last_cost :: "IID_t_rt list \<Rightarrow> int \<Rightarrow> int \<Rightarrow> double option" where
  "last_cost [] i j = None"
| "last_cost (r # rs) i j =
     (case last_cost rs i j of
        Some c \<Rightarrow> Some c
      | None \<Rightarrow> if from_vid r = i \<and> to_vid r = j then Some (iid_cost r) else None)"

lemma put_row_total:
  assumes "dm_wf m" "dm_has_id m (from_vid r)" "dm_has_id m (to_vid r)"
  shows "\<exists>m'. put_row r m = Inr m' \<and> dm_wf m' \<and> dm_ids m' = dm_ids m \<and>
    (\<forall>i j. dm_has_id m i \<longrightarrow> dm_has_id m j \<longrightarrow>
       dm_distance m' i j =
         (if from_vid r = i \<and> to_vid r = j then Inr (iid_cost r) else dm_distance m i j))"
proof -
  obtain a b where ab: "get_index m (from_vid r) = Inr a" "get_index m (to_vid r) = Inr b"
    using assms get_index_total by blast
  have lt: "a < length (dm_ids m)" "b < length (dm_ids m)"
    using ab by (auto dest: get_index_Inr)
  obtain m' where m': "dm_put a b (iid_cost r) m = Inr m'" "dm_wf m'" "dm_ids m' = dm_ids m"
    and at: "\<And>p q. p < length (dm_ids m) \<Longrightarrow> q < length (dm_ids m) \<Longrightarrow>
      dm_at m' p q = Inr (if p = a \<and> q = b then iid_cost r else dm_costs m ! p ! q)"
    using dm_put_total[OF assms(1) lt] by blast
  have "dm_distance m' i j =
      (if from_vid r = i \<and> to_vid r = j then Inr (iid_cost r) else dm_distance m i j)"
    if ij: "dm_has_id m i" "dm_has_id m j" for i j
  proof -
    obtain p q where pq: "get_index m i = Inr p" "get_index m j = Inr q"
      using ij get_index_total by blast
    have lt': "p < length (dm_ids m)" "q < length (dm_ids m)"
      using pq by (auto dest: get_index_Inr)
    have "p = a \<longleftrightarrow> from_vid r = i" "q = b \<longleftrightarrow> to_vid r = j"
      using ab pq get_index_inj by auto
    then show ?thesis
      using pq get_index_cong[OF m'(3)] at[OF lt'] dm_at_total[OF assms(1) lt']
      by (simp add: dm_distance_def)
  qed
  then show ?thesis
    using ab m' by (auto simp: put_row_def)
qed

lemma foldE_put_row:
  assumes "dm_wf m" "\<forall>r \<in> set rows. dm_has_id m (from_vid r) \<and> dm_has_id m (to_vid r)"
  shows "\<exists>m'. foldE put_row rows m = Inr m' \<and> dm_wf m' \<and> dm_ids m' = dm_ids m \<and>
    (\<forall>i j. dm_has_id m i \<longrightarrow> dm_has_id m j \<longrightarrow>
       dm_distance m' i j =
         (case last_cost rows i j of Some c \<Rightarrow> Inr c | None \<Rightarrow> dm_distance m i j))"
  using assms
proof (induction rows arbitrary: m)
  case (Cons r rows)
  obtain m1 where m1: "put_row r m = Inr m1" "dm_wf m1" "dm_ids m1 = dm_ids m"
    and d1: "\<And>i j. dm_has_id m i \<Longrightarrow> dm_has_id m j \<Longrightarrow> dm_distance m1 i j =
      (if from_vid r = i \<and> to_vid r = j then Inr (iid_cost r) else dm_distance m i j)"
    using put_row_total[OF Cons.prems(1), of r] Cons.prems(2) by auto
  obtain m2 where m2: "foldE put_row rows m1 = Inr m2" "dm_wf m2" "dm_ids m2 = dm_ids m1"
    and d2: "\<And>i j. dm_has_id m i \<Longrightarrow> dm_has_id m j \<Longrightarrow> dm_distance m2 i j =
      (case last_cost rows i j of Some c \<Rightarrow> Inr c | None \<Rightarrow> dm_distance m1 i j)"
    using Cons.IH[OF m1(2)] Cons.prems(2) m1(3) by auto
  show ?case
    using m1 m2 d1 d2 by (auto split: option.splits)
qed simp

lemma zero_diagonal_prefix:
  assumes "dm_wf m" "n \<le> length (dm_ids m)"
  shows "\<exists>m'. foldE (\<lambda>i. dm_put i i 0) [0..<n] m = Inr m' \<and> dm_wf m' \<and> dm_ids m' = dm_ids m \<and>
    (\<forall>a b. a < length (dm_ids m) \<longrightarrow> b < length (dm_ids m) \<longrightarrow>
       dm_at m' a b = Inr (if a = b \<and> a < n then 0 else dm_costs m ! a ! b))"
  using assms(2)
proof (induction n)
  case 0
  then show ?case using assms(1) by (auto simp: dm_at_total)
next
  case (Suc n)
  then obtain m1 where m1: "foldE (\<lambda>i. dm_put i i 0) [0..<n] m = Inr m1" "dm_wf m1"
      "dm_ids m1 = dm_ids m"
    and at1: "\<And>a b. a < length (dm_ids m) \<Longrightarrow> b < length (dm_ids m) \<Longrightarrow>
       dm_at m1 a b = Inr (if a = b \<and> a < n then 0 else dm_costs m ! a ! b)"
    by auto
  have n: "n < length (dm_ids m1)" using Suc.prems m1(3) by simp
  obtain m2 where m2: "dm_put n n 0 m1 = Inr m2" "dm_wf m2" "dm_ids m2 = dm_ids m1"
    and at2: "\<And>a b. a < length (dm_ids m1) \<Longrightarrow> b < length (dm_ids m1) \<Longrightarrow>
       dm_at m2 a b = Inr (if a = n \<and> b = n then 0 else dm_costs m1 ! a ! b)"
    using dm_put_total[OF m1(2) n n, of 0] by blast
  show ?case
    using m1 m2 at1 at2 dm_at_total[OF m1(2)] by (auto simp: foldE_append)
qed

lemma zero_diagonal_total:
  assumes "dm_wf m"
  shows "\<exists>m'. zero_diagonal m = Inr m' \<and> dm_wf m' \<and> dm_ids m' = dm_ids m \<and>
    (\<forall>i j. dm_has_id m i \<longrightarrow> dm_has_id m j \<longrightarrow>
       dm_distance m' i j = (if i = j then Inr 0 else dm_distance m i j))"
proof -
  obtain m' where m': "zero_diagonal m = Inr m'" "dm_wf m'" "dm_ids m' = dm_ids m"
    and at: "\<And>a b. a < length (dm_ids m) \<Longrightarrow> b < length (dm_ids m) \<Longrightarrow>
       dm_at m' a b = Inr (if a = b then 0 else dm_costs m ! a ! b)"
    using zero_diagonal_prefix[OF assms, of "length (dm_costs m)"] assms
    by (auto simp: zero_diagonal_def dm_wf_def)
  have "dm_distance m' i j = (if i = j then Inr 0 else dm_distance m i j)"
    if ij: "dm_has_id m i" "dm_has_id m j" for i j
  proof -
    obtain p q where pq: "get_index m i = Inr p" "get_index m j = Inr q"
      using ij get_index_total by blast
    have lt: "p < length (dm_ids m)" "q < length (dm_ids m)" and "p = q \<longleftrightarrow> i = j"
      using pq get_index_inj by (auto dest: get_index_Inr)
    then show ?thesis
      using pq get_index_cong[OF m'(3)] at[OF lt] dm_at_total[OF assms lt]
      by (simp add: dm_distance_def)
  qed
  then show ?thesis using m' by blast
qed

lemma square_of_distance:
  "i \<in> set xs \<Longrightarrow> j \<in> set xs \<Longrightarrow> dm_distance (square_of xs) i j = Inr dbl_max"
proof -
  assume "i \<in> set xs" "j \<in> set xs"
  then obtain p q where pq: "get_index (square_of xs) i = Inr p" "get_index (square_of xs) j = Inr q"
    using get_index_total[of "square_of xs"] by (fastforce simp: square_of_def)
  then show ?thesis
    using get_index_Inr[OF pq(1)] get_index_Inr[OF pq(2)]
    by (simp add: dm_distance_def dm_at_def square_of_def)
qed

lemma Dmatrix_of_rows_spec:
  "\<exists>m. Dmatrix_of_rows rows = Inr m \<and> dm_wf m \<and> dm_ids m = set_ids rows \<and>
    (\<forall>i \<in> set (set_ids rows). \<forall>j \<in> set (set_ids rows). dm_distance m i j =
       Inr (if i = j then 0 else case last_cost rows i j of Some c \<Rightarrow> c | None \<Rightarrow> dbl_max))"
proof -
  let ?s = "square_of (set_ids rows)"
  have "\<forall>r \<in> set rows. dm_has_id ?s (from_vid r) \<and> dm_has_id ?s (to_vid r)"
    by (simp add: square_of_def set_ids_set)
  from foldE_put_row[OF dm_wf_square_of this] obtain m1 where
    m1: "foldE put_row rows ?s = Inr m1" "dm_wf m1" "dm_ids m1 = dm_ids ?s"
    and d1: "\<And>i j. dm_has_id ?s i \<Longrightarrow> dm_has_id ?s j \<Longrightarrow> dm_distance m1 i j =
      (case last_cost rows i j of Some c \<Rightarrow> Inr c | None \<Rightarrow> dm_distance ?s i j)"
    by blast
  obtain m2 where m2: "zero_diagonal m1 = Inr m2" "dm_wf m2" "dm_ids m2 = dm_ids m1"
    and d2: "\<And>i j. dm_has_id m1 i \<Longrightarrow> dm_has_id m1 j \<Longrightarrow>
      dm_distance m2 i j = (if i = j then Inr 0 else dm_distance m1 i j)"
    using zero_diagonal_total[OF m1(2)] by blast
  have "dm_ids ?s = set_ids rows" by (simp add: square_of_def)
  then show ?thesis
    using m1 m2 d1 d2 by (auto simp: Dmatrix_of_rows_def square_of_distance split: option.splits)
qed

text \<open>
  A table with triangle inequality, the hypothesis under which the insertion heuristics of the
  route planner see what the schedule will be.
\<close>

definition metric :: "Dmatrix \<Rightarrow> bool" where
  "metric m \<longleftrightarrow> (\<forall>i \<in> set (dm_ids m). \<forall>j \<in> set (dm_ids m). \<forall>k \<in> set (dm_ids m).
     case (dm_distance m i k, dm_distance m i j, dm_distance m j k) of
       (Inr ik, Inr ij, Inr jk) \<Rightarrow> ik \<le> ij + jk
     | _ \<Rightarrow> False)"

end
