(* ===== verification/Tw_nodes.thy ===== *)
theory Tw_nodes
  imports Dmatrices
begin

text \<open>
  The sites of a route: \<open>Identifier\<close> (\<open>src/common/identifier.cpp\<close>), \<open>Dnode\<close> with the distance
  in the problem's matrix (\<open>src/pickDeliver/dnode.cpp\<close>) and \<open>Tw_node\<close>, a site with a time
  window, a service time and a demand (\<open>include/vrp/tw_node.hpp\<close>, \<open>src/pickDeliver/tw_node.cpp\<close>).
  The C++ inheritance is record extension, so a method of a base class applies to every
  derived object.  The static pointer \<open>Dnode::problem\<close> is the parameter \<open>cm\<close>, the problem's
  cost matrix.  The order number of a site is an option: the constructor for vehicle sites
  leaves \<open>m_order\<close> uninitialised.
\<close>

section \<open>Rows of the inner queries\<close>

record Orders_t =
  o_id :: int
  o_demand :: double
  pick_x :: double
  pick_y :: double
  pick_node_id :: int
  pick_open_t :: double
  pick_close_t :: double
  pick_service_t :: double
  deliver_x :: double
  deliver_y :: double
  deliver_node_id :: int
  deliver_open_t :: double
  deliver_close_t :: double
  deliver_service_t :: double

record Vehicle_t =
  v_id :: int
  v_capacity :: double
  v_speed :: double
  start_x :: double
  start_y :: double
  start_node_id :: int
  cant_v :: int
  start_open_t :: double
  start_close_t :: double
  start_service_t :: double
  end_x :: double
  end_y :: double
  end_node_id :: int
  end_open_t :: double
  end_close_t :: double
  end_service_t :: double

section \<open>Identifier, Dnode\<close>

record Identifier =
  m_idx :: nat
  m_id :: int

definition reset_id :: "int \<Rightarrow> 'a Identifier_scheme \<Rightarrow> 'a Identifier_scheme" where
  "reset_id i n = n\<lparr>m_id := i\<rparr>"

definition dnode_distance ::
    "Dmatrix \<Rightarrow> 'a Identifier_scheme \<Rightarrow> 'b Identifier_scheme \<Rightarrow> double run" where
  "dnode_distance cm n other =
     bindE (get_index cm (m_id n)) (\<lambda>i. bindE (get_index cm (m_id other)) (\<lambda>j. dm_at cm i j))"

section \<open>Tw_node\<close>

datatype NodeType = kStart | kPickup | kDelivery | kDump | kLoad | kEnd

fun type_code :: "NodeType \<Rightarrow> int" where
  "type_code kStart = 0"
| "type_code kPickup = 1"
| "type_code kDelivery = 2"
| "type_code kDump = 3"
| "type_code kLoad = 4"
| "type_code kEnd = 5"

fun type_str :: "NodeType \<Rightarrow> string" where
  "type_str kStart = ''START''"
| "type_str kEnd = ''END''"
| "type_str kDump = ''DUMP''"
| "type_str kLoad = ''LOAD''"
| "type_str kPickup = ''PICKUP''"
| "type_str kDelivery = ''DELIVERY''"

record Tw_node = Identifier +
  m_order :: "int option"
  m_opens :: double
  m_closes :: double
  m_service_time :: double
  m_demand :: double
  m_type :: NodeType

definition travel_time_to ::
    "Dmatrix \<Rightarrow> 'a Identifier_scheme \<Rightarrow> 'b Identifier_scheme \<Rightarrow> double \<Rightarrow> double run" where
  "travel_time_to cm n other speed =
     bindE (pgassert (\<not> deq speed 0)) (\<lambda>_.
     bindE (dnode_distance cm n other) (\<lambda>d. Inr (d / speed)))"

definition is_early_arrival :: "'a Tw_node_scheme \<Rightarrow> double \<Rightarrow> bool" where
  "is_early_arrival n arrival_time \<longleftrightarrow> arrival_time < m_opens n"

definition is_late_arrival :: "'a Tw_node_scheme \<Rightarrow> double \<Rightarrow> bool" where
  "is_late_arrival n arrival_time \<longleftrightarrow> m_closes n < arrival_time"

definition window_length :: "'a Tw_node_scheme \<Rightarrow> double" where
  "window_length n = m_closes n - m_opens n"

text \<open>\<open>J.arrival_j_opens_i(I, speed)\<close> and \<open>J.is_compatible_IJ(I, speed)\<close>; \<open>J\<close> is \<open>*this\<close>.\<close>

definition arrival_j_opens_i ::
    "Dmatrix \<Rightarrow> 'a Tw_node_scheme \<Rightarrow> 'b Tw_node_scheme \<Rightarrow> double \<Rightarrow> double run" where
  "arrival_j_opens_i cm J I speed =
     (if m_type J = kStart then Inr dbl_max
      else bindE (travel_time_to cm I J speed) (\<lambda>t. Inr (m_opens I + m_service_time I + t)))"

definition is_compatible_IJ ::
    "Dmatrix \<Rightarrow> 'a Tw_node_scheme \<Rightarrow> 'b Tw_node_scheme \<Rightarrow> double \<Rightarrow> bool run" where
  "is_compatible_IJ cm J I speed =
     (if m_type J = kStart then Inr False
      else if m_type I = kEnd then Inr False
      else bindE (arrival_j_opens_i cm J I speed) (\<lambda>a. Inr (\<not> is_late_arrival J a)))"

definition is_start :: "'a Tw_node_scheme \<Rightarrow> bool" where
  "is_start n \<longleftrightarrow> m_type n = kStart \<and> m_opens n < m_closes n \<and> 0 \<le> m_service_time n \<and>
     deq (m_demand n) 0"

definition is_pickup :: "'a Tw_node_scheme \<Rightarrow> bool" where
  "is_pickup n \<longleftrightarrow> m_type n = kPickup \<and> m_opens n < m_closes n \<and> 0 \<le> m_service_time n \<and>
     0 < m_demand n"

definition is_delivery :: "'a Tw_node_scheme \<Rightarrow> bool" where
  "is_delivery n \<longleftrightarrow> m_type n = kDelivery \<and> m_opens n < m_closes n \<and> 0 \<le> m_service_time n \<and>
     m_demand n < 0"

definition is_dump :: "'a Tw_node_scheme \<Rightarrow> bool" where
  "is_dump n \<longleftrightarrow> m_type n = kDump \<and> m_opens n < m_closes n \<and> 0 \<le> m_service_time n \<and>
     m_demand n \<le> 0"

definition is_end :: "'a Tw_node_scheme \<Rightarrow> bool" where
  "is_end n \<longleftrightarrow> m_type n = kEnd \<and> m_opens n < m_closes n \<and> 0 \<le> m_service_time n \<and>
     deq (m_demand n) 0"

text \<open>
  \<open>operator==\<close> of two different objects.  It compares the order numbers first, also those that were
  never set.  Such a number has an unspecified value: when another field differs, the answer is
  False for every value it may have; otherwise the answer depends on it, and the model has none.
\<close>

definition tw_node_eq :: "'a Tw_node_scheme \<Rightarrow> 'b Tw_node_scheme \<Rightarrow> bool run" where
  "tw_node_eq n other =
     (if deq (m_opens n) (m_opens other) \<and> deq (m_closes n) (m_closes other) \<and>
         deq (m_service_time n) (m_service_time other) \<and> deq (m_demand n) (m_demand other) \<and>
         m_type n = m_type other \<and> m_id n = m_id other \<and> m_idx n = m_idx other
      then (case (m_order n, m_order other) of
              (Some a, Some b) \<Rightarrow> Inr (a = b)
            | _ \<Rightarrow> Inl UndefinedBehaviour)
      else Inr False)"

definition Tw_node_of_order :: "nat \<Rightarrow> Orders_t \<Rightarrow> NodeType \<Rightarrow> Tw_node" where
  "Tw_node_of_order idx d ty =
     (let n = \<lparr>m_idx = idx, m_id = pick_node_id d, m_order = Some (o_id d),
               m_opens = pick_open_t d, m_closes = pick_close_t d,
               m_service_time = pick_service_t d, m_demand = o_demand d, m_type = ty\<rparr>
      in if ty = kDelivery
         then reset_id (deliver_node_id d)
                (n\<lparr>m_opens := deliver_open_t d, m_closes := deliver_close_t d,
                   m_service_time := deliver_service_t d, m_demand := m_demand n * Fin (-1)\<rparr>)
         else n)"

definition Tw_node_of_vehicle :: "nat \<Rightarrow> Vehicle_t \<Rightarrow> NodeType \<Rightarrow> Tw_node" where
  "Tw_node_of_vehicle idx d ty =
     (let n = \<lparr>m_idx = idx, m_id = start_node_id d, m_order = None,
               m_opens = start_open_t d, m_closes = start_close_t d,
               m_service_time = start_service_t d, m_demand = 0, m_type = ty\<rparr>
      in if ty = kEnd
         then reset_id (end_node_id d)
                (n\<lparr>m_opens := end_open_t d, m_closes := end_close_t d,
                   m_service_time := end_service_t d\<rparr>)
         else n)"

section \<open>Facts\<close>

lemma deq_0_iff [simp]: "deq x 0 \<longleftrightarrow> x = 0"
  by (auto simp: deq_def zero_double_def)

lemma tw_node_eq_types: "m_type n \<noteq> m_type other \<Longrightarrow> tw_node_eq n other = Inr False"
  by (simp add: tw_node_eq_def)

lemma dnode_distance_eq: "dnode_distance cm n other = dm_distance cm (m_id n) (m_id other)"
  by (simp add: dnode_distance_def dm_distance_def)

lemma travel_time_to_total:
  "dm_wf cm \<Longrightarrow> dm_has_id cm (m_id n) \<Longrightarrow> dm_has_id cm (m_id other) \<Longrightarrow> speed \<noteq> 0 \<Longrightarrow>
    \<exists>t. travel_time_to cm n other speed = Inr t"
  using dm_distance_total[of cm "m_id n" "m_id other"]
  by (auto simp: travel_time_to_def dnode_distance_eq)

lemma is_compatible_IJ_total:
  "dm_wf cm \<Longrightarrow> dm_has_id cm (m_id J) \<Longrightarrow> dm_has_id cm (m_id I) \<Longrightarrow> speed \<noteq> 0 \<Longrightarrow>
    \<exists>b. is_compatible_IJ cm J I speed = Inr b"
  using travel_time_to_total[of cm I J speed]
  by (auto simp: is_compatible_IJ_def arrival_j_opens_i_def)

lemma is_compatible_IJ_start [simp]: "m_type J = kStart \<Longrightarrow> is_compatible_IJ cm J I s = Inr False"
  by (simp add: is_compatible_IJ_def)

lemma is_compatible_IJ_end [simp]: "m_type I = kEnd \<Longrightarrow> is_compatible_IJ cm J I s = Inr False"
  by (simp add: is_compatible_IJ_def)

lemmas node_kinds = is_start_def is_end_def is_pickup_def is_delivery_def is_dump_def

lemma node_kind_type:
  "is_start n \<Longrightarrow> m_type n = kStart" "is_end n \<Longrightarrow> m_type n = kEnd"
  "is_pickup n \<Longrightarrow> m_type n = kPickup" "is_delivery n \<Longrightarrow> m_type n = kDelivery"
  "is_dump n \<Longrightarrow> m_type n = kDump"
  by (simp_all add: node_kinds)

text \<open>What the order table gives: a valid row makes a pickup and a delivery of opposite demand.\<close>

lemma Tw_node_of_order_pickup:
  "0 < o_demand d \<Longrightarrow> pick_open_t d < pick_close_t d \<Longrightarrow> 0 \<le> pick_service_t d \<Longrightarrow>
    is_pickup (Tw_node_of_order i d kPickup)"
  by (simp add: Tw_node_of_order_def is_pickup_def)

lemma Tw_node_of_order_delivery:
  "0 < o_demand d \<Longrightarrow> deliver_open_t d < deliver_close_t d \<Longrightarrow> 0 \<le> deliver_service_t d \<Longrightarrow>
    is_delivery (Tw_node_of_order i d kDelivery)"
  by (cases "o_demand d") (auto simp: Tw_node_of_order_def is_delivery_def reset_id_def zero_double_def)

end
