(* ===== verification/Vehicle_nodes.thy ===== *)
theory Vehicle_nodes
  imports Tw_nodes
begin

text \<open>
  \<open>Vehicle_node\<close> (\<open>include/vrp/vehicle_node.hpp\<close>, \<open>src/pickDeliver/vehicle_node.cpp\<close>): a site
  with the values cached when a vehicle's path is evaluated.  The first half is the code;
  the second half says what an evaluated sequence of nodes is and that its cached values are
  a function of the sites alone.
\<close>

section \<open>The class\<close>

record Vehicle_node = Tw_node +
  m_travel_time :: double
  m_arrival_time :: double
  m_wait_time :: double
  m_departure_time :: double
  m_delta_time :: double
  m_cargo :: double
  m_twvTot :: int
  m_cvTot :: int
  m_tot_wait_time :: double
  m_tot_travel_time :: double
  m_tot_service_time :: double

definition Vehicle_node_of :: "Tw_node \<Rightarrow> Vehicle_node" where
  "Vehicle_node_of n =
     \<lparr>m_idx = m_idx n, m_id = m_id n, m_order = m_order n, m_opens = m_opens n,
      m_closes = m_closes n, m_service_time = m_service_time n, m_demand = m_demand n,
      m_type = m_type n,
      m_travel_time = 0, m_arrival_time = 0, m_wait_time = 0, m_departure_time = 0,
      m_delta_time = 0, m_cargo = 0, m_twvTot = 0, m_cvTot = 0, m_tot_wait_time = 0,
      m_tot_travel_time = 0, m_tot_service_time = 0\<rparr>"

definition node_has_twv :: "Vehicle_node \<Rightarrow> bool" where
  "node_has_twv n \<longleftrightarrow> is_late_arrival n (m_arrival_time n)"

definition node_has_cv :: "Vehicle_node \<Rightarrow> double \<Rightarrow> bool" where
  "node_has_cv n cargoLimit \<longleftrightarrow>
     (if is_end n \<or> is_start n then \<not> deq (m_cargo n) 0
      else cargoLimit < m_cargo n \<or> m_cargo n < 0)"

definition node_feasible :: "Vehicle_node \<Rightarrow> bool" where
  "node_feasible n \<longleftrightarrow> m_twvTot n = 0 \<and> m_cvTot n = 0"

definition node_feasible_within :: "Vehicle_node \<Rightarrow> double \<Rightarrow> bool" where
  "node_feasible_within n cargoLimit \<longleftrightarrow>
     node_feasible n \<and> \<not> node_has_twv n \<and> \<not> node_has_cv n cargoLimit"

text \<open>\<open>evaluate(cargoLimit)\<close>: nothing happens unless the node is a start.\<close>

definition evaluate_start :: "double \<Rightarrow> Vehicle_node \<Rightarrow> Vehicle_node" where
  "evaluate_start cargoLimit n =
     (if is_start n
      then let n1 = n\<lparr>m_travel_time := 0, m_arrival_time := m_opens n, m_wait_time := 0,
                      m_departure_time := m_opens n + m_service_time n,
                      m_tot_travel_time := 0, m_tot_wait_time := 0,
                      m_tot_service_time := m_service_time n,
                      m_cargo := m_demand n, m_twvTot := 0, m_cvTot := 0\<rparr>
           in n1\<lparr>m_cvTot := (if node_has_cv n1 cargoLimit then 1 else 0), m_delta_time := 0\<rparr>
      else n)"

text \<open>\<open>evaluate(pred, cargoLimit, speed)\<close>, after the travel time \<open>t\<close> has been read.\<close>

definition advance :: "Vehicle_node \<Rightarrow> double \<Rightarrow> double \<Rightarrow> Vehicle_node \<Rightarrow> Vehicle_node" where
  "advance pred cargoLimit t n =
     (let arrival = m_departure_time pred + t;
          wait = (if is_early_arrival n arrival then m_opens n - arrival else 0);
          departure = arrival + wait + m_service_time n;
          demand = (if is_dump n \<and> 0 \<le> m_cargo pred then - m_cargo pred else m_demand n);
          n1 = n\<lparr>m_travel_time := t, m_arrival_time := arrival, m_wait_time := wait,
                 m_departure_time := departure,
                 m_tot_travel_time := m_tot_travel_time pred + t,
                 m_tot_wait_time := m_tot_wait_time pred + wait,
                 m_tot_service_time := m_tot_service_time pred + m_service_time n,
                 m_demand := demand,
                 m_cargo := m_cargo pred + demand\<rparr>
      in n1\<lparr>m_twvTot := (if node_has_twv n1 then m_twvTot pred + 1 else m_twvTot pred),
            m_cvTot := (if node_has_cv n1 cargoLimit then m_cvTot pred + 1 else m_cvTot pred),
            m_delta_time := departure - m_departure_time pred\<rparr>)"

definition evaluate_after ::
    "Dmatrix \<Rightarrow> Vehicle_node \<Rightarrow> double \<Rightarrow> double \<Rightarrow> Vehicle_node \<Rightarrow> Vehicle_node run" where
  "evaluate_after cm pred cargoLimit speed n =
     bindE (travel_time_to cm pred n speed) (\<lambda>t. Inr (advance pred cargoLimit t n))"

section \<open>The site of a node\<close>

definition site :: "Vehicle_node \<Rightarrow> Tw_node" where
  "site n =
     \<lparr>m_idx = m_idx n, m_id = m_id n, m_order = m_order n, m_opens = m_opens n,
      m_closes = m_closes n, m_service_time = m_service_time n, m_demand = m_demand n,
      m_type = m_type n\<rparr>"

lemma site_simps [simp]:
  "m_idx (site n) = m_idx n" "m_id (site n) = m_id n" "m_order (site n) = m_order n"
  "m_opens (site n) = m_opens n" "m_closes (site n) = m_closes n"
  "m_service_time (site n) = m_service_time n" "m_demand (site n) = m_demand n"
  "m_type (site n) = m_type n"
  by (simp_all add: site_def)

lemma site_kinds [simp]:
  "is_start (site n) = is_start n" "is_end (site n) = is_end n"
  "is_pickup (site n) = is_pickup n" "is_delivery (site n) = is_delivery n"
  by (simp_all add: node_kinds)

lemma site_Vehicle_node_of [simp]: "site (Vehicle_node_of n) = n"
  by (simp add: site_def Vehicle_node_of_def)

lemma site_eqD:
  assumes "site n = site m"
  shows "m_idx n = m_idx m" "m_id n = m_id m" "m_order n = m_order m" "m_opens n = m_opens m"
    "m_closes n = m_closes m" "m_service_time n = m_service_time m" "m_demand n = m_demand m"
    "m_type n = m_type m"
  using assms by (simp_all add: site_def)

lemma is_compatible_IJ_site:
  "is_compatible_IJ cm (site J) (site I) s = is_compatible_IJ cm J I s"
  by (simp add: is_compatible_IJ_def arrival_j_opens_i_def travel_time_to_def
      dnode_distance_eq is_late_arrival_def)

lemma evaluate_start_site [simp]: "site (evaluate_start c n) = site n"
  by (simp add: evaluate_start_def Let_def site_def)

lemma advance_site: "m_type n \<noteq> kDump \<Longrightarrow> site (advance p c t n) = site n"
  by (simp add: advance_def Let_def site_def is_dump_def)

lemma advance_dm_id [simp]: "m_id (advance p c t n) = m_id n" "m_type (advance p c t n) = m_type n"
  by (simp_all add: advance_def Let_def)

text \<open>Every cached field is overwritten, so the result depends on the site only.\<close>

definition recache :: "Vehicle_node \<Rightarrow> Vehicle_node \<Rightarrow> Vehicle_node" where
  "recache m n =
     n\<lparr>m_travel_time := m_travel_time m, m_arrival_time := m_arrival_time m,
       m_wait_time := m_wait_time m, m_departure_time := m_departure_time m,
       m_delta_time := m_delta_time m, m_cargo := m_cargo m, m_twvTot := m_twvTot m,
       m_cvTot := m_cvTot m, m_tot_wait_time := m_tot_wait_time m,
       m_tot_travel_time := m_tot_travel_time m, m_tot_service_time := m_tot_service_time m\<rparr>"

lemma recache_eq:
  assumes "site n = site m"
  shows "recache m n = m"
  by (rule Vehicle_node.equality) (use site_eqD[OF assms] in \<open>simp_all add: recache_def\<close>)

lemmas node_tests = node_kinds is_early_arrival_def is_late_arrival_def node_has_twv_def
  node_has_cv_def

lemma advance_recache: "advance p c t (recache m n) = advance p c t n"
  by (simp add: advance_def recache_def Let_def node_tests split del: if_split cong: if_cong)

lemma evaluate_start_recache: "is_start n \<Longrightarrow> evaluate_start c (recache m n) = evaluate_start c n"
  by (simp add: evaluate_start_def recache_def Let_def node_tests split del: if_split cong: if_cong)

lemma advance_of_site: "site n = site m \<Longrightarrow> advance p c t n = advance p c t m"
  using advance_recache[of p c t m n] by (simp add: recache_eq)

lemma evaluate_start_of_site:
  "site n = site m \<Longrightarrow> is_start n \<Longrightarrow> evaluate_start c n = evaluate_start c m"
  using evaluate_start_recache[of n c m] by (simp add: recache_eq)

lemma evaluate_after_of_site:
  "site n = site m \<Longrightarrow> evaluate_after cm p c s n = evaluate_after cm p c s m"
  using advance_of_site[of n m p c] site_eqD(2)[of n m]
  by (simp add: evaluate_after_def travel_time_to_def dnode_distance_eq)

section \<open>Evaluated sequences\<close>

fun evaluated_after :: "Dmatrix \<Rightarrow> double \<Rightarrow> double \<Rightarrow> Vehicle_node \<Rightarrow> Vehicle_node list \<Rightarrow> bool" where
  "evaluated_after cm c s p [] \<longleftrightarrow> True"
| "evaluated_after cm c s p (n # ns) \<longleftrightarrow>
     evaluate_after cm p c s n = Inr n \<and> evaluated_after cm c s n ns"

fun evaluated :: "Dmatrix \<Rightarrow> double \<Rightarrow> double \<Rightarrow> Vehicle_node list \<Rightarrow> bool" where
  "evaluated cm c s [] \<longleftrightarrow> True"
| "evaluated cm c s (n # ns) \<longleftrightarrow> evaluate_start c n = n \<and> evaluated_after cm c s n ns"

text \<open>Evaluation of a whole sequence behind a node, the reference for the incremental loop.\<close>

fun evaluate_list ::
    "Dmatrix \<Rightarrow> double \<Rightarrow> double \<Rightarrow> Vehicle_node \<Rightarrow> Vehicle_node list \<Rightarrow> Vehicle_node list run" where
  "evaluate_list cm c s p [] = Inr []"
| "evaluate_list cm c s p (n # ns) =
     bindE (evaluate_after cm p c s n) (\<lambda>n'.
     bindE (evaluate_list cm c s n' ns) (\<lambda>ns'. Inr (n' # ns')))"

definition in_matrix :: "Dmatrix \<Rightarrow> 'a Tw_node_scheme \<Rightarrow> bool" where
  "in_matrix cm n \<longleftrightarrow> dm_has_id cm (m_id n) \<and> m_type n \<noteq> kDump"

lemma in_matrix_site [simp]: "in_matrix cm (site n) = in_matrix cm n"
  by (simp add: in_matrix_def)

lemma evaluate_after_total:
  assumes "dm_wf cm" "s \<noteq> 0" "in_matrix cm p" "in_matrix cm n"
  shows "\<exists>n'. evaluate_after cm p c s n = Inr n' \<and> site n' = site n"
proof -
  obtain t where "travel_time_to cm p n s = Inr t"
    using travel_time_to_total[of cm p n s] assms by (auto simp: in_matrix_def)
  then show ?thesis
    using assms(4) by (simp add: evaluate_after_def advance_site in_matrix_def)
qed

lemma evaluate_after_idem:
  assumes "evaluate_after cm p c s n = Inr n'" "site n' = site n"
  shows "evaluate_after cm p c s n' = Inr n'"
  using assms evaluate_after_of_site by metis

lemma evaluate_list_total:
  assumes "dm_wf cm" "s \<noteq> 0" "in_matrix cm p" "\<forall>n \<in> set ns. in_matrix cm n"
  shows "\<exists>ns'. evaluate_list cm c s p ns = Inr ns' \<and> map site ns' = map site ns \<and>
    evaluated_after cm c s p ns'"
  using assms(3,4)
proof (induction ns arbitrary: p)
  case (Cons n ns)
  obtain n' where n': "evaluate_after cm p c s n = Inr n'" "site n' = site n"
    using evaluate_after_total[of cm s p n c] assms Cons.prems by auto
  have "in_matrix cm n'"
    using n'(2) Cons.prems(2) by (metis in_matrix_site list.set_intros(1))
  then show ?case
    using Cons.IH[of n'] Cons.prems n' evaluate_after_idem[OF n'] by auto
qed simp

lemma evaluated_after_unique:
  assumes "evaluated_after cm c s p xs" "evaluated_after cm c s p ys" "map site xs = map site ys"
  shows "xs = ys"
  using assms
proof (induction xs arbitrary: p ys)
  case (Cons x xs)
  then obtain y ys' where ys: "ys = y # ys'" "site x = site y" "map site xs = map site ys'"
    by (cases ys) auto
  have "x = y"
    using Cons.prems(1,2) ys(1) evaluate_after_of_site[OF ys(2)] by auto
  then show ?case
    using Cons.IH[of x ys'] Cons.prems ys by auto
qed simp

lemma evaluated_unique:
  assumes "evaluated cm c s xs" "evaluated cm c s ys" "map site xs = map site ys"
    and "xs \<noteq> [] \<Longrightarrow> is_start (hd xs)"
  shows "xs = ys"
proof (cases xs)
  case (Cons x xs')
  then obtain y ys' where ys: "ys = y # ys'" "site x = site y" "map site xs' = map site ys'"
    using assms(3) by (cases ys) auto
  have "evaluate_start c x = x" "evaluate_start c y = y" "is_start x"
    using assms(1,2,4) Cons ys(1) by simp_all
  then have "x = y"
    using evaluate_start_of_site[OF ys(2), of c] by metis
  moreover have "evaluated_after cm c s x xs'" "evaluated_after cm c s y ys'"
    using assms(1,2) Cons ys(1) by simp_all
  ultimately show ?thesis
    using evaluated_after_unique ys Cons by metis
qed (use assms(3) in simp)

lemma evaluated_after_append:
  "evaluated_after cm c s p (xs @ ys) \<longleftrightarrow>
     evaluated_after cm c s p xs \<and> evaluated_after cm c s (last (p # xs)) ys"
  by (induction xs arbitrary: p) auto

lemma evaluated_append:
  "xs \<noteq> [] \<Longrightarrow> evaluated cm c s (xs @ ys) \<longleftrightarrow>
     evaluated cm c s xs \<and> evaluated_after cm c s (last xs) ys"
  by (cases xs) (auto simp: evaluated_after_append)

section \<open>What the counters count\<close>

lemma advance_counters:
  assumes "m_type n \<noteq> kDump"
  shows "m_twvTot (advance p c t n) =
      m_twvTot p + (if node_has_twv (advance p c t n) then 1 else 0)"
    and "m_cvTot (advance p c t n) =
      m_cvTot p + (if node_has_cv (advance p c t n) c then 1 else 0)"
  using assms
  by (simp_all add: advance_def Let_def node_tests split del: if_split cong: if_cong) simp_all

lemma evaluate_after_counters:
  assumes "evaluate_after cm p c s n = Inr n" "m_type n \<noteq> kDump"
  shows "m_twvTot n = m_twvTot p + (if node_has_twv n then 1 else 0)"
    and "m_cvTot n = m_cvTot p + (if node_has_cv n c then 1 else 0)"
proof -
  obtain t where "advance p c t n = n"
    using assms(1) by (auto simp: evaluate_after_def)
  then show "m_twvTot n = m_twvTot p + (if node_has_twv n then 1 else 0)"
    and "m_cvTot n = m_cvTot p + (if node_has_cv n c then 1 else 0)"
    using advance_counters[OF assms(2), of p c t] by simp_all
qed

lemma evaluated_after_counters:
  assumes "evaluated_after cm c s p ns" "\<forall>n \<in> set ns. m_type n \<noteq> kDump"
  shows "m_twvTot (last (p # ns)) = m_twvTot p + int (length (filter node_has_twv ns))"
    and "m_cvTot (last (p # ns)) = m_cvTot p + int (length (filter (\<lambda>n. node_has_cv n c) ns))"
  using assms
proof (induction ns arbitrary: p)
  case (Cons n ns)
  { case 1 then show ?case using Cons.IH(1)[of n] evaluate_after_counters(1)[of cm p c s n] by auto }
  { case 2 then show ?case using Cons.IH(2)[of n] evaluate_after_counters(2)[of cm p c s n] by auto }
qed simp_all

end
