(* ===== verification/Vehicles.thy ===== *)
theory Vehicles
  imports Vehicle_nodes
begin

text \<open>
  \<open>Vehicle\<close> (\<open>include/vrp/vehicle.hpp\<close>, \<open>src/pickDeliver/vehicle.cpp\<close>): a sequence of nodes
  from a starting to an ending site, evaluated incrementally whenever it changes.  This theory
  holds the code; the lemmas about it are in \<open>Routes\<close>.
\<close>

section \<open>The class\<close>

record Vehicle = Identifier +
  m_path :: "Vehicle_node list"
  m_capacity :: double
  m_factor :: double
  m_speed :: double

type_synonym Cost = "int \<times> int \<times> nat \<times> double \<times> double"

definition veh_speed :: "'a Vehicle_scheme \<Rightarrow> double" where
  "veh_speed v = m_speed v / m_factor v"

definition is_phony :: "'a Vehicle_scheme \<Rightarrow> bool" where
  "is_phony v \<longleftrightarrow> m_id v < 0"

definition veh_invariant :: "'a Vehicle_scheme \<Rightarrow> unit run" where
  "veh_invariant v =
     bindE (pgassert (2 \<le> length (m_path v))) (\<lambda>_.
     bindE (pgassert (is_start (hd (m_path v)))) (\<lambda>_.
     pgassert (is_end (last (m_path v)))))"

subsection \<open>Accessors of the last node\<close>

definition duration :: "'a Vehicle_scheme \<Rightarrow> double" where
  "duration v = m_departure_time (last (m_path v))"

definition total_wait_time :: "'a Vehicle_scheme \<Rightarrow> double" where
  "total_wait_time v = m_tot_wait_time (last (m_path v))"

definition total_travel_time :: "'a Vehicle_scheme \<Rightarrow> double" where
  "total_travel_time v = m_tot_travel_time (last (m_path v))"

definition total_service_time :: "'a Vehicle_scheme \<Rightarrow> double" where
  "total_service_time v = m_tot_service_time (last (m_path v))"

definition twvTot :: "'a Vehicle_scheme \<Rightarrow> int" where
  "twvTot v = m_twvTot (last (m_path v))"

definition cvTot :: "'a Vehicle_scheme \<Rightarrow> int" where
  "cvTot v = m_cvTot (last (m_path v))"

definition has_twv :: "'a Vehicle_scheme \<Rightarrow> bool" where
  "has_twv v \<longleftrightarrow> twvTot v \<noteq> 0"

definition has_cv :: "'a Vehicle_scheme \<Rightarrow> bool" where
  "has_cv v \<longleftrightarrow> cvTot v \<noteq> 0"

definition is_feasable :: "'a Vehicle_scheme \<Rightarrow> bool" where
  "is_feasable v \<longleftrightarrow> \<not> (has_twv v \<or> has_cv v)"

definition veh_empty :: "'a Vehicle_scheme \<Rightarrow> bool run" where
  "veh_empty v = bindE (veh_invariant v) (\<lambda>_. Inr (length (m_path v) \<le> 2))"

definition veh_size :: "'a Vehicle_scheme \<Rightarrow> nat run" where
  "veh_size v = bindE (veh_invariant v) (\<lambda>_. Inr (length (m_path v) - 2))"

definition veh_cost :: "'a Vehicle_scheme \<Rightarrow> Cost" where
  "veh_cost v = (twvTot v, cvTot v, length (m_path v), total_wait_time v, duration v)"

fun cost_compare :: "Cost \<Rightarrow> Cost \<Rightarrow> bool" where
  "cost_compare (twv, cv, sz, wait, dur) (twv', cv', sz', wait', dur') =
     (if cv < cv' then True else if cv' < cv then False
      else if twv < twv' then True else if twv' < twv then False
      else if wait < wait' then True else if wait' < wait then False
      else if dur < dur' then True else if dur' < dur then False
      else if sz < sz' then True else if sz' < sz then False
      else False)"

text \<open>\<open>operator<\<close> of two vehicles.\<close>

definition veh_less :: "'a Vehicle_scheme \<Rightarrow> 'b Vehicle_scheme \<Rightarrow> bool run" where
  "veh_less lhs rhs =
     bindE (veh_invariant lhs) (\<lambda>_. bindE (veh_invariant rhs) (\<lambda>_.
     Inr (if length (m_path lhs) < length (m_path rhs) then True
          else if total_travel_time lhs < total_travel_time rhs then True
          else False)))"

subsection \<open>Evaluation\<close>

text \<open>The loop of \<open>evaluate(POS from)\<close>: \<open>i\<close> is the position of the iterator.\<close>

function evaluate_loop :: "Dmatrix \<Rightarrow> nat \<Rightarrow> 'a Vehicle_scheme \<Rightarrow> 'a Vehicle_scheme run" where
  "evaluate_loop cm i v =
     (if i < length (m_path v)
      then bindE (if i = 0 then Inr (evaluate_start (m_capacity v) (m_path v ! i))
                  else evaluate_after cm (m_path v ! (i - 1)) (m_capacity v) (veh_speed v)
                         (m_path v ! i))
             (\<lambda>n. evaluate_loop cm (Suc i) (v\<lparr>m_path := (m_path v)[i := n]\<rparr>))
      else Inr v)"
  by pat_completeness auto
termination
  by (relation "measure (\<lambda>(cm, i, v). length (m_path v) - i)") auto

declare evaluate_loop.simps [simp del]

definition evaluate_from :: "Dmatrix \<Rightarrow> nat \<Rightarrow> 'a Vehicle_scheme \<Rightarrow> 'a Vehicle_scheme run" where
  "evaluate_from cm pos v =
     bindE (veh_invariant v) (\<lambda>_.
     bindE (pgassert (pos < length (m_path v))) (\<lambda>_.
     bindE (evaluate_loop cm pos v) (\<lambda>v'.
     bindE (veh_invariant v') (\<lambda>_. Inr v'))))"

definition evaluate :: "Dmatrix \<Rightarrow> 'a Vehicle_scheme \<Rightarrow> 'a Vehicle_scheme run" where
  "evaluate cm v =
     bindE (veh_invariant v) (\<lambda>_.
     bindE (evaluate_from cm 0 v) (\<lambda>v'.
     bindE (veh_invariant v') (\<lambda>_. Inr v')))"

subsection \<open>Changing the path\<close>

definition veh_insert ::
    "Dmatrix \<Rightarrow> nat \<Rightarrow> Vehicle_node \<Rightarrow> 'a Vehicle_scheme \<Rightarrow> 'a Vehicle_scheme run" where
  "veh_insert cm pos node v =
     bindE (veh_invariant v) (\<lambda>_.
     bindE (pgassert (pos \<le> length (m_path v))) (\<lambda>_.
     bindE (evaluate_from cm pos (v\<lparr>m_path := insert_at pos node (m_path v)\<rparr>)) (\<lambda>v'.
     bindE (pgassert (pos < length (m_path v'))) (\<lambda>_.
     bindE (pgassert (m_idx (m_path v' ! pos) = m_idx node)) (\<lambda>_.
     bindE (veh_invariant v') (\<lambda>_. Inr v'))))))"

definition veh_erase_at :: "Dmatrix \<Rightarrow> nat \<Rightarrow> 'a Vehicle_scheme \<Rightarrow> 'a Vehicle_scheme run" where
  "veh_erase_at cm pos v =
     bindE (veh_invariant v) (\<lambda>_.
     bindE (pgassert (2 < length (m_path v))) (\<lambda>_.
     bindE (pgassert (pos < length (m_path v))) (\<lambda>_.
     bindE (pgassert (\<not> is_start (m_path v ! pos))) (\<lambda>_.
     bindE (pgassert (\<not> is_end (m_path v ! pos))) (\<lambda>_.
     bindE (evaluate_from cm pos (v\<lparr>m_path := erase_at pos (m_path v)\<rparr>)) (\<lambda>v'.
     bindE (veh_invariant v') (\<lambda>_. Inr v')))))))"

text \<open>The search loop of \<open>erase(node)\<close>: the first position with the node's index, else the size.\<close>

fun pos_of_idx :: "nat \<Rightarrow> Vehicle_node list \<Rightarrow> nat" where
  "pos_of_idx i [] = 0"
| "pos_of_idx i (n # ns) = (if i = m_idx n then 0 else Suc (pos_of_idx i ns))"

definition veh_erase :: "Dmatrix \<Rightarrow> Vehicle_node \<Rightarrow> 'a Vehicle_scheme \<Rightarrow> 'a Vehicle_scheme run" where
  "veh_erase cm node v =
     bindE (veh_invariant v) (\<lambda>_.
     let pos = pos_of_idx (m_idx node) (m_path v) in
     bindE (veh_erase_at cm pos v) (\<lambda>v1.
     bindE (evaluate_from cm pos v1) (\<lambda>v2.
     bindE (veh_invariant v2) (\<lambda>_. Inr v2))))"

definition veh_swap :: "Dmatrix \<Rightarrow> nat \<Rightarrow> nat \<Rightarrow> 'a Vehicle_scheme \<Rightarrow> 'a Vehicle_scheme run" where
  "veh_swap cm i j v =
     bindE (veh_invariant v) (\<lambda>_.
     bindE (pgassert (3 < length (m_path v))) (\<lambda>_.
     if \<not> (i < length (m_path v) \<and> j < length (m_path v)) then Inl UndefinedBehaviour else
     bindE (pgassert (\<not> is_start (m_path v ! i))) (\<lambda>_.
     bindE (pgassert (\<not> is_end (m_path v ! i))) (\<lambda>_.
     bindE (pgassert (\<not> is_start (m_path v ! j))) (\<lambda>_.
     bindE (pgassert (\<not> is_end (m_path v ! j))) (\<lambda>_.
     bindE (evaluate_from cm (if i < j then i else j)
              (v\<lparr>m_path := swap_at i j (m_path v)\<rparr>)) (\<lambda>v'.
     bindE (veh_invariant v') (\<lambda>_. Inr v'))))))))"

text \<open>
  \<open>insert(position_limits, node)\<close>: the node is inserted at the lower limit and pushed one place
  at a time to the upper one.  The statements after the \<open>return\<close> are never executed.
\<close>

function push_up_loop ::
    "Dmatrix \<Rightarrow> nat \<Rightarrow> nat \<Rightarrow> nat \<Rightarrow> Cost \<Rightarrow> 'a Vehicle_scheme \<Rightarrow> (nat \<times> 'a Vehicle_scheme) run" where
  "push_up_loop cm low high best best_cost v =
     (if low < high
      then bindE (veh_swap cm low (low + 1) v) (\<lambda>v'.
             if cost_compare best_cost (veh_cost v')
             then push_up_loop cm (Suc low) high (Suc low) (veh_cost v') v'
             else push_up_loop cm (Suc low) high best best_cost v')
      else Inr (best, v))"
  by pat_completeness auto
termination
  by (relation "measure (\<lambda>(cm, low, high, b, c, v). high - low)") auto

declare push_up_loop.simps [simp del]

definition veh_insert_within ::
    "Dmatrix \<Rightarrow> nat \<times> nat \<Rightarrow> Vehicle_node \<Rightarrow> 'a Vehicle_scheme \<Rightarrow> (nat \<times> 'a Vehicle_scheme) run" where
  "veh_insert_within cm position_limits node v =
     bindE (veh_invariant v) (\<lambda>_.
     bindE (pgassert (fst position_limits \<le> length (m_path v))) (\<lambda>_.
     bindE (pgassert (snd position_limits \<le> length (m_path v))) (\<lambda>_.
     bindE (veh_insert cm (fst position_limits) node v) (\<lambda>v'.
     push_up_loop cm (fst position_limits) (snd position_limits) (fst position_limits)
       (veh_cost v') v'))))"

subsection \<open>Position limits\<close>

fun low_limit_loop ::
    "Dmatrix \<Rightarrow> 'a Vehicle_scheme \<Rightarrow> Vehicle_node \<Rightarrow> nat \<Rightarrow> nat run" where
  "low_limit_loop cm v nodeI 0 = Inr 0"
| "low_limit_loop cm v nodeI (Suc k) =
     bindE (is_compatible_IJ cm (m_path v ! k) nodeI (veh_speed v)) (\<lambda>c.
       if c then low_limit_loop cm v nodeI k else Inr (Suc k))"

fun drop_low_limit_loop ::
    "Dmatrix \<Rightarrow> 'a Vehicle_scheme \<Rightarrow> Vehicle_node \<Rightarrow> nat \<Rightarrow> nat run" where
  "drop_low_limit_loop cm v nodeI 0 = Inr 0"
| "drop_low_limit_loop cm v nodeI (Suc k) =
     bindE (is_compatible_IJ cm (m_path v ! k) nodeI (veh_speed v)) (\<lambda>c.
       if c \<and> \<not> is_pickup (m_path v ! k) then drop_low_limit_loop cm v nodeI k
       else Inr (Suc k))"

function high_limit_loop ::
    "Dmatrix \<Rightarrow> 'a Vehicle_scheme \<Rightarrow> Vehicle_node \<Rightarrow> nat \<Rightarrow> nat run" where
  "high_limit_loop cm v nodeJ i =
     (if i < length (m_path v)
      then bindE (is_compatible_IJ cm nodeJ (m_path v ! i) (veh_speed v)) (\<lambda>c.
             if c then high_limit_loop cm v nodeJ (Suc i) else Inr i)
      else Inr i)"
  by pat_completeness auto
termination
  by (relation "measure (\<lambda>(cm, v, n, i). length (m_path v) - i)") auto

declare high_limit_loop.simps [simp del]

definition getPosLowLimit :: "Dmatrix \<Rightarrow> 'a Vehicle_scheme \<Rightarrow> Vehicle_node \<Rightarrow> nat run" where
  "getPosLowLimit cm v nodeI =
     bindE (veh_invariant v) (\<lambda>_. low_limit_loop cm v nodeI (length (m_path v)))"

definition getDropPosLowLimit :: "Dmatrix \<Rightarrow> 'a Vehicle_scheme \<Rightarrow> Vehicle_node \<Rightarrow> nat run" where
  "getDropPosLowLimit cm v nodeI =
     bindE (veh_invariant v) (\<lambda>_. drop_low_limit_loop cm v nodeI (length (m_path v)))"

definition getPosHighLimit :: "Dmatrix \<Rightarrow> 'a Vehicle_scheme \<Rightarrow> Vehicle_node \<Rightarrow> nat run" where
  "getPosHighLimit cm v nodeJ = bindE (veh_invariant v) (\<lambda>_. high_limit_loop cm v nodeJ 0)"

definition position_limits ::
    "Dmatrix \<Rightarrow> 'a Vehicle_scheme \<Rightarrow> Vehicle_node \<Rightarrow> (nat \<times> nat) run" where
  "position_limits cm v node =
     bindE (getPosHighLimit cm v node) (\<lambda>high.
     bindE (getPosLowLimit cm v node) (\<lambda>low. Inr (low, high)))"

definition drop_position_limits ::
    "Dmatrix \<Rightarrow> 'a Vehicle_scheme \<Rightarrow> Vehicle_node \<Rightarrow> (nat \<times> nat) run" where
  "drop_position_limits cm v node =
     bindE (getPosHighLimit cm v node) (\<lambda>high.
     bindE (getDropPosLowLimit cm v node) (\<lambda>low. Inr (low, high)))"

subsection \<open>Construction and results\<close>

definition veh_is_ok :: "'a Vehicle_scheme \<Rightarrow> bool run" where
  "veh_is_ok v =
     (let ok = m_opens (hd (m_path v)) \<le> m_closes (hd (m_path v)) \<and>
               m_opens (last (m_path v)) \<le> m_closes (last (m_path v)) \<and> 0 < m_capacity v
      in bindE (pgassert ok) (\<lambda>_. Inr ok))"

text \<open>
  The stops that \<open>tau()\<close> writes for the log: whether a comma comes first, and the id.  Every stop is
  compared with the first one; the first stop is the same object, so its comparison is one of
  addresses.  The numbers behind the stops are accessors without side effects.
\<close>

definition veh_tau :: "'a Vehicle_scheme \<Rightarrow> (bool \<times> int) list run" where
  "veh_tau v =
     bindE (pgassert (1 < length (m_path v))) (\<lambda>_.
     mapE (\<lambda>i. bindE (if i = 0 then Inr True else tw_node_eq (m_path v ! i) (hd (m_path v))) (\<lambda>same.
            Inr (\<not> same, m_id (m_path v ! i))))
       [0..<length (m_path v)])"

text \<open>
  The constructor: the body runs on the object \<open>v\<close> whose identifier, capacity, speed and factor
  the initialiser list has set (a derived class has its own fields behind them).
\<close>

definition veh_construct ::
    "Dmatrix \<Rightarrow> Vehicle_node \<Rightarrow> Vehicle_node \<Rightarrow> 'a Vehicle_scheme \<Rightarrow> 'a Vehicle_scheme run" where
  "veh_construct cm starting_site ending_site v =
     bindE (pgassert (m_opens starting_site \<le> m_closes starting_site)) (\<lambda>_.
     bindE (pgassert (m_opens ending_site \<le> m_closes ending_site)) (\<lambda>_.
     bindE (pgassert (0 < m_capacity v)) (\<lambda>_.
     bindE (evaluate_from cm 0 (v\<lparr>m_path := [starting_site, ending_site]\<rparr>)) (\<lambda>v'.
     bindE (veh_tau v') (\<lambda>_.
     bindE (veh_invariant v') (\<lambda>_. Inr v'))))))"

text \<open>A row of the result; the order number is \<open>None\<close> when the code reads an uninitialised one.\<close>

record Schedule_rt =
  vehicle_seq :: int
  vehicle_id :: int
  stop_seq :: int
  order_id :: "int option"
  stop_id :: int
  stop_type :: int
  sch_cargo :: double
  travelTime :: double
  arrivalTime :: double
  waitTime :: double
  serviceTime :: double
  departureTime :: double

definition schedule_row :: "int \<Rightarrow> int \<Rightarrow> int \<Rightarrow> Vehicle_node \<Rightarrow> Schedule_rt" where
  "schedule_row vid vehicle seq p_stop =
     \<lparr>vehicle_seq = vid, vehicle_id = vehicle, stop_seq = seq,
      order_id = (if type_code (m_type p_stop) = 0 \<or> type_code (m_type p_stop) = 5
                  then Some (-1) else m_order p_stop),
      stop_id = m_id p_stop, stop_type = type_code (m_type p_stop), sch_cargo = m_cargo p_stop,
      travelTime = m_travel_time p_stop, arrivalTime = m_arrival_time p_stop,
      waitTime = m_wait_time p_stop, serviceTime = m_service_time p_stop,
      departureTime = m_departure_time p_stop\<rparr>"

fun schedule_rows :: "int \<Rightarrow> int \<Rightarrow> int \<Rightarrow> Vehicle_node list \<Rightarrow> Schedule_rt list" where
  "schedule_rows vid vehicle seq [] = []"
| "schedule_rows vid vehicle seq (p # ps) =
     schedule_row vid vehicle seq p # schedule_rows vid vehicle (seq + 1) ps"

definition veh_postgres_result :: "int \<Rightarrow> 'a Vehicle_scheme \<Rightarrow> Schedule_rt list run" where
  "veh_postgres_result vid v =
     bindE (veh_tau v) (\<lambda>_. Inr (schedule_rows vid (m_id v) 1 (m_path v)))"

end
