(* ===== verification/Routes.thy ===== *)
theory Routes
  imports Vehicles
begin

text \<open>
  Lemmas about \<open>Vehicle\<close>: on a well-formed vehicle no assertion fails, the path always holds
  the evaluation of its sites, insertion, removal and exchange of nodes act on the list of
  sites as they should, the position limits are exactly the positions that compatibility
  admits, and the counters count violations.  The locale \<open>route\<close> is the contract that the
  pickup-and-deliver vehicle is built on.
\<close>

section \<open>Well-formed vehicles\<close>

definition sites :: "'a Vehicle_scheme \<Rightarrow> Tw_node list" where
  "sites v = map site (m_path v)"

text \<open>A site that may stand between the first and the last one.\<close>

definition inner :: "Dmatrix \<Rightarrow> 'a Tw_node_scheme \<Rightarrow> bool" where
  "inner cm n \<longleftrightarrow> in_matrix cm n \<and> m_type n \<noteq> kStart \<and> m_type n \<noteq> kEnd"

definition route_shape :: "Dmatrix \<Rightarrow> Tw_node list \<Rightarrow> bool" where
  "route_shape cm ss \<longleftrightarrow> 2 \<le> length ss \<and> is_start (hd ss) \<and> is_end (last ss) \<and>
     in_matrix cm (hd ss) \<and> in_matrix cm (last ss) \<and> list_all (inner cm) (butlast (tl ss))"

definition veh_wf :: "Dmatrix \<Rightarrow> 'a Vehicle_scheme \<Rightarrow> bool" where
  "veh_wf cm v \<longleftrightarrow> dm_wf cm \<and> veh_speed v \<noteq> 0 \<and> route_shape cm (sites v) \<and>
     evaluated cm (m_capacity v) (veh_speed v) (m_path v)"

lemma inner_site [simp]: "inner cm (site n) = inner cm n"
  by (simp add: inner_def)

lemma length_sites [simp]: "length (sites v) = length (m_path v)"
  by (simp add: sites_def)

lemma sites_update [simp]:
  "sites (v\<lparr>m_path := p\<rparr>) = map site p" "veh_speed (v\<lparr>m_path := p\<rparr>) = veh_speed v"
  by (simp_all add: sites_def veh_speed_def)

lemma nth_sites: "i < length (m_path v) \<Longrightarrow> sites v ! i = site (m_path v ! i)"
  by (simp add: sites_def)

lemma route_shape_split:
  assumes "route_shape cm ss"
  obtains s mid e where "ss = s # mid @ [e]" "is_start s" "is_end e" "in_matrix cm s"
    "in_matrix cm e" "\<forall>n \<in> set mid. inner cm n"
proof -
  have len: "2 \<le> length ss" using assms by (simp add: route_shape_def)
  define s rest where "s = hd ss" and "rest = tl ss"
  have "ss \<noteq> []" "rest \<noteq> []" using len by (cases ss; auto simp: rest_def)+
  then have eq: "ss = s # butlast rest @ [last rest]" by (simp add: s_def rest_def)
  have "is_start s" "is_end (last rest)" "in_matrix cm s" "in_matrix cm (last rest)"
    "\<forall>n \<in> set (butlast rest). inner cm n"
    using assms \<open>ss \<noteq> []\<close> \<open>rest \<noteq> []\<close>
    by (simp_all add: route_shape_def list_all_iff s_def rest_def last_tl)
  then show ?thesis
    using that eq by blast
qed

lemma route_shape_Cons_snoc [simp]:
  "route_shape cm (s # mid @ [e]) \<longleftrightarrow> is_start s \<and> is_end e \<and> in_matrix cm s \<and>
     in_matrix cm e \<and> (\<forall>n \<in> set mid. inner cm n)"
  by (auto simp: route_shape_def list_all_iff)

lemma insert_at_mid:
  "0 < i \<Longrightarrow> i \<le> Suc (length mid) \<Longrightarrow>
    insert_at i x (s # mid @ [e]) = s # insert_at (i - 1) x mid @ [e]"
  by (cases i) (auto simp: insert_at_def)

lemma erase_at_mid:
  "0 < i \<Longrightarrow> i \<le> length mid \<Longrightarrow> erase_at i (s # mid @ [e]) = s # erase_at (i - 1) mid @ [e]"
  by (cases i) (auto simp: erase_at_def)

lemma swap_at_mid:
  "0 < i \<Longrightarrow> i \<le> length mid \<Longrightarrow> 0 < j \<Longrightarrow> j \<le> length mid \<Longrightarrow>
    swap_at i j (s # mid @ [e]) = s # swap_at (i - 1) (j - 1) mid @ [e]"
  by (cases i; cases j) (auto simp: swap_at_def nth_append list_update_append)

lemma route_shape_insert_at:
  assumes "route_shape cm ss" "0 < i" "i < length ss" "inner cm n"
  shows "route_shape cm (insert_at i n ss)"
  using assms(1)
proof (rule route_shape_split)
  fix s mid e
  assume "ss = s # mid @ [e]" "is_start s" "is_end e" "in_matrix cm s" "in_matrix cm e"
    "\<forall>n \<in> set mid. inner cm n"
  then show ?thesis
    using assms(2-4) by (simp add: insert_at_mid)
qed

lemma route_shape_erase_at:
  assumes "route_shape cm ss" "0 < i" "Suc i < length ss"
  shows "route_shape cm (erase_at i ss)"
  using assms(1)
proof (rule route_shape_split)
  fix s mid e
  assume "ss = s # mid @ [e]" "is_start s" "is_end e" "in_matrix cm s" "in_matrix cm e"
    "\<forall>n \<in> set mid. inner cm n"
  then show ?thesis
    using assms(2,3) set_erase_at[of "i - 1" mid] by (auto simp: erase_at_mid)
qed

lemma route_shape_swap_at:
  assumes "route_shape cm ss" "0 < i" "Suc i < length ss" "0 < j" "Suc j < length ss"
  shows "route_shape cm (swap_at i j ss)"
  using assms(1)
proof (rule route_shape_split)
  fix s mid e
  assume *: "ss = s # mid @ [e]" "is_start s" "is_end e" "in_matrix cm s" "in_matrix cm e"
    "\<forall>n \<in> set mid. inner cm n"
  have "mset (swap_at (i - 1) (j - 1) mid) = mset mid"
    using assms(2-5) *(1) by (intro mset_swap_at) auto
  then have "set (swap_at (i - 1) (j - 1) mid) = set mid"
    by (metis set_mset_mset)
  then show ?thesis
    using assms(2-5) * by (simp add: swap_at_mid)
qed

lemma route_shape_kinds:
  assumes "route_shape cm ss" "0 < i" "Suc i < length ss"
  shows "inner cm (ss ! i)" "\<not> is_start (ss ! i)" "\<not> is_end (ss ! i)"
proof -
  show "inner cm (ss ! i)"
    using assms(1)
  proof (rule route_shape_split)
    fix s mid e
    assume "ss = s # mid @ [e]" "\<forall>n \<in> set mid. inner cm n"
    then show ?thesis
      using assms(2,3) by (cases i) (auto simp: nth_append)
  qed
  then show "\<not> is_start (ss ! i)" "\<not> is_end (ss ! i)"
    by (auto simp: inner_def dest: node_kind_type)
qed

lemma route_shape_in_matrix: "route_shape cm ss \<Longrightarrow> n \<in> set ss \<Longrightarrow> in_matrix cm n"
  by (erule route_shape_split) (auto simp: inner_def)

lemma route_shape_invariant: "route_shape cm (sites v) \<Longrightarrow> veh_invariant v = Inr ()"
proof -
  assume *: "route_shape cm (sites v)"
  then have "m_path v \<noteq> []" by (auto simp: route_shape_def)
  then have "hd (sites v) = site (hd (m_path v))" "last (sites v) = site (last (m_path v))"
    by (simp_all add: sites_def hd_map last_map)
  then show ?thesis
    using * by (simp add: route_shape_def veh_invariant_def)
qed

lemma veh_invariant_wf: "veh_wf cm v \<Longrightarrow> veh_invariant v = Inr ()"
  unfolding veh_wf_def by (blast intro: route_shape_invariant)

lemma veh_wf_nonempty: "veh_wf cm v \<Longrightarrow> 2 \<le> length (m_path v)"
  by (auto simp: veh_wf_def route_shape_def)

text \<open>
  \<open>tau()\<close> is defined on a well-formed vehicle although the order numbers of its ends are not set:
  no other stop has the type of the first one.
\<close>

lemma veh_tau_types:
  assumes "2 \<le> length (m_path v)" "\<forall>n \<in> set (tl (m_path v)). m_type n \<noteq> m_type (hd (m_path v))"
  shows "veh_tau v = Inr (map (\<lambda>i. (i \<noteq> 0, m_id (m_path v ! i))) [0..<length (m_path v)])"
proof -
  have "tw_node_eq (m_path v ! i) (hd (m_path v)) = Inr False" if "i < length (m_path v)" "i \<noteq> 0" for i
  proof -
    have "m_path v ! i \<in> set (tl (m_path v))"
      using that by (cases "m_path v"; cases i) auto
    then show ?thesis using assms(2) by (intro tw_node_eq_types) blast
  qed
  then show ?thesis
    using assms(1) by (auto simp: veh_tau_def intro!: mapE_map)
qed

lemma route_shape_tau:
  assumes "route_shape cm (sites v)"
  shows "veh_tau v = Inr (map (\<lambda>i. (i \<noteq> 0, m_id (m_path v ! i))) [0..<length (m_path v)])"
proof (rule veh_tau_types)
  show "2 \<le> length (m_path v)" using assms by (simp add: route_shape_def)
  show "\<forall>n \<in> set (tl (m_path v)). m_type n \<noteq> m_type (hd (m_path v))"
    using assms
  proof (rule route_shape_split)
    fix s mid e
    assume p: "sites v = s # mid @ [e]" "is_start s" "is_end e" "\<forall>n \<in> set mid. inner cm n"
    then have "m_type (hd (m_path v)) = kStart" "map site (tl (m_path v)) = mid @ [e]"
      by (cases "m_path v"; force simp: sites_def node_kinds)+
    moreover have "m_type n \<noteq> kStart" if "n \<in> set (mid @ [e])" for n
      using that p(3,4) by (auto simp: inner_def node_kinds)
    ultimately show ?thesis by (metis image_eqI set_map site_simps(8))
  qed
qed

lemma veh_tau_wf: "veh_wf cm v \<Longrightarrow> \<exists>stops. veh_tau v = Inr stops"
  using route_shape_tau[of cm v] by (auto simp: veh_wf_def)

section \<open>Incremental evaluation\<close>

lemma evaluate_loop_spec:
  assumes "dm_wf cm" "veh_speed v \<noteq> 0" "\<forall>n \<in> set (m_path v). in_matrix cm n"
    and "evaluated cm (m_capacity v) (veh_speed v) (take i (m_path v))" "i \<le> length (m_path v)"
  shows "\<exists>p. evaluate_loop cm i v = Inr (v\<lparr>m_path := p\<rparr>) \<and> map site p = map site (m_path v) \<and>
    evaluated cm (m_capacity v) (veh_speed v) p \<and> take i p = take i (m_path v)"
  using assms
proof (induction cm i v rule: evaluate_loop.induct)
  case (1 cm i v)
  let ?c = "m_capacity v" and ?s = "veh_speed v" and ?p = "m_path v"
  show ?case
  proof (cases "i < length ?p")
    case False
    then show ?thesis
      using "1.prems" by (subst evaluate_loop.simps) (auto intro!: exI[of _ ?p])
  next
    case True
    define step where "step = (if i = 0 then Inr (evaluate_start ?c (?p ! i))
      else evaluate_after cm (?p ! (i - 1)) ?c ?s (?p ! i))"
    obtain n where n: "step = Inr n" "site n = site (?p ! i)"
      using evaluate_after_total[of cm ?s "?p ! (i - 1)" "?p ! i" ?c] "1.prems"(1-3) True
      by (cases "i = 0") (auto simp: step_def)
    let ?v = "v\<lparr>m_path := ?p[i := n]\<rparr>"
    have same: "map site (?p[i := n]) = map site ?p"
      using n(2) by (simp add: map_update) (metis list_update_id nth_map True)
    have mat: "\<forall>m \<in> set (?p[i := n]). in_matrix cm m"
    proof
      fix m assume "m \<in> set (?p[i := n])"
      then have "m = n \<or> m \<in> set ?p" by (meson set_update_subset_insert subsetD insertE)
      moreover have "in_matrix cm n"
        using "1.prems"(3) True n(2) by (metis in_matrix_site nth_mem)
      ultimately show "in_matrix cm m" using "1.prems"(3) by blast
    qed
    have ev: "evaluated cm ?c ?s (take i ?p @ [n])"
    proof (cases "i = 0")
      case True
      then have "n = evaluate_start ?c (?p ! 0)" using n(1) by (simp add: step_def)
      moreover have "evaluate_start ?c (evaluate_start ?c m) = evaluate_start ?c m" for m
        by (metis evaluate_start_def evaluate_start_of_site evaluate_start_site site_kinds(1))
      ultimately show ?thesis using True by simp
    next
      case False
      then have "evaluate_after cm (?p ! (i - 1)) ?c ?s (?p ! i) = Inr n"
        using n(1) by (simp add: step_def)
      then have "evaluate_after cm (?p ! (i - 1)) ?c ?s n = Inr n"
        using n(2) by (rule evaluate_after_idem)
      moreover have ne: "take i ?p \<noteq> []"
        using False True by (cases ?p) auto
      moreover have "last (take i ?p) = ?p ! (i - 1)"
        using False True by (simp add: last_conv_nth[OF ne] min_def)
      ultimately show ?thesis
        using "1.prems"(4) by (simp add: evaluated_append)
    qed
    have take: "take (Suc i) (?p[i := n]) = take i ?p @ [n]"
      using True by (simp add: take_Suc_conv_app_nth)
    have "\<exists>p. evaluate_loop cm (Suc i) ?v = Inr (?v\<lparr>m_path := p\<rparr>) \<and>
        map site p = map site (m_path ?v) \<and> evaluated cm (m_capacity ?v) (veh_speed ?v) p \<and>
        take (Suc i) p = take (Suc i) (m_path ?v)"
      by (rule "1.IH"[OF True n(1)[unfolded step_def]])
        (use "1.prems"(1,2) mat ev take True in simp_all)
    then obtain p where p: "evaluate_loop cm (Suc i) ?v = Inr (v\<lparr>m_path := p\<rparr>)"
        "map site p = map site ?p" "evaluated cm ?c ?s p" "take (Suc i) p = take i ?p @ [n]"
      using take same by auto
    have "take i p = take i ?p"
      using arg_cong[OF p(4), of "take i"] True by (simp add: min_def)
    moreover have "evaluate_loop cm i v = bindE step (\<lambda>n. evaluate_loop cm (Suc i) (v\<lparr>m_path := ?p[i := n]\<rparr>))"
      unfolding step_def using True by (subst evaluate_loop.simps) (simp cong: if_cong)
    ultimately show ?thesis
      using p(1-3) n(1) by auto
  qed
qed

lemma evaluate_from_spec:
  assumes "dm_wf cm" "veh_speed v \<noteq> 0" "route_shape cm (sites v)"
    and "evaluated cm (m_capacity v) (veh_speed v) (take i (m_path v))" "i < length (m_path v)"
  shows "\<exists>p. evaluate_from cm i v = Inr (v\<lparr>m_path := p\<rparr>) \<and> map site p = sites v \<and>
    veh_wf cm (v\<lparr>m_path := p\<rparr>) \<and> take i p = take i (m_path v)"
proof -
  have "\<forall>n \<in> set (m_path v). in_matrix cm n"
  proof
    fix n assume "n \<in> set (m_path v)"
    then have "site n \<in> set (sites v)" by (simp add: sites_def)
    from route_shape_in_matrix[OF assms(3) this] show "in_matrix cm n" by simp
  qed
  then obtain p where p: "evaluate_loop cm i v = Inr (v\<lparr>m_path := p\<rparr>)"
      "map site p = map site (m_path v)" "evaluated cm (m_capacity v) (veh_speed v) p"
      "take i p = take i (m_path v)"
    using evaluate_loop_spec[of cm v i] assms by (auto simp: less_imp_le)
  have shape: "route_shape cm (sites (v\<lparr>m_path := p\<rparr>))"
    using assms(3) p(2) by (simp add: sites_def)
  show ?thesis
    using assms p shape route_shape_invariant[OF assms(3)] route_shape_invariant[OF shape]
    by (auto simp: evaluate_from_def veh_wf_def sites_def)
qed


text \<open>
  What every operation on a path promises: it returns the same vehicle with the path that is
  the evaluation of the sites \<open>ss\<close>.
\<close>

definition yields :: "Dmatrix \<Rightarrow> 'a Vehicle_scheme \<Rightarrow> Tw_node list \<Rightarrow> 'a Vehicle_scheme run \<Rightarrow> bool" where
  "yields cm v ss r \<longleftrightarrow>
     (\<exists>p. r = Inr (v\<lparr>m_path := p\<rparr>) \<and> map site p = ss \<and> veh_wf cm (v\<lparr>m_path := p\<rparr>))"

lemma yieldsE:
  assumes "yields cm v ss r"
  obtains p where "r = Inr (v\<lparr>m_path := p\<rparr>)" "map site p = ss" "veh_wf cm (v\<lparr>m_path := p\<rparr>)"
  using assms by (auto simp: yields_def)

lemma yields_refl: "veh_wf cm v \<Longrightarrow> yields cm v (sites v) (Inr v)"
  by (auto simp: yields_def sites_def intro!: exI[of _ "m_path v"])

lemma veh_wf_unique:
  assumes "veh_wf cm v" "veh_wf cm (v\<lparr>m_path := p\<rparr>)" "map site p = sites v"
  shows "p = m_path v"
proof -
  have "is_start (hd p)" if "p \<noteq> []"
  proof -
    have "is_start (hd (sites v))" using assms(1) by (simp add: veh_wf_def route_shape_def)
    moreover have "hd (sites v) = site (hd p)"
      using that by (simp add: assms(3)[symmetric] hd_map)
    ultimately show ?thesis by simp
  qed
  then show ?thesis
    using evaluated_unique[of cm "m_capacity v" "veh_speed v" p "m_path v"] assms
    by (simp add: veh_wf_def sites_def)
qed

lemma yields_unique:
  assumes "yields cm v ss r" "yields cm v ss r'"
  shows "r = r'"
proof -
  obtain p where p: "r = Inr (v\<lparr>m_path := p\<rparr>)" "map site p = ss" "veh_wf cm (v\<lparr>m_path := p\<rparr>)"
    using assms(1) by (rule yieldsE)
  obtain q where q: "r' = Inr (v\<lparr>m_path := q\<rparr>)" "map site q = ss" "veh_wf cm (v\<lparr>m_path := q\<rparr>)"
    using assms(2) by (rule yieldsE)
  have "q = p" using veh_wf_unique[of cm "v\<lparr>m_path := p\<rparr>" q] p q by simp
  then show ?thesis using p q by simp
qed

lemma evaluate_from_yields:
  assumes "veh_wf cm v" "route_shape cm (map site p)"
    and "take i p = take i (m_path v)" "i < length p"
  shows "yields cm v (map site p) (evaluate_from cm i (v\<lparr>m_path := p\<rparr>))"
proof -
  have "evaluated cm (m_capacity v) (veh_speed v) (take i (m_path v))"
  proof (cases "take i (m_path v) = []")
    case False
    have "evaluated cm (m_capacity v) (veh_speed v) (take i (m_path v) @ drop i (m_path v))"
      using assms(1) by (simp add: veh_wf_def)
    then show ?thesis using evaluated_append[OF False] by blast
  qed (metis evaluated.simps(1))
  then have "evaluated cm (m_capacity v) (veh_speed v) (take i p)"
    unfolding assms(3) .
  then show ?thesis
    using evaluate_from_spec[of cm "v\<lparr>m_path := p\<rparr>" i] assms
    by (auto simp: yields_def veh_wf_def)
qed

lemma veh_insert_yields:
  assumes "veh_wf cm v" "0 < i" "i < length (m_path v)" "inner cm n"
  shows "yields cm v (insert_at i (site n) (sites v)) (veh_insert cm i n v)"
proof -
  let ?p = "insert_at i n (m_path v)"
  have s: "map site ?p = insert_at i (site n) (sites v)"
    by (simp add: map_insert_at sites_def)
  have "route_shape cm (map site ?p)"
    unfolding s using assms by (intro route_shape_insert_at) (auto simp: veh_wf_def)
  then have "yields cm v (map site ?p) (evaluate_from cm i (v\<lparr>m_path := ?p\<rparr>))"
    using assms by (intro evaluate_from_yields) auto
  then obtain p where p: "evaluate_from cm i (v\<lparr>m_path := ?p\<rparr>) = Inr (v\<lparr>m_path := p\<rparr>)"
      "map site p = map site ?p" "veh_wf cm (v\<lparr>m_path := p\<rparr>)"
    by (auto elim!: yieldsE)
  have len: "length p = Suc (length (m_path v))"
    using arg_cong[OF p(2), of length] assms(3) by simp
  have "site (p ! i) = site n"
    using arg_cong[OF p(2), of "\<lambda>l. l ! i"] assms(3) len by simp
  then have "m_idx (p ! i) = m_idx n" by (metis site_simps(1))
  then have "veh_insert cm i n v = Inr (v\<lparr>m_path := p\<rparr>)"
    using assms(1,3) p(1) len veh_invariant_wf[OF assms(1)] veh_invariant_wf[OF p(3)]
    by (simp add: veh_insert_def)
  then show ?thesis
    using p(2,3) s by (auto simp: yields_def)
qed

lemma veh_erase_at_yields:
  assumes "veh_wf cm v" "0 < i" "Suc i < length (m_path v)"
  shows "yields cm v (erase_at i (sites v)) (veh_erase_at cm i v)"
proof -
  let ?p = "erase_at i (m_path v)"
  have s: "map site ?p = erase_at i (sites v)"
    by (simp add: map_erase_at sites_def)
  have shape: "route_shape cm (sites v)" using assms(1) by (simp add: veh_wf_def)
  then have "route_shape cm (map site ?p)"
    unfolding s using assms by (intro route_shape_erase_at) auto
  then have "yields cm v (map site ?p) (evaluate_from cm i (v\<lparr>m_path := ?p\<rparr>))"
    using assms by (intro evaluate_from_yields) auto
  then obtain p where p: "evaluate_from cm i (v\<lparr>m_path := ?p\<rparr>) = Inr (v\<lparr>m_path := p\<rparr>)"
      "map site p = map site ?p" "veh_wf cm (v\<lparr>m_path := p\<rparr>)"
    by (auto elim!: yieldsE)
  have "\<not> is_start (m_path v ! i)" "\<not> is_end (m_path v ! i)"
    using route_shape_kinds(2,3)[OF shape, of i] assms(2,3) by (simp_all add: nth_sites)
  moreover have "2 < length (m_path v)" using assms(2,3) by simp
  ultimately have "veh_erase_at cm i v = Inr (v\<lparr>m_path := p\<rparr>)"
    using assms(1,3) p(1) veh_invariant_wf[OF assms(1)] veh_invariant_wf[OF p(3)]
    by (simp add: veh_erase_at_def)
  then show ?thesis
    using p(2,3) s by (auto simp: yields_def)
qed

lemma veh_swap_yields:
  assumes "veh_wf cm v" "0 < i" "Suc i < length (m_path v)" "0 < j" "Suc j < length (m_path v)"
    and "3 < length (m_path v)"
  shows "yields cm v (swap_at i j (sites v)) (veh_swap cm i j v)"
proof -
  let ?p = "swap_at i j (m_path v)" and ?m = "if i < j then i else j"
  have s: "map site ?p = swap_at i j (sites v)"
    using assms by (simp add: map_swap_at sites_def)
  have shape: "route_shape cm (sites v)" using assms(1) by (simp add: veh_wf_def)
  then have "route_shape cm (map site ?p)"
    unfolding s using assms by (intro route_shape_swap_at) auto
  moreover have "take ?m ?p = take ?m (m_path v)"
    by (simp add: swap_at_def)
  ultimately have "yields cm v (map site ?p) (evaluate_from cm ?m (v\<lparr>m_path := ?p\<rparr>))"
    using assms by (intro evaluate_from_yields) auto
  then obtain p where p: "evaluate_from cm ?m (v\<lparr>m_path := ?p\<rparr>) = Inr (v\<lparr>m_path := p\<rparr>)"
      "map site p = map site ?p" "veh_wf cm (v\<lparr>m_path := p\<rparr>)"
    by (auto elim!: yieldsE)
  have "\<not> is_start (m_path v ! i)" "\<not> is_end (m_path v ! i)"
    "\<not> is_start (m_path v ! j)" "\<not> is_end (m_path v ! j)"
    using route_shape_kinds(2,3)[OF shape, of i] route_shape_kinds(2,3)[OF shape, of j]
      assms(2-5) by (simp_all add: nth_sites)
  then have "veh_swap cm i j v = Inr (v\<lparr>m_path := p\<rparr>)"
    using assms(1,3,5,6) p(1) veh_invariant_wf[OF assms(1)] veh_invariant_wf[OF p(3)]
    by (simp add: veh_swap_def)
  then show ?thesis
    using p(2,3) s by (auto simp: yields_def)
qed


text \<open>\<open>erase(node)\<close> removes the first node with the same index.\<close>

lemma pos_of_idx_le: "pos_of_idx i ns \<le> length ns"
  by (induction i ns rule: pos_of_idx.induct) auto

lemma pos_of_idx_less: "i \<in> m_idx ` set ns \<Longrightarrow> pos_of_idx i ns < length ns"
  by (induction i ns rule: pos_of_idx.induct) auto

lemma pos_of_idx_nth: "pos_of_idx i ns < length ns \<Longrightarrow> m_idx (ns ! pos_of_idx i ns) = i"
  by (induction i ns rule: pos_of_idx.induct) auto

lemma pos_of_idx_distinct:
  "distinct (map m_idx ns) \<Longrightarrow> k < length ns \<Longrightarrow> pos_of_idx (m_idx (ns ! k)) ns = k"
proof (induction ns arbitrary: k)
  case (Cons n ns)
  show ?case
  proof (cases k)
    case (Suc j)
    then have "m_idx (ns ! j) \<noteq> m_idx n"
      using Cons.prems nth_mem[of j ns] by (metis distinct.simps(2) imageI length_Cons
          list.set_map list.simps(9) Suc_less_eq)
    then show ?thesis using Cons Suc by simp
  qed simp
qed simp

lemma evaluate_from_wf:
  assumes "veh_wf cm v" "i < length (m_path v)"
  shows "evaluate_from cm i v = Inr v"
proof -
  have "route_shape cm (map site (m_path v))"
    using assms(1) by (simp add: veh_wf_def sites_def)
  then have "yields cm v (sites v) (evaluate_from cm i v)"
    using evaluate_from_yields[of cm v "m_path v" i] assms by (simp add: sites_def)
  from yields_unique[OF this yields_refl[OF assms(1)]] show ?thesis .
qed

lemma veh_erase_yields:
  assumes "veh_wf cm v" "pos_of_idx (m_idx n) (m_path v) = k" "0 < k" "Suc k < length (m_path v)"
  shows "yields cm v (erase_at k (sites v)) (veh_erase cm n v)"
proof -
  have y: "yields cm v (erase_at k (sites v)) (veh_erase_at cm k v)"
    using assms by (intro veh_erase_at_yields) auto
  then obtain p where p: "veh_erase_at cm k v = Inr (v\<lparr>m_path := p\<rparr>)"
      "map site p = erase_at k (sites v)" "veh_wf cm (v\<lparr>m_path := p\<rparr>)"
    by (rule yieldsE)
  have "length p = length (m_path v) - 1"
    using arg_cong[OF p(2), of length] assms(4) by simp
  then have "evaluate_from cm k (v\<lparr>m_path := p\<rparr>) = Inr (v\<lparr>m_path := p\<rparr>)"
    using assms(4) by (intro evaluate_from_wf[OF p(3)]) simp
  then have "veh_erase cm n v = veh_erase_at cm k v"
    using assms(2) p(1) veh_invariant_wf[OF assms(1)] veh_invariant_wf[OF p(3)]
    by (simp add: veh_erase_def)
  then show ?thesis using y by simp
qed

lemma veh_construct_yields:
  assumes "dm_wf cm" "veh_speed v \<noteq> 0" "0 < m_capacity v" "is_start s" "is_end e"
    "in_matrix cm s" "in_matrix cm e"
  shows "yields cm v [site s, site e] (veh_construct cm s e v)"
proof -
  let ?v = "v\<lparr>m_path := [s, e]\<rparr>"
  have "route_shape cm (sites ?v)"
    using assms route_shape_Cons_snoc[of cm "site s" "[]" "site e"] by simp
  then obtain p where p: "evaluate_from cm 0 ?v = Inr (v\<lparr>m_path := p\<rparr>)"
      "map site p = [site s, site e]" "veh_wf cm (v\<lparr>m_path := p\<rparr>)"
    using evaluate_from_spec[of cm ?v 0] assms by auto
  have "m_opens s \<le> m_closes s" "m_opens e \<le> m_closes e"
    using assms(4,5) by (simp_all add: node_kinds dbl_less_imp_le)
  then have "veh_construct cm s e v = Inr (v\<lparr>m_path := p\<rparr>)"
    using assms p(1) veh_invariant_wf[OF p(3)] veh_tau_wf[OF p(3)] by (auto simp: veh_construct_def)
  then show ?thesis using p by (auto simp: yields_def)
qed

section \<open>Position limits\<close>

lemma suffix_step:
  assumes "\<forall>i \<le> K. l \<le> i \<longleftrightarrow> (\<forall>k. i \<le> k \<longrightarrow> k < K \<longrightarrow> P k)" "P K" "l \<le> K"
  shows "\<forall>i \<le> Suc K. l \<le> i \<longleftrightarrow> (\<forall>k. i \<le> k \<longrightarrow> k < Suc K \<longrightarrow> P k)"
proof (intro allI impI)
  fix i assume "i \<le> Suc K"
  then consider "i \<le> K" | "i = Suc K" by linarith
  then show "l \<le> i \<longleftrightarrow> (\<forall>k. i \<le> k \<longrightarrow> k < Suc K \<longrightarrow> P k)"
  proof cases
    case 1
    have "(\<forall>k. i \<le> k \<longrightarrow> k < Suc K \<longrightarrow> P k) \<longleftrightarrow> (\<forall>k. i \<le> k \<longrightarrow> k < K \<longrightarrow> P k)"
      using assms(2) less_Suc_eq by metis
    then show ?thesis using assms(1) 1 by simp
  qed (use assms(3) in simp)
qed

lemma suffix_stop:
  assumes "\<not> P K"
  shows "\<forall>i \<le> Suc K. Suc K \<le> i \<longleftrightarrow> (\<forall>k. i \<le> k \<longrightarrow> k < Suc K \<longrightarrow> P k)"
proof (intro allI impI iffI)
  fix i assume "\<forall>k. i \<le> k \<longrightarrow> k < Suc K \<longrightarrow> P k"
  from this[rule_format, of K] have "\<not> i \<le> K" using assms by auto
  then show "Suc K \<le> i" by simp
qed simp

lemma prefix_step:
  assumes "\<forall>i. Suc a \<le> i \<longrightarrow> i \<le> N \<longrightarrow> (i \<le> h \<longleftrightarrow> (\<forall>k. Suc a \<le> k \<longrightarrow> k < i \<longrightarrow> P k))"
    and "P a" "Suc a \<le> h"
  shows "\<forall>i. a \<le> i \<longrightarrow> i \<le> N \<longrightarrow> (i \<le> h \<longleftrightarrow> (\<forall>k. a \<le> k \<longrightarrow> k < i \<longrightarrow> P k))"
proof (intro allI impI)
  fix i assume "a \<le> i" "i \<le> N"
  then consider "i = a" | "Suc a \<le> i" by linarith
  then show "i \<le> h \<longleftrightarrow> (\<forall>k. a \<le> k \<longrightarrow> k < i \<longrightarrow> P k)"
  proof cases
    case 2
    have "(\<forall>k. a \<le> k \<longrightarrow> k < i \<longrightarrow> P k) \<longleftrightarrow> (\<forall>k. Suc a \<le> k \<longrightarrow> k < i \<longrightarrow> P k)"
      using assms(2) by (metis Suc_leD Suc_leI le_neq_implies_less)
    then show ?thesis using assms(1) 2 \<open>i \<le> N\<close> by simp
  qed (use assms(3) in simp)
qed

lemma prefix_stop:
  fixes a :: nat
  assumes "\<not> P a"
  shows "\<forall>i. a \<le> i \<longrightarrow> i \<le> N \<longrightarrow> (i \<le> a \<longleftrightarrow> (\<forall>k. a \<le> k \<longrightarrow> k < i \<longrightarrow> P k))"
proof (intro allI impI iffI)
  fix i assume "\<forall>k. a \<le> k \<longrightarrow> k < i \<longrightarrow> P k"
  from this[rule_format, of a] have "\<not> a < i" using assms by auto
  then show "i \<le> a" by simp
qed simp

abbreviation precedes :: "Dmatrix \<Rightarrow> double \<Rightarrow> 'a Tw_node_scheme \<Rightarrow> 'b Tw_node_scheme \<Rightarrow> bool" where
  "precedes cm s i j \<equiv> is_compatible_IJ cm j i s = Inr True"

lemma low_limit_loop_spec:
  assumes "\<forall>k < K. \<exists>b. is_compatible_IJ cm (m_path v ! k) n (veh_speed v) = Inr b"
  shows "\<exists>l. low_limit_loop cm v n K = Inr l \<and> l \<le> K \<and>
    (\<forall>i \<le> K. l \<le> i \<longleftrightarrow>
      (\<forall>k. i \<le> k \<longrightarrow> k < K \<longrightarrow> precedes cm (veh_speed v) n (m_path v ! k)))"
  using assms
proof (induction K)
  case (Suc K)
  obtain b where b: "is_compatible_IJ cm (m_path v ! K) n (veh_speed v) = Inr b"
    using Suc.prems by blast
  show ?case
  proof (cases b)
    case True
    obtain l where l: "low_limit_loop cm v n K = Inr l" "l \<le> K"
        "\<forall>i \<le> K. l \<le> i \<longleftrightarrow>
          (\<forall>k. i \<le> k \<longrightarrow> k < K \<longrightarrow> precedes cm (veh_speed v) n (m_path v ! k))"
      using Suc by auto
    show ?thesis
      using b True l(1,2) suffix_step[OF l(3) _ l(2)]
      by (intro exI[of _ l]) simp
  next
    case False
    then show ?thesis
      using b suffix_stop[of "\<lambda>k. precedes cm (veh_speed v) n (m_path v ! k)" K] by simp
  qed
qed simp

lemma drop_low_limit_loop_spec:
  assumes "\<forall>k < K. \<exists>b. is_compatible_IJ cm (m_path v ! k) n (veh_speed v) = Inr b"
  shows "\<exists>l. drop_low_limit_loop cm v n K = Inr l \<and> l \<le> K \<and>
    (\<forall>i \<le> K. l \<le> i \<longleftrightarrow>
      (\<forall>k. i \<le> k \<longrightarrow> k < K \<longrightarrow> precedes cm (veh_speed v) n (m_path v ! k) \<and>
        \<not> is_pickup (m_path v ! k)))"
  using assms
proof (induction K)
  case (Suc K)
  let ?P = "\<lambda>k. precedes cm (veh_speed v) n (m_path v ! k) \<and> \<not> is_pickup (m_path v ! k)"
  obtain b where b: "is_compatible_IJ cm (m_path v ! K) n (veh_speed v) = Inr b"
    using Suc.prems by blast
  show ?case
  proof (cases "?P K")
    case True
    obtain l where l: "drop_low_limit_loop cm v n K = Inr l" "l \<le> K"
        "\<forall>i \<le> K. l \<le> i \<longleftrightarrow> (\<forall>k. i \<le> k \<longrightarrow> k < K \<longrightarrow> ?P k)"
      using Suc by auto
    show ?thesis
      using True l(1,2) suffix_step[OF l(3) True l(2)] by (intro exI[of _ l]) simp
  next
    case False
    then show ?thesis
      using b suffix_stop[of ?P K] by (intro exI[of _ "Suc K"]) auto
  qed
qed simp

lemma high_limit_loop_spec:
  assumes "\<forall>k < length (m_path v). \<exists>b. is_compatible_IJ cm n (m_path v ! k) (veh_speed v) = Inr b"
    and "i0 \<le> length (m_path v)"
  shows "\<exists>h. high_limit_loop cm v n i0 = Inr h \<and> i0 \<le> h \<and> h \<le> length (m_path v) \<and>
    (\<forall>i. i0 \<le> i \<longrightarrow> i \<le> length (m_path v) \<longrightarrow> (i \<le> h \<longleftrightarrow>
      (\<forall>k. i0 \<le> k \<longrightarrow> k < i \<longrightarrow> precedes cm (veh_speed v) (m_path v ! k) n)))"
  using assms
proof (induction cm v n i0 rule: high_limit_loop.induct)
  case (1 cm v n i0)
  let ?P = "\<lambda>k. precedes cm (veh_speed v) (m_path v ! k) n"
  show ?case
  proof (cases "i0 < length (m_path v)")
    case less: True
    then obtain b where b: "is_compatible_IJ cm n (m_path v ! i0) (veh_speed v) = Inr b"
      using "1.prems" by blast
    show ?thesis
    proof (cases b)
      case True
      then obtain h where h: "high_limit_loop cm v n (Suc i0) = Inr h" "Suc i0 \<le> h"
          "h \<le> length (m_path v)"
          "\<forall>i. Suc i0 \<le> i \<longrightarrow> i \<le> length (m_path v) \<longrightarrow>
            (i \<le> h \<longleftrightarrow> (\<forall>k. Suc i0 \<le> k \<longrightarrow> k < i \<longrightarrow> ?P k))"
        using "1.IH"[OF less b True] "1.prems" less by auto
      have "high_limit_loop cm v n i0 = Inr h"
        using b True h(1) less by (subst high_limit_loop.simps) simp
      then show ?thesis
        using h(2,3) b True prefix_step[OF h(4) _ h(2)] by (intro exI[of _ h]) simp
    next
      case False
      have "high_limit_loop cm v n i0 = Inr i0"
        using b False less by (subst high_limit_loop.simps) simp
      then show ?thesis
        using less b False prefix_stop[of ?P i0 "length (m_path v)"]
        by (intro exI[of _ i0]) simp
    qed
  next
    case False
    then show ?thesis
      using "1.prems" by (subst high_limit_loop.simps) auto
  qed
qed


lemma veh_wf_ends:
  assumes "veh_wf cm v"
  shows "m_type (m_path v ! 0) = kStart" "m_type (m_path v ! (length (m_path v) - 1)) = kEnd"
    "is_start (hd (m_path v))" "is_end (last (m_path v))"
proof -
  have ne: "m_path v \<noteq> []" using veh_wf_nonempty[OF assms] by auto
  show s: "is_start (hd (m_path v))" and e: "is_end (last (m_path v))"
    using assms ne by (simp_all add: veh_wf_def route_shape_def sites_def hd_map last_map)
  show "m_type (m_path v ! 0) = kStart" "m_type (m_path v ! (length (m_path v) - 1)) = kEnd"
    using s e ne by (auto simp: hd_conv_nth last_conv_nth dest: node_kind_type)
qed

lemma veh_wf_in_matrix: "veh_wf cm v \<Longrightarrow> n \<in> set (m_path v) \<Longrightarrow> in_matrix cm n"
  unfolding veh_wf_def using route_shape_in_matrix[of cm "sites v" "site n"]
  by (auto simp: sites_def)

lemma veh_wf_compatible_total:
  assumes "veh_wf cm v" "in_matrix cm n" "k < length (m_path v)"
  shows "\<exists>b. is_compatible_IJ cm (m_path v ! k) n (veh_speed v) = Inr b"
    "\<exists>b. is_compatible_IJ cm n (m_path v ! k) (veh_speed v) = Inr b"
  using assms veh_wf_in_matrix[OF assms(1), of "m_path v ! k"]
  by (auto simp: veh_wf_def in_matrix_def intro!: is_compatible_IJ_total)

lemma getPosHighLimit_spec:
  assumes "veh_wf cm v" "in_matrix cm n"
  shows "\<exists>h. getPosHighLimit cm v n = Inr h \<and> h < length (m_path v) \<and>
    (\<forall>i \<le> length (m_path v). i \<le> h \<longleftrightarrow> (\<forall>k < i. precedes cm (veh_speed v) (m_path v ! k) n))"
proof -
  let ?P = "\<lambda>k. precedes cm (veh_speed v) (m_path v ! k) n" and ?len = "length (m_path v)"
  obtain h where h: "high_limit_loop cm v n 0 = Inr h" "h \<le> ?len"
      "\<forall>i \<le> ?len. i \<le> h \<longleftrightarrow> (\<forall>k < i. ?P k)"
    using high_limit_loop_spec[of v cm n 0] veh_wf_compatible_total(2)[OF assms] by auto
  have "\<not> ?P (?len - 1)" using veh_wf_ends(2)[OF assms(1)] by simp
  moreover have "?len - 1 < ?len" using veh_wf_nonempty[OF assms(1)] by simp
  ultimately have "\<not> ?len \<le> h" using h(3) by blast
  then show ?thesis
    using h veh_invariant_wf[OF assms(1)] by (auto simp: getPosHighLimit_def)
qed

lemma getPosLowLimit_spec:
  assumes "veh_wf cm v" "in_matrix cm n"
  shows "\<exists>l. getPosLowLimit cm v n = Inr l \<and> 0 < l \<and> l \<le> length (m_path v) \<and>
    (\<forall>i \<le> length (m_path v). l \<le> i \<longleftrightarrow>
      (\<forall>k. i \<le> k \<longrightarrow> k < length (m_path v) \<longrightarrow> precedes cm (veh_speed v) n (m_path v ! k)))"
proof -
  let ?P = "\<lambda>k. precedes cm (veh_speed v) n (m_path v ! k)" and ?len = "length (m_path v)"
  obtain l where l: "low_limit_loop cm v n ?len = Inr l" "l \<le> ?len"
      "\<forall>i \<le> ?len. l \<le> i \<longleftrightarrow> (\<forall>k. i \<le> k \<longrightarrow> k < ?len \<longrightarrow> ?P k)"
    using low_limit_loop_spec[of ?len cm v n] veh_wf_compatible_total(1)[OF assms] by auto
  have "\<not> ?P 0" using veh_wf_ends(1)[OF assms(1)] by simp
  then have "\<not> l \<le> 0" using l(3) veh_wf_nonempty[OF assms(1)]
    by (metis le0 le_zero_eq not_gr_zero numeral_2_eq_2 not_less_eq_eq)
  then show ?thesis
    using l veh_invariant_wf[OF assms(1)] by (auto simp: getPosLowLimit_def)
qed

lemma getDropPosLowLimit_spec:
  assumes "veh_wf cm v" "in_matrix cm n"
  shows "\<exists>l. getDropPosLowLimit cm v n = Inr l \<and> 0 < l \<and> l \<le> length (m_path v) \<and>
    (\<forall>i \<le> length (m_path v). l \<le> i \<longleftrightarrow>
      (\<forall>k. i \<le> k \<longrightarrow> k < length (m_path v) \<longrightarrow> precedes cm (veh_speed v) n (m_path v ! k) \<and>
         \<not> is_pickup (m_path v ! k)))"
proof -
  let ?P = "\<lambda>k. precedes cm (veh_speed v) n (m_path v ! k) \<and> \<not> is_pickup (m_path v ! k)"
  let ?len = "length (m_path v)"
  obtain l where l: "drop_low_limit_loop cm v n ?len = Inr l" "l \<le> ?len"
      "\<forall>i \<le> ?len. l \<le> i \<longleftrightarrow> (\<forall>k. i \<le> k \<longrightarrow> k < ?len \<longrightarrow> ?P k)"
    using drop_low_limit_loop_spec[of ?len cm v n] veh_wf_compatible_total(1)[OF assms] by auto
  have "\<not> ?P 0" using veh_wf_ends(1)[OF assms(1)] by simp
  then have "\<not> l \<le> 0" using l(3) veh_wf_nonempty[OF assms(1)]
    by (metis le0 le_zero_eq not_gr_zero numeral_2_eq_2 not_less_eq_eq)
  then show ?thesis
    using l veh_invariant_wf[OF assms(1)] by (auto simp: getDropPosLowLimit_def)
qed

text \<open>A position lies between the limits iff every earlier node may precede and every later
  one may follow the new node.\<close>

definition admits :: "Dmatrix \<Rightarrow> 'a Vehicle_scheme \<Rightarrow> 'b Tw_node_scheme \<Rightarrow> nat \<Rightarrow> bool" where
  "admits cm v n i \<longleftrightarrow>
     (\<forall>k < i. precedes cm (veh_speed v) (m_path v ! k) n) \<and>
     (\<forall>k. i \<le> k \<longrightarrow> k < length (m_path v) \<longrightarrow> precedes cm (veh_speed v) n (m_path v ! k))"

lemma position_limits_spec:
  assumes "veh_wf cm v" "in_matrix cm n"
  shows "\<exists>l h. position_limits cm v n = Inr (l, h) \<and> 0 < l \<and> h < length (m_path v) \<and>
    (\<forall>i \<le> length (m_path v). l \<le> i \<and> i \<le> h \<longleftrightarrow> admits cm v n i)"
proof -
  obtain h where h: "getPosHighLimit cm v n = Inr h" "h < length (m_path v)"
      "\<forall>i \<le> length (m_path v). i \<le> h \<longleftrightarrow> (\<forall>k < i. precedes cm (veh_speed v) (m_path v ! k) n)"
    using getPosHighLimit_spec[OF assms] by blast
  obtain l where l: "getPosLowLimit cm v n = Inr l" "0 < l"
      "\<forall>i \<le> length (m_path v). l \<le> i \<longleftrightarrow>
        (\<forall>k. i \<le> k \<longrightarrow> k < length (m_path v) \<longrightarrow> precedes cm (veh_speed v) n (m_path v ! k))"
    using getPosLowLimit_spec[OF assms] by blast
  show ?thesis
    using h(1,2) l(1,2) h(3) l(3) unfolding position_limits_def admits_def
    by (intro exI[of _ l] exI[of _ h]) auto
qed

lemma drop_position_limits_spec:
  assumes "veh_wf cm v" "in_matrix cm n"
  shows "\<exists>l h. drop_position_limits cm v n = Inr (l, h) \<and> 0 < l \<and> h < length (m_path v) \<and>
    (\<forall>i \<le> length (m_path v). l \<le> i \<and> i \<le> h \<longleftrightarrow>
      admits cm v n i \<and> (\<forall>k. i \<le> k \<longrightarrow> k < length (m_path v) \<longrightarrow> \<not> is_pickup (m_path v ! k)))"
proof -
  obtain h where h: "getPosHighLimit cm v n = Inr h" "h < length (m_path v)"
      "\<forall>i \<le> length (m_path v). i \<le> h \<longleftrightarrow> (\<forall>k < i. precedes cm (veh_speed v) (m_path v ! k) n)"
    using getPosHighLimit_spec[OF assms] by blast
  obtain l where l: "getDropPosLowLimit cm v n = Inr l" "0 < l"
      "\<forall>i \<le> length (m_path v). l \<le> i \<longleftrightarrow>
        (\<forall>k. i \<le> k \<longrightarrow> k < length (m_path v) \<longrightarrow> precedes cm (veh_speed v) n (m_path v ! k) \<and>
          \<not> is_pickup (m_path v ! k))"
    using getDropPosLowLimit_spec[OF assms] by blast
  show ?thesis
    using h(1,2) l(1,2) h(3) l(3) unfolding drop_position_limits_def admits_def
    by (intro exI[of _ l] exI[of _ h]) auto
qed

section \<open>What the accumulated values mean\<close>

lemma evaluate_after_totals:
  assumes "evaluate_after cm p c s n = Inr n" "m_type n \<noteq> kDump"
  shows "m_cargo n = m_cargo p + m_demand n"
    "m_tot_service_time n = m_tot_service_time p + m_service_time n"
    "m_tot_travel_time n = m_tot_travel_time p + m_travel_time n"
    "m_tot_wait_time n = m_tot_wait_time p + m_wait_time n"
    "m_departure_time n = m_departure_time p + m_travel_time n + m_wait_time n + m_service_time n"
proof -
  obtain t where t: "advance p c t n = n"
    using assms(1) by (auto simp: evaluate_after_def)
  have "m_cargo (advance p c t n) = m_cargo p + m_demand (advance p c t n)"
    "m_tot_service_time (advance p c t n) = m_tot_service_time p + m_service_time (advance p c t n)"
    "m_tot_travel_time (advance p c t n) = m_tot_travel_time p + m_travel_time (advance p c t n)"
    "m_tot_wait_time (advance p c t n) = m_tot_wait_time p + m_wait_time (advance p c t n)"
    "m_departure_time (advance p c t n) = m_departure_time p + m_travel_time (advance p c t n) +
       m_wait_time (advance p c t n) + m_service_time (advance p c t n)"
    using assms(2) by (simp_all add: advance_def Let_def is_dump_def)
  then show "m_cargo n = m_cargo p + m_demand n"
    "m_tot_service_time n = m_tot_service_time p + m_service_time n"
    "m_tot_travel_time n = m_tot_travel_time p + m_travel_time n"
    "m_tot_wait_time n = m_tot_wait_time p + m_wait_time n"
    "m_departure_time n = m_departure_time p + m_travel_time n + m_wait_time n + m_service_time n"
    unfolding t by this+
qed

lemma evaluated_after_cargo:
  assumes "evaluated_after cm c s p ns" "\<forall>n \<in> set ns. m_type n \<noteq> kDump"
  shows "m_cargo (last (p # ns)) = m_cargo p + (\<Sum>n\<leftarrow>ns. m_demand n)"
  using assms
proof (induction ns arbitrary: p)
  case (Cons n ns)
  have "m_cargo n = m_cargo p + m_demand n"
    using Cons.prems evaluate_after_totals(1)[of cm p c s n] by simp
  then show ?case
    using Cons.IH[of n] Cons.prems by (simp add: add.assoc)
qed simp


lemma veh_wf_first:
  assumes "veh_wf cm v"
  obtains x xs where "m_path v = x # xs" "is_start x" "evaluate_start (m_capacity v) x = x"
    "evaluated_after cm (m_capacity v) (veh_speed v) x xs" "\<forall>n \<in> set xs. m_type n \<noteq> kDump"
proof (cases "m_path v")
  case (Cons x xs)
  have "m_type n \<noteq> kDump" if "n \<in> set xs" for n
    using veh_wf_in_matrix[OF assms, of n] that Cons by (simp add: in_matrix_def)
  then show ?thesis
    using that[OF Cons] veh_wf_ends(3)[OF assms] assms Cons by (simp add: veh_wf_def)
qed (use veh_wf_nonempty[OF assms] in simp)

lemma start_values:
  assumes "is_start x" "evaluate_start c x = x"
  shows "m_cargo x = m_demand x" "m_twvTot x = 0" "\<not> node_has_twv x"
    "m_cvTot x = (if node_has_cv x c then 1 else 0)"
    "m_departure_time x = m_opens x + m_service_time x"
proof -
  have "m_cargo (evaluate_start c x) = m_demand (evaluate_start c x)"
    "m_twvTot (evaluate_start c x) = 0" "\<not> node_has_twv (evaluate_start c x)"
    "m_cvTot (evaluate_start c x) = (if node_has_cv (evaluate_start c x) c then 1 else 0)"
    "m_departure_time (evaluate_start c x) =
      m_opens (evaluate_start c x) + m_service_time (evaluate_start c x)"
    using assms(1) dbl_less_asym[of "m_opens x" "m_closes x"]
    by (simp_all add: evaluate_start_def Let_def node_tests)
  then show "m_cargo x = m_demand x" "m_twvTot x = 0" "\<not> node_has_twv x"
    "m_cvTot x = (if node_has_cv x c then 1 else 0)"
    "m_departure_time x = m_opens x + m_service_time x"
    unfolding assms(2) by this+
qed

text \<open>The counters of the last node count the violating nodes.\<close>

lemma veh_counters:
  assumes "veh_wf cm v"
  shows "twvTot v = int (length (filter node_has_twv (m_path v)))"
    and "cvTot v = int (length (filter (\<lambda>n. node_has_cv n (m_capacity v)) (m_path v)))"
  using assms
  by (rule veh_wf_first; use start_values evaluated_after_counters in
      \<open>force simp: twvTot_def cvTot_def\<close>)+

lemma is_feasable_iff:
  assumes "veh_wf cm v"
  shows "is_feasable v \<longleftrightarrow>
    (\<forall>n \<in> set (m_path v). \<not> node_has_twv n \<and> \<not> node_has_cv n (m_capacity v))"
  using veh_counters[OF assms]
  by (auto simp: is_feasable_def has_twv_def has_cv_def filter_empty_conv)

lemma veh_cargo:
  assumes "veh_wf cm v"
  shows "m_cargo (last (m_path v)) = (\<Sum>n\<leftarrow>sites v. m_demand n)"
  using assms
  by (rule veh_wf_first)
     (simp add: sites_def o_def start_values(1) evaluated_after_cargo del: last.simps)

section \<open>Incremental and full evaluation\<close>

text \<open>The reference: evaluate the whole path from scratch, with no cached value kept.\<close>

definition schedule :: "Dmatrix \<Rightarrow> 'a Vehicle_scheme \<Rightarrow> Tw_node list \<Rightarrow> 'a Vehicle_scheme run" where
  "schedule cm v ss = evaluate cm (v\<lparr>m_path := map Vehicle_node_of ss\<rparr>)"

lemma schedule_yields:
  assumes "dm_wf cm" "veh_speed v \<noteq> 0" "route_shape cm ss"
  shows "yields cm v ss (schedule cm v ss)"
proof -
  let ?v = "v\<lparr>m_path := map Vehicle_node_of ss\<rparr>"
  have ss: "sites ?v = ss" by (simp add: o_def)
  have shape: "route_shape cm (sites ?v)" using assms(3) by (simp only: ss)
  have len: "0 < length (m_path ?v)" using assms(3) by (auto simp: route_shape_def)
  have inv: "veh_invariant ?v = Inr ()"
    by (rule route_shape_invariant[of cm]) (simp only: ss assms(3))
  obtain p where "evaluate_from cm 0 ?v = Inr (v\<lparr>m_path := p\<rparr>)" "map site p = ss"
      "veh_wf cm (v\<lparr>m_path := p\<rparr>)"
    using evaluate_from_spec[of cm ?v 0] assms(1,2) len shape unfolding ss by auto
  then show ?thesis
    using inv veh_invariant_wf[of cm "v\<lparr>m_path := p\<rparr>"]
    by (auto simp: schedule_def evaluate_def yields_def)
qed

lemma yields_schedule:
  assumes "yields cm v ss r"
  shows "r = schedule cm v ss"
proof -
  obtain p where "map site p = ss" "veh_wf cm (v\<lparr>m_path := p\<rparr>)"
    using assms by (rule yieldsE)
  then have "dm_wf cm" "veh_speed v \<noteq> 0" "route_shape cm ss"
    by (simp_all add: veh_wf_def)
  from yields_unique[OF assms schedule_yields[OF this]] show ?thesis .
qed

lemmas veh_insert_schedule = veh_insert_yields[THEN yields_schedule]
lemmas veh_erase_at_schedule = veh_erase_at_yields[THEN yields_schedule]
lemmas veh_swap_schedule = veh_swap_yields[THEN yields_schedule]

section \<open>The evaluation of a list of sites\<close>

text \<open>
  The same as a function: the path that the sites have in a vehicle of this capacity and speed.
  An operation that \<open>yields\<close> the sites \<open>ss\<close> returns \<open>via cm v ss\<close>.
\<close>

definition timetable :: "Dmatrix \<Rightarrow> double \<Rightarrow> double \<Rightarrow> Tw_node list \<Rightarrow> Vehicle_node list" where
  "timetable cm capacity speed ss =
     (case ss of [] \<Rightarrow> []
      | s # rest \<Rightarrow>
          let s' = evaluate_start capacity (Vehicle_node_of s) in
          (case evaluate_list cm capacity speed s' (map Vehicle_node_of rest) of
             Inl e \<Rightarrow> [] | Inr ns \<Rightarrow> s' # ns))"

definition via :: "Dmatrix \<Rightarrow> 'a Vehicle_scheme \<Rightarrow> Tw_node list \<Rightarrow> 'a Vehicle_scheme" where
  "via cm v ss = v\<lparr>m_path := timetable cm (m_capacity v) (veh_speed v) ss\<rparr>"

lemma evaluate_start_idem [simp]: "evaluate_start c (evaluate_start c m) = evaluate_start c m"
  by (metis evaluate_start_def evaluate_start_of_site evaluate_start_site site_kinds(1))

lemma timetable_spec:
  assumes "dm_wf cm" "s \<noteq> 0" "route_shape cm ss"
  shows "map site (timetable cm c s ss) = ss" "evaluated cm c s (timetable cm c s ss)"
proof -
  obtain x rest where ss: "ss = x # rest" using assms(3) by (auto elim: route_shape_split)
  let ?x = "evaluate_start c (Vehicle_node_of x)"
  have "\<forall>n \<in> set ss. in_matrix cm n" using route_shape_in_matrix[OF assms(3)] by blast
  then have "in_matrix cm x" "\<forall>n \<in> set (map Vehicle_node_of rest). in_matrix cm n"
    unfolding ss by (auto simp: in_matrix_def Vehicle_node_of_def)
  moreover have "in_matrix cm ?x = in_matrix cm x"
    by (metis evaluate_start_site in_matrix_site site_Vehicle_node_of)
  ultimately obtain ns where "evaluate_list cm c s ?x (map Vehicle_node_of rest) = Inr ns"
      "map site ns = rest" "evaluated_after cm c s ?x ns"
    using evaluate_list_total[OF assms(1,2), of ?x "map Vehicle_node_of rest" c]
    by (auto simp: o_def)
  then show "map site (timetable cm c s ss) = ss" "evaluated cm c s (timetable cm c s ss)"
    by (simp_all add: timetable_def ss)
qed

lemma veh_wf_shape: "veh_wf cm v \<Longrightarrow> route_shape cm (sites v)"
  by (simp add: veh_wf_def)

lemma via_update [simp]: "via cm (v\<lparr>m_path := p\<rparr>) ss = via cm v ss"
  by (simp add: via_def)

lemma via_via [simp]: "via cm (via cm v ss) ss' = via cm v ss'"
  by (simp add: via_def)

lemma via_spec:
  assumes "veh_wf cm v" "route_shape cm ss"
  shows "sites (via cm v ss) = ss" "veh_wf cm (via cm v ss)"
  using timetable_spec[of cm "veh_speed v" ss "m_capacity v"] assms
  by (simp_all add: via_def veh_wf_def)

lemma via_sites [simp]: "veh_wf cm v \<Longrightarrow> via cm v (sites v) = v"
  using veh_wf_unique[of cm v "timetable cm (m_capacity v) (veh_speed v) (sites v)"]
    via_spec[of cm v "sites v"] veh_wf_shape[of cm v]
  by (simp add: via_def)

lemma yields_via:
  assumes "yields cm v ss r" "veh_wf cm v"
  shows "r = Inr (via cm v ss)"
proof -
  obtain p where p: "r = Inr (v\<lparr>m_path := p\<rparr>)" "map site p = ss" "veh_wf cm (v\<lparr>m_path := p\<rparr>)"
    using assms(1) by (rule yieldsE)
  then show ?thesis using via_sites[OF p(3)] by simp
qed

lemma via_unchanged [simp]:
  "m_capacity (via cm v ss) = m_capacity v" "veh_speed (via cm v ss) = veh_speed v"
  "m_idx (via cm v ss) = m_idx v" "m_id (via cm v ss) = m_id v"
  by (simp_all add: via_def)

section \<open>The contract of a route\<close>

text \<open>
  What the pickup-and-deliver vehicle relies on: \<open>ins\<close> and \<open>del\<close> at an inner position never
  fail and act on the stops as on a list, and a well-formed route is the one that leads
  \<open>through\<close> its stops, everything else unchanged.
\<close>

locale route =
  fixes wf :: "'v \<Rightarrow> bool"
    and shape :: "'s list \<Rightarrow> bool"
    and stops :: "'v \<Rightarrow> 's list"
    and through :: "'v \<Rightarrow> 's list \<Rightarrow> 'v"
    and good :: "'n \<Rightarrow> bool"
    and stop_of :: "'n \<Rightarrow> 's"
    and ins :: "nat \<Rightarrow> 'n \<Rightarrow> 'v \<Rightarrow> 'e + 'v"
    and del :: "nat \<Rightarrow> 'v \<Rightarrow> 'e + 'v"
  assumes wf_shape: "wf v \<Longrightarrow> shape (stops v)"
    and stops_through: "wf v \<Longrightarrow> shape ss \<Longrightarrow> stops (through v ss) = ss"
    and wf_through: "wf v \<Longrightarrow> shape ss \<Longrightarrow> wf (through v ss)"
    and through_through: "through (through v ss) ss' = through v ss'"
    and through_stops: "wf v \<Longrightarrow> through v (stops v) = v"
    and shape_insert: "shape ss \<Longrightarrow> 0 < i \<Longrightarrow> i < length ss \<Longrightarrow> good n \<Longrightarrow>
      shape (insert_at i (stop_of n) ss)"
    and shape_erase: "shape ss \<Longrightarrow> 0 < i \<Longrightarrow> Suc i < length ss \<Longrightarrow> shape (erase_at i ss)"
    and ins_law: "wf v \<Longrightarrow> 0 < i \<Longrightarrow> i < length (stops v) \<Longrightarrow> good n \<Longrightarrow>
      ins i n v = Inr (through v (insert_at i (stop_of n) (stops v)))"
    and del_law: "wf v \<Longrightarrow> 0 < i \<Longrightarrow> Suc i < length (stops v) \<Longrightarrow>
      del i v = Inr (through v (erase_at i (stops v)))"
begin

lemma ins_spec:
  assumes "wf v" "0 < i" "i < length (stops v)" "good n"
  shows "\<exists>v'. ins i n v = Inr v' \<and> wf v' \<and> stops v' = insert_at i (stop_of n) (stops v) \<and>
    v' = through v (stops v')"
  using assms by (simp add: ins_law wf_through stops_through shape_insert wf_shape)

lemma del_ins:
  assumes "wf v" "0 < i" "i < length (stops v)" "good n"
  shows "bindE (ins i n v) (del i) = Inr v"
proof -
  let ?v = "through v (insert_at i (stop_of n) (stops v))"
  have s: "shape (insert_at i (stop_of n) (stops v))"
    using assms by (intro shape_insert wf_shape)
  then have "stops ?v = insert_at i (stop_of n) (stops v)" "wf ?v"
    using assms(1) by (simp_all add: stops_through wf_through)
  then have "del i ?v = Inr (through ?v (stops v))"
    using assms(2,3) by (simp add: del_law)
  then show ?thesis
    using assms by (simp add: ins_law through_through through_stops)
qed

text \<open>Two insertions at \<open>i < j\<close>, and the two removals in reverse order restore the route.\<close>

lemma ins_pair:
  assumes "wf v" "0 < i" "i < length (stops v)" "i < j" "j \<le> length (stops v)" "good n" "good m"
  defines "ss \<equiv> insert_at j (stop_of m) (insert_at i (stop_of n) (stops v))"
  shows "bindE (ins i n v) (ins j m) = Inr (through v ss)" "shape ss"
proof -
  let ?v = "through v (insert_at i (stop_of n) (stops v))"
  have s: "shape (insert_at i (stop_of n) (stops v))"
    using assms by (intro shape_insert wf_shape)
  then have v: "stops ?v = insert_at i (stop_of n) (stops v)" "wf ?v"
    using assms(1) by (simp_all add: stops_through wf_through)
  then show "bindE (ins i n v) (ins j m) = Inr (through v ss)"
    using assms by (simp add: ins_law through_through)
  show "shape ss"
    unfolding ss_def by (rule shape_insert[OF s]) (use assms in auto)
qed

lemma probe:
  assumes "wf v" "0 < i" "i < length (stops v)" "i < j" "j \<le> length (stops v)" "good n" "good m"
  shows "bindE (bindE (ins i n v) (ins j m)) (\<lambda>w. bindE (del j w) (del i)) = Inr v"
proof -
  obtain v' where v': "ins i n v = Inr v'" "wf v'"
      "stops v' = insert_at i (stop_of n) (stops v)"
    using ins_spec[OF assms(1-3,6)] by blast
  have "bindE (ins j m v') (del j) = Inr v'"
    using v' assms by (intro del_ins) auto
  then show ?thesis
    using v'(1) del_ins[OF assms(1-3,6)] by (cases "ins j m v'") auto
qed

end

interpretation veh: route "veh_wf cm" "route_shape cm" sites "via cm" "inner cm" site
  "veh_insert cm" "veh_erase_at cm" for cm :: Dmatrix
proof
  show "veh_insert cm i n v = Inr (via cm v (insert_at i (site n) (sites v)))"
    if "veh_wf cm v" "0 < i" "i < length (sites v)" "inner cm n" for v :: "'a Vehicle_scheme" and i n
    using veh_insert_yields[of cm v i n] that by (intro yields_via) auto
  show "veh_erase_at cm i v = Inr (via cm v (erase_at i (sites v)))"
    if "veh_wf cm v" "0 < i" "Suc i < length (sites v)" for v :: "'a Vehicle_scheme" and i
    using veh_erase_at_yields[of cm v i] that by (intro yields_via) auto
  show "route_shape cm (insert_at i (site n) ss)"
    if "route_shape cm ss" "0 < i" "i < length ss" "inner cm n" for ss i n
    using that by (intro route_shape_insert_at) auto
qed (simp_all add: veh_wf_shape via_spec route_shape_erase_at)

end
