(* ===== verification/Identifiers.thy ===== *)
theory Identifiers
  imports Prelude
begin

text \<open>
  The class \<open>Identifiers<T>\<close> (\<open>include/cpp_common/identifiers.hpp\<close>): a \<open>std::set\<close> of
  identifiers.  A \<open>std::set\<close> is the list of its elements in iteration order, which is strictly
  ascending; the standard algorithms on it (\<open>set_intersection\<close>, \<open>set_difference\<close>, \<open>equal\<close>)
  walk these lists.  The locale \<open>id_set\<close> is the contract the clients use (the route planner
  keeps its assigned and unassigned orders in two such sets); it is interpreted on the model
  at the end.
\<close>

section \<open>The ordered sequence of a \<open>std::set\<close>\<close>

fun set_insert :: "'a :: linorder \<Rightarrow> 'a list \<Rightarrow> 'a list" where
  "set_insert x [] = [x]"
| "set_insert x (y # ys) =
     (if x < y then x # y # ys else if x = y then y # ys else y # set_insert x ys)"

fun set_erase :: "'a \<Rightarrow> 'a list \<Rightarrow> 'a list" where
  "set_erase x [] = []"
| "set_erase x (y # ys) = (if x = y then ys else y # set_erase x ys)"

fun set_intersection :: "'a :: linorder list \<Rightarrow> 'a list \<Rightarrow> 'a list" where
  "set_intersection [] ys = []"
| "set_intersection xs [] = []"
| "set_intersection (x # xs) (y # ys) =
     (if x < y then set_intersection xs (y # ys)
      else if y < x then set_intersection (x # xs) ys
      else x # set_intersection xs ys)"

fun set_difference :: "'a :: linorder list \<Rightarrow> 'a list \<Rightarrow> 'a list" where
  "set_difference [] ys = []"
| "set_difference xs [] = xs"
| "set_difference (x # xs) (y # ys) =
     (if x < y then x # set_difference xs (y # ys)
      else if y < x then set_difference (x # xs) ys
      else set_difference xs ys)"

text \<open>\<open>std::equal\<close> with three iterators: the second range is assumed to be long enough.\<close>

fun std_equal :: "'a list \<Rightarrow> 'a list \<Rightarrow> bool run" where
  "std_equal [] ys = Inr True"
| "std_equal (x # xs) [] = Inl UndefinedBehaviour"
| "std_equal (x # xs) (y # ys) = (if x = y then std_equal xs ys else Inr False)"

abbreviation ascending :: "'a :: linorder list \<Rightarrow> bool" where
  "ascending \<equiv> sorted_wrt (<)"

lemma set_set_insert [simp]: "set (set_insert x xs) = insert x (set xs)"
  by (induction xs) auto

lemma ascending_set_insert: "ascending xs \<Longrightarrow> ascending (set_insert x xs)"
  by (induction xs) (auto simp: not_less_iff_gr_or_eq)

lemma set_set_erase: "ascending xs \<Longrightarrow> set (set_erase x xs) = set xs - {x}"
  by (induction xs) auto

lemma ascending_set_erase: "ascending xs \<Longrightarrow> ascending (set_erase x xs)"
proof (induction xs)
  case (Cons y ys)
  then show ?case by (auto simp: set_set_erase)
qed simp

lemma set_set_intersection:
  "ascending xs \<Longrightarrow> ascending ys \<Longrightarrow> set (set_intersection xs ys) = set xs \<inter> set ys"
  by (induction xs ys rule: set_intersection.induct) (auto simp: not_less_iff_gr_or_eq)

lemma ascending_set_intersection:
  "ascending xs \<Longrightarrow> ascending ys \<Longrightarrow> ascending (set_intersection xs ys)"
  by (induction xs ys rule: set_intersection.induct) (auto simp: set_set_intersection)

lemma set_set_difference:
  "ascending xs \<Longrightarrow> ascending ys \<Longrightarrow> set (set_difference xs ys) = set xs - set ys"
proof (induction xs ys rule: set_difference.induct)
  case (3 x xs y ys)
  then show ?case by (cases x y rule: linorder_cases) auto
qed auto

lemma ascending_set_difference:
  "ascending xs \<Longrightarrow> ascending ys \<Longrightarrow> ascending (set_difference xs ys)"
  by (induction xs ys rule: set_difference.induct) (auto simp: set_set_difference)

lemma ascending_distinct: "ascending xs \<Longrightarrow> distinct xs"
  by (induction xs) auto

lemma ascending_eq: "ascending xs \<Longrightarrow> ascending ys \<Longrightarrow> set xs = set ys \<Longrightarrow> xs = ys"
  by (simp add: strict_sorted_equal)

lemma std_equal_prefix:
  "std_equal xs ys = Inr True \<longleftrightarrow> length xs \<le> length ys \<and> xs = take (length xs) ys"
  by (induction xs ys rule: std_equal.induct) auto

section \<open>The class\<close>

datatype 'a Identifiers = Identifiers (m_ids: "'a list")

definition ids_set :: "'a Identifiers \<Rightarrow> 'a set" where
  "ids_set s = set (m_ids s)"

definition ids_inv :: "'a :: linorder Identifiers \<Rightarrow> bool" where
  "ids_inv s \<longleftrightarrow> ascending (m_ids s)"

definition ids_none :: "'a Identifiers" where
  "ids_none = Identifiers []"

text \<open>\<open>Identifiers(number)\<close>: the generator starts at 0 and is incremented after each use.\<close>

definition ids_upto :: "nat \<Rightarrow> nat Identifiers" where
  "ids_upto n = Identifiers (foldl (\<lambda>acc i. set_insert i acc) [] [0..<n])"

definition ids_size :: "'a Identifiers \<Rightarrow> nat" where
  "ids_size s = length (m_ids s)"

definition ids_empty :: "'a Identifiers \<Rightarrow> bool" where
  "ids_empty s \<longleftrightarrow> m_ids s = []"

definition ids_front :: "'a Identifiers \<Rightarrow> 'a run" where
  "ids_front s = (case m_ids s of [] \<Rightarrow> Inl UndefinedBehaviour | x # _ \<Rightarrow> Inr x)"

definition ids_pop_front :: "'a Identifiers \<Rightarrow> 'a Identifiers run" where
  "ids_pop_front s =
     (case m_ids s of [] \<Rightarrow> Inl UndefinedBehaviour | _ # xs \<Rightarrow> Inr (Identifiers xs))"

definition ids_has :: "'a Identifiers \<Rightarrow> 'a \<Rightarrow> bool" where
  "ids_has s x \<longleftrightarrow> List.member (m_ids s) x"

definition ids_eq :: "'a Identifiers \<Rightarrow> 'a Identifiers \<Rightarrow> bool run" where
  "ids_eq s t = std_equal (m_ids s) (m_ids t)"

definition ids_add :: "'a :: linorder Identifiers \<Rightarrow> 'a \<Rightarrow> 'a Identifiers" where
  "ids_add s x = Identifiers (set_insert x (m_ids s))"

definition ids_remove :: "'a Identifiers \<Rightarrow> 'a \<Rightarrow> 'a Identifiers" where
  "ids_remove s x = Identifiers (set_erase x (m_ids s))"

definition ids_union :: "'a :: linorder Identifiers \<Rightarrow> 'a Identifiers \<Rightarrow> 'a Identifiers" where
  "ids_union s t = Identifiers (foldl (\<lambda>acc x. set_insert x acc) (m_ids s) (m_ids t))"

definition ids_inter :: "'a :: linorder Identifiers \<Rightarrow> 'a Identifiers \<Rightarrow> 'a Identifiers" where
  "ids_inter s t = Identifiers (set_intersection (m_ids s) (m_ids t))"

definition ids_inter_elem :: "'a Identifiers \<Rightarrow> 'a \<Rightarrow> 'a Identifiers" where
  "ids_inter_elem s x = (if ids_has s x then Identifiers [x] else Identifiers [])"

definition ids_diff :: "'a :: linorder Identifiers \<Rightarrow> 'a Identifiers \<Rightarrow> 'a Identifiers" where
  "ids_diff s t = Identifiers (set_difference (m_ids s) (m_ids t))"

lemma set_foldl_set_insert:
  "set (foldl (\<lambda>acc x. set_insert x acc) xs ys) = set xs \<union> set ys"
  by (induction ys arbitrary: xs) auto

lemma ascending_foldl_set_insert:
  "ascending xs \<Longrightarrow> ascending (foldl (\<lambda>acc x. set_insert x acc) xs ys)"
  by (induction ys arbitrary: xs) (auto simp: ascending_set_insert)

lemma ids_inv_ops [simp, wf_intros]:
  "ids_inv ids_none"
  "ids_inv (ids_upto n)"
  "ids_inv s \<Longrightarrow> ids_inv (ids_add s x)"
  "ids_inv s \<Longrightarrow> ids_inv (ids_remove s x)"
  "ids_inv s \<Longrightarrow> ids_inv (ids_union s t)"
  "ids_inv s \<Longrightarrow> ids_inv t \<Longrightarrow> ids_inv (ids_inter s t)"
  "ids_inv s \<Longrightarrow> ids_inv t \<Longrightarrow> ids_inv (ids_diff s t)"
  by (simp_all add: ids_inv_def ids_none_def ids_upto_def ids_add_def ids_remove_def
      ids_union_def ids_inter_def ids_diff_def ascending_set_insert ascending_set_erase
      ascending_foldl_set_insert ascending_set_intersection ascending_set_difference)

lemma ids_set_ops [simp]:
  "ids_set ids_none = {}"
  "ids_set (ids_upto n) = {0..<n}"
  "ids_set (ids_add s x) = insert x (ids_set s)"
  "ids_inv s \<Longrightarrow> ids_set (ids_remove s x) = ids_set s - {x}"
  "ids_set (ids_union s t) = ids_set s \<union> ids_set t"
  "ids_inv s \<Longrightarrow> ids_inv t \<Longrightarrow> ids_set (ids_inter s t) = ids_set s \<inter> ids_set t"
  "ids_inv s \<Longrightarrow> ids_inv t \<Longrightarrow> ids_set (ids_diff s t) = ids_set s - ids_set t"
  by (simp_all add: ids_set_def ids_inv_def ids_none_def ids_upto_def ids_add_def
      ids_remove_def ids_union_def ids_inter_def ids_diff_def set_set_erase
      set_foldl_set_insert set_set_intersection set_set_difference)

lemma ids_has_iff [simp]: "ids_has s x \<longleftrightarrow> x \<in> ids_set s"
  by (simp add: ids_has_def ids_set_def)

lemma ids_empty_iff: "ids_empty s \<longleftrightarrow> ids_set s = {}"
  by (simp add: ids_empty_def ids_set_def)

lemma finite_ids_set [simp]: "finite (ids_set s)"
  by (simp add: ids_set_def)

lemma ids_size_card: "ids_inv s \<Longrightarrow> ids_size s = card (ids_set s)"
  by (simp add: ids_size_def ids_set_def ids_inv_def ascending_distinct distinct_card)

lemma ids_extensional: "ids_inv s \<Longrightarrow> ids_inv t \<Longrightarrow> ids_set s = ids_set t \<Longrightarrow> s = t"
  by (metis Identifiers.expand ascending_eq ids_inv_def ids_set_def)

lemma ids_add_remove: "ids_inv s \<Longrightarrow> x \<notin> ids_set s \<Longrightarrow> ids_remove (ids_add s x) x = s"
  by (rule ids_extensional) auto

lemma ids_add_present: "ids_inv s \<Longrightarrow> x \<in> ids_set s \<Longrightarrow> ids_add s x = s"
  by (rule ids_extensional) auto

lemma ids_front_Inr: "\<not> ids_empty s \<Longrightarrow> ids_inv s \<Longrightarrow> ids_front s = Inr (Min (ids_set s))"
proof -
  assume "\<not> ids_empty s" "ids_inv s"
  then obtain x xs where xs: "m_ids s = x # xs" "ascending (x # xs)"
    by (cases "m_ids s") (auto simp: ids_empty_def ids_inv_def)
  have "Min (insert x (set xs)) = x"
    by (rule Min_eqI) (use xs(2) in auto)
  then show ?thesis
    using xs by (simp add: ids_front_def ids_set_def)
qed

lemma ids_front_in: "ids_front s = Inr x \<Longrightarrow> x \<in> ids_set s"
  by (auto simp: ids_front_def ids_set_def split: list.splits)

lemma ids_pop_front_Inr:
  assumes "ids_pop_front s = Inr t" "ids_inv s"
  shows "ids_inv t \<and> (\<exists>x. ids_front s = Inr x \<and> x \<notin> ids_set t \<and> ids_set s = insert x (ids_set t))"
  using assms
  by (auto simp: ids_pop_front_def ids_front_def ids_set_def ids_inv_def split: list.splits)

section \<open>The contract the clients use\<close>

locale id_set =
  fixes has :: "'s \<Rightarrow> 'a \<Rightarrow> bool"
    and add :: "'s \<Rightarrow> 'a \<Rightarrow> 's"
    and rem :: "'s \<Rightarrow> 'a \<Rightarrow> 's"
    and inter :: "'s \<Rightarrow> 's \<Rightarrow> 's"
    and elems :: "'s \<Rightarrow> 'a set"
    and inv :: "'s \<Rightarrow> bool"
  assumes has: "inv s \<Longrightarrow> has s x \<longleftrightarrow> x \<in> elems s"
    and elems_add: "inv s \<Longrightarrow> elems (add s x) = insert x (elems s)"
    and elems_rem: "inv s \<Longrightarrow> elems (rem s x) = elems s - {x}"
    and elems_inter: "inv s \<Longrightarrow> inv t \<Longrightarrow> elems (inter s t) = elems s \<inter> elems t"
    and inv_add: "inv s \<Longrightarrow> inv (add s x)"
    and inv_rem: "inv s \<Longrightarrow> inv (rem s x)"
    and inv_inter: "inv s \<Longrightarrow> inv t \<Longrightarrow> inv (inter s t)"
begin

text \<open>
  Two sets that split a fixed universe, the bookkeeping of assigned and unassigned orders:
  moving an element from one to the other keeps them a split.
\<close>

lemma move_union:
  "inv a \<Longrightarrow> inv b \<Longrightarrow> x \<in> elems b \<Longrightarrow>
    elems (add a x) \<union> elems (rem b x) = elems a \<union> elems b"
  by (auto simp: elems_add elems_rem)

lemma move_disjoint:
  "inv a \<Longrightarrow> inv b \<Longrightarrow> elems a \<inter> elems b = {} \<Longrightarrow>
    elems (add a x) \<inter> elems (rem b x) = {}"
  by (auto simp: elems_add elems_rem)

lemma inter_subset: "inv s \<Longrightarrow> inv t \<Longrightarrow> elems (inter s t) \<subseteq> elems t"
  by (simp add: elems_inter)

end

text \<open>With an ordered walk: the first element is the least one and can be dropped.\<close>

locale ordered_id_set = id_set has add rem inter elems inv
  for has :: "'s \<Rightarrow> 'a :: linorder \<Rightarrow> bool" and add rem inter elems inv +
  fixes front :: "'s \<Rightarrow> 'a run"
    and pop :: "'s \<Rightarrow> 's run"
  assumes front_Inr: "inv s \<Longrightarrow> elems s \<noteq> {} \<Longrightarrow> front s = Inr (Min (elems s))"
    and front_empty: "inv s \<Longrightarrow> elems s = {} \<Longrightarrow> front s = Inl UndefinedBehaviour"
    and pop_Inr: "inv s \<Longrightarrow> front s = Inr x \<Longrightarrow> pop s = Inr (rem s x)"
    and finite_elems: "finite (elems s)"
begin

lemma front_elem: "inv s \<Longrightarrow> front s = Inr x \<Longrightarrow> x \<in> elems s"
  by (metis Inr_inject Inl_Inr_False Min_in finite_elems front_Inr front_empty)

lemma pop_smaller:
  assumes "inv s" "elems s \<noteq> {}"
  shows "\<exists>t. pop s = Inr t \<and> inv t \<and> card (elems t) < card (elems s)"
proof -
  let ?x = "Min (elems s)"
  have x: "?x \<in> elems s" using assms(2) by (simp add: finite_elems)
  have "pop s = Inr (rem s ?x)" by (rule pop_Inr) (use assms in \<open>auto simp: front_Inr\<close>)
  moreover have "card (elems (rem s ?x)) < card (elems s)"
    using x assms(1) by (metis elems_rem card_Diff1_less finite_elems)
  ultimately show ?thesis using assms(1) by (auto simp: inv_rem)
qed

end

interpretation ids: ordered_id_set
  ids_has ids_add ids_remove ids_inter ids_set ids_inv ids_front ids_pop_front
proof
  fix s :: "'a Identifiers" and x
  assume s: "ids_inv s"
  { assume "ids_set s = {}"
    then show "ids_front s = Inl UndefinedBehaviour"
      by (simp add: ids_front_def ids_set_def) }
  { assume "ids_front s = Inr x"
    then show "ids_pop_front s = Inr (ids_remove s x)"
      by (cases "m_ids s") (auto simp: ids_front_def ids_pop_front_def ids_remove_def) }
  { assume "ids_set s \<noteq> {}"
    then show "ids_front s = Inr (Min (ids_set s))"
      using s by (simp add: ids_front_Inr ids_empty_iff) }
qed auto

definition ids_split :: "'a :: linorder set \<Rightarrow> 'a Identifiers \<Rightarrow> 'a Identifiers \<Rightarrow> bool" where
  "ids_split U a b \<longleftrightarrow>
     ids_inv a \<and> ids_inv b \<and> ids_set a \<union> ids_set b = U \<and> ids_set a \<inter> ids_set b = {}"

lemma ids_split_move:
  "ids_split U a b \<Longrightarrow> x \<in> ids_set b \<Longrightarrow> ids_split U (ids_add a x) (ids_remove b x)"
  unfolding ids_split_def using ids.move_union[of a b x] ids.move_disjoint[of a b x]
  by (simp add: ids.inv_add ids.inv_rem)

end
