(* ===== verification/Orders.thy ===== *)
theory Orders
  imports Routes Identifiers
begin

text \<open>
  \<open>Order\<close> (\<open>include/vrp/order.hpp\<close>, \<open>src/pickDeliver/order.cpp\<close>): a pickup, its delivery and
  the orders that may be served before and after it, and \<open>PD_Orders\<close>
  (\<open>src/pickDeliver/pd_orders.cpp\<close>), the vector of all orders.  The pointer to the problem that
  \<open>PD_Orders\<close> reads is here the cost matrix and the list of nodes made so far.
\<close>

section \<open>Order\<close>

record Order = Identifier +
  m_pickup :: Vehicle_node
  m_delivery :: Vehicle_node
  m_compatibleJ :: "nat Identifiers"
  m_compatibleI :: "nat Identifiers"

definition Order_of :: "nat \<Rightarrow> int \<Rightarrow> Vehicle_node \<Rightarrow> Vehicle_node \<Rightarrow> Order" where
  "Order_of p_idx p_id p_pickup p_delivery =
     \<lparr>m_idx = p_idx, m_id = p_id, m_pickup = p_pickup, m_delivery = p_delivery,
      m_compatibleJ = ids_none, m_compatibleI = ids_none\<rparr>"

definition subsetI :: "Order \<Rightarrow> nat Identifiers \<Rightarrow> nat Identifiers" where
  "subsetI this I = ids_inter (m_compatibleI this) I"

definition subsetJ :: "Order \<Rightarrow> nat Identifiers \<Rightarrow> nat Identifiers" where
  "subsetJ this J = ids_inter (m_compatibleJ this) J"

definition order_is_valid :: "Dmatrix \<Rightarrow> Order \<Rightarrow> double \<Rightarrow> bool run" where
  "order_is_valid cm this speed =
     (if is_pickup (m_pickup this) \<and> is_delivery (m_delivery this)
      then is_compatible_IJ cm (m_delivery this) (m_pickup this) speed
      else Inr False)"

definition isCompatibleIJ :: "Dmatrix \<Rightarrow> Order \<Rightarrow> Order \<Rightarrow> double \<Rightarrow> bool run" where
  "isCompatibleIJ cm this I speed =
     bindE (andE (is_compatible_IJ cm (m_pickup this) (m_pickup I) speed)
                 (is_compatible_IJ cm (m_delivery this) (m_pickup I) speed)) (\<lambda>all_cases.
     bindE (andE (is_compatible_IJ cm (m_pickup this) (m_delivery I) speed)
                 (is_compatible_IJ cm (m_delivery this) (m_delivery I) speed)) (\<lambda>case1.
     bindE (andE (is_compatible_IJ cm (m_delivery I) (m_pickup this) speed)
                 (is_compatible_IJ cm (m_delivery this) (m_delivery I) speed)) (\<lambda>case2.
     bindE (andE (is_compatible_IJ cm (m_delivery I) (m_pickup this) speed)
                 (is_compatible_IJ cm (m_delivery I) (m_delivery this) speed)) (\<lambda>case3.
     Inr (all_cases \<and> (case1 \<or> case2 \<or> case3))))))"

definition order_set_compatibles :: "Dmatrix \<Rightarrow> double \<Rightarrow> Order \<Rightarrow> Order \<Rightarrow> Order run" where
  "order_set_compatibles cm speed J this =
     (if m_idx J = m_idx this then Inr this
      else bindE (isCompatibleIJ cm J this speed) (\<lambda>c.
           let this1 = (if c then this\<lparr>m_compatibleJ := ids_add (m_compatibleJ this) (m_idx J)\<rparr>
                        else this) in
           bindE (isCompatibleIJ cm this1 J speed) (\<lambda>c.
           Inr (if c then this1\<lparr>m_compatibleI := ids_add (m_compatibleI this1) (m_idx J)\<rparr>
                else this1))))"

section \<open>The vector of orders\<close>

type_synonym PD_Orders = "Order list"

text \<open>\<open>operator[]\<close> of \<open>PD_Orders\<close> asserts its bound.\<close>

definition orders_at :: "PD_Orders \<Rightarrow> nat \<Rightarrow> Order run" where
  "orders_at orders i = bindE (pgassert (i < length orders)) (\<lambda>_. Inr (orders ! i))"

definition add_order :: "Orders_t \<Rightarrow> Vehicle_node \<Rightarrow> Vehicle_node \<Rightarrow> PD_Orders \<Rightarrow> PD_Orders" where
  "add_order order p_pick p_drop orders =
     orders @ [Order_of (length orders) (o_id order) p_pick p_drop]"

definition build_order ::
    "Dmatrix \<Rightarrow> Orders_t \<Rightarrow> Vehicle_node list \<times> PD_Orders \<Rightarrow> (Vehicle_node list \<times> PD_Orders) run" where
  "build_order cm order = (\<lambda>(nodes, orders).
     if \<not> dm_has_id cm (pick_node_id order) then Inl (UnableToFindNode (pick_node_id order))
     else if \<not> dm_has_id cm (deliver_node_id order)
     then Inl (UnableToFindNode (deliver_node_id order))
     else
       let pickup = Vehicle_node_of (Tw_node_of_order (length nodes) order kPickup);
           nodes1 = nodes @ [pickup];
           delivery = Vehicle_node_of (Tw_node_of_order (length nodes1) order kDelivery);
           nodes2 = nodes1 @ [delivery]
       in Inr (nodes2, add_order order pickup delivery orders))"

definition build_orders ::
    "Dmatrix \<Rightarrow> Orders_t list \<Rightarrow> Vehicle_node list \<Rightarrow> (Vehicle_node list \<times> PD_Orders) run" where
  "build_orders cm pd_orders nodes = foldE (build_order cm) pd_orders (nodes, [])"

text \<open>\<open>set_compatibles\<close>: both loops run over the vector that the inner one updates.\<close>

definition orders_set_compatibles :: "Dmatrix \<Rightarrow> double \<Rightarrow> PD_Orders \<Rightarrow> PD_Orders run" where
  "orders_set_compatibles cm speed orders =
     foldE (\<lambda>i. foldE (\<lambda>j os.
              bindE (order_set_compatibles cm speed (os ! j) (os ! i)) (\<lambda>o'.
              Inr (os[i := o']))) [0..<length orders]) [0..<length orders] orders"

definition find_best_J :: "PD_Orders \<Rightarrow> nat Identifiers \<Rightarrow> nat run" where
  "find_best_J orders this_set =
     bindE (pgassert (\<not> ids_empty this_set)) (\<lambda>_.
     bindE (ids_front this_set) (\<lambda>front.
     bindE (foldE (\<lambda>i (max_size, best_order).
              bindE (nthE orders i) (\<lambda>order.
              let size_J = ids_size (subsetJ order this_set) in
              Inr (if max_size < size_J then (size_J, i) else (max_size, best_order))))
            (m_ids this_set) (0, front)) (\<lambda>(_, best_order).
     Inr best_order)))"

definition find_best_I :: "PD_Orders \<Rightarrow> nat Identifiers \<Rightarrow> nat run" where
  "find_best_I orders this_set =
     bindE (pgassert (\<not> ids_empty this_set)) (\<lambda>_.
     bindE (ids_front this_set) (\<lambda>front.
     bindE (foldE (\<lambda>i (max_size, best_order).
              bindE (nthE orders i) (\<lambda>order.
              let size_I = ids_size (subsetI order this_set) in
              Inr (if max_size < size_I then (size_I, i) else (max_size, best_order))))
            (m_ids this_set) (0, front)) (\<lambda>(_, best_order).
     Inr best_order)))"

section \<open>Facts\<close>

text \<open>The search for a maximum that both functions share.\<close>

lemma foldE_argmax:
  assumes "\<forall>i \<in> set xs. i < length orders"
  shows "\<exists>m b. foldE (\<lambda>i (max_size, best).
      bindE (nthE orders i) (\<lambda>order.
      let s = f order in Inr (if max_size < (s :: nat) then (s, i) else (max_size, best))))
      xs (m0, b0) = Inr (m, b) \<and>
    m0 \<le> m \<and> (\<forall>i \<in> set xs. f (orders ! i) \<le> m) \<and>
    ((m, b) = (m0, b0) \<or> b \<in> set xs \<and> f (orders ! b) = m)"
  using assms
proof (induction xs arbitrary: m0 b0)
  case (Cons i xs)
  show ?case
  proof (cases "m0 < f (orders ! i)")
    case True
    then show ?thesis
      using Cons.IH[of "f (orders ! i)" i] Cons.prems by (auto simp: Let_def)
  next
    case False
    then show ?thesis
      using Cons.IH[of m0 b0] Cons.prems by (force simp: Let_def)
  qed
qed simp

lemma find_best_aux:
  assumes "ids_inv this_set" "\<not> ids_empty this_set" "\<forall>i \<in> ids_set this_set. i < length orders"
  shows "\<exists>b. (bindE (ids_front this_set) (\<lambda>front.
     bindE (foldE (\<lambda>i (max_size, best_order).
              bindE (nthE orders i) (\<lambda>order.
              let s = f order in
              Inr (if max_size < (s :: nat) then (s, i) else (max_size, best_order))))
            (m_ids this_set) (0, front)) (\<lambda>(_, best_order).
     Inr best_order))) = Inr b \<and> b \<in> ids_set this_set \<and>
     (\<forall>i \<in> ids_set this_set. f (orders ! i) \<le> f (orders ! b))"
proof -
  obtain front where front: "ids_front this_set = Inr front" "front \<in> ids_set this_set"
    using assms ids_front_Inr[of this_set] ids_front_in by (metis)
  obtain m b where "foldE (\<lambda>i (max_size, best_order).
              bindE (nthE orders i) (\<lambda>order.
              let s = f order in
              Inr (if max_size < s then (s, i) else (max_size, best_order))))
            (m_ids this_set) (0, front) = Inr (m, b)"
      "\<forall>i \<in> set (m_ids this_set). f (orders ! i) \<le> m"
      "(m, b) = (0, front) \<or> b \<in> set (m_ids this_set) \<and> f (orders ! b) = m"
    using foldE_argmax[of "m_ids this_set" orders f 0 front] assms(3) by (auto simp: ids_set_def)
  then show ?thesis
    using front by (auto simp: ids_set_def)
qed

lemma find_best_J_spec:
  assumes "ids_inv this_set" "\<not> ids_empty this_set" "\<forall>i \<in> ids_set this_set. i < length orders"
  shows "\<exists>b. find_best_J orders this_set = Inr b \<and> b \<in> ids_set this_set \<and>
    (\<forall>i \<in> ids_set this_set. ids_size (subsetJ (orders ! i) this_set) \<le> ids_size (subsetJ (orders ! b) this_set))"
  using find_best_aux[OF assms, of "\<lambda>order. ids_size (subsetJ order this_set)"] assms(2)
  by (simp add: find_best_J_def)

lemma find_best_I_spec:
  assumes "ids_inv this_set" "\<not> ids_empty this_set" "\<forall>i \<in> ids_set this_set. i < length orders"
  shows "\<exists>b. find_best_I orders this_set = Inr b \<and> b \<in> ids_set this_set \<and>
    (\<forall>i \<in> ids_set this_set. ids_size (subsetI (orders ! i) this_set) \<le> ids_size (subsetI (orders ! b) this_set))"
  using find_best_aux[OF assms, of "\<lambda>order. ids_size (subsetI order this_set)"] assms(2)
  by (simp add: find_best_I_def)

end
