(* ===== verification/Vehicle_pickDelivers.thy ===== *)
theory Vehicle_pickDelivers
  imports Orders
begin

text \<open>
  \<open>Vehicle_pickDeliver\<close> (\<open>include/vrp/vehicle_pickDeliver.hpp\<close>,
  \<open>src/pickDeliver/vehicle_pickDeliver.cpp\<close>): a vehicle that carries whole orders, a pickup
  and its delivery.  This theory holds the code; its lemmas are in \<open>Pd_routes\<close>.
\<close>

section \<open>Kinds of initial solutions\<close>

datatype Initials_code =
  OneTruck | OnePerTruck | FrontTruck | BackTruck | BestInsert | BestBack | BestFront | OneDepot

fun kind_code :: "Initials_code \<Rightarrow> int" where
  "kind_code OneTruck = 0"
| "kind_code OnePerTruck = 1"
| "kind_code FrontTruck = 2"
| "kind_code BackTruck = 3"
| "kind_code BestInsert = 4"
| "kind_code BestBack = 5"
| "kind_code BestFront = 6"
| "kind_code OneDepot = 7"

lemma kind_code_inject: "kind_code k = kind_code k' \<Longrightarrow> k = k'"
  by (cases k; cases k') simp_all

text \<open>Enumerators are compared as the integers they stand for.\<close>

instantiation Initials_code :: linorder
begin

definition less_eq_Initials_code :: "Initials_code \<Rightarrow> Initials_code \<Rightarrow> bool" where
  "less_eq_Initials_code k k' \<longleftrightarrow> kind_code k \<le> kind_code k'"

definition less_Initials_code :: "Initials_code \<Rightarrow> Initials_code \<Rightarrow> bool" where
  "less_Initials_code k k' \<longleftrightarrow> kind_code k < kind_code k'"

instance
  by standard (auto simp: less_eq_Initials_code_def less_Initials_code_def intro: kind_code_inject)

end

text \<open>The cast of an integer to the enumeration, for the values that have an enumerator.\<close>

definition kind_of :: "int \<Rightarrow> Initials_code option" where
  "kind_of i = List.find (\<lambda>k. kind_code k = i)
     [OneTruck, OnePerTruck, FrontTruck, BackTruck, BestInsert, BestBack, BestFront, OneDepot]"

lemma kind_of_code: "kind_of (kind_code k) = Some k"
  by (cases k) (simp_all add: kind_of_def)

section \<open>The class\<close>

record Vehicle_pickDeliver = Vehicle +
  pd_cost :: double
  m_orders_in_vehicle :: "nat Identifiers"
  m_orders :: PD_Orders
  m_feasable_orders :: "nat Identifiers"

definition Vehicle_pickDeliver_of ::
    "Dmatrix \<Rightarrow> nat \<Rightarrow> int \<Rightarrow> Vehicle_node \<Rightarrow> Vehicle_node \<Rightarrow> double \<Rightarrow> double \<Rightarrow> double \<Rightarrow>
      Vehicle_pickDeliver run" where
  "Vehicle_pickDeliver_of cm p_idx p_id starting_site ending_site p_capacity p_speed factor =
     bindE (veh_construct cm starting_site ending_site
       \<lparr>m_idx = p_idx, m_id = p_id, m_path = [], m_capacity = p_capacity, m_factor = factor,
        m_speed = p_speed, pd_cost = dbl_max, m_orders_in_vehicle = ids_none, m_orders = [],
        m_feasable_orders = ids_none\<rparr>) (\<lambda>v.
     bindE (veh_invariant v) (\<lambda>_. Inr v))"

definition orders_size :: "Vehicle_pickDeliver \<Rightarrow> nat" where
  "orders_size v = ids_size (m_orders_in_vehicle v)"

definition has_order :: "Vehicle_pickDeliver \<Rightarrow> Order \<Rightarrow> bool" where
  "has_order v order \<longleftrightarrow> ids_has (m_orders_in_vehicle v) (m_idx order)"

definition carry :: "Order \<Rightarrow> Vehicle_pickDeliver \<Rightarrow> Vehicle_pickDeliver" where
  "carry order v = v\<lparr>m_orders_in_vehicle := ids_add (m_orders_in_vehicle v) (m_idx order)\<rparr>"

definition uncarry :: "Order \<Rightarrow> Vehicle_pickDeliver \<Rightarrow> Vehicle_pickDeliver" where
  "uncarry order v = v\<lparr>m_orders_in_vehicle := ids_remove (m_orders_in_vehicle v) (m_idx order)\<rparr>"

subsection \<open>Best insertion\<close>

text \<open>The best position so far: \<open>min_delta_duration\<close>, the two positions and \<open>found\<close>.\<close>

type_synonym Best = "double \<times> nat \<times> nat \<times> bool"

definition note_best :: "double \<Rightarrow> nat \<Rightarrow> nat \<Rightarrow> Vehicle_pickDeliver \<Rightarrow> Best \<Rightarrow> Best" where
  "note_best current_duration p d v best =
     (if is_feasable v
      then let delta_duration = duration v - current_duration in
           if delta_duration < fst best then (delta_duration, p, d, True) else best
      else best)"

function deliver_loop ::
    "Dmatrix \<Rightarrow> Order \<Rightarrow> double \<Rightarrow> nat \<Rightarrow> nat \<Rightarrow> nat \<Rightarrow> Vehicle_pickDeliver \<Rightarrow> Best \<Rightarrow>
      (Vehicle_pickDeliver \<times> Best) run" where
  "deliver_loop cm order current_duration p d high v best =
     (if d \<le> high
      then bindE (veh_insert cm d (m_delivery order) v) (\<lambda>v1.
           let v2 = carry order v1 in
           bindE (pgassert (has_order v2 order)) (\<lambda>_.
           let best' = note_best current_duration p d v2 best in
           bindE (veh_erase_at cm d v2) (\<lambda>v3.
           deliver_loop cm order current_duration p (Suc d) high v3 best')))
      else Inr (v, best))"
  by pat_completeness auto
termination
  by (relation "measure (\<lambda>(cm, order, c, p, d, high, v, b). Suc high - d)") auto

declare deliver_loop.simps [simp del]

function pickup_loop ::
    "Dmatrix \<Rightarrow> Order \<Rightarrow> double \<Rightarrow> nat \<times> nat \<Rightarrow> nat \<Rightarrow> nat \<Rightarrow> Vehicle_pickDeliver \<Rightarrow> Best \<Rightarrow>
      (Vehicle_pickDeliver \<times> Best) run" where
  "pickup_loop cm order current_duration deliver_pos p high v best =
     (if p \<le> high
      then bindE (veh_insert cm p (m_pickup order) v) (\<lambda>v1.
           let d = (if fst deliver_pos \<le> p then p + 1 else fst deliver_pos) in
           bindE (deliver_loop cm order current_duration p d (snd deliver_pos) v1 best) (\<lambda>(v2, best').
           bindE (veh_erase_at cm p v2) (\<lambda>v3.
           let v4 = uncarry order v3 in
           bindE (pgassert (\<not> has_order v4 order)) (\<lambda>_.
           pickup_loop cm order current_duration deliver_pos (Suc p) high v4 best'))))
      else Inr (v, best))"
  by pat_completeness auto
termination
  by (relation "measure (\<lambda>(cm, order, c, dp, p, high, v, b). Suc high - p)") auto

declare pickup_loop.simps [simp del]

definition pd_insert ::
    "Dmatrix \<Rightarrow> Order \<Rightarrow> Vehicle_pickDeliver \<Rightarrow> (bool \<times> Vehicle_pickDeliver) run" where
  "pd_insert cm order v =
     bindE (veh_invariant v) (\<lambda>_.
     bindE (pgassert (\<not> has_order v order)) (\<lambda>_.
     bindE (position_limits cm v (m_pickup order)) (\<lambda>pick_pos.
     bindE (position_limits cm v (m_delivery order)) (\<lambda>deliver_pos.
     if snd pick_pos < fst pick_pos then Inr (False, v)
     else if snd deliver_pos < fst deliver_pos then Inr (False, v)
     else
       let best0 = (dbl_max, length (m_path v), length (m_path v) + 1, False) in
       bindE (pickup_loop cm order (duration v) (fst deliver_pos + 1, snd deliver_pos + 1)
                (fst pick_pos) (snd pick_pos) v best0)
         (\<lambda>(v1, _, best_pick_pos, best_deliver_pos, found).
       bindE (pgassert (\<not> has_order v1 order)) (\<lambda>_.
       if \<not> found then Inr (False, v1)
       else
         bindE (veh_insert cm best_pick_pos (m_pickup order) v1) (\<lambda>v2.
         bindE (veh_insert cm best_deliver_pos (m_delivery order) v2) (\<lambda>v3.
         let v4 = carry order v3 in
         bindE (pgassert (is_feasable v4)) (\<lambda>_.
         bindE (pgassert (has_order v4 order)) (\<lambda>_.
         bindE (pgassert (\<not> has_cv v4)) (\<lambda>_.
         bindE (veh_invariant v4) (\<lambda>_. Inr (True, v4)))))))))))))"

subsection \<open>Other insertions and removal\<close>

definition pd_push_back ::
    "Dmatrix \<Rightarrow> Order \<Rightarrow> Vehicle_pickDeliver \<Rightarrow> Vehicle_pickDeliver run" where
  "pd_push_back cm order v =
     bindE (veh_invariant v) (\<lambda>_.
     bindE (pgassert (\<not> has_order v order)) (\<lambda>_.
     let v1 = carry order v;
         p1 = insert_at (length (m_path v1) - 1) (m_pickup order) (m_path v1);
         p2 = insert_at (length p1 - 1) (m_delivery order) p1 in
     bindE (evaluate_from cm (length p2 - 3) (v1\<lparr>m_path := p2\<rparr>)) (\<lambda>v2.
     bindE (pgassert (has_order v2 order)) (\<lambda>_.
     bindE (veh_invariant v2) (\<lambda>_. Inr v2)))))"

definition pd_push_front ::
    "Dmatrix \<Rightarrow> Order \<Rightarrow> Vehicle_pickDeliver \<Rightarrow> Vehicle_pickDeliver run" where
  "pd_push_front cm order v =
     bindE (veh_invariant v) (\<lambda>_.
     bindE (pgassert (\<not> has_order v order)) (\<lambda>_.
     let v1 = carry order v;
         p1 = insert_at 1 (m_delivery order) (m_path v1);
         p2 = insert_at 1 (m_pickup order) p1 in
     bindE (evaluate_from cm 1 (v1\<lparr>m_path := p2\<rparr>)) (\<lambda>v2.
     bindE (pgassert (has_order v2 order)) (\<lambda>_.
     bindE (veh_invariant v2) (\<lambda>_. Inr v2)))))"

definition pd_erase :: "Dmatrix \<Rightarrow> Order \<Rightarrow> Vehicle_pickDeliver \<Rightarrow> Vehicle_pickDeliver run" where
  "pd_erase cm order v =
     bindE (veh_invariant v) (\<lambda>_.
     bindE (pgassert (has_order v order)) (\<lambda>_.
     bindE (veh_erase cm (m_pickup order) v) (\<lambda>v1.
     bindE (veh_erase cm (m_delivery order) v1) (\<lambda>v2.
     let v3 = uncarry order v2 in
     bindE (veh_invariant v3) (\<lambda>_.
     bindE (pgassert (\<not> has_order v3 order)) (\<lambda>_. Inr v3))))))"

text \<open>
  The loop of \<open>semiLIFO\<close> walks the upper limit down; at 0 the unsigned counter would wrap and the
  next insertion fails its assertion.
\<close>

function semiLIFO_loop ::
    "Dmatrix \<Rightarrow> Order \<Rightarrow> nat \<Rightarrow> nat \<Rightarrow> Vehicle_pickDeliver \<Rightarrow> (bool \<times> Vehicle_pickDeliver) run" where
  "semiLIFO_loop cm order low high v =
     (if low \<le> high
      then bindE (veh_insert cm high (m_delivery order) v) (\<lambda>v1.
           bindE (if is_feasable v1
                  then bindE (nthE (m_path v1) (high + 1)) (\<lambda>n. Inr (\<not> is_pickup n))
                  else Inr False) (\<lambda>suitable.
           if suitable then
             let v2 = carry order v1 in
             bindE (pgassert (has_order v2 order)) (\<lambda>_.
             bindE (pgassert (is_feasable v2)) (\<lambda>_.
             bindE (pgassert (\<not> has_cv v2)) (\<lambda>_.
             bindE (pgassert (\<not> has_twv v2)) (\<lambda>_.
             bindE (veh_invariant v2) (\<lambda>_. Inr (True, v2))))))
           else
             bindE (veh_erase_at cm high v1) (\<lambda>v2.
             if high = 0 then Inl AssertFailed
             else semiLIFO_loop cm order low (high - 1) v2)))
      else
        bindE (veh_erase_at cm 1 v) (\<lambda>v1.
        bindE (pgassert (\<not> has_order v1 order)) (\<lambda>_.
        bindE (veh_invariant v1) (\<lambda>_. Inr (False, v1)))))"
  by pat_completeness auto
termination
  by (relation "measure (\<lambda>(cm, order, low, high, v). high)") auto

declare semiLIFO_loop.simps [simp del]

definition pd_semiLIFO ::
    "Dmatrix \<Rightarrow> Order \<Rightarrow> Vehicle_pickDeliver \<Rightarrow> (bool \<times> Vehicle_pickDeliver) run" where
  "pd_semiLIFO cm order v =
     bindE (veh_invariant v) (\<lambda>_.
     bindE (pgassert (\<not> has_order v order)) (\<lambda>_.
     bindE (veh_insert cm 1 (m_pickup order) v) (\<lambda>v1.
     bindE (drop_position_limits cm v1 (m_delivery order)) (\<lambda>(low, high).
     if high < low then
       bindE (veh_erase_at cm 1 v1) (\<lambda>v2.
       bindE (veh_invariant v2) (\<lambda>_. Inr (False, v2)))
     else
       bindE (pgassert (\<not> has_order v1 order)) (\<lambda>_.
       semiLIFO_loop cm order low high v1)))))"

subsection \<open>Feasible orders\<close>

definition is_order_feasable :: "Dmatrix \<Rightarrow> Order \<Rightarrow> Vehicle_pickDeliver \<Rightarrow> bool run" where
  "is_order_feasable cm order v =
     bindE (pd_push_back cm order v) (\<lambda>test_truck. Inr (is_feasable test_truck))"

definition veh_set_compatibles ::
    "Dmatrix \<Rightarrow> PD_Orders \<Rightarrow> Vehicle_pickDeliver \<Rightarrow> Vehicle_pickDeliver run" where
  "veh_set_compatibles cm orders v =
     bindE (foldE (\<lambda>order v.
              bindE (is_order_feasable cm order v) (\<lambda>f.
              Inr (if f then v\<lparr>m_feasable_orders := ids_add (m_feasable_orders v) (m_idx order)\<rparr>
                   else v))) orders (v\<lparr>m_orders := orders\<rparr>)) (\<lambda>v1.
     bindE (orders_set_compatibles cm (veh_speed v1) (m_orders v1)) (\<lambda>os.
     Inr (v1\<lparr>m_orders := os\<rparr>)))"

subsection \<open>Filling a vehicle\<close>

text \<open>The \<open>switch\<close> for the kinds that stay in the loop: the order tried and the new vehicle.\<close>

definition try_kind ::
    "Dmatrix \<Rightarrow> Initials_code \<Rightarrow> nat Identifiers \<Rightarrow> Order \<Rightarrow> Vehicle_pickDeliver \<Rightarrow>
      (Order \<times> Vehicle_pickDeliver) run" where
  "try_kind cm kind current_feasable order v =
     (case kind of
        FrontTruck \<Rightarrow> bindE (pd_push_front cm order v) (\<lambda>v1. Inr (order, v1))
      | BackTruck \<Rightarrow> bindE (pd_push_back cm order v) (\<lambda>v1. Inr (order, v1))
      | BestInsert \<Rightarrow> bindE (pd_insert cm order v) (\<lambda>(_, v1). Inr (order, v1))
      | BestBack \<Rightarrow>
          bindE (find_best_J (m_orders v) current_feasable) (\<lambda>i.
          bindE (orders_at (m_orders v) i) (\<lambda>o'.
          bindE (pd_insert cm o' v) (\<lambda>(_, v1). Inr (o', v1))))
      | BestFront \<Rightarrow>
          bindE (find_best_I (m_orders v) current_feasable) (\<lambda>i.
          bindE (orders_at (m_orders v) i) (\<lambda>o'.
          bindE (pd_insert cm o' v) (\<lambda>(_, v1). Inr (o', v1))))
      | OneDepot \<Rightarrow> bindE (pd_semiLIFO cm order v) (\<lambda>(_, v1). Inr (order, v1))
      | _ \<Rightarrow> Inl AssertFailed)"

text \<open>One round after the \<open>switch\<close>: the vehicle, the two sets and \<open>current_feasable\<close>.\<close>

type_synonym Fill = "Vehicle_pickDeliver \<times> nat Identifiers \<times> nat Identifiers"

definition settle ::
    "Dmatrix \<Rightarrow> Initials_code \<Rightarrow> nat Identifiers \<Rightarrow> Order \<Rightarrow> Vehicle_pickDeliver \<Rightarrow>
      nat Identifiers \<Rightarrow> nat Identifiers \<Rightarrow> (Fill \<times> nat Identifiers) run" where
  "settle cm kind current_feasable order v unassigned assigned =
     bindE (pgassert (\<not> (orders_size v = 1 \<and> \<not> is_feasable v))) (\<lambda>_.
     bindE
       (if \<not> is_feasable v
        then bindE (pd_erase cm order v) (\<lambda>v1. Inr ((v1, unassigned, assigned), current_feasable))
        else if has_order v order
        then bindE (if kind = BestBack
                    then bindE (orders_at (m_orders v) (m_idx order)) (\<lambda>o'.
                         Inr (subsetJ o' current_feasable))
                    else Inr current_feasable) (\<lambda>c1.
             bindE (if kind = BestFront
                    then bindE (orders_at (m_orders v) (m_idx order)) (\<lambda>o'.
                         Inr (subsetI o' c1))
                    else Inr c1) (\<lambda>c2.
             Inr ((v, ids_remove unassigned (m_idx order), ids_add assigned (m_idx order)), c2)))
        else Inr ((v, unassigned, assigned), current_feasable)) (\<lambda>((v1, u, a), c).
     bindE (veh_invariant v1) (\<lambda>_.
     Inr ((v1, u, a), ids_remove c (m_idx order)))))"

text \<open>The loop, with a bound on its rounds; see \<open>do_while_feasable\<close>.\<close>

fun fill_loop ::
    "Dmatrix \<Rightarrow> Initials_code \<Rightarrow> nat \<Rightarrow> nat Identifiers \<Rightarrow> Fill \<Rightarrow> Fill run" where
  "fill_loop cm kind fuel current_feasable (v, unassigned, assigned) =
     (if ids_empty current_feasable
      then bindE (pgassert (is_feasable v)) (\<lambda>_.
           bindE (veh_invariant v) (\<lambda>_. Inr (v, unassigned, assigned)))
      else case fuel of 0 \<Rightarrow> Inl Diverges | Suc fuel' \<Rightarrow>
        bindE (ids_front current_feasable) (\<lambda>i.
        bindE (orders_at (m_orders v) i) (\<lambda>order.
        if kind = OnePerTruck then
          bindE (pd_push_back cm order v) (\<lambda>v1.
          bindE (pgassert (is_feasable v1)) (\<lambda>_.
          bindE (veh_invariant v1) (\<lambda>_.
          Inr (v1, ids_remove unassigned (m_idx order), ids_add assigned (m_idx order)))))
        else
          bindE (try_kind cm kind current_feasable order v) (\<lambda>(order', v1).
          bindE (settle cm kind current_feasable order' v1 unassigned assigned) (\<lambda>(st, c).
          fill_loop cm kind fuel' c st)))))"

declare fill_loop.simps [simp del]

text \<open>Each round removes an order from \<open>current_feasable\<close>: its size bounds the rounds.\<close>

definition do_while_feasable ::
    "Dmatrix \<Rightarrow> Initials_code \<Rightarrow> Fill \<Rightarrow> Fill run" where
  "do_while_feasable cm kind = (\<lambda>(v, unassigned, assigned).
     bindE (pgassert (is_feasable v)) (\<lambda>_.
     let current_feasable = ids_inter (m_feasable_orders v) unassigned in
     fill_loop cm kind (ids_size current_feasable) current_feasable (v, unassigned, assigned)))"

end
