(* ===== verification/Pd_routes.thy ===== *)
theory Pd_routes
  imports Vehicle_pickDelivers "HOL-Library.Sublist"
begin

text \<open>
  Lemmas about \<open>Vehicle_pickDeliver\<close>: the search of \<open>insert\<close> leaves the vehicle as it was and
  ends at a cheapest pair of positions, every operation keeps the invariant \<open>pd_wf\<close> (each order
  of the vehicle is picked up once, delivered once and in that order), and \<open>do_while_feasable\<close>
  ends and moves orders from one set to the other.
\<close>

section \<open>Vehicles and the orders they carry\<close>

lemma uncarry_carry_fields [simp]:
  "m_path (carry q v) = m_path v" "m_path (uncarry q v) = m_path v"
  "m_capacity (carry q v) = m_capacity v" "m_capacity (uncarry q v) = m_capacity v"
  "veh_speed (carry q v) = veh_speed v" "veh_speed (uncarry q v) = veh_speed v"
  "m_orders (carry q v) = m_orders v" "m_orders (uncarry q v) = m_orders v"
  "m_idx (carry q v) = m_idx v" "m_idx (uncarry q v) = m_idx v"
  "m_id (carry q v) = m_id v" "m_id (uncarry q v) = m_id v"
  "m_feasable_orders (carry q v) = m_feasable_orders v"
  "m_feasable_orders (uncarry q v) = m_feasable_orders v"
  "m_orders_in_vehicle (carry q v) = ids_add (m_orders_in_vehicle v) (m_idx q)"
  "m_orders_in_vehicle (uncarry q v) = ids_remove (m_orders_in_vehicle v) (m_idx q)"
  by (simp_all add: carry_def uncarry_def veh_speed_def)

lemma via_fields [simp]:
  "m_orders (via cm v ss) = m_orders v"
  "m_orders_in_vehicle (via cm v ss) = m_orders_in_vehicle v"
  "m_feasable_orders (via cm v ss) = m_feasable_orders v"
  by (simp_all add: via_def)

lemma carry_simps [simp]:
  "sites (carry q v) = sites v" "sites (uncarry q v) = sites v"
  "veh_wf cm (carry q v) = veh_wf cm v" "veh_wf cm (uncarry q v) = veh_wf cm v"
  "is_feasable (carry q v) = is_feasable v" "is_feasable (uncarry q v) = is_feasable v"
  "duration (carry q v) = duration v" "duration (uncarry q v) = duration v"
  "has_cv (carry q v) = has_cv v" "has_twv (carry q v) = has_twv v"
  "veh_invariant (carry q v) = veh_invariant v" "veh_invariant (uncarry q v) = veh_invariant v"
  by (simp_all add: sites_def veh_wf_def is_feasable_def has_twv_def has_cv_def twvTot_def cvTot_def
      duration_def veh_invariant_def)

lemma via_carry: "via cm (carry q v) ss = carry q (via cm v ss)"
  by (simp add: via_def carry_def veh_speed_def)

lemma set_insert_idem: "set_insert x (set_insert x xs) = set_insert x xs"
  by (induction xs) auto

lemma carry_carry [simp]: "carry q (carry q v) = carry q v"
  by (simp add: carry_def ids_add_def set_insert_idem)

lemma has_order_carry [simp]: "has_order (carry q v) q"
  by (simp add: has_order_def)

lemma has_order_via [simp]: "has_order (via cm v ss) q = has_order v q"
  by (simp add: has_order_def)

lemma uncarry_carry:
  "ids_inv (m_orders_in_vehicle v) \<Longrightarrow> \<not> has_order v q \<Longrightarrow> uncarry q (carry q v) = v"
  by (simp add: uncarry_def carry_def has_order_def ids_add_remove)

lemma set_erase_absent: "x \<notin> set xs \<Longrightarrow> set_erase x xs = xs"
  by (induction xs) auto

lemma uncarry_absent: "\<not> has_order v q \<Longrightarrow> uncarry q v = v"
  by (cases v; cases "m_orders_in_vehicle v")
     (auto simp: uncarry_def has_order_def ids_remove_def ids_set_def set_erase_absent)

lemma note_best_carry [simp]: "note_best c p d (carry q v) = note_best c p d v"
  by (rule ext) (simp add: note_best_def)

section \<open>The search of \<open>insert\<close>\<close>

text \<open>The sites with the order's pickup at \<open>p\<close> and, after that, its delivery at \<open>d\<close>.\<close>

definition with_order :: "Order \<Rightarrow> Tw_node list \<Rightarrow> nat \<Rightarrow> nat \<Rightarrow> Tw_node list" where
  "with_order order ss p d =
     insert_at d (site (m_delivery order)) (insert_at p (site (m_pickup order)) ss)"

lemma deliver_loop_eq:
  assumes "veh_wf cm v" "inner cm (m_delivery order)" "0 < d" "high < length (m_path v)"
  shows "deliver_loop cm order c p d high v best =
    Inr (if d \<le> high then carry order v else v,
      fold (\<lambda>d. note_best c p d (via cm v (insert_at d (site (m_delivery order)) (sites v))))
        [d..<Suc high] best)"
  using assms
proof (induction cm order c p d high v best rule: deliver_loop.induct)
  case (1 cm order c p d high v best)
  let ?w = "via cm v (insert_at d (site (m_delivery order)) (sites v))"
  show ?case
  proof (cases "d \<le> high")
    case True
    have ins: "veh_insert cm d (m_delivery order) v = Inr ?w"
      using "1.prems" True by (intro veh.ins_law) auto
    have wf: "veh_wf cm ?w" "sites ?w = insert_at d (site (m_delivery order)) (sites v)"
      using veh.ins_spec[of cm v d "m_delivery order"] "1.prems" True ins by auto
    have len: "length (m_path ?w) = Suc (length (m_path v))"
      using wf(2) "1.prems" True by (metis length_insert_at length_sites less_imp_le order.strict_trans1)
    have "veh_erase_at cm d (carry order ?w) =
        Inr (via cm (carry order ?w) (erase_at d (sites (carry order ?w))))"
      using "1.prems" True wf(1) len by (intro veh.del_law) auto
    also have "via cm (carry order ?w) (erase_at d (sites (carry order ?w))) = carry order v"
      using "1.prems" True wf(2) by (simp add: via_carry)
    finally have del: "veh_erase_at cm d (carry order ?w) = Inr (carry order v)" .
    have "deliver_loop cm order c p (Suc d) high (carry order v) (note_best c p d (carry order ?w) best)
      = Inr (if Suc d \<le> high then carry order (carry order v) else carry order v,
         fold (\<lambda>d. note_best c p d (via cm (carry order v)
             (insert_at d (site (m_delivery order)) (sites (carry order v)))))
           [Suc d..<Suc high] (note_best c p d (carry order ?w) best))"
      by (rule "1.IH"[OF True ins refl]) (use "1.prems" del in \<open>simp_all\<close>)
    then show ?thesis
      using True ins del
      by (subst deliver_loop.simps) (simp add: via_carry Let_def upt_conv_Cons[of d] del: upt_Suc)
  next
    case False
    then show ?thesis
      by (subst deliver_loop.simps) simp
  qed
qed

lemma pickup_loop_eq:
  assumes "veh_wf cm v" "inner cm (m_pickup order)" "inner cm (m_delivery order)"
    and "0 < p" "high < length (m_path v)" "snd dp \<le> length (m_path v)"
    and "ids_inv (m_orders_in_vehicle v)" "\<not> has_order v order"
  shows "pickup_loop cm order c dp p high v best = Inr (v,
    fold (\<lambda>p. fold (\<lambda>d. note_best c p d (via cm v (with_order order (sites v) p d)))
        [if fst dp \<le> p then p + 1 else fst dp ..< Suc (snd dp)]) [p..<Suc high] best)"
  using assms
proof (induction cm order c dp p high v best rule: pickup_loop.induct)
  case (1 cm order c dp p high v best)
  let ?w = "via cm v (insert_at p (site (m_pickup order)) (sites v))"
  let ?d = "if fst dp \<le> p then p + 1 else fst dp"
  show ?case
  proof (cases "p \<le> high")
    case True
    have ins: "veh_insert cm p (m_pickup order) v = Inr ?w"
      using "1.prems" True by (intro veh.ins_law) auto
    have wf: "veh_wf cm ?w" "sites ?w = insert_at p (site (m_pickup order)) (sites v)"
      using veh.ins_spec[of cm v p "m_pickup order"] "1.prems" True ins by auto
    have len: "length (m_path ?w) = Suc (length (m_path v))"
      using wf(2) "1.prems" True by (metis length_insert_at length_sites less_imp_le order.strict_trans1)
    define w' where "w' = (if ?d \<le> snd dp then carry order ?w else ?w)"
    define b' where "b' = fold (\<lambda>d. note_best c p d (via cm v (with_order order (sites v) p d)))
        [?d ..< Suc (snd dp)] best"
    have loop: "deliver_loop cm order c p ?d (snd dp) ?w best = Inr (w', b')"
      using deliver_loop_eq[of cm ?w order ?d "snd dp" c p best] wf len "1.prems" True
      by (simp add: w'_def b'_def with_order_def)
    have w': "veh_wf cm w'" "sites w' = sites ?w" "length (m_path w') = length (m_path ?w)"
      using wf(1) by (auto simp: w'_def)
    have "veh_erase_at cm p w' = Inr (via cm w' (erase_at p (sites w')))"
      using "1.prems" True w' len by (intro veh.del_law) auto
    moreover have "erase_at p (sites w') = sites v"
      using w'(2) wf(2) "1.prems" True by simp
    ultimately have del: "veh_erase_at cm p w' = Inr (if ?d \<le> snd dp then carry order v else v)"
      using "1.prems"(1) by (simp add: w'_def via_carry)
    have un: "uncarry order (if ?d \<le> snd dp then carry order v else v) = v"
      using "1.prems"(7,8) by (simp add: uncarry_carry uncarry_absent)
    have "pickup_loop cm order c dp (Suc p) high v b' = Inr (v,
      fold (\<lambda>p. fold (\<lambda>d. note_best c p d (via cm v (with_order order (sites v) p d)))
        [if fst dp \<le> p then p + 1 else fst dp ..< Suc (snd dp)]) [Suc p..<Suc high] b')"
      using "1.IH"[OF True ins refl loop refl del refl, unfolded un] "1.prems" by simp
    then show ?thesis
      using True ins loop del un "1.prems"(8)
      by (subst pickup_loop.simps)
         (simp add: Let_def upt_conv_Cons[of p] b'_def del: upt_Suc)
  next
    case False
    then show ?thesis
      by (subst pickup_loop.simps) simp
  qed
qed


lemma fold_nested:
  "fold (\<lambda>p. fold (g p) (ds p)) ps b =
     fold (\<lambda>(p, d). g p d) (concat (map (\<lambda>p. map (Pair p) (ds p)) ps)) b"
  by (induction ps arbitrary: b) (simp_all add: fold_map o_def)

text \<open>What the kept pair is after all the pairs \<open>C\<close> have been tried.\<close>

definition best_of ::
    "double \<Rightarrow> (nat \<Rightarrow> nat \<Rightarrow> Vehicle_pickDeliver) \<Rightarrow> double \<Rightarrow> (nat \<times> nat) set \<Rightarrow> Best \<Rightarrow> bool" where
  "best_of c W m0 C best \<longleftrightarrow>
     (\<forall>(p, d) \<in> C. is_feasable (W p d) \<longrightarrow> \<not> duration (W p d) - c < fst best) \<and>
     (case best of (m, p, d, found) \<Rightarrow>
        if found then (p, d) \<in> C \<and> is_feasable (W p d) \<and> m = duration (W p d) - c \<and> m < m0
        else m = m0)"

lemma best_of_step:
  assumes "best_of c W m0 C best"
  shows "best_of c W m0 (insert (p, d) C) (note_best c p d (W p d) best)"
proof (cases "is_feasable (W p d) \<and> duration (W p d) - c < fst best")
  case True
  then have "duration (W p d) - c < m0"
    using assms dbl_less_trans unfolding best_of_def by (force split: prod.splits if_splits)
  moreover have "\<not> duration (W p' d') - c < duration (W p d) - c"
    if "(p', d') \<in> C" "is_feasable (W p' d')" for p' d'
    using that assms True dbl_less_trans unfolding best_of_def by blast
  ultimately show ?thesis
    using True by (auto simp: best_of_def note_best_def Let_def)
next
  case False
  then have "note_best c p d (W p d) best = best"
    by (auto simp: note_best_def Let_def)
  then show ?thesis
    using assms False by (cases best) (auto simp: best_of_def split: if_splits)
qed

lemma best_of_fold:
  assumes "best_of c W m0 C best"
  shows "best_of c W m0 (set ps \<union> C) (fold (\<lambda>(p, d). note_best c p d (W p d)) ps best)"
  using assms
proof (induction ps arbitrary: C best)
  case (Cons pd ps)
  obtain p d where "pd = (p, d)" by (cases pd)
  then show ?case
    using Cons.IH[OF best_of_step[OF Cons.prems, of p d]] by simp
qed simp

text \<open>
  The pairs of positions that compatibility admits: the pickup at \<open>p\<close>, the delivery behind it at
  \<open>d\<close>, counted in the path that holds the pickup.
\<close>

definition slots :: "Dmatrix \<Rightarrow> Vehicle_pickDeliver \<Rightarrow> Order \<Rightarrow> (nat \<times> nat) set" where
  "slots cm v order =
     {(p, d). p < d \<and> d \<le> length (m_path v) \<and> admits cm v (m_pickup order) p \<and>
        admits cm v (m_delivery order) (d - 1)}"

lemma slots_limits:
  assumes "h < length (m_path v)" "k < length (m_path v)" "0 < l" "0 < j"
    and "\<forall>i \<le> length (m_path v). l \<le> i \<and> i \<le> h \<longleftrightarrow> admits cm v (m_pickup order) i"
    and "\<forall>i \<le> length (m_path v). j \<le> i \<and> i \<le> k \<longleftrightarrow> admits cm v (m_delivery order) i"
  shows "slots cm v order =
    set (concat (map (\<lambda>p. map (Pair p) [if j + 1 \<le> p then p + 1 else j + 1 ..< Suc (k + 1)])
      [l..<Suc h]))" (is "?lhs = ?rhs")
proof (rule set_eqI)
  fix x :: "nat \<times> nat"
  obtain p d where x: "x = (p, d)" by (cases x)
  have "x \<in> ?rhs \<longleftrightarrow> l \<le> p \<and> p \<le> h \<and> p < d \<and> j < d \<and> d \<le> Suc k"
  proof
    assume "l \<le> p \<and> p \<le> h \<and> p < d \<and> j < d \<and> d \<le> Suc k"
    then have "p \<in> {l..<Suc h}" "d \<in> {if j + 1 \<le> p then p + 1 else j + 1 ..< Suc (k + 1)}"
      by auto
    then have "(p, d) \<in> Pair p ` {if j + 1 \<le> p then p + 1 else j + 1 ..< Suc (k + 1)}"
      by simp
    moreover have "?rhs = (\<Union>p \<in> {l..<Suc h}.
        Pair p ` {if j + 1 \<le> p then p + 1 else j + 1 ..< Suc (k + 1)})"
      by (simp del: upt_Suc)
    ultimately show "x \<in> ?rhs"
      unfolding x using \<open>p \<in> {l..<Suc h}\<close> by (metis (no_types, lifting) UN_I)
  qed (auto simp: x simp del: upt_Suc split: if_splits)
  also have "\<dots> \<longleftrightarrow> p < d \<and> d \<le> length (m_path v) \<and> (l \<le> p \<and> p \<le> h) \<and> (j \<le> d - 1 \<and> d - 1 \<le> k)"
    using assms(1,2) by auto
  also have "\<dots> \<longleftrightarrow> x \<in> ?lhs"
  proof -
    have "l \<le> p \<and> p \<le> h \<longleftrightarrow> admits cm v (m_pickup order) p"
      and "j \<le> d - 1 \<and> d - 1 \<le> k \<longleftrightarrow> admits cm v (m_delivery order) (d - 1)"
      if "p < d" "d \<le> length (m_path v)"
      using assms(5)[rule_format, of p] assms(6)[rule_format, of "d - 1"] that by simp_all
    then show ?thesis by (auto simp: slots_def x)
  qed
  finally show "x \<in> ?lhs \<longleftrightarrow> x \<in> ?rhs" by simp
qed

lemma with_order_shape:
  assumes "veh_wf cm v" "inner cm (m_pickup order)" "inner cm (m_delivery order)"
    and "0 < p" "p < d" "d \<le> length (m_path v)"
  shows "route_shape cm (with_order order (sites v) p d)"
    "bindE (veh_insert cm p (m_pickup order) v) (veh_insert cm d (m_delivery order)) =
       Inr (via cm v (with_order order (sites v) p d))"
  using veh.ins_pair[of cm v p d "m_pickup order" "m_delivery order"] assms
  by (simp_all add: with_order_def)

lemma slots_pos:
  assumes "veh_wf cm v" "(p, d) \<in> slots cm v order"
  shows "0 < p" "p < d" "d \<le> length (m_path v)"
proof -
  show "p < d" "d \<le> length (m_path v)" using assms(2) by (auto simp: slots_def)
  have "\<not> admits cm v (m_pickup order) 0"
    using veh_wf_ends(1)[OF assms(1)] veh_wf_nonempty[OF assms(1)]
    by (auto simp: admits_def intro!: exI[of _ 0])
  then show "0 < p" using assms(2) by (auto simp: slots_def intro: gr0I)
qed

lemma pd_insert_spec:
  fixes v :: Vehicle_pickDeliver
  assumes "veh_wf cm v" "ids_inv (m_orders_in_vehicle v)" "\<not> has_order v order"
    and "inner cm (m_pickup order)" "inner cm (m_delivery order)"
  defines "W \<equiv> \<lambda>p d. via cm v (with_order order (sites v) p d)"
  shows "(\<exists>p d. (p, d) \<in> slots cm v order \<and> is_feasable (W p d) \<and>
      pd_insert cm order v = Inr (True, carry order (W p d)) \<and>
      (\<forall>(p', d') \<in> slots cm v order. is_feasable (W p' d') \<longrightarrow>
        \<not> duration (W p' d') - duration v < duration (W p d) - duration v)) \<or>
    pd_insert cm order v = Inr (False, v) \<and>
      (\<forall>(p, d) \<in> slots cm v order. is_feasable (W p d) \<longrightarrow>
        \<not> duration (W p d) - duration v < dbl_max)"
proof -
  obtain l h where lh: "position_limits cm v (m_pickup order) = Inr (l, h)" "0 < l"
      "h < length (m_path v)"
      "\<forall>i \<le> length (m_path v). l \<le> i \<and> i \<le> h \<longleftrightarrow> admits cm v (m_pickup order) i"
    using position_limits_spec[OF assms(1), of "m_pickup order"] assms(4) by (auto simp: inner_def)
  obtain j k where jk: "position_limits cm v (m_delivery order) = Inr (j, k)" "0 < j"
      "k < length (m_path v)"
      "\<forall>i \<le> length (m_path v). j \<le> i \<and> i \<le> k \<longleftrightarrow> admits cm v (m_delivery order) i"
    using position_limits_spec[OF assms(1), of "m_delivery order"] assms(5) by (auto simp: inner_def)
  define C where "C = concat (map (\<lambda>p. map (Pair p)
    [if j + 1 \<le> p then p + 1 else j + 1 ..< Suc (k + 1)]) [l..<Suc h])"
  have C: "slots cm v order = set C"
    unfolding C_def by (rule slots_limits[OF lh(3) jk(3) lh(2) jk(2) lh(4) jk(4)])
  let ?b0 = "(dbl_max, length (m_path v), length (m_path v) + 1, False)"
  define b where "b = fold (\<lambda>(p, d). note_best (duration v) p d (W p d)) C ?b0"
  have loop: "pickup_loop cm order (duration v) (j + 1, k + 1) l h v ?b0 = Inr (v, b)"
    using pickup_loop_eq[of cm v order l h "(j + 1, k + 1)" "duration v" ?b0] assms lh(2,3) jk(3)
    by (simp add: b_def C_def fold_nested W_def del: upt_Suc cong: if_cong)
  have inv: "veh_invariant v = Inr ()" using assms(1) by (rule veh_invariant_wf)
  have "best_of (duration v) W dbl_max {} ?b0" by (simp add: best_of_def)
  from best_of_fold[OF this, of C]
  have best: "best_of (duration v) W dbl_max (slots cm v order) b"
    by (simp add: b_def C)
  obtain m p d found where b: "b = (m, p, d, found)" by (cases b)
  consider "h < l \<or> k < j" | "\<not> (h < l \<or> k < j)" "\<not> found" | "\<not> (h < l \<or> k < j)" "found"
    by blast
  then show ?thesis
  proof cases
    case 1
    then have "slots cm v order = {}"
    proof -
      have False if "(p, d) \<in> slots cm v order" for p d
        using that 1 lh(4)[rule_format, of p] jk(4)[rule_format, of "d - 1"]
        by (simp add: slots_def) linarith
      then show ?thesis by auto
    qed
    moreover have "pd_insert cm order v = Inr (False, v)"
      using 1 inv assms(3) lh(1) jk(1) by (auto simp: pd_insert_def)
    ultimately show ?thesis by simp
  next
    case 2
    have "pd_insert cm order v = Inr (False, v)"
      using 2 inv assms(3) lh(1) jk(1) loop b by (simp add: pd_insert_def)
    then show ?thesis using best 2(2) b by (auto simp: best_of_def)
  next
    case 3
    have s: "(p, d) \<in> slots cm v order" "is_feasable (W p d)"
        "m = duration (W p d) - duration v"
      using best 3(2) b by (auto simp: best_of_def)
    note pos = slots_pos[OF assms(1) s(1)]
    have pair: "bindE (veh_insert cm p (m_pickup order) v) (veh_insert cm d (m_delivery order)) =
        Inr (W p d)"
      using with_order_shape(2)[OF assms(1,4,5) pos] by (simp add: W_def)
    then obtain v2 where v2: "veh_insert cm p (m_pickup order) v = Inr v2"
        "veh_insert cm d (m_delivery order) v2 = Inr (W p d)"
      by auto
    have "veh_invariant (W p d) = Inr ()"
      using veh.wf_through[OF assms(1) with_order_shape(1)[OF assms(1,4,5) pos]]
      by (auto simp: W_def intro: veh_invariant_wf)
    moreover have "\<not> has_cv (W p d)" using s(2) by (simp add: is_feasable_def)
    ultimately have "pd_insert cm order v = Inr (True, carry order (W p d))"
      using 3 inv assms(3) lh(1) jk(1) loop b v2 s(2) by (simp add: pd_insert_def Let_def)
    then show ?thesis
      using s best b by (auto simp: best_of_def)
  qed
qed


section \<open>Which orders a route serves\<close>

definition order_idxs :: "Order \<Rightarrow> nat set" where
  "order_idxs q = {m_idx (m_pickup q), m_idx (m_delivery q)}"

definition order_ok :: "Dmatrix \<Rightarrow> Order \<Rightarrow> bool" where
  "order_ok cm q \<longleftrightarrow> is_pickup (m_pickup q) \<and> is_delivery (m_delivery q) \<and>
     in_matrix cm (m_pickup q) \<and> in_matrix cm (m_delivery q) \<and>
     m_idx (m_pickup q) \<noteq> m_idx (m_delivery q)"

definition orders_ok :: "Dmatrix \<Rightarrow> PD_Orders \<Rightarrow> bool" where
  "orders_ok cm os \<longleftrightarrow>
     (\<forall>i < length os. m_idx (os ! i) = i \<and> order_ok cm (os ! i)) \<and>
     (\<forall>i < length os. \<forall>j < length os. i \<noteq> j \<longrightarrow> order_idxs (os ! i) \<inter> order_idxs (os ! j) = {})"

text \<open>The same order in the table, whatever its compatibility sets are there.\<close>

definition in_table :: "PD_Orders \<Rightarrow> Order \<Rightarrow> bool" where
  "in_table os q \<longleftrightarrow> m_idx q < length os \<and> m_pickup q = m_pickup (os ! m_idx q) \<and>
     m_delivery q = m_delivery (os ! m_idx q)"

text \<open>
  The route \<open>ss\<close> serves the orders \<open>A\<close>: no site is visited twice, the inner sites are the pickups
  and deliveries of \<open>A\<close>, and each pickup comes before its delivery.
\<close>

definition serves :: "PD_Orders \<Rightarrow> nat set \<Rightarrow> Tw_node list \<Rightarrow> bool" where
  "serves os A ss \<longleftrightarrow>
     distinct (map m_idx ss) \<and>
     set (butlast (tl ss)) = (\<Union>i \<in> A. {site (m_pickup (os ! i)), site (m_delivery (os ! i))}) \<and>
     (\<forall>i \<in> A. subseq [site (m_pickup (os ! i)), site (m_delivery (os ! i))] ss) \<and>
     (\<forall>i < length os. m_idx (hd ss) \<notin> order_idxs (os ! i) \<and> m_idx (last ss) \<notin> order_idxs (os ! i))"

definition pd_wf :: "Dmatrix \<Rightarrow> Vehicle_pickDeliver \<Rightarrow> bool" where
  "pd_wf cm v \<longleftrightarrow> veh_wf cm v \<and> orders_ok cm (m_orders v) \<and> ids_inv (m_orders_in_vehicle v) \<and>
     (\<forall>i \<in> ids_set (m_orders_in_vehicle v). i < length (m_orders v)) \<and>
     serves (m_orders v) (ids_set (m_orders_in_vehicle v)) (sites v)"

lemma in_table_ok:
  assumes "orders_ok cm os" "in_table os q"
  shows "order_ok cm q" "inner cm (m_pickup q)" "inner cm (m_delivery q)"
proof -
  show ok: "order_ok cm q"
    using assms by (simp add: orders_ok_def in_table_def order_ok_def)
  then show "inner cm (m_pickup q)" "inner cm (m_delivery q)"
    by (auto simp: order_ok_def inner_def dest: node_kind_type)
qed

lemma in_table_idxs: "in_table os q \<Longrightarrow> order_idxs q = order_idxs (os ! m_idx q)"
  by (simp add: in_table_def order_idxs_def)

lemma distinct_insert_at:
  "i \<le> length xs \<Longrightarrow> distinct (insert_at i x xs) \<longleftrightarrow> x \<notin> set xs \<and> distinct xs"
  using mset_eq_imp_distinct_iff[of "insert_at i x xs" "x # xs"] by simp

lemma subseq_insert_at: "subseq xs ys \<Longrightarrow> subseq xs (insert_at i y ys)"
proof -
  have "subseq (take i ys @ drop i ys) (take i ys @ y # drop i ys)"
    by (intro list_emb_append_mono) auto
  then show "subseq xs ys \<Longrightarrow> subseq xs (insert_at i y ys)"
    by (auto simp: insert_at_def intro: subseq_order.trans)
qed

lemma subseq_pair_insert_at:
  assumes "p < d" "d \<le> Suc (length ys)" "p \<le> length ys"
  shows "subseq [x, y] (insert_at d y (insert_at p x ys))"
proof -
  have "take d (insert_at p x ys) = take p ys @ x # take (d - Suc p) (drop p ys)"
    using assms by (simp add: insert_at_def take_Cons' min_def)
  then have "insert_at d y (insert_at p x ys) =
      take p ys @ [x] @ take (d - Suc p) (drop p ys) @ [y] @ drop d (insert_at p x ys)"
    by (simp add: insert_at_def[of d])
  moreover have "subseq ([] @ [x] @ [] @ [y] @ [])
      (take p ys @ [x] @ take (d - Suc p) (drop p ys) @ [y] @ drop d (insert_at p x ys))"
    by (intro list_emb_append_mono) auto
  ultimately show ?thesis by simp
qed

lemma serves_idxs:
  assumes "serves os A (s # mid @ [e])"
  shows "m_idx ` set (s # mid @ [e]) = {m_idx s, m_idx e} \<union> (\<Union>i \<in> A. order_idxs (os ! i))"
proof -
  have mid: "set mid = (\<Union>i \<in> A. {site (m_pickup (os ! i)), site (m_delivery (os ! i))})"
    using assms by (simp add: serves_def)
  have "m_idx ` set mid = (\<Union>i \<in> A. order_idxs (os ! i))"
    unfolding mid by (simp add: image_UN order_idxs_def)
  then show ?thesis by auto
qed

lemma serves_fresh:
  assumes "orders_ok cm os" "serves os A (s # mid @ [e])" "in_table os q" "m_idx q \<notin> A"
    "\<forall>i \<in> A. i < length os"
  shows "order_idxs q \<inter> m_idx ` set (s # mid @ [e]) = {}"
proof -
  have q: "m_idx q < length os" using assms(3) by (simp add: in_table_def)
  have "order_idxs q \<inter> order_idxs (os ! i) = {}" if "i \<in> A" for i
  proof -
    have "i \<noteq> m_idx q" "i < length os" using that assms(4,5) by auto
    then show ?thesis
      using assms(1) q in_table_idxs[OF assms(3)] by (simp add: orders_ok_def)
  qed
  moreover have "m_idx s \<notin> order_idxs q" "m_idx e \<notin> order_idxs q"
    using assms(2) q in_table_idxs[OF assms(3)] by (auto simp: serves_def)
  ultimately show ?thesis
    unfolding serves_idxs[OF assms(2)] by blast
qed

lemma serves_with_order:
  assumes "orders_ok cm os" "serves os A ss" "route_shape cm ss" "in_table os q" "m_idx q \<notin> A"
    and "\<forall>i \<in> A. i < length os" "0 < p" "p < d" "d \<le> length ss" "p < length ss"
  shows "serves os (insert (m_idx q) A) (with_order q ss p d)"
proof -
  obtain s mid e where ss: "ss = s # mid @ [e]" using assms(3) by (rule route_shape_split)
  let ?P = "site (m_pickup q)" and ?D = "site (m_delivery q)"
  let ?mid = "insert_at (d - 1) ?D (insert_at (p - 1) ?P mid)"
  have eq: "with_order q ss p d = s # ?mid @ [e]"
    using assms(7-10) by (simp add: with_order_def ss insert_at_mid)
  have set_mid: "set ?mid = insert ?D (insert ?P (set mid))"
    using assms(7-10) by (simp add: ss)
  have fresh: "order_idxs q \<inter> m_idx ` set ss = {}"
    using serves_fresh[of cm os A s mid e q] assms(1,2,4-6) by (simp add: ss)
  have parts: "butlast (tl (with_order q ss p d)) = ?mid" "hd (with_order q ss p d) = hd ss"
    "last (with_order q ss p d) = last ss"
    unfolding eq by (simp_all add: ss)
  have q: "m_pickup (os ! m_idx q) = m_pickup q" "m_delivery (os ! m_idx q) = m_delivery q"
    using assms(4) by (simp_all add: in_table_def)
  show ?thesis
    unfolding serves_def parts
  proof (intro conjI ballI)
    show "distinct (map m_idx (with_order q ss p d))"
      using assms fresh in_table_ok(1)[OF assms(1,4)]
      by (simp add: with_order_def map_insert_at distinct_insert_at serves_def order_idxs_def
          order_ok_def)
    show "set ?mid = (\<Union>i \<in> insert (m_idx q) A.
        {site (m_pickup (os ! i)), site (m_delivery (os ! i))})"
      using assms(2) unfolding set_mid by (auto simp: serves_def ss q)
    show "subseq [site (m_pickup (os ! i)), site (m_delivery (os ! i))] (with_order q ss p d)"
      if "i \<in> insert (m_idx q) A" for i
    proof (cases "i = m_idx q")
      case True
      then show ?thesis
        using assms(7-10) by (simp add: q with_order_def subseq_pair_insert_at)
    next
      case False
      then show ?thesis
        using assms(2) that by (simp add: with_order_def serves_def subseq_insert_at)
    qed
  qed (use assms(2) in \<open>simp add: serves_def\<close>)
qed

text \<open>Taking an order out: its two sites disappear.\<close>

definition without_order :: "Order \<Rightarrow> Tw_node list \<Rightarrow> Tw_node list" where
  "without_order q ss = filter (\<lambda>n. m_idx n \<notin> order_idxs q) ss"

lemma erase_at_filter:
  assumes "distinct (map m_idx ss)" "k < length ss"
  shows "erase_at k ss = filter (\<lambda>n. m_idx n \<noteq> m_idx (ss ! k)) ss"
proof -
  have eq: "ss = take k ss @ ss ! k # drop (Suc k) ss"
    using assms(2) by (simp add: id_take_nth_drop)
  have "distinct (map m_idx (take k ss @ ss ! k # drop (Suc k) ss))"
    using assms(1) eq by simp
  then have "\<forall>n \<in> set (take k ss) \<union> set (drop (Suc k) ss). m_idx n \<noteq> m_idx (ss ! k)"
    by auto (metis imageI)+
  then have "filter (\<lambda>n. m_idx n \<noteq> m_idx (ss ! k)) (take k ss @ ss ! k # drop (Suc k) ss) =
      take k ss @ drop (Suc k) ss"
    by (simp add: filter_True)
  then show ?thesis using eq by (simp add: erase_at_def)
qed

lemma veh_erase_eq:
  assumes "veh_wf cm v" "distinct (map m_idx (sites v))" "m_idx n \<in> m_idx ` set (butlast (tl (sites v)))"
  defines "ss \<equiv> filter (\<lambda>x. m_idx x \<noteq> m_idx n) (sites v)"
  shows "veh_erase cm n v = Inr (via cm v ss)" "route_shape cm ss"
proof -
  obtain s mid e where ss': "sites v = s # mid @ [e]"
    using veh_wf_shape[OF assms(1)] by (rule route_shape_split)
  obtain j where j: "j < length mid" "m_idx (mid ! j) = m_idx n"
    using assms(3) ss' by (auto simp: in_set_conv_nth)
  have len: "length (m_path v) = Suc (Suc (length mid))"
    using arg_cong[OF ss', of length] by simp
  have idx: "m_idx (m_path v ! Suc j) = m_idx n"
  proof -
    have "site (m_path v ! Suc j) = mid ! j"
      using nth_sites[of "Suc j" v] j(1) len ss' by (simp add: nth_append)
    then show ?thesis using j(2) by (metis site_simps(1))
  qed
  have "distinct (map m_idx (m_path v))"
    using assms(2) by (simp add: sites_def o_def)
  then have pos: "pos_of_idx (m_idx n) (m_path v) = Suc j"
    using pos_of_idx_distinct[of "m_path v" "Suc j"] idx j(1) len by simp
  have "yields cm v (erase_at (Suc j) (sites v)) (veh_erase cm n v)"
    using veh_erase_yields[OF assms(1) pos] j(1) len by simp
  moreover have "erase_at (Suc j) (sites v) = ss"
    using erase_at_filter[OF assms(2), of "Suc j"] j len nth_sites[of "Suc j" v] idx
    by (simp add: ss_def)
  ultimately show "veh_erase cm n v = Inr (via cm v ss)"
    using yields_via[OF _ assms(1)] by simp
  show "route_shape cm ss"
    using \<open>erase_at (Suc j) (sites v) = ss\<close> route_shape_erase_at[OF veh_wf_shape[OF assms(1)], of "Suc j"]
      j(1) len by simp
qed

lemma filter_ends:
  "P s \<Longrightarrow> P e \<Longrightarrow> butlast (tl (filter P (s # mid @ [e]))) = filter P mid"
  "P s \<Longrightarrow> P e \<Longrightarrow> hd (filter P (s # mid @ [e])) = s"
  "P s \<Longrightarrow> P e \<Longrightarrow> last (filter P (s # mid @ [e])) = e"
  by simp_all

lemma serves_without_order:
  assumes "orders_ok cm os" "serves os A ss" "route_shape cm ss" "in_table os q" "m_idx q \<in> A"
    and "\<forall>i \<in> A. i < length os"
  shows "serves os (A - {m_idx q}) (without_order q ss)"
proof -
  obtain s mid e where ss: "ss = s # mid @ [e]" using assms(3) by (rule route_shape_split)
  let ?K = "\<lambda>n :: Tw_node. m_idx n \<notin> order_idxs q"
  have q: "m_idx q < length os" using assms(4) by (simp add: in_table_def)
  have ends: "?K s" "?K e"
    using assms(2) q in_table_idxs[OF assms(4)] by (auto simp: serves_def ss)
  have other: "?K (site (m_pickup (os ! i)))" "?K (site (m_delivery (os ! i)))"
    if "i \<in> A" "i \<noteq> m_idx q" for i
  proof -
    have "order_idxs q \<inter> order_idxs (os ! i) = {}"
      using assms(1,6) q that in_table_idxs[OF assms(4)] by (simp add: orders_ok_def)
    then show "?K (site (m_pickup (os ! i)))" "?K (site (m_delivery (os ! i)))"
      by (auto simp: order_idxs_def)
  qed
  have own: "\<not> ?K (site (m_pickup (os ! m_idx q)))" "\<not> ?K (site (m_delivery (os ! m_idx q)))"
    using assms(4) by (auto simp: in_table_def order_idxs_def)
  have mid: "set mid = (\<Union>i \<in> A. {site (m_pickup (os ! i)), site (m_delivery (os ! i))})"
    using assms(2) by (simp add: serves_def ss)
  have "set (filter ?K mid) =
      (\<Union>i \<in> A - {m_idx q}. {site (m_pickup (os ! i)), site (m_delivery (os ! i))})"
  proof (rule set_eqI)
    fix n
    have "n \<in> set (filter ?K mid) \<longleftrightarrow>
        (\<exists>i \<in> A. ?K n \<and> (n = site (m_pickup (os ! i)) \<or> n = site (m_delivery (os ! i))))"
      by (auto simp: mid)
    also have "\<dots> \<longleftrightarrow> (\<exists>i \<in> A - {m_idx q}.
        n = site (m_pickup (os ! i)) \<or> n = site (m_delivery (os ! i)))"
      using own other by (metis Diff_iff singletonD singletonI)
    finally show "n \<in> set (filter ?K mid) \<longleftrightarrow> n \<in> (\<Union>i \<in> A - {m_idx q}.
        {site (m_pickup (os ! i)), site (m_delivery (os ! i))})"
      by auto
  qed
  moreover have "subseq [site (m_pickup (os ! i)), site (m_delivery (os ! i))] (without_order q ss)"
    if "i \<in> A - {m_idx q}" for i
  proof -
    have "subseq (filter ?K [site (m_pickup (os ! i)), site (m_delivery (os ! i))]) (filter ?K ss)"
      using assms(2) that by (intro subseq_filter) (simp add: serves_def)
    then show ?thesis using other[of i] that by (simp add: without_order_def)
  qed
  moreover have "distinct (map m_idx (without_order q ss))"
    using assms(2) by (simp add: serves_def without_order_def distinct_map_filter)
  ultimately show ?thesis
    using assms(2) filter_ends[of ?K s e mid, OF ends]
    by (simp add: serves_def without_order_def ss)
qed

section \<open>The operations on well-formed vehicles\<close>

lemma pd_wfD:
  assumes "pd_wf cm v"
  shows "veh_wf cm v" "orders_ok cm (m_orders v)" "ids_inv (m_orders_in_vehicle v)"
    "serves (m_orders v) (ids_set (m_orders_in_vehicle v)) (sites v)"
    "\<forall>i \<in> ids_set (m_orders_in_vehicle v). i < length (m_orders v)"
  using assms by (simp_all add: pd_wf_def)

lemma pd_wf_with_order:
  assumes "pd_wf cm v" "in_table (m_orders v) q" "\<not> has_order v q"
    and "0 < p" "p < d" "d \<le> length (m_path v)"
  shows "pd_wf cm (carry q (via cm v (with_order q (sites v) p d)))"
    "sites (via cm v (with_order q (sites v) p d)) = with_order q (sites v) p d"
proof -
  note wf = pd_wfD[OF assms(1)]
  note ok = in_table_ok[OF wf(2) assms(2)]
  have shape: "route_shape cm (with_order q (sites v) p d)"
    by (rule with_order_shape(1)[OF wf(1) ok(2,3) assms(4-6)])
  show s: "sites (via cm v (with_order q (sites v) p d)) = with_order q (sites v) p d"
    by (rule veh.stops_through[OF wf(1) shape])
  have "serves (m_orders v) (insert (m_idx q) (ids_set (m_orders_in_vehicle v)))
      (with_order q (sites v) p d)"
    using assms(3-6) by (intro serves_with_order[OF wf(2,4) veh_wf_shape[OF wf(1)] assms(2) _ wf(5)])
      (auto simp: has_order_def)
  then show "pd_wf cm (carry q (via cm v (with_order q (sites v) p d)))"
    using wf assms(2) s veh.wf_through[OF wf(1) shape]
    by (simp add: pd_wf_def in_table_def)
qed


text \<open>What a successful insertion does: the order is in, everything else is as before.\<close>

definition extends :: "Dmatrix \<Rightarrow> Vehicle_pickDeliver \<Rightarrow> Order \<Rightarrow> Vehicle_pickDeliver \<Rightarrow> bool" where
  "extends cm v q v' \<longleftrightarrow> (\<exists>p d. 0 < p \<and> p < d \<and> d \<le> length (m_path v) \<and>
     v' = carry q (via cm v (with_order q (sites v) p d)))"

lemma extendsI:
  "0 < p \<Longrightarrow> p < d \<Longrightarrow> d \<le> length (m_path v) \<Longrightarrow>
    extends cm v q (carry q (via cm v (with_order q (sites v) p d)))"
  by (auto simp: extends_def)

lemma extends_fields:
  assumes "extends cm v q v'"
  shows "m_orders v' = m_orders v" "m_feasable_orders v' = m_feasable_orders v"
    "m_capacity v' = m_capacity v" "veh_speed v' = veh_speed v" "m_id v' = m_id v"
    "m_orders_in_vehicle v' = ids_add (m_orders_in_vehicle v) (m_idx q)" "has_order v' q"
  using assms by (auto simp: extends_def)

lemma extends_wf:
  assumes "extends cm v q v'" "pd_wf cm v" "in_table (m_orders v) q" "\<not> has_order v q"
  shows "pd_wf cm v'"
  using assms pd_wf_with_order(1)[OF assms(2-4)] by (auto simp: extends_def)

lemma filter_insert_at:
  "filter P (insert_at i x xs) = (if P x then insert_at (length (filter P (take i xs))) x (filter P xs)
     else filter P xs)"
proof -
  have "filter P xs = filter P (take i xs) @ filter P (drop i xs)"
    by (metis append_take_drop_id filter_append)
  then show ?thesis by (simp add: insert_at_def)
qed

lemma without_with_order:
  assumes "order_idxs q \<inter> m_idx ` set ss = {}"
  shows "without_order q (with_order q ss p d) = ss"
proof -
  have "filter (\<lambda>n. m_idx n \<notin> order_idxs q) ss = ss"
    using assms by (intro filter_True) auto
  then show ?thesis
    by (simp add: without_order_def with_order_def filter_insert_at order_idxs_def)
qed

lemma pd_wf_fresh:
  assumes "pd_wf cm v" "in_table (m_orders v) q" "\<not> has_order v q"
  shows "order_idxs q \<inter> m_idx ` set (sites v) = {}"
proof -
  note wf = pd_wfD[OF assms(1)]
  obtain s mid e where ss: "sites v = s # mid @ [e]"
    using veh_wf_shape[OF wf(1)] by (rule route_shape_split)
  show ?thesis
    using serves_fresh[OF wf(2) _ assms(2) _ wf(5), of s mid e] wf(4) assms(3)
    by (simp only: ss has_order_def ids_has_iff not_False_eq_True)
qed

lemma take_insert_at_le: "k \<le> i \<Longrightarrow> i \<le> length xs \<Longrightarrow> take k (insert_at i x xs) = take k xs"
  by (simp add: insert_at_def min_def)

lemma pd_push_back_veh:
  assumes "veh_wf cm v" "inner cm (m_pickup q)" "inner cm (m_delivery q)" "\<not> has_order v q"
  defines "n \<equiv> length (m_path v)"
  shows "pd_push_back cm q v = Inr (carry q (via cm v (with_order q (sites v) (n - 1) n)))"
proof -
  have n: "2 \<le> n" using veh_wf_nonempty[OF assms(1)] by (simp add: n_def)
  let ?p1 = "insert_at (n - 1) (m_pickup q) (m_path v)"
  let ?p2 = "insert_at n (m_delivery q) ?p1"
  have s: "map site ?p2 = with_order q (sites v) (n - 1) n"
    by (simp add: with_order_def map_insert_at sites_def)
  have shape: "route_shape cm (map site ?p2)"
    unfolding s using n by (intro with_order_shape(1)[OF assms(1-3)]) (auto simp: n_def)
  have "take (n - 1) ?p2 = take (n - 1) (m_path v)"
    using n by (simp add: take_insert_at_le n_def)
  then have "yields cm (carry q v) (map site ?p2) (evaluate_from cm (n - 1) (carry q v\<lparr>m_path := ?p2\<rparr>))"
    using assms(1) n shape by (intro evaluate_from_yields) (auto simp: n_def)
  then have "evaluate_from cm (n - 1) (carry q v\<lparr>m_path := ?p2\<rparr>) =
      Inr (carry q (via cm v (with_order q (sites v) (n - 1) n)))"
    using yields_via assms(1) s by (fastforce simp: via_carry)
  moreover have "length ?p1 - 1 = n" "length ?p2 - 3 = n - 1" using n by (simp_all add: n_def)
  moreover have "veh_invariant (via cm v (with_order q (sites v) (n - 1) n)) = Inr ()"
    using veh.wf_through[OF assms(1) shape] unfolding s by (rule veh_invariant_wf)
  ultimately show ?thesis
    using veh_invariant_wf[OF assms(1)] assms(4)
    by (simp add: pd_push_back_def Let_def n_def[symmetric])
qed

lemma pd_push_back_eq:
  assumes "pd_wf cm v" "in_table (m_orders v) q" "\<not> has_order v q"
  defines "n \<equiv> length (m_path v)"
  shows "pd_push_back cm q v = Inr (carry q (via cm v (with_order q (sites v) (n - 1) n)))"
  unfolding n_def using pd_wfD(1,2)[OF assms(1)] in_table_ok assms(2,3)
  by (intro pd_push_back_veh) blast+

lemma pd_push_front_eq:
  assumes "pd_wf cm v" "in_table (m_orders v) q" "\<not> has_order v q"
  shows "pd_push_front cm q v = Inr (carry q (via cm v (with_order q (sites v) 1 2)))"
proof -
  note wf = pd_wfD[OF assms(1)]
  note ok = in_table_ok[OF wf(2) assms(2)]
  have n: "2 \<le> length (m_path v)" using veh_wf_nonempty[OF wf(1)] .
  let ?p2 = "insert_at 1 (m_pickup q) (insert_at 1 (m_delivery q) (m_path v))"
  have "?p2 = insert_at 2 (m_delivery q) (insert_at 1 (m_pickup q) (m_path v))"
    using n by (cases "m_path v") (auto simp: insert_at_def)
  then have s: "map site ?p2 = with_order q (sites v) 1 2"
    by (simp add: with_order_def map_insert_at sites_def)
  have shape: "route_shape cm (map site ?p2)"
    unfolding s using n by (intro with_order_shape(1)[OF wf(1) ok(2,3)]) auto
  have "take 1 ?p2 = take 1 (m_path v)"
    using n by (cases "m_path v") (auto simp: insert_at_def)
  then have "yields cm (carry q v) (map site ?p2) (evaluate_from cm 1 (carry q v\<lparr>m_path := ?p2\<rparr>))"
    using wf(1) n shape by (intro evaluate_from_yields) auto
  then have "evaluate_from cm 1 (carry q v\<lparr>m_path := ?p2\<rparr>) =
      Inr (carry q (via cm v (with_order q (sites v) 1 2)))"
    using yields_via wf(1) s by (fastforce simp: via_carry)
  moreover have "veh_invariant (via cm v (with_order q (sites v) 1 2)) = Inr ()"
    using veh.wf_through[OF wf(1) shape] unfolding s by (rule veh_invariant_wf)
  ultimately show ?thesis
    using veh_invariant_wf[OF wf(1)] assms(3) by (simp add: pd_push_front_def Let_def)
qed

lemma pd_erase_eq:
  assumes "pd_wf cm v" "in_table (m_orders v) q" "has_order v q"
  defines "ss \<equiv> without_order q (sites v)"
  shows "pd_erase cm q v = Inr (uncarry q (via cm v ss))" "route_shape cm ss"
    "pd_wf cm (uncarry q (via cm v ss))"
proof -
  note wf = pd_wfD[OF assms(1)]
  let ?A = "ids_set (m_orders_in_vehicle v)"
  have q: "m_idx q \<in> ?A" using assms(3) by (simp add: has_order_def)
  have pq: "m_pickup (m_orders v ! m_idx q) = m_pickup q"
    "m_delivery (m_orders v ! m_idx q) = m_delivery q"
    using assms(2) by (simp_all add: in_table_def)
  have ne: "m_idx (m_pickup q) \<noteq> m_idx (m_delivery q)"
    using in_table_ok(1)[OF wf(2) assms(2)] by (simp add: order_ok_def)
  have d: "distinct (map m_idx (sites v))" using wf(4) by (simp add: serves_def)
  have mid: "{site (m_pickup q), site (m_delivery q)} \<subseteq> set (butlast (tl (sites v)))"
    using wf(4) UN_upper[OF q, of "\<lambda>i. {site (m_pickup (m_orders v ! i)), site (m_delivery (m_orders v ! i))}"]
    unfolding serves_def pq by simp
  let ?s1 = "filter (\<lambda>x. m_idx x \<noteq> m_idx (m_pickup q)) (sites v)"
  have "m_idx (m_pickup q) \<in> m_idx ` set (butlast (tl (sites v)))"
    using mid by (intro image_eqI[of _ _ "site (m_pickup q)"]) auto
  note e1 = veh_erase_eq[OF wf(1) d this]
  have w1: "veh_wf cm (via cm v ?s1)" "sites (via cm v ?s1) = ?s1"
    using veh.wf_through[OF wf(1) e1(2)] veh.stops_through[OF wf(1) e1(2)] by simp_all
  obtain s m e where ss: "sites v = s # m @ [e]"
    using veh_wf_shape[OF wf(1)] by (rule route_shape_split)
  have i: "m_idx q < length (m_orders v)" using assms(2) by (simp add: in_table_def)
  have ends: "m_idx s \<noteq> m_idx (m_pickup q)" "m_idx e \<noteq> m_idx (m_pickup q)"
  proof -
    have "m_idx (hd (sites v)) \<notin> order_idxs (m_orders v ! m_idx q)"
      "m_idx (last (sites v)) \<notin> order_idxs (m_orders v ! m_idx q)"
      using wf(4) i by (simp_all add: serves_def)
    then show "m_idx s \<noteq> m_idx (m_pickup q)" "m_idx e \<noteq> m_idx (m_pickup q)"
      by (simp_all add: ss order_idxs_def pq)
  qed
  have "site (m_delivery q) \<in> set (filter (\<lambda>x. m_idx x \<noteq> m_idx (m_pickup q)) m)"
    using mid ne by (simp add: ss)
  moreover have "butlast (tl (sites (via cm v ?s1))) =
      filter (\<lambda>x. m_idx x \<noteq> m_idx (m_pickup q)) m"
    unfolding w1(2) unfolding ss using ends by simp
  ultimately have "m_idx (m_delivery q) \<in> m_idx ` set (butlast (tl (sites (via cm v ?s1))))"
    by (intro image_eqI[of _ _ "site (m_delivery q)"]) auto
  moreover have "distinct (map m_idx (sites (via cm v ?s1)))"
    using d by (simp add: w1(2) distinct_map_filter)
  ultimately have e2: "veh_erase cm (m_delivery q) (via cm v ?s1) = Inr (via cm v ss)"
      "route_shape cm ss"
    using veh_erase_eq[OF w1(1)] w1(2)
    by (simp_all add: ss_def without_order_def order_idxs_def conj_commute)
  then show "route_shape cm ss" by simp
  have w2: "veh_wf cm (via cm v ss)" "sites (via cm v ss) = ss"
    using veh.wf_through[OF wf(1) e2(2)] veh.stops_through[OF wf(1) e2(2)] by simp_all
  have "\<not> has_order (uncarry q (via cm v ss)) q"
    using wf(3) by (simp add: has_order_def)
  then show "pd_erase cm q v = Inr (uncarry q (via cm v ss))"
    using veh_invariant_wf[OF wf(1)] veh_invariant_wf[OF w2(1)] assms(3) e1(1) e2(1)
    by (simp add: pd_erase_def)
  have "serves (m_orders v) (?A - {m_idx q}) ss"
    unfolding ss_def
    by (rule serves_without_order[OF wf(2,4) veh_wf_shape[OF wf(1)] assms(2) q wf(5)])
  then show "pd_wf cm (uncarry q (via cm v ss))"
    using wf w2 by (auto simp: pd_wf_def)
qed


lemma pd_insert_cases:
  assumes "pd_wf cm v" "in_table (m_orders v) q" "\<not> has_order v q"
  obtains v' where "pd_insert cm q v = Inr (True, v')" "extends cm v q v'" "is_feasable v'"
  | "pd_insert cm q v = Inr (False, v)"
proof -
  note wf = pd_wfD[OF assms(1)]
  note ok = in_table_ok[OF wf(2) assms(2)]
  have "(\<exists>v'. pd_insert cm q v = Inr (True, v') \<and> extends cm v q v' \<and> is_feasable v') \<or>
      pd_insert cm q v = Inr (False, v)"
    using pd_insert_spec[OF wf(1,3) assms(3) ok(2,3)] slots_pos[OF wf(1)] extendsI by auto
  then show ?thesis using that by blast
qed

subsection \<open>\<open>semiLIFO\<close>\<close>

text \<open>The last positions for the delivery: behind the pickup and behind every other pickup.\<close>

definition lifo_slots :: "Dmatrix \<Rightarrow> Vehicle_pickDeliver \<Rightarrow> Order \<Rightarrow> nat set" where
  "lifo_slots cm v q =
     (let v1 = via cm v (insert_at 1 (site (m_pickup q)) (sites v)) in
      {d. d \<le> length (m_path v) \<and> admits cm v1 (m_delivery q) d \<and>
          (\<forall>k. d \<le> k \<longrightarrow> k \<le> length (m_path v) \<longrightarrow> \<not> is_pickup (sites v1 ! k))})"

lemma semiLIFO_loop_spec:
  assumes "pd_wf cm v" "in_table (m_orders v) q" "\<not> has_order v q"
  defines "v1 \<equiv> via cm v (insert_at 1 (site (m_pickup q)) (sites v))"
    and "W \<equiv> \<lambda>d. via cm v (with_order q (sites v) 1 d)"
  assumes "1 < low" "high \<le> length (m_path v)"
    and "\<forall>d. low \<le> d \<longrightarrow> d \<le> high \<longrightarrow> \<not> is_pickup (sites v1 ! d)"
  shows "(\<exists>d. low \<le> d \<and> d \<le> high \<and> is_feasable (W d) \<and>
      semiLIFO_loop cm q low high v1 = Inr (True, carry q (W d)) \<and>
      (\<forall>d'. d < d' \<longrightarrow> d' \<le> high \<longrightarrow> \<not> is_feasable (W d'))) \<or>
    semiLIFO_loop cm q low high v1 = Inr (False, v) \<and>
      (\<forall>d. low \<le> d \<longrightarrow> d \<le> high \<longrightarrow> \<not> is_feasable (W d))"
proof -
  note wf = pd_wfD[OF assms(1)]
  note ok = in_table_ok[OF wf(2) assms(2)]
  have two: "2 \<le> length (m_path v)" using veh_wf_nonempty[OF wf(1)] .
  have shape1: "route_shape cm (insert_at 1 (site (m_pickup q)) (sites v))"
    using veh.shape_insert[OF veh_wf_shape[OF wf(1)], of 1 "m_pickup q"] ok(2) two by simp
  have v1: "veh_wf cm v1" "sites v1 = insert_at 1 (site (m_pickup q)) (sites v)"
    unfolding v1_def using veh.wf_through[OF wf(1) shape1] veh.stops_through[OF wf(1) shape1] by simp_all
  have len1: "length (m_path v1) = Suc (length (m_path v))"
    using arg_cong[OF v1(2), of length] two by simp
  have fail: "semiLIFO_loop cm q low high v1 = Inr (False, v)" if "\<not> low \<le> high" for high
  proof -
    have "veh_erase_at cm 1 v1 = Inr (via cm v1 (erase_at 1 (sites v1)))"
      using v1(1) len1 two by (intro veh.del_law) auto
    also have "via cm v1 (erase_at 1 (sites v1)) = v"
      using wf(1) two unfolding v1(2) by (simp add: v1_def)
    finally show ?thesis
      using that assms(3) veh_invariant_wf[OF wf(1)] by (subst semiLIFO_loop.simps) simp
  qed
  show ?thesis
    using assms(7,8)
  proof (induction high)
  case 0
  then show ?case using fail[of 0] assms(6) by simp
next
  case (Suc high)
  show ?case
  proof (cases "low \<le> Suc high")
    case False
    then show ?thesis using fail by simp
  next
    case True
    let ?d = "Suc high"
    have ins: "veh_insert cm ?d (m_delivery q) v1 = Inr (W ?d)"
      using veh.ins_law[OF v1(1), of ?d "m_delivery q"] ok(3) Suc.prems len1
      by (simp add: W_def with_order_def v1(2)) (simp add: v1_def)
    have wfW: "veh_wf cm (W ?d)" "sites (W ?d) = with_order q (sites v) 1 ?d"
      using pd_wf_with_order[OF assms(1-3), of 1 ?d] True assms(6) Suc.prems(1)
      by (auto simp: W_def pd_wf_def)
    have lenW: "length (m_path (W ?d)) = Suc (Suc (length (m_path v)))"
      using arg_cong[OF wfW(2), of length] two Suc.prems(1) by (simp add: with_order_def)
    have "sites (W ?d) ! (?d + 1) = sites v1 ! ?d"
      unfolding wfW(2) with_order_def v1(2) using two Suc.prems(1)
      by (subst nth_insert_at) auto
    then have "site (m_path (W ?d) ! (?d + 1)) = sites v1 ! ?d"
      using lenW Suc.prems(1) by (metis Suc_eq_plus1 Suc_le_mono le_imp_less_Suc nth_sites)
    then have nopick: "\<not> is_pickup (m_path (W ?d) ! (?d + 1))"
      using Suc.prems(2) True by (metis order_refl site_kinds(3))
    show ?thesis
    proof (cases "is_feasable (W ?d)")
      case True
      have "semiLIFO_loop cm q low ?d v1 = Inr (True, carry q (W ?d))"
        using ins True nopick lenW Suc.prems(1) \<open>low \<le> Suc high\<close> veh_invariant_wf[OF wfW(1)]
        by (subst semiLIFO_loop.simps) (auto simp: is_feasable_def Let_def)
      then show ?thesis using True \<open>low \<le> Suc high\<close> by auto
    next
      case False
      have "veh_erase_at cm ?d (W ?d) = Inr (via cm (W ?d) (erase_at ?d (sites (W ?d))))"
        using wfW(1) lenW Suc.prems(1) by (intro veh.del_law) auto
      also have "via cm (W ?d) (erase_at ?d (sites (W ?d))) = v1"
        using two Suc.prems(1) unfolding wfW(2) by (simp add: W_def with_order_def v1_def)
      finally have "semiLIFO_loop cm q low ?d v1 = semiLIFO_loop cm q low high v1"
        using ins False \<open>low \<le> Suc high\<close> by (subst semiLIFO_loop.simps) simp
      then show ?thesis
        using Suc False by (auto simp: le_Suc_eq)
    qed
  qed
qed
qed

lemma pd_semiLIFO_spec:
  assumes "pd_wf cm v" "in_table (m_orders v) q" "\<not> has_order v q"
  defines "W \<equiv> \<lambda>d. via cm v (with_order q (sites v) 1 d)"
  shows "(\<exists>d \<in> lifo_slots cm v q. 1 < d \<and> d \<le> length (m_path v) \<and> is_feasable (W d) \<and>
      pd_semiLIFO cm q v = Inr (True, carry q (W d)) \<and>
      (\<forall>d' \<in> lifo_slots cm v q. d < d' \<longrightarrow> \<not> is_feasable (W d'))) \<or>
    pd_semiLIFO cm q v = Inr (False, v) \<and> (\<forall>d \<in> lifo_slots cm v q. \<not> is_feasable (W d))"
proof -
  note wf = pd_wfD[OF assms(1)]
  note ok = in_table_ok[OF wf(2) assms(2)]
  define v1 where "v1 = via cm v (insert_at 1 (site (m_pickup q)) (sites v))"
  have two: "2 \<le> length (m_path v)" using veh_wf_nonempty[OF wf(1)] .
  have ins: "veh_insert cm 1 (m_pickup q) v = Inr v1"
    unfolding v1_def using wf(1) ok(2) two by (intro veh.ins_law) auto
  have v1: "veh_wf cm v1" "sites v1 = insert_at 1 (site (m_pickup q)) (sites v)"
    using veh.ins_spec[OF wf(1), of 1 "m_pickup q"] ok(2) two ins by auto
  have len1: "length (m_path v1) = Suc (length (m_path v))"
    using arg_cong[OF v1(2), of length] two by simp
  have inm: "in_matrix cm (m_delivery q)" using ok(3) by (simp add: inner_def)
  obtain l h where lh: "drop_position_limits cm v1 (m_delivery q) = Inr (l, h)" "0 < l"
      "h < length (m_path v1)"
      "\<forall>i \<le> length (m_path v1). l \<le> i \<and> i \<le> h \<longleftrightarrow> admits cm v1 (m_delivery q) i \<and>
        (\<forall>k. i \<le> k \<longrightarrow> k < length (m_path v1) \<longrightarrow> \<not> is_pickup (m_path v1 ! k))"
    using drop_position_limits_spec[OF v1(1) inm] by blast
  have slot: "d \<in> lifo_slots cm v q \<longleftrightarrow> d \<le> length (m_path v) \<and> admits cm v1 (m_delivery q) d \<and>
      (\<forall>k. d \<le> k \<longrightarrow> k \<le> length (m_path v) \<longrightarrow> \<not> is_pickup (sites v1 ! k))" for d
    unfolding lifo_slots_def Let_def v1_def by simp
  have slots: "d \<in> lifo_slots cm v q \<longleftrightarrow> l \<le> d \<and> d \<le> h" for d
  proof -
    have "is_pickup (sites v1 ! k) = is_pickup (m_path v1 ! k)" if "k \<le> length (m_path v)" for k
      using that len1 nth_sites[of k v1] by simp
    then have "d \<in> lifo_slots cm v q \<longleftrightarrow> d \<le> length (m_path v) \<and> l \<le> d \<and> d \<le> h"
      using lh(4)[rule_format, of d] len1 by (auto simp: slot less_Suc_eq_le)
    then show ?thesis using lh(3) len1 by auto
  qed
  have l: "1 < l" if "l \<le> h"
  proof (rule ccontr)
    assume "\<not> 1 < l"
    then have "1 \<in> lifo_slots cm v q" using slots lh(2) that by simp
    then have "\<not> is_pickup (sites v1 ! 1)"
      using two by (auto simp: slot)
    then show False
      using ok(1) two unfolding v1(2) by (simp add: order_ok_def)
  qed
  have nopick: "\<not> is_pickup (sites v1 ! d)" if "l \<le> d" "d \<le> h" for d
    using slots[of d] that by (auto simp: slot)
  show ?thesis
  proof (cases "h < l")
    case True
    have "bindE (veh_insert cm 1 (m_pickup q) v) (veh_erase_at cm 1) = Inr v"
      using wf(1) ok(2) two by (intro veh.del_ins) auto
    then have "pd_semiLIFO cm q v = Inr (False, v)"
      using True ins lh(1) assms(3) veh_invariant_wf[OF wf(1)] by (simp add: pd_semiLIFO_def)
    then show ?thesis using slots True by auto
  next
    case False
    then have "pd_semiLIFO cm q v = semiLIFO_loop cm q l h v1"
      using ins lh(1) assms(3) veh_invariant_wf[OF wf(1)]
      by (simp add: pd_semiLIFO_def has_order_def) (simp add: v1_def)
    note eq = this
    have l': "1 < l" "h \<le> length (m_path v)" using l False lh(3) len1 by simp_all
    have np: "\<forall>d. l \<le> d \<longrightarrow> d \<le> h \<longrightarrow> \<not> is_pickup (sites v1 ! d)" using nopick by simp
    from semiLIFO_loop_spec[OF assms(1-3) l', folded v1_def, OF np] consider d where "l \<le> d" "d \<le> h" "is_feasable (W d)"
        "pd_semiLIFO cm q v = Inr (True, carry q (W d))"
        "\<forall>d'. d < d' \<longrightarrow> d' \<le> h \<longrightarrow> \<not> is_feasable (W d')"
      | "pd_semiLIFO cm q v = Inr (False, v)" "\<forall>d. l \<le> d \<longrightarrow> d \<le> h \<longrightarrow> \<not> is_feasable (W d)"
      unfolding eq W_def by blast
    then show ?thesis
    proof cases
      case 1
      then show ?thesis using slots l' by (intro disjI1 bexI[of _ d]) auto
    qed (use slots in auto)
  qed
qed

end
