(* ===== verification/Durations.thy ===== *)
theory Durations
  imports Pd_routes
begin

text \<open>
  When the duration of a vehicle is a number: the sorts of \<open>Optimize\<close> compare durations, and
  \<open>std::sort\<close> needs them to be numbers.  A sum of values that are neither NaN nor \<open>-inf\<close> is neither,
  so a finite matrix, a speed that is a number and a start window that does not open at \<open>-inf\<close> are
  enough; the other times are checked by \<open>is_start\<close>, \<open>is_pickup\<close> and their kind.  The operations keep
  what this depends on, the \<open>clock\<close> of the vehicle.
\<close>

section \<open>Values above minus infinity\<close>

definition over_ninf :: "double \<Rightarrow> bool" where
  "over_ninf x \<longleftrightarrow> x \<noteq> NaN \<and> x \<noteq> NInf"

definition is_fin :: "double \<Rightarrow> bool" where
  "is_fin x \<longleftrightarrow> (case x of Fin r \<Rightarrow> True | _ \<Rightarrow> False)"

lemma is_fin_iff: "is_fin x \<longleftrightarrow> (\<exists>r. x = Fin r)"
  by (cases x) (simp_all add: is_fin_def)

lemma above_add: "over_ninf x \<Longrightarrow> over_ninf y \<Longrightarrow> over_ninf (x + y)"
  by (cases x; cases y) (simp_all add: over_ninf_def)

lemma above_nonneg: "0 \<le> x \<Longrightarrow> over_ninf x"
  by (cases x) (simp_all add: over_ninf_def zero_double_def)

lemma above_opens: "x < y \<Longrightarrow> x \<noteq> NInf \<Longrightarrow> over_ninf x"
  by (cases x; cases y) (simp_all add: over_ninf_def)

lemma above_wait: "over_ninf x \<Longrightarrow> x < y \<Longrightarrow> over_ninf (y - x)"
  by (cases x; cases y) (simp_all add: over_ninf_def minus_double_def)

lemma above_travel: "is_fin d \<Longrightarrow> s \<noteq> 0 \<Longrightarrow> s \<noteq> NaN \<Longrightarrow> over_ninf (d / s)"
  by (cases d; cases s) (auto simp: is_fin_def over_ninf_def zero_double_def)

text \<open>A matrix whose costs are finite.  \<open>has_no_infinity\<close> lets \<open>NaN\<close> and \<open>-inf\<close> pass.\<close>

definition finite_matrix :: "Dmatrix \<Rightarrow> bool" where
  "finite_matrix m \<longleftrightarrow> list_all (list_all is_fin) (dm_costs m)"

lemma finite_matrix_distance: "finite_matrix m \<Longrightarrow> dm_distance m i j = Inr c \<Longrightarrow> is_fin c"
  by (auto simp: finite_matrix_def dm_distance_def dm_at_def list_all_length split: if_splits)

text \<open>What the constructors make of finite costs is finite.\<close>

lemma dm_put_finite:
  assumes "dm_put i j c m = Inr m'" "finite_matrix m" "is_fin c"
  shows "finite_matrix m'"
proof -
  have m: "m' = m\<lparr>dm_costs := (dm_costs m)[i := (dm_costs m ! i)[j := c]]\<rparr>" "i < length (dm_costs m)"
    using assms(1) by (auto simp: dm_put_def split: if_splits)
  have "list_all is_fin (dm_costs m ! i)" using assms(2) m(2) by (simp add: finite_matrix_def list_all_length)
  then have "list_all is_fin ((dm_costs m ! i)[j := c])"
    using assms(3) by (auto simp: list_all_iff dest!: set_update_subset_insert[THEN subsetD])
  moreover have "x = y \<or> x \<in> set xs" if "x \<in> set (xs[i := y])" for x y :: "double list" and xs
    using set_update_subset_insert[of xs i y] that by blast
  ultimately have "list_all is_fin row" if "row \<in> set (dm_costs m')" for row
    using that assms(2) by (fastforce simp: finite_matrix_def m(1) list_all_iff[of "list_all is_fin"])
  then show ?thesis by (simp add: finite_matrix_def list_all_iff[of "list_all is_fin"])
qed

lemma zero_diagonal_finite: "zero_diagonal m = Inr m' \<Longrightarrow> finite_matrix m \<Longrightarrow> finite_matrix m'"
  unfolding zero_diagonal_def
  by (erule foldE_invariant[where I = finite_matrix])
    (auto intro: dm_put_finite simp: is_fin_def zero_double_def)

lemma square_of_finite: "finite_matrix (square_of xs)"
  by (auto simp: finite_matrix_def square_of_def list_all_iff is_fin_def dbl_max_def)

lemma Dmatrix_of_rows_finite:
  assumes "Dmatrix_of_rows rows = Inr m" "\<forall>c \<in> set rows. is_fin (iid_cost c)"
  shows "finite_matrix m"
proof -
  obtain m1 where m1: "foldE put_row rows (square_of (set_ids rows)) = Inr m1" "zero_diagonal m1 = Inr m"
    using assms(1) by (auto simp: Dmatrix_of_rows_def)
  have "finite_matrix m1"
    by (rule foldE_invariant[OF m1(1), where I = finite_matrix])
      (use assms(2) in \<open>auto simp: put_row_def square_of_finite intro: dm_put_finite\<close>)
  then show ?thesis by (rule zero_diagonal_finite[OF m1(2)])
qed

lemma above_travel_time:
  "finite_matrix cm \<Longrightarrow> s \<noteq> NaN \<Longrightarrow> travel_time_to cm n m s = Inr t \<Longrightarrow> over_ninf t"
  by (auto simp: travel_time_to_def dnode_distance_eq dest: finite_matrix_distance intro: above_travel)

section \<open>Departures\<close>

lemma above_advance:
  assumes "over_ninf (m_departure_time p)" "over_ninf t" "0 \<le> m_service_time n"
  shows "over_ninf (m_departure_time (advance p c t n))"
proof -
  let ?a = "m_departure_time p + t"
  have a: "over_ninf ?a" using assms(1,2) by (rule above_add)
  have "over_ninf (if is_early_arrival n ?a then m_opens n - ?a else 0)"
    using above_wait[OF a] above_nonneg[of 0] by (simp add: is_early_arrival_def zero_double_def)
  then show ?thesis
    using a above_nonneg[OF assms(3)] by (simp add: advance_def Let_def above_add)
qed

lemma above_departures:
  assumes "finite_matrix cm" "s \<noteq> NaN" "evaluated_after cm c s p ns" "over_ninf (m_departure_time p)"
    and "\<forall>n \<in> set ns. 0 \<le> m_service_time n"
  shows "over_ninf (m_departure_time (last (p # ns)))"
  using assms(3-5)
proof (induction ns arbitrary: p)
  case (Cons n ns)
  obtain t where t: "travel_time_to cm p n s = Inr t" "advance p c t n = n"
    using Cons.prems(1) by (auto simp: evaluate_after_def)
  have "over_ninf (m_departure_time n)"
    using above_advance[OF Cons.prems(2) above_travel_time[OF assms(1,2) t(1)], of n c] Cons.prems(3) t(2)
    by simp
  then show ?case using Cons by simp
qed simp

section \<open>The clock of a vehicle\<close>

text \<open>What the durations of a vehicle depend on besides its orders: speed and first site.\<close>

definition clock :: "'a Vehicle_scheme \<Rightarrow> double \<times> Tw_node" where
  "clock v = (veh_speed v, hd (sites v))"

definition timed :: "Dmatrix \<Rightarrow> double \<times> Tw_node \<Rightarrow> bool" where
  "timed cm k \<longleftrightarrow> finite_matrix cm \<and> fst k \<noteq> NaN \<and> m_opens (snd k) \<noteq> NInf"

lemma pd_wf_service:
  assumes "pd_wf cm v" "n \<in> set (m_path v)"
  shows "0 \<le> m_service_time n"
proof -
  note wf = pd_wfD[OF assms(1)]
  let ?os = "m_orders v"
  obtain s mid e where ss: "sites v = s # mid @ [e]" "is_start s" "is_end e"
    using veh_wf_shape[OF wf(1)] by (rule route_shape_split)
  have "set mid = (\<Union>i \<in> ids_set (m_orders_in_vehicle v). {site (m_pickup (?os ! i)), site (m_delivery (?os ! i))})"
    using wf(4) by (simp add: serves_def ss(1))
  moreover have "is_pickup (m_pickup (?os ! i)) \<and> is_delivery (m_delivery (?os ! i))"
    if "i \<in> ids_set (m_orders_in_vehicle v)" for i
    using wf(2,5) that by (auto simp: orders_ok_def order_ok_def)
  ultimately have "0 \<le> m_service_time m" if "m \<in> set (sites v)" for m
    using that ss by (auto simp: node_kinds)
  moreover have "site n \<in> set (sites v)" using assms(2) by (simp add: sites_def)
  ultimately show ?thesis by fastforce
qed

lemma duration_is_number:
  assumes "pd_wf cm v" "timed cm (clock v)"
  shows "duration v \<noteq> NaN"
proof -
  have wf: "veh_wf cm v" using assms(1) by (rule pd_wfD)
  then obtain x xs where x: "m_path v = x # xs" "is_start x" "evaluate_start (m_capacity v) x = x"
      "evaluated_after cm (m_capacity v) (veh_speed v) x xs"
    by (rule veh_wf_first)
  have t: "finite_matrix cm" "veh_speed v \<noteq> NaN" "m_opens x \<noteq> NInf"
    using assms(2) x(1) by (simp_all add: timed_def clock_def sites_def)
  have "over_ninf (m_opens x)" using x(2) t(3) by (intro above_opens[of _ "m_closes x"]) (simp_all add: is_start_def)
  then have "over_ninf (m_departure_time x)"
    unfolding start_values(5)[OF x(2,3)] using x(2)
    by (intro above_add[OF _ above_nonneg]) (simp_all add: is_start_def)
  moreover have "\<forall>n \<in> set xs. 0 \<le> m_service_time n" using pd_wf_service[OF assms(1)] x(1) by simp
  ultimately have "over_ninf (m_departure_time (last (x # xs)))" by (rule above_departures[OF t(1,2) x(4)])
  then show ?thesis by (simp add: duration_def x(1) over_ninf_def)
qed

lemma durations_ordered:
  assumes "\<forall>v \<in> set vs. pd_wf cm v \<and> timed cm (clock v)"
  shows "strict_weak_on (set vs) (\<lambda>l r. duration r < duration l)"
proof -
  have "\<And>v. v \<in> set vs \<Longrightarrow> duration v \<noteq> NaN" using assms duration_is_number by blast
  from strict_weak_on_flip[OF strict_weak_on_key[OF this]] show ?thesis .
qed

section \<open>The operations keep the clock\<close>

lemma clock_carry [simp]: "clock (carry q v) = clock v" "clock (uncarry q v) = clock v"
  by (simp_all add: clock_def)

lemma clock_via:
  "veh_wf cm v \<Longrightarrow> route_shape cm ss \<Longrightarrow> hd ss = hd (sites v) \<Longrightarrow> clock (via cm v ss) = clock v"
  by (simp add: clock_def via_spec(1))

lemma extends_clock:
  assumes "extends cm v q v'" "pd_wf cm v" "in_table (m_orders v) q" "\<not> has_order v q"
  shows "clock v' = clock v"
proof -
  obtain p d where pd: "0 < p" "p < d" "d \<le> length (m_path v)"
      "v' = carry q (via cm v (with_order q (sites v) p d))"
    using assms(1) by (auto simp: extends_def)
  have "length (insert_at p (site (m_pickup q)) (sites v)) = Suc (length (m_path v))" using pd by simp
  then have "hd (with_order q (sites v) p d) = hd (sites v)"
    using pd by (simp add: with_order_def hd_insert_at)
  then show ?thesis
    using pd_wf_with_order(2)[OF assms(2-4) pd(1-3)] by (simp add: clock_def pd(4))
qed

lemma erase_clock:
  assumes "pd_wf cm v" "in_table (m_orders v) q" "has_order v q"
  shows "clock (uncarry q (via cm v (without_order q (sites v)))) = clock v"
proof -
  note wf = pd_wfD[OF assms(1)]
  note shape = pd_erase_eq(2)[OF assms]
  obtain s mid e where ss: "sites v = s # mid @ [e]"
    using veh_wf_shape[OF wf(1)] by (rule route_shape_split)
  have "m_idx q < length (m_orders v)" using assms(2) by (simp add: in_table_def)
  then have "m_idx s \<notin> order_idxs q"
    using wf(4) in_table_idxs[OF assms(2)] by (simp add: serves_def ss)
  then have "hd (without_order q (sites v)) = hd (sites v)" by (simp add: without_order_def ss)
  then show ?thesis using clock_via[OF wf(1) shape] by simp
qed

end
