(* ===== verification/Filling.thy ===== *)
theory Filling
  imports Durations
begin

text \<open>
  The loop \<open>do_while_feasable\<close> that fills a vehicle: it ends, no assertion fails, the vehicle
  stays feasible, and every order that leaves the unassigned set enters the assigned set and the
  vehicle.
\<close>

section \<open>Orders that fit\<close>

text \<open>The order alone in the vehicle is feasible: the meaning of \<open>is_order_feasable\<close>.\<close>

definition fits :: "Dmatrix \<Rightarrow> Vehicle_pickDeliver \<Rightarrow> Order \<Rightarrow> bool" where
  "fits cm v q \<longleftrightarrow> is_feasable (via cm v
     [hd (sites v), site (m_pickup q), site (m_delivery q), last (sites v)])"

lemma unladen_sites:
  assumes "pd_wf cm v" "ids_set (m_orders_in_vehicle v) = {}"
  shows "sites v = [hd (sites v), last (sites v)]"
proof -
  note wf = pd_wfD[OF assms(1)]
  obtain s mid e where ss: "sites v = s # mid @ [e]"
    using veh_wf_shape[OF wf(1)] by (rule route_shape_split)
  have "mid = []" using wf(4) assms(2) by (simp add: serves_def ss)
  then show ?thesis by (simp add: ss)
qed

lemma unladen_with_order:
  assumes "pd_wf cm v" "ids_set (m_orders_in_vehicle v) = {}" "0 < p" "p < d" "d \<le> length (m_path v)"
  shows "with_order q (sites v) p d =
    [hd (sites v), site (m_pickup q), site (m_delivery q), last (sites v)]"
proof -
  obtain s e where ss: "sites v = [s, e]" using unladen_sites[OF assms(1,2)] by metis
  then have "length (m_path v) = 2" by (metis length_sites length_Cons list.size(3) numeral_2_eq_2)
  then have "p = 1" "d = 2" using assms(3-5) by simp_all
  then show ?thesis by (simp add: with_order_def ss insert_at_def)
qed

lemma unladen_extends:
  assumes "extends cm v q v'" "pd_wf cm v" "ids_set (m_orders_in_vehicle v) = {}"
  shows "is_feasable v' = fits cm v q"
  using assms unladen_with_order[OF assms(2,3)] by (auto simp: extends_def fits_def)

lemma is_order_feasable_spec:
  assumes "pd_wf cm v" "ids_set (m_orders_in_vehicle v) = {}" "in_table (m_orders v) q"
  shows "is_order_feasable cm q v = Inr (fits cm v q)"
proof -
  have n: "\<not> has_order v q" using assms(2) by (simp add: has_order_def)
  have two: "2 \<le> length (m_path v)" using assms(1) veh_wf_nonempty by (auto simp: pd_wf_def)
  let ?v = "carry q (via cm v (with_order q (sites v) (length (m_path v) - 1) (length (m_path v))))"
  have "extends cm v q ?v" using two by (intro extendsI) auto
  from unladen_extends[OF this assms(1,2)] show ?thesis
    using pd_push_back_eq[OF assms(1,3) n] by (simp add: is_order_feasable_def)
qed

text \<open>The ends of a vehicle do not change, so what fits stays what fits.\<close>

lemma with_order_ends:
  assumes "route_shape cm ss" "0 < p" "p < d" "d \<le> length ss"
  shows "hd (with_order q ss p d) = hd ss" "last (with_order q ss p d) = last ss"
proof -
  have p: "p < length ss" using assms by simp
  show "hd (with_order q ss p d) = hd ss" "last (with_order q ss p d) = last ss"
    using assms p by (simp_all add: with_order_def hd_insert_at last_insert_at)
qed

lemma extends_fits:
  assumes "extends cm v q v'" "pd_wf cm v" "in_table (m_orders v) q" "\<not> has_order v q"
  shows "fits cm v' = fits cm v"
proof
  fix o'
  obtain p d where pd: "0 < p" "p < d" "d \<le> length (m_path v)"
      "v' = carry q (via cm v (with_order q (sites v) p d))"
    using assms(1) by (auto simp: extends_def)
  note s = pd_wf_with_order(2)[OF assms(2-4) pd(1-3)]
  have "hd (sites v') = hd (sites v)" "last (sites v') = last (sites v)"
    using with_order_ends[OF veh_wf_shape, OF pd_wfD(1)[OF assms(2)] pd(1,2)] pd(3)
    by (simp_all add: pd(4) s)
  then show "fits cm v' o' = fits cm v o'"
    by (simp add: fits_def pd(4) via_carry)
qed

section \<open>One round\<close>

definition fill_ok :: "Dmatrix \<Rightarrow> Vehicle_pickDeliver \<Rightarrow> nat Identifiers \<Rightarrow> bool" where
  "fill_ok cm v unassigned \<longleftrightarrow> pd_wf cm v \<and> is_feasable v \<and> ids_inv unassigned \<and>
     ids_inv (m_feasable_orders v) \<and>
     ids_set unassigned \<inter> ids_set (m_orders_in_vehicle v) = {} \<and>
     (\<forall>i \<in> ids_set (m_feasable_orders v). i < length (m_orders v) \<and> fits cm v (m_orders v ! i)) \<and>
     (\<forall>q \<in> set (m_orders v). ids_inv (m_compatibleJ q) \<and> ids_inv (m_compatibleI q))"

definition candidates :: "Vehicle_pickDeliver \<Rightarrow> nat Identifiers \<Rightarrow> nat Identifiers \<Rightarrow> bool" where
  "candidates v unassigned c \<longleftrightarrow> ids_inv c \<and>
     ids_set c \<subseteq> ids_set (m_feasable_orders v) \<inter> ids_set unassigned"

lemma in_table_nth:
  "orders_ok cm os \<Longrightarrow> i < length os \<Longrightarrow> in_table os (os ! i) \<and> m_idx (os ! i) = i"
  by (simp add: orders_ok_def in_table_def)

lemma candidate:
  assumes "fill_ok cm v u" "candidates v u c" "i \<in> ids_set c"
  shows "i < length (m_orders v)" "orders_at (m_orders v) i = Inr (m_orders v ! i)"
    "in_table (m_orders v) (m_orders v ! i)" "m_idx (m_orders v ! i) = i"
    "\<not> has_order v (m_orders v ! i)" "fits cm v (m_orders v ! i)"
proof -
  have f: "i \<in> ids_set (m_feasable_orders v)" "i \<in> ids_set u"
    using assms(2,3) by (auto simp: candidates_def)
  show i: "i < length (m_orders v)" "fits cm v (m_orders v ! i)"
    using assms(1) f(1) by (simp_all add: fill_ok_def)
  then show "orders_at (m_orders v) i = Inr (m_orders v ! i)"
    by (simp add: orders_at_def)
  show "in_table (m_orders v) (m_orders v ! i)" and idx: "m_idx (m_orders v ! i) = i"
    using assms(1) i(1) in_table_nth[of cm "m_orders v" i] by (simp_all add: fill_ok_def pd_wf_def)
  have "i \<notin> ids_set (m_orders_in_vehicle v)"
    using assms(1) f(2) by (auto simp: fill_ok_def)
  then show "\<not> has_order v (m_orders v ! i)" by (simp add: has_order_def idx)
qed

text \<open>The kinds that use a search insert feasibly or not at all.\<close>

lemma try_kind_spec:
  assumes "fill_ok cm v u" "candidates v u c" "i \<in> ids_set c" "kind \<noteq> OneTruck" "kind \<noteq> OnePerTruck"
  shows "\<exists>j v1. try_kind cm kind c (m_orders v ! i) v = Inr (m_orders v ! j, v1) \<and> j \<in> ids_set c \<and>
    (v1 = v \<and> kind \<noteq> FrontTruck \<and> kind \<noteq> BackTruck \<or> extends cm v (m_orders v ! j) v1)"
proof -
  have wf: "pd_wf cm v" using assms(1) by (simp add: fill_ok_def)
  have two: "2 \<le> length (m_path v)" using wf veh_wf_nonempty by (auto simp: pd_wf_def)
  have inv: "ids_inv c" "\<forall>i \<in> ids_set c. i < length (m_orders v)" "\<not> ids_empty c"
    using assms(2,3) candidate(1)[OF assms(1,2)] by (auto simp: candidates_def ids_empty_iff)
  note c = candidate[OF assms(1,2)]
  have ins: "\<exists>b v1. pd_insert cm (m_orders v ! j) v = Inr (b, v1) \<and>
      (v1 = v \<or> extends cm v (m_orders v ! j) v1)" if "j \<in> ids_set c" for j
    using pd_insert_cases[OF wf c(3)[OF that] c(5)[OF that]] by metis
  have search: "\<exists>j v1. bindE (Inr j') (\<lambda>j. bindE (orders_at (m_orders v) j) (\<lambda>o'.
        bindE (pd_insert cm o' v) (\<lambda>(_, v1). Inr (o', v1)))) = Inr (m_orders v ! j, v1) \<and>
      j \<in> ids_set c \<and> (v1 = v \<or> extends cm v (m_orders v ! j) v1)" if "j' \<in> ids_set c" for j'
    using ins[OF that] c(2)[OF that] that by auto
  show ?thesis
  proof (cases kind)
    case FrontTruck
    have "extends cm v (m_orders v ! i)
        (carry (m_orders v ! i) (via cm v (with_order (m_orders v ! i) (sites v) 1 2)))"
      using two by (intro extendsI) auto
    then show ?thesis
      using FrontTruck assms(3) pd_push_front_eq[OF wf c(3,5)[OF assms(3)]]
      by (auto simp: try_kind_def)
  next
    case BackTruck
    let ?n = "length (m_path v)"
    have "extends cm v (m_orders v ! i)
        (carry (m_orders v ! i) (via cm v (with_order (m_orders v ! i) (sites v) (?n - 1) ?n)))"
      using two by (intro extendsI) auto
    then show ?thesis
      using BackTruck assms(3) pd_push_back_eq[OF wf c(3,5)[OF assms(3)]]
      by (auto simp: try_kind_def)
  next
    case BestInsert
    then show ?thesis using ins[OF assms(3)] assms(3) by (auto simp: try_kind_def)
  next
    case BestBack
    obtain j' where "find_best_J (m_orders v) c = Inr j'" "j' \<in> ids_set c"
      using find_best_J_spec[OF inv(1,3,2)] by blast
    then show ?thesis using BestBack search[of j'] by (simp add: try_kind_def)
  next
    case BestFront
    obtain j' where "find_best_I (m_orders v) c = Inr j'" "j' \<in> ids_set c"
      using find_best_I_spec[OF inv(1,3,2)] by blast
    then show ?thesis using BestFront search[of j'] by (simp add: try_kind_def)
  next
    case OneDepot
    have "(\<exists>v1. pd_semiLIFO cm (m_orders v ! i) v = Inr (True, v1) \<and> extends cm v (m_orders v ! i) v1) \<or>
        pd_semiLIFO cm (m_orders v ! i) v = Inr (False, v)"
      using pd_semiLIFO_spec[OF wf c(3,5)[OF assms(3)]] extendsI by auto
    then show ?thesis using OneDepot assms(3) by (auto simp: try_kind_def)
  qed (use assms(4,5) in simp_all)
qed


lemma extends_erase:
  assumes "extends cm v q v'" "pd_wf cm v" "in_table (m_orders v) q" "\<not> has_order v q"
  shows "pd_erase cm q v' = Inr v"
proof -
  obtain p d where pd: "0 < p" "p < d" "d \<le> length (m_path v)"
      "v' = carry q (via cm v (with_order q (sites v) p d))"
    using assms(1) by (auto simp: extends_def)
  have s: "sites v' = with_order q (sites v) p d"
    using pd_wf_with_order(2)[OF assms(2-4) pd(1-3)] by (simp add: pd(4))
  have "via cm v' (sites v) = carry q v"
    using pd_wfD(1)[OF assms(2)] by (simp add: pd(4) via_carry)
  then have "uncarry q (via cm v' (without_order q (sites v'))) = v"
    using pd_wfD(3)[OF assms(2)] assms(4)
    by (simp add: s without_with_order[OF pd_wf_fresh[OF assms(2-4)]] uncarry_carry)
  moreover have "in_table (m_orders v') q" using assms(3) extends_fields(1)[OF assms(1)] by simp
  ultimately show ?thesis
    using pd_erase_eq(1)[OF extends_wf[OF assms] _ extends_fields(7)[OF assms(1)]] by simp
qed

lemma extends_fill_ok:
  assumes "extends cm v (m_orders v ! i) v1" "fill_ok cm v u" "candidates v u c" "i \<in> ids_set c"
    "is_feasable v1"
  shows "fill_ok cm v1 (ids_remove u i)"
proof -
  have wf: "pd_wf cm v" using assms(2) by (simp add: fill_ok_def)
  note c = candidate[OF assms(2-4)]
  show ?thesis
    using assms(2,5) extends_fields[OF assms(1)] extends_wf[OF assms(1) wf c(3,5)]
      extends_fits[OF assms(1) wf c(3,5)] c(4) wf
    by (auto simp: fill_ok_def pd_wf_def)
qed

text \<open>The vehicle after some rounds: the orders \<open>M\<close> have moved.\<close>

definition filled :: "Dmatrix \<Rightarrow> Fill \<Rightarrow> nat set \<Rightarrow> Fill \<Rightarrow> bool" where
  "filled cm = (\<lambda>(v, u, a) M (v', u', a').
     fill_ok cm v' u' \<and> ids_inv a' \<and>
     ids_set u' = ids_set u - M \<and> ids_set a' = ids_set a \<union> M \<and>
     ids_set (m_orders_in_vehicle v') = ids_set (m_orders_in_vehicle v) \<union> M \<and>
     m_orders v' = m_orders v \<and> m_feasable_orders v' = m_feasable_orders v \<and>
     m_id v' = m_id v \<and> m_capacity v' = m_capacity v \<and> veh_speed v' = veh_speed v \<and> clock v' = clock v)"

lemma filled_refl: "fill_ok cm v u \<Longrightarrow> ids_inv a \<Longrightarrow> filled cm (v, u, a) {} (v, u, a)"
  by (simp add: filled_def)

lemma filled_trans:
  "filled cm st M st' \<Longrightarrow> filled cm st' M' st'' \<Longrightarrow> filled cm st (M \<union> M') st''"
  by (cases st; cases st'; cases st'') (auto simp: filled_def)

lemma extends_filled:
  assumes "extends cm v (m_orders v ! i) v1" "fill_ok cm v u" "candidates v u c" "i \<in> ids_set c"
    "is_feasable v1" "ids_inv a"
  shows "filled cm (v, u, a) {i} (v1, ids_remove u i, ids_add a i)"
proof -
  have "pd_wf cm v" "ids_inv u" using assms(2) by (simp_all add: fill_ok_def)
  then show ?thesis
    using extends_fill_ok[OF assms(1-5)] extends_fields[OF assms(1)] candidate(4)[OF assms(2-4)]
      extends_clock[OF assms(1) _ candidate(3,5)[OF assms(2-4)]] assms(6)
    by (simp add: filled_def pd_wf_def)
qed

lemma candidates_remove:
  assumes "candidates v u c" "fill_ok cm v u"
  shows "candidates v u (ids_remove c i)"
    "ids_inv d \<Longrightarrow> m_feasable_orders v1 = m_feasable_orders v \<Longrightarrow> ids_set d \<subseteq> ids_set c \<Longrightarrow>
      candidates v1 (ids_remove u i) (ids_remove d i)"
  using assms by (auto simp: candidates_def fill_ok_def)

lemma settle_spec:
  assumes "fill_ok cm v u" "candidates v u c" "i \<in> ids_set c" "ids_inv a"
    and "v1 = v \<or> extends cm v (m_orders v ! i) v1"
  shows "\<exists>st c'. settle cm kind c (m_orders v ! i) v1 u a = Inr (st, c') \<and>
    candidates (fst st) (fst (snd st)) c' \<and> ids_set c' \<subseteq> ids_set c - {i} \<and>
    (if is_feasable v1 \<and> v1 \<noteq> v then st = (v1, ids_remove u i, ids_add a i) \<and> filled cm (v, u, a) {i} st
     else st = (v, u, a))"
proof -
  let ?q = "m_orders v ! i"
  have wf: "pd_wf cm v" "is_feasable v" using assms(1) by (simp_all add: fill_ok_def)
  note c = candidate[OF assms(1-3)]
  have cinv: "ids_inv c" using assms(2) by (simp add: candidates_def)
  have inv: "veh_invariant v = Inr ()" using wf(1) by (auto intro: veh_invariant_wf simp: pd_wf_def)
  consider "v1 = v" | "v1 \<noteq> v" "extends cm v ?q v1" "\<not> is_feasable v1"
    | "v1 \<noteq> v" "extends cm v ?q v1" "is_feasable v1"
    using assms(5) by blast
  then show ?thesis
  proof cases
    case 1
    then show ?thesis
      using wf(2) c(4,5) inv candidates_remove(1)[OF assms(2,1), of i] cinv
      by (simp add: settle_def)
  next
    case 2
    have "orders_size v1 \<noteq> 1"
    proof
      assume "orders_size v1 = 1"
      moreover have "ids_inv (m_orders_in_vehicle v)" using wf(1) by (simp add: pd_wf_def)
      moreover have "i \<notin> ids_set (m_orders_in_vehicle v)"
        using c(4,5) by (simp add: has_order_def)
      ultimately have "ids_set (m_orders_in_vehicle v) = {}"
        using extends_fields(6)[OF 2(2)] c(4) by (simp add: orders_size_def ids_size_card)
      then show False using unladen_extends[OF 2(2) wf(1)] c(6) 2(3) by simp
    qed
    then show ?thesis
      using 2 c(4) inv candidates_remove(1)[OF assms(2,1), of i] cinv
        extends_erase[OF 2(2) wf(1) c(3,5)]
      by (simp add: settle_def)
  next
    case 3
    note f = extends_fields[OF 3(2)]
    have "?q \<in> set (m_orders v)" using c(1) by simp
    then have q: "ids_inv (m_compatibleJ ?q)" "ids_inv (m_compatibleI ?q)"
      using assms(1) by (simp_all add: fill_ok_def)
    define d where "d = (if kind = BestBack then subsetJ ?q c
      else if kind = BestFront then subsetI ?q c else c)"
    have d: "ids_inv d" "ids_set d \<subseteq> ids_set c"
      using q cinv by (simp_all add: d_def subsetI_def subsetJ_def)
    have "veh_invariant v1 = Inr ()"
      using extends_wf[OF 3(2) wf(1) c(3,5)] by (auto intro: veh_invariant_wf simp: pd_wf_def)
    then have "settle cm kind c ?q v1 u a =
        Inr ((v1, ids_remove u i, ids_add a i), ids_remove d i)"
      using 3 f(1,7) c(2,4) by (auto simp: settle_def d_def)
    then show ?thesis
      using 3 d extends_filled[OF 3(2) assms(1-3) 3(3) assms(4)] f(2)
        candidates_remove(2)[OF assms(2,1) d(1), of v1 i] by auto
  qed
qed

section \<open>The loop\<close>

text \<open>A round: an order \<open>j\<close> leaves the candidates, and it moves or nothing changes.\<close>

lemma fill_round:
  assumes "fill_ok cm v u" "candidates v u c" "ids_inv a" "kind \<noteq> OneTruck" "kind \<noteq> OnePerTruck"
    and "\<not> ids_empty c"
  shows "\<exists>j v' u' a' c'. fill_loop cm kind (Suc fuel) c (v, u, a) = fill_loop cm kind fuel c' (v', u', a') \<and>
    j \<in> ids_set c \<and> candidates v' u' c' \<and> ids_set c' \<subseteq> ids_set c - {j} \<and> ids_size c' < ids_size c \<and>
    (filled cm (v, u, a) {j} (v', u', a') \<or>
      (v', u', a') = (v, u, a) \<and>
      \<not> (kind \<in> {FrontTruck, BackTruck} \<and> ids_set (m_orders_in_vehicle v) = {}))"
proof -
  have cinv: "ids_inv c" using assms(2) by (simp add: candidates_def)
  then obtain i where i: "ids_front c = Inr i" "i \<in> ids_set c"
    using assms(6) ids_front_Inr ids_front_in by metis
  obtain j v1 where j: "try_kind cm kind c (m_orders v ! i) v = Inr (m_orders v ! j, v1)"
      "j \<in> ids_set c"
      "v1 = v \<and> kind \<noteq> FrontTruck \<and> kind \<noteq> BackTruck \<or> extends cm v (m_orders v ! j) v1"
    using try_kind_spec[OF assms(1,2) i(2) assms(4,5)] by blast
  have j3: "v1 = v \<or> extends cm v (m_orders v ! j) v1" using j(3) by blast
  obtain st c' where st: "settle cm kind c (m_orders v ! j) v1 u a = Inr (st, c')"
      "candidates (fst st) (fst (snd st)) c'" "ids_set c' \<subseteq> ids_set c - {j}"
      "if is_feasable v1 \<and> v1 \<noteq> v then filled cm (v, u, a) {j} st else st = (v, u, a)"
    using settle_spec[OF assms(1,2) j(2) assms(3) j3, of kind] by (auto split: if_splits)
  obtain v' u' a' where vua: "st = (v', u', a')" by (cases st)
  have moves: "is_feasable v1 \<and> v1 \<noteq> v"
    if "kind \<in> {FrontTruck, BackTruck}" "ids_set (m_orders_in_vehicle v) = {}"
  proof -
    have e: "extends cm v (m_orders v ! j) v1" using j(3) that(1) by auto
    have "pd_wf cm v" using assms(1) by (simp add: fill_ok_def)
    then have "is_feasable v1"
      using unladen_extends[OF e _ that(2)] candidate(6)[OF assms(1,2) j(2)] by simp
    then show ?thesis
      using extends_fields(7)[OF e] candidate(5)[OF assms(1,2) j(2)] by auto
  qed
  have "ids_size c' < ids_size c"
    using st(2,3) cinv j(2) psubset_card_mono[of "ids_set c" "ids_set c'"]
    by (auto simp: ids_size_card candidates_def)
  moreover have "fill_loop cm kind (Suc fuel) c (v, u, a) = fill_loop cm kind fuel c' (v', u', a')"
    using assms(5,6) i(1) j(1) st(1) candidate(2)[OF assms(1,2) i(2)]
    by (simp add: fill_loop.simps[of _ _ "Suc fuel"] vua)
  moreover have "filled cm (v, u, a) {j} (v', u', a') \<or> (v', u', a') = (v, u, a) \<and>
      \<not> (kind \<in> {FrontTruck, BackTruck} \<and> ids_set (m_orders_in_vehicle v) = {})"
    using st(4) moves by (auto simp: vua split: if_splits)
  moreover have "candidates v' u' c'" using st(2) by (simp add: vua)
  ultimately show ?thesis
    using j(2) st(3) by blast
qed

lemma fill_loop_spec:
  assumes "fill_ok cm v u" "candidates v u c" "ids_inv a" "kind \<noteq> OneTruck" "kind \<noteq> OnePerTruck"
    and "ids_size c \<le> fuel"
  shows "\<exists>st M. fill_loop cm kind fuel c (v, u, a) = Inr st \<and> M \<subseteq> ids_set c \<and> filled cm (v, u, a) M st"
  using assms(1-3,6)
proof (induction fuel arbitrary: v u c a)
  case 0
  then have "ids_empty c" by (simp add: ids_size_def ids_empty_def)
  then show ?case
    using 0 filled_refl[OF 0(1,3)] veh_invariant_wf[of cm v]
    by (auto simp: fill_loop.simps fill_ok_def pd_wf_def)
next
  case (Suc fuel)
  show ?case
  proof (cases "ids_empty c")
    case True
    then show ?thesis
      using Suc.prems filled_refl[OF Suc.prems(1,3)] veh_invariant_wf[of cm v]
      by (auto simp: fill_loop.simps fill_ok_def pd_wf_def)
  next
    case False
    obtain j v' u' a' c' where r:
      "fill_loop cm kind (Suc fuel) c (v, u, a) = fill_loop cm kind fuel c' (v', u', a')"
      "j \<in> ids_set c" "candidates v' u' c'" "ids_set c' \<subseteq> ids_set c - {j}" "ids_size c' < ids_size c"
      "filled cm (v, u, a) {j} (v', u', a') \<or> (v', u', a') = (v, u, a)"
      using fill_round[OF Suc.prems(1-3) assms(4,5) False, of fuel] by blast
    have ok: "fill_ok cm v' u'" "ids_inv a'"
      using r(6) Suc.prems(1,3) by (auto simp: filled_def)
    obtain st' M where st': "fill_loop cm kind fuel c' (v', u', a') = Inr st'"
        "M \<subseteq> ids_set c'" "filled cm (v', u', a') M st'"
      using Suc.IH[OF ok(1) r(3) ok(2)] r(5) Suc.prems(4) by auto
    have "filled cm (v, u, a) M st' \<or> filled cm (v, u, a) ({j} \<union> M) st'"
      using r(6) st'(3) filled_trans[of cm "(v, u, a)" "{j}" "(v', u', a')" M st'] by auto
    moreover have "M \<subseteq> ids_set c" "{j} \<union> M \<subseteq> ids_set c" using st'(2) r(2,4) by auto
    ultimately show ?thesis
      unfolding r(1) using st'(1) by blast
  qed
qed

text \<open>An empty vehicle that pushes orders takes at least one of its candidates.\<close>

lemma fill_loop_progress:
  assumes "fill_ok cm v u" "candidates v u c" "ids_inv a" "kind \<in> {FrontTruck, BackTruck}"
    and "ids_size c \<le> fuel" "\<not> ids_empty c" "ids_set (m_orders_in_vehicle v) = {}"
  shows "\<exists>st M. fill_loop cm kind fuel c (v, u, a) = Inr st \<and> M \<subseteq> ids_set c \<and> M \<noteq> {} \<and>
    filled cm (v, u, a) M st"
proof (cases fuel)
  case 0
  then show ?thesis using assms(5,6) by (simp add: ids_size_def ids_empty_def)
next
  case (Suc n)
  have k: "kind \<noteq> OneTruck" "kind \<noteq> OnePerTruck" using assms(4) by auto
  obtain j v' u' a' c' where r:
    "fill_loop cm kind fuel c (v, u, a) = fill_loop cm kind n c' (v', u', a')"
    "j \<in> ids_set c" "candidates v' u' c'" "ids_set c' \<subseteq> ids_set c - {j}" "ids_size c' < ids_size c"
    "filled cm (v, u, a) {j} (v', u', a')"
    using fill_round[OF assms(1-3) k assms(6), of n] assms(4,7) unfolding Suc by blast
  have ok: "fill_ok cm v' u'" "ids_inv a'" using r(6) by (auto simp: filled_def)
  obtain st' M where st': "fill_loop cm kind n c' (v', u', a') = Inr st'"
      "M \<subseteq> ids_set c'" "filled cm (v', u', a') M st'"
    using fill_loop_spec[OF ok(1) r(3) ok(2) k, of n] r(5) assms(5) Suc by auto
  have "{j} \<union> M \<subseteq> ids_set c" using st'(2) r(2,4) by auto
  then show ?thesis
    using st'(1) filled_trans[OF r(6) st'(3)] unfolding r(1)
    by (intro exI[of _ st'] exI[of _ "{j} \<union> M"]) simp
qed

lemma do_while_feasable_spec:
  assumes "fill_ok cm v u" "ids_inv a" "kind \<noteq> OneTruck"
    and "kind = OnePerTruck \<Longrightarrow> ids_set (m_orders_in_vehicle v) = {}"
  shows "\<exists>st M. do_while_feasable cm kind (v, u, a) = Inr st \<and>
    M \<subseteq> ids_set (m_feasable_orders v) \<inter> ids_set u \<and> filled cm (v, u, a) M st \<and>
    (kind \<in> {OnePerTruck, FrontTruck, BackTruck} \<and> ids_set (m_orders_in_vehicle v) = {} \<and>
      ids_set (m_feasable_orders v) \<inter> ids_set u \<noteq> {} \<longrightarrow> M \<noteq> {})"
proof -
  let ?c = "ids_inter (m_feasable_orders v) u"
  have inv: "ids_inv u" "ids_inv (m_feasable_orders v)" "pd_wf cm v" "is_feasable v"
    using assms(1) by (simp_all add: fill_ok_def)
  have c: "candidates v u ?c" "ids_set ?c = ids_set (m_feasable_orders v) \<inter> ids_set u"
    using inv by (simp_all add: candidates_def)
  have loop: "do_while_feasable cm kind (v, u, a) = fill_loop cm kind (ids_size ?c) ?c (v, u, a)"
    using inv(4) by (simp add: do_while_feasable_def Let_def)
  consider "kind = OnePerTruck" | "kind \<in> {FrontTruck, BackTruck}" "\<not> ids_empty ?c"
      "ids_set (m_orders_in_vehicle v) = {}"
    | "kind \<noteq> OnePerTruck"
      "\<not> (kind \<in> {FrontTruck, BackTruck} \<and> \<not> ids_empty ?c \<and> ids_set (m_orders_in_vehicle v) = {})"
    by blast
  then show ?thesis
  proof cases
    case 1
    show ?thesis
    proof (cases "ids_empty ?c")
      case True
      have "fill_loop cm kind (ids_size ?c) ?c (v, u, a) = Inr (v, u, a)"
        using True inv veh_invariant_wf[of cm v] by (simp add: fill_loop.simps pd_wf_def)
      then show ?thesis
        using filled_refl[OF assms(1,2)] True loop c(2) by (auto simp: ids_empty_iff)
    next
      case False
      then obtain n where n: "ids_size ?c = Suc n"
        by (cases "ids_size ?c") (auto simp: ids_size_def ids_empty_def)
      have "ids_inv ?c" using c(1) by (simp add: candidates_def)
      then obtain i where i: "ids_front ?c = Inr i" "i \<in> ids_set ?c"
        using False ids_front_Inr ids_front_in by metis
      note ci = candidate[OF assms(1) c(1) i(2)]
      have empty: "ids_set (m_orders_in_vehicle v) = {}" using assms(4) 1 by blast
      let ?q = "m_orders v ! i" and ?n = "length (m_path v)"
      define v1 where "v1 = carry ?q (via cm v (with_order ?q (sites v) (?n - 1) ?n))"
      have "2 \<le> ?n" using inv(3) veh_wf_nonempty by (auto simp: pd_wf_def)
      then have e: "extends cm v ?q v1" unfolding v1_def by (intro extendsI) auto
      have push: "pd_push_back cm ?q v = Inr v1"
        unfolding v1_def by (rule pd_push_back_eq[OF inv(3) ci(3,5)])
      have feas: "is_feasable v1" using unladen_extends[OF e inv(3) empty] ci(6) by simp
      have "veh_invariant v1 = Inr ()"
        using extends_wf[OF e inv(3) ci(3,5)] by (auto intro: veh_invariant_wf simp: pd_wf_def)
      then have "do_while_feasable cm kind (v, u, a) = Inr (v1, ids_remove u i, ids_add a i)"
        using loop 1 False i(1) ci(2,4) push feas by (simp add: fill_loop.simps[of _ _ "Suc n"] n)
      moreover have "{i} \<subseteq> ids_set (m_feasable_orders v) \<inter> ids_set u" using i(2) c(2) by simp
      ultimately show ?thesis
        using extends_filled[OF e assms(1) c(1) i(2) feas assms(2)]
        by (intro exI[of _ "(v1, ids_remove u i, ids_add a i)"] exI[of _ "{i}"]) simp
    qed
  next
    case 2
    then show ?thesis
      using fill_loop_progress[OF assms(1) c(1) assms(2) 2(1) order_refl 2(2,3)] loop c(2) by metis
  next
    case 3
    then show ?thesis
      using fill_loop_spec[OF assms(1) c(1) assms(2,3) 3(1) order_refl] loop c(2)
      by (metis ids_empty_iff insertE insertI1)
  qed
qed

end
