(* ===== verification/Fleets.thy ===== *)
theory Fleets
  imports Filling
begin

text \<open>
  \<open>Fleet\<close> (\<open>include/vrp/fleet.hpp\<close>, \<open>src/pickDeliver/fleet.cpp\<close>): the vehicles of the problem and
  which of them have been handed out.  The pointer to the problem is the cost matrix, the nodes
  made so far and the error text of the problem's messages.
\<close>

section \<open>The class\<close>

record Fleet =
  m_trucks :: "Vehicle_pickDeliver list"
  m_used :: "nat Identifiers"
  m_un_used :: "nat Identifiers"

text \<open>\<open>get_truck()\<close> and \<open>get_truck(order)\<close>: a copy of the vehicle, and the fleet afterwards.\<close>

definition take_truck :: "nat \<Rightarrow> Fleet \<Rightarrow> Fleet" where
  "take_truck idx f =
     f\<lparr>m_used := ids_add (m_used f) idx,
       m_un_used := (if 1 < ids_size (m_un_used f) then ids_remove (m_un_used f) idx
                     else m_un_used f)\<rparr>"

definition get_truck :: "Fleet \<Rightarrow> (Vehicle_pickDeliver \<times> Fleet) run" where
  "get_truck f =
     bindE (ids_front (m_un_used f)) (\<lambda>idx.
     bindE (pgassert (idx < length (m_trucks f))) (\<lambda>_.
     Inr (m_trucks f ! idx, take_truck idx f)))"

fun find_truck :: "nat \<Rightarrow> Vehicle_pickDeliver list \<Rightarrow> nat list \<Rightarrow> nat option run" where
  "find_truck order ts [] = Inr None"
| "find_truck order ts (i # is') =
     bindE (nthE ts i) (\<lambda>truck.
     if ids_has (m_feasable_orders truck) order then Inr (Some i) else find_truck order ts is')"

text \<open>Behind the loop stands \<open>pgassert(false)\<close>; the code after it is not reached.\<close>

definition get_truck_for :: "nat \<Rightarrow> Fleet \<Rightarrow> (Vehicle_pickDeliver \<times> Fleet) run" where
  "get_truck_for order f =
     bindE (find_truck order (m_trucks f) (m_ids (m_un_used f))) (\<lambda>found.
     case found of
       Some idx \<Rightarrow> Inr (m_trucks f ! idx, take_truck idx f)
     | None \<Rightarrow> Inl AssertFailed)"

definition add_vehicle ::
    "Dmatrix \<Rightarrow> Vehicle_t \<Rightarrow> double \<Rightarrow> Vehicle_node \<Rightarrow> Vehicle_node \<Rightarrow>
      Vehicle_pickDeliver list \<Rightarrow> Vehicle_pickDeliver list run" where
  "add_vehicle cm vehicle factor starting_site ending_site ts =
     bindE (pgassert (is_start starting_site \<and> is_end ending_site)) (\<lambda>_.
     bindE (pgassert (m_opens starting_site \<le> m_closes starting_site)) (\<lambda>_.
     bindE (pgassert (m_opens ending_site \<le> m_closes ending_site)) (\<lambda>_.
     foldE (\<lambda>i ts.
       bindE (Vehicle_pickDeliver_of cm (length ts) (v_id vehicle) starting_site ending_site
                (v_capacity vehicle) (v_speed vehicle) factor) (\<lambda>v.
       bindE (pgassert (m_idx v + 1 = length (ts @ [v]))) (\<lambda>_.
       bindE (veh_is_ok v) (\<lambda>b.
       bindE (pgassert b) (\<lambda>_. Inr (ts @ [v])))))) [0..<nat (cant_v vehicle)] ts)))"

text \<open>The vehicle of unlimited capacity and time that \<open>build_fleet\<close> adds at the end.\<close>

definition phony_vehicle :: "Vehicle_t \<Rightarrow> Vehicle_t" where
  "phony_vehicle v =
     \<lparr>v_id = -1, v_capacity = PInf, v_speed = v_speed v, start_x = start_x v, start_y = start_y v,
      start_node_id = start_node_id v, cant_v = 1, start_open_t = 0, start_close_t = PInf,
      start_service_t = 0, end_x = end_x v, end_y = end_y v, end_node_id = end_node_id v,
      end_open_t = 0, end_close_t = PInf, end_service_t = 0\<rparr>"

definition build_vehicle ::
    "Dmatrix \<Rightarrow> double \<Rightarrow> Vehicle_t \<Rightarrow> Vehicle_node list \<times> Vehicle_pickDeliver list \<Rightarrow>
      (Vehicle_node list \<times> Vehicle_pickDeliver list) run" where
  "build_vehicle cm factor vehicle = (\<lambda>(nodes, ts).
     if cant_v vehicle < 0 then Inl (IllegalNumberOfVehicles (cant_v vehicle))
     else if v_capacity vehicle < 0 then Inl IllegalCapacity
     else if \<not> dm_empty cm \<and> \<not> dm_has_id cm (start_node_id vehicle)
     then Inl (UnableToFindNode (start_node_id vehicle))
     else if \<not> dm_empty cm \<and> \<not> dm_has_id cm (end_node_id vehicle)
     then Inl (UnableToFindNode (end_node_id vehicle))
     else if \<not> (start_open_t vehicle \<le> start_close_t vehicle \<and>
                end_open_t vehicle \<le> end_close_t vehicle \<and>
                start_open_t vehicle \<le> end_close_t vehicle)
     then Inl (IllegalVehicle (v_id vehicle))
     else
       let starting_site = Vehicle_node_of (Tw_node_of_vehicle (length nodes) vehicle kStart);
           nodes1 = nodes @ [starting_site];
           ending_site = Vehicle_node_of (Tw_node_of_vehicle (length nodes1) vehicle kEnd);
           nodes2 = nodes1 @ [ending_site] in
       bindE (pgassert (m_opens starting_site \<le> m_closes starting_site)) (\<lambda>_.
       bindE (pgassert (m_opens ending_site \<le> m_closes ending_site)) (\<lambda>_.
       bindE (pgassert (is_start starting_site \<and> is_end ending_site)) (\<lambda>_.
       bindE (add_vehicle cm vehicle factor starting_site ending_site ts) (\<lambda>ts'.
       Inr (nodes2, ts'))))))"

definition build_fleet ::
    "Dmatrix \<Rightarrow> Vehicle_t list \<Rightarrow> double \<Rightarrow> Vehicle_node list \<Rightarrow> (Vehicle_node list \<times> Fleet) run" where
  "build_fleet cm vehicles factor nodes =
     bindE (nthE vehicles 0) (\<lambda>v0.
     bindE (foldE (build_vehicle cm factor) (vehicles @ [phony_vehicle v0]) (nodes, []))
       (\<lambda>(nodes', ts).
     Inr (nodes', \<lparr>m_trucks = ts, m_used = ids_none, m_un_used = ids_upto (length ts)\<rparr>)))"

text \<open>\<open>is_fleet_ok\<close>: the answer and the problem's error text afterwards.\<close>

fun trucks_ok :: "string \<Rightarrow> Vehicle_pickDeliver list \<Rightarrow> (bool \<times> string) run" where
  "trucks_ok err [] = Inr (True, err)"
| "trucks_ok err (truck # ts) =
     bindE (veh_is_ok truck) (\<lambda>ok.
     if \<not> ok then Inr (False, err @ ''Illegal values found on vehicle'')
     else if \<not> (is_start (hd (m_path truck)) \<and> is_end (last (m_path truck))) then Inl AssertFailed
     else if \<not> is_feasable truck then Inr (False, err @ ''Truck is not feasible'')
     else trucks_ok err ts)"

definition is_fleet_ok :: "string \<Rightarrow> Fleet \<Rightarrow> (bool \<times> string) run" where
  "is_fleet_ok err f = (if err \<noteq> [] then Inr (False, err) else trucks_ok err (m_trucks f))"

fun order_ok_on :: "Dmatrix \<Rightarrow> Order \<Rightarrow> Vehicle_pickDeliver list \<Rightarrow> bool run" where
  "order_ok_on cm order [] = Inr False"
| "order_ok_on cm order (truck # ts) =
     bindE (order_is_valid cm order (veh_speed truck)) (\<lambda>valid.
     if \<not> valid then order_ok_on cm order ts
     else bindE (is_order_feasable cm order truck) (\<lambda>f.
          if f then Inr True else order_ok_on cm order ts))"

definition is_order_ok :: "Dmatrix \<Rightarrow> Order \<Rightarrow> Fleet \<Rightarrow> bool run" where
  "is_order_ok cm order f = order_ok_on cm order (m_trucks f)"

definition fleet_set_compatibles :: "Dmatrix \<Rightarrow> PD_Orders \<Rightarrow> Fleet \<Rightarrow> Fleet run" where
  "fleet_set_compatibles cm orders f =
     bindE (mapE (veh_set_compatibles cm orders) (m_trucks f)) (\<lambda>ts. Inr (f\<lparr>m_trucks := ts\<rparr>))"

end
