(* ===== verification/Solutions.thy ===== *)
theory Solutions
  imports Fleets
begin

text \<open>
  \<open>Solution\<close> (\<open>include/vrp/solution.hpp\<close>, \<open>src/pickDeliver/solution.cpp\<close>): the vehicles in use and
  the fleet they are taken from, and \<open>Initial_solution\<close>
  (\<open>src/pickDeliver/initial_solution.cpp\<close>), which assigns every order to a vehicle.
\<close>

section \<open>Solution\<close>

record Solution =
  fleet :: "Vehicle_pickDeliver list"
  trucks :: Fleet

fun sol_rows :: "int \<Rightarrow> Vehicle_pickDeliver list \<Rightarrow> Schedule_rt list run" where
  "sol_rows i [] = Inr []"
| "sol_rows i (truck # ts) =
     bindE (veh_postgres_result i truck) (\<lambda>data. bindE (sol_rows (i + 1) ts) (\<lambda>rest. Inr (data @ rest)))"

definition sol_postgres_result :: "'a Solution_scheme \<Rightarrow> Schedule_rt list run" where
  "sol_postgres_result s = sol_rows 1 (fleet s)"

definition sol_is_feasable :: "'a Solution_scheme \<Rightarrow> bool" where
  "sol_is_feasable s \<longleftrightarrow> list_all is_feasable (fleet s)"

text \<open>The accumulation loops over the fleet.\<close>

definition total_of :: "(Vehicle_pickDeliver \<Rightarrow> 'n :: {zero, plus}) \<Rightarrow> 'a Solution_scheme \<Rightarrow> 'n" where
  "total_of f s = foldl (\<lambda>total v. total + f v) 0 (fleet s)"

definition sol_duration :: "'a Solution_scheme \<Rightarrow> double" where
  "sol_duration s = total_of duration s"

definition sol_twvTot :: "'a Solution_scheme \<Rightarrow> int" where
  "sol_twvTot s = total_of twvTot s"

definition sol_wait_time :: "'a Solution_scheme \<Rightarrow> double" where
  "sol_wait_time s = total_of total_wait_time s"

definition sol_total_travel_time :: "'a Solution_scheme \<Rightarrow> double" where
  "sol_total_travel_time s = total_of total_travel_time s"

definition sol_total_service_time :: "'a Solution_scheme \<Rightarrow> double" where
  "sol_total_service_time s = total_of total_service_time s"

definition sol_cvTot :: "'a Solution_scheme \<Rightarrow> int" where
  "sol_cvTot s = total_of cvTot s"

definition sol_cost :: "'a Solution_scheme \<Rightarrow> Cost" where
  "sol_cost s =
     (case foldl (\<lambda>(dur, wait, twv, cv) v.
              (dur + duration v, wait + total_wait_time v, twv + twvTot v, cv + cvTot v))
            (0, 0, 0, 0) (fleet s) of
        (dur, wait, twv, cv) \<Rightarrow> (twv, cv, length (fleet s), wait, dur))"

fun sol_cost_less :: "Cost \<Rightarrow> Cost \<Rightarrow> bool" where
  "sol_cost_less (twv, cv, sz, wait, dur) (twv', cv', sz', wait', dur') =
     (if twv < twv' then True else if twv' < twv then False
      else if cv < cv' then True else if cv' < cv then False
      else if sz < sz' then True else if sz' < sz then False
      else if wait < wait' then True else if wait' < wait then False
      else if dur < dur' then True else if dur' < dur then False
      else False)"

definition sol_less :: "'a Solution_scheme \<Rightarrow> 'b Solution_scheme \<Rightarrow> bool" where
  "sol_less lhs rhs = sol_cost_less (sol_cost lhs) (sol_cost rhs)"

definition Solution_of :: "Fleet \<Rightarrow> Solution" where
  "Solution_of f = \<lparr>fleet = [], trucks = f\<rparr>"

section \<open>Initial solution\<close>

record Initial_solution = Solution +
  m_all_orders :: "nat Identifiers"
  m_unassigned :: "nat Identifiers"
  m_assigned :: "nat Identifiers"

definition init_invariant :: "Initial_solution \<Rightarrow> unit run" where
  "init_invariant s =
     bindE (ids_eq (m_all_orders s) (ids_union (m_assigned s) (m_unassigned s))) (\<lambda>eq.
     bindE (pgassert eq) (\<lambda>_.
     pgassert (ids_empty (ids_inter (m_assigned s) (m_unassigned s)))))"

text \<open>
  The loop of \<open>do_while_foo\<close>.  It asserts that every round makes the unassigned set smaller, and
  that assertion is what ends it.
\<close>

function assign_loop :: "Dmatrix \<Rightarrow> Initials_code \<Rightarrow> Initial_solution \<Rightarrow> Initial_solution run" where
  "assign_loop cm kind s =
     (if ids_empty (m_unassigned s) then Inr s
      else
        bindE (ids_front (m_unassigned s)) (\<lambda>i.
        bindE (get_truck_for i (trucks s)) (\<lambda>(truck, f').
        bindE (do_while_feasable cm kind (truck, m_unassigned s, m_assigned s)) (\<lambda>(truck', u, a).
        if ids_size u < ids_size (m_unassigned s)
        then let s' = s\<lparr>fleet := fleet s @ [truck'], trucks := f', m_unassigned := u, m_assigned := a\<rparr> in
             bindE (init_invariant s') (\<lambda>_. assign_loop cm kind s')
        else Inl AssertFailed))))"
  by pat_completeness auto
termination
  by (relation "measure (\<lambda>(cm, kind, s). ids_size (m_unassigned s))") auto

declare assign_loop.simps [simp del]

definition do_while_foo ::
    "Dmatrix \<Rightarrow> Initials_code \<Rightarrow> Initial_solution \<Rightarrow> Initial_solution run" where
  "do_while_foo cm kind s =
     bindE (init_invariant s) (\<lambda>_.
     bindE (pgassert (OneTruck < kind \<and> kind \<le> OneDepot)) (\<lambda>_.
     bindE (assign_loop cm kind s) (\<lambda>s'.
     bindE (pgassert (sol_is_feasable s')) (\<lambda>_.
     bindE (init_invariant s') (\<lambda>_. Inr s')))))"

function one_truck_loop ::
    "Dmatrix \<Rightarrow> Vehicle_pickDeliver \<Rightarrow> Initial_solution \<Rightarrow>
      (Vehicle_pickDeliver \<times> Initial_solution) run" where
  "one_truck_loop cm truck s =
     (if ids_empty (m_unassigned s) then Inr (truck, s)
      else
        bindE (ids_front (m_unassigned s)) (\<lambda>i.
        bindE (orders_at (m_orders truck) i) (\<lambda>order.
        bindE (pd_insert cm order truck) (\<lambda>(_, truck').
        bindE (ids_pop_front (m_unassigned s)) (\<lambda>u.
        let s' = s\<lparr>m_assigned := ids_add (m_assigned s) i, m_unassigned := u\<rparr> in
        bindE (init_invariant s') (\<lambda>_. one_truck_loop cm truck' s'))))))"
  by pat_completeness auto
termination
  by (relation "measure (\<lambda>(cm, truck, s). ids_size (m_unassigned s))")
     (auto simp: ids_pop_front_def ids_size_def split: list.splits)

declare one_truck_loop.simps [simp del]

definition one_truck_all_orders :: "Dmatrix \<Rightarrow> Initial_solution \<Rightarrow> Initial_solution run" where
  "one_truck_all_orders cm s =
     bindE (init_invariant s) (\<lambda>_.
     bindE (get_truck (trucks s)) (\<lambda>(truck, f').
     bindE (one_truck_loop cm truck (s\<lparr>trucks := f'\<rparr>)) (\<lambda>(truck', s').
     let s'' = s'\<lparr>fleet := fleet s' @ [truck']\<rparr> in
     bindE (init_invariant s'') (\<lambda>_. Inr s''))))"

definition Initial_solution_of ::
    "Dmatrix \<Rightarrow> Fleet \<Rightarrow> Initials_code \<Rightarrow> nat \<Rightarrow> Initial_solution run" where
  "Initial_solution_of cm f kind number_of_orders =
     (let s = \<lparr>fleet = [], trucks = f, m_all_orders = ids_upto number_of_orders,
               m_unassigned = ids_upto number_of_orders, m_assigned = ids_none\<rparr> in
      bindE (init_invariant s) (\<lambda>_.
      bindE (pgassert (OneTruck \<le> kind \<and> kind \<le> OneDepot)) (\<lambda>_.
      bindE (if kind = OneTruck then one_truck_all_orders cm s else do_while_foo cm kind s) (\<lambda>s'.
      bindE (init_invariant s') (\<lambda>_. Inr s')))))"

end
