(* ===== verification/Optimizes.thy ===== *)
theory Optimizes
  imports Solutions
begin

text \<open>
  \<open>Optimize\<close> (\<open>include/vrp/optimize.hpp\<close>, \<open>src/pickDeliver/optimize.cpp\<close>): improves a solution by
  moving and exchanging orders between its vehicles, and keeps the best solution seen.  The
  references to vehicles of the fleet that the functions take are positions in it.
\<close>

section \<open>The class\<close>

record Optimize = Solution +
  best_solution :: Solution

definition as_solution :: "'a Solution_scheme \<Rightarrow> Solution" where
  "as_solution s = \<lparr>fleet = fleet s, trucks = trucks s\<rparr>"

definition save_if_best :: "Optimize \<Rightarrow> Optimize" where
  "save_if_best s =
     (let s1 = (if sol_duration s < sol_duration (best_solution s)
                then s\<lparr>best_solution := as_solution s\<rparr> else s) in
      if length (fleet s1) < length (fleet (best_solution s1))
      then s1\<lparr>best_solution := as_solution s1\<rparr> else s1)"

text \<open>A duration that is not a number makes \<open>std::sort\<close> undefined.\<close>

definition sort_by_duration :: "Optimize \<Rightarrow> Optimize run" where
  "sort_by_duration s =
     bindE (std_sort (\<lambda>l r. duration r < duration l) (fleet s)) (\<lambda>vs. Inr (s\<lparr>fleet := vs\<rparr>))"

definition sort_by_size :: "Optimize \<Rightarrow> Optimize run" where
  "sort_by_size s =
     bindE (sort_by_duration s) (\<lambda>s1.
     Inr (s1\<lparr>fleet := sort_by (\<lambda>l r. orders_size r < orders_size l) (fleet s1)\<rparr>))"

definition delete_empty_truck :: "Optimize \<Rightarrow> Optimize" where
  "delete_empty_truck s =
     save_if_best (s\<lparr>fleet := filter (\<lambda>v. \<not> ids_empty (m_orders_in_vehicle v)) (fleet s)\<rparr>)"

text \<open>Inserting an order the way the kind of the problem asks for.\<close>

definition put_order ::
    "Dmatrix \<Rightarrow> Initials_code \<Rightarrow> Order \<Rightarrow> Vehicle_pickDeliver \<Rightarrow> Vehicle_pickDeliver run" where
  "put_order cm kind order v =
     bindE (if kind = OneDepot then pd_semiLIFO cm order v else pd_insert cm order v)
       (\<lambda>(_, v'). Inr v')"

subsection \<open>Moving an order\<close>

definition move_order ::
    "Dmatrix \<Rightarrow> Initials_code \<Rightarrow> Order \<Rightarrow> Vehicle_pickDeliver \<Rightarrow> Vehicle_pickDeliver \<Rightarrow>
      (bool \<times> Vehicle_pickDeliver \<times> Vehicle_pickDeliver) run" where
  "move_order cm kind order from_truck to_truck =
     bindE (pgassert (has_order from_truck order)) (\<lambda>_.
     bindE (pgassert (\<not> has_order to_truck order)) (\<lambda>_.
     bindE (veh_empty to_truck) (\<lambda>e.
     if e then Inr (False, from_truck, to_truck)
     else if \<not> is_phony from_truck \<and> is_phony to_truck then Inr (False, from_truck, to_truck)
     else
       bindE (veh_size from_truck) (\<lambda>n. bindE (veh_size to_truck) (\<lambda>m.
       if m < n then Inr (False, from_truck, to_truck)
       else
         bindE (put_order cm kind order to_truck) (\<lambda>to1.
         if has_order to1 order then
           bindE (pd_erase cm order from_truck) (\<lambda>from1.
           bindE (pgassert (\<not> has_order from1 order \<and> has_order to1 order)) (\<lambda>_.
           Inr (True, from1, to1)))
         else
           bindE (pgassert (has_order from_truck order \<and> \<not> has_order to1 order)) (\<lambda>_.
           Inr (False, from_truck, to1))))))))"

subsection \<open>Exchanging orders\<close>

text \<open>
  The inner loop of \<open>swap_worse\<close> for one order of \<open>from\<close>: \<open>t\<close> and \<open>f\<close> are the positions of the two
  vehicles, \<open>to_truck\<close> and \<open>from_truck\<close> the copies.
\<close>

fun swap_inner ::
    "Dmatrix \<Rightarrow> Initials_code \<Rightarrow> nat \<Rightarrow> nat \<Rightarrow> Order \<Rightarrow> double \<Rightarrow> nat list \<Rightarrow> Optimize \<Rightarrow>
      Vehicle_pickDeliver \<Rightarrow> Vehicle_pickDeliver \<Rightarrow> bool \<Rightarrow>
      (Optimize \<times> Vehicle_pickDeliver \<times> Vehicle_pickDeliver \<times> bool) run" where
  "swap_inner cm kind t f from_order curr_from [] s to_truck from_truck swapped =
     Inr (s, to_truck, from_truck, swapped)"
| "swap_inner cm kind t f from_order curr_from (x # xs) s to_truck from_truck swapped =
     bindE (orders_at (m_orders (fleet s ! t)) x) (\<lambda>to_order.
     if \<not> has_order to_truck to_order
     then swap_inner cm kind t f from_order curr_from xs s to_truck from_truck swapped
     else
       bindE (pgassert (has_order from_truck from_order \<and> has_order to_truck to_order)) (\<lambda>_.
       let curr_to = duration to_truck in
       bindE (pd_erase cm from_order from_truck) (\<lambda>from1.
       bindE (pgassert (has_order to_truck to_order)) (\<lambda>_.
       bindE (pd_erase cm to_order to_truck) (\<lambda>to1.
       bindE (put_order cm kind to_order from1) (\<lambda>from2.
       bindE (put_order cm kind from_order to1) (\<lambda>to2.
       bindE (pgassert (has_order from2 to_order \<and> is_feasable from2 \<or>
                        \<not> has_order from2 to_order)) (\<lambda>_.
       bindE (pgassert (has_order to2 from_order \<and> is_feasable to2 \<or>
                        \<not> has_order to2 from_order)) (\<lambda>_.
       let new_from = duration from2; new_to = duration to2;
           estimated_delta = - (curr_from + curr_to) + (new_to + new_from);
           estimated_duration = sol_duration s + estimated_delta in
       if has_order from2 to_order \<and> has_order to2 from_order \<and>
          (new_from < curr_from \<or> estimated_delta < 0 \<or>
           estimated_duration < sol_duration (best_solution s))
       then
         bindE (pgassert (\<not> (has_order from2 from_order \<and> has_order to2 from_order) \<and>
                          (has_order from2 from_order \<or> has_order to2 from_order) \<and>
                          \<not> (has_order from2 to_order \<and> has_order to2 to_order) \<and>
                          (has_order from2 to_order \<or> has_order to2 to_order))) (\<lambda>_.
         Inr (s\<lparr>fleet := (fleet s)[t := to2, f := from2]\<rparr>, to2, from2, True))
       else
         let to3 = fleet s ! t; from3 = fleet s ! f in
         bindE (pgassert (\<not> (has_order from3 from_order \<and> has_order to3 from_order) \<and>
                          (has_order from3 from_order \<or> has_order to3 from_order) \<and>
                          \<not> (has_order from3 to_order \<and> has_order to3 to_order) \<and>
                          (has_order from3 to_order \<or> has_order to3 to_order))) (\<lambda>_.
         swap_inner cm kind t f from_order curr_from xs s to3 from3 swapped))))))))))"

fun swap_outer ::
    "Dmatrix \<Rightarrow> Initials_code \<Rightarrow> nat \<Rightarrow> nat \<Rightarrow> nat list \<Rightarrow> nat list \<Rightarrow> Optimize \<Rightarrow>
      Vehicle_pickDeliver \<Rightarrow> Vehicle_pickDeliver \<Rightarrow> bool \<Rightarrow> (bool \<times> Optimize) run" where
  "swap_outer cm kind t f to_orders [] s to_truck from_truck swapped = Inr (swapped, s)"
| "swap_outer cm kind t f to_orders (x # xs) s to_truck from_truck swapped =
     bindE (orders_at (m_orders from_truck) x) (\<lambda>from_order.
     bindE (pgassert (has_order from_truck from_order)) (\<lambda>_.
     bindE (move_order cm kind from_order from_truck to_truck) (\<lambda>(moved, from1, to1).
     if moved then
       bindE (pgassert (\<not> has_order from1 from_order \<and> has_order to1 from_order)) (\<lambda>_.
       swap_outer cm kind t f to_orders xs (s\<lparr>fleet := (fleet s)[t := to1, f := from1]\<rparr>)
         to1 from1 swapped)
     else
       bindE (pgassert (has_order from1 from_order)) (\<lambda>_.
       bindE (swap_inner cm kind t f from_order (duration from1) to_orders s to1 from1 swapped)
         (\<lambda>(s2, to2, from2, swapped2).
       swap_outer cm kind t f to_orders xs s2 to2 from2 swapped2)))))"

definition swap_worse ::
    "Dmatrix \<Rightarrow> Initials_code \<Rightarrow> nat \<Rightarrow> nat \<Rightarrow> Optimize \<Rightarrow> (bool \<times> Optimize) run" where
  "swap_worse cm kind t f s =
     (let from_truck = fleet s ! f; to_truck = fleet s ! t;
          from_orders = m_orders_in_vehicle from_truck; to_orders = m_orders_in_vehicle to_truck in
      bindE (pgassert (ids_empty (ids_inter from_orders to_orders))) (\<lambda>_.
      swap_outer cm kind t f (m_ids to_orders) (m_ids from_orders) s to_truck from_truck False))"

subsection \<open>Reducing the cost\<close>

text \<open>\<open>move_reduce_cost\<close> works on copies only; of the object it changes \<open>best_solution\<close> at most.\<close>

fun reduce_loop ::
    "Dmatrix \<Rightarrow> Initials_code \<Rightarrow> nat list \<Rightarrow> Vehicle_pickDeliver \<Rightarrow> Vehicle_pickDeliver \<Rightarrow> bool \<Rightarrow>
      Optimize \<Rightarrow> (bool \<times> Optimize) run" where
  "reduce_loop cm kind [] from_truck to_truck moved s = Inr (moved, s)"
| "reduce_loop cm kind (x # xs) from_truck to_truck moved s =
     bindE (orders_at (m_orders from_truck) x) (\<lambda>order.
     let curr_duration = duration from_truck + duration to_truck in
     bindE (pgassert (\<not> has_order to_truck order)) (\<lambda>_.
     bindE (put_order cm kind order to_truck) (\<lambda>to1.
     bindE (pgassert (has_order to1 order \<and> is_feasable to1 \<or> \<not> has_order to1 order)) (\<lambda>_.
     if has_order to1 order then
       bindE (pd_erase cm order from_truck) (\<lambda>from1.
       let new_duration = duration from1 + duration to1 in
       bindE (if new_duration < curr_duration then Inr True else veh_empty from1) (\<lambda>better.
       if better \<or> new_duration < sol_duration (best_solution s)
       then reduce_loop cm kind xs from1 to1 True (save_if_best s)
       else
         bindE (pd_erase cm order to1) (\<lambda>to2.
         bindE (put_order cm kind order from1) (\<lambda>from2.
         reduce_loop cm kind xs from2 to2 moved s))))
     else reduce_loop cm kind xs from_truck to1 moved s))))"

definition move_reduce_cost ::
    "Dmatrix \<Rightarrow> Initials_code \<Rightarrow> nat \<Rightarrow> nat \<Rightarrow> Optimize \<Rightarrow> (bool \<times> Optimize) run" where
  "move_reduce_cost cm kind f t s =
     bindE (pgassert (f \<noteq> t)) (\<lambda>_.
     let from_truck = fleet s ! f; to_truck = fleet s ! t in
     bindE (veh_empty to_truck) (\<lambda>e.
     if e then Inr (False, s)
     else if \<not> is_phony from_truck \<and> is_phony to_truck then Inr (False, s)
     else reduce_loop cm kind (m_ids (m_orders_in_vehicle from_truck)) from_truck to_truck False s))"

subsection \<open>Decreasing the number of vehicles\<close>

text \<open>The search for the first vehicle before \<open>position\<close> that takes the order.\<close>

fun hand_over ::
    "Dmatrix \<Rightarrow> Order \<Rightarrow> nat \<Rightarrow> nat list \<Rightarrow> Optimize \<Rightarrow> Optimize run" where
  "hand_over cm order position [] s = Inr s"
| "hand_over cm order position (i # is') s =
     bindE (pd_insert cm order (fleet s ! i)) (\<lambda>(_, v).
     bindE (pgassert (has_order v order \<and> is_feasable v \<or> \<not> has_order v order)) (\<lambda>_.
     let s1 = s\<lparr>fleet := (fleet s)[i := v]\<rparr> in
     if has_order v order
     then bindE (pd_erase cm order (fleet s1 ! position)) (\<lambda>w.
          Inr (s1\<lparr>fleet := (fleet s1)[position := w]\<rparr>))
     else hand_over cm order position is' s1))"

definition decrease_truck_at :: "Dmatrix \<Rightarrow> nat \<Rightarrow> Optimize \<Rightarrow> (bool \<times> Optimize) run" where
  "decrease_truck_at cm position s =
     bindE (foldE (\<lambda>x s.
              bindE (orders_at (m_orders (fleet s ! position)) x) (\<lambda>order.
              bindE (pgassert (m_idx order = x)) (\<lambda>_.
              hand_over cm order position [0..<position] s)))
            (m_ids (m_orders_in_vehicle (fleet s ! position))) s) (\<lambda>s1.
     Inr (ids_empty (m_orders_in_vehicle (fleet s1 ! position)), s1))"

text \<open>
  \<open>decrease_truck()\<close> calls itself as long as a vehicle was emptied.  The fuel counts the calls;
  \<open>decrease_bound\<close> is enough, because each order that moves goes to an earlier vehicle.
\<close>

fun decrease_truck :: "Dmatrix \<Rightarrow> nat \<Rightarrow> Optimize \<Rightarrow> Optimize run" where
  "decrease_truck cm 0 s = Inl Diverges"
| "decrease_truck cm (Suc fuel) s =
     bindE (foldE (\<lambda>i (decreased, s).
              bindE (decrease_truck_at cm i s) (\<lambda>(b, s1). Inr (b \<or> decreased, s1)))
            [1..<length (fleet s)] (False, s)) (\<lambda>(decreased, s1).
     if decreased
     then bindE (decrease_truck cm fuel (save_if_best (delete_empty_truck s1))) (\<lambda>s2.
          Inr (save_if_best s2))
     else Inr (save_if_best s1))"

fun weight :: "nat \<Rightarrow> Vehicle_pickDeliver list \<Rightarrow> nat" where
  "weight k [] = 0"
| "weight k (v # vs) = k * orders_size v + weight (Suc k) vs"

definition decrease_bound :: "Optimize \<Rightarrow> nat" where
  "decrease_bound s = weight 0 (fleet s) + length (fleet s)"

subsection \<open>The cycles\<close>

definition inter_swap :: "Dmatrix \<Rightarrow> Initials_code \<Rightarrow> Optimize \<Rightarrow> (bool \<times> Optimize) run" where
  "inter_swap cm kind s =
     (let s1 = delete_empty_truck s in
      bindE (foldE (\<lambda>f. foldE (\<lambda>t s.
               bindE (swap_worse cm kind t f s) (\<lambda>(_, s').
               bindE (move_reduce_cost cm kind f t s') (\<lambda>(_, s''). Inr s''))) [0..<f])
             [0..<length (fleet s1)] s1) (\<lambda>s2.
      Inr (False, delete_empty_truck s2)))"

text \<open>\<open>std::rotate\<close> by one; \<open>begin() + 1\<close> does not exist when the fleet is empty.\<close>

definition rotate_fleet :: "Optimize \<Rightarrow> Optimize run" where
  "rotate_fleet s =
     (if fleet s = [] then Inl UndefinedBehaviour else Inr (s\<lparr>fleet := rotate1 (fleet s)\<rparr>))"

definition inter_swap_times :: "Dmatrix \<Rightarrow> Initials_code \<Rightarrow> nat \<Rightarrow> Optimize \<Rightarrow> Optimize run" where
  "inter_swap_times cm kind p_times s =
     bindE (sort_by_size s) (\<lambda>s1.
     bindE (decrease_truck cm (Suc (decrease_bound s1)) s1) (\<lambda>s2.
     bindE (sort_by_size s2)
       (foldE (\<lambda>_ s. bindE (inter_swap cm kind s) (\<lambda>(_, s'). rotate_fleet s')) [0..<p_times])))"

definition Optimize_of :: "Dmatrix \<Rightarrow> Initials_code \<Rightarrow> Solution \<Rightarrow> nat \<Rightarrow> Optimize run" where
  "Optimize_of cm kind old_solution p_times =
     bindE (inter_swap_times cm kind p_times
              \<lparr>fleet = fleet old_solution, trucks = trucks old_solution,
               best_solution = old_solution\<rparr>) (\<lambda>s.
     sort_by_size (s\<lparr>fleet := fleet (best_solution s)\<rparr>))"

end
