(* ===== verification/Pick_delivers.thy ===== *)
theory Pick_delivers
  imports Optimizes
begin

text \<open>
  \<open>Pgr_pickDeliver\<close> (\<open>include/vrp/pickDeliver.hpp\<close>, \<open>src/pickDeliver/pickDeliver.cpp\<close>), the
  problem, and its driver \<open>pgr_do_pickDeliver\<close> (\<open>src/pickDeliver/pickDeliver_driver.cpp\<close>) from the
  rows that the queries return to the rows, notice or error that the user sees.
\<close>

section \<open>The problem\<close>

record Pgr_pickDeliver =
  m_initial_id :: int
  m_max_cycles :: nat
  m_nodes :: "Vehicle_node list"
  m_cost_matrix :: Dmatrix
  p_orders :: PD_Orders
  p_trucks :: Fleet
  solutions :: "Solution list"
  msg_error :: string

fun orders_all_ok :: "Dmatrix \<Rightarrow> Fleet \<Rightarrow> Order list \<Rightarrow> bool run" where
  "orders_all_ok cm f [] = Inr True"
| "orders_all_ok cm f (q # qs) =
     bindE (is_order_ok cm q f) (\<lambda>ok. if ok then orders_all_ok cm f qs else Inr False)"

definition Pgr_pickDeliver_of ::
    "Orders_t list \<Rightarrow> Vehicle_t list \<Rightarrow> Dmatrix \<Rightarrow> double \<Rightarrow> nat \<Rightarrow> int \<Rightarrow> Pgr_pickDeliver run" where
  "Pgr_pickDeliver_of pd_orders vehicles cm factor max_cycles initial =
     bindE (build_orders cm pd_orders []) (\<lambda>(nodes, orders).
     bindE (build_fleet cm vehicles factor nodes) (\<lambda>(nodes', f).
     let p = \<lparr>m_initial_id = initial, m_max_cycles = max_cycles, m_nodes = nodes',
              m_cost_matrix = cm, p_orders = orders, p_trucks = f, solutions = [],
              msg_error = []\<rparr> in
     bindE (pgassert (pd_orders \<noteq> [])) (\<lambda>_.
     bindE (pgassert (vehicles \<noteq> [])) (\<lambda>_.
     bindE (pgassert (\<not> dm_empty cm)) (\<lambda>_.
     bindE (pgassert (0 < initial \<and> initial \<le> kind_code OneDepot)) (\<lambda>_.
     bindE (pgassert (nodes' \<noteq> [])) (\<lambda>_.
     bindE (is_fleet_ok [] f) (\<lambda>(ok, err).
     if \<not> ok then
       bindE (pgassert (err = [])) (\<lambda>_. Inr (p\<lparr>msg_error := err\<rparr>))
     else
       bindE (orders_all_ok cm f orders) (\<lambda>all_ok.
       if \<not> all_ok
       then Inr (p\<lparr>msg_error := err @ ''Order not feasible on any truck was found''\<rparr>)
       else
         bindE (fleet_set_compatibles cm orders f) (\<lambda>f'.
         Inr (p\<lparr>p_trucks := f'\<rparr>)))))))))))"

text \<open>\<open>(Initials_code) i\<close>; for a number without enumerator \<open>Initial_solution\<close> asserts.\<close>

definition initial_of :: "Pgr_pickDeliver \<Rightarrow> int \<Rightarrow> Solution run" where
  "initial_of p i =
     (case kind_of i of
        None \<Rightarrow> Inl AssertFailed
      | Some kind \<Rightarrow>
          bindE (Initial_solution_of (m_cost_matrix p) (p_trucks p) kind (length (p_orders p)))
            (\<lambda>s. Inr (as_solution s)))"

definition problem_kind :: "Pgr_pickDeliver \<Rightarrow> Initials_code run" where
  "problem_kind p = (case kind_of (m_initial_id p) of None \<Rightarrow> Inl AssertFailed | Some k \<Rightarrow> Inr k)"

definition solve :: "Pgr_pickDeliver \<Rightarrow> Pgr_pickDeliver run" where
  "solve p =
     bindE (mapE (initial_of p) (if m_initial_id p = 0 then [1..6] else [m_initial_id p])) (\<lambda>new.
     bindE (pgassert (solutions p @ new \<noteq> [])) (\<lambda>_.
     bindE (std_sort (\<lambda>lhs rhs. sol_less rhs lhs) (solutions p @ new)) (\<lambda>initial_sols.
     bindE (problem_kind p) (\<lambda>kind.
     bindE (Optimize_of (m_cost_matrix p) kind (last initial_sols) (m_max_cycles p)) (\<lambda>opt.
     Inr (p\<lparr>solutions := solutions p @ [as_solution opt]\<rparr>))))))"

text \<open>The summary row behind the stops.\<close>

definition aggregates :: "Solution \<Rightarrow> Schedule_rt" where
  "aggregates s =
     \<lparr>vehicle_seq = -2, vehicle_id = sol_twvTot s, stop_seq = sol_cvTot s, order_id = Some (-1),
      stop_id = -1, stop_type = -2, sch_cargo = Fin (-1), travelTime = sol_total_travel_time s,
      arrivalTime = Fin (-1), waitTime = sol_wait_time s, serviceTime = sol_total_service_time s,
      departureTime = sol_duration s\<rparr>"

definition problem_postgres_result :: "Pgr_pickDeliver \<Rightarrow> Schedule_rt list run" where
  "problem_postgres_result p =
     (if solutions p = [] then Inl UndefinedBehaviour
      else bindE (sol_postgres_result (last (solutions p))) (\<lambda>result.
           Inr (result @ [aggregates (last (solutions p))])))"

section \<open>The driver\<close>

datatype answer = Rows "Schedule_rt list" | Notice string | Error string

text \<open>
  The \<open>catch\<close> clauses: the text an exception puts into the error message.  Undefined behaviour
  is no exception.
\<close>

fun caught :: "pgr_error \<Rightarrow> string option" where
  "caught AssertFailed = Some ''AssertFailedException''"
| "caught (UnableToFindNode i) = Some ''Unable to find node on matrix''"
| "caught (NodeNotInMatrix i) = Some ''(INTERNAL) Dmatrix: Unable to find node on matrix''"
| "caught (IllegalNumberOfVehicles n) = Some ''Illegal number of vehicles found''"
| "caught (IllegalVehicle i) = Some ''Illegal values found on vehicle''"
| "caught IllegalCapacity = Some ''Caught unknown exception!''"
| "caught (KeyNotFound k) = Some ''map::at''"
| "caught (Thrown ex) = Some ex"
| "caught UndefinedBehaviour = None"
| "caught Diverges = None"

definition catching :: "answer run \<Rightarrow> answer run" where
  "catching r =
     (case r of
        Inr ans \<Rightarrow> Inr ans
      | Inl e \<Rightarrow> (case caught e of Some text \<Rightarrow> Inr (Error text) | None \<Rightarrow> Inl e))"

definition one_depot_error :: "Vehicle_t list \<Rightarrow> Orders_t list \<Rightarrow> string option" where
  "one_depot_error vehicles orders =
     (let depot_node = start_node_id (hd vehicles) in
      if list_ex (\<lambda>v. start_node_id v \<noteq> depot_node \<and> end_node_id v \<noteq> depot_node) vehicles
      then Some ''All vehicles must depart & arrive to same node''
      else if list_ex (\<lambda>q. pick_node_id q \<noteq> depot_node) orders
      then Some ''All orders must be picked at depot''
      else None)"

definition run_problem ::
    "Orders_t list \<Rightarrow> Vehicle_t list \<Rightarrow> Dmatrix \<Rightarrow> double \<Rightarrow> int \<Rightarrow> int \<Rightarrow> answer run" where
  "run_problem orders vehicles cm factor max_cycles initial =
     bindE (Pgr_pickDeliver_of orders vehicles cm factor (nat (max_cycles mod 2 ^ 64)) initial) (\<lambda>p.
     if msg_error p \<noteq> [] then Inr (Error (msg_error p))
     else
       bindE (solve p) (\<lambda>p'.
       bindE (problem_postgres_result p') (\<lambda>rows. Inr (Rows rows))))"

definition do_pickDeliver ::
    "Orders_t list \<Rightarrow> Vehicle_t list \<Rightarrow> IID_t_rt list \<Rightarrow> double \<Rightarrow> int \<Rightarrow> int \<Rightarrow> answer run" where
  "do_pickDeliver orders vehicles data_costs factor max_cycles initial =
     (if orders = [] \<or> vehicles = [] \<or> data_costs = []
      then Inr (Notice ''Insufficient data found on inner query'')
      else catching
        (bindE (Dmatrix_of_rows data_costs) (\<lambda>cm.
         case (if initial = kind_code OneDepot then one_depot_error vehicles orders else None) of
           Some err \<Rightarrow> Inr (Error err)
         | None \<Rightarrow>
             if \<not> has_no_infinity cm then Inr (Error ''An Infinity value was found on the Matrix'')
             else run_problem orders vehicles cm factor max_cycles initial)))"

end
