(* ===== verification/Columns.thy ===== *)
theory Columns
  imports Doubles Identifiers
begin

text \<open>
  Values of SQL rows: \<open>src/cpp_common/get_check_data.cpp\<close>, \<open>include/cpp_common/info_t.hpp\<close> and
  the two wrappers of \<open>src/common/postgres_connection.c\<close> that open a query.  The server
  programming interface of PostgreSQL is the argument \<open>spi\<close> of every definition: a record of its
  functions, over tuples \<open>'t\<close>, tuple descriptors \<open>'d\<close>, datums \<open>'v\<close> and plans and portals \<open>'p\<close>.
\<close>

section \<open>The interface of the server\<close>

text \<open>An array as \<open>ARR_ELEMTYPE\<close>, \<open>ARR_NDIM\<close>, \<open>ArrayGetNItems\<close> and \<open>deconstruct_array\<close> show it.\<close>

record 'v ArrayType =
  elemtype :: nat
  ndim :: int
  nitems :: int
  elements :: "('v \<times> bool) list"

record ('t, 'd, 'v, 'p) spi =
  SPI_prepare :: "string \<Rightarrow> 'p option"
  SPI_cursor_open :: "'p \<Rightarrow> 'p option"
  SPI_cursor_fetch :: "'p \<Rightarrow> nat \<Rightarrow> 't list \<times> 'd \<times> 'p"
  SPI_fnumber :: "'d \<Rightarrow> string \<Rightarrow> int"
  SPI_gettypeid :: "'d \<Rightarrow> int \<Rightarrow> nat"
  SPI_getbinval :: "'t \<Rightarrow> 'd \<Rightarrow> int \<Rightarrow> 'v \<times> bool"
  SPI_getvalue :: "'t \<Rightarrow> 'd \<Rightarrow> int \<Rightarrow> string option"
  DatumGetInt16 :: "'v \<Rightarrow> int"
  DatumGetInt32 :: "'v \<Rightarrow> int"
  DatumGetInt64 :: "'v \<Rightarrow> int"
  DatumGetFloat4 :: "'v \<Rightarrow> double"
  DatumGetFloat8 :: "'v \<Rightarrow> double"
  numeric_float8_no_overflow :: "'v \<Rightarrow> 'v"
  char_at_1 :: "'v \<Rightarrow> char"
  DatumGetArrayTypeP :: "'v \<Rightarrow> 'v ArrayType"

text \<open>The object ids of the types (\<open>catalog/pg_type.h\<close>) and the number of a missing column.\<close>

abbreviation (input) InvalidOid :: nat where "InvalidOid \<equiv> 0"
abbreviation (input) INT8OID :: nat where "INT8OID \<equiv> 20"
abbreviation (input) INT2OID :: nat where "INT2OID \<equiv> 21"
abbreviation (input) INT4OID :: nat where "INT4OID \<equiv> 23"
abbreviation (input) TEXTOID :: nat where "TEXTOID \<equiv> 25"
abbreviation (input) FLOAT4OID :: nat where "FLOAT4OID \<equiv> 700"
abbreviation (input) FLOAT8OID :: nat where "FLOAT8OID \<equiv> 701"
abbreviation (input) INT2ARRAYOID :: nat where "INT2ARRAYOID \<equiv> 1005"
abbreviation (input) INT4ARRAYOID :: nat where "INT4ARRAYOID \<equiv> 1007"
abbreviation (input) BPCHAROID :: nat where "BPCHAROID \<equiv> 1042"
abbreviation (input) NUMERICOID :: nat where "NUMERICOID \<equiv> 1700"
abbreviation (input) SPI_ERROR_NOATTRIBUTE :: int where "SPI_ERROR_NOATTRIBUTE \<equiv> -9"

section \<open>Errors\<close>

datatype expectType = ANY_INTEGER | ANY_NUMERICAL | TEXT | CHAR1 | ANY_INTEGER_ARRAY

datatype sql_error =
    ColumnNotFound string              \<comment> \<open>\<open>Column 'name' not Found\<close>\<close>
  | TypeNotFound string                \<comment> \<open>\<open>Type of column 'name' not Found\<close>\<close>
  | UnexpectedType string expectType   \<comment> \<open>\<open>Unexpected Column 'name' type. Expected \<dots>\<close>\<close>
  | UnexpectedTypeOf string expectType \<comment> \<open>\<open>Unexpected Column type of name. Expected \<dots>\<close>\<close>
  | UnexpectedNull string              \<comment> \<open>\<open>Unexpected Null value in column name\<close>\<close>
  | OneDimensionExpected
  | NoElementsFound
  | ExpectedIntegerArray
  | NullInArray
  | Ereport string                     \<comment> \<open>\<open>ereport(ERROR, \<dots>)\<close>, \<open>elog(ERROR, \<dots>)\<close>: leaves the function without an exception\<close>
  | NoReturn                           \<comment> \<open>a loop that does not end\<close>

text \<open>The text of the exceptions.\<close>

definition expected_text :: "expectType \<Rightarrow> string" where
  "expected_text ty =
     (case ty of ANY_INTEGER \<Rightarrow> ''ANY-INTEGER'' | ANY_NUMERICAL \<Rightarrow> ''ANY-NUMERICAL'' | TEXT \<Rightarrow> ''TEXT''
      | CHAR1 \<Rightarrow> ''TEXT'' | ANY_INTEGER_ARRAY \<Rightarrow> ''ANY-INTEGER-ARRAY'')"

definition quoted :: "string \<Rightarrow> string" where
  "quoted n = [CHR 0x27] @ n @ [CHR 0x27]"

fun error_text :: "sql_error \<Rightarrow> string option" where
  "error_text (ColumnNotFound n) = Some (''Column '' @ quoted n @ '' not Found'')"
| "error_text (TypeNotFound n) = Some (''Type of column '' @ quoted n @ '' not Found'')"
| "error_text (UnexpectedType n ty) = Some (''Unexpected Column '' @ quoted n @ '' type. Expected '' @ expected_text ty)"
| "error_text (UnexpectedTypeOf n ty) =
     Some (''Unexpected Column type of '' @ n @ ''. Expected '' @ (if ty = CHAR1 then ''CHAR'' else expected_text ty))"
| "error_text (UnexpectedNull n) = Some (''Unexpected Null value in column '' @ n)"
| "error_text OneDimensionExpected = Some ''One dimension expected''"
| "error_text NoElementsFound = Some ''No elements found''"
| "error_text ExpectedIntegerArray = Some ''Expected array of ANY-INTEGER''"
| "error_text NullInArray = Some ''NULL value found in Array!''"
| "error_text (Ereport s) = None"
| "error_text NoReturn = None"

section \<open>Columns\<close>

record Column_info_t =
  colNumber :: int
  col_type :: nat
  col_strict :: bool
  col_name :: string
  eType :: expectType

definition get_column_info :: "('t, 'd, 'v, 'p) spi \<Rightarrow> 'd \<Rightarrow> Column_info_t \<Rightarrow> sql_error + (bool \<times> Column_info_t)" where
  "get_column_info spi tupdesc info0 =
     (let info = info0\<lparr>colNumber := SPI_fnumber spi tupdesc (col_name info0)\<rparr> in
      if col_strict info \<and> colNumber info = SPI_ERROR_NOATTRIBUTE then Inl (ColumnNotFound (col_name info))
      else if colNumber info \<noteq> SPI_ERROR_NOATTRIBUTE then
        (let info' = info\<lparr>col_type := SPI_gettypeid spi tupdesc (colNumber info)\<rparr> in
         if col_type info' = InvalidOid then Inl (TypeNotFound (col_name info)) else Inr (True, info'))
      else Inr (False, info))"

definition unexpected :: "bool \<Rightarrow> Column_info_t \<Rightarrow> sql_error + unit" where
  "unexpected ok info = (if \<not> ok then Inl (UnexpectedType (col_name info) (eType info)) else Inr ())"

definition check_any_integer_type :: "Column_info_t \<Rightarrow> sql_error + unit" where
  "check_any_integer_type info =
     unexpected (col_type info = INT2OID \<or> col_type info = INT4OID \<or> col_type info = INT8OID) info"

definition check_any_numerical_type :: "Column_info_t \<Rightarrow> sql_error + unit" where
  "check_any_numerical_type info =
     unexpected (col_type info = INT2OID \<or> col_type info = INT4OID \<or> col_type info = INT8OID \<or>
       col_type info = FLOAT4OID \<or> col_type info = FLOAT8OID \<or> col_type info = NUMERICOID) info"

definition check_text_type :: "Column_info_t \<Rightarrow> sql_error + unit" where
  "check_text_type info = unexpected (col_type info = TEXTOID) info"

definition check_char_type :: "Column_info_t \<Rightarrow> sql_error + unit" where
  "check_char_type info = unexpected (col_type info = BPCHAROID) info"

definition check_any_integer_array_type :: "Column_info_t \<Rightarrow> sql_error + unit" where
  "check_any_integer_array_type info =
     unexpected (col_type info = INT2ARRAYOID \<or> col_type info = INT4ARRAYOID \<or> col_type info = 1016) info"

definition column_found :: "int \<Rightarrow> bool" where
  "column_found n \<longleftrightarrow> \<not> n = SPI_ERROR_NOATTRIBUTE"

definition check_type :: "Column_info_t \<Rightarrow> sql_error + unit" where
  "check_type info =
     (case eType info of
        ANY_INTEGER \<Rightarrow> check_any_integer_type info
      | ANY_NUMERICAL \<Rightarrow> check_any_numerical_type info
      | TEXT \<Rightarrow> check_text_type info
      | CHAR1 \<Rightarrow> check_char_type info
      | ANY_INTEGER_ARRAY \<Rightarrow> check_any_integer_array_type info)"

fun fetch_column_info :: "('t, 'd, 'v, 'p) spi \<Rightarrow> 'd \<Rightarrow> Column_info_t list \<Rightarrow> sql_error + Column_info_t list" where
  "fetch_column_info spi tupdesc [] = Inr []"
| "fetch_column_info spi tupdesc (coldata # info) =
     bindE (get_column_info spi tupdesc coldata) (\<lambda>(found, c).
     bindE (if found then check_type c else Inr ()) (\<lambda>_.
     bindE (fetch_column_info spi tupdesc info) (\<lambda>cs. Inr (c # cs))))"

section \<open>Values\<close>

definition getChar ::
    "('t, 'd, 'v, 'p) spi \<Rightarrow> 't \<Rightarrow> 'd \<Rightarrow> Column_info_t \<Rightarrow> bool \<Rightarrow> char \<Rightarrow> sql_error + char" where
  "getChar spi tuple tupdesc info strict default_value =
     (let (binval, isNull) = SPI_getbinval spi tuple tupdesc (colNumber info) in
      if \<not> col_type info = BPCHAROID then Inl (UnexpectedTypeOf (col_name info) CHAR1)
      else if \<not> isNull then Inr (char_at_1 spi binval)
      else if strict then Inl (UnexpectedNull (col_name info))
      else Inr default_value)"

definition getBigInt :: "('t, 'd, 'v, 'p) spi \<Rightarrow> 't \<Rightarrow> 'd \<Rightarrow> Column_info_t \<Rightarrow> sql_error + int" where
  "getBigInt spi tuple tupdesc info =
     (let (binval, isnull) = SPI_getbinval spi tuple tupdesc (colNumber info) in
      if isnull then Inl (UnexpectedNull (col_name info))
      else if col_type info = INT2OID then Inr (DatumGetInt16 spi binval)
      else if col_type info = INT4OID then Inr (DatumGetInt32 spi binval)
      else if col_type info = INT8OID then Inr (DatumGetInt64 spi binval)
      else Inl (UnexpectedTypeOf (col_name info) ANY_INTEGER))"

definition getFloat8 :: "('t, 'd, 'v, 'p) spi \<Rightarrow> 't \<Rightarrow> 'd \<Rightarrow> Column_info_t \<Rightarrow> sql_error + double" where
  "getFloat8 spi tuple tupdesc info =
     (let (binval, isnull) = SPI_getbinval spi tuple tupdesc (colNumber info) in
      if isnull then Inl (UnexpectedNull (col_name info))
      else if col_type info = INT2OID then Inr (Fin (of_int (DatumGetInt16 spi binval)))
      else if col_type info = INT4OID then Inr (Fin (of_int (DatumGetInt32 spi binval)))
      else if col_type info = INT8OID then Inr (Fin (of_int (DatumGetInt64 spi binval)))
      else if col_type info = FLOAT4OID then Inr (DatumGetFloat4 spi binval)
      else if col_type info = FLOAT8OID then Inr (DatumGetFloat8 spi binval)
      else if col_type info = NUMERICOID then Inr (DatumGetFloat8 spi (numeric_float8_no_overflow spi binval))
      else Inl (UnexpectedTypeOf (col_name info) ANY_NUMERICAL))"

definition getText :: "('t, 'd, 'v, 'p) spi \<Rightarrow> 't \<Rightarrow> 'd \<Rightarrow> Column_info_t \<Rightarrow> string option" where
  "getText spi tuple tupdesc info = SPI_getvalue spi tuple tupdesc (colNumber info)"

section \<open>Arrays\<close>

definition integer_oid :: "nat \<Rightarrow> bool" where
  "integer_oid ty \<longleftrightarrow> ty = INT2OID \<or> ty = INT4OID \<or> ty = INT8OID"

definition element_value :: "('t, 'd, 'v, 'p) spi \<Rightarrow> nat \<Rightarrow> 'v \<Rightarrow> int" where
  "element_value spi ty v =
     (if ty = INT2OID then DatumGetInt16 spi v else if ty = INT4OID then DatumGetInt32 spi v else DatumGetInt64 spi v)"

text \<open>The loop over the elements.\<close>

fun array_values :: "('t, 'd, 'v, 'p) spi \<Rightarrow> nat \<Rightarrow> ('v \<times> bool) list \<Rightarrow> sql_error + int list" where
  "array_values spi ty [] = Inr []"
| "array_values spi ty ((v, isnull) # es) =
     (if isnull then Inl NullInArray
      else bindE (array_values spi ty es) (\<lambda>data. Inr (element_value spi ty v # data)))"

text \<open>A \<open>std::set\<close> is the ascending list of its elements.\<close>

definition get_pgset :: "('t, 'd, 'v, 'p) spi \<Rightarrow> 'v ArrayType option \<Rightarrow> sql_error + int list" where
  "get_pgset spi v =
     (case v of None \<Rightarrow> Inr []
      | Some a \<Rightarrow>
          if ndim a = 0 \<or> nitems a \<le> 0 then Inr []
          else if ndim a \<noteq> 1 then Inl OneDimensionExpected
          else if \<not> integer_oid (elemtype a) then Inl ExpectedIntegerArray
          else bindE (array_values spi (elemtype a) (elements a)) (\<lambda>data. Inr (foldl (\<lambda>results d. set_insert d results) [] data)))"

definition get_array :: "('t, 'd, 'v, 'p) spi \<Rightarrow> 'v ArrayType \<Rightarrow> bool \<Rightarrow> sql_error + int list" where
  "get_array spi a allow_empty =
     (if allow_empty \<and> (ndim a = 0 \<or> nitems a \<le> 0) then Inr []
      else if ndim a \<noteq> 1 then Inl OneDimensionExpected
      else if nitems a \<le> 0 then Inl NoElementsFound
      else if \<not> integer_oid (elemtype a) then Inl ExpectedIntegerArray
      else array_values spi (elemtype a) (elements a))"

definition get_pgarray :: "('t, 'd, 'v, 'p) spi \<Rightarrow> 'v ArrayType option \<Rightarrow> bool \<Rightarrow> sql_error + int list" where
  "get_pgarray spi v allow_empty =
     (case v of None \<Rightarrow> Inr []
      | Some a \<Rightarrow>
          if allow_empty \<and> (ndim a = 0 \<or> nitems a \<le> 0) then Inr []
          else if ndim a \<noteq> 1 then Inl OneDimensionExpected
          else if nitems a \<le> 0 then Inl NoElementsFound
          else if \<not> integer_oid (elemtype a) then Inl ExpectedIntegerArray
          else array_values spi (elemtype a) (elements a))"

text \<open>The pointer of \<open>getBigIntArr\<close> is null exactly for the empty list.\<close>

definition getBigIntArr :: "('t, 'd, 'v, 'p) spi \<Rightarrow> 't \<Rightarrow> 'd \<Rightarrow> Column_info_t \<Rightarrow> sql_error + int list" where
  "getBigIntArr spi tuple tupdesc info =
     (let (raw_array, is_null) = SPI_getbinval spi tuple tupdesc (colNumber info) in
      if is_null then Inr [] else get_array spi (DatumGetArrayTypeP spi raw_array) True)"

section \<open>Opening a query\<close>

definition pgr_SPI_prepare :: "('t, 'd, 'v, 'p) spi \<Rightarrow> string \<Rightarrow> sql_error + 'p" where
  "pgr_SPI_prepare spi sql =
     (case SPI_prepare spi sql of
        None \<Rightarrow> Inl (Ereport (''Couldn'' @ [CHR 0x27] @ ''t create query plan via SPI: '' @ sql))
      | Some plan \<Rightarrow> Inr plan)"

definition pgr_SPI_cursor_open :: "('t, 'd, 'v, 'p) spi \<Rightarrow> 'p \<Rightarrow> sql_error + 'p" where
  "pgr_SPI_cursor_open spi plan =
     (case SPI_cursor_open spi plan of None \<Rightarrow> Inl (Ereport ''SPI_cursor_open returns NULL'') | Some portal \<Rightarrow> Inr portal)"

end
