(* ===== verification/Fetchers.thy ===== *)
theory Fetchers
  imports Columns Tw_nodes With_points
begin

text \<open>
  From SQL rows to the structures of the program: \<open>src/cpp_common/pgdata_fetchers.cpp\<close> (one row),
  \<open>include/cpp_common/get_data.hpp\<close> (all rows of a query, in blocks) and
  \<open>src/cpp_common/pgdata_getters.cpp\<close> (the columns each query needs).  A fetcher gets the counters
  \<open>default_id\<close> and \<open>valid_edges\<close> and returns them changed.
\<close>

section \<open>Rows\<close>

record II_t_rt =
  d1_source :: int
  d2_target :: int

record Coordinate_t =
  coord_id :: int
  coord_x :: double
  coord_y :: double

record Delauny_t =
  tri_tid :: int
  tri_pid :: int
  tri_x :: double
  tri_y :: double

record Edge_bool_t =
  eb_id :: int
  eb_source :: int
  eb_target :: int
  going :: bool

record CostFlow_t =
  cf_edge_id :: int
  cf_source :: int
  cf_target :: int
  capacity :: int
  reverse_capacity :: int
  cf_cost :: double
  cf_reverse_cost :: double

record Edge_xy_t =
  xy_id :: int
  xy_source :: int
  xy_target :: int
  xy_cost :: double
  xy_reverse_cost :: double
  xy_x1 :: double
  xy_y1 :: double
  xy_x2 :: double
  xy_y2 :: double

type_synonym 'a fetched = "sql_error + ('a \<times> int \<times> nat)"

type_synonym ('t, 'd, 'v, 'p, 'a) fetcher =
  "('t, 'd, 'v, 'p) spi \<Rightarrow> 't \<Rightarrow> 'd \<Rightarrow> Column_info_t list \<Rightarrow> int \<Rightarrow> nat \<Rightarrow> bool \<Rightarrow> 'a fetched"

section \<open>Fetchers\<close>

text \<open>A column that may be missing, and the id that is counted when it is.\<close>

definition found_at :: "Column_info_t list \<Rightarrow> nat \<Rightarrow> bool" where
  "found_at info i = column_found (colNumber (info ! i))"

definition float_or ::
    "('t, 'd, 'v, 'p) spi \<Rightarrow> 't \<Rightarrow> 'd \<Rightarrow> Column_info_t list \<Rightarrow> nat \<Rightarrow> double \<Rightarrow> sql_error + double" where
  "float_or spi tuple tupdesc info i dflt =
     (if found_at info i then getFloat8 spi tuple tupdesc (info ! i) else Inr dflt)"

definition id_or_default ::
    "('t, 'd, 'v, 'p) spi \<Rightarrow> 't \<Rightarrow> 'd \<Rightarrow> Column_info_t list \<Rightarrow> int \<Rightarrow> sql_error + (int \<times> int)" where
  "id_or_default spi tuple tupdesc info default_id =
     (if found_at info 0 then bindE (getBigInt spi tuple tupdesc (info ! 0)) (\<lambda>i. Inr (i, default_id))
      else Inr (default_id, default_id + 1))"

text \<open>\<open>source\<close> and \<open>target\<close>, exchanged when the graph is reversed; column 1 is read first.\<close>

definition ends_of ::
    "('t, 'd, 'v, 'p) spi \<Rightarrow> 't \<Rightarrow> 'd \<Rightarrow> Column_info_t list \<Rightarrow> bool \<Rightarrow> sql_error + (int \<times> int)" where
  "ends_of spi tuple tupdesc info normal =
     bindE (getBigInt spi tuple tupdesc (info ! 1)) (\<lambda>a.
     bindE (getBigInt spi tuple tupdesc (info ! 2)) (\<lambda>b.
     Inr (if normal then (a, b) else (b, a))))"

definition count_valid :: "nat \<Rightarrow> bool \<Rightarrow> nat" where
  "count_valid n invalid = (if invalid then n else n + 1)"

definition isinf :: "double \<Rightarrow> bool" where
  "isinf x \<longleftrightarrow> x = PInf \<or> x = NInf"

definition infinity_to_max :: "double \<Rightarrow> double" where
  "infinity_to_max x = (if isinf x then dbl_max else x)"

definition fetch_combination :: "('t, 'd, 'v, 'p, II_t_rt) fetcher" where
  "fetch_combination spi tuple tupdesc info default_id valid_edges flag =
     bindE (getBigInt spi tuple tupdesc (info ! 0)) (\<lambda>s.
     bindE (getBigInt spi tuple tupdesc (info ! 1)) (\<lambda>t.
     Inr (\<lparr>d1_source = s, d2_target = t\<rparr>, default_id, valid_edges)))"

definition fetch_coordinate :: "('t, 'd, 'v, 'p, Coordinate_t) fetcher" where
  "fetch_coordinate spi tuple tupdesc info default_id valid_edges flag =
     bindE (id_or_default spi tuple tupdesc info default_id) (\<lambda>(i, default_id').
     bindE (getFloat8 spi tuple tupdesc (info ! 1)) (\<lambda>px.
     bindE (getFloat8 spi tuple tupdesc (info ! 2)) (\<lambda>py.
     Inr (\<lparr>coord_id = i, coord_x = px, coord_y = py\<rparr>, default_id', valid_edges))))"

definition fetch_delauny :: "('t, 'd, 'v, 'p, Delauny_t) fetcher" where
  "fetch_delauny spi tuple tupdesc info default_id valid_edges flag =
     bindE (getBigInt spi tuple tupdesc (info ! 0)) (\<lambda>t.
     bindE (getBigInt spi tuple tupdesc (info ! 1)) (\<lambda>p.
     bindE (getFloat8 spi tuple tupdesc (info ! 2)) (\<lambda>px.
     bindE (getFloat8 spi tuple tupdesc (info ! 3)) (\<lambda>py.
     Inr (\<lparr>tri_tid = t, tri_pid = p, tri_x = px, tri_y = py\<rparr>, default_id, valid_edges)))))"

text \<open>\<open>a > 0 || (found && b > 0)\<close>: the second column is read only when the first is not positive.\<close>

definition either_positive ::
    "('t, 'd, 'v, 'p) spi \<Rightarrow> 't \<Rightarrow> 'd \<Rightarrow> Column_info_t list \<Rightarrow> nat \<Rightarrow> nat \<Rightarrow> sql_error + bool" where
  "either_positive spi tuple tupdesc info i j =
     bindE (getFloat8 spi tuple tupdesc (info ! i)) (\<lambda>a.
     if 0 < a then Inr True
     else if found_at info j then bindE (getFloat8 spi tuple tupdesc (info ! j)) (\<lambda>b. Inr (0 < b))
     else Inr False)"

definition fetch_basic_edge :: "('t, 'd, 'v, 'p, Edge_bool_t) fetcher" where
  "fetch_basic_edge spi tuple tupdesc info default_id valid_edges flag =
     bindE (id_or_default spi tuple tupdesc info default_id) (\<lambda>(i, default_id').
     bindE (ends_of spi tuple tupdesc info True) (\<lambda>(s, t).
     bindE (if found_at info 5 then either_positive spi tuple tupdesc info 5 6
            else either_positive spi tuple tupdesc info 3 4) (\<lambda>g.
     Inr (\<lparr>eb_id = i, eb_source = s, eb_target = t, going = g\<rparr>, default_id', valid_edges + 1))))"

definition fetch_edge :: "('t, 'd, 'v, 'p, Edge_t) fetcher" where
  "fetch_edge spi tuple tupdesc info default_id valid_edges normal =
     bindE (id_or_default spi tuple tupdesc info default_id) (\<lambda>(i, default_id').
     bindE (ends_of spi tuple tupdesc info normal) (\<lambda>(s, t).
     bindE (getFloat8 spi tuple tupdesc (info ! 3)) (\<lambda>c.
     bindE (float_or spi tuple tupdesc info 4 (-1)) (\<lambda>r.
     let c' = infinity_to_max c; r' = infinity_to_max r in
     Inr (\<lparr>edge_id = i, source = s, target = t, edge_cost = c', reverse_cost = r'\<rparr>, default_id',
          count_valid (count_valid valid_edges (c' < 0)) (r' < 0))))))"

definition fetch_costFlow_edge :: "('t, 'd, 'v, 'p, CostFlow_t) fetcher" where
  "fetch_costFlow_edge spi tuple tupdesc info default_id valid_edges normal =
     bindE (id_or_default spi tuple tupdesc info default_id) (\<lambda>(i, default_id').
     bindE (ends_of spi tuple tupdesc info normal) (\<lambda>(s, t).
     bindE (getBigInt spi tuple tupdesc (info ! 3)) (\<lambda>cap.
     bindE (if found_at info 4 then getBigInt spi tuple tupdesc (info ! 4) else Inr (-1)) (\<lambda>rcap.
     bindE (getFloat8 spi tuple tupdesc (info ! 5)) (\<lambda>c.
     bindE (float_or spi tuple tupdesc info 6 0) (\<lambda>r.
     Inr (\<lparr>cf_edge_id = i, cf_source = s, cf_target = t, capacity = cap, reverse_capacity = rcap,
            cf_cost = c, cf_reverse_cost = r\<rparr>, default_id',
          count_valid (count_valid valid_edges (cap < 0)) (rcap < 0))))))))"

definition fetch_edge_xy :: "('t, 'd, 'v, 'p, Edge_xy_t) fetcher" where
  "fetch_edge_xy spi tuple tupdesc info default_id valid_edges normal =
     bindE (id_or_default spi tuple tupdesc info default_id) (\<lambda>(i, default_id').
     bindE (ends_of spi tuple tupdesc info normal) (\<lambda>(s, t).
     bindE (getFloat8 spi tuple tupdesc (info ! 3)) (\<lambda>c.
     bindE (float_or spi tuple tupdesc info 4 (-1)) (\<lambda>r.
     bindE (getFloat8 spi tuple tupdesc (info ! 5)) (\<lambda>a1.
     bindE (getFloat8 spi tuple tupdesc (info ! 6)) (\<lambda>b1.
     bindE (getFloat8 spi tuple tupdesc (info ! 7)) (\<lambda>a2.
     bindE (getFloat8 spi tuple tupdesc (info ! 8)) (\<lambda>b2.
     Inr (\<lparr>xy_id = i, xy_source = s, xy_target = t, xy_cost = c, xy_reverse_cost = r,
            xy_x1 = a1, xy_y1 = b1, xy_x2 = a2, xy_y2 = b2\<rparr>, default_id',
          count_valid (count_valid valid_edges (c < 0)) (r < 0))))))))))"

definition pgr_fetch_row :: "('t, 'd, 'v, 'p, IID_t_rt) fetcher" where
  "pgr_fetch_row spi tuple tupdesc info default_id valid_edges flag =
     bindE (getBigInt spi tuple tupdesc (info ! 0)) (\<lambda>s.
     bindE (getBigInt spi tuple tupdesc (info ! 1)) (\<lambda>t.
     bindE (getFloat8 spi tuple tupdesc (info ! 2)) (\<lambda>c.
     Inr (\<lparr>from_vid = s, to_vid = t, iid_cost = c\<rparr>, default_id, valid_edges))))"

text \<open>\<open>with_id ? 0 : getFloat8(\<dots>)\<close> and \<open>with_id ? getBigInt(\<dots>) : 0\<close>.\<close>

definition unless_id ::
    "bool \<Rightarrow> ('t, 'd, 'v, 'p) spi \<Rightarrow> 't \<Rightarrow> 'd \<Rightarrow> Column_info_t list \<Rightarrow> nat \<Rightarrow> sql_error + double" where
  "unless_id with_id spi tuple tupdesc info i =
     (if with_id then Inr 0 else getFloat8 spi tuple tupdesc (info ! i))"

definition when_id ::
    "bool \<Rightarrow> ('t, 'd, 'v, 'p) spi \<Rightarrow> 't \<Rightarrow> 'd \<Rightarrow> Column_info_t list \<Rightarrow> nat \<Rightarrow> sql_error + int" where
  "when_id with_id spi tuple tupdesc info i =
     (if with_id then getBigInt spi tuple tupdesc (info ! i) else Inr 0)"

definition fetch_orders :: "('t, 'd, 'v, 'p, Orders_t) fetcher" where
  "fetch_orders spi tuple tupdesc info default_id valid_edges with_id =
     bindE (getBigInt spi tuple tupdesc (info ! 0)) (\<lambda>i.
     bindE (getFloat8 spi tuple tupdesc (info ! 1)) (\<lambda>dem.
     bindE (unless_id with_id spi tuple tupdesc info 2) (\<lambda>px.
     bindE (unless_id with_id spi tuple tupdesc info 3) (\<lambda>py.
     bindE (getFloat8 spi tuple tupdesc (info ! 4)) (\<lambda>popen.
     bindE (getFloat8 spi tuple tupdesc (info ! 5)) (\<lambda>pclose.
     bindE (float_or spi tuple tupdesc info 6 0) (\<lambda>pservice.
     bindE (unless_id with_id spi tuple tupdesc info 7) (\<lambda>dx.
     bindE (unless_id with_id spi tuple tupdesc info 8) (\<lambda>dy.
     bindE (getFloat8 spi tuple tupdesc (info ! 9)) (\<lambda>dopen.
     bindE (getFloat8 spi tuple tupdesc (info ! 10)) (\<lambda>dclose.
     bindE (float_or spi tuple tupdesc info 11 0) (\<lambda>dservice.
     bindE (when_id with_id spi tuple tupdesc info 12) (\<lambda>pnode.
     bindE (when_id with_id spi tuple tupdesc info 13) (\<lambda>dnode.
     Inr (\<lparr>o_id = i, o_demand = dem, pick_x = px, pick_y = py, pick_node_id = pnode,
            pick_open_t = popen, pick_close_t = pclose, pick_service_t = pservice,
            deliver_x = dx, deliver_y = dy, deliver_node_id = dnode,
            deliver_open_t = dopen, deliver_close_t = dclose, deliver_service_t = dservice\<rparr>,
          default_id, valid_edges)))))))))))))))"

definition fetch_restriction :: "('t, 'd, 'v, 'p, Restriction_t) fetcher" where
  "fetch_restriction spi tuple tupdesc info default_id valid_edges flag =
     bindE (getFloat8 spi tuple tupdesc (info ! 0)) (\<lambda>c.
     bindE (getBigIntArr spi tuple tupdesc (info ! 1)) (\<lambda>via.
     Inr (\<lparr>restriction_cost = c, via_edges = via\<rparr>, default_id, valid_edges)))"

text \<open>The id that is counted here is increased first.\<close>

definition fetch_point :: "('t, 'd, 'v, 'p, Point_on_edge_t) fetcher" where
  "fetch_point spi tuple tupdesc info default_pid valid_edges flag =
     bindE (if found_at info 0 then bindE (getBigInt spi tuple tupdesc (info ! 0)) (\<lambda>i. Inr (i, default_pid))
            else Inr (default_pid + 1, default_pid + 1)) (\<lambda>(i, default_pid').
     bindE (getBigInt spi tuple tupdesc (info ! 1)) (\<lambda>e.
     bindE (getFloat8 spi tuple tupdesc (info ! 2)) (\<lambda>f.
     bindE (if found_at info 3 then getChar spi tuple tupdesc (info ! 3) False kBoth else Inr kBoth) (\<lambda>s.
     Inr (\<lparr>pid = i, point_edge_id = e, side = s, fraction = f, vertex_id = 0\<rparr>, default_pid', valid_edges)))))"

text \<open>Two columns that come together or not at all: \<open>ereport(ERROR)\<close> names the missing one.\<close>

definition both_or_none :: "Column_info_t list \<Rightarrow> nat \<Rightarrow> nat \<Rightarrow> sql_error + unit" where
  "both_or_none info i j =
     (if \<not> found_at info i \<and> found_at info j then Inl (Ereport (''Column '' @ quoted (col_name (info ! i)) @ '' not Found''))
      else if found_at info i \<and> \<not> found_at info j then Inl (Ereport (''Column '' @ quoted (col_name (info ! j)) @ '' not Found''))
      else Inr ())"

definition fetch_vehicle :: "('t, 'd, 'v, 'p, Vehicle_t) fetcher" where
  "fetch_vehicle spi tuple tupdesc info default_id valid_edges with_id =
     bindE (getBigInt spi tuple tupdesc (info ! 0)) (\<lambda>i.
     bindE (getFloat8 spi tuple tupdesc (info ! 1)) (\<lambda>cap.
     bindE (unless_id with_id spi tuple tupdesc info 2) (\<lambda>sx.
     bindE (unless_id with_id spi tuple tupdesc info 3) (\<lambda>sy.
     bindE (float_or spi tuple tupdesc info 13 1) (\<lambda>_.
     bindE (if found_at info 4 then getBigInt spi tuple tupdesc (info ! 4) else Inr 1) (\<lambda>cant.
     bindE (float_or spi tuple tupdesc info 5 0) (\<lambda>sopen.
     bindE (float_or spi tuple tupdesc info 6 dbl_max) (\<lambda>sclose.
     bindE (float_or spi tuple tupdesc info 7 0) (\<lambda>sservice.
     bindE (both_or_none info 8 9) (\<lambda>_.
     bindE (float_or spi tuple tupdesc info 8 sx) (\<lambda>ex.
     bindE (float_or spi tuple tupdesc info 9 sy) (\<lambda>ey.
     bindE (both_or_none info 10 11) (\<lambda>_.
     bindE (float_or spi tuple tupdesc info 10 sopen) (\<lambda>eopen.
     bindE (float_or spi tuple tupdesc info 11 sclose) (\<lambda>eclose.
     bindE (float_or spi tuple tupdesc info 12 sservice) (\<lambda>eservice.
     bindE (float_or spi tuple tupdesc info 13 1) (\<lambda>spd.
     bindE (when_id with_id spi tuple tupdesc info 14) (\<lambda>snode.
     bindE (if with_id then (if found_at info 12 then getBigInt spi tuple tupdesc (info ! 15) else Inr snode)
            else Inr 0) (\<lambda>enode.
     Inr (\<lparr>v_id = i, v_capacity = cap, v_speed = spd, start_x = sx, start_y = sy, start_node_id = snode,
            cant_v = cant, start_open_t = sopen, start_close_t = sclose, start_service_t = sservice,
            end_x = ex, end_y = ey, end_node_id = enode, end_open_t = eopen, end_close_t = eclose,
            end_service_t = eservice\<rparr>,
          default_id, valid_edges))))))))))))))))))))"

section \<open>All rows of a query\<close>

definition tuple_limit :: nat where
  "tuple_limit = 1000000"

text \<open>The rows of one block, appended to those read before.\<close>

fun fetch_block ::
    "('t, 'd, 'v, 'p) spi \<Rightarrow> 'd \<Rightarrow> Column_info_t list \<Rightarrow> ('t, 'd, 'v, 'p, 'a) fetcher \<Rightarrow> bool \<Rightarrow> 't list \<Rightarrow>
       int \<times> nat \<times> 'a list \<Rightarrow> sql_error + (int \<times> nat \<times> 'a list)" where
  "fetch_block spi tupdesc info func flag [] s = Inr s"
| "fetch_block spi tupdesc info func flag (t # ts) (default_id, valid_edges, tuples) =
     bindE (func spi t tupdesc info default_id valid_edges flag) (\<lambda>(x, default_id', valid_edges').
     fetch_block spi tupdesc info func flag ts (default_id', valid_edges', tuples @ [x]))"

partial_function (option) get_data_loop ::
    "('t, 'd, 'v, 'p) spi \<Rightarrow> bool \<Rightarrow> ('t, 'd, 'v, 'p, 'a) fetcher \<Rightarrow> 'p \<Rightarrow> nat \<Rightarrow> Column_info_t list \<Rightarrow>
       int \<times> nat \<times> 'a list \<Rightarrow> (sql_error + 'a list) option" where
  "get_data_loop spi flag func portal total_tuples info s =
     (let (vals, tupdesc, portal') = SPI_cursor_fetch spi portal tuple_limit in
      case (if total_tuples = 0 then fetch_column_info spi tupdesc info else Inr info) of
        Inl e \<Rightarrow> Some (Inl e)
      | Inr info' \<Rightarrow>
          if vals = [] then Some (Inr (snd (snd s)))
          else
            (case fetch_block spi tupdesc info' func flag vals s of
               Inl e \<Rightarrow> Some (Inl e)
             | Inr s' \<Rightarrow> get_data_loop spi flag func portal' (total_tuples + length vals) info' s'))"

definition get_data ::
    "('t, 'd, 'v, 'p) spi \<Rightarrow> string \<Rightarrow> bool \<Rightarrow> Column_info_t list \<Rightarrow> ('t, 'd, 'v, 'p, 'a) fetcher \<Rightarrow> sql_error + 'a list" where
  "get_data spi sql flag info func =
     bindE (pgr_SPI_prepare spi sql) (\<lambda>plan.
     bindE (pgr_SPI_cursor_open spi plan) (\<lambda>portal.
     case get_data_loop spi flag func portal 0 info (0, 0, []) of None \<Rightarrow> Inl NoReturn | Some r \<Rightarrow> r))"

section \<open>Queries\<close>

definition column :: "bool \<Rightarrow> string \<Rightarrow> expectType \<Rightarrow> Column_info_t" where
  "column strict name ty = \<lparr>colNumber = -1, col_type = 0, col_strict = strict, col_name = name, eType = ty\<rparr>"

definition get_combinations_rows :: "('t, 'd, 'v, 'p) spi \<Rightarrow> string \<Rightarrow> sql_error + II_t_rt list" where
  "get_combinations_rows spi sql =
     get_data spi sql True [column True ''source'' ANY_INTEGER, column True ''target'' ANY_INTEGER] fetch_combination"

definition get_coordinates :: "('t, 'd, 'v, 'p) spi \<Rightarrow> string \<Rightarrow> sql_error + Coordinate_t list" where
  "get_coordinates spi sql =
     get_data spi sql True
       [column True ''id'' ANY_INTEGER, column True ''x'' ANY_NUMERICAL, column True ''y'' ANY_NUMERICAL] fetch_coordinate"

definition get_delauny :: "('t, 'd, 'v, 'p) spi \<Rightarrow> string \<Rightarrow> sql_error + Delauny_t list" where
  "get_delauny spi sql =
     get_data spi sql True
       [column True ''tid'' ANY_INTEGER, column True ''pid'' ANY_INTEGER,
        column True ''x'' ANY_NUMERICAL, column True ''y'' ANY_NUMERICAL] fetch_delauny"

definition get_flow_edges :: "('t, 'd, 'v, 'p) spi \<Rightarrow> string \<Rightarrow> sql_error + Edge_t list" where
  "get_flow_edges spi sql =
     get_data spi sql True
       [column True ''id'' ANY_INTEGER, column True ''source'' ANY_INTEGER, column True ''target'' ANY_INTEGER,
        column True ''capacity'' ANY_INTEGER, column False ''reverse_capacity'' ANY_INTEGER] fetch_edge"

definition get_costFlow_edges :: "('t, 'd, 'v, 'p) spi \<Rightarrow> string \<Rightarrow> sql_error + CostFlow_t list" where
  "get_costFlow_edges spi sql =
     get_data spi sql True
       [column True ''id'' ANY_INTEGER, column True ''source'' ANY_INTEGER, column True ''target'' ANY_INTEGER,
        column True ''capacity'' ANY_INTEGER, column False ''reverse_capacity'' ANY_INTEGER,
        column True ''cost'' ANY_NUMERICAL, column False ''reverse_cost'' ANY_NUMERICAL] fetch_costFlow_edge"

definition get_basic_edges :: "('t, 'd, 'v, 'p) spi \<Rightarrow> string \<Rightarrow> sql_error + Edge_bool_t list" where
  "get_basic_edges spi sql =
     get_data spi sql True
       [column True ''id'' ANY_INTEGER, column True ''source'' ANY_INTEGER, column True ''target'' ANY_INTEGER,
        column False ''going'' ANY_NUMERICAL, column False ''coming'' ANY_NUMERICAL,
        column False ''cost'' ANY_NUMERICAL, column False ''reverse_cost'' ANY_NUMERICAL] fetch_basic_edge"

definition get_edges_xy :: "('t, 'd, 'v, 'p) spi \<Rightarrow> string \<Rightarrow> bool \<Rightarrow> sql_error + Edge_xy_t list" where
  "get_edges_xy spi sql normal =
     get_data spi sql normal
       [column True ''id'' ANY_INTEGER, column True ''source'' ANY_INTEGER, column True ''target'' ANY_INTEGER,
        column True ''cost'' ANY_NUMERICAL, column False ''reverse_cost'' ANY_NUMERICAL,
        column True ''x1'' ANY_NUMERICAL, column True ''y1'' ANY_NUMERICAL,
        column True ''x2'' ANY_NUMERICAL, column True ''y2'' ANY_NUMERICAL] fetch_edge_xy"

definition edge_columns :: "bool \<Rightarrow> Column_info_t list" where
  "edge_columns ignore_id =
     [column (\<not> ignore_id) ''id'' ANY_INTEGER, column True ''source'' ANY_INTEGER, column True ''target'' ANY_INTEGER,
      column True ''cost'' ANY_NUMERICAL, column False ''reverse_cost'' ANY_NUMERICAL]"

definition get_edges :: "('t, 'd, 'v, 'p) spi \<Rightarrow> string \<Rightarrow> bool \<Rightarrow> bool \<Rightarrow> sql_error + Edge_t list" where
  "get_edges spi sql normal ignore_id = get_data spi sql normal (edge_columns ignore_id) fetch_edge"

definition get_matrixRows :: "('t, 'd, 'v, 'p) spi \<Rightarrow> string \<Rightarrow> sql_error + IID_t_rt list" where
  "get_matrixRows spi sql =
     get_data spi sql True
       [column True ''start_vid'' ANY_INTEGER, column True ''end_vid'' ANY_INTEGER,
        column True ''agg_cost'' ANY_NUMERICAL] pgr_fetch_row"

definition order_columns :: "bool \<Rightarrow> Column_info_t list" where
  "order_columns with_id =
     [column True ''id'' ANY_INTEGER, column True ''demand'' ANY_NUMERICAL,
      column (\<not> with_id) ''p_x'' ANY_NUMERICAL, column (\<not> with_id) ''p_y'' ANY_NUMERICAL,
      column True ''p_open'' ANY_NUMERICAL, column True ''p_close'' ANY_NUMERICAL,
      column False ''p_service'' ANY_NUMERICAL,
      column (\<not> with_id) ''d_x'' ANY_NUMERICAL, column (\<not> with_id) ''d_y'' ANY_NUMERICAL,
      column True ''d_open'' ANY_NUMERICAL, column True ''d_close'' ANY_NUMERICAL,
      column False ''d_service'' ANY_NUMERICAL,
      column with_id ''p_node_id'' ANY_INTEGER, column with_id ''d_node_id'' ANY_INTEGER]"

definition get_orders :: "('t, 'd, 'v, 'p) spi \<Rightarrow> string \<Rightarrow> bool \<Rightarrow> sql_error + Orders_t list" where
  "get_orders spi sql with_id = get_data spi sql with_id (order_columns with_id) fetch_orders"

definition point_columns :: "Column_info_t list" where
  "point_columns =
     [column False ''pid'' ANY_INTEGER, column True ''edge_id'' ANY_INTEGER,
      column True ''fraction'' ANY_NUMERICAL, column False ''side'' CHAR1]"

definition get_points :: "('t, 'd, 'v, 'p) spi \<Rightarrow> string \<Rightarrow> sql_error + Point_on_edge_t list" where
  "get_points spi sql = get_data spi sql True point_columns fetch_point"

definition get_restrictions :: "('t, 'd, 'v, 'p) spi \<Rightarrow> string \<Rightarrow> sql_error + Restriction_t list" where
  "get_restrictions spi sql =
     get_data spi sql True [column True ''cost'' ANY_NUMERICAL, column True ''path'' ANY_INTEGER_ARRAY] fetch_restriction"

definition vehicle_columns :: "bool \<Rightarrow> Column_info_t list" where
  "vehicle_columns with_id =
     [column True ''id'' ANY_INTEGER, column True ''capacity'' ANY_NUMERICAL,
      column (\<not> with_id) ''start_x'' ANY_NUMERICAL, column (\<not> with_id) ''start_y'' ANY_NUMERICAL,
      column False ''number'' ANY_INTEGER,
      column False ''start_open'' ANY_NUMERICAL, column False ''start_close'' ANY_NUMERICAL,
      column False ''start_service'' ANY_NUMERICAL,
      column False ''end_x'' ANY_NUMERICAL, column False ''end_y'' ANY_NUMERICAL,
      column False ''end_open'' ANY_NUMERICAL, column False ''end_close'' ANY_NUMERICAL,
      column False ''end_service'' ANY_NUMERICAL, column False ''speed'' ANY_NUMERICAL,
      column False ''start_node_id'' ANY_INTEGER, column False ''end_node_id'' ANY_INTEGER]"

definition get_vehicles :: "('t, 'd, 'v, 'p) spi \<Rightarrow> string \<Rightarrow> bool \<Rightarrow> sql_error + Vehicle_t list" where
  "get_vehicles spi sql with_id = get_data spi sql with_id (vehicle_columns with_id) fetch_vehicle"

end
