(* ===== verification/Combinations.thy ===== *)
theory Combinations
  imports Fetchers
begin

text \<open>
  Pairs of departures and destinations (\<open>src/cpp_common/combinations.cpp\<close>) and the parts of
  the driver of the turn restricted shortest paths that handle restrictions and errors
  (\<open>src/trsp/trsp_driver.cpp\<close>).  A
  \<open>std::map<int64_t, std::set<int64_t>>\<close> is the list of its entries in the order of the keys,
  with ascending lists of destinations.
\<close>

type_synonym combinations = "(int \<times> int list) list"

section \<open>Building the pairs\<close>

definition targets_of :: "combinations \<Rightarrow> int \<Rightarrow> int list" where
  "targets_of m s = (case map_of m s of None \<Rightarrow> [] | Some ts \<Rightarrow> ts)"

text \<open>\<open>m[s].insert(t)\<close>\<close>

definition add_pair :: "int \<Rightarrow> int \<Rightarrow> combinations \<Rightarrow> combinations" where
  "add_pair s t m = map_put s (set_insert t (targets_of m s)) m"

definition combinations_of_rows :: "II_t_rt list \<Rightarrow> combinations" where
  "combinations_of_rows rows = foldl (\<lambda>result row. add_pair (d1_source row) (d2_target row) result) [] rows"

definition set_all :: "int list \<Rightarrow> int list \<Rightarrow> combinations \<Rightarrow> combinations" where
  "set_all starts ends m = foldl (\<lambda>result s. map_put s ends result) m starts"

definition get_combinations ::
    "('t, 'd, 'v, 'p) spi \<Rightarrow> string option \<Rightarrow> 'v ArrayType option \<Rightarrow> 'v ArrayType option \<Rightarrow> bool \<Rightarrow> sql_error + combinations" where
  "get_combinations spi combinations_sql startsArr endsArr normal =
     bindE (if startsArr \<noteq> None \<and> endsArr \<noteq> None
            then bindE (get_pgset spi (if normal then startsArr else endsArr)) (\<lambda>starts.
                 bindE (get_pgset spi (if normal then endsArr else startsArr)) (\<lambda>ends. Inr (starts, ends)))
            else Inr ([], [])) (\<lambda>(starts, ends).
     bindE (case combinations_sql of None \<Rightarrow> Inr [] | Some sql \<Rightarrow> get_combinations_rows spi sql) (\<lambda>rows.
     Inr (set_all starts ends (combinations_of_rows rows))))"

text \<open>The second result is \<open>is_matrix\<close>, which the function sets but never clears.\<close>

definition get_combinations_matrix ::
    "('t, 'd, 'v, 'p) spi \<Rightarrow> string \<Rightarrow> 'v ArrayType option \<Rightarrow> 'v ArrayType option \<Rightarrow> bool \<Rightarrow> bool \<Rightarrow>
       sql_error + (combinations \<times> bool)" where
  "get_combinations_matrix spi combinations_sql startsArr endsArr normal is_matrix =
     bindE (get_pgset spi (if normal then startsArr else endsArr)) (\<lambda>starts.
     bindE (if endsArr \<noteq> None then get_pgset spi (if normal then endsArr else startsArr) else Inr []) (\<lambda>ends.
     bindE (if combinations_sql \<noteq> [] then get_combinations_rows spi combinations_sql else Inr []) (\<lambda>rows.
     let matrix = rows = [] \<and> starts \<noteq> [] \<and> ends = [] in
     Inr (set_all starts (if matrix then starts else ends) (combinations_of_rows rows), is_matrix \<or> matrix))))"

section \<open>Paths that break a rule\<close>

text \<open>The loop over the edges of a rule; reading behind the end of the list is undefined.\<close>

fun rule_breaker :: "int list \<Rightarrow> int list \<Rightarrow> bool run" where
  "rule_breaker ptr [] = Inr True"
| "rule_breaker [] (e # es) = Inl UndefinedBehaviour"
| "rule_breaker (x # ptr) (e # es) = (if x \<noteq> e then Inr False else rule_breaker ptr es)"

text \<open>One rule: from the first occurrence of its first edge.\<close>

definition breaks_rule :: "int list \<Rightarrow> Rule \<Rightarrow> bool run" where
  "breaks_rule edgesList r =
     (if m_all r = [] then Inl UndefinedBehaviour
      else
        let ptr = dropWhile (\<lambda>e. e \<noteq> hd (m_all r)) edgesList in
        if ptr = [] then Inr False else rule_breaker ptr (m_all r))"

definition check_rule :: "int list \<Rightarrow> Rule \<Rightarrow> combinations \<times> Path \<Rightarrow> (combinations \<times> Path) run" where
  "check_rule edgesList r = (\<lambda>(new_combinations, p).
     bindE (breaks_rule edgesList r) (\<lambda>broken.
     Inr (if broken then (add_pair (m_start_id p) (m_end_id p) new_combinations, clear_path p)
          else (new_combinations, p))))"

text \<open>The list of edges starts with as many zeros as the path has rows.\<close>

definition check_path :: "Rule list \<Rightarrow> Path \<Rightarrow> combinations \<Rightarrow> (combinations \<times> Path) run" where
  "check_path ruleList p new_combinations =
     (if path p = [] then Inr (add_pair (m_start_id p) (m_end_id p) new_combinations, p)
      else foldE (check_rule (replicate (length (path p)) 0 @ map edge (path p))) ruleList (new_combinations, p))"

definition get_combinations_of_paths :: "Path list \<Rightarrow> Rule list \<Rightarrow> (combinations \<times> Path list) run" where
  "get_combinations_of_paths paths ruleList =
     bindE (foldE (\<lambda>p (new_combinations, ps).
         bindE (check_path ruleList p new_combinations) (\<lambda>(m, p'). Inr (m, ps @ [p']))) paths ([], [])) (\<lambda>(m, ps).
     Inr (m, filter (\<lambda>p. path p \<noteq> []) ps))"

section \<open>Parts of the driver of the turn restricted shortest paths\<close>

definition post_process_trsp :: "bool \<Rightarrow> Path list \<Rightarrow> Path list" where
  "post_process_trsp sorted_too paths =
     (let ps = map recalculate_agg_cost (filter (\<lambda>p. path p \<noteq> []) paths) in
      if sorted_too then sort_by (\<lambda>e1 e2. m_start_id e1 < m_start_id e2) (sort_by (\<lambda>e1 e2. m_end_id e1 < m_end_id e2) ps)
      else ps)"

datatype trsp_answer = Tuples "Path_rt list" | TrspNotice string | TrspError string

text \<open>
  Exceptions end in the error message.  \<open>None\<close>: an \<open>ereport\<close> leaves the driver, or the behaviour is
  undefined.
\<close>

fun trsp_caught :: "pgr_error \<Rightarrow> string option" where
  "trsp_caught AssertFailed = Some ''AssertFailedException''"
| "trsp_caught (KeyNotFound k) = Some ''map::at''"
| "trsp_caught (Thrown ex) = Some ex"
| "trsp_caught UndefinedBehaviour = None"
| "trsp_caught Diverges = None"
| "trsp_caught _ = Some ''Caught unknown exception!''"

type_synonym failure = "sql_error + pgr_error"

definition fetching :: "sql_error + 'a \<Rightarrow> failure + 'a" where
  "fetching r = (case r of Inl e \<Rightarrow> Inl (Inl e) | Inr x \<Rightarrow> Inr x)"

definition running :: "'a run \<Rightarrow> failure + 'a" where
  "running r = (case r of Inl e \<Rightarrow> Inl (Inr e) | Inr x \<Rightarrow> Inr x)"

definition trsp_catching :: "failure + trsp_answer \<Rightarrow> failure + trsp_answer" where
  "trsp_catching r =
     (case r of
        Inr ans \<Rightarrow> Inr ans
      | Inl e \<Rightarrow>
          (case (case e of Inl s \<Rightarrow> error_text s | Inr x \<Rightarrow> trsp_caught x) of
             Some text \<Rightarrow> Inr (TrspError text) | None \<Rightarrow> Inl e))"

text \<open>The restrictions: those without edges are dropped, then paths that break one are searched again.\<close>

definition trsp_paths ::
    "nat \<Rightarrow> Edge_t list \<Rightarrow> bool \<Rightarrow> Restriction_t list \<Rightarrow> Path list \<Rightarrow> Path list run" where
  "trsp_paths fuel edges directed restrictions paths =
     bindE (mapE Rule_of (filter (\<lambda>r. via_edges r \<noteq> []) restrictions)) (\<lambda>ruleList.
     bindE (get_combinations_of_paths paths ruleList) (\<lambda>(new_combinations, kept).
     if new_combinations = [] then Inr (post_process_trsp True kept)
     else
       bindE (TrspHandler_of edges [] directed ruleList) (\<lambda>(_, gdef).
       bindE (process_all fuel new_combinations gdef) (\<lambda>(new_paths, _).
       Inr (post_process_trsp True (kept @ new_paths))))))"

end
