(* ===== verification/Pickup_drivers.thy ===== *)
theory Pickup_drivers
  imports Pick_delivers Combinations
begin

text \<open>
  The drivers of the pickup and delivery planner from the queries on: \<open>pgr_do_pickDeliver\<close>
  (\<open>src/pickDeliver/pickDeliver_driver.cpp\<close>), whose planning part is \<open>do_pickDeliver\<close>, and
  \<open>pgr_do_pickDeliverEuclidean\<close> (\<open>src/pickDeliver/pickDeliverEuclidean_driver.cpp\<close>), which numbers
  the sites by their coordinates and plans with the distances between them.
\<close>

section \<open>With a cost matrix\<close>

definition sql_caught :: "failure + answer \<Rightarrow> failure + answer" where
  "sql_caught r =
     (case r of
        Inl (Inl e) \<Rightarrow> (case error_text e of Some text \<Rightarrow> Inr (Error text) | None \<Rightarrow> r)
      | _ \<Rightarrow> r)"

definition insufficient :: "failure + answer" where
  "insufficient = Inr (Notice ''Insufficient data found on inner query'')"

definition pgr_do_pickDeliver ::
    "('t, 'd, 'v, 'p) spi \<Rightarrow> string \<Rightarrow> string \<Rightarrow> string \<Rightarrow> double \<Rightarrow> int \<Rightarrow> int \<Rightarrow> failure + answer" where
  "pgr_do_pickDeliver spi customers_sql vehicles_sql matrix_sql factor max_cycles initial =
     sql_caught
       (bindE (fetching (get_orders spi customers_sql True)) (\<lambda>orders.
        if orders = [] then insufficient
        else
          bindE (fetching (get_vehicles spi vehicles_sql True)) (\<lambda>vehicles.
          if vehicles = [] then insufficient
          else
            bindE (fetching (get_matrixRows spi matrix_sql)) (\<lambda>data_costs.
            if data_costs = [] then insufficient
            else running (do_pickDeliver orders vehicles data_costs factor max_cycles initial)))))"

section \<open>With coordinates\<close>

type_synonym point = "double \<times> double"

text \<open>\<open>operator<\<close> of a pair; \<open>std::map\<close> keeps a key that is neither less nor greater.\<close>

definition pt_less :: "point \<Rightarrow> point \<Rightarrow> bool" where
  "pt_less p q \<longleftrightarrow> fst p < fst q \<or> \<not> fst q < fst p \<and> snd p < snd q"

fun site_put :: "point \<Rightarrow> int \<Rightarrow> (point \<times> int) list \<Rightarrow> (point \<times> int) list" where
  "site_put k v [] = [(k, v)]"
| "site_put k v ((k', v') # m) =
     (if pt_less k k' then (k, v) # (k', v') # m
      else if pt_less k' k then (k', v') # site_put k v m
      else (k', v) # m)"

fun site_find :: "point \<Rightarrow> (point \<times> int) list \<Rightarrow> int option" where
  "site_find k [] = None"
| "site_find k ((k', v') # m) = (if \<not> pt_less k k' \<and> \<not> pt_less k' k then Some v' else site_find k m)"

text \<open>\<open>m[k]\<close> as a value: a missing key is entered with 0.\<close>

definition site_ref :: "point \<Rightarrow> (point \<times> int) list \<Rightarrow> int \<times> (point \<times> int) list" where
  "site_ref k m = (case site_find k m of Some v \<Rightarrow> (v, m) | None \<Rightarrow> (0, site_put k 0 m))"

definition pick_pt :: "Orders_t \<Rightarrow> point" where "pick_pt q = (pick_x q, pick_y q)"
definition deliver_pt :: "Orders_t \<Rightarrow> point" where "deliver_pt q = (deliver_x q, deliver_y q)"
definition start_pt :: "Vehicle_t \<Rightarrow> point" where "start_pt v = (start_x v, start_y v)"
definition end_pt :: "Vehicle_t \<Rightarrow> point" where "end_pt v = (end_x v, end_y v)"

definition sites_of :: "Orders_t list \<Rightarrow> Vehicle_t list \<Rightarrow> (point \<times> int) list" where
  "sites_of orders vehicles =
     (let m = foldl (\<lambda>m q. site_put (deliver_pt q) (deliver_node_id q) (site_put (pick_pt q) (pick_node_id q) m)) [] orders
      in foldl (\<lambda>m v. site_put (end_pt v) (end_node_id v) (site_put (start_pt v) (start_node_id v) m)) m vehicles)"

text \<open>When the ids of the sites are not different from each other the sites are numbered in order.\<close>

definition number_sites :: "(point \<times> int) list \<Rightarrow> (point \<times> int) list" where
  "number_sites m =
     (let unique_ids = foldl (\<lambda>s e. ids_add s (snd e)) ids_none m in
      if ids_size unique_ids \<noteq> length m then zip (map fst m) (map int [0..<length m]) else m)"

definition place_order :: "Orders_t \<Rightarrow> (point \<times> int) list \<Rightarrow> Orders_t \<times> (point \<times> int) list" where
  "place_order q m =
     (let (a, m1) = site_ref (pick_pt q) m; (b, m2) = site_ref (deliver_pt q) m1 in
      (q\<lparr>pick_node_id := a, deliver_node_id := b\<rparr>, m2))"

definition place_vehicle :: "Vehicle_t \<Rightarrow> (point \<times> int) list \<Rightarrow> Vehicle_t \<times> (point \<times> int) list" where
  "place_vehicle v m =
     (let (a, m1) = site_ref (start_pt v) m; (b, m2) = site_ref (end_pt v) m1 in
      (v\<lparr>start_node_id := a, end_node_id := b\<rparr>, m2))"

fun place_all :: "('a \<Rightarrow> 'm \<Rightarrow> 'a \<times> 'm) \<Rightarrow> 'a list \<Rightarrow> 'm \<Rightarrow> 'a list \<times> 'm" where
  "place_all f [] m = ([], m)"
| "place_all f (x # xs) m = (let (y, m1) = f x m; (ys, m2) = place_all f xs m1 in (y # ys, m2))"

definition euclidean_nodes ::
    "Orders_t list \<Rightarrow> Vehicle_t list \<Rightarrow> Orders_t list \<times> Vehicle_t list \<times> (point \<times> int) list" where
  "euclidean_nodes orders vehicles =
     (let m = number_sites (sites_of orders vehicles);
          (orders', m1) = place_all place_order orders m;
          (vehicles', m2) = place_all place_vehicle vehicles m1 in (orders', vehicles', m2))"

text \<open>
  The \<open>catch\<close> clauses of this driver: there is none for a pair of a text and a number, so those
  exceptions are unknown.
\<close>

fun euclidean_caught :: "pgr_error \<Rightarrow> string option" where
  "euclidean_caught AssertFailed = Some ''AssertFailedException''"
| "euclidean_caught (IllegalVehicle i) = Some ''Illegal values found on vehicle''"
| "euclidean_caught (KeyNotFound k) = Some ''map::at''"
| "euclidean_caught (Thrown ex) = Some ex"
| "euclidean_caught UndefinedBehaviour = None"
| "euclidean_caught Diverges = None"
| "euclidean_caught _ = Some ''Caught unknown exception!''"

text \<open>
  The keys that the map of the sites is asked for.  A map of pairs needs their order to be a strict
  weak order, which it is not when coordinates are NaN; then the run is undefined.
\<close>

definition site_keys :: "Orders_t list \<Rightarrow> Vehicle_t list \<Rightarrow> point list" where
  "site_keys orders vehicles =
     map pick_pt orders @ map deliver_pt orders @ map start_pt vehicles @ map end_pt vehicles"

definition do_pickDeliverEuclidean ::
    "Orders_t list \<Rightarrow> Vehicle_t list \<Rightarrow> double \<Rightarrow> int \<Rightarrow> int \<Rightarrow> answer run" where
  "do_pickDeliverEuclidean orders vehicles factor max_cycles initial =
     (if \<not> strict_weak_on (set (site_keys orders vehicles)) pt_less then Inl UndefinedBehaviour
      else
      let (orders', vehicles', matrix_data) = euclidean_nodes orders vehicles;
          r = bindE (Dmatrix_of_points matrix_data) (\<lambda>cost_matrix.
                run_problem orders' vehicles' cost_matrix factor max_cycles initial) in
      case r of
        Inr ans \<Rightarrow> Inr ans
      | Inl e \<Rightarrow> (case euclidean_caught e of Some text \<Rightarrow> Inr (Error text) | None \<Rightarrow> Inl e))"

definition pgr_do_pickDeliverEuclidean ::
    "('t, 'd, 'v, 'p) spi \<Rightarrow> string \<Rightarrow> string \<Rightarrow> double \<Rightarrow> int \<Rightarrow> int \<Rightarrow> failure + answer" where
  "pgr_do_pickDeliverEuclidean spi customers_sql vehicles_sql factor max_cycles initial =
     sql_caught
       (bindE (fetching (get_orders spi customers_sql False)) (\<lambda>orders.
        if orders = [] then insufficient
        else
          bindE (fetching (get_vehicles spi vehicles_sql False)) (\<lambda>vehicles.
          if vehicles = [] then insufficient
          else running (do_pickDeliverEuclidean orders vehicles factor max_cycles initial))))"

end
