(* ===== verification/Assignments.thy ===== *)
theory Assignments
  imports Optimizes
begin

text \<open>
  Lemmas about fleets and initial solutions: a fleet that the problem has prepared hands out
  empty vehicles whose feasible orders fit, and an initial solution assigns every order to
  exactly one vehicle.
\<close>

section \<open>Loads\<close>

text \<open>The orders in the vehicles, with repetitions.\<close>

definition loads :: "Vehicle_pickDeliver list \<Rightarrow> nat list" where
  "loads vs = concat (map (\<lambda>v. m_ids (m_orders_in_vehicle v)) vs)"

lemma loads_simps [simp]:
  "loads [] = []" "loads (v # vs) = m_ids (m_orders_in_vehicle v) @ loads vs"
  "loads (vs @ ws) = loads vs @ loads ws"
  by (simp_all add: loads_def)

lemma mset_ids: "ids_inv s \<Longrightarrow> mset (m_ids s) = mset_set (ids_set s)"
  by (simp add: ids_inv_def ids_set_def ascending_distinct mset_set_set)

lemma mset_ids_add:
  "ids_inv s \<Longrightarrow> x \<notin> ids_set s \<Longrightarrow> mset (m_ids (ids_add s x)) = add_mset x (mset (m_ids s))"
  by (simp add: mset_ids)

lemma mset_ids_remove:
  "ids_inv s \<Longrightarrow> x \<in> ids_set s \<Longrightarrow> add_mset x (mset (m_ids (ids_remove s x))) = mset (m_ids s)"
  by (simp add: mset_ids mset_set.remove[of "ids_set s" x])

lemma loads_update:
  "i < length vs \<Longrightarrow>
    mset (loads (vs[i := v])) + mset (m_ids (m_orders_in_vehicle (vs ! i))) =
      mset (loads vs) + mset (m_ids (m_orders_in_vehicle v))"
proof (induction vs arbitrary: i)
  case (Cons w vs)
  then show ?case by (cases i) (auto simp: ac_simps)
qed simp

lemma loads_disjoint:
  "distinct (loads vs) \<Longrightarrow> i < length vs \<Longrightarrow> j < length vs \<Longrightarrow> i \<noteq> j \<Longrightarrow>
    ids_set (m_orders_in_vehicle (vs ! i)) \<inter> ids_set (m_orders_in_vehicle (vs ! j)) = {}"
proof (induction vs arbitrary: i j)
  case (Cons v vs)
  have "set (m_ids (m_orders_in_vehicle (vs ! k))) \<subseteq> set (loads vs)" if "k < length vs" for k
    using nth_mem[OF that] by (force simp: loads_def)
  then show ?case
    using Cons by (cases i; cases j) (fastforce simp: ids_set_def)+
qed simp

lemma loads_filter_empty:
  "loads (filter (\<lambda>v. \<not> ids_empty (m_orders_in_vehicle v)) vs) = loads vs"
  by (induction vs) (auto simp: ids_empty_def)

lemma mset_loads_perm: "mset vs = mset ws \<Longrightarrow> mset (loads vs) = mset (loads ws)"
proof -
  assume "mset vs = mset ws"
  then have "mset (map (\<lambda>v. mset (m_ids (m_orders_in_vehicle v))) vs) =
      mset (map (\<lambda>v. mset (m_ids (m_orders_in_vehicle v))) ws)" by simp
  then have "sum_list (map (\<lambda>v. mset (m_ids (m_orders_in_vehicle v))) vs) =
      sum_list (map (\<lambda>v. mset (m_ids (m_orders_in_vehicle v))) ws)" by (metis sum_mset_sum_list)
  then show ?thesis by (simp add: loads_def mset_concat o_def)
qed

section \<open>One table of orders\<close>

text \<open>Every vehicle has its own copy of the orders, which differ in the compatibility sets only.\<close>

definition same_table :: "PD_Orders \<Rightarrow> PD_Orders \<Rightarrow> bool" where
  "same_table os os' \<longleftrightarrow> length os' = length os \<and> (\<forall>i < length os. m_idx (os' ! i) = m_idx (os ! i) \<and>
     m_pickup (os' ! i) = m_pickup (os ! i) \<and> m_delivery (os' ! i) = m_delivery (os ! i))"

lemma same_table_refl [simp]: "same_table os os"
  by (simp add: same_table_def)

lemma same_table_in_table: "same_table os os' \<Longrightarrow> in_table os' q \<longleftrightarrow> in_table os q"
  by (auto simp: same_table_def in_table_def)

lemma same_table_ok: "same_table os os' \<Longrightarrow> orders_ok cm os' \<longleftrightarrow> orders_ok cm os"
  by (auto simp: same_table_def orders_ok_def order_ok_def order_idxs_def)

lemma same_table_trans:
  "same_table os os' \<Longrightarrow> same_table os' os'' \<Longrightarrow> same_table os os''"
  by (simp add: same_table_def)

text \<open>The vehicles of a solution: well-formed, on the table \<open>os\<close>, every order exactly once.\<close>

definition vehicles_ok :: "Dmatrix \<Rightarrow> PD_Orders \<Rightarrow> Vehicle_pickDeliver list \<Rightarrow> bool" where
  "vehicles_ok cm os vs \<longleftrightarrow> (\<forall>v \<in> set vs. pd_wf cm v \<and> same_table os (m_orders v))"

definition serves_once :: "Dmatrix \<Rightarrow> PD_Orders \<Rightarrow> Vehicle_pickDeliver list \<Rightarrow> bool" where
  "serves_once cm os vs \<longleftrightarrow> vehicles_ok cm os vs \<and> mset (loads vs) = mset [0..<length os]"

lemma serves_once_distinct: "serves_once cm os vs \<Longrightarrow> distinct (loads vs)"
  by (metis distinct_upt mset_eq_imp_distinct_iff serves_once_def)

lemma vehicles_ok_simps [simp]:
  "vehicles_ok cm os []"
  "vehicles_ok cm os (v # vs) \<longleftrightarrow> pd_wf cm v \<and> same_table os (m_orders v) \<and> vehicles_ok cm os vs"
  "vehicles_ok cm os (vs @ ws) \<longleftrightarrow> vehicles_ok cm os vs \<and> vehicles_ok cm os ws"
  by (auto simp: vehicles_ok_def)

lemma vehicles_ok_nth:
  "vehicles_ok cm os vs \<Longrightarrow> i < length vs \<Longrightarrow> pd_wf cm (vs ! i) \<and> same_table os (m_orders (vs ! i))"
  by (simp add: vehicles_ok_def)

lemma vehicles_ok_update:
  "vehicles_ok cm os vs \<Longrightarrow> pd_wf cm v \<Longrightarrow> same_table os (m_orders v) \<Longrightarrow> vehicles_ok cm os (vs[i := v])"
  by (auto simp: vehicles_ok_def dest: set_update_subset_insert[THEN subsetD])

section \<open>Prepared fleets\<close>

text \<open>A vehicle of the fleet after \<open>set_compatibles\<close>, and the fleet.\<close>

definition truck_ok :: "Dmatrix \<Rightarrow> PD_Orders \<Rightarrow> Vehicle_pickDeliver \<Rightarrow> bool" where
  "truck_ok cm os v \<longleftrightarrow> pd_wf cm v \<and> is_feasable v \<and> m_orders_in_vehicle v = ids_none \<and>
     same_table os (m_orders v) \<and> ids_inv (m_feasable_orders v) \<and>
     ids_set (m_feasable_orders v) = {i. i < length os \<and> fits cm v (os ! i)} \<and>
     (\<forall>q \<in> set (m_orders v). ids_inv (m_compatibleJ q) \<and> ids_inv (m_compatibleI q))"

definition fleet_ok :: "Dmatrix \<Rightarrow> PD_Orders \<Rightarrow> Fleet \<Rightarrow> bool" where
  "fleet_ok cm os f \<longleftrightarrow> (\<forall>v \<in> set (m_trucks f). truck_ok cm os v) \<and>
     ids_inv (m_un_used f) \<and> (\<forall>i \<in> ids_set (m_un_used f). i < length (m_trucks f)) \<and>
     m_un_used f \<noteq> ids_none"

lemma fits_same_table:
  "same_table os (m_orders v) \<Longrightarrow> i < length os \<Longrightarrow> fits cm w (m_orders v ! i) = fits cm w (os ! i)"
  by (simp add: fits_def same_table_def)

lemma truck_fill_ok: "truck_ok cm os v \<Longrightarrow> ids_inv u \<Longrightarrow> fill_ok cm v u"
  using fits_same_table[of os v]
  by (auto simp: fill_ok_def truck_ok_def same_table_def ids_none_def ids_set_def[of "Identifiers []"])

lemma take_truck_ok:
  assumes "fleet_ok cm os f" "idx \<in> ids_set (m_un_used f)"
  shows "fleet_ok cm os (take_truck idx f)"
proof -
  have inv: "ids_inv (m_un_used f)" using assms(1) by (simp add: fleet_ok_def)
  have "m_un_used (take_truck idx f) \<noteq> ids_none"
  proof (cases "1 < ids_size (m_un_used f)")
    case True
    then have "card (ids_set (m_un_used f) - {idx}) \<noteq> 0"
      using assms(2) inv by (simp add: ids_size_card)
    then have "ids_set (ids_remove (m_un_used f) idx) \<noteq> {}"
      using inv by auto
    then show ?thesis using True by (auto simp: take_truck_def ids_none_def ids_set_def)
  qed (use assms(1) in \<open>simp add: take_truck_def fleet_ok_def\<close>)
  then show ?thesis
    using assms by (auto simp: fleet_ok_def take_truck_def)
qed

lemma find_truck_spec:
  assumes "\<forall>i \<in> set is'. i < length ts"
  shows "\<exists>r. find_truck q ts is' = Inr r \<and>
    (case r of Some i \<Rightarrow> i \<in> set is' \<and> q \<in> ids_set (m_feasable_orders (ts ! i))
     | None \<Rightarrow> \<forall>i \<in> set is'. q \<notin> ids_set (m_feasable_orders (ts ! i)))"
  using assms by (induction is') (auto split: option.splits)

lemma get_truck_for_spec:
  assumes "fleet_ok cm os f"
  shows "(\<exists>v f'. get_truck_for q f = Inr (v, f') \<and> truck_ok cm os v \<and> fleet_ok cm os f' \<and>
      m_trucks f' = m_trucks f \<and> v \<in> set (m_trucks f) \<and> q \<in> ids_set (m_feasable_orders v)) \<or>
    get_truck_for q f = Inl AssertFailed \<and>
      (\<forall>i \<in> ids_set (m_un_used f). q \<notin> ids_set (m_feasable_orders (m_trucks f ! i)))"
proof -
  have "\<forall>i \<in> set (m_ids (m_un_used f)). i < length (m_trucks f)"
    using assms by (simp add: fleet_ok_def ids_set_def)
  from find_truck_spec[OF this, of q] obtain r where
    r: "find_truck q (m_trucks f) (m_ids (m_un_used f)) = Inr r"
      "case r of Some i \<Rightarrow> i \<in> set (m_ids (m_un_used f)) \<and> q \<in> ids_set (m_feasable_orders (m_trucks f ! i))
       | None \<Rightarrow> \<forall>i \<in> set (m_ids (m_un_used f)). q \<notin> ids_set (m_feasable_orders (m_trucks f ! i))"
    by blast
  show ?thesis
  proof (cases r)
    case None
    then show ?thesis using r by (simp add: get_truck_for_def ids_set_def)
  next
    case (Some i)
    then have i: "i \<in> ids_set (m_un_used f)" "q \<in> ids_set (m_feasable_orders (m_trucks f ! i))"
      using r(2) by (simp_all add: ids_set_def)
    then have "i < length (m_trucks f)" using assms by (simp add: fleet_ok_def)
    then have "truck_ok cm os (m_trucks f ! i)" "m_trucks f ! i \<in> set (m_trucks f)"
      using assms by (simp_all add: fleet_ok_def)
    then show ?thesis
      using Some r(1) i take_truck_ok[OF assms i(1)] by (simp add: get_truck_for_def take_truck_def)
  qed
qed


section \<open>Initial solutions\<close>

definition init_ok :: "Dmatrix \<Rightarrow> PD_Orders \<Rightarrow> Initial_solution \<Rightarrow> bool" where
  "init_ok cm os s \<longleftrightarrow> fleet_ok cm os (trucks s) \<and> vehicles_ok cm os (fleet s) \<and>
     list_all is_feasable (fleet s) \<and>
     ids_inv (m_all_orders s) \<and> ids_inv (m_assigned s) \<and> ids_inv (m_unassigned s) \<and>
     ids_set (m_all_orders s) = {0..<length os} \<and>
     ids_set (m_assigned s) \<union> ids_set (m_unassigned s) = {0..<length os} \<and>
     ids_set (m_assigned s) \<inter> ids_set (m_unassigned s) = {} \<and>
     mset (loads (fleet s)) = mset_set (ids_set (m_assigned s)) \<and>
     clock ` set (fleet s) \<subseteq> clock ` set (m_trucks (trucks s))"

lemma std_equal_refl: "std_equal xs xs = Inr True"
  by (induction xs) auto

lemma init_ok_invariant:
  assumes "init_ok cm os s"
  shows "init_invariant s = Inr ()"
proof -
  have "m_all_orders s = ids_union (m_assigned s) (m_unassigned s)"
    using assms by (intro ids_extensional) (auto simp: init_ok_def)
  then show ?thesis
    using assms by (auto simp: init_invariant_def ids_eq_def std_equal_refl ids_empty_iff init_ok_def)
qed

text \<open>One round of \<open>do_while_foo\<close>.\<close>

lemma assign_round:
  assumes "init_ok cm os s" "kind \<noteq> OneTruck" "truck_ok cm os v" "fleet_ok cm os f'"
    "m_trucks f' = m_trucks (trucks s)" "v \<in> set (m_trucks (trucks s))"
  shows "\<exists>v' u a. do_while_feasable cm kind (v, m_unassigned s, m_assigned s) = Inr (v', u, a) \<and>
    init_ok cm os (s\<lparr>fleet := fleet s @ [v'], trucks := f', m_unassigned := u, m_assigned := a\<rparr>) \<and>
    (kind \<in> {OnePerTruck, FrontTruck, BackTruck} \<and>
      ids_set (m_feasable_orders v) \<inter> ids_set (m_unassigned s) \<noteq> {} \<longrightarrow>
      ids_size u < ids_size (m_unassigned s))"
proof -
  let ?u = "m_unassigned s" and ?a = "m_assigned s"
  have inv: "ids_inv ?u" "ids_inv ?a" using assms(1) by (simp_all add: init_ok_def)
  have empty: "ids_set (m_orders_in_vehicle v) = {}" using assms(3) by (simp add: truck_ok_def)
  obtain st M where st: "do_while_feasable cm kind (v, ?u, ?a) = Inr st"
      "M \<subseteq> ids_set (m_feasable_orders v) \<inter> ids_set ?u" "filled cm (v, ?u, ?a) M st"
      "kind \<in> {OnePerTruck, FrontTruck, BackTruck} \<and> ids_set (m_orders_in_vehicle v) = {} \<and>
        ids_set (m_feasable_orders v) \<inter> ids_set ?u \<noteq> {} \<longrightarrow> M \<noteq> {}"
    using do_while_feasable_spec[OF truck_fill_ok[OF assms(3) inv(1)] inv(2) assms(2)] empty by blast
  obtain v' u a where vua: "st = (v', u, a)" by (cases st)
  have f: "pd_wf cm v'" "is_feasable v'" "ids_inv u" "ids_inv a"
    "ids_set u = ids_set ?u - M" "ids_set a = ids_set ?a \<union> M"
    "ids_set (m_orders_in_vehicle v') = M" "m_orders v' = m_orders v" "clock v' = clock v"
    using st(3) empty by (auto simp: vua filled_def fill_ok_def)
  have M: "finite M" "M \<inter> ids_set ?a = {}" "M \<subseteq> ids_set ?u"
    using st(2) assms(1) finite_subset[OF _ finite_ids_set[of ?u]] by (auto simp: init_ok_def)
  have "mset (m_ids (m_orders_in_vehicle v')) = mset_set M"
    using f(1,7) by (simp add: pd_wf_def mset_ids)
  moreover have "mset_set (ids_set ?a \<union> M) = mset_set (ids_set ?a) + mset_set M"
    using M by (intro mset_set_Union) auto
  ultimately have "init_ok cm os
      (s\<lparr>fleet := fleet s @ [v'], trucks := f', m_unassigned := u, m_assigned := a\<rparr>)"
    using assms(1,3-6) f M by (auto simp: init_ok_def truck_ok_def)
  moreover have "ids_size u < ids_size ?u" if "M \<noteq> {}"
    using that M f(3,5) inv(1) by (simp add: ids_size_card) (rule psubset_card_mono; auto)
  ultimately show ?thesis
    using st(1,4) empty by (auto simp: vua)
qed

definition all_fit :: "PD_Orders \<Rightarrow> Fleet \<Rightarrow> bool" where
  "all_fit os f \<longleftrightarrow> (\<forall>v \<in> set (m_trucks f). ids_set (m_feasable_orders v) = {0..<length os})"

lemma assign_loop_spec:
  assumes "init_ok cm os s" "kind \<noteq> OneTruck"
  shows "(\<exists>s'. assign_loop cm kind s = Inr s' \<and> init_ok cm os s' \<and> ids_set (m_unassigned s') = {} \<and>
      m_trucks (trucks s') = m_trucks (trucks s)) \<or>
    assign_loop cm kind s = Inl AssertFailed \<and>
      \<not> (kind \<in> {OnePerTruck, FrontTruck, BackTruck} \<and> all_fit os (trucks s))"
  using assms
proof (induction cm kind s rule: assign_loop.induct)
  case (1 cm kind s)
  show ?case
  proof (cases "ids_empty (m_unassigned s)")
    case True
    then show ?thesis
      using "1.prems"(1) by (subst assign_loop.simps) (auto simp: ids_empty_iff)
  next
    case False
    have inv: "ids_inv (m_unassigned s)" "fleet_ok cm os (trucks s)"
      using "1.prems"(1) by (simp_all add: init_ok_def)
    obtain i where i: "ids_front (m_unassigned s) = Inr i" "i \<in> ids_set (m_unassigned s)"
      using False inv(1) ids_front_Inr ids_front_in by metis
    have n: "i < length os" using "1.prems"(1) i(2) by (auto simp: init_ok_def)
    consider v f' where "get_truck_for i (trucks s) = Inr (v, f')" "truck_ok cm os v"
        "fleet_ok cm os f'" "m_trucks f' = m_trucks (trucks s)" "i \<in> ids_set (m_feasable_orders v)"
        "v \<in> set (m_trucks (trucks s))"
      | "get_truck_for i (trucks s) = Inl AssertFailed" "\<not> all_fit os (trucks s)"
    proof -
      have "\<not> all_fit os (trucks s)"
        if "\<forall>j \<in> ids_set (m_un_used (trucks s)).
            i \<notin> ids_set (m_feasable_orders (m_trucks (trucks s) ! j))"
      proof -
        obtain j where j: "j \<in> ids_set (m_un_used (trucks s))"
          using inv(2) ids_extensional[of "m_un_used (trucks s)" ids_none]
          by (auto simp: fleet_ok_def)
        then have "m_trucks (trucks s) ! j \<in> set (m_trucks (trucks s))"
          using inv(2) by (simp add: fleet_ok_def)
        moreover have "ids_set (m_feasable_orders (m_trucks (trucks s) ! j)) \<noteq> {0..<length os}"
          using that j n by auto
        ultimately show ?thesis by (auto simp: all_fit_def)
      qed
      then show ?thesis
        using get_truck_for_spec[OF inv(2), of i] that by blast
    qed
    then show ?thesis
    proof cases
      case 2
      then show ?thesis using False i(1) by (subst assign_loop.simps) simp
    next
      case (1 v f')
      obtain v' u a where r: "do_while_feasable cm kind (v, m_unassigned s, m_assigned s) = Inr (v', u, a)"
          "init_ok cm os (s\<lparr>fleet := fleet s @ [v'], trucks := f', m_unassigned := u, m_assigned := a\<rparr>)"
          "kind \<in> {OnePerTruck, FrontTruck, BackTruck} \<longrightarrow> ids_size u < ids_size (m_unassigned s)"
        using assign_round[OF "1.prems" 1(2,3,4,6)] 1(5) i(2) by blast
      let ?s = "s\<lparr>fleet := fleet s @ [v'], trucks := f', m_unassigned := u, m_assigned := a\<rparr>"
      show ?thesis
      proof (cases "ids_size u < ids_size (m_unassigned s)")
        case True
        have "assign_loop cm kind s = assign_loop cm kind ?s"
          using False i(1) 1(1) r(1) True init_ok_invariant[OF r(2)]
          by (subst assign_loop.simps) simp
        moreover have "all_fit os (trucks ?s) = all_fit os (trucks s)"
          using 1(4) by (simp add: all_fit_def)
        ultimately show ?thesis
          using "1.IH"[OF False i(1) 1(1) refl r(1) refl refl True refl _ r(2) "1.prems"(2)]
            init_ok_invariant[OF r(2)] 1(4) by simp
      next
        case F: False
        have "assign_loop cm kind s = Inl AssertFailed"
          using False i(1) 1(1) r(1) F by (subst assign_loop.simps) simp
        then show ?thesis using r(3) F by blast
      qed
    qed
  qed
qed


lemma init_ok_start:
  assumes "fleet_ok cm os f"
  shows "init_ok cm os \<lparr>fleet = [], trucks = f, m_all_orders = ids_upto (length os),
    m_unassigned = ids_upto (length os), m_assigned = ids_none\<rparr>"
  using assms by (simp add: init_ok_def)

text \<open>An initial solution that is returned serves every order once, feasibly.\<close>

definition solution_ok :: "Dmatrix \<Rightarrow> PD_Orders \<Rightarrow> 'a Solution_scheme \<Rightarrow> bool" where
  "solution_ok cm os s \<longleftrightarrow> serves_once cm os (fleet s) \<and> sol_is_feasable s"

lemma init_ok_done:
  assumes "init_ok cm os s" "ids_set (m_unassigned s) = {}"
  shows "solution_ok cm os s"
proof -
  have "mset (loads (fleet s)) = mset_set {0..<length os}"
    using assms by (auto simp: init_ok_def)
  then show ?thesis
    using assms(1) by (simp add: solution_ok_def serves_once_def sol_is_feasable_def init_ok_def
        mset_set_upto_eq_mset_upto atLeast0LessThan[symmetric])
qed

lemma Initial_solution_spec:
  assumes "fleet_ok cm os f" "kind \<noteq> OneTruck"
  shows "(\<exists>s. Initial_solution_of cm f kind (length os) = Inr s \<and> solution_ok cm os s \<and>
      clock ` set (fleet s) \<subseteq> clock ` set (m_trucks f)) \<or>
    Initial_solution_of cm f kind (length os) = Inl AssertFailed \<and>
      \<not> (kind \<in> {OnePerTruck, FrontTruck, BackTruck} \<and> all_fit os f)"
proof -
  let ?s = "\<lparr>fleet = [], trucks = f, m_all_orders = ids_upto (length os),
    m_unassigned = ids_upto (length os), m_assigned = ids_none\<rparr> :: Initial_solution"
  note ok = init_ok_start[OF assms(1)]
  have kind: "OneTruck \<le> kind" "OneTruck < kind" "kind \<le> OneDepot"
    using assms(2) by (cases kind; simp add: less_eq_Initials_code_def less_Initials_code_def)+
  consider s' where "assign_loop cm kind ?s = Inr s'" "init_ok cm os s'" "ids_set (m_unassigned s') = {}"
      "m_trucks (trucks s') = m_trucks f"
    | "assign_loop cm kind ?s = Inl AssertFailed"
      "\<not> (kind \<in> {OnePerTruck, FrontTruck, BackTruck} \<and> all_fit os f)"
    using assign_loop_spec[OF ok assms(2)] by auto
  then show ?thesis
  proof cases
    case 1
    then have "Initial_solution_of cm f kind (length os) = Inr s'"
      using init_ok_invariant[OF ok] init_ok_invariant[OF 1(2)] init_ok_done[OF 1(2,3)] kind assms(2)
      by (simp add: Initial_solution_of_def do_while_foo_def Let_def solution_ok_def)
    moreover have "clock ` set (fleet s') \<subseteq> clock ` set (m_trucks f)"
      using 1(2,4) by (simp add: init_ok_def)
    ultimately show ?thesis using init_ok_done[OF 1(2,3)] by blast
  next
    case 2
    then have "Initial_solution_of cm f kind (length os) = Inl AssertFailed"
      using init_ok_invariant[OF ok] kind assms(2)
      by (simp add: Initial_solution_of_def do_while_foo_def Let_def)
    then show ?thesis using 2(2) by blast
  qed
qed

end
