(* ===== verification/Improvements.thy ===== *)
theory Improvements
  imports Assignments
begin

text \<open>
  Lemmas about \<open>Optimize\<close>: no step fails an assertion, every step keeps each order in exactly
  one vehicle, and the recursion of \<open>decrease_truck\<close> ends within its bound.
\<close>

section \<open>Moves between two vehicles\<close>

lemma put_order_spec:
  assumes "pd_wf cm v" "in_table (m_orders v) q" "\<not> has_order v q"
  shows "\<exists>v'. put_order cm kind q v = Inr v' \<and> (v' = v \<or> extends cm v q v' \<and> is_feasable v')"
proof (cases "kind = OneDepot")
  case True
  have "(\<exists>d. 1 < d \<and> d \<le> length (m_path v) \<and> is_feasable (via cm v (with_order q (sites v) 1 d)) \<and>
      pd_semiLIFO cm q v = Inr (True, carry q (via cm v (with_order q (sites v) 1 d)))) \<or>
      pd_semiLIFO cm q v = Inr (False, v)"
    using pd_semiLIFO_spec[OF assms] by blast
  then show ?thesis using True extendsI[of 1] by (auto simp: put_order_def)
next
  case False
  then have "put_order cm kind q v = bindE (pd_insert cm q v) (\<lambda>(_, v'). Inr v')"
    by (simp add: put_order_def)
  then show ?thesis
    by (cases rule: pd_insert_cases[OF assms]) auto
qed

lemma pd_erase_spec:
  assumes "pd_wf cm v" "in_table (m_orders v) q" "has_order v q"
  shows "\<exists>v'. pd_erase cm q v = Inr v' \<and> pd_wf cm v' \<and> m_orders v' = m_orders v \<and>
    m_orders_in_vehicle v' = ids_remove (m_orders_in_vehicle v) (m_idx q) \<and> clock v' = clock v"
  using pd_erase_eq[OF assms] erase_clock[OF assms] by simp

lemma veh_sizes:
  assumes "pd_wf cm v"
  shows "veh_empty v = Inr (length (m_path v) \<le> 2)" "veh_size v = Inr (length (m_path v) - 2)"
  using veh_invariant_wf[OF pd_wfD(1)[OF assms]] by (simp_all add: veh_empty_def veh_size_def)

text \<open>A vehicle that gains or loses an order, as its users see it.\<close>

definition gains :: "Dmatrix \<Rightarrow> Order \<Rightarrow> Vehicle_pickDeliver \<Rightarrow> Vehicle_pickDeliver \<Rightarrow> bool" where
  "gains cm q v v' \<longleftrightarrow> pd_wf cm v' \<and> m_orders v' = m_orders v \<and>
     m_orders_in_vehicle v' = ids_add (m_orders_in_vehicle v) (m_idx q) \<and> is_feasable v' \<and>
     clock v' = clock v"

definition loses :: "Dmatrix \<Rightarrow> Order \<Rightarrow> Vehicle_pickDeliver \<Rightarrow> Vehicle_pickDeliver \<Rightarrow> bool" where
  "loses cm q v v' \<longleftrightarrow> pd_wf cm v' \<and> m_orders v' = m_orders v \<and>
     m_orders_in_vehicle v' = ids_remove (m_orders_in_vehicle v) (m_idx q) \<and> clock v' = clock v"

lemma extends_gains:
  "extends cm v q v' \<Longrightarrow> is_feasable v' \<Longrightarrow> pd_wf cm v \<Longrightarrow> in_table (m_orders v) q \<Longrightarrow> \<not> has_order v q \<Longrightarrow>
    gains cm q v v'"
  using extends_wf extends_fields extends_clock by (simp add: gains_def)

lemma gains_has: "gains cm q v v' \<Longrightarrow> has_order v' q' \<longleftrightarrow> m_idx q' = m_idx q \<or> has_order v q'"
  by (auto simp: gains_def has_order_def)

lemma loses_has:
  "loses cm q v v' \<Longrightarrow> pd_wf cm v \<Longrightarrow> has_order v' q' \<longleftrightarrow> m_idx q' \<noteq> m_idx q \<and> has_order v q'"
  by (auto simp: loses_def has_order_def pd_wf_def)

lemma put_order_gains:
  assumes "pd_wf cm v" "in_table (m_orders v) q" "\<not> has_order v q"
  obtains "put_order cm kind q v = Inr v"
  | v' where "put_order cm kind q v = Inr v'" "gains cm q v v'" "has_order v' q"
  using put_order_spec[OF assms, of kind] extends_gains[OF _ _ assms] extends_fields(7) by metis

lemma pd_erase_loses:
  assumes "pd_wf cm v" "in_table (m_orders v) q" "has_order v q"
  obtains v' where "pd_erase cm q v = Inr v'" "loses cm q v v'"
  using pd_erase_spec[OF assms] by (auto simp: loses_def)

lemma move_order_spec:
  assumes "pd_wf cm v" "pd_wf cm w" "in_table (m_orders v) q" "in_table (m_orders w) q"
    and "has_order v q" "\<not> has_order w q"
  obtains v' w' where "move_order cm kind q v w = Inr (True, v', w')" "loses cm q v v'" "gains cm q w w'"
  | "move_order cm kind q v w = Inr (False, v, w)"
proof -
  note sz = veh_sizes[OF assms(1)] veh_sizes[OF assms(2)]
  consider "put_order cm kind q w = Inr w"
    | w' where "put_order cm kind q w = Inr w'" "gains cm q w w'" "has_order w' q"
    using put_order_gains[OF assms(2,4,6)] by blast
  then show ?thesis
  proof cases
    case 1
    then have "move_order cm kind q v w = Inr (False, v, w)"
      using assms(5,6) sz by (simp add: move_order_def)
    then show ?thesis by (rule that(2))
  next
    case (2 w')
    obtain v' where v': "pd_erase cm q v = Inr v'" "loses cm q v v'"
      using pd_erase_loses[OF assms(1,3,5)] by blast
    have "move_order cm kind q v w = Inr (True, v', w') \<or> move_order cm kind q v w = Inr (False, v, w)"
      using assms(5,6) sz 2 v' loses_has[OF v'(2) assms(1), of q] by (auto simp: move_order_def)
    then show ?thesis using that v'(2) 2(2) by blast
  qed
qed

section \<open>The state of the optimisation\<close>

definition opt_ok :: "Dmatrix \<Rightarrow> PD_Orders \<Rightarrow> Optimize \<Rightarrow> bool" where
  "opt_ok cm os s \<longleftrightarrow> serves_once cm os (fleet s) \<and> serves_once cm os (fleet (best_solution s)) \<and>
     length (fleet (best_solution s)) \<le> length (fleet s)"

text \<open>The same, and every vehicle has one of the clocks \<open>E\<close>: those of the vehicles at the start.\<close>

definition opt_in ::
    "(double \<times> Tw_node) set \<Rightarrow> Dmatrix \<Rightarrow> PD_Orders \<Rightarrow> Optimize \<Rightarrow> bool" where
  "opt_in E cm os s \<longleftrightarrow> serves_once cm os (fleet s) \<and> serves_once cm os (fleet (best_solution s)) \<and>
     length (fleet (best_solution s)) \<le> length (fleet s) \<and>
     clock ` set (fleet s) \<subseteq> E \<and> clock ` set (fleet (best_solution s)) \<subseteq> E"

lemma opt_in_UNIV: "opt_in UNIV cm os s = opt_ok cm os s"
  by (simp add: opt_in_def opt_ok_def)

lemma opt_fields [simp]:
  "fleet (s\<lparr>best_solution := b\<rparr>) = fleet s" "trucks (s\<lparr>best_solution := b\<rparr>) = trucks s"
  "best_solution (s\<lparr>fleet := vs\<rparr>) = best_solution s"
  by (cases s; simp)+

lemma opt_ok_wf:
  assumes "opt_in E cm os s" "i < length (fleet s)"
  shows "pd_wf cm (fleet s ! i)" "same_table os (m_orders (fleet s ! i))"
    "in_table (m_orders (fleet s ! i)) q = in_table os q"
  using assms vehicles_ok_nth[of cm os "fleet s" i] same_table_in_table
  by (auto simp: opt_in_def serves_once_def)

lemma opt_ok_disjoint:
  assumes "opt_in E cm os s" "i < length (fleet s)" "j < length (fleet s)" "i \<noteq> j"
    "has_order (fleet s ! i) q"
  shows "\<not> has_order (fleet s ! j) q"
proof -
  have "distinct (loads (fleet s))"
    using assms(1) serves_once_distinct unfolding opt_in_def by blast
  from loads_disjoint[OF this assms(2-4)] show ?thesis
    using assms(5) by (auto simp: has_order_def)
qed

text \<open>Replacing two vehicles by two that carry the same orders together.\<close>

lemma opt_ok_exchange:
  assumes "opt_in E cm os s" "i < length (fleet s)" "j < length (fleet s)" "i \<noteq> j"
    and "pd_wf cm v" "m_orders v = m_orders (fleet s ! i)"
    and "pd_wf cm w" "m_orders w = m_orders (fleet s ! j)"
    and "clock v = clock (fleet s ! i)" "clock w = clock (fleet s ! j)"
    and "mset (m_ids (m_orders_in_vehicle v)) + mset (m_ids (m_orders_in_vehicle w)) =
      mset (m_ids (m_orders_in_vehicle (fleet s ! i))) + mset (m_ids (m_orders_in_vehicle (fleet s ! j)))"
  shows "opt_in E cm os (s\<lparr>fleet := (fleet s)[i := v, j := w]\<rparr>)"
proof -
  let ?m = "\<lambda>v. mset (m_ids (m_orders_in_vehicle v))"
  have a: "mset (loads ((fleet s)[i := v])) + ?m (fleet s ! i) = mset (loads (fleet s)) + ?m v"
    using assms(2) by (rule loads_update)
  have b: "mset (loads ((fleet s)[i := v, j := w])) + ?m (fleet s ! j) =
      mset (loads ((fleet s)[i := v])) + ?m w"
    using loads_update[of j "(fleet s)[i := v]" w] assms(3,4) by simp
  have "mset (loads ((fleet s)[i := v, j := w])) + (?m (fleet s ! i) + ?m (fleet s ! j)) =
      mset (loads (fleet s)) + (?m v + ?m w)"
    using a b by (metis (no_types, lifting) add.assoc add.commute)
  then have "mset (loads ((fleet s)[i := v, j := w])) = mset (loads (fleet s))"
    using assms(11) by simp
  moreover have "vehicles_ok cm os ((fleet s)[i := v, j := w])"
    using assms opt_ok_wf(2)[OF assms(1)]
    by (intro vehicles_ok_update) (auto simp: opt_in_def serves_once_def)
  moreover have "clock ` set ((fleet s)[i := v, j := w]) \<subseteq> E"
  proof -
    have "clock (fleet s ! i) \<in> E" "clock (fleet s ! j) \<in> E" "clock ` set (fleet s) \<subseteq> E"
      using assms(1-3) by (auto simp: opt_in_def)
    then show ?thesis
      using assms(9,10) by (auto dest!: set_update_subset_insert[THEN subsetD])
  qed
  ultimately show ?thesis
    using assms(1) by (simp add: opt_in_def serves_once_def)
qed

lemma save_if_best_ok: "opt_in E cm os s \<Longrightarrow> opt_in E cm os (save_if_best s)"
  by (auto simp: opt_in_def save_if_best_def Let_def as_solution_def)

lemma save_if_best_fleet [simp]: "fleet (save_if_best s) = fleet s"
  by (simp add: save_if_best_def Let_def)

lemma serves_once_perm: "mset vs = mset ws \<Longrightarrow> serves_once cm os vs \<longleftrightarrow> serves_once cm os ws"
  by (metis mset_eq_setD mset_loads_perm serves_once_def vehicles_ok_def)

lemma fleet_perm_ok:
  assumes "opt_in E cm os s" "mset vs = mset (fleet s)"
  shows "opt_in E cm os (s\<lparr>fleet := vs\<rparr>)"
proof -
  have "length vs = length (fleet s)" "set vs = set (fleet s)"
    using assms(2) by (rule mset_eq_length, rule mset_eq_setD)
  then show ?thesis
    using assms serves_once_perm[OF assms(2), of cm os] by (simp add: opt_in_def)
qed

text \<open>
  The sort by size returns a permutation of the fleet, or it is undefined because a duration is not
  a number; that needs a clock that is not \<open>timed\<close>.
\<close>

lemma sort_by_size_spec:
  assumes "opt_in E cm os s"
  obtains s' where "sort_by_size s = Inr s'" "opt_in E cm os s'" "length (fleet s') = length (fleet s)"
    "best_solution s' = best_solution s"
  | "sort_by_size s = Inl UndefinedBehaviour" "\<not> (\<forall>k \<in> E. timed cm k)"
proof (cases "strict_weak_on (set (fleet s)) (\<lambda>l r. duration r < duration l)")
  case True
  define vs where "vs = sort_by (\<lambda>l r. orders_size r < orders_size l)
    (sort_by (\<lambda>l r. duration r < duration l) (fleet s))"
  have "sort_by_size s = Inr (s\<lparr>fleet := vs\<rparr>)"
    using True by (simp add: sort_by_size_def sort_by_duration_def vs_def)
  moreover have "mset vs = mset (fleet s)" by (simp add: vs_def)
  ultimately show ?thesis
    using that(1) fleet_perm_ok[OF assms, of vs] mset_eq_length by fastforce
next
  case False
  have "\<forall>v \<in> set (fleet s). pd_wf cm v \<and> clock v \<in> E"
    using assms by (auto simp: opt_in_def serves_once_def vehicles_ok_def)
  then have "\<not> (\<forall>k \<in> E. timed cm k)" using False durations_ordered[of "fleet s" cm] by blast
  moreover have "sort_by_size s = Inl UndefinedBehaviour"
    using False by (simp add: sort_by_size_def sort_by_duration_def std_sort_def)
  ultimately show ?thesis using that(2) by blast
qed

lemma serves_once_filter:
  "serves_once cm os vs \<Longrightarrow> serves_once cm os (filter (\<lambda>v. \<not> ids_empty (m_orders_in_vehicle v)) vs)"
  by (auto simp: serves_once_def loads_filter_empty vehicles_ok_def)


lemma delete_empty_truck_ok:
  assumes "opt_in E cm os s"
  shows "opt_in E cm os (delete_empty_truck s)"
    "fleet (delete_empty_truck s) = filter (\<lambda>v. \<not> ids_empty (m_orders_in_vehicle v)) (fleet s)"
    "length (fleet (delete_empty_truck s)) \<le> length (fleet s)"
proof -
  show f: "fleet (delete_empty_truck s) = filter (\<lambda>v. \<not> ids_empty (m_orders_in_vehicle v)) (fleet s)"
    by (simp add: delete_empty_truck_def)
  then show "length (fleet (delete_empty_truck s)) \<le> length (fleet s)" by simp
  show "opt_in E cm os (delete_empty_truck s)"
    using assms serves_once_filter[of cm os "fleet s"]
    by (auto simp: delete_empty_truck_def save_if_best_def opt_in_def as_solution_def Let_def)
qed

section \<open>Exchanging orders\<close>

lemma in_vehicle_nth:
  assumes "opt_in E cm os s" "i < length (fleet s)" "orders_ok cm os" "x < length os"
  shows "\<exists>q. orders_at (m_orders (fleet s ! i)) x = Inr q \<and> m_idx q = x \<and> in_table os q"
proof -
  have st: "same_table os (m_orders (fleet s ! i))" by (rule opt_ok_wf(2)[OF assms(1,2)])
  then have "x < length (m_orders (fleet s ! i))" using assms(4) by (simp add: same_table_def)
  moreover have "in_table (m_orders (fleet s ! i)) (m_orders (fleet s ! i) ! x) \<and>
      m_idx (m_orders (fleet s ! i) ! x) = x"
    using in_table_nth[of cm "m_orders (fleet s ! i)" x] assms(3) same_table_ok[OF st] \<open>x < length (m_orders _)\<close>
    by simp
  ultimately show ?thesis
    using same_table_in_table[OF st] by (simp add: orders_at_def)
qed

lemma ids_in_vehicle_bound:
  "opt_in E cm os s \<Longrightarrow> i < length (fleet s) \<Longrightarrow> x \<in> ids_set (m_orders_in_vehicle (fleet s ! i)) \<Longrightarrow>
    x < length os"
  using opt_ok_wf(1,2)[of E cm os s i] by (auto simp: pd_wf_def same_table_def)

text \<open>Two vehicles trade orders: what one loses the other gains.\<close>

lemma opt_ok_move:
  assumes "opt_in E cm os s" "t < length (fleet s)" "f < length (fleet s)" "t \<noteq> f"
    and "gains cm q (fleet s ! t) tt" "loses cm q (fleet s ! f) ff" "has_order (fleet s ! f) q"
  shows "opt_in E cm os (s\<lparr>fleet := (fleet s)[t := tt, f := ff]\<rparr>)"
proof -
  have "\<not> has_order (fleet s ! t) q"
    using opt_ok_disjoint[OF assms(1,3,2)] assms(4,7) by blast
  moreover have "ids_inv (m_orders_in_vehicle (fleet s ! t))" "ids_inv (m_orders_in_vehicle (fleet s ! f))"
    using opt_ok_wf(1)[OF assms(1)] assms(2,3) by (auto simp: pd_wf_def)
  moreover have "m_idx q \<in> ids_set (m_orders_in_vehicle (fleet s ! f))"
    using assms(7) by (simp add: has_order_def)
  moreover have "m_orders_in_vehicle tt = ids_add (m_orders_in_vehicle (fleet s ! t)) (m_idx q)"
    "m_orders_in_vehicle ff = ids_remove (m_orders_in_vehicle (fleet s ! f)) (m_idx q)"
    using assms(5,6) by (simp_all add: gains_def loses_def)
  ultimately have "mset (m_ids (m_orders_in_vehicle tt)) + mset (m_ids (m_orders_in_vehicle ff)) =
      mset (m_ids (m_orders_in_vehicle (fleet s ! t))) + mset (m_ids (m_orders_in_vehicle (fleet s ! f)))"
    using mset_ids_remove[of "m_orders_in_vehicle (fleet s ! f)" "m_idx q"]
    by (simp add: mset_ids_add has_order_def)
  then show ?thesis
    using assms(5,6) by (intro opt_ok_exchange[OF assms(1-4)]) (auto simp: gains_def loses_def)
qed

lemma opt_ok_swap:
  assumes "opt_in E cm os s" "t < length (fleet s)" "f < length (fleet s)" "t \<noteq> f"
    and "loses cm p (fleet s ! t) t1" "gains cm q t1 t2"
    and "loses cm q (fleet s ! f) f1" "gains cm p f1 f2"
    and "has_order (fleet s ! t) p" "has_order (fleet s ! f) q"
  shows "opt_in E cm os (s\<lparr>fleet := (fleet s)[t := t2, f := f2]\<rparr>)"
proof -
  let ?T = "m_orders_in_vehicle (fleet s ! t)" and ?F = "m_orders_in_vehicle (fleet s ! f)"
  have inv: "ids_inv ?T" "ids_inv ?F"
    using opt_ok_wf(1)[OF assms(1)] assms(2,3) by (auto simp: pd_wf_def)
  have no: "m_idx q \<notin> ids_set ?T" "m_idx p \<notin> ids_set ?F"
    using opt_ok_disjoint[OF assms(1,3,2) assms(4)[symmetric] assms(10)]
      opt_ok_disjoint[OF assms(1,2,3) assms(4) assms(9)]
    by (simp_all add: has_order_def)
  have has: "m_idx p \<in> ids_set ?T" "m_idx q \<in> ids_set ?F"
    using assms(9,10) by (simp_all add: has_order_def)
  have m: "m_orders_in_vehicle t2 = ids_add (ids_remove ?T (m_idx p)) (m_idx q)"
    "m_orders_in_vehicle f2 = ids_add (ids_remove ?F (m_idx q)) (m_idx p)"
    using assms(5-8) by (simp_all add: gains_def loses_def)
  have "mset (m_ids (m_orders_in_vehicle t2)) + mset (m_ids (m_orders_in_vehicle f2)) =
      add_mset (m_idx q) (mset (m_ids (ids_remove ?T (m_idx p)))) +
      add_mset (m_idx p) (mset (m_ids (ids_remove ?F (m_idx q))))"
    using inv no by (simp add: m mset_ids_add)
  also have "\<dots> = add_mset (m_idx p) (mset (m_ids (ids_remove ?T (m_idx p)))) +
      add_mset (m_idx q) (mset (m_ids (ids_remove ?F (m_idx q))))"
    by simp
  also have "\<dots> = mset (m_ids ?T) + mset (m_ids ?F)"
    using inv has by (simp add: mset_ids_remove)
  finally show ?thesis
    using assms(5-8) by (intro opt_ok_exchange[OF assms(1-4)]) (auto simp: gains_def loses_def)
qed

lemma nth_update_two:
  "t < length vs \<Longrightarrow> f < length vs \<Longrightarrow> t \<noteq> f \<Longrightarrow> vs[t := a, f := b] ! t = a \<and> vs[t := a, f := b] ! f = b"
  by simp

lemma swap_inner_spec:
  assumes "orders_ok cm os" "t \<noteq> f" "in_table os q" "\<forall>x \<in> set xs. x < length os"
    and "opt_in E cm os s" "t < length (fleet s)" "f < length (fleet s)" "has_order (fleet s ! f) q"
  shows "\<exists>s' b'. swap_inner cm kind t f q c xs s (fleet s ! t) (fleet s ! f) b =
      Inr (s', fleet s' ! t, fleet s' ! f, b') \<and>
    opt_in E cm os s' \<and> length (fleet s') = length (fleet s) \<and>
    ids_set (m_orders_in_vehicle (fleet s ! f)) - {m_idx q} \<subseteq> ids_set (m_orders_in_vehicle (fleet s' ! f))"
  using assms(4)
proof (induction xs)
  case Nil
  then show ?case using assms(5) by auto
next
  case (Cons x xs)
  let ?t = "fleet s ! t" and ?f = "fleet s ! f"
  note wt = opt_ok_wf[OF assms(5,6)] and wf = opt_ok_wf[OF assms(5,7)]
  obtain p where p: "orders_at (m_orders ?t) x = Inr p" "m_idx p = x" "in_table os p"
    using in_vehicle_nth[OF assms(5,6,1), of x] Cons.prems by auto
  have IH: "\<exists>s' b'. swap_inner cm kind t f q c xs s ?t ?f b = Inr (s', fleet s' ! t, fleet s' ! f, b') \<and>
    opt_in E cm os s' \<and> length (fleet s') = length (fleet s) \<and>
    ids_set (m_orders_in_vehicle ?f) - {m_idx q} \<subseteq> ids_set (m_orders_in_vehicle (fleet s' ! f))"
    using Cons by simp
  show ?case
  proof (cases "has_order ?t p")
    case False
    then show ?thesis using IH p(1) by simp
  next
    case True
    have no: "\<not> has_order ?t q" "\<not> has_order ?f p"
      using opt_ok_disjoint[OF assms(5,7,6) assms(2)[symmetric] assms(8)]
        opt_ok_disjoint[OF assms(5,6,7) assms(2) True] by simp_all
    obtain f1 where f1: "pd_erase cm q ?f = Inr f1" "loses cm q ?f f1"
      using pd_erase_loses[OF wf(1) _ assms(8)] wf(3) assms(3) by blast
    obtain t1 where t1: "pd_erase cm p ?t = Inr t1" "loses cm p ?t t1"
      using pd_erase_loses[OF wt(1) _ True] wt(3) p(3) by blast
    have w1: "pd_wf cm f1" "in_table (m_orders f1) p" "\<not> has_order f1 p"
      "pd_wf cm t1" "in_table (m_orders t1) q" "\<not> has_order t1 q"
      using f1(2) t1(2) wf(3) wt(3) p(3) assms(3) no loses_has[OF f1(2) wf(1)] loses_has[OF t1(2) wt(1)]
      by (simp_all add: loses_def)
    obtain f2 where f2: "put_order cm kind p f1 = Inr f2" "f2 = f1 \<or> gains cm p f1 f2"
      using put_order_gains[OF w1(1-3)] by metis
    obtain t2 where t2: "put_order cm kind q t1 = Inr t2" "t2 = t1 \<or> gains cm q t1 t2"
      using put_order_gains[OF w1(4-6)] by metis
    have feas: "has_order f2 p \<Longrightarrow> gains cm p f1 f2" "has_order t2 q \<Longrightarrow> gains cm q t1 t2"
      using f2(2) t2(2) w1(3,6) by auto
    then have as: "has_order f2 p \<and> is_feasable f2 \<or> \<not> has_order f2 p"
      "has_order t2 q \<and> is_feasable t2 \<or> \<not> has_order t2 q"
      by (auto simp: gains_def)
    show ?thesis
    proof (cases "has_order f2 p \<and> has_order t2 q \<and>
        (duration f2 < c \<or> - (c + duration ?t) + (duration t2 + duration f2) < 0 \<or>
         sol_duration s + (- (c + duration ?t) + (duration t2 + duration f2)) <
           sol_duration (best_solution s))")
      case swap: True
      let ?s = "s\<lparr>fleet := (fleet s)[t := t2, f := f2]\<rparr>"
      have g: "gains cm p f1 f2" "gains cm q t1 t2" using swap feas by blast+
      have pq: "m_idx p \<noteq> m_idx q" using no(1) True by (auto simp: has_order_def)
      have "\<not> has_order f2 q" "\<not> has_order t2 p"
        using pq gains_has[OF g(1)] gains_has[OF g(2)] loses_has[OF f1(2) wf(1)]
          loses_has[OF t1(2) wt(1)] by auto
      then have "swap_inner cm kind t f q c (x # xs) s ?t ?f b = Inr (?s, t2, f2, True)"
        using p(1) True assms(8) f1(1) t1(1) f2(1) t2(1) as swap by (simp add: Let_def)
      moreover have "opt_in E cm os ?s"
        by (rule opt_ok_swap[OF assms(5-7,2) t1(2) g(2) f1(2) g(1) True assms(8)])
      moreover have "ids_set (m_orders_in_vehicle ?f) - {m_idx q} \<subseteq> ids_set (m_orders_in_vehicle f2)"
        using g(1) f1(2) wf(1) by (auto simp: gains_def loses_def pd_wf_def)
      ultimately show ?thesis
        using assms(2,6,7) by (intro exI[of _ ?s] exI[of _ True]) simp
    next
      case False
      have "swap_inner cm kind t f q c (x # xs) s ?t ?f b = swap_inner cm kind t f q c xs s ?t ?f b"
        using p(1) True assms(8) f1(1) t1(1) f2(1) t2(1) as no
        by (simp add: Let_def False)
      then show ?thesis using IH by simp
    qed
  qed
qed


lemma swap_outer_spec:
  assumes "orders_ok cm os" "t \<noteq> f" "\<forall>x \<in> set ys. x < length os"
    and "distinct xs" "opt_in E cm os s" "t < length (fleet s)" "f < length (fleet s)"
    and "set xs \<subseteq> ids_set (m_orders_in_vehicle (fleet s ! f))"
  shows "\<exists>s' b'. swap_outer cm kind t f ys xs s (fleet s ! t) (fleet s ! f) b = Inr (b', s') \<and>
    opt_in E cm os s' \<and> length (fleet s') = length (fleet s)"
  using assms(4-8)
proof (induction xs arbitrary: s b)
  case (Cons x xs)
  let ?t = "fleet s ! t" and ?f = "fleet s ! f"
  note ok = Cons.prems(2) and t = Cons.prems(3) and f = Cons.prems(4)
  note wt = opt_ok_wf[OF ok t] and wf = opt_ok_wf[OF ok f]
  have x: "x \<in> ids_set (m_orders_in_vehicle ?f)" using Cons.prems(5) by simp
  obtain q where q: "orders_at (m_orders ?f) x = Inr q" "m_idx q = x" "in_table os q"
    using in_vehicle_nth[OF ok f assms(1) ids_in_vehicle_bound[OF ok f x]] by blast
  have has: "has_order ?f q" using x q(2) by (simp add: has_order_def)
  have no: "\<not> has_order ?t q" by (rule opt_ok_disjoint[OF ok f t assms(2)[symmetric] has])
  consider v' w' where "move_order cm kind q ?f ?t = Inr (True, v', w')" "loses cm q ?f v'" "gains cm q ?t w'"
    | "move_order cm kind q ?f ?t = Inr (False, ?f, ?t)"
    using move_order_spec[OF wf(1) wt(1) _ _ has no, of kind] wf(3) wt(3) q(3) by blast
  then show ?case
  proof cases
    case (1 v' w')
    let ?s = "s\<lparr>fleet := (fleet s)[t := w', f := v']\<rparr>"
    have nth: "fleet ?s ! t = w'" "fleet ?s ! f = v'" "length (fleet ?s) = length (fleet s)"
      using t f assms(2) by simp_all
    have "set xs \<subseteq> ids_set (m_orders_in_vehicle v')"
      using 1(2) Cons.prems(1,5) wf(1) q(2) by (auto simp: loses_def pd_wf_def)
    then have "\<exists>s' b'. swap_outer cm kind t f ys xs ?s (fleet ?s ! t) (fleet ?s ! f) b = Inr (b', s') \<and>
        opt_in E cm os s' \<and> length (fleet s') = length (fleet ?s)"
      using Cons.prems(1) t f opt_ok_move[OF ok t f assms(2) 1(3,2) has] nth
      by (intro Cons.IH) simp_all
    moreover have "swap_outer cm kind t f ys (x # xs) s ?t ?f b = swap_outer cm kind t f ys xs ?s w' v' b"
      using q(1) has 1 gains_has[OF 1(3), of q] loses_has[OF 1(2) wf(1), of q] by simp
    ultimately show ?thesis using nth by simp
  next
    case 2
    obtain s2 b2 where s2: "swap_inner cm kind t f q (duration ?f) ys s ?t ?f b =
          Inr (s2, fleet s2 ! t, fleet s2 ! f, b2)" "opt_in E cm os s2" "length (fleet s2) = length (fleet s)"
        "ids_set (m_orders_in_vehicle ?f) - {m_idx q} \<subseteq> ids_set (m_orders_in_vehicle (fleet s2 ! f))"
      using swap_inner_spec[OF assms(1,2) q(3) assms(3) ok t f has] by blast
    have "set xs \<subseteq> ids_set (m_orders_in_vehicle (fleet s2 ! f))"
      using s2(4) Cons.prems(1,5) q(2) by auto
    then have "\<exists>s' b'. swap_outer cm kind t f ys xs s2 (fleet s2 ! t) (fleet s2 ! f) b2 = Inr (b', s') \<and>
        opt_in E cm os s' \<and> length (fleet s') = length (fleet s2)"
      using Cons.prems(1) t f s2(2,3) by (intro Cons.IH) simp_all
    moreover have "swap_outer cm kind t f ys (x # xs) s ?t ?f b =
        swap_outer cm kind t f ys xs s2 (fleet s2 ! t) (fleet s2 ! f) b2"
      using q(1) has 2 s2(1) by simp
    ultimately show ?thesis using s2(3) by simp
  qed
qed simp

lemma ids_inv_distinct: "ids_inv s \<Longrightarrow> distinct (m_ids s)"
  by (simp add: ids_inv_def ascending_distinct)

lemma swap_worse_spec:
  assumes "orders_ok cm os" "opt_in E cm os s" "t < length (fleet s)" "f < length (fleet s)" "t \<noteq> f"
  shows "\<exists>b s'. swap_worse cm kind t f s = Inr (b, s') \<and> opt_in E cm os s' \<and>
    length (fleet s') = length (fleet s)"
proof -
  let ?T = "m_orders_in_vehicle (fleet s ! t)" and ?F = "m_orders_in_vehicle (fleet s ! f)"
  have inv: "ids_inv ?T" "ids_inv ?F"
    using opt_ok_wf(1)[OF assms(2)] assms(3,4) by (auto simp: pd_wf_def)
  have "distinct (loads (fleet s))"
    using assms(2) serves_once_distinct unfolding opt_in_def by blast
  then have "ids_set ?F \<inter> ids_set ?T = {}"
    using loads_disjoint[of "fleet s" f t] assms(3-5) by simp
  then have "ids_empty (ids_inter ?F ?T)"
    using inv by (simp add: ids_empty_iff)
  moreover have "\<forall>x \<in> set (m_ids ?T). x < length os"
    using ids_in_vehicle_bound[OF assms(2,3)] by (simp add: ids_set_def)
  moreover have "set (m_ids ?F) \<subseteq> ids_set ?F" by (simp add: ids_set_def)
  ultimately show ?thesis
    using swap_outer_spec[OF assms(1,5) _ ids_inv_distinct[OF inv(2)] assms(2-4), of "m_ids ?T" kind False]
    by (auto simp: swap_worse_def Let_def)
qed

section \<open>Reducing the cost\<close>

lemma reduce_loop_spec:
  assumes "orders_ok cm os" "distinct xs" "opt_in E cm os s"
    and "pd_wf cm v" "same_table os (m_orders v)" "pd_wf cm w" "same_table os (m_orders w)"
    and "set xs \<subseteq> ids_set (m_orders_in_vehicle v)" "set xs \<inter> ids_set (m_orders_in_vehicle w) = {}"
  shows "\<exists>b' s'. reduce_loop cm kind xs v w b s = Inr (b', s') \<and> opt_in E cm os s' \<and> fleet s' = fleet s"
  using assms(2-9)
proof (induction xs arbitrary: v w b s)
  case (Cons x xs)
  have xv: "x \<in> ids_set (m_orders_in_vehicle v)" using Cons.prems(7) by simp
  have tab: "orders_ok cm (m_orders v)" using assms(1) same_table_ok[OF Cons.prems(4)] by simp
  have xl: "x < length (m_orders v)" using Cons.prems(3) xv by (simp add: pd_wf_def)
  let ?q = "m_orders v ! x"
  have q: "in_table (m_orders v) ?q" "m_idx ?q = x" using in_table_nth[OF tab xl] by simp_all
  then have qw: "in_table (m_orders w) ?q"
    using same_table_in_table[OF Cons.prems(4)] same_table_in_table[OF Cons.prems(6)] by simp
  have has: "has_order v ?q" "\<not> has_order w ?q"
    using xv Cons.prems(8) q(2) by (auto simp: has_order_def)
  have at_x: "orders_at (m_orders v) x = Inr ?q" using xl by (simp add: orders_at_def)
  consider "put_order cm kind ?q w = Inr w"
    | w1 where "put_order cm kind ?q w = Inr w1" "gains cm ?q w w1" "has_order w1 ?q"
    using put_order_gains[OF Cons.prems(5) qw has(2)] by blast
  then show ?case
  proof cases
    case 1
    have "reduce_loop cm kind (x # xs) v w b s = reduce_loop cm kind xs v w b s"
      using 1 at_x has(2) by (simp add: Let_def)
    then show ?thesis using Cons by simp
  next
    case (2 w1)
    obtain v1 where v1: "pd_erase cm ?q v = Inr v1" "loses cm ?q v v1"
      using pd_erase_loses[OF Cons.prems(3) q(1) has(1)] by blast
    have f1: "pd_wf cm v1" "m_orders v1 = m_orders v" "pd_wf cm w1" "m_orders w1 = m_orders w"
      "is_feasable w1"
      using v1(2) 2(2) by (simp_all add: loses_def gains_def)
    have s1: "set xs \<subseteq> ids_set (m_orders_in_vehicle v1)" "set xs \<inter> ids_set (m_orders_in_vehicle w1) = {}"
      using v1(2) 2(2) Cons.prems(1,3,7,8) q(2) by (auto simp: loses_def gains_def pd_wf_def)
    have no: "\<not> has_order v1 ?q" using loses_has[OF v1(2) Cons.prems(3)] by simp
    obtain w2 where w2: "pd_erase cm ?q w1 = Inr w2" "loses cm ?q w1 w2"
      using pd_erase_loses[OF f1(3) _ 2(3)] qw f1(4) by auto
    obtain v2 where v2: "put_order cm kind ?q v1 = Inr v2" "v2 = v1 \<or> gains cm ?q v1 v2"
      using put_order_gains[OF f1(1) _ no] q(1) f1(2) by metis
    have f2: "pd_wf cm v2" "m_orders v2 = m_orders v" "pd_wf cm w2" "m_orders w2 = m_orders w"
      "set xs \<subseteq> ids_set (m_orders_in_vehicle v2)" "set xs \<inter> ids_set (m_orders_in_vehicle w2) = {}"
      using v2(2) w2(2) f1 s1 by (auto simp: loses_def gains_def pd_wf_def)
    obtain e where e: "veh_empty v1 = Inr e" using veh_sizes(1)[OF f1(1)] by blast
    let ?good = "duration v1 + duration w1 < duration v + duration w \<or> e \<or>
      duration v1 + duration w1 < sol_duration (best_solution s)"
    have "reduce_loop cm kind (x # xs) v w b s =
        (if ?good then reduce_loop cm kind xs v1 w1 True (save_if_best s)
         else reduce_loop cm kind xs v2 w2 b s)"
      using at_x has(2) 2(1,3) f1(5) v1(1) e w2(1) v2(1) by (simp add: Let_def)
    moreover have "\<exists>b' s'. reduce_loop cm kind xs v1 w1 True (save_if_best s) = Inr (b', s') \<and>
        opt_in E cm os s' \<and> fleet s' = fleet (save_if_best s)"
      using Cons.prems f1 s1 by (intro Cons.IH save_if_best_ok) simp_all
    moreover have "\<exists>b' s'. reduce_loop cm kind xs v2 w2 b s = Inr (b', s') \<and>
        opt_in E cm os s' \<and> fleet s' = fleet s"
      using Cons.prems f2 by (intro Cons.IH) simp_all
    ultimately show ?thesis by simp
  qed
qed simp

lemma save_if_best_trucks [simp]: "trucks (save_if_best s) = trucks s"
  by (simp add: save_if_best_def Let_def)

lemma reduce_loop_fleet:
  "reduce_loop cm kind xs v w b s = Inr (b', s') \<Longrightarrow> fleet s' = fleet s \<and> trucks s' = trucks s"
proof (induction xs arbitrary: v w b s)
  case (Cons x xs)
  then show ?case by (fastforce simp: Let_def split: if_splits)
qed simp

lemma move_reduce_cost_spec:
  assumes "orders_ok cm os" "opt_in E cm os s" "t < length (fleet s)" "f < length (fleet s)" "f \<noteq> t"
  shows "\<exists>b s'. move_reduce_cost cm kind f t s = Inr (b, s') \<and> opt_in E cm os s' \<and> fleet s' = fleet s"
proof -
  let ?F = "m_orders_in_vehicle (fleet s ! f)" and ?T = "m_orders_in_vehicle (fleet s ! t)"
  note wf = opt_ok_wf[OF assms(2,4)] and wt = opt_ok_wf[OF assms(2,3)]
  have "distinct (loads (fleet s))"
    using assms(2) serves_once_distinct unfolding opt_in_def by blast
  then have d: "set (m_ids ?F) \<inter> ids_set ?T = {}"
    using loads_disjoint[of "fleet s" f t] assms(3-5) by (simp add: ids_set_def)
  have "distinct (m_ids ?F)" using wf(1) by (simp add: pd_wf_def ids_inv_distinct)
  moreover have "set (m_ids ?F) \<subseteq> ids_set ?F" by (simp add: ids_set_def)
  ultimately have "\<exists>b' s'. reduce_loop cm kind (m_ids ?F) (fleet s ! f) (fleet s ! t) False s = Inr (b', s') \<and>
      opt_in E cm os s' \<and> fleet s' = fleet s"
    using reduce_loop_spec[OF assms(1) _ assms(2) wf(1,2) wt(1,2)] d by blast
  then show ?thesis
    using assms(2,5) veh_sizes(1)[OF wt(1)] by (auto simp: move_reduce_cost_def Let_def)
qed


section \<open>Decreasing the number of vehicles\<close>

lemma weight_update:
  "i < length vs \<Longrightarrow>
    weight k (vs[i := v]) + (k + i) * orders_size (vs ! i) = weight k vs + (k + i) * orders_size v"
proof (induction vs arbitrary: k i)
  case (Cons w vs)
  then show ?case
  proof (cases i)
    case (Suc j)
    then show ?thesis using Cons.IH[of j "Suc k"] Cons.prems by simp
  qed simp
qed simp

lemma weight_mono: "k \<le> k' \<Longrightarrow> weight k vs \<le> weight k' vs"
proof (induction vs arbitrary: k k')
  case (Cons v vs)
  then show ?case using Cons.IH[of "Suc k" "Suc k'"] by (simp add: add_mono)
qed simp

lemma weight_filter: "weight k (filter P vs) \<le> weight k vs"
proof (induction vs arbitrary: k)
  case (Cons v vs)
  have "weight k (filter P vs) \<le> weight (Suc k) vs"
    using Cons.IH[of k] weight_mono[of k "Suc k" vs] by simp
  then show ?case using Cons.IH[of "Suc k"] by simp
qed simp

lemma gains_size: "gains cm q v v' \<Longrightarrow> pd_wf cm v \<Longrightarrow> \<not> has_order v q \<Longrightarrow> orders_size v' = Suc (orders_size v)"
  by (simp add: gains_def pd_wf_def orders_size_def ids_size_card has_order_def)

lemma loses_size:
  assumes "loses cm q v v'" "pd_wf cm v" "has_order v q"
  shows "Suc (orders_size v') = orders_size v"
proof -
  have "m_idx q \<in> ids_set (m_orders_in_vehicle v)" using assms(3) by (simp add: has_order_def)
  then have "Suc (card (ids_set (m_orders_in_vehicle v) - {m_idx q})) = card (ids_set (m_orders_in_vehicle v))"
    by (intro card_Suc_Diff1) simp_all
  then show ?thesis
    using assms(1,2) by (simp add: loses_def pd_wf_def orders_size_def ids_size_card)
qed

text \<open>A step of the search: nothing happened, or an order went to an earlier vehicle.\<close>

definition shrinks :: "(double \<times> Tw_node) set \<Rightarrow> Dmatrix \<Rightarrow> PD_Orders \<Rightarrow> Optimize \<Rightarrow> Optimize \<Rightarrow> bool" where
  "shrinks E cm os s s' \<longleftrightarrow> opt_in E cm os s' \<and> length (fleet s') = length (fleet s) \<and>
     (s' = s \<or> weight 0 (fleet s') < weight 0 (fleet s))"

lemma shrinks_trans: "shrinks E cm os s s' \<Longrightarrow> shrinks E cm os s' s'' \<Longrightarrow> shrinks E cm os s s''"
  by (auto simp: shrinks_def)

lemma hand_over_spec:
  assumes "opt_in E cm os s" "pos < length (fleet s)" "\<forall>i \<in> set is'. i < pos" "in_table os q"
    and "has_order (fleet s ! pos) q"
  shows "\<exists>s'. hand_over cm q pos is' s = Inr s' \<and> shrinks E cm os s s' \<and>
    ids_set (m_orders_in_vehicle (fleet s ! pos)) - {m_idx q} \<subseteq> ids_set (m_orders_in_vehicle (fleet s' ! pos))"
  using assms(3)
proof (induction is')
  case Nil
  then show ?case using assms(1) by (auto simp: shrinks_def)
next
  case (Cons i is')
  let ?v = "fleet s ! i" and ?w = "fleet s ! pos"
  have i: "i < length (fleet s)" "i < pos" "i \<noteq> pos" using Cons.prems assms(2) by auto
  note wv = opt_ok_wf[OF assms(1) i(1)] and ww = opt_ok_wf[OF assms(1,2)]
  have no: "\<not> has_order ?v q" by (rule opt_ok_disjoint[OF assms(1,2) i(1) i(3)[symmetric] assms(5)])
  consider v' where "pd_insert cm q ?v = Inr (True, v')" "gains cm q ?v v'" "has_order v' q" "is_feasable v'"
    | "pd_insert cm q ?v = Inr (False, ?v)"
  proof -
    have tab: "in_table (m_orders ?v) q" using wv(3) assms(4) by simp
    show ?thesis
    proof (rule pd_insert_cases[OF wv(1) tab no])
      fix v' assume a: "pd_insert cm q ?v = Inr (True, v')" "extends cm ?v q v'" "is_feasable v'"
      show ?thesis
        by (rule that(1)[OF a(1) extends_gains[OF a(2,3) wv(1) tab no] extends_fields(7)[OF a(2)] a(3)])
    qed (rule that(2))
  qed
  then show ?case
  proof cases
    case (1 v')
    obtain w' where w': "pd_erase cm q ?w = Inr w'" "loses cm q ?w w'"
      using pd_erase_loses[OF ww(1) _ assms(5)] ww(3) assms(4) by blast
    let ?s = "s\<lparr>fleet := (fleet s)[i := v', pos := w']\<rparr>"
    have "hand_over cm q pos (i # is') s = Inr ?s"
      using 1 w'(1) i assms(2) by (simp add: Let_def)
    moreover have "opt_in E cm os ?s"
      by (rule opt_ok_move[OF assms(1) i(1) assms(2) i(3) 1(2) w'(2) assms(5)])
    moreover have "weight 0 (fleet ?s) < weight 0 (fleet s)"
    proof -
      have "weight 0 ((fleet s)[i := v']) + i * orders_size ?v = weight 0 (fleet s) + i * Suc (orders_size ?v)"
        using weight_update[OF i(1), of 0 v'] gains_size[OF 1(2) wv(1) no] by simp
      moreover have "weight 0 ((fleet s)[i := v', pos := w']) + pos * Suc (orders_size w') =
          weight 0 ((fleet s)[i := v']) + pos * orders_size w'"
        using weight_update[of pos "(fleet s)[i := v']" 0 w'] assms(2) i(3)
          loses_size[OF w'(2) ww(1) assms(5)] by simp
      ultimately show ?thesis using i(2) by simp
    qed
    moreover have "ids_set (m_orders_in_vehicle ?w) - {m_idx q} \<subseteq> ids_set (m_orders_in_vehicle w')"
      using w'(2) ww(1) by (auto simp: loses_def pd_wf_def)
    ultimately show ?thesis
      using assms(2) by (intro exI[of _ ?s]) (simp add: shrinks_def)
  next
    case 2
    have "hand_over cm q pos (i # is') s = hand_over cm q pos is' s"
      using 2 no by (simp add: Let_def)
    then show ?thesis using Cons by simp
  qed
qed

lemma decrease_truck_at_spec:
  assumes "orders_ok cm os" "opt_in E cm os s" "pos < length (fleet s)"
  shows "\<exists>s'. decrease_truck_at cm pos s =
      Inr (ids_empty (m_orders_in_vehicle (fleet s' ! pos)), s') \<and> shrinks E cm os s s'"
proof -
  let ?body = "\<lambda>x s. bindE (orders_at (m_orders (fleet s ! pos)) x) (\<lambda>order.
    bindE (pgassert (m_idx order = x)) (\<lambda>_. hand_over cm order pos [0..<pos] s))"
  have loop: "\<exists>s'. foldE ?body xs s = Inr s' \<and> shrinks E cm os s s'"
    if "distinct xs" "set xs \<subseteq> ids_set (m_orders_in_vehicle (fleet s ! pos))" "opt_in E cm os s"
      "pos < length (fleet s)" for xs s
    using that
  proof (induction xs arbitrary: s)
    case Nil
    then show ?case by (simp add: shrinks_def)
  next
    case (Cons x xs)
    have x: "x \<in> ids_set (m_orders_in_vehicle (fleet s ! pos))" using Cons.prems(2) by simp
    obtain q where q: "orders_at (m_orders (fleet s ! pos)) x = Inr q" "m_idx q = x" "in_table os q"
      using in_vehicle_nth[OF Cons.prems(3,4) assms(1) ids_in_vehicle_bound[OF Cons.prems(3,4) x]] by blast
    have has: "has_order (fleet s ! pos) q" using x q(2) by (simp add: has_order_def)
    obtain s1 where s1: "hand_over cm q pos [0..<pos] s = Inr s1" "shrinks E cm os s s1"
        "ids_set (m_orders_in_vehicle (fleet s ! pos)) - {m_idx q} \<subseteq>
          ids_set (m_orders_in_vehicle (fleet s1 ! pos))"
      using hand_over_spec[OF Cons.prems(3,4) _ q(3) has, of "[0..<pos]"] by auto
    have "set xs \<subseteq> ids_set (m_orders_in_vehicle (fleet s1 ! pos))"
      using s1(3) Cons.prems(1,2) q(2) by auto
    then obtain s2 where "foldE ?body xs s1 = Inr s2" "shrinks E cm os s1 s2"
      using Cons.IH[of s1] Cons.prems(1,4) s1(2) by (auto simp: shrinks_def)
    then show ?case
      using q s1(1) shrinks_trans[OF s1(2)] by auto
  qed
  have "distinct (m_ids (m_orders_in_vehicle (fleet s ! pos)))"
    using opt_ok_wf(1)[OF assms(2,3)] by (simp add: pd_wf_def ids_inv_distinct)
  moreover have "set (m_ids (m_orders_in_vehicle (fleet s ! pos))) \<subseteq>
      ids_set (m_orders_in_vehicle (fleet s ! pos))"
    by (simp add: ids_set_def)
  ultimately obtain s' where
    "foldE ?body (m_ids (m_orders_in_vehicle (fleet s ! pos))) s = Inr s'" "shrinks E cm os s s'"
    using loop[OF _ _ assms(2,3)] by blast
  then show ?thesis by (simp add: decrease_truck_at_def)
qed

text \<open>One call of \<open>decrease_truck()\<close>: if a vehicle was emptied and nothing moved, it was empty before.\<close>

lemma decrease_round:
  assumes "orders_ok cm os" "opt_in E cm os s" "\<forall>i \<in> set is'. i < length (fleet s)"
  shows "\<exists>d s'. foldE (\<lambda>i (decreased, s).
      bindE (decrease_truck_at cm i s) (\<lambda>(b, s1). Inr (b \<or> decreased, s1))) is' (d0, s) = Inr (d, s') \<and>
    shrinks E cm os s s' \<and>
    (d \<and> s' = s \<longrightarrow> d0 \<or> (\<exists>v \<in> set (fleet s). ids_empty (m_orders_in_vehicle v)))"
  using assms(2,3)
proof (induction is' arbitrary: s d0)
  case Nil
  then show ?case by (simp add: shrinks_def)
next
  case (Cons i is')
  obtain s1 where s1: "decrease_truck_at cm i s =
        Inr (ids_empty (m_orders_in_vehicle (fleet s1 ! i)), s1)" "shrinks E cm os s s1"
    using decrease_truck_at_spec[OF assms(1) Cons.prems(1), of i] Cons.prems(2) by auto
  let ?d = "ids_empty (m_orders_in_vehicle (fleet s1 ! i)) \<or> d0"
  obtain d s' where s': "foldE (\<lambda>i (decreased, s).
      bindE (decrease_truck_at cm i s) (\<lambda>(b, s1). Inr (b \<or> decreased, s1))) is' (?d, s1) = Inr (d, s')"
      "shrinks E cm os s1 s'"
      "d \<and> s' = s1 \<longrightarrow> ?d \<or> (\<exists>v \<in> set (fleet s1). ids_empty (m_orders_in_vehicle v))"
    using Cons.IH[of s1 ?d] s1(2) Cons.prems(2) by (auto simp: shrinks_def)
  have "s1 = s" if "s' = s"
    using that s1(2) s'(2) by (auto simp: shrinks_def)
  moreover have "fleet s ! i \<in> set (fleet s)" using Cons.prems(2) by simp
  ultimately have "d \<and> s' = s \<longrightarrow> d0 \<or> (\<exists>v \<in> set (fleet s). ids_empty (m_orders_in_vehicle v))"
    using s'(3) by blast
  then show ?case
    using s1(1) s'(1) shrinks_trans[OF s1(2) s'(2)] by simp
qed

lemma decrease_truck_in:
  assumes "orders_ok cm os" "opt_in E cm os s" "decrease_bound s < fuel"
  shows "\<exists>s'. decrease_truck cm fuel s = Inr s' \<and> opt_in E cm os s' \<and>
    length (fleet s') \<le> length (fleet s)"
  using assms(2,3)
proof (induction fuel arbitrary: s)
  case (Suc fuel)
  obtain d s1 where r: "foldE (\<lambda>i (decreased, s).
      bindE (decrease_truck_at cm i s) (\<lambda>(b, s1). Inr (b \<or> decreased, s1)))
        [1..<length (fleet s)] (False, s) = Inr (d, s1)" "shrinks E cm os s s1"
      "d \<and> s1 = s \<longrightarrow> (\<exists>v \<in> set (fleet s). ids_empty (m_orders_in_vehicle v))"
    using decrease_round[OF assms(1) Suc.prems(1), of "[1..<length (fleet s)]" False] by auto
  have ok1: "opt_in E cm os s1" "length (fleet s1) = length (fleet s)"
    using r(2) by (simp_all add: shrinks_def)
  show ?case
  proof (cases d)
    case False
    then show ?thesis using r(1) ok1 save_if_best_ok[OF ok1(1)] by simp
  next
    case True
    let ?s = "save_if_best (delete_empty_truck s1)"
    have f: "fleet ?s = filter (\<lambda>v. \<not> ids_empty (m_orders_in_vehicle v)) (fleet s1)"
      using delete_empty_truck_ok(2)[OF ok1(1)] by simp
    have le: "weight 0 (fleet ?s) \<le> weight 0 (fleet s1)" "length (fleet ?s) \<le> length (fleet s1)"
      unfolding f by (rule weight_filter) simp
    have "decrease_bound ?s < decrease_bound s"
    proof (cases "s1 = s")
      case True
      then have "\<exists>v \<in> set (fleet s1). ids_empty (m_orders_in_vehicle v)"
        using r(3) \<open>d\<close> by simp
      then have "length (fleet ?s) < length (fleet s1)"
        unfolding f by (auto intro: length_filter_less)
      then show ?thesis using le(1) True by (simp add: decrease_bound_def)
    next
      case False
      then show ?thesis using r(2) le by (simp add: decrease_bound_def shrinks_def)
    qed
    then obtain s2 where "decrease_truck cm fuel ?s = Inr s2" "opt_in E cm os s2"
        "length (fleet s2) \<le> length (fleet ?s)"
      using Suc.IH[of ?s] Suc.prems(2) save_if_best_ok[OF delete_empty_truck_ok(1)[OF ok1(1)]]
      by auto
    then show ?thesis
      using r(1) True save_if_best_ok le(2) ok1(2) by auto
  qed
qed simp

lemmas decrease_truck_spec = decrease_truck_in[where E = UNIV, unfolded opt_in_UNIV]

section \<open>The whole optimisation\<close>

lemma inter_swap_spec:
  assumes "orders_ok cm os" "opt_in E cm os s"
  shows "\<exists>s'. inter_swap cm kind s = Inr (False, s') \<and> opt_in E cm os s' \<and>
    length (fleet s') \<le> length (fleet s)"
proof -
  let ?pair = "\<lambda>f t s. bindE (swap_worse cm kind t f s) (\<lambda>(_, s').
      bindE (move_reduce_cost cm kind f t s') (\<lambda>(_, s''). Inr s''))"
  define P where "P n s' \<longleftrightarrow> opt_in E cm os s' \<and> length (fleet s') = n" for n and s' :: Optimize
  have pair: "\<exists>s'. ?pair f t s = Inr s' \<and> P n s'" if lt: "t < f" "f < n" "P n s" for f t n s
  proof -
    obtain b s1 where s1: "swap_worse cm kind t f s = Inr (b, s1)" "P n s1"
      using swap_worse_spec[OF assms(1), of E s t f kind] lt by (auto simp: P_def)
    obtain b2 s2 where "move_reduce_cost cm kind f t s1 = Inr (b2, s2)" "P n s2"
      using move_reduce_cost_spec[OF assms(1), of E s1 t f kind] s1(2) lt(1,2) by (auto simp: P_def)
    then show ?thesis using s1(1) by auto
  qed
  have inner: "\<exists>s'. foldE (?pair f) ts s = Inr s' \<and> P n s'"
    if "\<forall>t \<in> set ts. t < f" "f < n" "P n s" for f ts n s
    using that
  proof (induction ts arbitrary: s)
    case (Cons t ts)
    then obtain s1 where "?pair f t s = Inr s1" "P n s1" using pair[of t f n s] by auto
    then show ?case using Cons.IH[of s1] Cons.prems(1,2) by simp
  qed simp
  have outer: "\<exists>s'. foldE (\<lambda>f. foldE (?pair f) [0..<f]) fs s = Inr s' \<and> P n s'"
    if "\<forall>f \<in> set fs. f < n" "P n s" for fs n s
    using that
  proof (induction fs arbitrary: s)
    case (Cons f fs)
    then obtain s1 where "foldE (?pair f) [0..<f] s = Inr s1" "P n s1"
      using inner[of "[0..<f]" f n s] by auto
    then show ?case using Cons.IH[of s1] Cons.prems(1) by simp
  qed simp
  let ?s1 = "delete_empty_truck s"
  obtain s2 where s2: "foldE (\<lambda>f. foldE (?pair f) [0..<f]) [0..<length (fleet ?s1)] ?s1 = Inr s2"
      "P (length (fleet ?s1)) s2"
    using outer[of "[0..<length (fleet ?s1)]" "length (fleet ?s1)" ?s1] delete_empty_truck_ok(1)[OF assms(2)]
    by (auto simp: P_def)
  then have ok2: "opt_in E cm os s2" "length (fleet s2) \<le> length (fleet s)"
    using delete_empty_truck_ok(3)[OF assms(2)] by (simp_all add: P_def)
  have "inter_swap cm kind s = Inr (False, delete_empty_truck s2)"
    using s2(1) by (simp add: inter_swap_def Let_def)
  then show ?thesis
    using delete_empty_truck_ok(1,3)[OF ok2(1)] ok2(2) by (meson le_trans)
qed

lemma opt_ok_nonempty: "opt_in E cm os s \<Longrightarrow> os \<noteq> [] \<Longrightarrow> fleet s \<noteq> []"
  by (auto simp: opt_in_def serves_once_def mset_set_empty_iff)

lemma mset_rotate1_eq: "mset (rotate1 xs) = mset xs"
  by (cases xs) simp_all

lemma rotate_fleet_spec:
  "opt_in E cm os s \<Longrightarrow> os \<noteq> [] \<Longrightarrow>
    \<exists>s'. rotate_fleet s = Inr s' \<and> opt_in E cm os s' \<and> length (fleet s') = length (fleet s)"
  using opt_ok_nonempty[of E cm os s] fleet_perm_ok[of E cm os s "rotate1 (fleet s)"]
  by (auto simp: rotate_fleet_def mset_rotate1_eq)

lemma inter_swap_times_spec:
  assumes "orders_ok cm os" "opt_in E cm os s" "os \<noteq> []"
  obtains s' where "inter_swap_times cm kind n s = Inr s'" "opt_in E cm os s'"
    "length (fleet s') \<le> length (fleet s)"
  | "inter_swap_times cm kind n s = Inl UndefinedBehaviour" "\<not> (\<forall>k \<in> E. timed cm k)"
proof -
  let ?turn = "\<lambda>_ s. bindE (inter_swap cm kind s) (\<lambda>(_, s'). rotate_fleet s')"
  have loop: "\<exists>s'. foldE ?turn ks s = Inr s' \<and> opt_in E cm os s' \<and> length (fleet s') \<le> length (fleet s)"
    if "opt_in E cm os s" for ks :: "nat list" and s
    using that
  proof (induction ks arbitrary: s)
    case (Cons k ks)
    obtain s1 where s1: "inter_swap cm kind s = Inr (False, s1)" "opt_in E cm os s1"
        "length (fleet s1) \<le> length (fleet s)"
      using inter_swap_spec[OF assms(1) Cons.prems] by blast
    obtain s2 where s2: "rotate_fleet s1 = Inr s2" "opt_in E cm os s2" "length (fleet s2) = length (fleet s1)"
      using rotate_fleet_spec[OF s1(2) assms(3)] by blast
    obtain s3 where "foldE ?turn ks s2 = Inr s3" "opt_in E cm os s3" "length (fleet s3) \<le> length (fleet s2)"
      using Cons.IH[OF s2(2)] by blast
    then show ?case using s1 s2 by simp
  qed simp
  show ?thesis
  proof (rule sort_by_size_spec[OF assms(2)])
    assume "sort_by_size s = Inl UndefinedBehaviour" "\<not> (\<forall>k \<in> E. timed cm k)"
    then show ?thesis using that(2) by (simp add: inter_swap_times_def)
  next
    fix s1 assume s1: "sort_by_size s = Inr s1" "opt_in E cm os s1" "length (fleet s1) = length (fleet s)"
    obtain s2 where s2: "decrease_truck cm (Suc (decrease_bound s1)) s1 = Inr s2" "opt_in E cm os s2"
        "length (fleet s2) \<le> length (fleet s1)"
      using decrease_truck_in[OF assms(1) s1(2), of "Suc (decrease_bound s1)"] by blast
    show ?thesis
    proof (rule sort_by_size_spec[OF s2(2)])
      assume "sort_by_size s2 = Inl UndefinedBehaviour" "\<not> (\<forall>k \<in> E. timed cm k)"
      then show ?thesis using that(2) s1(1) s2(1) by (simp add: inter_swap_times_def del: decrease_truck.simps)
    next
      fix s3 assume s3: "sort_by_size s2 = Inr s3" "opt_in E cm os s3" "length (fleet s3) = length (fleet s2)"
      obtain s4 where s4: "foldE ?turn [0..<n] s3 = Inr s4" "opt_in E cm os s4" "length (fleet s4) \<le> length (fleet s3)"
        using loop[OF s3(2)] by blast
      have "inter_swap_times cm kind n s = Inr s4"
        by (simp only: inter_swap_times_def s1(1) s2(1) s3(1) s4(1) bindE_simps)
      then show ?thesis using that(1) s4(2,3) s1(3) s2(3) s3(3) by simp
    qed
  qed
qed

lemma Optimize_of_spec:
  assumes "orders_ok cm os" "serves_once cm os (fleet old)" "os \<noteq> []"
  obtains s where "Optimize_of cm kind old n = Inr s" "serves_once cm os (fleet s)"
    "length (fleet s) \<le> length (fleet old)"
  | "Optimize_of cm kind old n = Inl UndefinedBehaviour" "\<not> (\<forall>v \<in> set (fleet old). timed cm (clock v))"
proof -
  let ?E = "clock ` set (fleet old)"
  let ?s0 = "\<lparr>fleet = fleet old, trucks = trucks old, best_solution = old\<rparr>"
  have E: "(\<forall>k \<in> ?E. timed cm k) = (\<forall>v \<in> set (fleet old). timed cm (clock v))" by simp
  have "opt_in ?E cm os ?s0" using assms(2) by (simp add: opt_in_def)
  then show ?thesis
  proof (rule inter_swap_times_spec[OF assms(1) _ assms(3)])
    assume "inter_swap_times cm kind n ?s0 = Inl UndefinedBehaviour" "\<not> (\<forall>k \<in> ?E. timed cm k)"
    then show ?thesis using that(2) by (simp add: Optimize_of_def)
  next
    fix s assume s: "inter_swap_times cm kind n ?s0 = Inr s" "opt_in ?E cm os s"
      "length (fleet s) \<le> length (fleet ?s0)"
    let ?s = "s\<lparr>fleet := fleet (best_solution s)\<rparr>"
    have ok: "opt_in ?E cm os ?s" using s(2) by (simp add: opt_in_def)
    have eq: "Optimize_of cm kind old n = sort_by_size ?s" using s(1) by (simp add: Optimize_of_def)
    have len: "length (fleet ?s) \<le> length (fleet old)" using s(2,3) by (simp add: opt_in_def)
    show ?thesis
    proof (rule sort_by_size_spec[OF ok])
      fix s' assume "sort_by_size ?s = Inr s'" "opt_in ?E cm os s'" "length (fleet s') = length (fleet ?s)"
      then show ?thesis using that(1) eq len by (simp add: opt_in_def)
    next
      assume "sort_by_size ?s = Inl UndefinedBehaviour" "\<not> (\<forall>k \<in> ?E. timed cm k)"
      then show ?thesis using that(2) eq E by simp
    qed
  qed
qed

end
