(* ===== verification/Problems.thy ===== *)
theory Problems
  imports Pick_delivers Improvements
begin

text \<open>
  Lemmas about the whole pickup-and-deliver problem: what \<open>build_orders\<close> and \<open>build_fleet\<close> make of
  the rows, what the checks of the constructor of \<open>Pgr_pickDeliver\<close> establish, that \<open>solve\<close> then
  serves every order exactly once, and that the driver always has an answer.
\<close>

section \<open>Runs that end in an answer\<close>

text \<open>A run the driver can report: it returns, or throws something that a \<open>catch\<close> clause catches.\<close>

definition harmless :: "'a run \<Rightarrow> bool" where
  "harmless r \<longleftrightarrow> r \<noteq> Inl UndefinedBehaviour \<and> r \<noteq> Inl Diverges"

named_theorems harmless_intros "introduction rules of harmless"

lemma harmless_Inr [simp, harmless_intros]: "harmless (Inr x)"
  by (simp add: harmless_def)

lemma harmless_Inl [simp]: "harmless (Inl e) \<longleftrightarrow> caught e \<noteq> None"
  by (cases e) (simp_all add: harmless_def)

lemma harmless_pgassert [simp, harmless_intros]: "harmless (pgassert b)"
  by (simp add: pgassert_def)

lemma harmless_bindE [harmless_intros]:
  "harmless m \<Longrightarrow> (\<And>x. m = Inr x \<Longrightarrow> harmless (f x)) \<Longrightarrow> harmless (bindE m f)"
  by (cases m) auto

lemma harmless_if [harmless_intros]:
  "(b \<Longrightarrow> harmless x) \<Longrightarrow> (\<not> b \<Longrightarrow> harmless y) \<Longrightarrow> harmless (if b then x else y)"
  by simp

lemma harmless_foldE:
  "(\<And>x s. x \<in> set xs \<Longrightarrow> harmless (f x s)) \<Longrightarrow> harmless (foldE f xs s)"
  by (induction xs arbitrary: s) (auto intro: harmless_bindE)

lemma harmless_mapE:
  "(\<And>x. x \<in> set xs \<Longrightarrow> harmless (f x)) \<Longrightarrow> harmless (mapE f xs)"
  by (induction xs) (auto intro!: harmless_bindE)

lemma harmless_dm_distance: "dm_wf cm \<Longrightarrow> harmless (dm_distance cm i j)"
  by (auto simp: dm_distance_def get_index_def dm_at_total
      intro!: harmless_bindE split: option.splits dest!: index_from_Some)

lemma harmless_travel_time: "dm_wf cm \<Longrightarrow> harmless (travel_time_to cm n m s)"
  by (auto simp: travel_time_to_def dnode_distance_eq intro!: harmless_intros harmless_dm_distance)

lemma harmless_compatible: "dm_wf cm \<Longrightarrow> harmless (is_compatible_IJ cm J I s)"
  by (auto simp: is_compatible_IJ_def arrival_j_opens_i_def
      intro!: harmless_intros harmless_travel_time)

lemma harmless_evaluate_loop: "dm_wf cm \<Longrightarrow> harmless (evaluate_loop cm i v)"
proof (induction cm i v rule: evaluate_loop.induct)
  case (1 cm i v)
  have "harmless (if i = 0 then Inr (evaluate_start (m_capacity v) (m_path v ! i))
      else evaluate_after cm (m_path v ! (i - 1)) (m_capacity v) (veh_speed v) (m_path v ! i))"
    using 1(2) by (auto simp: evaluate_after_def intro!: harmless_intros harmless_travel_time)
  then show ?case
    using 1 by (subst evaluate_loop.simps) (auto intro!: harmless_bindE)
qed

lemma harmless_veh_invariant [harmless_intros]: "harmless (veh_invariant v)"
  by (auto simp: veh_invariant_def intro!: harmless_intros)

lemma harmless_evaluate_from: "dm_wf cm \<Longrightarrow> harmless (evaluate_from cm i v)"
  by (auto simp: evaluate_from_def intro!: harmless_intros harmless_evaluate_loop)

lemma harmless_push_back: "dm_wf cm \<Longrightarrow> harmless (pd_push_back cm q v)"
  by (auto simp: pd_push_back_def Let_def intro!: harmless_intros harmless_evaluate_from)

lemma evaluate_loop_length: "evaluate_loop cm i v = Inr v' \<Longrightarrow> length (m_path v') = length (m_path v)"
proof (induction cm i v rule: evaluate_loop.induct)
  case (1 cm i v)
  show ?case
  proof (cases "i < length (m_path v)")
    case True
    then show ?thesis using "1.prems" "1.IH"[OF True] by (subst (asm) evaluate_loop.simps) fastforce
  qed (use "1.prems" in \<open>subst (asm) evaluate_loop.simps, simp\<close>)
qed

lemma harmless_tau:
  assumes "evaluate_from cm 0 v = Inr v'" "length (m_path v) = 2"
  shows "harmless (veh_tau v')"
proof -
  have l: "length (m_path v') = 2" and i: "veh_invariant v' = Inr ()"
    using assms evaluate_loop_length by (fastforce simp: evaluate_from_def)+
  obtain a b where p: "m_path v' = [a, b]"
    using l by (auto simp: numeral_2_eq_2 length_Suc_conv)
  have "m_type a = kStart" "m_type b = kEnd" using i by (auto simp: p veh_invariant_def node_kinds)
  then show ?thesis using veh_tau_types[of v'] by (simp add: p)
qed

lemma harmless_construct: "dm_wf cm \<Longrightarrow> harmless (Vehicle_pickDeliver_of cm i d s e c sp f)"
  by (auto simp: Vehicle_pickDeliver_of_def veh_construct_def
      intro!: harmless_intros harmless_evaluate_from elim!: harmless_tau)

section \<open>The orders\<close>

definition order_of_row :: "nat \<Rightarrow> Orders_t \<Rightarrow> Order" where
  "order_of_row i r = Order_of i (o_id r)
     (Vehicle_node_of (Tw_node_of_order (2 * i) r kPickup))
     (Vehicle_node_of (Tw_node_of_order (2 * i + 1) r kDelivery))"

definition table_of :: "Orders_t list \<Rightarrow> PD_Orders" where
  "table_of rows = map (\<lambda>i. order_of_row i (rows ! i)) [0..<length rows]"

lemma table_of_simps [simp]:
  "length (table_of rows) = length rows"
  "i < length rows \<Longrightarrow> table_of rows ! i = order_of_row i (rows ! i)"
  "table_of [] = []"
  by (simp_all add: table_of_def)

lemma table_of_snoc: "table_of (rows @ [r]) = table_of rows @ [order_of_row (length rows) r]"
  by (intro nth_equalityI) (auto simp: nth_append less_Suc_eq)

definition reachable_row :: "Dmatrix \<Rightarrow> Orders_t \<Rightarrow> bool" where
  "reachable_row cm r \<longleftrightarrow> dm_has_id cm (pick_node_id r) \<and> dm_has_id cm (deliver_node_id r)"

lemma build_orders_prefix:
  assumes "\<forall>r \<in> set rows. reachable_row cm r"
  shows "\<exists>nodes. build_orders cm rows [] = Inr (nodes, table_of rows) \<and> length nodes = 2 * length rows"
  using assms
proof (induction rows rule: rev_induct)
  case (snoc r rows)
  then obtain nodes where "foldE (build_order cm) rows ([], []) = Inr (nodes, table_of rows)"
      "length nodes = 2 * length rows"
    by (auto simp: build_orders_def)
  then show ?case
    using snoc.prems
    by (auto simp: build_orders_def foldE_append build_order_def reachable_row_def Let_def
        add_order_def table_of_snoc order_of_row_def)
qed (simp add: build_orders_def)

lemma build_orders_missing:
  assumes "\<forall>r \<in> set rows. reachable_row cm r" "\<not> reachable_row cm r"
  shows "build_orders cm (rows @ r # post) [] =
    Inl (UnableToFindNode (if dm_has_id cm (pick_node_id r) then deliver_node_id r else pick_node_id r))"
  using build_orders_prefix[OF assms(1)] assms(2)
  by (auto simp: build_orders_def foldE_append build_order_def reachable_row_def)

lemma reachable_prefix:
  obtains "\<forall>r \<in> set rows. reachable_row cm r"
  | pre r post where "rows = pre @ r # post" "\<forall>r \<in> set pre. reachable_row cm r" "\<not> reachable_row cm r"
proof (cases "\<exists>r \<in> set rows. \<not> reachable_row cm r")
  case True
  then show ?thesis using that(2) split_list_first_prop[OF True] by blast
qed (use that(1) in blast)

lemma harmless_build_orders: "harmless (build_orders cm rows [])"
  by (rule reachable_prefix[of rows cm])
    (auto dest: build_orders_prefix simp: build_orders_missing)

lemma build_orders_Inr:
  assumes "build_orders cm rows [] = Inr (nodes, os)"
  shows "os = table_of rows" "length nodes = 2 * length rows" "\<forall>r \<in> set rows. reachable_row cm r"
proof -
  have "\<forall>r \<in> set rows. reachable_row cm r"
    by (rule reachable_prefix[of rows cm]) (use assms build_orders_missing in force)+
  then show "\<forall>r \<in> set rows. reachable_row cm r" "os = table_of rows" "length nodes = 2 * length rows"
    using build_orders_prefix[of rows cm] assms by auto
qed

lemma order_of_row_simps [simp]:
  "m_idx (order_of_row i r) = i" "m_id (order_of_row i r) = o_id r"
  "order_idxs (order_of_row i r) = {2 * i, 2 * i + 1}"
  "m_order (m_pickup (order_of_row i r)) = Some (o_id r)"
  "m_order (m_delivery (order_of_row i r)) = Some (o_id r)"
  "m_id (m_pickup (order_of_row i r)) = pick_node_id r"
  "m_id (m_delivery (order_of_row i r)) = deliver_node_id r"
  "m_type (m_pickup (order_of_row i r)) = kPickup"
  "m_type (m_delivery (order_of_row i r)) = kDelivery"
  by (auto simp: order_of_row_def Order_of_def order_idxs_def Vehicle_node_of_def Tw_node_of_order_def
      reset_id_def Let_def)

text \<open>Orders that pass \<open>is_valid\<close> on some vehicle make a well-formed table.\<close>

lemma orders_ok_table:
  assumes "\<forall>r \<in> set rows. reachable_row cm r"
    and "\<forall>q \<in> set (table_of rows). is_pickup (m_pickup q) \<and> is_delivery (m_delivery q)"
  shows "orders_ok cm (table_of rows)"
proof -
  have "order_ok cm (table_of rows ! i)" if "i < length rows" for i
  proof -
    have "table_of rows ! i \<in> set (table_of rows)" "rows ! i \<in> set rows"
      using that by (intro nth_mem; simp)+
    then have "is_pickup (m_pickup (order_of_row i (rows ! i)))"
      "is_delivery (m_delivery (order_of_row i (rows ! i)))" "reachable_row cm (rows ! i)"
      using assms that by auto
    moreover have "m_idx (m_pickup (order_of_row i (rows ! i))) \<noteq> m_idx (m_delivery (order_of_row i (rows ! i)))"
      by (simp add: order_of_row_def Order_of_def Vehicle_node_of_def Tw_node_of_order_def reset_id_def Let_def)
    ultimately show ?thesis
      using that by (simp add: order_ok_def in_matrix_def reachable_row_def)
  qed
  moreover have "{2 * i, 2 * i + 1} \<inter> {2 * j, 2 * j + 1} = {}" if "i \<noteq> j" for i j :: nat
    using that by auto
  ultimately show ?thesis
    by (simp add: orders_ok_def)
qed

section \<open>The vehicles\<close>

lemma get_index_has: "get_index m i = Inr p \<Longrightarrow> dm_has_id m i"
  using get_index_Inr[of m i p] by (auto simp: in_set_conv_nth)

lemma travel_time_InrD:
  assumes "travel_time_to cm n m s = Inr t"
  shows "s \<noteq> 0" "dm_has_id cm (m_id n)" "dm_has_id cm (m_id m)"
  using assms get_index_has by (auto simp: travel_time_to_def dnode_distance_def)

lemma veh_invariant_Inr: "veh_invariant v = Inr u \<Longrightarrow> 2 \<le> length (m_path v) \<and> is_start (hd (m_path v)) \<and> is_end (last (m_path v))"
  by (auto simp: veh_invariant_def)

lemma evaluate_loop_pair:
  "evaluate_loop cm 0 (v\<lparr>m_path := [s, e]\<rparr>) =
     bindE (evaluate_after cm (evaluate_start (m_capacity v) s) (m_capacity v) (veh_speed v) e)
       (\<lambda>n. Inr (v\<lparr>m_path := [evaluate_start (m_capacity v) s, n]\<rparr>))"
  by (subst evaluate_loop.simps, simp, subst evaluate_loop.simps, simp)
    (rule bindE_cong, simp, subst evaluate_loop.simps, simp)

text \<open>A vehicle as the constructor leaves it: unladen, its two sites numbered from \<open>n\<close> on.\<close>

definition new_truck :: "Dmatrix \<Rightarrow> nat \<Rightarrow> Vehicle_pickDeliver \<Rightarrow> bool" where
  "new_truck cm n v \<longleftrightarrow> veh_wf cm v \<and> length (m_path v) = 2 \<and>
     m_orders_in_vehicle v = ids_none \<and> m_feasable_orders v = ids_none \<and>
     n \<le> m_idx (hd (m_path v)) \<and> m_idx (hd (m_path v)) < m_idx (last (m_path v))"

lemma Vehicle_pickDeliver_of_Inr:
  assumes "dm_wf cm" "Vehicle_pickDeliver_of cm i d s e c sp f = Inr v"
    and "n \<le> m_idx s" "m_idx s < m_idx e"
  shows "new_truck cm n v" "clock v = (sp / f, site s)"
proof -
  let ?v0 = "\<lparr>m_idx = i, m_id = d, m_path = [], m_capacity = c, m_factor = f, m_speed = sp,
    pd_cost = dbl_max, m_orders_in_vehicle = ids_none, m_orders = [], m_feasable_orders = ids_none\<rparr>"
  have c: "veh_construct cm s e ?v0 = Inr v" and cap: "0 < c"
    using assms(2) by (auto simp: Vehicle_pickDeliver_of_def veh_construct_def)
  then obtain w where ev: "evaluate_from cm 0 (?v0\<lparr>m_path := [s, e]\<rparr>) = Inr w"
    by (auto simp: veh_construct_def)
  then have k: "is_start s" "is_end e"
    by (auto simp: evaluate_from_def veh_invariant_def)
  obtain t where "travel_time_to cm (evaluate_start c s) e (veh_speed ?v0) = Inr t"
    using ev unfolding evaluate_from_def evaluate_loop_pair by (auto simp: evaluate_after_def)
  note t = travel_time_InrD[OF this]
  have "m_id (evaluate_start c s) = m_id s"
    using site_eqD(2)[OF evaluate_start_site] .
  then have "in_matrix cm s" "in_matrix cm e"
    using t(2,3) k by (auto simp: in_matrix_def node_kinds)
  then have "yields cm ?v0 [site s, site e] (Inr v)"
    using veh_construct_yields[OF assms(1) t(1) _ k] cap c by simp
  then obtain p where p: "v = ?v0\<lparr>m_path := p\<rparr>" "map site p = [site s, site e]" "veh_wf cm v"
    by (auto simp: yields_def)
  then obtain x y where xy: "p = [x, y]" "site x = site s" "site y = site e"
    by (auto simp: map_eq_Cons_conv)
  have "m_idx x = m_idx s" "m_idx y = m_idx e" using site_eqD(1) xy(2,3) by blast+
  then show "new_truck cm n v"
    using p(3) assms(3,4) by (simp add: new_truck_def p(1) xy(1))
  show "clock v = (sp / f, site s)" by (simp add: clock_def veh_speed_def p(1) sites_def xy)
qed

lemma add_vehicle_trucks:
  assumes "dm_wf cm" "add_vehicle cm row factor s e ts = Inr ts'" "n \<le> m_idx s" "m_idx s < m_idx e"
    and "\<forall>v \<in> set ts. new_truck cm n v \<and> P (clock v)" "P (v_speed row / factor, site s)"
  shows "\<forall>v \<in> set ts'. new_truck cm n v \<and> P (clock v)"
proof -
  let ?f = "\<lambda>i ts. bindE (Vehicle_pickDeliver_of cm (length ts) (v_id row) s e (v_capacity row)
      (v_speed row) factor) (\<lambda>v. bindE (pgassert (m_idx v + 1 = length (ts @ [v]))) (\<lambda>_.
      bindE (veh_is_ok v) (\<lambda>b. bindE (pgassert b) (\<lambda>_. Inr (ts @ [v])))))"
  have "foldE ?f [0..<nat (cant_v row)] ts = Inr ts'"
    using assms(2) by (auto simp: add_vehicle_def)
  then show ?thesis
  proof (rule foldE_invariant[where I = "\<lambda>ts. \<forall>v \<in> set ts. new_truck cm n v \<and> P (clock v)"])
    fix i ts ts' assume "\<forall>v \<in> set ts. new_truck cm n v \<and> P (clock v)" "?f i ts = Inr ts'"
    then show "\<forall>v \<in> set ts'. new_truck cm n v \<and> P (clock v)"
      using Vehicle_pickDeliver_of_Inr[OF assms(1) _ assms(3,4)] assms(6) by auto
  qed (rule assms(5))
qed

lemma build_fleet_clocks:
  assumes "dm_wf cm" "build_fleet cm vehicles factor nodes = Inr (nodes', f)" "length nodes = n"
    and "\<And>row i. row \<in> set vehicles \<Longrightarrow> P (v_speed row / factor, Tw_node_of_vehicle i row kStart)"
    and "\<And>i. P (v_speed (hd vehicles) / factor, Tw_node_of_vehicle i (phony_vehicle (hd vehicles)) kStart)"
  shows "\<forall>v \<in> set (m_trucks f). new_truck cm n v \<and> P (clock v)"
    "m_un_used f = ids_upto (length (m_trucks f))" "m_trucks f \<noteq> []" "n \<le> length nodes'"
proof -
  let ?I = "\<lambda>(nodes, ts). n \<le> length nodes \<and> (\<forall>v \<in> set ts. new_truck cm n v \<and> P (clock v))"
  have step: "?I st'" if "build_vehicle cm factor row st = Inr st'" "?I st"
    "\<And>i. P (v_speed row / factor, Tw_node_of_vehicle i row kStart)" for row st st'
  proof -
    obtain nodes ts where st: "st = (nodes, ts)" by (cases st)
    let ?s = "Vehicle_node_of (Tw_node_of_vehicle (length nodes) row kStart)"
    let ?e = "Vehicle_node_of (Tw_node_of_vehicle (Suc (length nodes)) row kEnd)"
    have "\<exists>ts'. add_vehicle cm row factor ?s ?e ts = Inr ts' \<and> st' = (nodes @ [?s] @ [?e], ts')"
      using that(1) by (auto simp: st build_vehicle_def Let_def split: if_splits)
    then obtain ts' where ts': "add_vehicle cm row factor ?s ?e ts = Inr ts'"
        "st' = (nodes @ [?s] @ [?e], ts')"
      by blast
    have idx: "m_idx ?s = length nodes" "m_idx ?e = Suc (length nodes)"
      by (simp_all add: Vehicle_node_of_def Tw_node_of_vehicle_def reset_id_def Let_def)
    have "\<forall>v \<in> set ts'. new_truck cm n v \<and> P (clock v)"
      by (rule add_vehicle_trucks[OF assms(1) ts'(1)]) (use idx that(2,3) in \<open>simp_all add: st\<close>)
    then show ?thesis using that(2) ts'(2) by (simp add: st)
  qed
  obtain v0 ts where f: "nthE vehicles 0 = Inr v0"
      "foldE (build_vehicle cm factor) (vehicles @ [phony_vehicle v0]) (nodes, []) = Inr (nodes', ts)"
      "m_trucks f = ts" "m_un_used f = ids_upto (length ts)"
    using assms(2) by (auto simp: build_fleet_def)
  have "vehicles \<noteq> []" "v0 = hd vehicles" using f(1) by (auto simp: nthE_def hd_conv_nth split: if_splits)
  have "?I (nodes', ts)"
  proof (rule foldE_invariant[OF f(2)])
    show "?I (nodes, [])" using assms(3) by simp
    fix row st st' assume "row \<in> set (vehicles @ [phony_vehicle v0])" "?I st"
      "build_vehicle cm factor row st = Inr st'"
    moreover from this(1) have "P (v_speed row / factor, Tw_node_of_vehicle i row kStart)" for i
      using assms(4,5) \<open>v0 = hd vehicles\<close> by (auto simp: phony_vehicle_def)
    ultimately show "?I st'" using step by blast
  qed
  then show "\<forall>v \<in> set (m_trucks f). new_truck cm n v \<and> P (clock v)" "n \<le> length nodes'" by (simp_all add: f(3))
  show "m_un_used f = ids_upto (length (m_trucks f))" by (simp add: f(3,4))
  obtain st where "build_vehicle cm factor (phony_vehicle v0) st = Inr (nodes', ts)"
    using f(2) by (auto simp: foldE_append)
  then show "m_trucks f \<noteq> []"
    by (cases st) (auto simp: f(3) build_vehicle_def add_vehicle_def phony_vehicle_def Let_def
        split: if_splits)
qed

lemma build_fleet_trucks:
  assumes "dm_wf cm" "build_fleet cm vehicles factor nodes = Inr (nodes', f)" "length nodes = n"
  shows "\<forall>v \<in> set (m_trucks f). new_truck cm n v" "m_un_used f = ids_upto (length (m_trucks f))"
    "m_trucks f \<noteq> []" "n \<le> length nodes'"
  using build_fleet_clocks[OF assms, of "\<lambda>_. True"] by simp_all

text \<open>
  Rows of vehicles whose clocks are \<open>timed\<close>: the speed over the factor is a number and the window of
  the start does not open at \<open>-inf\<close>.
\<close>

definition clocked_row :: "double \<Rightarrow> Vehicle_t \<Rightarrow> bool" where
  "clocked_row factor v \<longleftrightarrow> v_speed v / factor \<noteq> NaN \<and> start_open_t v \<noteq> NInf"

lemma build_fleet_timed:
  assumes "dm_wf cm" "build_fleet cm vehicles factor nodes = Inr (nodes', f)" "finite_matrix cm"
    and "\<forall>v \<in> set vehicles. clocked_row factor v"
  shows "\<forall>v \<in> set (m_trucks f). timed cm (clock v)"
proof -
  have opens: "m_opens (Tw_node_of_vehicle i row kStart) = start_open_t row" for i row
    by (simp add: Tw_node_of_vehicle_def Let_def)
  have "hd vehicles \<in> set vehicles"
    using assms(2) by (cases vehicles) (auto simp: build_fleet_def nthE_def)
  then have "\<forall>v \<in> set (m_trucks f). new_truck cm (length nodes) v \<and> timed cm (clock v)"
    using assms(3,4) opens
    by (intro build_fleet_clocks(1)[OF assms(1,2) refl])
      (auto simp: timed_def clocked_row_def phony_vehicle_def zero_double_def)
  then show ?thesis by blast
qed

section \<open>Compatible orders\<close>

lemma foldE_upto:
  fixes n :: nat
  assumes "P 0 s" "\<And>k s. k < n \<Longrightarrow> P k s \<Longrightarrow> \<exists>s'. f k s = Inr s' \<and> P (Suc k) s'"
  shows "\<exists>s'. foldE f [0..<n] s = Inr s' \<and> P n s'"
  using assms(2)
proof (induction n)
  case (Suc n)
  then obtain s1 where s1: "foldE f [0..<n] s = Inr s1" "P n s1" by auto
  obtain s2 where "f n s1 = Inr s2" "P (Suc n) s2" using Suc.prems[of n s1] s1(2) by blast
  then show ?case using s1(1) by (simp add: foldE_append)
qed (use assms(1) in simp)

text \<open>\<open>I\<close> can be served before \<open>J\<close>.\<close>

definition before :: "Dmatrix \<Rightarrow> double \<Rightarrow> Order \<Rightarrow> Order \<Rightarrow> bool" where
  "before cm speed I J \<longleftrightarrow> isCompatibleIJ cm J I speed = Inr True"

lemma isCompatibleIJ_total:
  assumes "dm_wf cm" "speed \<noteq> 0" "order_ok cm I" "order_ok cm J"
  shows "isCompatibleIJ cm J I speed = Inr (before cm speed I J)"
proof -
  have "\<exists>b. is_compatible_IJ cm n m speed = Inr b"
    if "in_matrix cm n" "in_matrix cm m" for n m :: Vehicle_node
    using is_compatible_IJ_total[of cm n m speed] assms(1,2) that by (simp add: in_matrix_def)
  moreover have "in_matrix cm (m_pickup I)" "in_matrix cm (m_delivery I)" "in_matrix cm (m_pickup J)"
    "in_matrix cm (m_delivery J)"
    using assms(3,4) by (simp_all add: order_ok_def)
  ultimately obtain b1 b2 b3 b4 b5 b6 where
    "is_compatible_IJ cm (m_pickup J) (m_pickup I) speed = Inr b1"
    "is_compatible_IJ cm (m_delivery J) (m_pickup I) speed = Inr b2"
    "is_compatible_IJ cm (m_pickup J) (m_delivery I) speed = Inr b3"
    "is_compatible_IJ cm (m_delivery J) (m_delivery I) speed = Inr b4"
    "is_compatible_IJ cm (m_delivery I) (m_pickup J) speed = Inr b5"
    "is_compatible_IJ cm (m_delivery I) (m_delivery J) speed = Inr b6"
    by meson
  then show ?thesis by (simp add: isCompatibleIJ_def before_def)
qed

lemma before_cong:
  "m_pickup I = m_pickup I' \<Longrightarrow> m_delivery I = m_delivery I' \<Longrightarrow> m_pickup J = m_pickup J' \<Longrightarrow>
    m_delivery J = m_delivery J' \<Longrightarrow> before cm s I J = before cm s I' J'"
  by (simp add: before_def isCompatibleIJ_def)

lemma order_set_compatibles_eq:
  assumes "dm_wf cm" "speed \<noteq> 0" "order_ok cm this" "order_ok cm J" "m_idx J \<noteq> m_idx this"
  shows "order_set_compatibles cm speed J this = Inr (this
    \<lparr>m_compatibleJ := (if before cm speed this J then ids_add (m_compatibleJ this) (m_idx J) else m_compatibleJ this),
     m_compatibleI := (if before cm speed J this then ids_add (m_compatibleI this) (m_idx J) else m_compatibleI this)\<rparr>)"
proof -
  let ?t = "this\<lparr>m_compatibleJ := ids_add (m_compatibleJ this) (m_idx J)\<rparr>"
  have "order_ok cm ?t" using assms(3) by (simp add: order_ok_def)
  moreover have "before cm speed J ?t = before cm speed J this" by (rule before_cong) simp_all
  ultimately have "isCompatibleIJ cm ?t J speed = Inr (before cm speed J this)"
    using isCompatibleIJ_total[OF assms(1,2,4)] by simp
  then show ?thesis
    using assms(5) isCompatibleIJ_total[OF assms(1-4)] isCompatibleIJ_total[OF assms(1,2,4,3)]
    by (simp add: order_set_compatibles_def Let_def)
qed

text \<open>What one row of the double loop has done after \<open>k\<close> steps.\<close>

definition linked :: "Dmatrix \<Rightarrow> double \<Rightarrow> PD_Orders \<Rightarrow> nat \<Rightarrow> nat \<Rightarrow> Order \<Rightarrow> bool" where
  "linked cm speed os i k q \<longleftrightarrow>
     m_idx q = m_idx (os ! i) \<and> m_pickup q = m_pickup (os ! i) \<and> m_delivery q = m_delivery (os ! i) \<and>
     ids_inv (m_compatibleJ q) \<and> ids_inv (m_compatibleI q) \<and>
     ids_set (m_compatibleJ q) = ids_set (m_compatibleJ (os ! i)) \<union>
       {j. j < k \<and> j \<noteq> i \<and> before cm speed (os ! i) (os ! j)} \<and>
     ids_set (m_compatibleI q) = ids_set (m_compatibleI (os ! i)) \<union>
       {j. j < k \<and> j \<noteq> i \<and> before cm speed (os ! j) (os ! i)}"

lemma linked_step:
  assumes "dm_wf cm" "speed \<noteq> 0" "orders_ok cm os" "i < length os" "k < length os"
    and "linked cm speed os i k q" "m_idx J = k" "m_pickup J = m_pickup (os ! k)" "m_delivery J = m_delivery (os ! k)"
  shows "\<exists>q'. order_set_compatibles cm speed J q = Inr q' \<and> linked cm speed os i (Suc k) q'"
proof (cases "k = i")
  case True
  have less: "{j. j < Suc i \<and> j \<noteq> i \<and> P j} = {j. j < i \<and> j \<noteq> i \<and> P j}" for P
    by (auto simp: less_Suc_eq)
  have "m_idx q = i" using assms(3,4,6) by (simp add: linked_def orders_ok_def)
  then show ?thesis using assms(6,7) True by (simp add: order_set_compatibles_def linked_def less)
next
  case False
  have less: "{j. j < Suc k \<and> j \<noteq> i \<and> P j} = {j. j < k \<and> j \<noteq> i \<and> P j} \<union> (if P k then {k} else {})" for P
    using False by (auto simp: less_Suc_eq)
  have q: "m_idx q = i" "m_pickup q = m_pickup (os ! i)" "m_delivery q = m_delivery (os ! i)"
    using assms(3,4,6) by (simp_all add: linked_def orders_ok_def)
  have ok: "order_ok cm q" "order_ok cm J"
    using assms(3-5,8,9) q by (auto simp: orders_ok_def order_ok_def)
  have b: "before cm speed q J = before cm speed (os ! i) (os ! k)"
    "before cm speed J q = before cm speed (os ! k) (os ! i)"
    by (rule before_cong; simp add: q assms(8,9))+
  show ?thesis
    using order_set_compatibles_eq[OF assms(1,2) ok] False q assms(6,7)
    by (auto simp: linked_def less b)
qed

lemma orders_set_compatibles_spec:
  assumes "dm_wf cm" "speed \<noteq> 0" "orders_ok cm os"
    and "\<forall>q \<in> set os. ids_inv (m_compatibleJ q) \<and> ids_inv (m_compatibleI q)"
  shows "\<exists>os'. orders_set_compatibles cm speed os = Inr os' \<and> length os' = length os \<and>
    (\<forall>i < length os. linked cm speed os i (length os) (os' ! i))"
proof -
  let ?n = "length os"
  let ?row = "\<lambda>i j os. bindE (order_set_compatibles cm speed (os ! j) (os ! i)) (\<lambda>o'. Inr (os[i := o']))"
  define P where "P k os' \<longleftrightarrow> length os' = ?n \<and>
    (\<forall>i < ?n. linked cm speed os i (if i < k then ?n else 0) (os' ! i))" for k and os' :: PD_Orders
  have "\<exists>os'. foldE (?row i) [0..<?n] s = Inr os' \<and> P (Suc i) os'" if i: "i < ?n" "P i s" for i s
  proof -
    define Q where "Q k os' \<longleftrightarrow> length os' = ?n \<and> linked cm speed os i k (os' ! i) \<and>
      (\<forall>a < ?n. a \<noteq> i \<longrightarrow> linked cm speed os a (if a < i then ?n else 0) (os' ! a))" for k and os' :: PD_Orders
    have "\<exists>s'. ?row i k s = Inr s' \<and> Q (Suc k) s'" if k: "k < ?n" "Q k s" for k s
    proof -
      have l: "linked cm speed os i k (s ! i)" "\<exists>m. linked cm speed os k m (s ! k)"
        using k by (cases "k = i"; auto simp: Q_def)+
      then have "m_idx (s ! k) = k" "m_pickup (s ! k) = m_pickup (os ! k)" "m_delivery (s ! k) = m_delivery (os ! k)"
        using assms(3) k(1) by (auto simp: linked_def orders_ok_def)
      then obtain q' where "order_set_compatibles cm speed (s ! k) (s ! i) = Inr q'"
          "linked cm speed os i (Suc k) q'"
        using linked_step[OF assms(1-3) i(1) k(1) l(1)] by blast
      then show ?thesis using k i(1) by (simp add: Q_def)
    qed
    moreover have "linked cm speed os i 0 (s ! i)" using i unfolding P_def by fastforce
    then have "Q 0 s" using i(2) by (simp add: P_def Q_def)
    ultimately obtain s' where s': "foldE (?row i) [0..<?n] s = Inr s'" "Q ?n s'"
      using foldE_upto[of Q s ?n "?row i"] by blast
    have "linked cm speed os a (if a < Suc i then ?n else 0) (s' ! a)" if "a < ?n" for a
      using s'(2) that by (cases "a = i") (auto simp: Q_def less_Suc_eq)
    then show ?thesis using s' by (auto simp: P_def Q_def)
  qed
  moreover have "P 0 os" using assms(4) by (auto simp: P_def linked_def)
  ultimately show ?thesis
    using foldE_upto[of P os ?n "\<lambda>i. foldE (?row i) [0..<?n]"]
    by (auto simp: orders_set_compatibles_def P_def)
qed

section \<open>The prepared fleet\<close>

lemma order_fields_update [simp]:
  "sites (v\<lparr>m_orders := os\<rparr>) = sites v" "sites (v\<lparr>m_feasable_orders := F\<rparr>) = sites v"
  "veh_speed (v\<lparr>m_orders := os\<rparr>) = veh_speed v" "veh_speed (v\<lparr>m_feasable_orders := F\<rparr>) = veh_speed v"
  "m_path (v\<lparr>m_orders := os\<rparr>) = m_path v" "m_path (v\<lparr>m_feasable_orders := F\<rparr>) = m_path v"
  "m_capacity (v\<lparr>m_orders := os\<rparr>) = m_capacity v" "m_capacity (v\<lparr>m_feasable_orders := F\<rparr>) = m_capacity v"
  "is_feasable (v\<lparr>m_orders := os\<rparr>) = is_feasable v" "is_feasable (v\<lparr>m_feasable_orders := F\<rparr>) = is_feasable v"
  "veh_wf cm (v\<lparr>m_orders := os\<rparr>) = veh_wf cm v" "veh_wf cm (v\<lparr>m_feasable_orders := F\<rparr>) = veh_wf cm v"
  by (simp_all add: sites_def veh_speed_def veh_wf_def is_feasable_def has_twv_def has_cv_def
      twvTot_def cvTot_def)

lemma order_fields_via:
  "via cm (v\<lparr>m_orders := os\<rparr>) ss = via cm v ss\<lparr>m_orders := os\<rparr>"
  "via cm (v\<lparr>m_feasable_orders := F\<rparr>) ss = via cm v ss\<lparr>m_feasable_orders := F\<rparr>"
  by (simp_all add: via_def)

lemma fits_update [simp]:
  "fits cm (v\<lparr>m_orders := os\<rparr>) q = fits cm v q" "fits cm (v\<lparr>m_feasable_orders := F\<rparr>) q = fits cm v q"
  by (simp_all add: fits_def order_fields_via)

lemma pd_wf_feasable_update [simp]: "pd_wf cm (v\<lparr>m_feasable_orders := F\<rparr>) = pd_wf cm v"
  by (simp add: pd_wf_def)

lemma new_truck_pd_wf:
  assumes "new_truck cm n v" "orders_ok cm os" "\<forall>i < length os. \<forall>x \<in> order_idxs (os ! i). x < n"
  shows "pd_wf cm (v\<lparr>m_orders := os\<rparr>)"
proof -
  obtain s e where p: "m_path v = [s, e]"
    using assms(1) by (auto simp: new_truck_def length_Suc_conv numeral_2_eq_2)
  have idx: "n \<le> m_idx s" "m_idx s < m_idx e" using assms(1) p by (simp_all add: new_truck_def)
  then have "serves os {} (sites v)"
    using assms(3) by (fastforce simp: serves_def sites_def p)
  then show ?thesis
    using assms(1,2) by (simp add: pd_wf_def new_truck_def)
qed

lemma feasible_fold:
  assumes "pd_wf cm v" "m_orders_in_vehicle v = ids_none" "\<forall>q \<in> set qs. in_table (m_orders v) q"
  shows "foldE (\<lambda>order v. bindE (is_order_feasable cm order v) (\<lambda>f.
      Inr (if f then v\<lparr>m_feasable_orders := ids_add (m_feasable_orders v) (m_idx order)\<rparr> else v))) qs
      (v\<lparr>m_feasable_orders := F\<rparr>) =
    Inr (v\<lparr>m_feasable_orders := foldl (\<lambda>F q. if fits cm v q then ids_add F (m_idx q) else F) F qs\<rparr>)"
  using assms(3)
proof (induction qs arbitrary: F)
  case (Cons q qs)
  have "is_order_feasable cm q (v\<lparr>m_feasable_orders := F\<rparr>) = Inr (fits cm v q)"
    using is_order_feasable_spec[of cm "v\<lparr>m_feasable_orders := F\<rparr>" q] assms(1,2) Cons.prems by simp
  then show ?case using Cons by simp
qed simp

lemma feasible_set:
  assumes "ids_inv F"
  shows "ids_inv (foldl (\<lambda>F q. if P q then ids_add F (m_idx q) else F) F qs) \<and>
    ids_set (foldl (\<lambda>F q. if P q then ids_add F (m_idx q) else F) F qs) =
      ids_set F \<union> {m_idx q |q. q \<in> set qs \<and> P q}"
  using assms by (induction qs arbitrary: F) auto

lemma veh_set_compatibles_spec:
  assumes "new_truck cm n v" "orders_ok cm os" "\<forall>i < length os. \<forall>x \<in> order_idxs (os ! i). x < n"
    and "\<forall>q \<in> set os. ids_inv (m_compatibleJ q) \<and> ids_inv (m_compatibleI q)" "is_feasable v"
  shows "\<exists>v'. veh_set_compatibles cm os v = Inr v' \<and> truck_ok cm os v' \<and> fits cm v' = fits cm v \<and> clock v' = clock v"
proof -
  let ?v = "v\<lparr>m_orders := os\<rparr>"
  let ?F = "foldl (\<lambda>F q. if fits cm v q then ids_add F (m_idx q) else F) ids_none os"
  have wf: "pd_wf cm ?v" by (rule new_truck_pd_wf[OF assms(1-3)])
  have new: "m_orders_in_vehicle v = ids_none" "m_feasable_orders v = ids_none" "veh_wf cm v"
    using assms(1) by (simp_all add: new_truck_def)
  have tab: "\<forall>q \<in> set os. in_table os q"
    using in_table_nth[OF assms(2)] by (auto simp: in_set_conv_nth)
  have "?v\<lparr>m_feasable_orders := ids_none\<rparr> = ?v" using new(2) by simp
  then have "foldE (\<lambda>order v. bindE (is_order_feasable cm order v) (\<lambda>f.
      Inr (if f then v\<lparr>m_feasable_orders := ids_add (m_feasable_orders v) (m_idx order)\<rparr> else v))) os ?v =
      Inr (?v\<lparr>m_feasable_orders := ?F\<rparr>)"
    using feasible_fold[OF wf, of os ids_none] new(1) tab by simp
  moreover obtain os' where os': "orders_set_compatibles cm (veh_speed v) os = Inr os'"
      "length os' = length os" "\<forall>i < length os. linked cm (veh_speed v) os i (length os) (os' ! i)"
    using orders_set_compatibles_spec[of cm "veh_speed v", OF _ _ assms(2,4)] new(3)
    by (auto simp: veh_wf_def)
  ultimately have run: "veh_set_compatibles cm os v =
      Inr (v\<lparr>m_orders := os', m_feasable_orders := ?F\<rparr>)"
    by (simp add: veh_set_compatibles_def)
  have st: "same_table os os'" using os'(2,3) by (auto simp: same_table_def linked_def)
  have "pd_wf cm (v\<lparr>m_orders := os'\<rparr>)"
    using assms(2,3) st same_table_ok[OF st]
    by (intro new_truck_pd_wf[OF assms(1)]) (auto simp: same_table_def order_idxs_def)
  moreover have "{m_idx q |q. q \<in> set os \<and> fits cm v q} = {i. i < length os \<and> fits cm v (os ! i)}"
    using assms(2) unfolding orders_ok_def by (auto simp: in_set_conv_nth) metis+
  moreover have "\<forall>q \<in> set os'. ids_inv (m_compatibleJ q) \<and> ids_inv (m_compatibleI q)"
    using os'(2,3) by (auto simp: in_set_conv_nth linked_def)
  ultimately have "truck_ok cm os (v\<lparr>m_orders := os', m_feasable_orders := ?F\<rparr>)"
    using st assms(5) new(1) feasible_set[of ids_none "fits cm v" os] by (simp add: truck_ok_def)
  moreover have "fits cm (v\<lparr>m_orders := os', m_feasable_orders := ?F\<rparr>) = fits cm v" by (rule ext) simp
  moreover have "clock (v\<lparr>m_orders := os', m_feasable_orders := ?F\<rparr>) = clock v" by (simp add: clock_def)
  ultimately show ?thesis using run by blast
qed

lemma fleet_set_compatibles_spec:
  assumes "\<forall>v \<in> set (m_trucks f). new_truck cm n v \<and> is_feasable v" "orders_ok cm os"
    and "\<forall>i < length os. \<forall>x \<in> order_idxs (os ! i). x < n"
    and "\<forall>q \<in> set os. ids_inv (m_compatibleJ q) \<and> ids_inv (m_compatibleI q)"
    and "m_un_used f = ids_upto (length (m_trucks f))" "m_trucks f \<noteq> []"
  shows "\<exists>f'. fleet_set_compatibles cm os f = Inr f' \<and> fleet_ok cm os f' \<and>
    (\<forall>v' \<in> set (m_trucks f'). \<exists>v \<in> set (m_trucks f). fits cm v' = fits cm v \<and> clock v' = clock v)"
proof -
  have "\<exists>ts. mapE (veh_set_compatibles cm os) vs = Inr ts \<and> length ts = length vs \<and>
      (\<forall>v \<in> set ts. truck_ok cm os v \<and> (\<exists>w \<in> set vs. fits cm v = fits cm w \<and> clock v = clock w))"
    if "\<forall>v \<in> set vs. new_truck cm n v \<and> is_feasable v" for vs
    using that
  proof (induction vs)
    case (Cons v vs)
    then show ?case using veh_set_compatibles_spec[OF _ assms(2-4), of v] by fastforce
  qed simp
  then obtain ts where "mapE (veh_set_compatibles cm os) (m_trucks f) = Inr ts"
      "length ts = length (m_trucks f)"
      "\<forall>v \<in> set ts. truck_ok cm os v \<and> (\<exists>w \<in> set (m_trucks f). fits cm v = fits cm w \<and> clock v = clock w)"
    using assms(1) by blast
  moreover have "ids_upto (length (m_trucks f)) \<noteq> ids_none"
    using assms(6) ids_set_ops(1) ids_set_ops(2)[of "length (m_trucks f)"] by fastforce
  ultimately show ?thesis
    using assms(5) by (simp add: fleet_set_compatibles_def fleet_ok_def)
qed

section \<open>The problem\<close>

text \<open>What a constructor without an error message has established.\<close>

definition problem_ok :: "Pgr_pickDeliver \<Rightarrow> bool" where
  "problem_ok p \<longleftrightarrow> dm_wf (m_cost_matrix p) \<and> orders_ok (m_cost_matrix p) (p_orders p) \<and>
     fleet_ok (m_cost_matrix p) (p_orders p) (p_trucks p) \<and> p_orders p \<noteq> [] \<and>
     0 < m_initial_id p \<and> m_initial_id p \<le> kind_code OneDepot \<and> solutions p = []"

definition problem_timed :: "Pgr_pickDeliver \<Rightarrow> bool" where
  "problem_timed p \<longleftrightarrow> (\<forall>v \<in> set (m_trucks (p_trucks p)). timed (m_cost_matrix p) (clock v))"

lemma trucks_ok_Inr:
  "trucks_ok err ts = Inr (ok, err') \<Longrightarrow>
    (if ok then err' = err \<and> (\<forall>v \<in> set ts. is_feasable v) else err' \<noteq> [])"
  by (induction err ts rule: trucks_ok.induct) (auto split: if_splits)

lemma order_is_valid_True:
  "order_is_valid cm q s = Inr True \<Longrightarrow> is_pickup (m_pickup q) \<and> is_delivery (m_delivery q)"
  by (simp add: order_is_valid_def split: if_splits)

lemma order_ok_on_True:
  "order_ok_on cm q ts = Inr True \<Longrightarrow> is_pickup (m_pickup q) \<and> is_delivery (m_delivery q)"
proof (induction ts)
  case (Cons t ts)
  from Cons.prems obtain valid where "order_is_valid cm q (veh_speed t) = Inr valid"
    by auto
  then show ?case
    using Cons order_is_valid_True by (cases valid) auto
qed simp

lemma orders_all_ok_True:
  "orders_all_ok cm f os = Inr True \<Longrightarrow>
    \<forall>q \<in> set os. is_pickup (m_pickup q) \<and> is_delivery (m_delivery q)"
proof (induction os)
  case (Cons q os)
  from Cons.prems obtain b where b: "order_ok_on cm q (m_trucks f) = Inr b"
    by (auto simp: is_order_ok_def)
  with Cons.prems have "b" "orders_all_ok cm f os = Inr True"
    by (simp_all add: is_order_ok_def split: if_splits)
  then show ?case using Cons.IH b order_ok_on_True by auto
qed simp

lemma table_of_compatible: "q \<in> set (table_of rows) \<Longrightarrow> m_compatibleJ q = ids_none \<and> m_compatibleI q = ids_none"
  by (auto simp: table_of_def order_of_row_def Order_of_def)

lemma prepared_fleet:
  assumes "dm_wf cm" "build_orders cm orders [] = Inr (nodes, os)"
    "build_fleet cm vehicles factor nodes = Inr (nodes', f)"
    "trucks_ok [] (m_trucks f) = Inr (True, err)" "orders_all_ok cm f os = Inr True"
  shows "orders_ok cm os" "\<exists>f'. fleet_set_compatibles cm os f = Inr f' \<and> fleet_ok cm os f' \<and>
    (\<forall>v' \<in> set (m_trucks f'). \<exists>v \<in> set (m_trucks f). fits cm v' = fits cm v \<and> clock v' = clock v)"
proof -
  note os = build_orders_Inr[OF assms(2)]
  note tr = build_fleet_trucks[OF assms(1,3) os(2)]
  show tab: "orders_ok cm os"
    using orders_ok_table[OF os(3)] orders_all_ok_True[OF assms(5)] by (simp add: os(1))
  have "\<forall>v \<in> set (m_trucks f). new_truck cm (2 * length orders) v \<and> is_feasable v"
    using tr(1) trucks_ok_Inr[OF assms(4)] by simp
  moreover have "\<forall>i < length os. \<forall>x \<in> order_idxs (os ! i). x < 2 * length orders"
    by (auto simp: os(1))
  moreover have "\<forall>q \<in> set os. ids_inv (m_compatibleJ q) \<and> ids_inv (m_compatibleI q)"
    by (simp add: os(1) table_of_compatible)
  ultimately show "\<exists>f'. fleet_set_compatibles cm os f = Inr f' \<and> fleet_ok cm os f' \<and>
    (\<forall>v' \<in> set (m_trucks f'). \<exists>v \<in> set (m_trucks f). fits cm v' = fits cm v \<and> clock v' = clock v)"
    using fleet_set_compatibles_spec[OF _ tab _ _ tr(2,3)] by blast
qed

lemma Pgr_pickDeliver_of_spec:
  assumes "dm_wf cm" "Pgr_pickDeliver_of orders vehicles cm factor cycles initial = Inr p" "msg_error p = []"
  shows "problem_ok p" "p_orders p = table_of orders" "m_cost_matrix p = cm" "m_initial_id p = initial"
    "m_max_cycles p = cycles"
    "finite_matrix cm \<Longrightarrow> \<forall>v \<in> set vehicles. clocked_row factor v \<Longrightarrow> problem_timed p"
proof -
  obtain nodes os nodes' f ok err where b: "build_orders cm orders [] = Inr (nodes, os)"
      "build_fleet cm vehicles factor nodes = Inr (nodes', f)"
    and fo: "trucks_ok [] (m_trucks f) = Inr (ok, err)"
    and ini: "orders \<noteq> []" "0 < initial" "initial \<le> 7"
    using assms(2) unfolding Pgr_pickDeliver_of_def Let_def is_fleet_ok_def
    by (auto split del: if_split)
  note run = assms(2)[unfolded Pgr_pickDeliver_of_def is_fleet_ok_def Let_def]
  have ok: ok using run trucks_ok_Inr[OF fo] by (auto simp: b fo split: if_splits)
  have all_ok: "orders_all_ok cm f os = Inr True"
    using run ok assms(3) by (auto simp: b fo split: if_splits)
  have "trucks_ok [] (m_trucks f) = Inr (True, err)" using fo ok by simp
  note prep = prepared_fleet[OF assms(1) b this all_ok]
  obtain f' where f': "fleet_set_compatibles cm os f = Inr f'" "fleet_ok cm os f'"
      "\<forall>v' \<in> set (m_trucks f'). \<exists>v \<in> set (m_trucks f). fits cm v' = fits cm v \<and> clock v' = clock v"
    using prep(2) by blast
  have eq: "p_trucks p = f'" "m_cost_matrix p = cm" using run ok all_ok f'(1) by (auto simp: b fo)
  show "problem_timed p" if "finite_matrix cm" "\<forall>v \<in> set vehicles. clocked_row factor v"
    using build_fleet_timed[OF assms(1) b(2) that] f'(3) by (fastforce simp: problem_timed_def eq)
  show "problem_ok p" "p_orders p = table_of orders" "m_cost_matrix p = cm" "m_initial_id p = initial"
    "m_max_cycles p = cycles"
    using run ok all_ok prep(1) assms(1) ini build_orders_Inr(1)[OF b(1)] f'(1,2)
    by (auto simp: b fo problem_ok_def table_of_def)
qed

lemma kind_of_total:
  assumes "0 \<le> i" "i \<le> kind_code OneDepot"
  obtains k where "kind_of i = Some k" "kind_code k = i"
proof -
  have "i \<in> kind_code ` {OneTruck, OnePerTruck, FrontTruck, BackTruck, BestInsert, BestBack, BestFront, OneDepot}"
    using assms by auto
  then obtain k where "i = kind_code k" by blast
  then show ?thesis by (intro that[of k]) (simp_all add: kind_of_code)
qed

lemma sol_less_irrefl [simp]: "\<not> sol_less s s"
  by (cases "sol_cost s") (simp add: sol_less_def)

lemma solve_spec:
  assumes "problem_ok p"
  obtains p' s where "solve p = Inr p'" "solutions p' = [s]" "m_cost_matrix p' = m_cost_matrix p"
    "p_orders p' = p_orders p" "serves_once (m_cost_matrix p) (p_orders p) (fleet s)"
  | "solve p = Inl AssertFailed" "initial_of p (m_initial_id p) = Inl AssertFailed"
    "\<not> (m_initial_id p \<in> {kind_code OnePerTruck, kind_code FrontTruck, kind_code BackTruck} \<and>
       all_fit (p_orders p) (p_trucks p))"
  | "solve p = Inl UndefinedBehaviour" "\<not> problem_timed p"
proof -
  note ok = assms[unfolded problem_ok_def]
  obtain k where k: "kind_of (m_initial_id p) = Some k" "kind_code k = m_initial_id p"
    using kind_of_total[of "m_initial_id p"] ok by auto
  have k0: "k \<noteq> OneTruck" using k(2) ok by auto
  consider (made) i where "Initial_solution_of (m_cost_matrix p) (p_trucks p) k (length (p_orders p)) = Inr i"
      "solution_ok (m_cost_matrix p) (p_orders p) i" "clock ` set (fleet i) \<subseteq> clock ` set (m_trucks (p_trucks p))"
    | (stuck) "Initial_solution_of (m_cost_matrix p) (p_trucks p) k (length (p_orders p)) = Inl AssertFailed"
      "\<not> (k \<in> {OnePerTruck, FrontTruck, BackTruck} \<and> all_fit (p_orders p) (p_trucks p))"
    using Initial_solution_spec[of "m_cost_matrix p" "p_orders p" "p_trucks p" k] ok k0 by blast
  then show ?thesis
  proof cases
    case made
    let ?s = "as_solution i"
    have once: "serves_once (m_cost_matrix p) (p_orders p) (fleet ?s)"
      using made(2) by (simp add: solution_ok_def as_solution_def)
    have run: "solve p = bindE (Optimize_of (m_cost_matrix p) k ?s (m_max_cycles p))
        (\<lambda>opt. Inr (p\<lparr>solutions := [as_solution opt]\<rparr>))"
      using k ok made(1) by (simp add: solve_def initial_of_def problem_kind_def std_sort_single)
    show ?thesis
    proof (rule Optimize_of_spec[OF _ once])
      show "orders_ok (m_cost_matrix p) (p_orders p)" "p_orders p \<noteq> []" using ok by simp_all
      fix opt assume "Optimize_of (m_cost_matrix p) k ?s (m_max_cycles p) = Inr opt"
        "serves_once (m_cost_matrix p) (p_orders p) (fleet opt)"
      then show ?thesis using that(1) run by (simp add: as_solution_def)
    next
      assume u: "Optimize_of (m_cost_matrix p) k ?s (m_max_cycles p) = Inl UndefinedBehaviour"
        "\<not> (\<forall>v \<in> set (fleet ?s). timed (m_cost_matrix p) (clock v))"
      have "\<not> problem_timed p"
      proof
        assume "problem_timed p"
        then have "\<forall>k \<in> clock ` set (m_trucks (p_trucks p)). timed (m_cost_matrix p) k"
          by (simp add: problem_timed_def)
        then have "\<forall>k \<in> clock ` set (fleet i). timed (m_cost_matrix p) k" using made(3) by blast
        then show False using u(2) by (simp add: as_solution_def)
      qed
      then show ?thesis using that(3) run u(1) by simp
    qed
  next
    case stuck
    have "solve p = Inl AssertFailed"
      using k ok stuck(1) by (simp add: solve_def initial_of_def)
    moreover have "initial_of p (m_initial_id p) = Inl AssertFailed"
      using k stuck(1) by (simp add: initial_of_def)
    ultimately show ?thesis
      using that(2) stuck(2) k(2) by (cases k) auto
  qed
qed

section \<open>The rows of a solution\<close>

definition stops :: "int \<Rightarrow> Schedule_rt list \<Rightarrow> int option list" where
  "stops ty rs = map order_id (filter (\<lambda>r. stop_type r = ty) rs)"

text \<open>Every delivery row has the pickup row of its order before it, in the same vehicle.\<close>

definition picked_first :: "Schedule_rt list \<Rightarrow> bool" where
  "picked_first rs \<longleftrightarrow> (\<forall>j < length rs. stop_type (rs ! j) = type_code kDelivery \<longrightarrow>
     (\<exists>i < j. stop_type (rs ! i) = type_code kPickup \<and> order_id (rs ! i) = order_id (rs ! j) \<and>
        vehicle_seq (rs ! i) = vehicle_seq (rs ! j)))"

lemma stops_append [simp]: "stops ty (xs @ ys) = stops ty xs @ stops ty ys"
  by (simp add: stops_def)

lemma picked_first_append: "picked_first xs \<Longrightarrow> picked_first ys \<Longrightarrow> picked_first (xs @ ys)"
  unfolding picked_first_def
proof (intro allI impI)
  fix j
  assume xs: "\<forall>j < length xs. stop_type (xs ! j) = type_code kDelivery \<longrightarrow>
      (\<exists>i < j. stop_type (xs ! i) = type_code kPickup \<and> order_id (xs ! i) = order_id (xs ! j) \<and>
        vehicle_seq (xs ! i) = vehicle_seq (xs ! j))"
    and ys: "\<forall>j < length ys. stop_type (ys ! j) = type_code kDelivery \<longrightarrow>
      (\<exists>i < j. stop_type (ys ! i) = type_code kPickup \<and> order_id (ys ! i) = order_id (ys ! j) \<and>
        vehicle_seq (ys ! i) = vehicle_seq (ys ! j))"
    and j: "j < length (xs @ ys)" "stop_type ((xs @ ys) ! j) = type_code kDelivery"
  let ?P = "\<lambda>i. i < j \<and> stop_type ((xs @ ys) ! i) = type_code kPickup \<and>
      order_id ((xs @ ys) ! i) = order_id ((xs @ ys) ! j) \<and>
      vehicle_seq ((xs @ ys) ! i) = vehicle_seq ((xs @ ys) ! j)"
  show "\<exists>i. ?P i"
  proof (cases "j < length xs")
    case True
    then obtain i where "i < j" "stop_type (xs ! i) = type_code kPickup" "order_id (xs ! i) = order_id (xs ! j)"
        "vehicle_seq (xs ! i) = vehicle_seq (xs ! j)"
      using xs j(2) by (auto simp: nth_append)
    then have "?P i" using True by (simp add: nth_append)
    then show ?thesis by blast
  next
    case False
    let ?j = "j - length xs"
    have "?j < length ys" "stop_type (ys ! ?j) = type_code kDelivery"
      using j False by (auto simp: nth_append)
    then obtain i where "i < ?j" "stop_type (ys ! i) = type_code kPickup" "order_id (ys ! i) = order_id (ys ! ?j)"
        "vehicle_seq (ys ! i) = vehicle_seq (ys ! ?j)"
      using ys by blast
    then have "?P (length xs + i)" using False by (simp add: nth_append)
    then show ?thesis by blast
  qed
qed

lemma schedule_rows_nth:
  "length (schedule_rows a b k ps) = length ps"
  "j < length ps \<Longrightarrow> schedule_rows a b k ps ! j = schedule_row a b (k + int j) (ps ! j)"
proof (induction ps arbitrary: j k)
  case (Cons p ps)
  { case 1 show ?case using Cons.IH(1) by simp }
  { case 2 then show ?case using Cons.IH(2)[of "j - 1" "k + 1"] by (cases j) (simp_all add: algebra_simps) }
qed simp_all

lemma stops_schedule_rows:
  "ty \<in> {type_code kPickup, type_code kDelivery} \<Longrightarrow>
    stops ty (schedule_rows a b k ps) = map m_order (filter (\<lambda>n. type_code (m_type n) = ty) (map site ps))"
  by (induction ps arbitrary: k) (auto simp: stops_def schedule_row_def)

lemma type_code_inject: "type_code t = type_code t' \<longleftrightarrow> t = t'"
  by (cases t; cases t') simp_all

text \<open>A vehicle stops at the pickup and at the delivery of each order it carries, once.\<close>

lemma pd_wf_stops:
  assumes "pd_wf cm v"
  defines "os \<equiv> m_orders v" and "xs \<equiv> m_ids (m_orders_in_vehicle v)"
  shows "mset (filter (\<lambda>n. m_type n = kPickup) (sites v)) = mset (map (\<lambda>i. site (m_pickup (os ! i))) xs)"
    "mset (filter (\<lambda>n. m_type n = kDelivery) (sites v)) = mset (map (\<lambda>i. site (m_delivery (os ! i))) xs)"
proof -
  note wf = pd_wfD[OF assms(1), folded os_def]
  obtain s mid e where ss: "sites v = s # mid @ [e]" "is_start s" "is_end e"
    using veh_wf_shape[OF wf(1)] by (elim route_shape_split)
  have "distinct (map m_idx (sites v))" "set (butlast (tl (sites v))) =
      (\<Union>i \<in> set xs. {site (m_pickup (os ! i)), site (m_delivery (os ! i))})"
    using wf(4) by (simp_all add: serves_def xs_def ids_set_def)
  then have serves: "distinct (map m_idx (sites v))"
    "set mid = (\<Union>i \<in> set xs. {site (m_pickup (os ! i)), site (m_delivery (os ! i))})"
    by (simp_all add: ss(1))
  have ok: "is_pickup (m_pickup (os ! i))" "is_delivery (m_delivery (os ! i))" if "i \<in> set xs" for i
    using wf(2,5) that by (auto simp: orders_ok_def order_ok_def xs_def ids_set_def)
  have d: "distinct (sites v)" using serves(1) by (simp add: distinct_map)
  have dx: "distinct xs" using wf(3) by (simp add: xs_def ids_inv_distinct)
  have apart: "i = j" if "i \<in> set xs" "j \<in> set xs" "order_idxs (os ! i) \<inter> order_idxs (os ! j) \<noteq> {}" for i j
  proof (rule ccontr)
    assume "i \<noteq> j"
    moreover have "i < length os" "j < length os" using wf(5) that(1,2) by (simp_all add: xs_def ids_set_def)
    ultimately show False using wf(2) that(3) by (simp add: orders_ok_def)
  qed
  have inj: "inj_on (\<lambda>i. site (m_pickup (os ! i))) (set xs)" "inj_on (\<lambda>i. site (m_delivery (os ! i))) (set xs)"
    using apart by (auto intro!: inj_onI simp: order_idxs_def dest!: site_eqD(1))
  have "set (filter (\<lambda>n. m_type n = kPickup) (sites v)) = set (map (\<lambda>i. site (m_pickup (os ! i))) xs)"
    "set (filter (\<lambda>n. m_type n = kDelivery) (sites v)) = set (map (\<lambda>i. site (m_delivery (os ! i))) xs)"
    using ss(2,3) ok serves(2) by (auto simp: ss(1) node_kinds)
  then show "mset (filter (\<lambda>n. m_type n = kPickup) (sites v)) = mset (map (\<lambda>i. site (m_pickup (os ! i))) xs)"
    "mset (filter (\<lambda>n. m_type n = kDelivery) (sites v)) = mset (map (\<lambda>i. site (m_delivery (os ! i))) xs)"
    using d dx inj by (subst set_eq_iff_mset_eq_distinct[symmetric]; simp add: distinct_map)+
qed

lemma subseq_pair_nth: "subseq [a, b] xs \<Longrightarrow> \<exists>i j. i < j \<and> j < length xs \<and> xs ! i = a \<and> xs ! j = b"
proof (induction xs)
  case (Cons x xs)
  show ?case
  proof (cases "x = a")
    case True
    then have "b \<in> set xs" using Cons.prems by (simp add: subseq_singleton_left)
    then obtain j where "j < length xs" "xs ! j = b" by (auto simp: in_set_conv_nth)
    then show ?thesis using True by (intro exI[of _ 0] exI[of _ "Suc j"]) simp
  next
    case False
    then have "subseq [a, b] xs" using Cons.prems by simp
    then obtain i j where "i < j" "j < length xs" "xs ! i = a" "xs ! j = b" using Cons.IH by blast
    then show ?thesis by (intro exI[of _ "Suc i"] exI[of _ "Suc j"]) simp
  qed
qed simp

lemma veh_rows_picked_first:
  assumes "pd_wf cm v" "\<forall>i < length (m_orders v).
      m_order (m_pickup (m_orders v ! i)) = m_order (m_delivery (m_orders v ! i))"
  shows "picked_first (schedule_rows k (m_id v) 1 (m_path v))"
  unfolding picked_first_def
proof (intro allI impI)
  let ?os = "m_orders v" and ?rs = "schedule_rows k (m_id v) 1 (m_path v)"
  note wf = pd_wfD[OF assms(1)]
  have rs: "?rs ! i = schedule_row k (m_id v) (1 + int i) (m_path v ! i)" if "i < length (m_path v)" for i
    using that by (simp add: schedule_rows_nth)
  fix j assume j: "j < length ?rs" "stop_type (?rs ! j) = type_code kDelivery"
  then have jl: "j < length (m_path v)" by (simp add: schedule_rows_nth)
  have ty: "m_type (sites v ! j) = kDelivery"
    using j(2) jl by (simp add: rs schedule_row_def nth_sites type_code_inject[of _ kDelivery, simplified])
  have "sites v ! j \<in> set (filter (\<lambda>n. m_type n = kDelivery) (sites v))"
    using ty jl by simp
  also have "\<dots> = (\<lambda>i. site (m_delivery (?os ! i))) ` ids_set (m_orders_in_vehicle v)"
    using mset_eq_setD[OF pd_wf_stops(2)[OF assms(1)]] by (simp add: ids_set_def)
  finally obtain q where q: "q \<in> ids_set (m_orders_in_vehicle v)" "sites v ! j = site (m_delivery (?os ! q))"
    by blast
  have "subseq [site (m_pickup (?os ! q)), site (m_delivery (?os ! q))] (sites v)" "distinct (map m_idx (sites v))"
    using wf(4) q(1) by (auto simp: serves_def)
  then obtain a b where ab: "a < b" "b < length (sites v)" "sites v ! a = site (m_pickup (?os ! q))"
      "sites v ! b = site (m_delivery (?os ! q))" "distinct (sites v)"
    using subseq_pair_nth by (metis distinct_map)
  have "b = j" using ab(2,4,5) q(2) jl by (simp add: nth_eq_iff_index_eq[symmetric])
  have al: "a < length (m_path v)" using ab(1,2) by simp
  have ql: "q < length ?os" using wf(5) q(1) by simp
  have "m_type (m_pickup (?os ! q)) = kPickup" using wf(2) ql by (simp add: orders_ok_def order_ok_def node_kinds)
  moreover have "site (m_path v ! a) = site (m_pickup (?os ! q))" "site (m_path v ! j) = site (m_delivery (?os ! q))"
    using ab(3) q(2) al jl by (simp_all add: nth_sites)
  ultimately have p: "m_type (m_path v ! a) = kPickup" "m_order (m_path v ! a) = m_order (m_path v ! j)"
    using assms(2) ql site_eqD(3,8) by metis+
  have "m_type (m_path v ! j) = kDelivery" using ty jl by (simp add: nth_sites)
  then have "stop_type (?rs ! a) = type_code kPickup \<and> order_id (?rs ! a) = order_id (?rs ! j) \<and>
      vehicle_seq (?rs ! a) = vehicle_seq (?rs ! j)"
    using p al jl by (simp add: rs schedule_row_def)
  then show "\<exists>i < j. stop_type (?rs ! i) = type_code kPickup \<and> order_id (?rs ! i) = order_id (?rs ! j) \<and>
        vehicle_seq (?rs ! i) = vehicle_seq (?rs ! j)"
    using ab(1) \<open>b = j\<close> by blast
qed

lemma veh_rows_stops:
  assumes "pd_wf cm v" "same_table os (m_orders v)"
  shows "mset (stops (type_code kPickup) (schedule_rows k (m_id v) 1 (m_path v))) =
      mset (map (\<lambda>i. m_order (m_pickup (os ! i))) (m_ids (m_orders_in_vehicle v)))"
    "mset (stops (type_code kDelivery) (schedule_rows k (m_id v) 1 (m_path v))) =
      mset (map (\<lambda>i. m_order (m_delivery (os ! i))) (m_ids (m_orders_in_vehicle v)))"
proof -
  let ?xs = "m_ids (m_orders_in_vehicle v)"
  have same: "map (\<lambda>i. m_order (m_pickup (m_orders v ! i))) ?xs = map (\<lambda>i. m_order (m_pickup (os ! i))) ?xs"
    "map (\<lambda>i. m_order (m_delivery (m_orders v ! i))) ?xs = map (\<lambda>i. m_order (m_delivery (os ! i))) ?xs"
    using assms(2) pd_wfD(5)[OF assms(1)] by (auto simp: same_table_def ids_set_def)
  have f: "stops (type_code ty) (schedule_rows k (m_id v) 1 (m_path v)) = map m_order (filter (\<lambda>n. m_type n = ty) (sites v))"
    if "ty \<in> {kPickup, kDelivery}" for ty
    using that stops_schedule_rows[of "type_code ty" k "m_id v" 1 "m_path v"]
    by (auto simp: sites_def type_code_inject)
  have "mset (stops (type_code kPickup) (schedule_rows k (m_id v) 1 (m_path v))) =
      image_mset m_order (mset (filter (\<lambda>n. m_type n = kPickup) (sites v)))"
    using f[of kPickup] by (simp del: type_code.simps)
  also have "\<dots> = mset (map (\<lambda>i. m_order (m_pickup (m_orders v ! i))) ?xs)"
    unfolding pd_wf_stops(1)[OF assms(1)] by (simp add: image_mset.compositionality comp_def)
  finally show "mset (stops (type_code kPickup) (schedule_rows k (m_id v) 1 (m_path v))) =
      mset (map (\<lambda>i. m_order (m_pickup (os ! i))) ?xs)" by (simp only: same)
  have "mset (stops (type_code kDelivery) (schedule_rows k (m_id v) 1 (m_path v))) =
      image_mset m_order (mset (filter (\<lambda>n. m_type n = kDelivery) (sites v)))"
    using f[of kDelivery] by (simp del: type_code.simps)
  also have "\<dots> = mset (map (\<lambda>i. m_order (m_delivery (m_orders v ! i))) ?xs)"
    unfolding pd_wf_stops(2)[OF assms(1)] by (simp add: image_mset.compositionality comp_def)
  finally show "mset (stops (type_code kDelivery) (schedule_rows k (m_id v) 1 (m_path v))) =
      mset (map (\<lambda>i. m_order (m_delivery (os ! i))) ?xs)" by (simp only: same)
qed

text \<open>The rows of well-formed vehicles, without the log: \<open>tau()\<close> does not fail on them.\<close>

fun plain_rows :: "int \<Rightarrow> Vehicle_pickDeliver list \<Rightarrow> Schedule_rt list" where
  "plain_rows k [] = []"
| "plain_rows k (v # vs) = schedule_rows k (m_id v) 1 (m_path v) @ plain_rows (k + 1) vs"

lemma sol_rows_plain:
  assumes "vehicles_ok cm os vs"
  shows "sol_rows k vs = Inr (plain_rows k vs)"
  using assms
proof (induction vs arbitrary: k)
  case (Cons v vs)
  then obtain ts where "veh_tau v = Inr ts" using veh_tau_wf[of cm v] pd_wfD(1)[of cm v] by auto
  then show ?case using Cons by (simp add: veh_postgres_result_def)
qed simp

lemma plain_rows_stops:
  assumes "vehicles_ok cm os vs"
  shows "mset (stops (type_code kPickup) (plain_rows k vs)) = mset (map (\<lambda>i. m_order (m_pickup (os ! i))) (loads vs))"
    "mset (stops (type_code kDelivery) (plain_rows k vs)) = mset (map (\<lambda>i. m_order (m_delivery (os ! i))) (loads vs))"
  using assms
proof (induction vs arbitrary: k)
  case (Cons v vs)
  { case 1 then show ?case using Cons.IH(1) veh_rows_stops(1)[of cm v os k] by (simp del: type_code.simps) }
  { case 2 then show ?case using Cons.IH(2) veh_rows_stops(2)[of cm v os k] by (simp del: type_code.simps) }
qed (simp_all add: stops_def)

lemma plain_rows_picked_first:
  assumes "vehicles_ok cm os vs" "\<forall>i < length os. m_order (m_pickup (os ! i)) = m_order (m_delivery (os ! i))"
  shows "picked_first (plain_rows k vs)"
  using assms(1)
proof (induction vs arbitrary: k)
  case (Cons v vs)
  have "\<forall>i < length (m_orders v). m_order (m_pickup (m_orders v ! i)) = m_order (m_delivery (m_orders v ! i))"
    using assms(2) Cons.prems by (simp add: same_table_def)
  then have "picked_first (schedule_rows k (m_id v) 1 (m_path v))"
    using veh_rows_picked_first[of cm v k] Cons.prems by simp
  then show ?case using Cons by (simp add: picked_first_append)
qed (simp add: picked_first_def)

text \<open>The rows serve the orders of the table: one pickup and, later in the same vehicle, one delivery each.\<close>

definition rows_serve :: "Orders_t list \<Rightarrow> Schedule_rt list \<Rightarrow> bool" where
  "rows_serve orders rs \<longleftrightarrow>
     mset (stops (type_code kPickup) rs) = mset (map (\<lambda>q. Some (o_id q)) orders) \<and>
     mset (stops (type_code kDelivery) rs) = mset (map (\<lambda>q. Some (o_id q)) orders) \<and> picked_first rs"

lemma aggregates_type: "stop_type (aggregates s) = -2"
  by (simp add: aggregates_def)

lemma problem_rows:
  assumes "serves_once cm (table_of orders) (fleet s)" "solutions p = [s]"
  shows "\<exists>rs. problem_postgres_result p = Inr rs \<and> rows_serve orders rs"
proof -
  let ?rs = "plain_rows 1 (fleet s) @ [aggregates s]"
  have ok: "vehicles_ok cm (table_of orders) (fleet s)"
    and m: "mset (loads (fleet s)) = mset [0..<length orders]"
    using assms(1) by (simp_all add: serves_once_def)
  have img: "mset (map f (loads (fleet s))) = mset (map f [0..<length orders])" for f :: "nat \<Rightarrow> int option"
    using m by simp
  have id: "map (\<lambda>i. m_order (m_pickup (table_of orders ! i))) [0..<length orders] = map (\<lambda>q. Some (o_id q)) orders"
    "map (\<lambda>i. m_order (m_delivery (table_of orders ! i))) [0..<length orders] = map (\<lambda>q. Some (o_id q)) orders"
    by (intro nth_equalityI; simp)+
  have tail: "stops (type_code kPickup) [aggregates s] = []" "stops (type_code kDelivery) [aggregates s] = []"
    "picked_first [aggregates s]"
    by (simp_all add: stops_def picked_first_def aggregates_type)
  have "picked_first (plain_rows 1 (fleet s))"
    by (intro plain_rows_picked_first[OF ok]) simp
  then have "picked_first ?rs" using tail(3) by (rule picked_first_append)
  moreover have "mset (stops (type_code kPickup) ?rs) = mset (map (\<lambda>q. Some (o_id q)) orders)"
    unfolding stops_append tail append_Nil2 plain_rows_stops[OF ok] img id ..
  moreover have "mset (stops (type_code kDelivery) ?rs) = mset (map (\<lambda>q. Some (o_id q)) orders)"
    unfolding stops_append tail append_Nil2 plain_rows_stops[OF ok] img id ..
  moreover have "problem_postgres_result p = Inr ?rs"
    using assms(2) sol_rows_plain[OF ok] by (simp add: problem_postgres_result_def sol_postgres_result_def)
  ultimately show ?thesis unfolding rows_serve_def by blast
qed

section \<open>The driver\<close>

lemma harmless_build_fleet:
  assumes "dm_wf cm" "vehicles \<noteq> []"
  shows "harmless (build_fleet cm vehicles factor nodes)"
proof -
  have add: "harmless (add_vehicle cm row factor s e ts)" for row s e ts
    unfolding add_vehicle_def
    by (intro harmless_intros harmless_foldE harmless_construct[OF assms(1)])
      (auto simp: veh_is_ok_def Let_def intro!: harmless_intros)
  have "harmless (build_vehicle cm factor row st)" for row st
    by (cases st) (auto simp: build_vehicle_def Let_def intro!: harmless_intros add)
  then show ?thesis
    using assms(2) by (auto simp: build_fleet_def intro!: harmless_intros harmless_foldE)
qed

lemma harmless_trucks_ok: "harmless (trucks_ok err ts)"
  by (induction err ts rule: trucks_ok.induct)
    (auto simp: veh_is_ok_def Let_def intro!: harmless_intros)

lemma harmless_orders_all_ok: "dm_wf cm \<Longrightarrow> harmless (orders_all_ok cm f os)"
proof (induction os)
  case (Cons q os)
  have "harmless (order_ok_on cm q ts)" for ts
    by (induction ts) (auto simp: order_is_valid_def is_order_feasable_def
        intro!: harmless_intros harmless_compatible harmless_push_back Cons.prems)
  then show ?case using Cons by (auto simp: is_order_ok_def intro!: harmless_intros)
qed simp

lemma harmless_problem:
  assumes "dm_wf cm" "vehicles \<noteq> []"
  shows "harmless (Pgr_pickDeliver_of orders vehicles cm factor cycles initial)"
proof -
  have "harmless (fleet_set_compatibles cm os f)"
    if "build_orders cm orders [] = Inr (nodes, os)" "build_fleet cm vehicles factor nodes = Inr (nodes', f)"
      "trucks_ok [] (m_trucks f) = Inr (True, err)" "orders_all_ok cm f os = Inr True" for nodes os nodes' f err
    using prepared_fleet(2)[OF assms(1) that] by auto
  then show ?thesis
    unfolding Pgr_pickDeliver_of_def Let_def is_fleet_ok_def
    by (auto intro!: harmless_bindE harmless_build_orders harmless_build_fleet[OF assms]
        harmless_trucks_ok harmless_orders_all_ok[OF assms(1)] split del: if_split intro!: harmless_if)
qed

lemma run_problem_cases:
  assumes "dm_wf cm" "vehicles \<noteq> []"
  shows "finite_matrix cm \<Longrightarrow> \<forall>v \<in> set vehicles. clocked_row factor v \<Longrightarrow>
      harmless (run_problem orders vehicles cm factor cycles initial)"
    "run_problem orders vehicles cm factor cycles initial = Inr (Rows rs) \<Longrightarrow> rows_serve orders rs"
proof -
  let ?p = "Pgr_pickDeliver_of orders vehicles cm factor (nat (cycles mod 2 ^ 64)) initial"
  let ?r = "run_problem orders vehicles cm factor cycles initial"
  let ?T = "finite_matrix cm \<and> (\<forall>v \<in> set vehicles. clocked_row factor v)"
  consider (failed) e where "?p = Inl e" | (message) p where "?p = Inr p" "msg_error p \<noteq> []"
    | (ready) p where "?p = Inr p" "msg_error p = []"
    by (cases ?p) auto
  then have "(?T \<longrightarrow> harmless ?r) \<and> (?r = Inr (Rows rs) \<longrightarrow> rows_serve orders rs)"
  proof cases
    case (failed e)
    then show ?thesis using harmless_problem[OF assms, of orders factor "nat (cycles mod 2 ^ 64)" initial]
      by (simp add: run_problem_def)
  next
    case (message p)
    then show ?thesis by (simp add: run_problem_def)
  next
    case (ready p)
    note p = Pgr_pickDeliver_of_spec[OF assms(1) ready]
    show ?thesis
    proof (cases rule: solve_spec[OF p(1)])
      case (1 p' s)
      then obtain rs' where "problem_postgres_result p' = Inr rs'" "rows_serve orders rs'"
        using problem_rows[of "m_cost_matrix p" orders s p'] p(2) by auto
      then show ?thesis using ready 1(1) by (auto simp: run_problem_def)
    next
      case 2
      then show ?thesis using ready by (simp add: run_problem_def)
    next
      case 3
      then have "\<not> ?T" using p(6) by blast
      then show ?thesis using 3(1) ready by (simp add: run_problem_def)
    qed
  qed
  then show "finite_matrix cm \<Longrightarrow> \<forall>v \<in> set vehicles. clocked_row factor v \<Longrightarrow> harmless ?r"
    "?r = Inr (Rows rs) \<Longrightarrow> rows_serve orders rs" by blast+
qed

lemma catching_harmless: "harmless r \<Longrightarrow> \<exists>ans. catching r = Inr ans"
  by (cases r) (auto simp: catching_def split: option.splits)

lemma catching_Rows: "catching r = Inr (Rows rs) \<Longrightarrow> r = Inr (Rows rs)"
  by (auto simp: catching_def split: sum.splits option.splits)

lemma do_pickDeliver_answers:
  assumes "\<forall>c \<in> set costs. is_fin (iid_cost c)" "\<forall>v \<in> set vehicles. clocked_row factor v"
  shows "\<exists>ans. do_pickDeliver orders vehicles costs factor cycles initial = Inr ans"
proof (cases "orders = [] \<or> vehicles = [] \<or> costs = []")
  case False
  obtain cm where cm: "Dmatrix_of_rows costs = Inr cm" "dm_wf cm"
    using Dmatrix_of_rows_spec[of costs] by auto
  have "vehicles \<noteq> []" using False by simp
  from run_problem_cases(1)[OF cm(2) this Dmatrix_of_rows_finite[OF cm(1) assms(1)] assms(2)]
  show ?thesis
    using False cm(1) by (auto simp: do_pickDeliver_def intro!: catching_harmless split: option.splits)
qed (simp add: do_pickDeliver_def)

lemma do_pickDeliver_serves:
  assumes "do_pickDeliver orders vehicles costs factor cycles initial = Inr (Rows rs)"
  shows "rows_serve orders rs"
proof -
  obtain cm where cm: "Dmatrix_of_rows costs = Inr cm" "dm_wf cm"
    using Dmatrix_of_rows_spec[of costs] by auto
  have "vehicles \<noteq> []" "run_problem orders vehicles cm factor cycles initial = Inr (Rows rs)"
    using assms cm(1)
    by (auto simp: do_pickDeliver_def dest!: catching_Rows split: if_splits option.splits)
  then show ?thesis using run_problem_cases(2)[OF cm(2)] by blast
qed

section \<open>Problems that always have a solution\<close>

lemma new_truck_feasible:
  assumes "new_truck cm n v" "order_ok cm q"
  shows "is_order_feasable cm q v = Inr (fits cm v q)"
proof -
  have i: "inner cm (m_pickup q)" "inner cm (m_delivery q)"
    using assms(2) by (auto simp: order_ok_def inner_def node_kinds)
  obtain s e where p: "sites v = [s, e]" "length (m_path v) = 2"
    using assms(1) by (auto simp: new_truck_def sites_def length_Suc_conv numeral_2_eq_2)
  have "with_order q (sites v) 1 2 = [hd (sites v), site (m_pickup q), site (m_delivery q), last (sites v)]"
    by (simp add: with_order_def p insert_at_def)
  moreover have "veh_wf cm v" "\<not> has_order v q" using assms(1) by (auto simp: new_truck_def has_order_def)
  note this(1) i this(2)
  from pd_push_back_veh[OF this] have "pd_push_back cm q v = Inr (carry q (via cm v (with_order q (sites v) 1 2)))"
    using p(2) by (simp add: numeral_2_eq_2)
  ultimately show ?thesis by (simp add: is_order_feasable_def fits_def)
qed

text \<open>If every order fits alone on every vehicle, the pushing kinds find a solution.\<close>

definition all_alone :: "Dmatrix \<Rightarrow> PD_Orders \<Rightarrow> Fleet \<Rightarrow> bool" where
  "all_alone cm os f \<longleftrightarrow> (\<forall>q \<in> set os. \<forall>v \<in> set (m_trucks f).
     order_is_valid cm q (veh_speed v) = Inr True \<and> is_order_feasable cm q v = Inr True)"

lemma Pgr_pickDeliver_of_accepts:
  assumes "dm_wf cm" "orders \<noteq> []" "vehicles \<noteq> []" "build_orders cm orders [] = Inr (nodes, os)"
    and "build_fleet cm vehicles factor nodes = Inr (nodes', f)" "is_fleet_ok [] f = Inr (True, err)"
    and "orders_all_ok cm f os = Inr True" "0 < initial" "initial \<le> kind_code OneDepot"
  obtains p where "Pgr_pickDeliver_of orders vehicles cm factor cycles initial = Inr p" "msg_error p = []"
    "problem_ok p" "p_orders p = table_of orders" "m_initial_id p = initial" "m_cost_matrix p = cm"
    "\<forall>v' \<in> set (m_trucks (p_trucks p)). \<exists>v \<in> set (m_trucks f). fits cm v' = fits cm v \<and> clock v' = clock v"
proof -
  note os = build_orders_Inr[OF assms(4)]
  note tr = build_fleet_trucks[OF assms(1,5) os(2)]
  have fo: "trucks_ok [] (m_trucks f) = Inr (True, err)" using assms(6) by (simp add: is_fleet_ok_def)
  obtain f' where f': "fleet_set_compatibles cm os f = Inr f'"
      "\<forall>v' \<in> set (m_trucks f'). \<exists>v \<in> set (m_trucks f). fits cm v' = fits cm v \<and> clock v' = clock v"
    using prepared_fleet(2)[OF assms(1,4,5) fo assms(7)] by blast
  obtain r rest where rows: "orders = r # rest" using assms(2) by (cases orders) auto
  have cm: "\<not> dm_empty cm" using os(3) rows by (auto simp: reachable_row_def dm_empty_def)
  have nodes: "nodes' \<noteq> []" using tr(4) rows by auto
  have "err = []" using trucks_ok_Inr[OF fo] by simp
  then have "Pgr_pickDeliver_of orders vehicles cm factor cycles initial =
      Inr \<lparr>m_initial_id = initial, m_max_cycles = cycles, m_nodes = nodes', m_cost_matrix = cm,
        p_orders = os, p_trucks = f', solutions = [], msg_error = []\<rparr>" (is "_ = Inr ?p")
    using assms(2-9) f'(1) cm nodes by (simp add: Pgr_pickDeliver_of_def Let_def)
  moreover from Pgr_pickDeliver_of_spec(1)[OF assms(1) this] have "problem_ok ?p" by simp
  ultimately show ?thesis using that[of ?p] f'(2) os(1) by simp
qed

lemma all_alone_ok:
  assumes "all_alone cm os f" "m_trucks f \<noteq> []"
  shows "orders_all_ok cm f os = Inr True"
proof -
  obtain v vs where vs: "m_trucks f = v # vs" using assms(2) by (cases "m_trucks f") auto
  have "orders_all_ok cm f qs = Inr True" if "set qs \<subseteq> set os" for qs
    using that assms(1) by (induction qs) (auto simp: is_order_ok_def vs all_alone_def)
  then show ?thesis by simp
qed

lemma run_problem_solves:
  assumes "dm_wf cm" "orders \<noteq> []" "vehicles \<noteq> []" "build_orders cm orders [] = Inr (nodes, os)"
    and "build_fleet cm vehicles factor nodes = Inr (nodes', f)" "is_fleet_ok [] f = Inr (True, err)"
    and "all_alone cm os f" "initial \<in> {kind_code OnePerTruck, kind_code FrontTruck, kind_code BackTruck}"
  shows "(\<exists>rs. run_problem orders vehicles cm factor cycles initial = Inr (Rows rs)) \<or>
    run_problem orders vehicles cm factor cycles initial = Inl UndefinedBehaviour \<and>
      \<not> (\<forall>v \<in> set (m_trucks f). timed cm (clock v))"
proof -
  note os = build_orders_Inr[OF assms(4)]
  note tr = build_fleet_trucks[OF assms(1,5) os(2)]
  have fo: "trucks_ok [] (m_trucks f) = Inr (True, err)" using assms(6) by (simp add: is_fleet_ok_def)
  note oo = all_alone_ok[OF assms(7) tr(3)]
  have "0 < initial" "initial \<le> kind_code OneDepot" using assms(8) by auto
  then obtain p where p: "Pgr_pickDeliver_of orders vehicles cm factor (nat (cycles mod 2 ^ 64)) initial = Inr p"
      "msg_error p = []" "problem_ok p" "p_orders p = table_of orders" "m_initial_id p = initial" "m_cost_matrix p = cm"
      "\<forall>v' \<in> set (m_trucks (p_trucks p)). \<exists>v \<in> set (m_trucks f). fits cm v' = fits cm v \<and> clock v' = clock v"
    using Pgr_pickDeliver_of_accepts[OF assms(1-6) oo] by blast
  have "fits cm v (os ! i)" if "i < length os" "v \<in> set (m_trucks f)" for v i
  proof -
    have "order_ok cm (os ! i)" "os ! i \<in> set os"
      using prepared_fleet(1)[OF assms(1,4,5) fo oo] that(1) by (simp_all add: orders_ok_def)
    then show ?thesis
      using new_truck_feasible[of cm _ v "os ! i"] tr(1) assms(7) that(2) by (fastforce simp: all_alone_def)
  qed
  then have "all_fit (p_orders p) (p_trucks p)"
    using p(3,4,6,7) os(1) by (fastforce simp: all_fit_def problem_ok_def fleet_ok_def truck_ok_def)
  then have fit: "m_initial_id p \<in> {kind_code OnePerTruck, kind_code FrontTruck, kind_code BackTruck} \<and>
      all_fit (p_orders p) (p_trucks p)"
    using assms(8) p(5) by simp
  show ?thesis
  proof (cases rule: solve_spec[OF p(3)])
    case (1 p' s)
    then obtain rs where "problem_postgres_result p' = Inr rs"
      using problem_rows[of cm orders s p'] p(4,6) by auto
    then show ?thesis using p(1,2) 1(1) by (simp add: run_problem_def)
  next
    case 2
    then show ?thesis using fit by blast
  next
    case 3
    have "problem_timed p" if "\<forall>v \<in> set (m_trucks f). timed cm (clock v)"
      using that p(6,7) by (fastforce simp: problem_timed_def)
    then show ?thesis using 3 p(1,2) by (auto simp: run_problem_def)
  qed
qed

text \<open>
  An accepted problem is solved, or the one assertion fails that every round places an order; no
  other assertion of the solver and the optimiser can fail.
\<close>

lemma run_problem_accepted:
  assumes "dm_wf cm" "Pgr_pickDeliver_of orders vehicles cm factor (nat (cycles mod 2 ^ 64)) initial = Inr p"
    "msg_error p = []" "finite_matrix cm" "\<forall>v \<in> set vehicles. clocked_row factor v"
  shows "(\<exists>rs. run_problem orders vehicles cm factor cycles initial = Inr (Rows rs) \<and> rows_serve orders rs) \<or>
    initial_of p initial = Inl AssertFailed \<and>
      \<not> (initial \<in> {kind_code OnePerTruck, kind_code FrontTruck, kind_code BackTruck} \<and>
        all_fit (p_orders p) (p_trucks p))"
proof -
  note p = Pgr_pickDeliver_of_spec[OF assms(1-3)]
  show ?thesis
  proof (cases rule: solve_spec[OF p(1)])
    case (1 p' s)
    then obtain rs where "problem_postgres_result p' = Inr rs" "rows_serve orders rs"
      using problem_rows[of "m_cost_matrix p" orders s p'] p(2) by auto
    then show ?thesis using 1(1) assms(2,3) by (simp add: run_problem_def)
  next
    case 2
    then show ?thesis using p(4) by simp
  next
    case 3
    then show ?thesis using p(6)[OF assms(4,5)] by blast
  qed
qed

end
