(* ===== verification/Euclidean_sites.thy ===== *)
theory Euclidean_sites
  imports Pickup_drivers Problems
begin

text \<open>
  The euclidean driver: every pair of sites is as far apart in its matrix as their coordinates are,
  and its answers keep the promises of the planner.
\<close>

section \<open>The matrix of the distances\<close>

definition iid_row :: "int \<Rightarrow> int \<Rightarrow> double \<Rightarrow> IID_t_rt" where
  "iid_row i j c = \<lparr>from_vid = i, to_vid = j, iid_cost = c\<rparr>"

text \<open>The assignments of the inner loop, as rows of a matrix.\<close>

definition distance_rows :: "(point \<times> int) \<times> (point \<times> int) \<Rightarrow> IID_t_rt list" where
  "distance_rows = (\<lambda>(p, q). let d = get_distance (fst p) (fst q) in
     [iid_row (snd p) (snd q) d, iid_row (snd q) (snd p) d])"

lemma foldE_map: "foldE f (map g ys) = foldE (\<lambda>y. f (g y)) ys"
proof (induction ys)
  case (Cons y ys)
  then show ?case by (intro ext) simp
qed (simp add: fun_eq_iff)

lemma foldE_nested: "foldE (\<lambda>x. foldE (f x) ys) xs = foldE (\<lambda>(x, y). f x y) (concat (map (\<lambda>x. map (Pair x) ys) xs))"
proof (induction xs)
  case (Cons x xs)
  then show ?case by (intro ext) (simp add: foldE_append foldE_map)
qed (simp add: fun_eq_iff)

lemma put_euclidean_rows:
  assumes "dm_wf m" "dm_has_id m (snd p)" "dm_has_id m (snd q)"
  shows "put_euclidean p q m = foldE put_row (distance_rows (p, q)) m"
proof -
  obtain i j where ij: "get_index m (snd p) = Inr i" "get_index m (snd q) = Inr j"
    using assms get_index_total by blast
  have lt: "i < length (dm_ids m)" "j < length (dm_ids m)" using ij by (auto dest: get_index_Inr)
  let ?d = "get_distance (fst p) (fst q)"
  obtain m1 where put: "dm_put i j ?d m = Inr m1" "dm_wf m1" "dm_ids m1 = dm_ids m"
      "\<forall>a b. a < length (dm_ids m) \<longrightarrow> b < length (dm_ids m) \<longrightarrow>
        dm_at m1 a b = Inr (if a = i \<and> b = j then ?d else dm_costs m ! a ! b)"
    using dm_put_total[OF assms(1) lt, of ?d] by (elim exE conjE)
  have m1: "dm_put i j ?d m = Inr m1" "dm_wf m1" "dm_ids m1 = dm_ids m" "dm_at m1 i j = Inr ?d"
    using put lt by simp_all
  obtain m2 where m2: "dm_put j i ?d m1 = Inr m2"
    using dm_put_total[OF m1(2), of j i ?d] lt m1(3) by auto
  have ij1: "get_index m1 (snd p) = Inr i" "get_index m1 (snd q) = Inr j"
    using ij get_index_cong[OF m1(3)] by simp_all
  have "put_row (iid_row (snd p) (snd q) ?d) m = Inr m1" "put_row (iid_row (snd q) (snd p) ?d) m1 = Inr m2"
    using ij ij1 m1(1) m2 by (simp_all add: put_row_def iid_row_def)
  moreover have "put_euclidean p q m = Inr m2"
    using ij m1(1,4) m2 by (simp add: put_euclidean_def)
  ultimately show ?thesis by (simp add: distance_rows_def Let_def)
qed

lemma put_euclidean_all:
  assumes "dm_wf m" "\<forall>(p, q) \<in> set ps. dm_has_id m (snd p) \<and> dm_has_id m (snd q)"
  shows "foldE (\<lambda>(p, q). put_euclidean p q) ps m = foldE put_row (concat (map distance_rows ps)) m"
  using assms
proof (induction ps arbitrary: m)
  case (Cons pq ps)
  obtain p q where pq: "pq = (p, q)" by (cases pq)
  have ids: "dm_has_id m (snd p)" "dm_has_id m (snd q)" using Cons.prems(2) by (simp_all add: pq)
  have rows: "\<forall>r \<in> set (distance_rows (p, q)). dm_has_id m (from_vid r) \<and> dm_has_id m (to_vid r)"
    using ids by (simp add: distance_rows_def iid_row_def Let_def)
  obtain m1 where m1: "foldE put_row (distance_rows (p, q)) m = Inr m1" "dm_wf m1" "dm_ids m1 = dm_ids m"
    using foldE_put_row[OF Cons.prems(1) rows] by blast
  have "\<forall>(p, q) \<in> set ps. dm_has_id m1 (snd p) \<and> dm_has_id m1 (snd q)"
    using Cons.prems(2) m1(3) by auto
  from Cons.IH[OF m1(2) this] show ?case
    using put_euclidean_rows[OF Cons.prems(1) ids] m1(1) by (simp add: pq foldE_append)
qed simp

lemma Dmatrix_of_points_spec:
  defines "rows pts \<equiv> concat (map distance_rows (concat (map (\<lambda>p. map (Pair p) pts) pts)))"
  shows "\<exists>m. Dmatrix_of_points pts = Inr m \<and> dm_wf m \<and> dm_ids m = map snd pts \<and>
    (\<forall>i \<in> snd ` set pts. \<forall>j \<in> snd ` set pts. dm_distance m i j =
      (if i = j then Inr 0 else case last_cost (rows pts) i j of Some c \<Rightarrow> Inr c | None \<Rightarrow> Inr dbl_max))"
proof -
  let ?m0 = "square_of (map snd pts)" and ?ps = "concat (map (\<lambda>p. map (Pair p) pts) pts)"
  have ids: "dm_ids ?m0 = map snd pts" by (simp add: square_of_def)
  have all: "\<forall>(p, q) \<in> set ?ps. dm_has_id ?m0 (snd p) \<and> dm_has_id ?m0 (snd q)" using ids by auto
  have has_rows: "\<forall>r \<in> set (rows pts). dm_has_id ?m0 (from_vid r) \<and> dm_has_id ?m0 (to_vid r)"
    using ids by (force simp: rows_def distance_rows_def iid_row_def Let_def)
  obtain m1 where m1: "foldE put_row (rows pts) ?m0 = Inr m1" "dm_wf m1" "dm_ids m1 = dm_ids ?m0"
      "\<And>i j. dm_has_id ?m0 i \<Longrightarrow> dm_has_id ?m0 j \<Longrightarrow> dm_distance m1 i j =
        (case last_cost (rows pts) i j of Some c \<Rightarrow> Inr c | None \<Rightarrow> dm_distance ?m0 i j)"
    using foldE_put_row[OF dm_wf_square_of has_rows] by blast
  obtain m2 where m2: "zero_diagonal m1 = Inr m2" "dm_wf m2" "dm_ids m2 = dm_ids m1"
      "\<And>i j. dm_has_id m1 i \<Longrightarrow> dm_has_id m1 j \<Longrightarrow> dm_distance m2 i j = (if i = j then Inr 0 else dm_distance m1 i j)"
    using zero_diagonal_total[OF m1(2)] by blast
  have "Dmatrix_of_points pts = Inr m2"
    using put_euclidean_all[OF dm_wf_square_of all] m1(1) m2(1)
    by (simp add: Dmatrix_of_points_def foldE_nested rows_def)
  moreover have "dm_distance m2 i j =
      (if i = j then Inr 0 else case last_cost (rows pts) i j of Some c \<Rightarrow> Inr c | None \<Rightarrow> Inr dbl_max)"
    if "i \<in> snd ` set pts" "j \<in> snd ` set pts" for i j
  proof -
    have has: "dm_has_id ?m0 i" "dm_has_id ?m0 j" "dm_has_id m1 i" "dm_has_id m1 j" using that ids m1(3) by auto
    have "dm_distance ?m0 i j = Inr dbl_max" using that by (intro square_of_distance) auto
    then show ?thesis unfolding m2(4)[OF has(3,4)] m1(4)[OF has(1,2)] by (simp split: option.split)
  qed
  moreover have "dm_ids m2 = map snd pts" using m2(3) m1(3) ids by simp
  ultimately show ?thesis using m2(2) by (intro exI[of _ m2] conjI ballI) assumption+
qed

text \<open>When every row of a pair has the same cost, the last one has it.\<close>

lemma last_cost_all:
  assumes "\<exists>r \<in> set rs. from_vid r = i \<and> to_vid r = j" "\<forall>r \<in> set rs. from_vid r = i \<and> to_vid r = j \<longrightarrow> iid_cost r = c"
  shows "last_cost rs i j = Some c"
proof -
  have none: "last_cost rs i j = None \<longleftrightarrow> \<not> (\<exists>r \<in> set rs. from_vid r = i \<and> to_vid r = j)" for rs
    by (induction rs) (auto split: option.splits)
  show ?thesis using assms
  proof (induction rs)
    case (Cons r rs)
    then show ?case using none[of rs] by (cases "last_cost rs i j") auto
  qed simp
qed

definition finite_pt :: "point \<Rightarrow> bool" where
  "finite_pt p \<longleftrightarrow> (\<exists>a b. p = (Fin a, Fin b))"

lemma get_distance_finite:
  "get_distance (Fin a, Fin b) (Fin c, Fin d) = Fin (sqrt ((a - c)\<^sup>2 + (b - d)\<^sup>2))"
  by (simp add: get_distance_def minus_double_def power2_eq_square Let_def add_nonneg_nonneg not_less)

lemma get_distance_commute: "finite_pt p \<Longrightarrow> finite_pt q \<Longrightarrow> get_distance p q = get_distance q p"
  by (auto simp: finite_pt_def get_distance_finite power2_commute)

lemma distances:
  assumes "distinct (map snd pts)" "\<forall>p \<in> set pts. finite_pt (fst p)" "Dmatrix_of_points pts = Inr m"
    and "(P, a) \<in> set pts" "(Q, b) \<in> set pts"
  shows "dm_distance m a b = Inr (get_distance P Q)"
proof -
  let ?rows = "concat (map distance_rows (concat (map (\<lambda>p. map (Pair p) pts) pts)))"
  have inj: "x = y" if "(x, i) \<in> set pts" "(y, i) \<in> set pts" for x y i
    using inj_onD[of snd "set pts" "(x, i)" "(y, i)"] assms(1) that by (simp add: distinct_map)
  have fin: "finite_pt x" if "(x, i) \<in> set pts" for x i using assms(2) that by auto
  have rows: "set ?rows = {r. \<exists>x i y j. (x, i) \<in> set pts \<and> (y, j) \<in> set pts \<and>
      (r = iid_row i j (get_distance x y) \<or> r = iid_row j i (get_distance x y))}"
    by (auto simp: distance_rows_def Let_def) force+
  have "last_cost ?rows a b = Some (get_distance P Q)"
  proof (rule last_cost_all)
    show "\<exists>r \<in> set ?rows. from_vid r = a \<and> to_vid r = b"
    proof (rule bexI[of _ "iid_row a b (get_distance P Q)"])
      show "iid_row a b (get_distance P Q) \<in> set ?rows" unfolding rows using assms(4,5) by blast
    qed (simp add: iid_row_def)
    show "\<forall>r \<in> set ?rows. from_vid r = a \<and> to_vid r = b \<longrightarrow> iid_cost r = get_distance P Q"
      unfolding rows using inj[OF _ assms(4)] inj[OF _ assms(5)] fin get_distance_commute
      by (auto simp: iid_row_def)
  qed
  moreover have "get_distance P Q = 0" if "a = b"
    using inj[OF assms(4), of Q] assms(5) that fin[OF assms(4)] by (auto simp: finite_pt_def get_distance_finite zero_double_def)
  ultimately show ?thesis
    using Dmatrix_of_points_spec[of pts] assms(3-5) by force
qed

section \<open>The numbers of the sites\<close>

lemma pt_less_finite:
  "finite_pt p \<Longrightarrow> finite_pt q \<Longrightarrow> \<not> pt_less p q \<and> \<not> pt_less q p \<longleftrightarrow> p = q"
  by (auto simp: finite_pt_def pt_less_def)

abbreviation finite_keys :: "(point \<times> int) list \<Rightarrow> bool" where
  "finite_keys m \<equiv> \<forall>e \<in> set m. finite_pt (fst e)"

lemma site_put_keys: "finite_pt k \<Longrightarrow> finite_keys m \<Longrightarrow>
    finite_keys (site_put k v m) \<and> fst ` set (site_put k v m) = insert k (fst ` set m)"
proof (induction m)
  case (Cons e m)
  obtain k' v' where e: "e = (k', v')" by (cases e)
  show ?case using Cons pt_less_finite[of k k'] by (auto simp: e)
qed simp

lemma site_find_key:
  "finite_pt k \<Longrightarrow> finite_keys m \<Longrightarrow> k \<in> fst ` set m \<Longrightarrow> \<exists>a. site_find k m = Some a \<and> (k, a) \<in> set m"
proof (induction m)
  case (Cons e m)
  obtain k' v' where e: "e = (k', v')" by (cases e)
  show ?case using Cons pt_less_finite[of k k'] by (auto simp: e)
qed simp

definition points_of :: "Orders_t list \<Rightarrow> Vehicle_t list \<Rightarrow> point set" where
  "points_of orders vehicles =
     pick_pt ` set orders \<union> deliver_pt ` set orders \<union> start_pt ` set vehicles \<union> end_pt ` set vehicles"

lemma put_all_keys:
  assumes "\<forall>x \<in> set xs. finite_pt (f x) \<and> finite_pt (g x)" "finite_keys m"
  shows "finite_keys (foldl (\<lambda>m x. site_put (g x) (b x) (site_put (f x) (a x) m)) m xs) \<and>
    fst ` set (foldl (\<lambda>m x. site_put (g x) (b x) (site_put (f x) (a x) m)) m xs) = fst ` set m \<union> f ` set xs \<union> g ` set xs"
  using assms
proof (induction xs arbitrary: m)
  case (Cons x xs)
  have x: "finite_pt (f x)" "finite_pt (g x)" using Cons.prems(1) by simp_all
  note k1 = site_put_keys[OF x(1) Cons.prems(2), of "a x"]
  note k2 = site_put_keys[OF x(2) conjunct1[OF k1], of "b x"]
  show ?case using Cons.IH[OF _ conjunct1[OF k2]] Cons.prems(1) k1 k2 by auto
qed simp

lemma sites_of_keys:
  assumes "\<forall>p \<in> points_of orders vehicles. finite_pt p"
  shows "finite_keys (sites_of orders vehicles) \<and> fst ` set (sites_of orders vehicles) = points_of orders vehicles"
proof -
  let ?m = "foldl (\<lambda>m q. site_put (deliver_pt q) (deliver_node_id q) (site_put (pick_pt q) (pick_node_id q) m)) [] orders"
  have o: "finite_keys ?m \<and> fst ` set ?m = pick_pt ` set orders \<union> deliver_pt ` set orders"
    using put_all_keys[of orders pick_pt deliver_pt "[]" deliver_node_id pick_node_id] assms by (auto simp: points_of_def)
  have "\<forall>v \<in> set vehicles. finite_pt (start_pt v) \<and> finite_pt (end_pt v)" using assms by (auto simp: points_of_def)
  from put_all_keys[OF this conjunct1[OF o], of end_node_id start_node_id] show ?thesis
    using o by (auto simp: sites_of_def points_of_def)
qed

lemma number_sites_spec: "map fst (number_sites m) = map fst m \<and> distinct (map snd (number_sites m))"
proof -
  let ?ids = "foldl (\<lambda>s e. ids_add s (snd e)) ids_none m"
  have "ids_inv (foldl (\<lambda>s e. ids_add s (snd e)) s m) \<and>
      ids_set (foldl (\<lambda>s e. ids_add s (snd e)) s m) = ids_set s \<union> snd ` set m" if "ids_inv s" for s
    using that by (induction m arbitrary: s) (auto simp: ids_inv_ops ids_set_ops)
  from this[OF ids_inv_ops(1)] have "ids_inv ?ids" "ids_set ?ids = snd ` set m" by (simp_all add: ids_set_ops)
  then have size: "ids_size ?ids = card (set (map snd m))" by (simp add: ids_size_card)
  show ?thesis
  proof (cases "ids_size ?ids = length m")
    case True
    then show ?thesis using size card_distinct[of "map snd m"] by (simp add: number_sites_def)
  next
    case False
    then show ?thesis by (simp add: number_sites_def Let_def distinct_map)
  qed
qed

text \<open>A site and the number its order or vehicle carries for it.\<close>

definition places :: "Orders_t list \<Rightarrow> Vehicle_t list \<Rightarrow> (point \<times> int) set" where
  "places orders vehicles =
     (\<lambda>q. (pick_pt q, pick_node_id q)) ` set orders \<union> (\<lambda>q. (deliver_pt q, deliver_node_id q)) ` set orders \<union>
     (\<lambda>v. (start_pt v, start_node_id v)) ` set vehicles \<union> (\<lambda>v. (end_pt v, end_node_id v)) ` set vehicles"

lemma place_order_spec:
  assumes "finite_keys m" "finite_pt (pick_pt q)" "finite_pt (deliver_pt q)" "pick_pt q \<in> fst ` set m" "deliver_pt q \<in> fst ` set m"
  shows "\<exists>a b. place_order q m = (q\<lparr>pick_node_id := a, deliver_node_id := b\<rparr>, m) \<and> (pick_pt q, a) \<in> set m \<and> (deliver_pt q, b) \<in> set m"
proof -
  obtain a b where "site_find (pick_pt q) m = Some a" "(pick_pt q, a) \<in> set m" "site_find (deliver_pt q) m = Some b" "(deliver_pt q, b) \<in> set m"
    using site_find_key[OF assms(2,1,4)] site_find_key[OF assms(3,1,5)] by blast
  then show ?thesis by (intro exI[of _ a] exI[of _ b]) (simp add: place_order_def site_ref_def)
qed

lemma place_vehicle_spec:
  assumes "finite_keys m" "finite_pt (start_pt v)" "finite_pt (end_pt v)" "start_pt v \<in> fst ` set m" "end_pt v \<in> fst ` set m"
  shows "\<exists>a b. place_vehicle v m = (v\<lparr>start_node_id := a, end_node_id := b\<rparr>, m) \<and> (start_pt v, a) \<in> set m \<and> (end_pt v, b) \<in> set m"
proof -
  obtain a b where "site_find (start_pt v) m = Some a" "(start_pt v, a) \<in> set m" "site_find (end_pt v) m = Some b" "(end_pt v, b) \<in> set m"
    using site_find_key[OF assms(2,1,4)] site_find_key[OF assms(3,1,5)] by blast
  then show ?thesis by (intro exI[of _ a] exI[of _ b]) (simp add: place_vehicle_def site_ref_def)
qed

lemma place_all_spec:
  assumes "\<forall>x \<in> set xs. \<exists>y. f x m = (y, m) \<and> R x y"
  shows "\<exists>ys. place_all f xs m = (ys, m) \<and> list_all2 R xs ys"
  using assms by (induction xs) (auto simp: Let_def)

text \<open>Only the numbers of the nodes are changed, and they are those of the sites.\<close>

definition same_order :: "Orders_t \<Rightarrow> Orders_t \<Rightarrow> bool" where
  "same_order q q' \<longleftrightarrow> q' = q\<lparr>pick_node_id := pick_node_id q', deliver_node_id := deliver_node_id q'\<rparr>"

definition same_vehicle :: "Vehicle_t \<Rightarrow> Vehicle_t \<Rightarrow> bool" where
  "same_vehicle v v' \<longleftrightarrow> v' = v\<lparr>start_node_id := start_node_id v', end_node_id := end_node_id v'\<rparr>"

lemma euclidean_nodes_spec:
  assumes "\<forall>p \<in> points_of orders vehicles. finite_pt p"
  shows "\<exists>os vs m. euclidean_nodes orders vehicles = (os, vs, m) \<and> list_all2 same_order orders os \<and>
    list_all2 same_vehicle vehicles vs \<and> finite_keys m \<and> distinct (map snd m) \<and> places os vs \<subseteq> set m"
proof -
  let ?m = "number_sites (sites_of orders vehicles)"
  note k = sites_of_keys[OF assms] and n = number_sites_spec[of "sites_of orders vehicles"]
  have keys: "fst ` set ?m = points_of orders vehicles" using k n by (metis list.set_map)
  then have fin: "finite_keys ?m" using assms by blast
  let ?O = "\<lambda>q q'. same_order q q' \<and> (pick_pt q', pick_node_id q') \<in> set ?m \<and> (deliver_pt q', deliver_node_id q') \<in> set ?m"
  let ?V = "\<lambda>v v'. same_vehicle v v' \<and> (start_pt v', start_node_id v') \<in> set ?m \<and> (end_pt v', end_node_id v') \<in> set ?m"
  have "\<forall>q \<in> set orders. \<exists>q'. place_order q ?m = (q', ?m) \<and> ?O q q'"
  proof
    fix q assume q: "q \<in> set orders"
    then have "pick_pt q \<in> points_of orders vehicles" "deliver_pt q \<in> points_of orders vehicles" by (auto simp: points_of_def)
    then obtain a b where "place_order q ?m = (q\<lparr>pick_node_id := a, deliver_node_id := b\<rparr>, ?m)"
        "(pick_pt q, a) \<in> set ?m" "(deliver_pt q, b) \<in> set ?m"
      using place_order_spec[OF fin, of q] assms keys by auto
    then show "\<exists>q'. place_order q ?m = (q', ?m) \<and> ?O q q'"
      by (intro exI[of _ "q\<lparr>pick_node_id := a, deliver_node_id := b\<rparr>"]) (simp add: same_order_def pick_pt_def deliver_pt_def)
  qed
  from place_all_spec[where R = ?O and f = place_order and m = ?m, OF this] obtain os where os: "place_all place_order orders ?m = (os, ?m)" "list_all2 ?O orders os" by blast
  have "\<forall>v \<in> set vehicles. \<exists>v'. place_vehicle v ?m = (v', ?m) \<and> ?V v v'"
  proof
    fix v assume v: "v \<in> set vehicles"
    then have "start_pt v \<in> points_of orders vehicles" "end_pt v \<in> points_of orders vehicles" by (auto simp: points_of_def)
    then obtain a b where "place_vehicle v ?m = (v\<lparr>start_node_id := a, end_node_id := b\<rparr>, ?m)"
        "(start_pt v, a) \<in> set ?m" "(end_pt v, b) \<in> set ?m"
      using place_vehicle_spec[OF fin, of v] assms keys by auto
    then show "\<exists>v'. place_vehicle v ?m = (v', ?m) \<and> ?V v v'"
      by (intro exI[of _ "v\<lparr>start_node_id := a, end_node_id := b\<rparr>"]) (simp add: same_vehicle_def start_pt_def end_pt_def)
  qed
  from place_all_spec[where R = ?V and f = place_vehicle and m = ?m, OF this] obtain vs where vs: "place_all place_vehicle vehicles ?m = (vs, ?m)" "list_all2 ?V vehicles vs" by blast
  have "places os vs \<subseteq> set ?m"
    using os(2) vs(2) by (force simp: places_def list_all2_conv_all_nth in_set_conv_nth)
  moreover have "list_all2 same_order orders os" using os(2) by (rule list_all2_mono) simp
  moreover have "list_all2 same_vehicle vehicles vs" using vs(2) by (rule list_all2_mono) simp
  moreover have "euclidean_nodes orders vehicles = (os, vs, ?m)" using os(1) vs(1) by (simp add: euclidean_nodes_def)
  ultimately show ?thesis using fin conjunct2[OF n] by (intro exI conjI) assumption+
qed

section \<open>Answers of the drivers\<close>

lemma place_all_length: "length (fst (place_all f xs m)) = length xs"
  by (induction xs arbitrary: m) (auto simp: split_beta Let_def)

lemma place_all_map:
  assumes "\<And>x m. h (fst (f x m)) = h x"
  shows "map h (fst (place_all f xs m)) = map h xs"
  using assms by (induction xs arbitrary: m) (auto simp: split_beta Let_def)

lemma euclidean_nodes_fields:
  assumes "euclidean_nodes orders vehicles = (os, vs, m)"
  shows "map o_id os = map o_id orders" "length vs = length vehicles"
proof -
  let ?m = "number_sites (sites_of orders vehicles)"
  have p: "os = fst (place_all place_order orders ?m)"
      "vs = fst (place_all place_vehicle vehicles (snd (place_all place_order orders ?m)))"
    using assms by (auto simp: euclidean_nodes_def split_beta Let_def)
  show "map o_id os = map o_id orders" unfolding p by (rule place_all_map) (simp add: place_order_def split_beta Let_def)
  show "length vs = length vehicles" unfolding p by (rule place_all_length)
qed

lemma rows_serve_ids: "map o_id os = map o_id os' \<Longrightarrow> rows_serve os rs = rows_serve os' rs"
proof -
  assume "map o_id os = map o_id os'"
  then have "map Some (map o_id os) = map Some (map o_id os')" by simp
  then show ?thesis by (simp add: rows_serve_def comp_def)
qed

lemma keys_ordered:
  assumes "\<forall>p \<in> points_of orders vehicles. finite_pt p"
  shows "strict_weak_on (set (site_keys orders vehicles)) pt_less"
proof -
  have less: "pt_less (Fin a, Fin b) (Fin c, Fin d) = (a < c \<or> a = c \<and> b < d)" for a b c d
    by (auto simp: pt_less_def)
  have "set (site_keys orders vehicles) \<subseteq> {p. finite_pt p}"
    using assms by (auto simp: site_keys_def points_of_def)
  moreover have "strict_weak_on {p. finite_pt p} pt_less"
    unfolding strict_weak_on_def by (auto simp: finite_pt_def less)
  ultimately show ?thesis by (rule strict_weak_on_subset[rotated])
qed

lemma put_euclidean_finite:
  assumes "put_euclidean p q m = Inr m'" "finite_matrix m" "finite_pt (fst p)" "finite_pt (fst q)"
  shows "finite_matrix m'"
proof -
  obtain i j m1 c where m1: "dm_put i j (get_distance (fst p) (fst q)) m = Inr m1"
      "dm_at m1 i j = Inr c" "dm_put j i c m1 = Inr m'"
    using assms(1) by (auto simp: put_euclidean_def)
  have "is_fin (get_distance (fst p) (fst q))"
    using assms(3,4) by (auto simp: finite_pt_def get_distance_finite is_fin_def)
  with m1(1) assms(2) have f1: "finite_matrix m1" by (rule dm_put_finite)
  then have "is_fin c"
    using m1(2) by (auto simp: finite_matrix_def dm_at_def list_all_length split: if_splits)
  with m1(3) f1 show ?thesis by (rule dm_put_finite)
qed

lemma Dmatrix_of_points_finite:
  assumes "Dmatrix_of_points m = Inr cm" "finite_keys m"
  shows "finite_matrix cm"
proof -
  obtain m1 where m1: "foldE (\<lambda>p. foldE (put_euclidean p) m) m (square_of (map snd m)) = Inr m1" "zero_diagonal m1 = Inr cm"
    using assms(1) by (auto simp: Dmatrix_of_points_def)
  have inner: "finite_matrix y" if "foldE (put_euclidean p) m x = Inr y" "finite_matrix x" "p \<in> set m" for p x y
    by (rule foldE_invariant[OF that(1), where I = finite_matrix])
      (use that(2,3) assms(2) put_euclidean_finite in blast)+
  have "finite_matrix m1"
    by (rule foldE_invariant[OF m1(1), where I = finite_matrix]) (use inner square_of_finite in blast)+
  then show ?thesis by (rule zero_diagonal_finite[OF m1(2)])
qed

lemma euclidean_cases:
  assumes "vehicles \<noteq> []"
  shows "\<forall>p \<in> points_of orders vehicles. finite_pt p \<Longrightarrow> \<forall>v \<in> set vehicles. clocked_row factor v \<Longrightarrow>
      \<exists>ans. do_pickDeliverEuclidean orders vehicles factor cycles initial = Inr ans"
    and "do_pickDeliverEuclidean orders vehicles factor cycles initial = Inr (Rows rs) \<Longrightarrow> rows_serve orders rs"
proof -
  obtain os vs m where e: "euclidean_nodes orders vehicles = (os, vs, m)" by (cases "euclidean_nodes orders vehicles") auto
  note f = euclidean_nodes_fields[OF e]
  have vs: "vs \<noteq> []" using f(2) assms by auto
  obtain cm where cm: "Dmatrix_of_points m = Inr cm" "dm_wf cm" using Dmatrix_of_points_spec[of m] by blast
  let ?r = "run_problem os vs cm factor cycles initial"
  show "\<exists>ans. do_pickDeliverEuclidean orders vehicles factor cycles initial = Inr ans"
    if a: "\<forall>p \<in> points_of orders vehicles. finite_pt p" "\<forall>v \<in> set vehicles. clocked_row factor v"
  proof -
    have m: "finite_keys m" "list_all2 same_vehicle vehicles vs" using euclidean_nodes_spec[OF a(1)] e by simp_all
    have "clocked_row factor v' = clocked_row factor v" if "same_vehicle v v'" for v v'
      by (subst that[unfolded same_vehicle_def]) (simp add: clocked_row_def)
    then have "\<forall>v \<in> set vs. clocked_row factor v"
      using m(2) a(2) by (metis (mono_tags, lifting) in_set_conv_nth list_all2_conv_all_nth)
    then have h: "harmless ?r" by (rule run_problem_cases(1)[OF cm(2) vs Dmatrix_of_points_finite[OF cm(1) m(1)]])
    show ?thesis
    proof (cases ?r)
      case (Inl x)
      then have "euclidean_caught x \<noteq> None" using h by (cases x) (auto simp: harmless_def)
      then show ?thesis by (auto simp: do_pickDeliverEuclidean_def e cm(1) Inl keys_ordered[OF a(1)])
    qed (simp add: do_pickDeliverEuclidean_def e cm(1) keys_ordered[OF a(1)])
  qed
  assume "do_pickDeliverEuclidean orders vehicles factor cycles initial = Inr (Rows rs)"
  then have "?r = Inr (Rows rs)"
    by (auto simp: do_pickDeliverEuclidean_def e cm(1) split: sum.splits option.splits if_splits)
  then have "rows_serve os rs" by (rule run_problem_cases(2)[OF cm(2) vs])
  then show "rows_serve orders rs" using rows_serve_ids[OF f(1)] by simp
qed

end
