(* ===== verification/Tables.thy ===== *)
theory Tables
  imports Fetchers
begin

text \<open>
  What the getters return, in terms of the table: columns by name, all rows in order.  The
  documented behaviour of a cursor is the predicate \<open>query\<close>; the size of its blocks is arbitrary.
\<close>

section \<open>Cursors\<close>

inductive delivers :: "('t, 'd, 'v, 'p) spi \<Rightarrow> 'd \<Rightarrow> 'p \<Rightarrow> 't list \<Rightarrow> bool" for spi d where
  finished: "SPI_cursor_fetch spi p tuple_limit = ([], d, p') \<Longrightarrow> delivers spi d p []"
| block: "SPI_cursor_fetch spi p tuple_limit = (vals, d, p') \<Longrightarrow> vals \<noteq> [] \<Longrightarrow> delivers spi d p' rows \<Longrightarrow>
    delivers spi d p (vals @ rows)"

definition query :: "('t, 'd, 'v, 'p) spi \<Rightarrow> string \<Rightarrow> 'd \<Rightarrow> 't list \<Rightarrow> bool" where
  "query spi sql d rows \<longleftrightarrow>
     (\<exists>plan portal. SPI_prepare spi sql = Some plan \<and> SPI_cursor_open spi plan = Some portal \<and> delivers spi d portal rows)"

lemma fetch_block_append:
  "fetch_block spi d info func flag (xs @ ys) s =
     bindE (fetch_block spi d info func flag xs s) (fetch_block spi d info func flag ys)"
proof (induction xs arbitrary: s)
  case (Cons x xs)
  show ?case by (cases s) (auto simp: Cons.IH bindE_assoc split_beta intro!: bindE_cong)
qed simp

lemma get_data_loop_later:
  assumes "delivers spi d p rows" "0 < n"
  shows "get_data_loop spi flag func p n info s =
    Some (bindE (fetch_block spi d info func flag rows s) (\<lambda>s. Inr (snd (snd s))))"
  using assms
proof (induction arbitrary: n s rule: delivers.induct)
  case (finished p p')
  then show ?case by (subst get_data_loop.simps) simp
next
  case (block p vals p' rows)
  have "get_data_loop spi flag func p n info s =
      (case fetch_block spi d info func flag vals s of Inl e \<Rightarrow> Some (Inl e)
       | Inr s' \<Rightarrow> get_data_loop spi flag func p' (n + length vals) info s')"
    using block.hyps(1,2) block.prems by (subst get_data_loop.simps) simp
  also have "\<dots> = Some (bindE (fetch_block spi d info func flag (vals @ rows) s) (\<lambda>s. Inr (snd (snd s))))"
    using block.IH[of "n + length vals"] block.prems
    by (cases "fetch_block spi d info func flag vals s") (simp_all add: fetch_block_append)
  finally show ?case .
qed

text \<open>All rows of the query pass through the fetcher in order, however the cursor cuts them into blocks.\<close>

lemma get_data_blocks:
  assumes "query spi sql d rows"
  shows "get_data spi sql flag info func =
    bindE (fetch_column_info spi d info) (\<lambda>info'.
    bindE (fetch_block spi d info' func flag rows (0, 0, [])) (\<lambda>s. Inr (snd (snd s))))"
proof -
  obtain plan portal where p: "SPI_prepare spi sql = Some plan" "SPI_cursor_open spi plan = Some portal" "delivers spi d portal rows"
    using assms by (auto simp: query_def)
  let ?s = "(0, 0, [])"
  have "get_data_loop spi flag func portal 0 info ?s = Some (bindE (fetch_column_info spi d info) (\<lambda>info'.
      bindE (fetch_block spi d info' func flag rows ?s) (\<lambda>s. Inr (snd (snd s)))))"
    using p(3)
  proof cases
    case (finished p')
    then show ?thesis by (subst get_data_loop.simps) (simp split: sum.split)
  next
    case (block vals p' rows')
    have later: "get_data_loop spi flag func p' (length vals) info' s =
        Some (bindE (fetch_block spi d info' func flag rows' s) (\<lambda>s. Inr (snd (snd s))))" for info' s
      using get_data_loop_later[OF block(4), of "length vals"] block(3) by simp
    show ?thesis
      using block(2,3) by (subst get_data_loop.simps) (auto simp: block(1) fetch_block_append later bindE_def split: sum.split)
  qed
  then show ?thesis by (simp add: get_data_def pgr_SPI_prepare_def pgr_SPI_cursor_open_def p(1,2))
qed

section \<open>Columns by name\<close>

definition has_column :: "('t, 'd, 'v, 'p) spi \<Rightarrow> 'd \<Rightarrow> string \<Rightarrow> bool" where
  "has_column spi d name \<longleftrightarrow> SPI_fnumber spi d name \<noteq> SPI_ERROR_NOATTRIBUTE"

definition column_type :: "('t, 'd, 'v, 'p) spi \<Rightarrow> 'd \<Rightarrow> string \<Rightarrow> nat" where
  "column_type spi d name = SPI_gettypeid spi d (SPI_fnumber spi d name)"

fun oids :: "expectType \<Rightarrow> nat set" where
  "oids ANY_INTEGER = {INT2OID, INT4OID, INT8OID}"
| "oids ANY_NUMERICAL = {INT2OID, INT4OID, INT8OID, FLOAT4OID, FLOAT8OID, NUMERICOID}"
| "oids TEXT = {TEXTOID}"
| "oids CHAR1 = {BPCHAROID}"
| "oids ANY_INTEGER_ARRAY = {INT2ARRAYOID, INT4ARRAYOID, 1016}"

text \<open>What is wrong with a column, and what is known of one that is right.\<close>

definition column_error :: "('t, 'd, 'v, 'p) spi \<Rightarrow> 'd \<Rightarrow> Column_info_t \<Rightarrow> sql_error option" where
  "column_error spi d c =
     (if \<not> has_column spi d (col_name c) then (if col_strict c then Some (ColumnNotFound (col_name c)) else None)
      else if column_type spi d (col_name c) = InvalidOid then Some (TypeNotFound (col_name c))
      else if column_type spi d (col_name c) \<notin> oids (eType c) then Some (UnexpectedType (col_name c) (eType c))
      else None)"

definition resolved :: "('t, 'd, 'v, 'p) spi \<Rightarrow> 'd \<Rightarrow> Column_info_t \<Rightarrow> Column_info_t" where
  "resolved spi d c =
     c\<lparr>colNumber := SPI_fnumber spi d (col_name c),
       col_type := if has_column spi d (col_name c) then column_type spi d (col_name c) else col_type c\<rparr>"

definition columns_ok :: "('t, 'd, 'v, 'p) spi \<Rightarrow> 'd \<Rightarrow> Column_info_t list \<Rightarrow> bool" where
  "columns_ok spi d cols \<longleftrightarrow> (\<forall>c \<in> set cols. column_error spi d c = None)"

lemma resolved_simps [simp]:
  "col_name (resolved spi d c) = col_name c" "colNumber (resolved spi d c) = SPI_fnumber spi d (col_name c)"
  "col_strict (resolved spi d c) = col_strict c" "eType (resolved spi d c) = eType c"
  by (simp_all add: resolved_def)

lemma check_type_oids:
  "check_type c = (if col_type c \<in> oids (eType c) then Inr () else Inl (UnexpectedType (col_name c) (eType c)))"
  by (cases "eType c") (simp_all add: check_type_def unexpected_def check_any_integer_type_def check_any_numerical_type_def
    check_text_type_def check_char_type_def check_any_integer_array_type_def)

text \<open>The check reports the first column that is wrong, and otherwise numbers and types all of them.\<close>

lemma fetch_column_info_spec:
  "fetch_column_info spi d cols =
     (case List.map_filter (column_error spi d) cols of [] \<Rightarrow> Inr (map (resolved spi d) cols) | e # _ \<Rightarrow> Inl e)"
proof (induction cols)
  case (Cons c cols)
  have "bindE (get_column_info spi d c) (\<lambda>(found, c'). bindE (if found then check_type c' else Inr ()) (\<lambda>_. Inr c')) =
      (case column_error spi d c of None \<Rightarrow> Inr (resolved spi d c) | Some e \<Rightarrow> Inl e)"
    by (simp add: get_column_info_def column_error_def has_column_def column_type_def check_type_oids resolved_def Let_def)
  then have "fetch_column_info spi d (c # cols) =
      (case column_error spi d c of Some e \<Rightarrow> Inl e
       | None \<Rightarrow> bindE (fetch_column_info spi d cols) (\<lambda>cs. Inr (resolved spi d c # cs)))"
    by (auto simp: bindE_def split: sum.splits option.splits prod.splits if_splits)
  then show ?case using Cons.IH by (auto simp: List.map_filter_simps split: option.splits list.splits)
qed (simp add: List.map_filter_simps)

lemma fetch_column_info_ok: "columns_ok spi d cols \<Longrightarrow> fetch_column_info spi d cols = Inr (map (resolved spi d) cols)"
proof -
  assume "columns_ok spi d cols"
  then have "List.map_filter (column_error spi d) cols = []"
    by (induction cols) (simp_all add: columns_ok_def List.map_filter_simps)
  then show ?thesis by (simp add: fetch_column_info_spec)
qed

end
