(* ===== verification/Readers.thy ===== *)
theory Readers
  imports Tables
begin

text \<open>
  The contract of a fetcher (locale \<open>fetcher\<close>): on a table with the right columns it makes of
  every row a structure that is given by the names of the columns.  Every fetcher of the model is an
  interpretation; the getters then return these structures for all rows.
\<close>

section \<open>Cells by name\<close>

definition null_at :: "('t, 'd, 'v, 'p) spi \<Rightarrow> 'd \<Rightarrow> 't \<Rightarrow> string \<Rightarrow> bool" where
  "null_at spi d t name = snd (SPI_getbinval spi t d (SPI_fnumber spi d name))"

definition datum_at :: "('t, 'd, 'v, 'p) spi \<Rightarrow> 'd \<Rightarrow> 't \<Rightarrow> string \<Rightarrow> 'v" where
  "datum_at spi d t name = fst (SPI_getbinval spi t d (SPI_fnumber spi d name))"

definition int_at :: "('t, 'd, 'v, 'p) spi \<Rightarrow> 'd \<Rightarrow> 't \<Rightarrow> string \<Rightarrow> int" where
  "int_at spi d t name = element_value spi (column_type spi d name) (datum_at spi d t name)"

definition float_at :: "('t, 'd, 'v, 'p) spi \<Rightarrow> 'd \<Rightarrow> 't \<Rightarrow> string \<Rightarrow> double" where
  "float_at spi d t name =
     (let ty = column_type spi d name; v = datum_at spi d t name in
      if ty \<in> oids ANY_INTEGER then Fin (of_int (int_at spi d t name))
      else if ty = FLOAT4OID then DatumGetFloat4 spi v
      else DatumGetFloat8 spi (if ty = FLOAT8OID then v else numeric_float8_no_overflow spi v))"

text \<open>Columns that may be missing.\<close>

definition float_at_or :: "('t, 'd, 'v, 'p) spi \<Rightarrow> 'd \<Rightarrow> 't \<Rightarrow> string \<Rightarrow> double \<Rightarrow> double" where
  "float_at_or spi d t name dflt = (if has_column spi d name then float_at spi d t name else dflt)"

definition int_at_or :: "('t, 'd, 'v, 'p) spi \<Rightarrow> 'd \<Rightarrow> 't \<Rightarrow> string \<Rightarrow> int \<Rightarrow> int" where
  "int_at_or spi d t name dflt = (if has_column spi d name then int_at spi d t name else dflt)"

text \<open>The named columns hold a value, where they exist.\<close>

definition no_nulls :: "('t, 'd, 'v, 'p) spi \<Rightarrow> 'd \<Rightarrow> string list \<Rightarrow> 't \<Rightarrow> bool" where
  "no_nulls spi d names t \<longleftrightarrow> (\<forall>n \<in> set names. has_column spi d n \<longrightarrow> \<not> null_at spi d t n)"

lemma column_fields [simp]:
  "col_name (column s n ty) = n" "col_strict (column s n ty) = s" "eType (column s n ty) = ty"
  by (simp_all add: column_def)

lemma column_found_has [simp]: "column_found (SPI_fnumber spi d n) = has_column spi d n"
  by (simp add: column_found_def has_column_def)

lemma oids_valid: "0 \<notin> oids ty"
  by (cases ty) simp_all

declare oids.simps [simp del]

lemma column_ok [simp]:
  "column_error spi d (column s n ty) = None \<longleftrightarrow>
    (s \<longrightarrow> has_column spi d n) \<and> (has_column spi d n \<longrightarrow> column_type spi d n \<in> oids ty)"
  using oids_valid by (auto simp: column_error_def)

lemma getBigInt_column:
  assumes "has_column spi d n" "column_type spi d n \<in> oids ANY_INTEGER"
  shows "getBigInt spi t d (resolved spi d (column s n ty)) =
    (if null_at spi d t n then Inl (UnexpectedNull n) else Inr (int_at spi d t n))"
  using assms by (auto simp: getBigInt_def null_at_def int_at_def datum_at_def element_value_def resolved_def
    oids.simps split_beta Let_def)

lemma getFloat8_column:
  assumes "has_column spi d n" "column_type spi d n \<in> oids ANY_NUMERICAL \<union> oids ANY_INTEGER"
  shows "getFloat8 spi t d (resolved spi d (column s n ty)) =
    (if null_at spi d t n then Inl (UnexpectedNull n) else Inr (float_at spi d t n))"
  using assms by (auto simp: getFloat8_def null_at_def int_at_def float_at_def datum_at_def element_value_def resolved_def
    oids.simps split_beta Let_def)

lemma getChar_column:
  assumes "has_column spi d n" "column_type spi d n \<in> oids CHAR1"
  shows "getChar spi t d (resolved spi d (column s n ty)) False dflt =
    Inr (if null_at spi d t n then dflt else char_at_1 spi (datum_at spi d t n))"
  using assms by (simp add: getChar_def null_at_def datum_at_def resolved_def oids.simps split_beta Let_def)

lemmas read_simps = getBigInt_column getFloat8_column getChar_column float_or_def id_or_default_def ends_of_def
  unless_id_def when_id_def found_at_def column_found_has int_at_or_def float_at_or_def no_nulls_def columns_ok_def Let_def

section \<open>The contract\<close>

locale fetcher =
  fixes cols :: "Column_info_t list"
    and func :: "('t, 'd, 'v, 'p, 'a) fetcher"
    and flag :: bool
    and counted :: "('t, 'd, 'v, 'p) spi \<Rightarrow> 'd \<Rightarrow> bool"
    and complete :: "('t, 'd, 'v, 'p) spi \<Rightarrow> 'd \<Rightarrow> 't \<Rightarrow> bool"
    and row :: "('t, 'd, 'v, 'p) spi \<Rightarrow> 'd \<Rightarrow> 't \<Rightarrow> int \<Rightarrow> 'a"
  assumes fetch: "columns_ok spi d cols \<Longrightarrow> complete spi d t \<Longrightarrow>
    \<exists>v'. func spi t d (map (resolved spi d) cols) i v flag = Inr (row spi d t i, (if counted spi d then i + 1 else i), v')"
begin

definition numbered_rows :: "('t, 'd, 'v, 'p) spi \<Rightarrow> 'd \<Rightarrow> int \<Rightarrow> 't list \<Rightarrow> 'a list" where
  "numbered_rows spi d i ts =
     map (\<lambda>(k, t). row spi d t (if counted spi d then i + int k else i)) (zip [0..<length ts] ts)"

lemma numbered_rows_Cons:
  "numbered_rows spi d i (t # ts) = row spi d t i # numbered_rows spi d (if counted spi d then i + 1 else i) ts"
proof -
  have "zip [0..<length (t # ts)] (t # ts) = (0, t) # map (\<lambda>(k, x). (Suc k, x)) (zip [0..<length ts] ts)"
    by (simp add: upt_conv_Cons del: upt_Suc) (simp add: map_Suc_upt[symmetric] zip_map1 del: upt_Suc)
  then show ?thesis by (simp add: numbered_rows_def comp_def split_beta algebra_simps del: upt_Suc)
qed

lemma fetch_all:
  assumes "columns_ok spi d cols" "\<forall>t \<in> set ts. complete spi d t"
  shows "\<exists>i' v'. fetch_block spi d (map (resolved spi d) cols) func flag ts (i, v, acc) =
    Inr (i', v', acc @ numbered_rows spi d i ts)"
  using assms(2)
proof (induction ts arbitrary: i v acc)
  case Nil
  then show ?case by (simp add: numbered_rows_def)
next
  case (Cons t ts)
  obtain v1 where v1: "func spi t d (map (resolved spi d) cols) i v flag =
      Inr (row spi d t i, (if counted spi d then i + 1 else i), v1)"
    using fetch[OF assms(1)] Cons.prems by fastforce
  show ?case
    using Cons.IH[of "if counted spi d then i + 1 else i" v1 "acc @ [row spi d t i]"] Cons.prems
    by (simp add: v1 numbered_rows_Cons)
qed

theorem read_all:
  assumes "query spi sql d rows" "columns_ok spi d cols" "\<forall>t \<in> set rows. complete spi d t"
  shows "get_data spi sql flag cols func = Inr (numbered_rows spi d 0 rows)"
proof -
  obtain i' v' where "fetch_block spi d (map (resolved spi d) cols) func flag rows (0, 0, []) =
      Inr (i', v', [] @ numbered_rows spi d 0 rows)"
    using fetch_all[OF assms(2,3)] by blast
  then show ?thesis by (simp add: get_data_blocks[OF assms(1)] fetch_column_info_ok[OF assms(2)])
qed

lemma read_wrong_columns:
  assumes "query spi sql d rows" "List.map_filter (column_error spi d) cols = e # es"
  shows "get_data spi sql flag cols func = Inl e"
  by (simp add: get_data_blocks[OF assms(1)] fetch_column_info_spec assms(2))

lemma numbered_rows_plain: "\<not> counted spi d \<Longrightarrow> numbered_rows spi d i ts = map (\<lambda>t. row spi d t i) ts"
  by (induction ts) (simp_all add: numbered_rows_Cons, simp add: numbered_rows_def)

end

section \<open>The rows of the queries\<close>

definition edge_of_row :: "bool \<Rightarrow> ('t, 'd, 'v, 'p) spi \<Rightarrow> 'd \<Rightarrow> 't \<Rightarrow> int \<Rightarrow> Edge_t" where
  "edge_of_row normal spi d t i =
     \<lparr>edge_id = int_at_or spi d t ''id'' i,
      source = int_at spi d t (if normal then ''source'' else ''target''),
      target = int_at spi d t (if normal then ''target'' else ''source''),
      edge_cost = infinity_to_max (float_at spi d t ''cost''),
      reverse_cost = infinity_to_max (float_at_or spi d t ''reverse_cost'' (-1))\<rparr>"

interpretation edges: fetcher "edge_columns ignore_id" fetch_edge normal
  "\<lambda>spi d. \<not> has_column spi d ''id''"
  "\<lambda>spi d. no_nulls spi d [''id'', ''source'', ''target'', ''cost'', ''reverse_cost'']"
  "edge_of_row normal" for ignore_id normal
  by unfold_locales (auto simp: fetch_edge_def edge_columns_def edge_of_row_def read_simps)

definition combination_of_row :: "('t, 'd, 'v, 'p) spi \<Rightarrow> 'd \<Rightarrow> 't \<Rightarrow> int \<Rightarrow> II_t_rt" where
  "combination_of_row spi d t i = \<lparr>d1_source = int_at spi d t ''source'', d2_target = int_at spi d t ''target''\<rparr>"

interpretation combinations: fetcher "[column True ''source'' ANY_INTEGER, column True ''target'' ANY_INTEGER]"
  fetch_combination True "\<lambda>spi d. False" "\<lambda>spi d. no_nulls spi d [''source'', ''target'']" combination_of_row
  by unfold_locales (auto simp: fetch_combination_def combination_of_row_def read_simps)

definition matrix_row :: "('t, 'd, 'v, 'p) spi \<Rightarrow> 'd \<Rightarrow> 't \<Rightarrow> int \<Rightarrow> IID_t_rt" where
  "matrix_row spi d t i =
     \<lparr>from_vid = int_at spi d t ''start_vid'', to_vid = int_at spi d t ''end_vid'', iid_cost = float_at spi d t ''agg_cost''\<rparr>"

interpretation matrix: fetcher
  "[column True ''start_vid'' ANY_INTEGER, column True ''end_vid'' ANY_INTEGER, column True ''agg_cost'' ANY_NUMERICAL]"
  pgr_fetch_row True "\<lambda>spi d. False" "\<lambda>spi d. no_nulls spi d [''start_vid'', ''end_vid'', ''agg_cost'']" matrix_row
  by unfold_locales (auto simp: pgr_fetch_row_def matrix_row_def read_simps)

definition point_of_row :: "('t, 'd, 'v, 'p) spi \<Rightarrow> 'd \<Rightarrow> 't \<Rightarrow> int \<Rightarrow> Point_on_edge_t" where
  "point_of_row spi d t i =
     \<lparr>pid = int_at_or spi d t ''pid'' (i + 1), point_edge_id = int_at spi d t ''edge_id'',
      side = (if has_column spi d ''side'' \<and> \<not> null_at spi d t ''side'' then char_at_1 spi (datum_at spi d t ''side'') else kBoth),
      fraction = float_at spi d t ''fraction'', vertex_id = 0\<rparr>"

interpretation points: fetcher point_columns fetch_point True "\<lambda>spi d. \<not> has_column spi d ''pid''"
  "\<lambda>spi d. no_nulls spi d [''pid'', ''edge_id'', ''fraction'']" point_of_row
  by unfold_locales (auto simp: fetch_point_def point_columns_def point_of_row_def read_simps)

definition costFlow_of_row :: "('t, 'd, 'v, 'p) spi \<Rightarrow> 'd \<Rightarrow> 't \<Rightarrow> int \<Rightarrow> CostFlow_t" where
  "costFlow_of_row spi d t i =
     \<lparr>cf_edge_id = int_at spi d t ''id'', cf_source = int_at spi d t ''source'', cf_target = int_at spi d t ''target'',
      capacity = int_at spi d t ''capacity'', reverse_capacity = int_at_or spi d t ''reverse_capacity'' (-1),
      cf_cost = float_at spi d t ''cost'', cf_reverse_cost = float_at_or spi d t ''reverse_cost'' 0\<rparr>"

interpretation costFlow: fetcher
  "[column True ''id'' ANY_INTEGER, column True ''source'' ANY_INTEGER, column True ''target'' ANY_INTEGER,
    column True ''capacity'' ANY_INTEGER, column False ''reverse_capacity'' ANY_INTEGER,
    column True ''cost'' ANY_NUMERICAL, column False ''reverse_cost'' ANY_NUMERICAL]"
  fetch_costFlow_edge True "\<lambda>spi d. False"
  "\<lambda>spi d. no_nulls spi d [''id'', ''source'', ''target'', ''capacity'', ''reverse_capacity'', ''cost'', ''reverse_cost'']"
  costFlow_of_row
  by unfold_locales (auto simp: fetch_costFlow_edge_def costFlow_of_row_def read_simps)

definition order_of_table :: "bool \<Rightarrow> ('t, 'd, 'v, 'p) spi \<Rightarrow> 'd \<Rightarrow> 't \<Rightarrow> int \<Rightarrow> Orders_t" where
  "order_of_table with_id spi d t i =
     \<lparr>o_id = int_at spi d t ''id'', o_demand = float_at spi d t ''demand'',
      pick_x = (if with_id then 0 else float_at spi d t ''p_x''), pick_y = (if with_id then 0 else float_at spi d t ''p_y''),
      pick_node_id = (if with_id then int_at spi d t ''p_node_id'' else 0),
      pick_open_t = float_at spi d t ''p_open'', pick_close_t = float_at spi d t ''p_close'',
      pick_service_t = float_at_or spi d t ''p_service'' 0,
      deliver_x = (if with_id then 0 else float_at spi d t ''d_x''), deliver_y = (if with_id then 0 else float_at spi d t ''d_y''),
      deliver_node_id = (if with_id then int_at spi d t ''d_node_id'' else 0),
      deliver_open_t = float_at spi d t ''d_open'', deliver_close_t = float_at spi d t ''d_close'',
      deliver_service_t = float_at_or spi d t ''d_service'' 0\<rparr>"

definition order_cells :: "bool \<Rightarrow> string list" where
  "order_cells with_id =
     [''id'', ''demand'', ''p_open'', ''p_close'', ''p_service'', ''d_open'', ''d_close'', ''d_service''] @
     (if with_id then [''p_node_id'', ''d_node_id''] else [''p_x'', ''p_y'', ''d_x'', ''d_y''])"

interpretation order_rows: fetcher "order_columns with_id" fetch_orders with_id "\<lambda>spi d. False"
  "\<lambda>spi d. no_nulls spi d (order_cells with_id)" "order_of_table with_id" for with_id
  by unfold_locales (cases with_id; auto simp: fetch_orders_def order_columns_def order_cells_def order_of_table_def read_simps)

text \<open>
  The end node of a vehicle is read when there is an \<open>end_service\<close> column.  Coordinates and times
  of the end come in pairs.
\<close>

definition vehicle_of_row :: "bool \<Rightarrow> ('t, 'd, 'v, 'p) spi \<Rightarrow> 'd \<Rightarrow> 't \<Rightarrow> int \<Rightarrow> Vehicle_t" where
  "vehicle_of_row with_id spi d t i =
     (let sx = (if with_id then 0 else float_at spi d t ''start_x''); sy = (if with_id then 0 else float_at spi d t ''start_y'');
          sopen = float_at_or spi d t ''start_open'' 0; sclose = float_at_or spi d t ''start_close'' dbl_max;
          sservice = float_at_or spi d t ''start_service'' 0;
          snode = (if with_id then int_at spi d t ''start_node_id'' else 0) in
      \<lparr>v_id = int_at spi d t ''id'', v_capacity = float_at spi d t ''capacity'', v_speed = float_at_or spi d t ''speed'' 1,
       start_x = sx, start_y = sy, start_node_id = snode, cant_v = int_at_or spi d t ''number'' 1,
       start_open_t = sopen, start_close_t = sclose, start_service_t = sservice,
       end_x = float_at_or spi d t ''end_x'' sx, end_y = float_at_or spi d t ''end_y'' sy,
       end_node_id = (if with_id then (if has_column spi d ''end_service'' then int_at spi d t ''end_node_id'' else snode) else 0),
       end_open_t = float_at_or spi d t ''end_open'' sopen, end_close_t = float_at_or spi d t ''end_close'' sclose,
       end_service_t = float_at_or spi d t ''end_service'' sservice\<rparr>)"

definition vehicle_cells :: "string list" where
  "vehicle_cells =
     [''id'', ''capacity'', ''number'', ''start_open'', ''start_close'', ''start_service'', ''end_x'', ''end_y'',
      ''end_open'', ''end_close'', ''end_service'', ''speed'']"

definition vehicle_complete :: "bool \<Rightarrow> ('t, 'd, 'v, 'p) spi \<Rightarrow> 'd \<Rightarrow> 't \<Rightarrow> bool" where
  "vehicle_complete with_id spi d t \<longleftrightarrow>
     (has_column spi d ''end_x'' = has_column spi d ''end_y'') \<and> (has_column spi d ''end_open'' = has_column spi d ''end_close'') \<and>
     no_nulls spi d vehicle_cells t \<and>
     (if with_id then has_column spi d ''start_node_id'' \<and> no_nulls spi d [''start_node_id''] t \<and>
        (has_column spi d ''end_service'' \<longrightarrow> has_column spi d ''end_node_id'' \<and> no_nulls spi d [''end_node_id''] t)
      else no_nulls spi d [''start_x'', ''start_y''] t)"

lemma no_nullsD: "no_nulls spi d ns t \<Longrightarrow> n \<in> set ns \<Longrightarrow> has_column spi d n \<longrightarrow> \<not> null_at spi d t n"
  by (simp add: no_nulls_def)

lemma float_or_column:
  assumes "columns_ok spi d cols" "i < length cols" "cols ! i = column s n ANY_NUMERICAL" "has_column spi d n \<longrightarrow> \<not> null_at spi d t n"
  shows "float_or spi t d (map (resolved spi d) cols) i x = Inr (float_at_or spi d t n x)"
proof -
  have "column_error spi d (cols ! i) = None" using assms(1,2) by (simp add: columns_ok_def)
  then show ?thesis using assms(2-4) by (auto simp: float_or_def found_at_def float_at_or_def getFloat8_column)
qed

lemma getBigInt_complete:
  assumes "columns_ok spi d cols" "i < length cols" "cols ! i = column s n ANY_INTEGER" "has_column spi d n" "\<not> null_at spi d t n"
  shows "getBigInt spi t d (map (resolved spi d) cols ! i) = Inr (int_at spi d t n)"
proof -
  have "column_error spi d (cols ! i) = None" using assms(1,2) by (simp add: columns_ok_def)
  then show ?thesis using assms(2-5) by (simp add: getBigInt_column)
qed

lemma getFloat8_complete:
  assumes "columns_ok spi d cols" "i < length cols" "cols ! i = column s n ANY_NUMERICAL" "has_column spi d n" "\<not> null_at spi d t n"
  shows "getFloat8 spi t d (map (resolved spi d) cols ! i) = Inr (float_at spi d t n)"
proof -
  have "column_error spi d (cols ! i) = None" using assms(1,2) by (simp add: columns_ok_def)
  then show ?thesis using assms(2-5) by (simp add: getFloat8_column)
qed

lemma vehicle_columns_nth [simp]:
  "length (vehicle_columns w) = 16"
  "vehicle_columns w ! 0 = column True ''id'' ANY_INTEGER" "vehicle_columns w ! Suc 0 = column True ''capacity'' ANY_NUMERICAL"
  "vehicle_columns w ! 2 = column (\<not> w) ''start_x'' ANY_NUMERICAL" "vehicle_columns w ! 3 = column (\<not> w) ''start_y'' ANY_NUMERICAL"
  "vehicle_columns w ! 4 = column False ''number'' ANY_INTEGER" "vehicle_columns w ! 5 = column False ''start_open'' ANY_NUMERICAL"
  "vehicle_columns w ! 6 = column False ''start_close'' ANY_NUMERICAL" "vehicle_columns w ! 7 = column False ''start_service'' ANY_NUMERICAL"
  "vehicle_columns w ! 8 = column False ''end_x'' ANY_NUMERICAL" "vehicle_columns w ! 9 = column False ''end_y'' ANY_NUMERICAL"
  "vehicle_columns w ! 10 = column False ''end_open'' ANY_NUMERICAL" "vehicle_columns w ! 11 = column False ''end_close'' ANY_NUMERICAL"
  "vehicle_columns w ! 12 = column False ''end_service'' ANY_NUMERICAL" "vehicle_columns w ! 13 = column False ''speed'' ANY_NUMERICAL"
  "vehicle_columns w ! 14 = column False ''start_node_id'' ANY_INTEGER" "vehicle_columns w ! 15 = column False ''end_node_id'' ANY_INTEGER"
  by (simp_all add: vehicle_columns_def)

lemma fetch_vehicle_row:
  assumes "columns_ok spi d (vehicle_columns with_id)" "vehicle_complete with_id spi d t"
  shows "fetch_vehicle spi t d (map (resolved spi d) (vehicle_columns with_id)) i v with_id = Inr (vehicle_of_row with_id spi d t i, i, v)"
proof -
  let ?cols = "vehicle_columns with_id"
  let ?info = "map (resolved spi d) ?cols"
  have found: "found_at ?info 4 = has_column spi d ''number''" "found_at ?info 8 = has_column spi d ''end_x''"
    "found_at ?info 9 = has_column spi d ''end_y''" "found_at ?info 10 = has_column spi d ''end_open''"
    "found_at ?info 11 = has_column spi d ''end_close''" "found_at ?info 12 = has_column spi d ''end_service''"
    by (simp_all add: found_at_def)
  have cols: "has_column spi d ''id''" "has_column spi d ''capacity''"
      "\<not> with_id \<Longrightarrow> has_column spi d ''start_x''" "\<not> with_id \<Longrightarrow> has_column spi d ''start_y''"
    using assms(1) by (simp_all add: columns_ok_def vehicle_columns_def)
  have complete: "no_nulls spi d vehicle_cells t" "\<not> with_id \<Longrightarrow> no_nulls spi d [''start_x'', ''start_y''] t"
    using assms(2) by (simp_all add: vehicle_complete_def)
  note vals = no_nullsD[OF complete(1)] and starts = no_nullsD[OF complete(2)]
  have nodes: "with_id \<Longrightarrow> has_column spi d ''start_node_id'' \<and> \<not> null_at spi d t ''start_node_id''"
    "with_id \<Longrightarrow> has_column spi d ''end_service'' \<Longrightarrow> has_column spi d ''end_node_id'' \<and> \<not> null_at spi d t ''end_node_id''"
    using assms(2) unfolding vehicle_complete_def by (simp_all add: no_nulls_def)
  have floats: "float_or spi t d ?info 5 x = Inr (float_at_or spi d t ''start_open'' x)"
    "float_or spi t d ?info 6 x = Inr (float_at_or spi d t ''start_close'' x)"
    "float_or spi t d ?info 7 x = Inr (float_at_or spi d t ''start_service'' x)"
    "float_or spi t d ?info 8 x = Inr (float_at_or spi d t ''end_x'' x)"
    "float_or spi t d ?info 9 x = Inr (float_at_or spi d t ''end_y'' x)"
    "float_or spi t d ?info 10 x = Inr (float_at_or spi d t ''end_open'' x)"
    "float_or spi t d ?info 11 x = Inr (float_at_or spi d t ''end_close'' x)"
    "float_or spi t d ?info 12 x = Inr (float_at_or spi d t ''end_service'' x)"
    "float_or spi t d ?info 13 x = Inr (float_at_or spi d t ''speed'' x)" for x
    by (rule float_or_column[OF assms(1) _ _ vals]; simp add: vehicle_cells_def)+
  have ints: "getBigInt spi t d (?info ! 0) = Inr (int_at spi d t ''id'')"
    "has_column spi d ''number'' \<Longrightarrow> getBigInt spi t d (?info ! 4) = Inr (int_at spi d t ''number'')"
    "with_id \<Longrightarrow> getBigInt spi t d (?info ! 14) = Inr (int_at spi d t ''start_node_id'')"
    "with_id \<Longrightarrow> has_column spi d ''end_service'' \<Longrightarrow> getBigInt spi t d (?info ! 15) = Inr (int_at spi d t ''end_node_id'')"
    by (rule getBigInt_complete[OF assms(1)];
      use cols nodes vals[of "''id''"] vals[of "''number''"] in \<open>simp add: vehicle_cells_def\<close>)+
  have start: "getFloat8 spi t d (?info ! 1) = Inr (float_at spi d t ''capacity'')"
    "\<not> with_id \<Longrightarrow> getFloat8 spi t d (?info ! 2) = Inr (float_at spi d t ''start_x'')"
    "\<not> with_id \<Longrightarrow> getFloat8 spi t d (?info ! 3) = Inr (float_at spi d t ''start_y'')"
    by (rule getFloat8_complete[OF assms(1)];
      use cols vals[of "''capacity''"] starts[of "''start_x''"] starts[of "''start_y''"] in \<open>simp add: vehicle_cells_def\<close>)+
  have pairs: "both_or_none ?info 8 9 = Inr ()" "both_or_none ?info 10 11 = Inr ()"
    using assms(2) by (simp_all add: vehicle_complete_def both_or_none_def found)
  show ?thesis
    unfolding fetch_vehicle_def vehicle_of_row_def unless_id_def when_id_def Let_def found int_at_or_def
    using floats ints start pairs by (cases with_id; simp)
qed

interpretation vehicle_rows: fetcher "vehicle_columns with_id" fetch_vehicle with_id "\<lambda>spi d. False"
  "vehicle_complete with_id" "vehicle_of_row with_id" for with_id
  by unfold_locales (simp add: fetch_vehicle_row)

definition flow_edge_of_row :: "('t, 'd, 'v, 'p) spi \<Rightarrow> 'd \<Rightarrow> 't \<Rightarrow> int \<Rightarrow> Edge_t" where
  "flow_edge_of_row spi d t i =
     \<lparr>edge_id = int_at spi d t ''id'', source = int_at spi d t ''source'', target = int_at spi d t ''target'',
      edge_cost = infinity_to_max (float_at spi d t ''capacity''),
      reverse_cost = infinity_to_max (float_at_or spi d t ''reverse_capacity'' (-1))\<rparr>"

interpretation flow_edges: fetcher
  "[column True ''id'' ANY_INTEGER, column True ''source'' ANY_INTEGER, column True ''target'' ANY_INTEGER,
    column True ''capacity'' ANY_INTEGER, column False ''reverse_capacity'' ANY_INTEGER]"
  fetch_edge True "\<lambda>spi d. False" "\<lambda>spi d. no_nulls spi d [''id'', ''source'', ''target'', ''capacity'', ''reverse_capacity'']"
  flow_edge_of_row
  by unfold_locales (auto simp: fetch_edge_def flow_edge_of_row_def read_simps)

definition edge_xy_of_row :: "bool \<Rightarrow> ('t, 'd, 'v, 'p) spi \<Rightarrow> 'd \<Rightarrow> 't \<Rightarrow> int \<Rightarrow> Edge_xy_t" where
  "edge_xy_of_row normal spi d t i =
     \<lparr>xy_id = int_at spi d t ''id'',
      xy_source = int_at spi d t (if normal then ''source'' else ''target''),
      xy_target = int_at spi d t (if normal then ''target'' else ''source''),
      xy_cost = float_at spi d t ''cost'', xy_reverse_cost = float_at_or spi d t ''reverse_cost'' (-1),
      xy_x1 = float_at spi d t ''x1'', xy_y1 = float_at spi d t ''y1'',
      xy_x2 = float_at spi d t ''x2'', xy_y2 = float_at spi d t ''y2''\<rparr>"

interpretation edges_xy: fetcher
  "[column True ''id'' ANY_INTEGER, column True ''source'' ANY_INTEGER, column True ''target'' ANY_INTEGER,
    column True ''cost'' ANY_NUMERICAL, column False ''reverse_cost'' ANY_NUMERICAL,
    column True ''x1'' ANY_NUMERICAL, column True ''y1'' ANY_NUMERICAL,
    column True ''x2'' ANY_NUMERICAL, column True ''y2'' ANY_NUMERICAL]"
  fetch_edge_xy normal "\<lambda>spi d. False"
  "\<lambda>spi d. no_nulls spi d [''id'', ''source'', ''target'', ''cost'', ''reverse_cost'', ''x1'', ''y1'', ''x2'', ''y2'']"
  "edge_xy_of_row normal" for normal
  by unfold_locales (auto simp: fetch_edge_xy_def edge_xy_of_row_def read_simps)

text \<open>With a \<open>cost\<close> column the older columns \<open>going\<close> and \<open>coming\<close> are not looked at.\<close>

definition going_at :: "('t, 'd, 'v, 'p) spi \<Rightarrow> 'd \<Rightarrow> 't \<Rightarrow> bool" where
  "going_at spi d t =
     (if has_column spi d ''cost'' then 0 < float_at spi d t ''cost'' \<or> 0 < float_at_or spi d t ''reverse_cost'' 0
      else 0 < float_at spi d t ''going'' \<or> 0 < float_at_or spi d t ''coming'' 0)"

definition basic_edge_of_row :: "('t, 'd, 'v, 'p) spi \<Rightarrow> 'd \<Rightarrow> 't \<Rightarrow> int \<Rightarrow> Edge_bool_t" where
  "basic_edge_of_row spi d t i =
     \<lparr>eb_id = int_at spi d t ''id'', eb_source = int_at spi d t ''source'', eb_target = int_at spi d t ''target'',
      going = going_at spi d t\<rparr>"

interpretation basic_edges: fetcher
  "[column True ''id'' ANY_INTEGER, column True ''source'' ANY_INTEGER, column True ''target'' ANY_INTEGER,
    column False ''going'' ANY_NUMERICAL, column False ''coming'' ANY_NUMERICAL,
    column False ''cost'' ANY_NUMERICAL, column False ''reverse_cost'' ANY_NUMERICAL]"
  fetch_basic_edge True "\<lambda>spi d. False"
  "\<lambda>spi d t. no_nulls spi d [''id'', ''source'', ''target'', ''going'', ''coming'', ''cost'', ''reverse_cost''] t \<and>
     (has_column spi d ''cost'' \<or> has_column spi d ''going'')"
  basic_edge_of_row
  by unfold_locales (auto simp: fetch_basic_edge_def basic_edge_of_row_def going_at_def either_positive_def zero_double_def read_simps)

definition coordinate_of_row :: "('t, 'd, 'v, 'p) spi \<Rightarrow> 'd \<Rightarrow> 't \<Rightarrow> int \<Rightarrow> Coordinate_t" where
  "coordinate_of_row spi d t i =
     \<lparr>coord_id = int_at spi d t ''id'', coord_x = float_at spi d t ''x'', coord_y = float_at spi d t ''y''\<rparr>"

interpretation coordinates: fetcher
  "[column True ''id'' ANY_INTEGER, column True ''x'' ANY_NUMERICAL, column True ''y'' ANY_NUMERICAL]"
  fetch_coordinate True "\<lambda>spi d. False" "\<lambda>spi d. no_nulls spi d [''id'', ''x'', ''y'']" coordinate_of_row
  by unfold_locales (auto simp: fetch_coordinate_def coordinate_of_row_def read_simps)

definition delauny_of_row :: "('t, 'd, 'v, 'p) spi \<Rightarrow> 'd \<Rightarrow> 't \<Rightarrow> int \<Rightarrow> Delauny_t" where
  "delauny_of_row spi d t i =
     \<lparr>tri_tid = int_at spi d t ''tid'', tri_pid = int_at spi d t ''pid'', tri_x = float_at spi d t ''x'', tri_y = float_at spi d t ''y''\<rparr>"

interpretation delauny: fetcher
  "[column True ''tid'' ANY_INTEGER, column True ''pid'' ANY_INTEGER,
    column True ''x'' ANY_NUMERICAL, column True ''y'' ANY_NUMERICAL]"
  fetch_delauny True "\<lambda>spi d. False" "\<lambda>spi d. no_nulls spi d [''tid'', ''pid'', ''x'', ''y'']" delauny_of_row
  by unfold_locales (auto simp: fetch_delauny_def delauny_of_row_def read_simps)

section \<open>Arrays\<close>

lemma array_values_complete:
  "array_values spi ty es = (if \<exists>e \<in> set es. snd e then Inl NullInArray else Inr (map (\<lambda>e. element_value spi ty (fst e)) es))"
  by (induction spi ty es rule: array_values.induct) auto

definition array_empty :: "'v ArrayType \<Rightarrow> bool" where
  "array_empty a \<longleftrightarrow> ndim a = 0 \<or> nitems a \<le> 0"

definition array_good :: "'v ArrayType \<Rightarrow> bool" where
  "array_good a \<longleftrightarrow> ndim a = 1 \<and> 0 < nitems a \<and> integer_oid (elemtype a) \<and> (\<forall>e \<in> set (elements a). \<not> snd e)"

definition array_ints :: "('t, 'd, 'v, 'p) spi \<Rightarrow> 'v ArrayType \<Rightarrow> int list" where
  "array_ints spi a = (if array_empty a then [] else map (\<lambda>e. element_value spi (elemtype a) (fst e)) (elements a))"

lemma get_array_cases:
  "get_array spi a True = Inr xs \<longleftrightarrow> (array_empty a \<or> array_good a) \<and> xs = array_ints spi a"
  by (auto simp: get_array_def array_empty_def array_good_def array_ints_def array_values_complete)

lemma get_pgarray_array: "get_pgarray spi (Some a) b = get_array spi a b"
  by (simp add: get_pgarray_def get_array_def)

lemma get_pgset_cases:
  "get_pgset spi (Some a) = Inr xs \<longleftrightarrow>
    (array_empty a \<or> array_good a) \<and> ascending xs \<and> set xs = set (array_ints spi a)"
proof -
  have "ascending ys \<and> set ys = set zs \<longleftrightarrow> ys = foldl (\<lambda>results d. set_insert d results) [] zs" for ys zs :: "int list"
    using ascending_foldl_set_insert[of "[]" zs] set_foldl_set_insert[of "[]" zs]
      ascending_eq[of ys "foldl (\<lambda>results d. set_insert d results) [] zs"] by auto
  then show ?thesis
    by (auto simp: get_pgset_def array_empty_def array_good_def array_ints_def array_values_complete)
qed

definition restriction_of_row :: "('t, 'd, 'v, 'p) spi \<Rightarrow> 'd \<Rightarrow> 't \<Rightarrow> int \<Rightarrow> Restriction_t" where
  "restriction_of_row spi d t i =
     \<lparr>restriction_cost = float_at spi d t ''cost'',
      via_edges = (if null_at spi d t ''path'' then [] else array_ints spi (DatumGetArrayTypeP spi (datum_at spi d t ''path'')))\<rparr>"

definition restriction_complete :: "('t, 'd, 'v, 'p) spi \<Rightarrow> 'd \<Rightarrow> 't \<Rightarrow> bool" where
  "restriction_complete spi d t \<longleftrightarrow> \<not> null_at spi d t ''cost'' \<and> (null_at spi d t ''path'' \<or>
     array_empty (DatumGetArrayTypeP spi (datum_at spi d t ''path'')) \<or>
     array_good (DatumGetArrayTypeP spi (datum_at spi d t ''path'')))"

lemma getBigIntArr_complete:
  "restriction_complete spi d t \<Longrightarrow>
    getBigIntArr spi t d (resolved spi d (column True ''path'' ty)) = Inr (via_edges (restriction_of_row spi d t i))"
  by (auto simp: restriction_complete_def getBigIntArr_def null_at_def datum_at_def restriction_of_row_def split_beta
    Let_def get_array_cases)

interpretation restrictions: fetcher "[column True ''cost'' ANY_NUMERICAL, column True ''path'' ANY_INTEGER_ARRAY]"
  fetch_restriction True "\<lambda>spi d. False" restriction_complete restriction_of_row
proof (unfold_locales, goal_cases)
  case (1 spi d t i v)
  have "\<not> null_at spi d t ''cost''" using 1(2) by (simp add: restriction_complete_def)
  then have "getFloat8 spi t d (resolved spi d (column True ''cost'' ANY_NUMERICAL)) = Inr (float_at spi d t ''cost'')"
    using 1(1) by (simp add: read_simps)
  then show ?case
    using getBigIntArr_complete[OF 1(2), of ANY_INTEGER_ARRAY i] by (simp add: fetch_restriction_def) (simp add: restriction_of_row_def)
qed

section \<open>Whatever the rows are\<close>

text \<open>Every structure that a getter returns was made by the fetcher from some row.\<close>

lemma fetch_block_origin:
  assumes "fetch_block spi d info func flag ts s = Inr s'" "x \<in> set (snd (snd s'))"
  shows "x \<in> set (snd (snd s)) \<or> (\<exists>t \<in> set ts. \<exists>i v i' v'. func spi t d info i v flag = Inr (x, i', v'))"
  using assms
proof (induction ts arbitrary: s)
  case (Cons t ts)
  obtain i v acc where s: "s = (i, v, acc)" by (cases s)
  obtain y i1 v1 where y: "func spi t d info i v flag = Inr (y, i1, v1)"
      "fetch_block spi d info func flag ts (i1, v1, acc @ [y]) = Inr s'"
    using Cons.prems(1) by (auto simp: s bindE_Inr_iff)
  from Cons.IH[OF y(2) Cons.prems(2)] show ?case using y(1) by (auto simp: s)
qed simp

lemma get_data_origin:
  assumes "query spi sql d rows" "get_data spi sql flag cols func = Inr xs" "x \<in> set xs"
  shows "\<exists>t \<in> set rows. \<exists>i v i' v'. func spi t d (map (resolved spi d) cols) i v flag = Inr (x, i', v')"
proof -
  obtain info s where i: "fetch_column_info spi d cols = Inr info"
      "fetch_block spi d info func flag rows (0, 0, []) = Inr s" "xs = snd (snd s)"
    using assms(2) by (auto simp: get_data_blocks[OF assms(1)] bindE_Inr_iff)
  have "info = map (resolved spi d) cols"
    using i(1) by (auto simp: fetch_column_info_spec split: list.splits)
  then show ?thesis using fetch_block_origin[OF i(2), of x] assms(3) i(3) by auto
qed

lemma fetch_vehicle_end_node:
  assumes "fetch_vehicle spi t d (map (resolved spi d) (vehicle_columns True)) i v True = Inr (x, i', v')"
    and "\<not> has_column spi d ''end_service''"
  shows "end_node_id x = start_node_id x"
proof -
  have "found_at (map (resolved spi d) (vehicle_columns True)) 12 = False"
    using assms(2) by (simp add: found_at_def)
  then show ?thesis using assms(1) by (auto simp: fetch_vehicle_def bindE_Inr_iff)
qed

lemma vehicles_end_at_start:
  assumes "query spi sql d rows" "get_vehicles spi sql True = Inr vs" "\<not> has_column spi d ''end_service''"
  shows "\<forall>v \<in> set vs. end_node_id v = start_node_id v"
  using get_data_origin[OF assms(1) assms(2)[unfolded get_vehicles_def]] fetch_vehicle_end_node[OF _ assms(3)] by blast

text \<open>The flag \<open>ignore_id\<close> only relaxes the check of the column.\<close>

lemma getBigInt_strict:
  "getBigInt spi t d (resolved spi d (column s n ty)) = getBigInt spi t d (resolved spi d (column s' n ty))"
proof -
  have "col_type (resolved spi d (column s n ty)) = col_type (resolved spi d (column s' n ty))"
    by (simp add: resolved_def column_def)
  then show ?thesis by (simp add: getBigInt_def split_beta)
qed

lemma fetch_edge_strict:
  "fetch_edge spi t d (map (resolved spi d) (edge_columns b)) i v flag =
    fetch_edge spi t d (map (resolved spi d) (edge_columns b')) i v flag"
  by (simp add: fetch_edge_def id_or_default_def ends_of_def float_or_def found_at_def edge_columns_def
      getBigInt_strict[of spi t d "\<not> b" _ _ "\<not> b'"] del: column_found_has)

lemma fetch_block_cong:
  assumes "\<And>t i v. func spi t d info i v flag = func spi t d info' i v flag"
  shows "fetch_block spi d info func flag ts s = fetch_block spi d info' func flag ts s"
proof (induction ts arbitrary: s)
  case (Cons t ts)
  show ?case by (cases s) (simp add: assms[of t] Cons.IH)
qed simp

lemma edge_columns_info:
  assumes "has_column spi d ''id''"
  shows "(\<exists>e. \<forall>b. fetch_column_info spi d (edge_columns b) = Inl e) \<or>
    (\<forall>b. fetch_column_info spi d (edge_columns b) = Inr (map (resolved spi d) (edge_columns b)))"
proof -
  have cons: "edge_columns b = column (\<not> b) ''id'' ANY_INTEGER # tl (edge_columns True)" for b
    by (simp add: edge_columns_def)
  have "column_error spi d (column s ''id'' ANY_INTEGER) = column_error spi d (column s' ''id'' ANY_INTEGER)" for s s'
    by (simp add: column_error_def assms)
  then have same: "List.map_filter (column_error spi d) (column s ''id'' ANY_INTEGER # cs) =
      List.map_filter (column_error spi d) (column s' ''id'' ANY_INTEGER # cs)" for s s' cs
    unfolding List.map_filter_simps by metis
  have "List.map_filter (column_error spi d) (edge_columns b) = List.map_filter (column_error spi d) (edge_columns True)" for b
    unfolding cons[of b] by (subst (2) cons) (rule same)
  then show ?thesis
    unfolding fetch_column_info_spec by (cases "List.map_filter (column_error spi d) (edge_columns True)") auto
qed

lemma ignore_id_unused:
  assumes "query spi sql d rows" "has_column spi d ''id''"
  shows "get_edges spi sql normal True = get_edges spi sql normal False"
  using edge_columns_info[OF assms(2)]
  unfolding get_edges_def get_data_blocks[OF assms(1)]
proof
  assume "\<forall>b. fetch_column_info spi d (edge_columns b) = Inr (map (resolved spi d) (edge_columns b))"
  then show "bindE (fetch_column_info spi d (edge_columns True)) (\<lambda>info'.
      bindE (fetch_block spi d info' fetch_edge normal rows (0, 0, [])) (\<lambda>s. Inr (snd (snd s)))) =
    bindE (fetch_column_info spi d (edge_columns False)) (\<lambda>info'.
      bindE (fetch_block spi d info' fetch_edge normal rows (0, 0, [])) (\<lambda>s. Inr (snd (snd s))))"
    by (simp add: fetch_block_cong[of fetch_edge, OF fetch_edge_strict[of _ _ _ True _ _ _ False]])
qed auto

end
