(* ===== verification/Sql_planners.thy ===== *)
theory Sql_planners
  imports Euclidean_sites Readers
begin

text \<open>
  The planners from the queries on: which errors of the readers the drivers can report, and what the
  rows of their answers are about.
\<close>

section \<open>Errors with a text\<close>

definition textual :: "sql_error + 'a \<Rightarrow> bool" where
  "textual r \<longleftrightarrow> (\<forall>e. r = Inl e \<longrightarrow> error_text e \<noteq> None)"

named_theorems textual_intros

lemma textual_Inr [textual_intros]: "textual (Inr x)"
  by (simp add: textual_def)

lemma textual_bindE [textual_intros]: "textual r \<Longrightarrow> (\<And>x. textual (f x)) \<Longrightarrow> textual (bindE r f)"
  by (cases r) (simp_all add: textual_def)

lemma textual_if [textual_intros]: "textual x \<Longrightarrow> textual y \<Longrightarrow> textual (if b then x else y)"
  by simp

lemma textual_getBigInt [textual_intros]: "textual (getBigInt spi t d c)"
  by (simp add: textual_def getBigInt_def split_beta)

lemma textual_getFloat8 [textual_intros]: "textual (getFloat8 spi t d c)"
  by (simp add: textual_def getFloat8_def split_beta)

lemma textual_cells [textual_intros]:
  "textual (float_or spi t d info i x)" "textual (unless_id b spi t d info i)" "textual (when_id b spi t d info i)"
  by (simp_all add: float_or_def unless_id_def when_id_def textual_intros)

lemma textual_both_or_none: "found_at info i = found_at info j \<Longrightarrow> textual (both_or_none info i j)"
  by (simp add: both_or_none_def textual_intros)

lemma textual_columns [textual_intros]: "textual (fetch_column_info spi d cols)"
proof -
  have "error_text e \<noteq> None" if "e \<in> set (List.map_filter (column_error spi d) cols)" for e
    using that by (auto simp: List.map_filter_def column_error_def split: if_splits)
  then show ?thesis by (auto simp: fetch_column_info_spec textual_def split: list.splits)
qed

lemma textual_fetch_block:
  assumes "\<And>t i v. textual (func spi t d info i v flag)"
  shows "textual (fetch_block spi d info func flag ts s)"
proof (induction ts arbitrary: s)
  case (Cons t ts)
  show ?case by (cases s) (auto intro!: textual_intros assms Cons.IH simp: split_beta)
qed (simp add: textual_intros)

lemma textual_get_data:
  assumes "query spi sql d rows" "\<And>t i v. textual (func spi t d (map (resolved spi d) cols) i v flag)"
  shows "textual (get_data spi sql flag cols func)"
proof -
  have "textual (bindE (fetch_column_info spi d cols) (\<lambda>info'.
      bindE (fetch_block spi d info' func flag rows (0, 0, [])) (\<lambda>s. Inr (snd (snd s)))))"
  proof (cases "fetch_column_info spi d cols")
    case (Inl e)
    then show ?thesis using textual_columns[of spi d cols] by (simp add: textual_def)
  next
    case (Inr info)
    then have "info = map (resolved spi d) cols" by (auto simp: fetch_column_info_spec split: list.splits)
    then show ?thesis using Inr by (auto intro!: textual_intros textual_fetch_block assms(2))
  qed
  then show ?thesis by (simp add: get_data_blocks[OF assms(1)])
qed

lemma textual_get_orders: "query spi sql d rows \<Longrightarrow> textual (get_orders spi sql with_id)"
  unfolding get_orders_def by (erule textual_get_data) (auto simp: fetch_orders_def intro!: textual_intros)

lemma textual_get_matrixRows: "query spi sql d rows \<Longrightarrow> textual (get_matrixRows spi sql)"
  unfolding get_matrixRows_def by (erule textual_get_data) (auto simp: pgr_fetch_row_def intro!: textual_intros)

text \<open>Columns of vehicles that come together.\<close>

definition paired_columns :: "('t, 'd, 'v, 'p) spi \<Rightarrow> 'd \<Rightarrow> bool" where
  "paired_columns spi d \<longleftrightarrow>
     has_column spi d ''end_x'' = has_column spi d ''end_y'' \<and> has_column spi d ''end_open'' = has_column spi d ''end_close''"

lemma textual_get_vehicles:
  assumes "query spi sql d rows" "paired_columns spi d"
  shows "textual (get_vehicles spi sql with_id)"
  unfolding get_vehicles_def
proof (rule textual_get_data[OF assms(1)])
  fix t i v
  let ?info = "map (resolved spi d) (vehicle_columns with_id)"
  have "textual (both_or_none ?info 8 9)" "textual (both_or_none ?info 10 11)"
    using assms(2) by (auto intro!: textual_both_or_none simp: found_at_def vehicle_columns_def paired_columns_def)
  then show "textual (fetch_vehicle spi t d ?info i v with_id)"
    unfolding fetch_vehicle_def by (intro textual_intros)
qed

section \<open>The drivers\<close>

lemma fetching_Inr: "fetching (Inr x) = Inr x"
  by (simp add: fetching_def)

lemma fetching_Inl: "fetching (Inl e) = Inl (Inl e)"
  by (simp add: fetching_def)

lemma sql_caught_Inr: "sql_caught (Inr x) = Inr x"
  by (simp add: sql_caught_def)

text \<open>A driver answers: its rows serve the orders that the reader delivered.\<close>

definition answers_orders :: "sql_error + Orders_t list \<Rightarrow> failure + answer \<Rightarrow> bool" where
  "answers_orders orders r \<longleftrightarrow>
     (\<exists>ans. r = Inr ans \<and> (\<forall>rs. ans = Rows rs \<longrightarrow> (\<exists>qs. orders = Inr qs \<and> qs \<noteq> [] \<and> rows_serve qs rs)))"

lemma serves_error: "textual (Inl e :: sql_error + 'a) \<Longrightarrow> answers_orders orders (sql_caught (Inl (Inl e)))"
  by (auto simp: answers_orders_def sql_caught_def textual_def)

lemma serves_notice: "answers_orders orders (sql_caught insufficient)"
  by (simp add: answers_orders_def insufficient_def sql_caught_Inr)

lemma serves_read:
  assumes "textual r" "\<And>xs. r = Inr xs \<Longrightarrow> xs \<noteq> [] \<Longrightarrow> answers_orders orders (sql_caught (f xs))"
  shows "answers_orders orders (sql_caught (bindE (fetching r) (\<lambda>xs. if xs = [] then insufficient else f xs)))"
proof (cases r)
  case (Inl e)
  then show ?thesis using serves_error[of e orders] assms(1) by (simp add: fetching_Inl textual_def)
next
  case (Inr xs)
  then show ?thesis using assms(2)[OF Inr] serves_notice by (cases "xs = []") (simp_all add: fetching_Inr)
qed

lemma serves_run:
  assumes "r = Inr ans" "\<And>rs. ans = Rows rs \<Longrightarrow> rows_serve qs rs" "orders = Inr qs" "qs \<noteq> []"
  shows "answers_orders orders (sql_caught (running r))"
  using assms by (simp add: answers_orders_def running_def sql_caught_Inr)

lemma pickDeliver_queries:
  assumes "query spi customers_sql d1 r1" "query spi vehicles_sql d2 r2" "query spi matrix_sql d3 r3" "paired_columns spi d2"
    and "\<forall>vs. get_vehicles spi vehicles_sql True = Inr vs \<longrightarrow> (\<forall>v \<in> set vs. clocked_row factor v)"
    and "\<forall>cs. get_matrixRows spi matrix_sql = Inr cs \<longrightarrow> (\<forall>c \<in> set cs. is_fin (iid_cost c))"
  shows "answers_orders (get_orders spi customers_sql True) (pgr_do_pickDeliver spi customers_sql vehicles_sql matrix_sql factor cycles initial)"
  unfolding pgr_do_pickDeliver_def
proof (intro serves_read textual_get_orders[OF assms(1)] textual_get_vehicles[OF assms(2,4)] textual_get_matrixRows[OF assms(3)])
  fix qs vs cs
  assume qs: "get_orders spi customers_sql True = Inr qs" "qs \<noteq> []"
    and vs: "get_vehicles spi vehicles_sql True = Inr vs" and cs: "get_matrixRows spi matrix_sql = Inr cs"
  obtain ans where ans: "do_pickDeliver qs vs cs factor cycles initial = Inr ans"
    using do_pickDeliver_answers[of cs vs factor] assms(5,6) vs cs by blast
  show "answers_orders (get_orders spi customers_sql True) (sql_caught (running (do_pickDeliver qs vs cs factor cycles initial)))"
    by (rule serves_run[OF ans _ qs]) (use do_pickDeliver_serves ans in blast)
qed

lemma pickDeliverEuclidean_queries:
  assumes "query spi customers_sql d1 r1" "query spi vehicles_sql d2 r2" "paired_columns spi d2"
    and "\<forall>vs. get_vehicles spi vehicles_sql False = Inr vs \<longrightarrow> (\<forall>v \<in> set vs. clocked_row factor v)"
    and "\<forall>qs vs. get_orders spi customers_sql False = Inr qs \<longrightarrow> get_vehicles spi vehicles_sql False = Inr vs \<longrightarrow>
      (\<forall>p \<in> points_of qs vs. finite_pt p)"
  shows "answers_orders (get_orders spi customers_sql False) (pgr_do_pickDeliverEuclidean spi customers_sql vehicles_sql factor cycles initial)"
  unfolding pgr_do_pickDeliverEuclidean_def
proof (intro serves_read textual_get_orders[OF assms(1)] textual_get_vehicles[OF assms(2,3)])
  fix qs and vs :: "Vehicle_t list"
  assume qs: "get_orders spi customers_sql False = Inr qs" "qs \<noteq> []"
    and vs: "get_vehicles spi vehicles_sql False = Inr vs" "vs \<noteq> []"
  obtain ans where ans: "do_pickDeliverEuclidean qs vs factor cycles initial = Inr ans"
    using euclidean_cases(1)[OF vs(2), of qs factor] assms(4,5) vs(1) qs(1) by blast
  show "answers_orders (get_orders spi customers_sql False) (sql_caught (running (do_pickDeliverEuclidean qs vs factor cycles initial)))"
    by (rule serves_run[OF ans _ qs]) (use euclidean_cases(2)[OF vs(2)] ans in blast)
qed

end
