(* ===== verification/Trsp_graphs.thy ===== *)
theory Trsp_graphs
  imports Trsp
begin

text \<open>
  What the constructor of \<open>TrspHandler\<close> builds: a numbering of the vertices with its inverse, and
  an edge list in which every edge knows its own index and the edges that can follow it.
\<close>

section \<open>Maps\<close>

lemma map_of_map_put [simp]: "map_of (map_put k v m) = (map_of m)(k \<mapsto> v)"
  by (induction k v m rule: map_put.induct) (auto simp: fun_eq_iff)

lemma map_of_map_push:
  "map_of (map_push k x m) =
    (map_of m)(k \<mapsto> (case map_of m k of None \<Rightarrow> [] | Some xs \<Rightarrow> xs) @ [x])"
  by (simp add: map_push_def)

definition keys_ok :: "('k :: linorder, 'v) std_map \<Rightarrow> bool" where
  "keys_ok m \<longleftrightarrow> sorted_wrt (<) (map fst m)"

lemma set_map_put: "set (map fst (map_put k v m)) = insert k (set (map fst m))"
  by (induction k v m rule: map_put.induct) auto

lemma keys_ok_map_put [intro]: "keys_ok m \<Longrightarrow> keys_ok (map_put k v m)"
  unfolding keys_ok_def
proof (induction k v m rule: map_put.induct)
  case (2 k v k' v' m)
  have "fst ` set (map_put k v m) = insert k (fst ` set m)" using set_map_put[of k v m] by simp
  with 2 show ?case by auto
qed simp

lemma keys_ok_distinct: "keys_ok m \<Longrightarrow> distinct (map fst m)"
  by (simp add: keys_ok_def strict_sorted_iff)

section \<open>Numbering the vertices\<close>

text \<open>The numbers in use are those below \<open>idx\<close>, each for one vertex.\<close>

definition numbering :: "(int, int) std_map \<times> int \<Rightarrow> bool" where
  "numbering st \<longleftrightarrow>
     keys_ok (fst st) \<and> 0 \<le> snd st \<and> ran (map_of (fst st)) = {0..<snd st} \<and>
     inj_on (map_of (fst st)) (dom (map_of (fst st)))"

lemma numbering_empty: "numbering ([], 0)"
  by (simp add: numbering_def keys_ok_def)

lemma number_vertex_numbering:
  assumes "numbering st"
  shows "numbering (number_vertex v st)"
proof (cases "map_of (fst st) v")
  case None
  obtain m i where st: "st = (m, i)" by (cases st)
  let ?m = "(map_of m)(v \<mapsto> i)"
  have i: "i \<notin> ran (map_of m)" "0 \<le> i" using assms by (auto simp: st numbering_def)
  have "inj_on ?m (dom ?m)"
    using assms i None by (auto simp: st numbering_def inj_on_def ran_def dom_def split: if_splits)
  moreover have "ran ?m = {0..<i + 1}"
    using assms None i by (auto simp: st numbering_def)
  ultimately show ?thesis
    using assms None by (auto simp: st numbering_def number_vertex_def)
next
  case (Some x)
  then show ?thesis using assms by (cases st) (auto simp: number_vertex_def)
qed

lemma number_vertex_grows:
  "map_of (fst st) \<subseteq>\<^sub>m map_of (fst (number_vertex v st)) \<and> v \<in> dom (map_of (fst (number_vertex v st)))"
  by (cases st) (auto simp: number_vertex_def map_le_def)

definition renumbered :: "(int, int) std_map \<Rightarrow> Edge_t \<Rightarrow> Edge_t \<Rightarrow> bool" where
  "renumbered m e e' \<longleftrightarrow>
     map_of m (source e) = Some (source e') \<and> map_of m (target e) = Some (target e') \<and>
     e' = e\<lparr>source := source e', target := target e'\<rparr>"

lemma renumbered_grows: "renumbered m e e' \<Longrightarrow> map_of m \<subseteq>\<^sub>m map_of m' \<Longrightarrow> renumbered m' e e'"
  unfolding renumbered_def map_le_def by (metis domI)

lemma renumber_loop_spec:
  assumes "numbering st"
  shows "\<exists>es' st'. renumber_loop es st = Inr (es', st') \<and> numbering st' \<and>
    map_of (fst st) \<subseteq>\<^sub>m map_of (fst st') \<and>
    dom (map_of (fst st')) = dom (map_of (fst st)) \<union> source ` set es \<union> target ` set es \<and>
    list_all2 (renumbered (fst st')) es es'"
  using assms
proof (induction es arbitrary: st)
  case Nil
  then show ?case by auto
next
  case (Cons e es)
  let ?s1 = "number_vertex (source e) st"
  let ?st = "number_vertex (target e) ?s1"
  have grow: "map_of (fst st) \<subseteq>\<^sub>m map_of (fst ?st)"
    using number_vertex_grows map_le_trans by blast
  have dom: "dom (map_of (fst ?st)) = insert (source e) (insert (target e) (dom (map_of (fst st))))"
    by (cases st) (auto simp: number_vertex_def)
  from Cons.IH[of ?st] Cons.prems obtain es' st' where
    rest: "renumber_loop es ?st = Inr (es', st')" "numbering st'" "map_of (fst ?st) \<subseteq>\<^sub>m map_of (fst st')"
      "dom (map_of (fst st')) = dom (map_of (fst ?st)) \<union> source ` set es \<union> target ` set es"
      "list_all2 (renumbered (fst st')) es es'"
    using number_vertex_numbering by metis
  obtain s t where at: "map_of (fst ?st) (source e) = Some s" "map_of (fst ?st) (target e) = Some t"
    using dom by (metis domD insertI1 insertI2)
  have "renumbered (fst ?st) e (e\<lparr>source := s, target := t\<rparr>)" using at by (simp add: renumbered_def)
  then have "renumbered (fst st') e (e\<lparr>source := s, target := t\<rparr>)" using rest(3) renumbered_grows by blast
  moreover have "map_of (fst st) \<subseteq>\<^sub>m map_of (fst st')" using grow rest(3) map_le_trans by blast
  ultimately show ?case
    using rest at dom by (auto simp: Let_def map_at_def)
qed

lemma idx_to_id_inverse:
  assumes "keys_ok m" "inj_on (map_of m) (dom (map_of m))"
  shows "map_of (foldl (\<lambda>q (i, x). map_put x i q) [] m) x = Some i \<longleftrightarrow> map_of m i = Some x"
proof -
  have fold: "map_of (foldl (\<lambda>q (i, x). map_put x i q) q m) = map_of q ++ map_of (map prod.swap (rev m))" for q
  proof (induction m arbitrary: q)
    case (Cons p m)
    then show ?case by (cases p) (auto simp: map_add_def fun_eq_iff split: option.splits)
  qed simp
  have d: "distinct (map fst m)" using assms(1) by (rule keys_ok_distinct)
  have "distinct (map snd m)"
  proof -
    have "inj_on snd (set m)"
    proof (rule inj_onI)
      fix p q assume pq: "p \<in> set m" "q \<in> set m" "snd p = snd q"
      then obtain a b x where ab: "p = (a, x)" "q = (b, x)" by (metis prod.collapse)
      then have "map_of m a = Some x" "map_of m b = Some x" using d pq by (simp_all add: map_of_is_SomeI)
      then have "a = b" using assms(2) by (metis domI inj_onD)
      with ab show "p = q" by simp
    qed
    then show ?thesis using d by (simp add: distinct_map)
  qed
  then have "distinct (map fst (map prod.swap (rev m)))" by (simp add: comp_def rev_map[symmetric])
  then show ?thesis using d by (auto simp: fold map_of_eq_Some_iff)
qed

section \<open>Arcs\<close>

text \<open>
  An edge is two arcs: (i, True) runs from its start to its end at its cost, (i, False) runs back
  at the reverse cost.  A negative cost means that the arc does not exist.
\<close>

type_synonym arc = "nat \<times> bool"

fun arc_cost :: "EdgeInfo list \<Rightarrow> arc \<Rightarrow> double" where
  "arc_cost es (i, b) = (if b then c_cost (es ! i) else r_cost (es ! i))"

fun arc_from :: "EdgeInfo list \<Rightarrow> arc \<Rightarrow> int" where
  "arc_from es (i, b) = (if b then startNode (es ! i) else endNode (es ! i))"

fun arc_to :: "EdgeInfo list \<Rightarrow> arc \<Rightarrow> int" where
  "arc_to es (i, b) = (if b then endNode (es ! i) else startNode (es ! i))"

fun nexts :: "EdgeInfo list \<Rightarrow> arc \<Rightarrow> nat set" where
  "nexts es (i, b) = set (get_idx (\<not> b) (es ! i))"

definition adjacent :: "(int, nat list) std_map \<Rightarrow> int \<Rightarrow> nat list" where
  "adjacent adj v = (case map_of adj v of None \<Rightarrow> [] | Some is \<Rightarrow> is)"

definition graph_ok :: "EdgeInfo list \<Rightarrow> (int, nat list) std_map \<Rightarrow> bool" where
  "graph_ok es adj \<longleftrightarrow>
     (\<forall>i < length es. m_edgeIndex (es ! i) = i) \<and>
     (\<forall>v. set (adjacent adj v) = {i. i < length es \<and> v \<in> {startNode (es ! i), endNode (es ! i)}}) \<and>
     (\<forall>i < length es. \<forall>b. nexts es (i, b) =
        {j. j < length es \<and> j \<noteq> i \<and> 0 \<le> arc_cost es (i, b) \<and>
            arc_to es (i, b) \<in> {startNode (es ! j), endNode (es ! j)}})"

text \<open>The lists differ at most in their connections.\<close>

definition same_edges :: "EdgeInfo list \<Rightarrow> EdgeInfo list \<Rightarrow> bool" where
  "same_edges es es' \<longleftrightarrow>
     length es' = length es \<and>
     (\<forall>k < length es. m_edge (es' ! k) = m_edge (es ! k) \<and> m_edgeIndex (es' ! k) = m_edgeIndex (es ! k))"

lemma same_edges_arcs:
  "same_edges es es' \<Longrightarrow> fst a < length es \<Longrightarrow>
    arc_cost es' a = arc_cost es a \<and> arc_to es' a = arc_to es a \<and> arc_from es' a = arc_from es a"
  by (cases a) (simp add: same_edges_def)

lemma same_edges_trans: "same_edges es es' \<Longrightarrow> same_edges es' es'' \<Longrightarrow> same_edges es es''"
  by (simp add: same_edges_def)

text \<open>What \<open>connectStartEdge\<close> (\<open>b\<close> False) and \<open>connectEndEdge\<close> (\<open>b\<close> True) add.\<close>

definition joined :: "bool \<Rightarrow> nat \<Rightarrow> nat set \<Rightarrow> EdgeInfo list \<Rightarrow> nat \<Rightarrow> bool \<Rightarrow> nat set" where
  "joined b f is es k c =
     {j. k = f \<and> c = b \<and> j \<in> is \<and> 0 \<le> arc_cost es (f, b) \<or>
         k \<in> is \<and> j = f \<and> 0 \<le> arc_cost es (k, c) \<and> arc_to es (k, c) = arc_to es (f, b)}"

definition connected :: "bool \<Rightarrow> nat \<Rightarrow> nat set \<Rightarrow> EdgeInfo list \<Rightarrow> EdgeInfo list \<Rightarrow> bool" where
  "connected b f is es es' \<longleftrightarrow>
     same_edges es es' \<and>
     (\<forall>k < length es. \<forall>c. nexts es' (k, c) = nexts es (k, c) \<union> joined b f is es k c)"

text \<open>One conditional addition.\<close>

lemma nexts_add:
  assumes "i < length es"
  shows "nexts (if P then es[i := connect_startEdge j (es ! i)] else es) (k, c) =
      nexts es (k, c) \<union> {x. P \<and> k = i \<and> \<not> c \<and> x = j}"
    and "nexts (if P then es[i := connect_endEdge j (es ! i)] else es) (k, c) =
      nexts es (k, c) \<union> {x. P \<and> k = i \<and> c \<and> x = j}"
  using assms by (auto simp: get_idx_def connect_startEdge_def connect_endEdge_def nth_list_update)

lemma same_edges_add:
  "same_edges es (if P then es[i := connect_startEdge j (es ! i)] else es)"
  "same_edges es (if P then es[i := connect_endEdge j (es ! i)] else es)"
  by (cases "i < length es"; auto simp: same_edges_def connect_startEdge_def connect_endEdge_def nth_list_update)+

lemma connectStartEdge_connected:
  assumes "f < length es" "i < length es" "i \<noteq> f"
  shows "\<exists>es'. connectStartEdge f i es = Inr es' \<and> connected False f {i} es es'"
proof -
  define es1 where "es1 = (if 0 \<le> r_cost (es ! f) then es[f := connect_startEdge i (es ! f)] else es)"
  define es2 where "es2 = (if startNode (es ! f) = startNode (es ! i) \<and> 0 \<le> r_cost (es ! i)
    then es1[i := connect_startEdge f (es1 ! i)] else es1)"
  define es3 where "es3 = (if startNode (es ! f) = endNode (es ! i) \<and> 0 \<le> c_cost (es ! i)
    then es2[i := connect_endEdge f (es2 ! i)] else es2)"
  have run: "connectStartEdge f i es = Inr es3"
    using assms by (simp add: connectStartEdge_def Let_def es1_def es2_def es3_def)
  have same: "same_edges es es1" "same_edges es1 es2" "same_edges es2 es3"
    unfolding es1_def es2_def es3_def by (rule same_edges_add)+
  then have len: "i < length es1" "i < length es2" using assms by (simp_all add: same_edges_def)
  have "nexts es3 (k, c) = nexts es (k, c) \<union> joined False f {i} es k c" for k c
    unfolding joined_def es3_def nexts_add[OF len(2)] unfolding es2_def nexts_add[OF len(1)]
    unfolding es1_def nexts_add[OF assms(1)] by auto
  then show ?thesis
    using run same same_edges_trans unfolding connected_def by blast
qed

lemma connectEndEdge_connected:
  assumes "f < length es" "i < length es" "i \<noteq> f"
  shows "\<exists>es'. connectEndEdge f i es = Inr es' \<and> connected True f {i} es es'"
proof -
  define es1 where "es1 = (if 0 \<le> c_cost (es ! f) then es[f := connect_endEdge i (es ! f)] else es)"
  define es2 where "es2 = (if endNode (es ! f) = startNode (es ! i) \<and> 0 \<le> r_cost (es ! i)
    then es1[i := connect_startEdge f (es1 ! i)] else es1)"
  define es3 where "es3 = (if endNode (es ! f) = endNode (es ! i) \<and> 0 \<le> c_cost (es ! i)
    then es2[i := connect_endEdge f (es2 ! i)] else es2)"
  have run: "connectEndEdge f i es = Inr es3"
    using assms by (simp add: connectEndEdge_def Let_def es1_def es2_def es3_def)
  have same: "same_edges es es1" "same_edges es1 es2" "same_edges es2 es3"
    unfolding es1_def es2_def es3_def by (rule same_edges_add)+
  then have len: "i < length es1" "i < length es2" using assms by (simp_all add: same_edges_def)
  have "nexts es3 (k, c) = nexts es (k, c) \<union> joined True f {i} es k c" for k c
    unfolding joined_def es3_def nexts_add[OF len(2)] unfolding es2_def nexts_add[OF len(1)]
    unfolding es1_def nexts_add[OF assms(1)] by auto
  then show ?thesis
    using run same same_edges_trans unfolding connected_def by blast
qed

text \<open>The loops of \<open>addEdge\<close> over the adjacent edges.\<close>

lemma connected_none: "connected b f {} es es"
  by (simp add: connected_def same_edges_def joined_def)

lemma connected_more:
  assumes "connected b f is es es'" "connected b f js es' es''" "f < length es" "is \<union> js \<subseteq> {..<length es}"
  shows "connected b f (is \<union> js) es es''"
proof -
  have same: "same_edges es es'" using assms(1) by (simp add: connected_def)
  have len: "length es' = length es" using same by (simp add: same_edges_def)
  have 1: "nexts es' (k, c) = nexts es (k, c) \<union> joined b f is es k c"
    and 2: "nexts es'' (k, c) = nexts es' (k, c) \<union> joined b f js es k c" if "k < length es" for k c
    using assms(1-3) that same_edges_arcs[OF same, of "(k, c)"] same_edges_arcs[OF same, of "(f, b)"] len
    unfolding connected_def joined_def by (simp_all only: fst_conv)
  have "nexts es'' (k, c) = nexts es (k, c) \<union> joined b f (is \<union> js) es k c" if "k < length es" for k c
    unfolding 2[OF that] 1[OF that] joined_def by blast
  then show ?thesis using assms(1,2) same_edges_trans unfolding connected_def by blast
qed

lemma connect_loop:
  assumes "f < length es" "set is \<subseteq> {..<length es} - {f}"
    and step: "\<And>es i. f < length es \<Longrightarrow> i < length es \<Longrightarrow> i \<noteq> f \<Longrightarrow> \<exists>es'. g i es = Inr es' \<and> connected b f {i} es es'"
  shows "\<exists>es'. foldE g is es = Inr es' \<and> connected b f (set is) es es'"
  using assms(1,2)
proof (induction "is" arbitrary: es)
  case Nil
  then show ?case using connected_none by auto
next
  case (Cons i "is")
  then obtain es1 where es1: "g i es = Inr es1" "connected b f {i} es es1" using step[of es i] by auto
  then have "length es1 = length es" by (simp add: connected_def same_edges_def)
  then obtain es2 where "foldE g is es1 = Inr es2" "connected b f (set is) es1 es2"
    using Cons.IH[of es1] Cons.prems by auto
  then show ?case using es1 connected_more[OF es1(2), of "set is" es2] Cons.prems by auto
qed

section \<open>Adding an edge\<close>

lemma adjacent_push:
  "set (adjacent (map_push k x m) v) = set (adjacent m v) \<union> {y. v = k \<and> y = x}"
  by (cases "v = k"; cases "map_of m k"; simp add: adjacent_def map_of_map_push)

lemma adjacent_push_None: "map_of (map_push k x m) v = None \<longleftrightarrow> v \<noteq> k \<and> map_of m v = None"
  by (simp add: map_of_map_push)

lemma nexts_snoc:
  "k < length es \<Longrightarrow> nexts (es @ [e]) (k, c) = nexts es (k, c)"
  "nexts (es @ [EdgeInfo_of ed i]) (length es, c) = {}"
  by (simp_all add: nth_append EdgeInfo_of_def get_idx_def)

lemma arcs_snoc:
  "fst a < length es \<Longrightarrow> arc_cost (es @ [e]) a = arc_cost es a \<and> arc_to (es @ [e]) a = arc_to es a"
  by (cases a) (simp add: nth_append)

lemma same_edges_map: "same_edges es es' \<Longrightarrow> map m_edge es' = map m_edge es"
  by (auto simp: same_edges_def intro: nth_equalityI)

text \<open>The edge list after both loops, with the new edge \<open>ed\<close> at the end.\<close>

definition grown :: "Edge_t \<Rightarrow> (int, nat list) std_map \<Rightarrow> EdgeInfo list \<Rightarrow> EdgeInfo list \<Rightarrow> bool" where
  "grown ed adj es es2 \<longleftrightarrow>
     (let n = length es; es0 = es @ [EdgeInfo_of ed n] in
      same_edges es0 es2 \<and>
      (\<forall>k < Suc n. \<forall>c. nexts es2 (k, c) = nexts es0 (k, c) \<union>
         joined False n (set (adjacent adj (source ed))) es0 k c \<union>
         joined True n (set (adjacent adj (target ed))) es0 k c))"

lemma connect_grown:
  fixes es ed adj
  defines "n \<equiv> length es"
  assumes "graph_ok es adj"
  obtains es1 es2 where
    "foldE (\<lambda>i es. connectStartEdge n i es) (adjacent adj (source ed)) (es @ [EdgeInfo_of ed n]) = Inr es1"
    "foldE (\<lambda>i es. connectEndEdge n i es) (adjacent adj (target ed)) es1 = Inr es2" "grown ed adj es es2"
proof -
  let ?A = "adjacent adj (source ed)"
  let ?B = "adjacent adj (target ed)"
  define es0 where "es0 = es @ [EdgeInfo_of ed n]"
  have len0: "length es0 = Suc n" by (simp add: es0_def n_def)
  have A: "set ?A \<subseteq> {..<length es0} - {n}" and B: "set ?B \<subseteq> {..<length es0} - {n}"
    using assms(2) len0 by (auto simp: graph_ok_def n_def)
  obtain es1 where es1: "foldE (\<lambda>i es. connectStartEdge n i es) ?A es0 = Inr es1" "connected False n (set ?A) es0 es1"
    using connect_loop[of n es0 ?A "\<lambda>i es. connectStartEdge n i es" False] A len0 connectStartEdge_connected by auto
  then have same1: "same_edges es0 es1" and len1: "length es1 = length es0"
    by (simp_all add: connected_def same_edges_def)
  obtain es2 where es2: "foldE (\<lambda>i es. connectEndEdge n i es) ?B es1 = Inr es2" "connected True n (set ?B) es1 es2"
    using connect_loop[of n es1 ?B "\<lambda>i es. connectEndEdge n i es" True] B len0 len1 connectEndEdge_connected by auto
  have "nexts es2 (k, c) = nexts es0 (k, c) \<union> joined False n (set ?A) es0 k c \<union> joined True n (set ?B) es0 k c"
    if "k < Suc n" for k c
  proof -
    have "joined True n (set ?B) es1 k c = joined True n (set ?B) es0 k c"
      using same_edges_arcs[OF same1, of "(k, c)"] same_edges_arcs[OF same1, of "(n, True)"] that len0
      by (simp only: joined_def fst_conv)
    then show ?thesis using es1(2) es2(2) that len0 len1 unfolding connected_def by (simp only: conj_absorb)
  qed
  moreover have "same_edges es0 es2" using same1 es2(2) same_edges_trans unfolding connected_def by blast
  ultimately have "grown ed adj es es2" unfolding grown_def Let_def es0_def n_def by blast
  then show thesis using that es1(1) es2(1) unfolding es0_def by blast
qed

lemma grown_edges:
  assumes "grown ed adj es es2"
  shows "map m_edge es2 = map m_edge es @ [ed]" "length es2 = Suc (length es)"
    and "k < length es \<Longrightarrow> m_edge (es2 ! k) = m_edge (es ! k)" "m_edge (es2 ! length es) = ed"
proof -
  show m: "map m_edge es2 = map m_edge es @ [ed]"
    using assms same_edges_map[of "es @ [EdgeInfo_of ed (length es)]" es2]
    by (simp add: grown_def Let_def EdgeInfo_of_def)
  show len: "length es2 = Suc (length es)" using arg_cong[OF m, of length] by simp
  show "m_edge (es2 ! k) = m_edge (es ! k)" if "k < length es"
    using arg_cong[OF m, of "\<lambda>xs. xs ! k"] that len by (simp add: nth_append)
  show "m_edge (es2 ! length es) = ed"
    using arg_cong[OF m, of "\<lambda>xs. xs ! length es"] len by (simp add: nth_append)
qed

lemma grown_arcs:
  assumes "grown ed adj es es2"
  shows "k < length es \<Longrightarrow> arc_cost es2 (k, c) = arc_cost es (k, c) \<and> arc_to es2 (k, c) = arc_to es (k, c)"
    and "arc_to es2 (length es, False) = source ed" "arc_to es2 (length es, True) = target ed"
  using grown_edges(3,4)[OF assms] by simp_all

lemma joined_grown:
  assumes "grown ed adj es es2" "k < Suc (length es)"
  shows "joined b (length es) A (es @ [EdgeInfo_of ed (length es)]) k c = joined b (length es) A es2 k c"
proof -
  have "same_edges (es @ [EdgeInfo_of ed (length es)]) es2" using assms(1) by (simp add: grown_def Let_def)
  from same_edges_arcs[OF this, of "(k, c)"] same_edges_arcs[OF this, of "(length es, b)"] show ?thesis
    using assms(2) by (simp only: joined_def fst_conv length_append_singleton)
qed

lemma nexts_grown:
  assumes "grown ed adj es es2" "k < Suc (length es)"
  shows "nexts es2 (k, c) = nexts (es @ [EdgeInfo_of ed (length es)]) (k, c) \<union>
    (joined False (length es) (set (adjacent adj (source ed))) es2 k c \<union>
     joined True (length es) (set (adjacent adj (target ed))) es2 k c)"
  using assms joined_grown[OF assms] by (simp only: grown_def Let_def Un_assoc)

abbreviation follow :: "EdgeInfo list \<Rightarrow> arc \<Rightarrow> nat set" where
  "follow es a \<equiv> {j. j < length es \<and> j \<noteq> fst a \<and> 0 \<le> arc_cost es a \<and>
                    arc_to es a \<in> {startNode (es ! j), endNode (es ! j)}}"

lemma nexts_new:
  assumes "graph_ok es adj" "grown ed adj es es2"
  shows "nexts es2 (length es, c) = follow es2 (length es, c)"
proof -
  let ?n = "length es"
  have adj: "j \<in> set (adjacent adj v) \<longleftrightarrow> j < ?n \<and> v \<in> {startNode (es ! j), endNode (es ! j)}" for j v
    using assms(1) by (simp add: graph_ok_def)
  have "nexts es2 (?n, c) = {j. 0 \<le> arc_cost es2 (?n, c) \<and> j < ?n \<and>
      arc_to es2 (?n, c) \<in> {startNode (es ! j), endNode (es ! j)}}"
    unfolding nexts_grown[OF assms(2) lessI] nexts_snoc(2) joined_def adj
    using grown_arcs(2,3)[OF assms(2)] by (cases c) auto
  also have "\<dots> = follow es2 (?n, c)"
    using grown_edges(2,3)[OF assms(2)] by (auto simp: less_Suc_eq)
  finally show ?thesis .
qed

lemma nexts_old:
  assumes "graph_ok es adj" "grown ed adj es es2" "k < length es"
  shows "nexts es2 (k, c) = follow es2 (k, c)"
proof -
  let ?n = "length es"
  note e = grown_edges[OF assms(2)]
  have kn: "k < Suc ?n" "k \<noteq> ?n" using assms(3) by simp_all
  have adj: "k \<in> set (adjacent adj v) \<longleftrightarrow> v \<in> {startNode (es2 ! k), endNode (es2 ! k)}" for v
    using assms(1,3) e(3) by (simp add: graph_ok_def)
  have "nexts es (k, c) = {j. j < ?n \<and> j \<noteq> k \<and> 0 \<le> arc_cost es2 (k, c) \<and>
      arc_to es2 (k, c) \<in> {startNode (es2 ! j), endNode (es2 ! j)}}"
    using assms(1,3) e(3) by (auto simp: graph_ok_def)
  moreover have "joined False ?n (set (adjacent adj (source ed))) es2 k c \<union>
      joined True ?n (set (adjacent adj (target ed))) es2 k c =
      {j. j = ?n \<and> 0 \<le> arc_cost es2 (k, c) \<and> arc_to es2 (k, c) \<in> {source ed, target ed}}"
    using kn(2) unfolding joined_def adj grown_arcs(2,3)[OF assms(2)] by (cases c) auto
  ultimately have "nexts es2 (k, c) = {j. j < ?n \<and> j \<noteq> k \<and> 0 \<le> arc_cost es2 (k, c) \<and>
      arc_to es2 (k, c) \<in> {startNode (es2 ! j), endNode (es2 ! j)}} \<union>
      {j. j = ?n \<and> 0 \<le> arc_cost es2 (k, c) \<and> arc_to es2 (k, c) \<in> {source ed, target ed}}"
    unfolding nexts_grown[OF assms(2) kn(1)] nexts_snoc(1)[OF assms(3)] by (simp only: )
  also have "\<dots> = follow es2 (k, c)" using e(2,4) kn by (auto simp: less_Suc_eq)
  finally show ?thesis .
qed

lemma graph_ok_addEdge:
  assumes ok: "graph_ok (m_edges h) (m_adjacency h)"
  shows "\<exists>es adj. addEdge directed e h = Inr (h\<lparr>m_edges := es, m_adjacency := adj\<rparr>) \<and> graph_ok es adj \<and>
    map m_edge es = map m_edge (m_edges h) @ [oriented e directed] \<and>
    dom (map_of adj) = dom (map_of (m_adjacency h)) \<union> {source (oriented e directed), target (oriented e directed)}"
proof -
  let ?ed = "oriented e directed"
  let ?n = "length (m_edges h)"
  let ?adj = "map_push (target ?ed) ?n (map_push (source ?ed) ?n (m_adjacency h))"
  obtain es1 es2 where es:
      "foldE (\<lambda>i es. connectStartEdge ?n i es) (adjacent (m_adjacency h) (source ?ed)) (m_edges h @ [EdgeInfo_of ?ed ?n]) = Inr es1"
      "foldE (\<lambda>i es. connectEndEdge ?n i es) (adjacent (m_adjacency h) (target ?ed)) es1 = Inr es2"
      "grown ?ed (m_adjacency h) (m_edges h) es2"
    using connect_grown[OF ok, of ?ed] by metis
  note e = grown_edges[OF es(3)]
  have "same_edges (m_edges h @ [EdgeInfo_of ?ed ?n]) es2" using es(3) by (simp add: grown_def Let_def)
  then have "m_edgeIndex (es2 ! i) = m_edgeIndex ((m_edges h @ [EdgeInfo_of ?ed ?n]) ! i)" if "i < Suc ?n" for i
    using that by (simp add: same_edges_def)
  moreover have "m_edgeIndex (m_edges h ! i) = i" if "i < ?n" for i
    using that ok by (simp add: graph_ok_def)
  ultimately have "\<forall>i < length es2. m_edgeIndex (es2 ! i) = i"
    unfolding e(2) by (simp add: nth_append EdgeInfo_of_def less_Suc_eq all_conj_distrib)
  moreover have "set (adjacent ?adj v) = {i. i < length es2 \<and> v \<in> {startNode (es2 ! i), endNode (es2 ! i)}}" for v
  proof -
    have "set (adjacent (m_adjacency h) v) = {i. i < ?n \<and> v \<in> {startNode (m_edges h ! i), endNode (m_edges h ! i)}}"
      using ok unfolding graph_ok_def by blast
    also have "\<dots> = {i. i < ?n \<and> v \<in> {startNode (es2 ! i), endNode (es2 ! i)}}"
      using e(3) by (intro Collect_cong conj_cong refl) simp
    finally have old: "set (adjacent (m_adjacency h) v) = \<dots>" .
    show ?thesis
      unfolding adjacent_push old e(2)
    proof (rule set_eqI)
      fix i
      show "i \<in> {i. i < ?n \<and> v \<in> {startNode (es2 ! i), endNode (es2 ! i)}} \<union>
            {y. v = source ?ed \<and> y = ?n} \<union> {y. v = target ?ed \<and> y = ?n} \<longleftrightarrow>
          i \<in> {i. i < Suc ?n \<and> v \<in> {startNode (es2 ! i), endNode (es2 ! i)}}"
        by (cases "i = ?n") (simp_all add: e(4) less_Suc_eq)
    qed
  qed
  moreover have "nexts es2 (k, c) = follow es2 (k, c)" if "k < length es2" for k c
    using that e(2) nexts_new[OF ok es(3)] nexts_old[OF ok es(3)] by (cases "k = ?n") (simp_all del: nexts.simps)
  ultimately have "graph_ok es2 ?adj" unfolding graph_ok_def by simp
  moreover have "addEdge directed e h = Inr (h\<lparr>m_edges := es2, m_adjacency := ?adj\<rparr>)"
    using es(1,2) by (simp add: addEdge_def Let_def flip: adjacent_def)
  moreover have "dom (map_of ?adj) = dom (map_of (m_adjacency h)) \<union> {source ?ed, target ?ed}"
    by (auto simp: map_of_map_push)
  ultimately show ?thesis using e(1) by blast
qed

lemma graph_ok_empty: "graph_ok [] []"
  by (simp add: graph_ok_def adjacent_def)

section \<open>The constructor\<close>

lemma add_edges_ok:
  assumes "graph_ok (m_edges h) (m_adjacency h)"
  shows "\<exists>es adj. foldE (addEdge directed) eds h = Inr (h\<lparr>m_edges := es, m_adjacency := adj\<rparr>) \<and>
    graph_ok es adj \<and> map m_edge es = map m_edge (m_edges h) @ map (\<lambda>e. oriented e directed) eds \<and>
    dom (map_of adj) = dom (map_of (m_adjacency h)) \<union> source ` set eds \<union> target ` set eds"
  using assms
proof (induction eds arbitrary: h)
  case Nil
  then show ?case by (intro exI[of _ "m_edges h"] exI[of _ "m_adjacency h"]) simp
next
  case (Cons e eds)
  have ends: "{source (oriented e directed), target (oriented e directed)} = {source e, target e}"
    by (auto simp: oriented_def Let_def)
  obtain es adj where step: "addEdge directed e h = Inr (h\<lparr>m_edges := es, m_adjacency := adj\<rparr>)" "graph_ok es adj"
      "map m_edge es = map m_edge (m_edges h) @ [oriented e directed]"
      "dom (map_of adj) = dom (map_of (m_adjacency h)) \<union> {source e, target e}"
    using graph_ok_addEdge[OF Cons.prems, of directed e] unfolding ends by blast
  from Cons.IH[of "h\<lparr>m_edges := es, m_adjacency := adj\<rparr>"] step obtain es' adj' where
    "foldE (addEdge directed) eds (h\<lparr>m_edges := es, m_adjacency := adj\<rparr>) = Inr (h\<lparr>m_edges := es', m_adjacency := adj'\<rparr>)"
    "graph_ok es' adj'" "map m_edge es' = map m_edge es @ map (\<lambda>e. oriented e directed) eds"
    "dom (map_of adj') = dom (map_of adj) \<union> source ` set eds \<union> target ` set eds"
    by auto
  then show ?case using step by (intro exI[of _ es'] exI[of _ adj']) auto
qed

text \<open>
  The invariant of a handler between two searches: a graph, a numbering of its vertices with its
  inverse, and an adjacency list for every vertex that has a number.
\<close>

definition handler_ok :: "TrspHandler \<Rightarrow> bool" where
  "handler_ok h \<longleftrightarrow>
     graph_ok (m_edges h) (m_adjacency h) \<and>
     (\<forall>v i. map_of (m_id_to_idx h) v = Some i \<longleftrightarrow> map_of (m_idx_to_id h) i = Some v) \<and>
     dom (map_of (m_adjacency h)) = dom (map_of (m_idx_to_id h))"

lemma handler_okD:
  assumes "handler_ok h"
  shows "graph_ok (m_edges h) (m_adjacency h)"
    "map_of (m_id_to_idx h) v = Some i \<longleftrightarrow> map_of (m_idx_to_id h) i = Some v"
    "dom (map_of (m_adjacency h)) = dom (map_of (m_idx_to_id h))"
  using assms unfolding handler_ok_def by blast+

lemma initialize_restrictions_fields:
  "\<exists>rt. initialize_restrictions rules h = h\<lparr>m_ruleTable := rt\<rparr>"
proof (induction rules rule: rev_induct)
  case Nil
  show ?case by (rule exI[of _ "m_ruleTable h"]) (simp add: initialize_restrictions_def)
next
  case (snoc r rules)
  then obtain rt where "initialize_restrictions rules h = h\<lparr>m_ruleTable := rt\<rparr>" by blast
  then show ?case
    by (cases "map_of rt (m_dest_id r)") (auto simp: initialize_restrictions_def)
qed

lemma rule_table:
  "(case map_of (m_ruleTable (initialize_restrictions rules no_handler)) d of None \<Rightarrow> [] | Some rs \<Rightarrow> rs) =
    filter (\<lambda>r. m_dest_id r = d) rules"
proof (induction rules rule: rev_induct)
  case Nil
  show ?case by (simp add: initialize_restrictions_def no_handler_def)
next
  case (snoc r rules)
  then show ?case
    by (cases "map_of (m_ruleTable (initialize_restrictions rules no_handler)) (m_dest_id r)")
      (auto simp: initialize_restrictions_def split: option.splits)
qed

lemma renumbered_ends: "list_all2 (renumbered m) es es' \<Longrightarrow>
    source ` set es' \<union> target ` set es' = (\<lambda>v. the (map_of m v)) ` (source ` set es \<union> target ` set es)"
  by (induction rule: list_all2_induct) (auto simp: renumbered_def)

lemma no_handler_fields [simp]:
  "m_edges no_handler = []" "m_adjacency no_handler = []" "m_id_to_idx no_handler = []"
  "m_idx_to_id no_handler = []" "m_que no_handler = []"
  by (simp_all add: no_handler_def)

lemma TrspHandler_of_ok:
  "\<exists>es' ns' h. TrspHandler_of edges new_edges directed rules = Inr (es', h) \<and> handler_ok h \<and>
    dom (map_of (m_id_to_idx h)) = source ` set (edges @ new_edges) \<union> target ` set (edges @ new_edges) \<and>
    list_all2 (renumbered (m_id_to_idx h)) (edges @ new_edges) (es' @ ns') \<and>
    map m_edge (m_edges h) = map (\<lambda>e. oriented e directed) (es' @ ns') \<and>
    m_ruleTable h = m_ruleTable (initialize_restrictions rules no_handler) \<and> m_que h = []"
proof -
  obtain rt where init: "initialize_restrictions rules no_handler = no_handler\<lparr>m_ruleTable := rt\<rparr>"
    using initialize_restrictions_fields by blast
  obtain es' st where es: "renumber_loop edges ([], 0) = Inr (es', st)" "numbering st"
      "dom (map_of (fst st)) = source ` set edges \<union> target ` set edges" "list_all2 (renumbered (fst st)) edges es'"
    using renumber_loop_spec[OF numbering_empty, of edges] by auto
  obtain ns' st' where ns: "renumber_loop new_edges st = Inr (ns', st')" "numbering st'"
      "map_of (fst st) \<subseteq>\<^sub>m map_of (fst st')" "list_all2 (renumbered (fst st')) new_edges ns'"
      "dom (map_of (fst st')) = dom (map_of (fst st)) \<union> source ` set new_edges \<union> target ` set new_edges"
    using renumber_loop_spec[OF es(2), of new_edges] by blast
  have "list_all2 (renumbered (fst st')) edges es'"
    using es(4) renumbered_grows ns(3) by (auto intro: list_all2_mono)
  with ns(4) have all: "list_all2 (renumbered (fst st')) (edges @ new_edges) (es' @ ns')"
    by (rule list_all2_appendI[rotated])
  define m where "m = fst st'"
  define q where "q = foldl (\<lambda>q (i, x). map_put x i q) [] m"
  have inv: "map_of q x = Some i \<longleftrightarrow> map_of m i = Some x" for x i
    using idx_to_id_inverse ns(2) unfolding q_def m_def numbering_def by blast
  define h1 where "h1 = no_handler\<lparr>m_ruleTable := rt, m_id_to_idx := m, m_idx_to_id := q\<rparr>"
  have "graph_ok (m_edges h1) (m_adjacency h1)" by (simp add: h1_def no_handler_def graph_ok_empty)
  from add_edges_ok[OF this, of directed "es' @ ns'"] obtain gs adj where
    g: "foldE (addEdge directed) (es' @ ns') h1 = Inr (h1\<lparr>m_edges := gs, m_adjacency := adj\<rparr>)" "graph_ok gs adj"
      "map m_edge gs = map (\<lambda>e. oriented e directed) (es' @ ns')"
      "dom (map_of adj) = source ` set (es' @ ns') \<union> target ` set (es' @ ns')"
    by (auto simp: h1_def no_handler_def)
  let ?h = "h1\<lparr>m_edges := gs, m_adjacency := adj\<rparr>"
  have dom: "dom (map_of m) = source ` set (edges @ new_edges) \<union> target ` set (edges @ new_edges)"
    using es(3) ns(5) by (auto simp: m_def)
  have "dom (map_of adj) = (\<lambda>v. the (map_of m v)) ` dom (map_of m)"
    unfolding g(4) dom renumbered_ends[OF all] m_def[symmetric] ..
  also have "\<dots> = dom (map_of q)" using inv by (force simp: dom_def)
  finally have "handler_ok ?h" using g(2) inv by (simp add: handler_ok_def h1_def)
  moreover have "TrspHandler_of edges new_edges directed rules = Inr (es', ?h)"
    using es(1) ns(1) g(1)
    by (simp add: TrspHandler_of_def renumber_edges_def init construct_graph_def h1_def q_def m_def Let_def
        foldE_append)
  ultimately show ?thesis
    using all dom g(3) init by (intro exI[of _ es'] exI[of _ ns'] exI[of _ ?h]) (simp add: h1_def m_def)
qed

end
