(* ===== verification/Rule_checks.thy ===== *)
theory Rule_checks
  imports Combinations Trsp_graphs
begin

text \<open>
  What \<open>get_combinations\<close> collects: the pairs of the queries and arrays, and the pairs whose path
  breaks a turn restriction.
\<close>

section \<open>Pairs\<close>

definition pairs :: "combinations \<Rightarrow> (int \<times> int) set" where
  "pairs m = {(s, t). t \<in> set (targets_of m s)}"

definition combinations_ok :: "combinations \<Rightarrow> bool" where
  "combinations_ok m \<longleftrightarrow> keys_ok m \<and> (\<forall>ts \<in> ran (map_of m). ascending ts)"

lemma combinations_ok_empty [simp]: "combinations_ok []" "pairs [] = {}"
  by (simp_all add: combinations_ok_def keys_ok_def pairs_def targets_of_def)

lemma targets_of_put: "targets_of (map_put s ts m) s' = (if s' = s then ts else targets_of m s')"
  by (simp add: targets_of_def)

lemma combinations_ok_targets: "combinations_ok m \<Longrightarrow> ascending (targets_of m s)"
  by (auto simp: combinations_ok_def targets_of_def ran_def split: option.splits)

lemma combinations_ok_put: "combinations_ok m \<Longrightarrow> ascending ts \<Longrightarrow> combinations_ok (map_put s ts m)"
  by (auto simp: combinations_ok_def ran_def split: if_splits)

lemma pairs_put: "pairs (map_put s ts m) = {(s', t) \<in> pairs m. s' \<noteq> s} \<union> {s} \<times> set ts"
  by (auto simp: pairs_def targets_of_put split: if_splits)

lemma add_pair_spec:
  assumes "combinations_ok m"
  shows "combinations_ok (add_pair s t m) \<and> pairs (add_pair s t m) = insert (s, t) (pairs m)"
proof
  show "combinations_ok (add_pair s t m)"
    unfolding add_pair_def using combinations_ok_targets[OF assms]
    by (intro combinations_ok_put[OF assms] ascending_set_insert)
  show "pairs (add_pair s t m) = insert (s, t) (pairs m)"
    by (auto simp: add_pair_def pairs_put) (auto simp: pairs_def)
qed

lemma combinations_of_rows_spec:
  "combinations_ok (combinations_of_rows rows) \<and>
    pairs (combinations_of_rows rows) = (\<lambda>r. (d1_source r, d2_target r)) ` set rows"
proof -
  have "combinations_ok (foldl (\<lambda>m r. add_pair (d1_source r) (d2_target r) m) m rows) \<and>
      pairs (foldl (\<lambda>m r. add_pair (d1_source r) (d2_target r) m) m rows) =
        pairs m \<union> (\<lambda>r. (d1_source r, d2_target r)) ` set rows" if "combinations_ok m" for m
    using that by (induction rows arbitrary: m) (auto simp: add_pair_spec)
  from this[of "[]"] show ?thesis by (simp add: combinations_of_rows_def)
qed

lemma set_all_spec:
  assumes "combinations_ok m" "ascending ends"
  shows "combinations_ok (set_all starts ends m) \<and>
    pairs (set_all starts ends m) = {(s, t) \<in> pairs m. s \<notin> set starts} \<union> set starts \<times> set ends"
  using assms(1) unfolding set_all_def
proof (induction starts arbitrary: m)
  case (Cons s starts)
  show ?case
    using Cons.IH[OF combinations_ok_put[OF Cons.prems assms(2), of s]] by (auto simp: pairs_put)
qed auto

section \<open>One rule on one path\<close>

lemma rule_breaker_prefix:
  "-1 \<notin> set es \<Longrightarrow> rule_breaker (ys @ [-1]) es = Inr (prefix es (ys @ [-1]))"
proof (induction es arbitrary: ys)
  case (Cons e es)
  then show ?case by (cases ys) auto
qed simp

lemma sublist_at_first:
  assumes "distinct xs" "ys \<noteq> []"
  shows "sublist ys xs \<longleftrightarrow> prefix ys (dropWhile (\<lambda>e. e \<noteq> hd ys) xs)"
proof
  assume "sublist ys xs"
  then obtain us vs where xs: "xs = us @ ys @ vs" by (auto simp: sublist_def)
  then have "hd ys \<notin> set us" using assms by (cases ys) auto
  then have "dropWhile (\<lambda>e. e \<noteq> hd ys) xs = ys @ vs"
    unfolding xs using assms(2) by (subst dropWhile_append2) (auto, cases ys, auto)
  then show "prefix ys (dropWhile (\<lambda>e. e \<noteq> hd ys) xs)" by simp
next
  assume "prefix ys (dropWhile (\<lambda>e. e \<noteq> hd ys) xs)"
  then show "sublist ys xs"
    by (metis append.assoc prefix_def sublist_def takeWhile_dropWhile_id)
qed

text \<open>A path as a search returns it, and rules that it can be checked against.\<close>

definition finished_path :: "Path \<Rightarrow> bool" where
  "finished_path p \<longleftrightarrow> path p \<noteq> [] \<longrightarrow> edge (last (path p)) = -1 \<and> distinct (map edge (path p))"

definition proper_rule :: "Rule \<Rightarrow> bool" where
  "proper_rule r \<longleftrightarrow> m_all r \<noteq> [] \<and> hd (m_all r) \<noteq> 0 \<and> -1 \<notin> set (m_all r)"

lemma breaks_rule_restriction:
  assumes "finished_path p" "proper_rule r" "path p \<noteq> []"
  shows "breaks_rule (replicate n 0 @ map edge (path p)) r = Inr (has_restriction r p)"
proof -
  let ?es = "map edge (path p)"
  let ?d = "dropWhile (\<lambda>e. e \<noteq> hd (m_all r)) ?es"
  have r: "m_all r \<noteq> []" "hd (m_all r) \<noteq> 0" "-1 \<notin> set (m_all r)" using assms(2) by (simp_all add: proper_rule_def)
  have es: "distinct ?es" "last ?es = -1" using assms(1,3) by (simp_all add: finished_path_def last_map)
  have drop: "dropWhile (\<lambda>e. e \<noteq> hd (m_all r)) (replicate n 0 @ ?es) = ?d"
    using r(2) by (subst dropWhile_append2) auto
  have sub: "has_restriction r p \<longleftrightarrow> prefix (m_all r) ?d"
    unfolding has_restriction_sublist[OF r(1)] by (rule sublist_at_first[OF es(1) r(1)])
  show ?thesis
  proof (cases "?d = []")
    case True
    then have "\<not> has_restriction r p" unfolding sub True using r(1) by simp
    then show ?thesis unfolding breaks_rule_def drop True using r(1) by simp
  next
    case False
    have "last ?d = -1"
      using es(2) False suffix_dropWhile[of "\<lambda>e. e \<noteq> hd (m_all r)" ?es] by (metis last_append suffix_def)
    then obtain ys where ys: "?d = ys @ [-1]" using False append_butlast_last_id by metis
    show ?thesis using False r(1) rule_breaker_prefix[OF r(3), of ys] sub
      by (simp add: breaks_rule_def drop ys)
  qed
qed

text \<open>
  A rule that starts with edge 0 is looked for among the zeros: when another edge follows in the rule,
  the path is kept, whether the rule occurs in it or not.
\<close>

definition zero_rule :: "Rule \<Rightarrow> bool" where
  "zero_rule r \<longleftrightarrow> (\<exists>x xs. m_all r = 0 # x # xs \<and> x \<noteq> 0)"

lemma breaks_zero_rule:
  assumes "zero_rule r" "2 \<le> n"
  shows "breaks_rule (replicate n 0 @ es) r = Inr False"
proof -
  have "n = Suc (Suc (n - 2))" using assms(2) by simp
  then obtain m where "n = Suc (Suc m)" by blast
  then show ?thesis using assms(1) by (auto simp: zero_rule_def breaks_rule_def)
qed

lemma check_path_zero_rules:
  assumes "\<forall>r \<in> set ruleList. zero_rule r" "2 \<le> length (path p)"
  shows "check_path ruleList p m = Inr (m, p)"
proof -
  have "foldE (check_rule (replicate (length (path p)) 0 @ map edge (path p))) ruleList (m, p) = Inr (m, p)"
    using assms(1) by (induction ruleList) (simp_all add: check_rule_def breaks_zero_rule[OF _ assms(2)])
  then show ?thesis using assms(2) by (auto simp: check_path_def)
qed

lemma zero_rules_keep_paths:
  assumes "\<forall>r \<in> set ruleList. zero_rule r" "\<forall>p \<in> set paths. 2 \<le> length (path p)"
  shows "get_combinations_of_paths paths ruleList = Inr ([], paths)"
proof -
  have "foldE (\<lambda>p (m, ps). bindE (check_path ruleList p m) (\<lambda>(m, p'). Inr (m, ps @ [p']))) paths (m, ps) =
      Inr (m, ps @ paths)" for m ps
    using assms(2) by (induction paths arbitrary: ps) (simp_all add: check_path_zero_rules[OF assms(1)])
  moreover have "filter (\<lambda>p. path p \<noteq> []) paths = paths" using assms(2) by (auto simp: filter_id_conv)
  ultimately show ?thesis by (simp add: get_combinations_of_paths_def)
qed

section \<open>All rules on a path\<close>

definition broken :: "Rule list \<Rightarrow> Path \<Rightarrow> Rule list" where
  "broken ruleList p = filter (\<lambda>r. has_restriction r p) ruleList"

text \<open>The pairs that a path adds: its own when it is empty or broken, and \<open>(0, 0)\<close> when a second rule is broken.\<close>

definition pairs_of_path :: "Rule list \<Rightarrow> Path \<Rightarrow> (int \<times> int) set" where
  "pairs_of_path ruleList p =
     (if path p = [] \<or> broken ruleList p \<noteq> [] then {(m_start_id p, m_end_id p)} else {}) \<union>
     (if path p \<noteq> [] \<and> 2 \<le> length (broken ruleList p) then {(0, 0)} else {})"

lemma clear_path_fields [simp]: "path (clear_path p) = []" "m_start_id (clear_path p) = 0" "m_end_id (clear_path p) = 0"
  by (simp_all add: clear_path_def)

lemma check_rule_eq:
  "breaks_rule es r = Inr b \<Longrightarrow> check_rule es r (m, p) =
    Inr (if b then (add_pair (m_start_id p) (m_end_id p) m, clear_path p) else (m, p))"
  by (simp add: check_rule_def)

lemma check_rules_cleared:
  assumes "\<forall>r \<in> set rs. breaks_rule es r = Inr (B r)" "combinations_ok m" "m_start_id q = 0" "m_end_id q = 0" "path q = []"
  shows "\<exists>m' q'. foldE (check_rule es) rs (m, q) = Inr (m', q') \<and> combinations_ok m' \<and> path q' = [] \<and>
    pairs m' = pairs m \<union> (if \<exists>r \<in> set rs. B r then {(0, 0)} else {})"
  using assms
proof (induction rs arbitrary: m q)
  case (Cons r rs)
  show ?case
  proof (cases "B r")
    case True
    have ok: "combinations_ok (add_pair 0 0 m)" "pairs (add_pair 0 0 m) = insert (0, 0) (pairs m)"
      using add_pair_spec[OF Cons.prems(2), of 0 0] by blast+
    then show ?thesis
      using Cons.IH[of "add_pair 0 0 m" "clear_path q"] Cons.prems True by (auto simp: check_rule_eq split: if_splits)
  next
    case False
    then show ?thesis using Cons.IH[of m q] Cons.prems by (auto simp: check_rule_eq)
  qed
qed auto

lemma check_rules_spec:
  assumes "\<forall>r \<in> set rs. breaks_rule es r = Inr (B r)" "combinations_ok m" "path p \<noteq> []"
  shows "\<exists>m' p'. foldE (check_rule es) rs (m, p) = Inr (m', p') \<and> combinations_ok m' \<and>
    (if filter B rs = [] then p' = p else path p' = []) \<and>
    pairs m' = pairs m \<union> (if filter B rs = [] then {} else {(m_start_id p, m_end_id p)}) \<union>
      (if 2 \<le> length (filter B rs) then {(0, 0)} else {})"
  using assms
proof (induction rs arbitrary: m)
  case (Cons r rs)
  show ?case
  proof (cases "B r")
    case True
    let ?m = "add_pair (m_start_id p) (m_end_id p) m"
    have ok: "combinations_ok ?m" "pairs ?m = insert (m_start_id p, m_end_id p) (pairs m)"
      using add_pair_spec[OF Cons.prems(2)] by blast+
    have rs: "\<forall>r \<in> set rs. breaks_rule es r = Inr (B r)" using Cons.prems(1) by simp
    obtain m' q' where c: "foldE (check_rule es) rs (?m, clear_path p) = Inr (m', q')" "combinations_ok m'" "path q' = []"
        "pairs m' = pairs ?m \<union> (if \<exists>r \<in> set rs. B r then {(0, 0)} else {})"
      using check_rules_cleared[OF rs ok(1), of "clear_path p"] by auto
    have "2 \<le> length (filter B (r # rs)) \<longleftrightarrow> (\<exists>r \<in> set rs. B r)"
      using True by (auto simp: Suc_le_eq filter_empty_conv)
    then show ?thesis using c ok Cons.prems(1) True by (auto simp: check_rule_eq)
  next
    case False
    then show ?thesis using Cons.IH[of m] Cons.prems by (auto simp: check_rule_eq)
  qed
qed auto

lemma check_path_spec:
  assumes "finished_path p" "\<forall>r \<in> set ruleList. proper_rule r" "combinations_ok m"
  shows "\<exists>m' p'. check_path ruleList p m = Inr (m', p') \<and> combinations_ok m' \<and>
    (if broken ruleList p = [] then p' = p else path p' = []) \<and>
    pairs m' = pairs m \<union> pairs_of_path ruleList p"
proof (cases "path p = []")
  case True
  have none: "broken ruleList p = []"
    using assms(2) True by (auto simp: broken_def filter_empty_conv proper_rule_def has_restriction_sublist)
  show ?thesis
    using add_pair_spec[OF assms(3), of "m_start_id p" "m_end_id p"] True none
    by (simp add: check_path_def pairs_of_path_def)
next
  case False
  have "\<forall>r \<in> set ruleList. breaks_rule (replicate (length (path p)) 0 @ map edge (path p)) r = Inr (has_restriction r p)"
    using breaks_rule_restriction[OF assms(1) _ False] assms(2) by blast
  from check_rules_spec[OF this assms(3) False] show ?thesis
    using False by (auto simp: check_path_def broken_def pairs_of_path_def)
qed

section \<open>All paths\<close>

lemma get_combinations_of_paths_spec:
  assumes "\<forall>p \<in> set paths. finished_path p" "\<forall>r \<in> set ruleList. proper_rule r"
  shows "\<exists>m. get_combinations_of_paths paths ruleList =
      Inr (m, filter (\<lambda>p. path p \<noteq> [] \<and> broken ruleList p = []) paths) \<and>
    combinations_ok m \<and> pairs m = (\<Union>p \<in> set paths. pairs_of_path ruleList p)"
proof -
  let ?step = "\<lambda>p (new_combinations, ps).
    bindE (check_path ruleList p new_combinations) (\<lambda>(m, p'). Inr (m, ps @ [p']))"
  have "\<exists>m' ps'. foldE ?step paths (m, ps) = Inr (m', ps') \<and> combinations_ok m' \<and>
      filter (\<lambda>p. path p \<noteq> []) ps' = filter (\<lambda>p. path p \<noteq> []) ps @ filter (\<lambda>p. path p \<noteq> [] \<and> broken ruleList p = []) paths \<and>
      pairs m' = pairs m \<union> (\<Union>p \<in> set paths. pairs_of_path ruleList p)" if "combinations_ok m" for m ps
    using that assms(1)
  proof (induction paths arbitrary: m ps)
    case (Cons p paths)
    obtain m1 p1 where p1: "check_path ruleList p m = Inr (m1, p1)" "combinations_ok m1"
        "if broken ruleList p = [] then p1 = p else path p1 = []" "pairs m1 = pairs m \<union> pairs_of_path ruleList p"
      using check_path_spec[OF _ assms(2) Cons.prems(1), of p] Cons.prems(2) by auto
    have rest: "\<forall>p \<in> set paths. finished_path p" using Cons.prems(2) by simp
    obtain m' ps' where 1: "foldE ?step paths (m1, ps @ [p1]) = Inr (m', ps')" "combinations_ok m'"
        "filter (\<lambda>p. path p \<noteq> []) ps' = filter (\<lambda>p. path p \<noteq> []) (ps @ [p1]) @
          filter (\<lambda>p. path p \<noteq> [] \<and> broken ruleList p = []) paths"
        "pairs m' = pairs m1 \<union> (\<Union>p \<in> set paths. pairs_of_path ruleList p)"
      using Cons.IH[OF p1(2) rest, of "ps @ [p1]"] by auto
    then show ?case using p1 by (auto split: if_splits)
  qed auto
  from this[of "[]" "[]"] show ?thesis by (auto simp: get_combinations_of_paths_def)
qed

end
