(* ===== verification/Trsp_searches.thy ===== *)
theory Trsp_searches
  imports Trsp_graphs
begin

text \<open>
  The exploration of \<open>TrspHandler\<close> as a search over arcs: every arc carries a label (the cost at
  which its head is reached) and a predecessor.  The invariant \<open>search_ok\<close> says that labels are
  costs of walks from the start vertex, and that following predecessors ends.
\<close>

section \<open>The priority queue\<close>

text \<open>What the search needs of a priority queue with smaller elements first.\<close>

locale priority_queue =
  fixes push :: "'a \<Rightarrow> 'q \<Rightarrow> 'q"
    and pop :: "'q \<Rightarrow> ('a \<times> 'q) option"
    and elems :: "'q \<Rightarrow> 'a multiset"
    and inv :: "'q \<Rightarrow> bool"
    and good :: "'a \<Rightarrow> bool"
    and lt :: "'a \<Rightarrow> 'a \<Rightarrow> bool"
  assumes push_elems: "elems (push x q) = add_mset x (elems q)"
    and push_inv: "inv q \<Longrightarrow> good x \<Longrightarrow> inv (push x q)"
    and pop_None: "pop q = None \<longleftrightarrow> elems q = {#}"
    and pop_elems: "pop q = Some (x, q') \<Longrightarrow> elems q = add_mset x (elems q')"
    and pop_inv: "inv q \<Longrightarrow> pop q = Some (x, q') \<Longrightarrow> inv q'"
    and pop_least: "inv q \<Longrightarrow> pop q = Some (x, q') \<Longrightarrow> y \<in># elems q' \<Longrightarrow> \<not> lt y x"
begin

text \<open>The element removed first is not greater than any element, and none is lost.\<close>

lemma pop_first:
  assumes "inv q" "y \<in># elems q" "\<not> lt y y"
  shows "\<exists>x q'. pop q = Some (x, q') \<and> \<not> lt y x \<and> elems q = add_mset x (elems q')"
proof -
  have "pop q \<noteq> None" using assms(2) pop_None[of q] by auto
  then obtain x q' where p: "pop q = Some (x, q')" by auto
  have "\<not> lt y x" using assms pop_elems[OF p] pop_least[OF assms(1) p, of y] by auto
  then show ?thesis using p pop_elems[OF p] by blast
qed

lemma push_pop:
  assumes "inv q" "good x" "\<not> lt x x" "\<And>y. y \<in># elems q \<Longrightarrow> lt x y"
  shows "\<exists>q'. pop (push x q) = Some (x, q') \<and> elems q' = elems q"
proof -
  obtain y q' where p: "pop (push x q) = Some (y, q')" "\<not> lt x y" "elems (push x q) = add_mset y (elems q')"
    using pop_first[OF push_inv[OF assms(1,2)], of x] assms(3) push_elems by auto
  then have "add_mset x (elems q) = add_mset y (elems q')" by (simp add: push_elems)
  moreover have "y = x" using calculation assms(4)[of y] p(2) by (auto simp: add_eq_conv_ex)
  ultimately show ?thesis using p(1) by auto
qed

end

definition pop_pdp :: "PDP list \<Rightarrow> (PDP \<times> PDP list) option" where
  "pop_pdp q = (case q of [] \<Rightarrow> None | x # xs \<Rightarrow> Some (x, xs))"

definition pdp_inv :: "PDP list \<Rightarrow> bool" where
  "pdp_inv q \<longleftrightarrow> (\<forall>x \<in> set q. fst x \<noteq> NaN) \<and> sorted_wrt (\<lambda>a b. \<not> pdp_less b a) q"

lemma pdp_less_key: "pdp_less a b \<longleftrightarrow> (fst a < fst b) \<or> (\<not> fst b < fst a \<and> pdp_less (0, snd a) (0, snd b))"
  by (auto simp: pdp_less_def)

lemma pdp_strict: "strict_weak_on {x. fst x \<noteq> NaN} pdp_less"
proof -
  have k: "strict_weak_on {x :: PDP. fst x \<noteq> NaN} (\<lambda>x y. fst x < fst y)" by (rule strict_weak_on_key) simp
  have "strict_weak_on {x :: PDP. fst x \<noteq> NaN} (\<lambda>x y. 2 * fst (snd x) + of_bool (snd (snd x)) < 2 * fst (snd y) + of_bool (snd (snd y)))"
    by (rule strict_weak_on_linorder)
  from strict_weak_on_then[OF k this] show ?thesis
    by (rule back_subst[of "strict_weak_on _"]) (auto simp: fun_eq_iff pdp_less_def dest: dbl_less_asym)
qed

interpretation pdp: priority_queue "insert_by pdp_less" pop_pdp mset pdp_inv "\<lambda>x. fst x \<noteq> NaN" pdp_less
proof
  fix x :: PDP and q :: "PDP list"
  assume "pdp_inv q" "fst x \<noteq> NaN"
  moreover from this have "strict_weak_on (insert x (set q)) pdp_less"
    by (intro strict_weak_on_subset[OF pdp_strict]) (auto simp: pdp_inv_def)
  ultimately show "pdp_inv (insert_by pdp_less x q)"
    using sorted_insert_by[of x q pdp_less] by (auto simp: pdp_inv_def)
qed (auto simp: pop_pdp_def pdp_inv_def split: list.splits)

section \<open>Labels and predecessors\<close>

abbreviation pos_of :: "bool \<Rightarrow> Position" where
  "pos_of b \<equiv> (if b then RC_EDGE else C_EDGE)"

abbreviation side :: "bool \<Rightarrow> 'a \<times> 'a \<Rightarrow> 'a" where
  "side b x \<equiv> (if b then fst x else snd x)"

fun label :: "TrspHandler \<Rightarrow> arc \<Rightarrow> double" where
  "label h (i, b) = (if b then endCost (m_dCost h ! i) else startCost (m_dCost h ! i))"

fun arc_at :: "nat \<Rightarrow> Position \<Rightarrow> arc option" where
  "arc_at i ILLEGAL = None"
| "arc_at i RC_EDGE = Some (i, True)"
| "arc_at i C_EDGE = Some (i, False)"

fun parent :: "TrspHandler \<Rightarrow> arc \<Rightarrow> arc option" where
  "parent h (i, b) = arc_at (side b (e_idx (m_parent h ! i))) (side b (v_pos (m_parent h ! i)))"

fun parent_index :: "TrspHandler \<Rightarrow> arc \<Rightarrow> nat" where
  "parent_index h (i, b) = side b (e_idx (m_parent h ! i))"

abbreviation arc :: "TrspHandler \<Rightarrow> arc \<Rightarrow> bool" where
  "arc h a \<equiv> fst a < length (m_edges h)"

definition sizes_ok :: "TrspHandler \<Rightarrow> bool" where
  "sizes_ok h \<longleftrightarrow>
     length (m_parent h) = Suc (length (m_edges h)) \<and> length (m_dCost h) = Suc (length (m_edges h))"

text \<open>The three assignments to the tables: a new label, a new predecessor, a new first arc.\<close>

fun put_label :: "arc \<Rightarrow> double \<Rightarrow> CostHolder list \<Rightarrow> CostHolder list" where
  "put_label (i, b) v ds = ds[i := (if b then (ds ! i)\<lparr>endCost := v\<rparr> else (ds ! i)\<lparr>startCost := v\<rparr>)]"

fun put_parent :: "arc \<Rightarrow> arc \<Rightarrow> Predecessor list \<Rightarrow> Predecessor list" where
  "put_parent (i, b) (j, c) ps = ps[i :=
     (if b then (ps ! i)\<lparr>v_pos := (pos_of c, snd (v_pos (ps ! i))), e_idx := (j, snd (e_idx (ps ! i)))\<rparr>
      else (ps ! i)\<lparr>v_pos := (fst (v_pos (ps ! i)), pos_of c), e_idx := (fst (e_idx (ps ! i)), j)\<rparr>)]"

fun put_first :: "arc \<Rightarrow> Predecessor list \<Rightarrow> Predecessor list" where
  "put_first (i, b) ps = ps[i :=
     (if b then (ps ! i)\<lparr>v_pos := (ILLEGAL, snd (v_pos (ps ! i)))\<rparr>
      else (ps ! i)\<lparr>v_pos := (fst (v_pos (ps ! i)), ILLEGAL)\<rparr>)]"

definition relaxed :: "arc \<Rightarrow> arc \<Rightarrow> double \<Rightarrow> TrspHandler \<Rightarrow> TrspHandler" where
  "relaxed c a v h = add_to_que v (fst a) (snd a)
     (h\<lparr>m_dCost := put_label a v (m_dCost h), m_parent := put_parent a c (m_parent h)\<rparr>)"

definition started :: "arc \<Rightarrow> TrspHandler \<Rightarrow> TrspHandler" where
  "started a h = add_to_que (arc_cost (m_edges h) a) (fst a) (snd a)
     (h\<lparr>m_dCost := put_label a (arc_cost (m_edges h) a) (m_dCost h), m_parent := put_first a (m_parent h)\<rparr>)"

lemma put_lengths [simp]:
  "length (put_label a v ds) = length ds" "length (put_parent a c ps) = length ps"
  "length (put_first a ps) = length ps"
  by (cases a; cases c; simp)+

lemma add_to_que_fields [simp]:
  "m_edges (add_to_que v i b h) = m_edges h" "m_adjacency (add_to_que v i b h) = m_adjacency h"
  "m_start_vertex (add_to_que v i b h) = m_start_vertex h" "m_end_vertex (add_to_que v i b h) = m_end_vertex h"
  "m_dCost (add_to_que v i b h) = m_dCost h" "m_parent (add_to_que v i b h) = m_parent h"
  "m_que (add_to_que v i b h) = insert_by pdp_less (v, i, b) (m_que h)"
  "m_ruleTable (add_to_que v i b h) = m_ruleTable h" "trsp_path (add_to_que v i b h) = trsp_path h"
  "m_id_to_idx (add_to_que v i b h) = m_id_to_idx h" "m_idx_to_id (add_to_que v i b h) = m_idx_to_id h"
  "m_current_node (add_to_que v i b h) = m_current_node h"
  by (simp_all add: add_to_que_def)

text \<open>A search changes only the tables, the queue and the current vertex.\<close>

definition same_graph :: "TrspHandler \<Rightarrow> TrspHandler \<Rightarrow> bool" where
  "same_graph h h' \<longleftrightarrow>
     m_edges h' = m_edges h \<and> m_adjacency h' = m_adjacency h \<and> m_start_vertex h' = m_start_vertex h \<and>
     m_end_vertex h' = m_end_vertex h \<and> m_ruleTable h' = m_ruleTable h \<and> trsp_path h' = trsp_path h \<and>
     m_id_to_idx h' = m_id_to_idx h \<and> m_idx_to_id h' = m_idx_to_id h"

lemma same_graphD:
  assumes "same_graph h h'"
  shows "m_edges h' = m_edges h" "m_adjacency h' = m_adjacency h" "m_start_vertex h' = m_start_vertex h"
    "m_end_vertex h' = m_end_vertex h" "m_ruleTable h' = m_ruleTable h" "trsp_path h' = trsp_path h"
    "m_id_to_idx h' = m_id_to_idx h" "m_idx_to_id h' = m_idx_to_id h"
  using assms by (simp_all add: same_graph_def)

lemma same_graph_refl [simp]: "same_graph h h"
  by (simp add: same_graph_def)

lemma same_graph_trans: "same_graph h h' \<Longrightarrow> same_graph h' h'' \<Longrightarrow> same_graph h h''"
  by (simp add: same_graph_def)

lemma same_graph_put [simp]:
  "same_graph h (relaxed c a v h)" "same_graph h (started a h)"
  "same_graph h (h\<lparr>m_que := q, m_current_node := x\<rparr>)"
  by (simp_all add: same_graph_def relaxed_def started_def)

lemma relaxed_simps:
  assumes "sizes_ok h" "arc h a"
  shows "label (relaxed c a v h) = (label h)(a := v)" "parent (relaxed c a v h) = (parent h)(a := Some c)"
    "parent_index (relaxed c a v h) = (parent_index h)(a := fst c)" "sizes_ok (relaxed c a v h)"
    "m_que (relaxed c a v h) = insert_by pdp_less (v, a) (m_que h)"
proof -
  obtain i b where a: "a = (i, b)" by (cases a)
  obtain j d where c: "c = (j, d)" by (cases c)
  have i: "i < length (m_dCost h)" "i < length (m_parent h)" using assms by (simp_all add: sizes_ok_def a)
  show "label (relaxed c a v h) = (label h)(a := v)"
    using i by (auto simp: relaxed_def a fun_eq_iff nth_list_update)
  show "parent (relaxed c a v h) = (parent h)(a := Some c)"
    using i by (auto simp: relaxed_def a c fun_eq_iff nth_list_update)
  show "parent_index (relaxed c a v h) = (parent_index h)(a := fst c)"
    using i by (auto simp: relaxed_def a c fun_eq_iff nth_list_update)
  show "sizes_ok (relaxed c a v h)" using assms by (simp add: relaxed_def sizes_ok_def)
  show "m_que (relaxed c a v h) = insert_by pdp_less (v, a) (m_que h)" by (simp add: relaxed_def)
qed

lemma started_simps:
  assumes "sizes_ok h" "arc h a"
  shows "label (started a h) = (label h)(a := arc_cost (m_edges h) a)" "parent (started a h) = (parent h)(a := None)"
    "parent_index (started a h) = parent_index h" "sizes_ok (started a h)"
    "m_que (started a h) = insert_by pdp_less (arc_cost (m_edges h) a, a) (m_que h)"
proof -
  obtain i b where a: "a = (i, b)" by (cases a)
  have i: "i < length (m_dCost h)" "i < length (m_parent h)" using assms by (simp_all add: sizes_ok_def a)
  show "label (started a h) = (label h)(a := arc_cost (m_edges h) a)"
    using i by (auto simp: started_def a fun_eq_iff nth_list_update)
  show "parent (started a h) = (parent h)(a := None)"
    using i by (auto simp: started_def a fun_eq_iff nth_list_update)
  show "parent_index (started a h) = parent_index h"
    using i by (auto simp: started_def a fun_eq_iff nth_list_update)
  show "sizes_ok (started a h)" using assms by (simp add: started_def sizes_ok_def)
  show "m_que (started a h) = insert_by pdp_less (arc_cost (m_edges h) a, a) (m_que h)" by (simp add: started_def)
qed

section \<open>The loop body of explore\<close>

text \<open>Relaxing arc \<open>a\<close> after arc \<open>c\<close>, at an extra cost \<open>x\<close>.\<close>

definition relax :: "arc \<Rightarrow> arc \<Rightarrow> double \<Rightarrow> TrspHandler \<Rightarrow> TrspHandler" where
  "relax c a x h =
     (let v = label h c + (arc_cost (m_edges h) a + x) in if v < label h a then relaxed c a v h else h)"

definition relax_from :: "arc \<Rightarrow> arc \<Rightarrow> double \<Rightarrow> TrspHandler \<Rightarrow> TrspHandler" where
  "relax_from c a x h =
     (if arc_from (m_edges h) a = arc_to (m_edges h) c \<and> 0 \<le> arc_cost (m_edges h) a then relax c a x h else h)"

lemma get_tot_cost_label:
  "sizes_ok h \<Longrightarrow> arc h c \<Longrightarrow> get_tot_cost h x (fst c) (\<not> snd c) = Inr (label h c + x)"
  by (cases c) (simp add: get_tot_cost_def sizes_ok_def)

lemma reach_relax:
  assumes "sizes_ok h" "arc h c" "j < length (m_edges h)" "m_edgeIndex (m_edges h ! j) = j"
    "m_edgeIndex e = fst c" "isStart = (\<not> snd c)"
  shows "reach_end j (m_edges h ! j) e isStart x h = Inr (relax c (j, True) x h)"
    and "reach_start j (m_edges h ! j) e isStart x h = Inr (relax c (j, False) x h)"
proof -
  have j: "j < length (m_dCost h)" "j < length (m_parent h)" using assms(1,3) by (simp_all add: sizes_ok_def)
  obtain i d where c: "c = (i, d)" by (cases c)
  have t: "get_tot_cost h y i (\<not> d) = Inr (label h (i, d) + y)" for y
    using get_tot_cost_label[OF assms(1,2), of y] by (simp add: c)
  have e: "m_edgeIndex e = i" "isStart = (\<not> d)" using assms(5,6) by (simp_all add: c)
  show "reach_end j (m_edges h ! j) e isStart x h = Inr (relax c (j, True) x h)"
    unfolding reach_end_def e t using j assms(4)
    by (simp add: relax_def relaxed_def Let_def c del: label.simps) (simp add: c)
  show "reach_start j (m_edges h ! j) e isStart x h = Inr (relax c (j, False) x h)"
    unfolding reach_start_def e t using j assms(4)
    by (simp add: relax_def relaxed_def Let_def c del: label.simps) (simp add: c)
qed

lemma same_graph_relax [simp]: "same_graph h (relax c a x h)" "same_graph h (relax_from c a x h)"
  by (simp_all add: relax_def relax_from_def Let_def)

lemma m_edges_relax [simp]: "m_edges (relax_from c a x h) = m_edges h" "m_edges (relax c a x h) = m_edges h"
  by (rule same_graphD[OF same_graph_relax(2)], rule same_graphD[OF same_graph_relax(1)])

lemma sizes_ok_relax [simp]: "sizes_ok h \<Longrightarrow> sizes_ok (relax_from c a x h)"
  by (simp add: relax_from_def relax_def Let_def sizes_ok_def relaxed_def)

lemma explore_edge_relax:
  assumes "sizes_ok h" "graph_ok (m_edges h) (m_adjacency h)" "arc h c" "j < length (m_edges h)"
    and "getRestrictionCost h (fst c) (m_edges h ! j) (\<not> snd c) = Inr x"
  shows "explore_edge (arc_to (m_edges h) c) (m_edges h ! fst c) (\<not> snd c) j h =
    Inr (relax_from c (j, False) x (relax_from c (j, True) x h))"
proof -
  have idx: "m_edgeIndex (m_edges h ! fst c) = fst c" "m_edgeIndex (m_edges h ! j) = j"
    using assms by (simp_all add: graph_ok_def)
  let ?h = "relax_from c (j, True) x h"
  have h: "sizes_ok ?h" "arc ?h c" "j < length (m_edges ?h)" "m_edges ?h = m_edges h"
    using assms by simp_all
  have 1: "(if startNode (m_edges h ! j) = arc_to (m_edges h) c \<and> 0 \<le> c_cost (m_edges h ! j)
      then reach_end j (m_edges h ! j) (m_edges h ! fst c) (\<not> snd c) x h else Inr h) = Inr ?h"
    using reach_relax(1)[OF assms(1,3,4) idx(2,1) refl, of x] by (simp add: relax_from_def)
  have 2: "(if endNode (m_edges h ! j) = arc_to (m_edges h) c \<and> 0 \<le> r_cost (m_edges h ! j)
      then reach_start j (m_edges h ! j) (m_edges h ! fst c) (\<not> snd c) x ?h else Inr ?h) =
      Inr (relax_from c (j, False) x ?h)"
    using reach_relax(2)[OF h(1,2,3), of "m_edges h ! fst c" "\<not> snd c" x] idx h(4)
    by (simp add: relax_from_def[of c "(j, False)"])
  show ?thesis
    using assms(4,5) by (simp add: explore_edge_def idx(1) 1 2)
qed

section \<open>The invariant\<close>

text \<open>From here on an arc is an opaque value: labels and predecessors are rewritten as functions.\<close>

declare label.simps [simp del] parent.simps [simp del] parent_index.simps [simp del]
  arc_cost.simps [simp del] arc_from.simps [simp del] arc_to.simps [simp del] nexts.simps [simp del]
  split_paired_All [simp del] split_paired_Ex [simp del]

definition reached :: "TrspHandler \<Rightarrow> arc \<Rightarrow> bool" where
  "reached h a \<longleftrightarrow> arc h a \<and> label h a < dbl_max"

text \<open>The arcs found by following the predecessors, first arc first.\<close>

inductive chain :: "TrspHandler \<Rightarrow> arc \<Rightarrow> arc list \<Rightarrow> bool" where
  chain_first: "parent h a = None \<Longrightarrow> chain h a [a]"
| chain_next: "parent h a = Some c \<Longrightarrow> chain h c cs \<Longrightarrow> chain h a (cs @ [a])"

inductive_cases chainE: "chain h a as"

definition arc_ok :: "TrspHandler \<Rightarrow> arc \<Rightarrow> bool" where
  "arc_ok h a \<longleftrightarrow>
     0 \<le> label h a \<and> label h a \<le> dbl_max \<and> (reached h a \<longrightarrow> 0 \<le> arc_cost (m_edges h) a) \<and>
     (case parent h a of
        None \<Rightarrow> parent_index h a = 0 \<and>
          (reached h a \<longrightarrow> arc_from (m_edges h) a = m_start_vertex h \<and> label h a = arc_cost (m_edges h) a)
      | Some c \<Rightarrow> reached h a \<and> reached h c \<and> arc_to (m_edges h) c = arc_from (m_edges h) a \<and>
          arc_to (m_edges h) c \<noteq> m_end_vertex h \<and> label h c + arc_cost (m_edges h) a \<le> label h a) \<and>
     (\<exists>as. chain h a as)"

definition search_ok :: "TrspHandler \<Rightarrow> bool" where
  "search_ok h \<longleftrightarrow>
     sizes_ok h \<and> graph_ok (m_edges h) (m_adjacency h) \<and> (\<forall>a. arc h a \<longrightarrow> arc_ok h a) \<and>
     pdp_inv (m_que h) \<and> (\<forall>(k, a) \<in> set (m_que h). reached h a \<and> label h a \<le> k)"

lemma dbl_add_mono: "0 \<le> (x :: double) \<Longrightarrow> x \<le> y \<Longrightarrow> 0 \<le> z \<Longrightarrow> x + z \<le> y + z"
  by (cases x; cases y; cases z) (auto simp: zero_double_def)

lemma dbl_le_add: "0 \<le> (x :: double) \<Longrightarrow> 0 \<le> z \<Longrightarrow> x \<le> x + z"
  by (cases x; cases z) (auto simp: zero_double_def)

lemma dbl_max_pos [simp]: "0 \<le> dbl_max" "0 < dbl_max"
proof -
  have "(2 :: real) ^ 971 < 2 ^ 1024" by (rule power_strict_increasing) simp_all
  then show "0 \<le> dbl_max" "0 < dbl_max" by (simp_all add: dbl_max_def zero_double_def)
qed

lemma dbl_max_not_nan [simp]: "dbl_max \<noteq> NaN"
  by (simp add: dbl_max_def)

lemma reached_arc: "reached h a \<Longrightarrow> arc h a"
  by (simp add: reached_def)

lemma search_okD:
  assumes "search_ok h"
  shows "sizes_ok h" "graph_ok (m_edges h) (m_adjacency h)" "pdp_inv (m_que h)"
    "arc h a \<Longrightarrow> arc_ok h a" "(k, a) \<in> set (m_que h) \<Longrightarrow> reached h a \<and> label h a \<le> k"
  using assms unfolding search_ok_def by (blast, blast, blast, blast, auto)

lemma search_okI:
  assumes "sizes_ok h" "graph_ok (m_edges h) (m_adjacency h)" "\<And>a. arc h a \<Longrightarrow> arc_ok h a" "pdp_inv (m_que h)"
    and "\<And>k a. (k, a) \<in> set (m_que h) \<Longrightarrow> reached h a \<and> label h a \<le> k"
  shows "search_ok h"
  using assms unfolding search_ok_def by blast

text \<open>Labels do not decrease along a chain.\<close>

lemma chain_labels:
  assumes "chain h a as" "search_ok h" "reached h a" "b \<in> set as"
  shows "reached h b \<and> label h b \<le> label h a"
  using assms
proof (induction rule: chain.induct)
  case (chain_first h a)
  then show ?case
    using search_okD(4)[of h a] by (auto simp: arc_ok_def reached_def dbl_le_iff)
next
  case (chain_next h a c cs)
  note a = search_okD(4)[OF chain_next.prems(1) reached_arc[OF chain_next.prems(2)]]
  then have c: "reached h c" "label h c + arc_cost (m_edges h) a \<le> label h a"
    using chain_next.hyps(1) by (simp_all add: arc_ok_def)
  have "0 \<le> label h c" using search_okD(4)[OF chain_next.prems(1) reached_arc[OF c(1)]] by (simp add: arc_ok_def)
  moreover have "0 \<le> arc_cost (m_edges h) a" using a chain_next.prems(2) by (simp add: arc_ok_def)
  ultimately have le: "label h c \<le> label h a" using dbl_le_add c(2) dbl_le_trans by blast
  show ?case
  proof (cases "b = a")
    case True
    have "label h a \<noteq> NaN" using a by (simp add: arc_ok_def dbl_le_iff)
    then show ?thesis using True chain_next.prems(2) by (simp add: dbl_le_refl)
  next
    case False
    then have "reached h b \<and> label h b \<le> label h c"
      using chain_next.IH[OF chain_next.prems(1) c(1)] chain_next.prems(3) by simp
    then show ?thesis using le dbl_le_trans by blast
  qed
qed

lemma chain_same_parents:
  assumes "chain h a as" "\<And>b. b \<in> set as \<Longrightarrow> parent h' b = parent h b"
  shows "chain h' a as"
  using assms by (induction rule: chain.induct) (auto intro: chain.intros)

lemma chain_set: "chain h a as \<Longrightarrow> a \<in> set as"
  by (induction rule: chain.induct) auto

lemma chain_det: "chain h a as \<Longrightarrow> chain h a bs \<Longrightarrow> as = bs"
proof (induction arbitrary: bs rule: chain.induct)
  case (chain_first h a)
  from chain_first.prems show ?case by (rule chainE) (use chain_first.hyps in auto)
next
  case (chain_next h a c cs)
  from chain_next.prems obtain cs' where "bs = cs' @ [a]" "chain h c cs'"
    by (rule chainE) (use chain_next.hyps(1) in auto)
  then show ?case using chain_next.IH by simp
qed

lemma chain_prefix: "chain h a as \<Longrightarrow> b \<in> set as \<Longrightarrow> \<exists>bs cs. as = bs @ cs \<and> chain h b bs"
proof (induction rule: chain.induct)
  case (chain_first h a)
  then show ?case by (auto intro: chain.chain_first)
next
  case (chain_next h a c cs)
  then show ?case
  proof (cases "b = a")
    case True
    then show ?thesis
      using chain.chain_next[OF chain_next.hyps] by (intro exI[of _ "cs @ [a]"] exI[of _ "[]"]) simp
  next
    case False
    then obtain bs ds where "cs = bs @ ds" "chain h b bs" using chain_next by auto
    then show ?thesis by (intro exI[of _ bs] exI[of _ "ds @ [a]"]) simp
  qed
qed

lemma chain_distinct: "chain h a as \<Longrightarrow> distinct as"
proof (induction rule: chain.induct)
  case (chain_next h a c cs)
  have "a \<notin> set cs"
  proof
    assume "a \<in> set cs"
    then obtain bs ds where "cs = bs @ ds" "chain h a bs" using chain_prefix chain_next.hyps(2) by blast
    moreover from this(2) have "bs = cs @ [a]" using chain_det chain.chain_next[OF chain_next.hyps] by blast
    ultimately show False by simp
  qed
  then show ?case using chain_next.IH by simp
qed simp

text \<open>A new predecessor of \<open>a\<close> that \<open>a\<close> does not lead to keeps all chains finite.\<close>

lemma chain_put:
  assumes "chain h b bs" "parent h' = (parent h)(a := p)" "chain h' a as"
  shows "\<exists>cs. chain h' b cs"
  using assms
proof (induction rule: chain.induct)
  case (chain_first h b)
  then show ?case by (cases "b = a") (use chain.chain_first[of h' b] in auto)
next
  case (chain_next h b c cs)
  then show ?case by (cases "b = a") (use chain.chain_next[of h' b c] in auto)
qed

section \<open>Steps keep the invariant\<close>

lemma pdp_push: "pdp_inv q \<Longrightarrow> k \<noteq> NaN \<Longrightarrow> pdp_inv (insert_by pdp_less (k, a) q)"
  by (rule pdp.push_inv) simp_all

text \<open>When the label of \<open>a\<close> goes down, every other arc keeps its part of the invariant.\<close>

lemma arc_ok_other:
  assumes "arc_ok h b" "b \<noteq> a" "arc h a" "arc_ok h a"
    and "label h' = (label h)(a := v)" "parent h' b = parent h b" "parent_index h' b = parent_index h b"
    and "same_graph h h'" "0 \<le> v" "v \<le> label h a" "v < dbl_max" "\<exists>bs. chain h' b bs"
  shows "arc_ok h' b"
proof -
  note g = same_graphD[OF assms(8)]
  have reach: "reached h c \<Longrightarrow> reached h' c" "reached h' b = reached h b" for c
    using assms(2,5,11) g(1) by (auto simp: reached_def)
  show ?thesis
  proof (cases "parent h b")
    case None
    then show ?thesis using assms reach unfolding arc_ok_def g by auto
  next
    case (Some c)
    then have c: "reached h c" "label h c + arc_cost (m_edges h) b \<le> label h b" "reached h b"
        "0 \<le> arc_cost (m_edges h) b"
      using assms(1) by (auto simp: arc_ok_def)
    have "label h' c + arc_cost (m_edges h) b \<le> label h b"
    proof (cases "c = a")
      case True
      then have "label h' c + arc_cost (m_edges h) b \<le> label h c + arc_cost (m_edges h) b"
        using assms(5,9,10) c(4) by (simp add: dbl_add_mono)
      then show ?thesis using c(2) dbl_le_trans by blast
    qed (use assms(5) c(2) in simp)
    then show ?thesis
      using Some assms reach c unfolding arc_ok_def g by auto
  qed
qed

lemma search_ok_relaxed:
  assumes "search_ok h" "reached h c" "arc h a" "v < label h a" "label h c + arc_cost (m_edges h) a \<le> v"
    and "0 \<le> arc_cost (m_edges h) a" "arc_to (m_edges h) c = arc_from (m_edges h) a"
    and "arc_to (m_edges h) c \<noteq> m_end_vertex h"
  shows "search_ok (relaxed c a v h)"
proof -
  let ?h = "relaxed c a v h"
  note s = relaxed_simps[OF search_okD(1)[OF assms(1)] assms(3)]
  have g: "m_edges ?h = m_edges h" "m_adjacency ?h = m_adjacency h" "m_start_vertex ?h = m_start_vertex h"
      "m_end_vertex ?h = m_end_vertex h"
    using same_graphD[OF same_graph_put(1)] by blast+
  note a = search_okD(4)[OF assms(1,3)]
  note c = search_okD(4)[OF assms(1) reached_arc[OF assms(2)]]
  have v: "0 \<le> v" "v < dbl_max" "label h c \<le> v"
    using a c assms(4,5,6) dbl_le_add[of "label h c"] dbl_add_nonneg[of "label h c" "arc_cost (m_edges h) a"]
    by (auto simp: arc_ok_def intro: dbl_le_trans dbl_less_le_trans)
  obtain cs where cs: "chain h c cs" using c by (auto simp: arc_ok_def)
  have "a \<notin> set cs"
  proof
    assume "a \<in> set cs"
    then have "label h a \<le> label h c" using chain_labels[OF cs assms(1,2)] by simp
    then show False using v(3) assms(4) dbl_le_less_trans dbl_le_trans dbl_less_irrefl by blast
  qed
  then have "chain ?h c cs" using cs s(2) by (intro chain_same_parents[OF cs]) auto
  then have chain: "chain ?h a (cs @ [a])" using s(2) by (intro chain_next) simp_all
  have ca: "c \<noteq> a" using chain_set[OF cs] \<open>a \<notin> set cs\<close> by blast
  have "arc_ok ?h b" if ab: "arc h b" for b
  proof (cases "b = a")
    case True
    then show ?thesis
      using s v assms(2,3,5-8) ca g chain c unfolding arc_ok_def by (auto simp: reached_def dbl_less_imp_le)
  next
    case False
    obtain bs where "chain h b bs" using search_okD(4)[OF assms(1) ab] by (auto simp: arc_ok_def)
    from chain_put[OF this s(2) chain] have "\<exists>bs. chain ?h b bs" .
    then show ?thesis
      using arc_ok_other[OF search_okD(4)[OF assms(1) ab] False assms(3) a s(1) _ _ same_graph_put(1)]
        False s(2,3) v assms(4) by (simp add: dbl_less_imp_le)
  qed
  moreover have "reached ?h b \<and> label ?h b \<le> k" if "(k, b) \<in> set (m_que ?h)" for k b
    using that search_okD(5)[OF assms(1), of k b] v assms(3,4) s(1,5) g(1)
    by (auto simp: reached_def dbl_le_refl dbl_nonneg_not_nan intro: dbl_less_trans dbl_less_imp_le dbl_less_le_trans)
  moreover have "pdp_inv (m_que ?h)"
    unfolding s(5) by (rule pdp_push[OF search_okD(3)[OF assms(1)] dbl_nonneg_not_nan[OF v(1)]])
  ultimately show ?thesis
    using s(4) g search_okD(2)[OF assms(1)] by (intro search_okI) simp_all
qed

text \<open>The first arcs: while no arc has a predecessor, the labels are the costs of single arcs.\<close>

lemma search_ok_started:
  assumes "search_ok h" "\<forall>b. arc h b \<longrightarrow> parent h b = None" "arc h a"
    and "arc_from (m_edges h) a = m_start_vertex h" "0 \<le> arc_cost (m_edges h) a" "arc_cost (m_edges h) a < dbl_max"
  shows "search_ok (started a h)" "\<forall>b. arc h b \<longrightarrow> parent (started a h) b = None"
proof -
  let ?h = "started a h"
  let ?v = "arc_cost (m_edges h) a"
  note s = started_simps[OF search_okD(1)[OF assms(1)] assms(3)]
  have g: "m_edges ?h = m_edges h" "m_adjacency ?h = m_adjacency h" "m_start_vertex ?h = m_start_vertex h"
      "m_end_vertex ?h = m_end_vertex h"
    using same_graphD[OF same_graph_put(2)] by blast+
  show none: "\<forall>b. arc h b \<longrightarrow> parent ?h b = None" using assms(2) s(2) by simp
  have "arc_ok ?h b" if "arc h b" for b
  proof -
    from none assms(2) that have p: "parent ?h b = None" "parent h b = None" by blast+
    then have "chain ?h b [b]" by (intro chain_first)
    then show ?thesis
      using search_okD(4)[OF assms(1) that] assms(3-6) p s(1,3) g
      unfolding arc_ok_def by (auto simp: reached_def dbl_less_imp_le)
  qed
  moreover have "reached ?h b \<and> label ?h b \<le> k" if "(k, b) \<in> set (m_que ?h)" for k b
  proof (cases "(k, b) = (?v, a)")
    case True
    then show ?thesis using assms s(1) g(1) by (simp add: reached_def dbl_le_refl dbl_nonneg_not_nan)
  next
    case False
    then have old: "reached h b" "label h b \<le> k"
      using that s(5) search_okD(5)[OF assms(1), of k b] by auto
    moreover have "label h a = ?v" if "b = a"
      using that old(1) assms(2,3) search_okD(4)[OF assms(1,3)] by (simp add: arc_ok_def)
    ultimately show ?thesis using assms(6) s(1) g(1) by (auto simp: reached_def)
  qed
  moreover have "pdp_inv (m_que ?h)"
    unfolding s(5) by (rule pdp_push[OF search_okD(3)[OF assms(1)] dbl_nonneg_not_nan[OF assms(5)]])
  ultimately show "search_ok ?h"
    using s(4) g search_okD(2)[OF assms(1)] by (intro search_okI) simp_all
qed

section \<open>Turn restrictions\<close>

text \<open>
  A precedence list is followed beyond the first arc of the walk with edge index 0, whose number
  must then differ, or the next step indexes a vector with -1.
\<close>

definition rules_ok :: "TrspHandler \<Rightarrow> bool" where
  "rules_ok h \<longleftrightarrow>
     (\<forall>(d, rs) \<in> set (m_ruleTable h). \<forall>r \<in> set rs. 0 \<le> rule_cost r \<and>
        edgeID (m_edges h ! 0) \<notin> set (tl (m_precedencelist r)))"

definition edge_ids :: "TrspHandler \<Rightarrow> arc list \<Rightarrow> int list" where
  "edge_ids h as = map (\<lambda>a. edgeID (m_edges h ! fst a)) as"

lemma edge_ids_simps [simp]:
  "edge_ids h [] = []" "edge_ids h (as @ bs) = edge_ids h as @ edge_ids h bs"
  "edge_ids h (a # as) = edgeID (m_edges h ! fst a) # edge_ids h as" "rev (edge_ids h as) = edge_ids h (rev as)"
  by (simp_all add: edge_ids_def rev_map)

lemma at_pos_side: "at_pos xs (pos_of b) = Inr (side b xs)"
  by simp

lemma arc_at_Some: "arc_at i p = Some c \<longleftrightarrow> p = pos_of (snd c) \<and> i = fst c"
  by (cases p; cases c) auto

text \<open>A rule whose precedence list goes on behind the first arc of the walk with the number of edge 0.\<close>

definition overruns :: "TrspHandler \<Rightarrow> arc list \<Rightarrow> int list \<Rightarrow> bool" where
  "overruns h as ps \<longleftrightarrow> prefix (rev (edge_ids h as) @ [edgeID (m_edges h ! 0)]) ps"

lemma rule_applies_exact:
  assumes "chain h a as" "search_ok h" "arc h a"
  shows "rule_applies h ps (fst a) (pos_of (snd a)) =
    (if overruns h as ps then Inl UndefinedBehaviour else Inr (prefix ps (rev (edge_ids h as))))"
  using assms
proof (induction arbitrary: ps rule: chain.induct)
  case (chain_first h a)
  obtain i b where a: "a = (i, b)" by (cases a)
  have i: "i < length (m_edges h)" "i < length (m_parent h)" and n: "0 < length (m_edges h)" "0 < length (m_parent h)"
    using chain_first.prems(1,2) search_okD(1) by (auto simp: a sizes_ok_def)
  have none: "side b (v_pos (m_parent h ! i)) = ILLEGAL" "side b (e_idx (m_parent h ! i)) = 0"
    using chain_first.hyps search_okD(4)[OF chain_first.prems(1,2)]
    by (cases "side b (v_pos (m_parent h ! i))"; simp add: a arc_ok_def parent.simps parent_index.simps)+
  have "rule_applies h qs 0 ILLEGAL =
      (if prefix [edgeID (m_edges h ! 0)] qs then Inl UndefinedBehaviour else Inr (qs = []))" for qs
    using n by (cases qs) auto
  then show ?case
    using i none by (cases ps) (auto simp: a at_pos_side overruns_def simp del: at_pos.simps)
next
  case (chain_next h a c cs)
  obtain i b where a: "a = (i, b)" by (cases a)
  have i: "i < length (m_edges h)" "i < length (m_parent h)"
    using chain_next.prems(1,2) search_okD(1) by (auto simp: a sizes_ok_def)
  have p: "side b (v_pos (m_parent h ! i)) = pos_of (snd c)" "side b (e_idx (m_parent h ! i)) = fst c"
    using chain_next.hyps(1) by (simp_all add: a arc_at_Some parent.simps)
  have "arc h c" using search_okD(4)[OF chain_next.prems(1,2)] chain_next.hyps(1) by (auto simp: arc_ok_def reached_def)
  note IH = chain_next.IH[OF chain_next.prems(1) this]
  show ?case
    using i p IH by (cases ps) (auto simp: a at_pos_side overruns_def simp del: at_pos.simps)
qed

lemma chain_nonempty: "chain h a as \<Longrightarrow> as \<noteq> []"
  by (induction rule: chain.induct) simp_all

lemma rule_applies_chain:
  assumes "chain h a as" "search_ok h" "arc h a" "edgeID (m_edges h ! 0) \<notin> set (tl ps)"
  shows "rule_applies h ps (fst a) (pos_of (snd a)) = Inr (prefix ps (rev (edge_ids h as)))"
proof -
  obtain b bs where "rev as = b # bs" using chain_nonempty[OF assms(1)] by (cases "rev as") auto
  then have "\<not> overruns h as ps" using assms(4) by (auto simp: overruns_def dest: set_mono_prefix elim!: prefixE)
  then show ?thesis using rule_applies_exact[OF assms(1-3)] by simp
qed

text \<open>The extra cost of edge \<open>e\<close> after the walk \<open>as\<close>: all rules that end in \<open>e\<close> and match the walk.\<close>

definition restriction_cost_after :: "TrspHandler \<Rightarrow> arc list \<Rightarrow> EdgeInfo \<Rightarrow> double" where
  "restriction_cost_after h as e =
     sum_list (map rule_cost (filter (\<lambda>r. prefix (m_precedencelist r) (rev (edge_ids h as)))
       (case map_of (m_ruleTable h) (edgeID e) of None \<Rightarrow> [] | Some rs \<Rightarrow> rs)))"

lemma foldE_rule_costs:
  assumes "\<And>r. r \<in> set rs \<Longrightarrow> f r = Inr (P r)"
  shows "foldE (\<lambda>r c. bindE (f r) (\<lambda>flag. Inr (c + (if flag then rule_cost r else 0)))) rs c =
    Inr (c + sum_list (map rule_cost (filter P rs)))"
  using assms by (induction rs arbitrary: c) (auto simp: add.assoc)

lemma getRestrictionCost_chain:
  assumes "chain h a as" "search_ok h" "arc h a" "rules_ok h"
  shows "getRestrictionCost h (fst a) e (\<not> snd a) = Inr (restriction_cost_after h as e)"
proof (cases "map_of (m_ruleTable h) (edgeID e)")
  case None
  then show ?thesis by (simp add: getRestrictionCost_def restriction_cost_after_def)
next
  case (Some rs)
  have pos: "(if \<not> snd a then C_EDGE else RC_EDGE) = pos_of (snd a)" by simp
  have "rule_applies h (m_precedencelist r) (fst a) (pos_of (snd a)) =
      Inr (prefix (m_precedencelist r) (rev (edge_ids h as)))" if "r \<in> set rs" for r
    using that assms(4) map_of_SomeD[OF Some] by (intro rule_applies_chain[OF assms(1-3)]) (auto simp: rules_ok_def)
  then show ?thesis
    using Some foldE_rule_costs[of rs "\<lambda>r. rule_applies h (m_precedencelist r) (fst a) (pos_of (snd a))"
        "\<lambda>r. prefix (m_precedencelist r) (rev (edge_ids h as))" 0]
    unfolding getRestrictionCost_def restriction_cost_after_def pos by simp
qed

text \<open>Without conditions on the rules: the vectors are indexed with -1 exactly when a rule overruns the walk.\<close>

lemma foldE_rule_costs_exact:
  assumes "\<And>r. r \<in> set rs \<Longrightarrow> f r = (if bad r then Inl e else Inr (P r))"
  shows "foldE (\<lambda>r c. bindE (f r) (\<lambda>flag. Inr (c + (if flag then rule_cost r else 0)))) rs c =
    (if \<exists>r \<in> set rs. bad r then Inl e else Inr (c + (\<Sum>r\<leftarrow>rs. if P r then rule_cost r else 0)))"
  using assms by (induction rs arbitrary: c) (auto simp: add.assoc)

lemma getRestrictionCost_exact:
  assumes "chain h a as" "search_ok h" "arc h a"
  defines "rs \<equiv> \<lambda>e. case map_of (m_ruleTable h) (edgeID e) of None \<Rightarrow> [] | Some rs \<Rightarrow> rs"
  shows "getRestrictionCost h (fst a) e (\<not> snd a) =
    (if \<exists>r \<in> set (rs e). overruns h as (m_precedencelist r) then Inl UndefinedBehaviour
     else Inr (\<Sum>r\<leftarrow>rs e. if prefix (m_precedencelist r) (rev (edge_ids h as)) then rule_cost r else 0))"
proof -
  have pos: "(if \<not> snd a then C_EDGE else RC_EDGE) = pos_of (snd a)" by simp
  have eq: "getRestrictionCost h (fst a) e (\<not> snd a) =
      foldE (\<lambda>r c. bindE (rule_applies h (m_precedencelist r) (fst a) (pos_of (snd a)))
        (\<lambda>flag. Inr (c + (if flag then rule_cost r else 0)))) (rs e) 0"
    unfolding getRestrictionCost_def rs_def pos by (cases "map_of (m_ruleTable h) (edgeID e)") simp_all
  show ?thesis
    unfolding eq by (subst foldE_rule_costs_exact[OF rule_applies_exact[OF assms(1-3)]]) simp
qed

lemma sum_list_nonneg_dbl: "(\<And>x. x \<in> set xs \<Longrightarrow> 0 \<le> (x :: double)) \<Longrightarrow> 0 \<le> sum_list xs"
proof (induction xs)
  case Nil
  show ?case by (simp add: zero_double_def)
next
  case (Cons x xs)
  then show ?case using dbl_add_nonneg[of x "sum_list xs"] by simp
qed

lemma restriction_cost_nonneg: "rules_ok h \<Longrightarrow> 0 \<le> restriction_cost_after h as e"
  unfolding restriction_cost_after_def
  by (rule sum_list_nonneg_dbl, cases "map_of (m_ruleTable h) (edgeID e)")
    (auto simp: rules_ok_def dest!: map_of_SomeD)

section \<open>One round of the exploration\<close>

lemma search_ok_relax_from:
  assumes "search_ok h" "reached h c" "arc h a" "0 \<le> x" "arc_to (m_edges h) c \<noteq> m_end_vertex h"
  shows "search_ok (relax_from c a x h)"
proof (cases "arc_from (m_edges h) a = arc_to (m_edges h) c \<and> 0 \<le> arc_cost (m_edges h) a \<and>
    label h c + (arc_cost (m_edges h) a + x) < label h a")
  case True
  have "0 \<le> label h c + arc_cost (m_edges h) a"
    using search_okD(4)[OF assms(1) reached_arc[OF assms(2)]] True by (auto simp: arc_ok_def intro: dbl_add_nonneg)
  then have "label h c + arc_cost (m_edges h) a \<le> label h c + (arc_cost (m_edges h) a + x)"
    using dbl_le_add assms(4) by (simp add: add.assoc[symmetric])
  then show ?thesis
    using True assms search_ok_relaxed[OF assms(1-3)] by (simp add: relax_from_def relax_def Let_def)
qed (use assms(1) in \<open>auto simp: relax_from_def relax_def Let_def\<close>)

lemma label_relax_from:
  assumes "sizes_ok h" "arc h a"
  shows "label (relax_from c a x h) b =
    (if b = a \<and> arc_from (m_edges h) a = arc_to (m_edges h) c \<and> 0 \<le> arc_cost (m_edges h) a \<and>
        label h c + (arc_cost (m_edges h) a + x) < label h a
     then label h c + (arc_cost (m_edges h) a + x) else label h b)"
  using relaxed_simps(1)[OF assms] by (simp add: relax_from_def relax_def Let_def)

lemma reached_relax_from:
  assumes "search_ok h" "arc h a" "reached h b"
  shows "reached (relax_from c a x h) b"
  using assms search_okD(1)[OF assms(1)] search_okD(4)[OF assms(1,2)]
  by (auto simp: reached_def label_relax_from intro: dbl_less_trans)

text \<open>What stays when the search goes on.\<close>

definition progress :: "TrspHandler \<Rightarrow> TrspHandler \<Rightarrow> bool" where
  "progress h h' \<longleftrightarrow> same_graph h h' \<and> (\<forall>a. arc h a \<longrightarrow> label h' a \<le> label h a) \<and> (\<forall>a. reached h a \<longrightarrow> reached h' a)"

lemma progress_refl: "search_ok h \<Longrightarrow> progress h h"
  using search_okD(4) by (auto simp: progress_def arc_ok_def intro!: dbl_le_refl dbl_nonneg_not_nan)

lemma progress_trans: "progress h h' \<Longrightarrow> progress h' h'' \<Longrightarrow> progress h h''"
  unfolding progress_def by (metis dbl_le_trans same_graphD(1) same_graph_trans)

lemma progress_relax_from:
  assumes "search_ok h" "arc h a"
  shows "progress h (relax_from c a x h)"
proof -
  have "label (relax_from c a x h) b \<le> label h b" if "arc h b" for b
    using that search_okD(1)[OF assms(1)] search_okD(4)[OF assms(1), of b] assms(2)
    by (auto simp: label_relax_from arc_ok_def dbl_less_imp_le dbl_le_refl dbl_nonneg_not_nan)
  then show ?thesis using reached_relax_from[OF assms] by (simp add: progress_def)
qed

lemma explore_edge_step:
  assumes "search_ok h" "rules_ok h" "reached h c" "arc_to (m_edges h) c \<noteq> m_end_vertex h" "j < length (m_edges h)"
  shows "\<exists>x. 0 \<le> x \<and> (\<forall>as. chain h c as \<longrightarrow> x = restriction_cost_after h as (m_edges h ! j)) \<and>
    explore_edge (arc_to (m_edges h) c) (m_edges h ! fst c) (\<not> snd c) j h =
      Inr (relax_from c (j, False) x (relax_from c (j, True) x h)) \<and>
    search_ok (relax_from c (j, False) x (relax_from c (j, True) x h)) \<and>
    progress h (relax_from c (j, False) x (relax_from c (j, True) x h))"
proof -
  note arc = reached_arc[OF assms(3)]
  obtain as where as: "chain h c as" using search_okD(4)[OF assms(1) arc] by (auto simp: arc_ok_def)
  define x where "x = restriction_cost_after h as (m_edges h ! j)"
  let ?h1 = "relax_from c (j, True) x h"
  have x: "0 \<le> x" using restriction_cost_nonneg[OF assms(2)] by (simp add: x_def)
  have 1: "search_ok ?h1" "progress h ?h1"
    using assms x by (auto intro!: search_ok_relax_from progress_relax_from)
  then have "reached ?h1 c" using assms(3) by (simp add: progress_def)
  then have 2: "search_ok (relax_from c (j, False) x ?h1)" "progress ?h1 (relax_from c (j, False) x ?h1)"
    using 1 x assms(4,5) same_graphD(4)[OF same_graph_relax(2)[of h c "(j, True)" x]]
    by (auto intro!: search_ok_relax_from progress_relax_from)
  have "explore_edge (arc_to (m_edges h) c) (m_edges h ! fst c) (\<not> snd c) j h = Inr (relax_from c (j, False) x ?h1)"
    using getRestrictionCost_chain[OF as assms(1) arc assms(2), of "m_edges h ! j"] assms(5)
    by (intro explore_edge_relax search_okD(1,2)[OF assms(1)] arc) (simp_all add: x_def)
  moreover have "x = restriction_cost_after h bs (m_edges h ! j)" if "chain h c bs" for bs
    using chain_det[OF that as] by (simp add: x_def)
  ultimately show ?thesis using x 2 progress_trans[OF 1(2) 2(2)] by blast
qed

text \<open>The whole loop of \<open>explore\<close>.\<close>

lemma rules_ok_same: "same_graph h h' \<Longrightarrow> rules_ok h' = rules_ok h"
  by (simp add: rules_ok_def same_graph_def)

lemma explore_loop:
  assumes "search_ok h" "rules_ok h" "reached h c" "arc_to (m_edges h) c \<noteq> m_end_vertex h"
    and "set js \<subseteq> {..<length (m_edges h)}"
  shows "\<exists>h'. foldE (explore_edge (arc_to (m_edges h) c) (m_edges h ! fst c) (\<not> snd c)) js h = Inr h' \<and>
    search_ok h' \<and> progress h h'"
  using assms
proof (induction js arbitrary: h)
  case Nil
  then show ?case using progress_refl by simp
next
  case (Cons j js)
  then obtain h1 where h1: "explore_edge (arc_to (m_edges h) c) (m_edges h ! fst c) (\<not> snd c) j h = Inr h1"
      "search_ok h1" "progress h h1"
    using explore_edge_step[OF Cons.prems(1-4), of j] by auto
  note g = same_graphD[of h h1] rules_ok_same[of h h1]
  have same: "same_graph h h1" and "reached h1 c" using h1(3) Cons.prems(3) by (simp_all add: progress_def)
  then obtain h' where "foldE (explore_edge (arc_to (m_edges h) c) (m_edges h ! fst c) (\<not> snd c)) js h1 = Inr h'"
      "search_ok h'" "progress h1 h'"
    using Cons.IH[OF h1(2)] Cons.prems g[OF same] by auto
  then show ?case using h1 progress_trans by auto
qed

lemma explore_ok:
  assumes "search_ok h" "rules_ok h" "reached h c" "arc_to (m_edges h) c \<noteq> m_end_vertex h"
  shows "\<exists>h'. explore (arc_to (m_edges h) c) (m_edges h ! fst c) (\<not> snd c) h = Inr h' \<and> search_ok h' \<and> progress h h'"
proof -
  have "nexts (m_edges h) (fst c, snd c) \<subseteq> {..<length (m_edges h)}"
    using search_okD(2)[OF assms(1)] reached_arc[OF assms(3)] unfolding graph_ok_def by blast
  then show ?thesis
    unfolding explore_def by (intro explore_loop[OF assms]) (cases c, simp add: nexts.simps)
qed

section \<open>The first arcs\<close>

definition costs_ok :: "TrspHandler \<Rightarrow> bool" where
  "costs_ok h \<longleftrightarrow> (\<forall>a. arc h a \<longrightarrow> 0 \<le> arc_cost (m_edges h) a \<longrightarrow> arc_cost (m_edges h) a < dbl_max)"

definition start_arc :: "TrspHandler \<Rightarrow> arc \<Rightarrow> bool" where
  "start_arc h a \<longleftrightarrow> arc_from (m_edges h) a = m_start_vertex h \<and> 0 \<le> arc_cost (m_edges h) a"

lemma start_same: "same_graph h h' \<Longrightarrow> start_arc h' a = start_arc h a" "same_graph h h' \<Longrightarrow> costs_ok h' = costs_ok h"
  by (simp_all add: start_arc_def costs_ok_def same_graph_def)

lemma start_from_started:
  assumes "sizes_ok h" "s < length (m_edges h)" "m_edgeIndex (m_edges h ! s) = s"
  shows "start_from s h =
    (let h1 = (if start_arc h (s, True) then started (s, True) h else h) in
     Inr (if start_arc h (s, False) then started (s, False) h1 else h1))"
  using assms
  by (simp add: start_from_def start_arc_def Let_def sizes_ok_def started_def arc_from.simps arc_cost.simps)

text \<open>The state between the steps of \<open>initialize_que\<close>: \<open>A\<close> are the arcs started so far.\<close>

definition starting :: "TrspHandler \<Rightarrow> arc set \<Rightarrow> bool" where
  "starting h A \<longleftrightarrow>
     search_ok h \<and> (\<forall>b. arc h b \<longrightarrow> parent h b = None) \<and>
     (\<forall>a \<in> A. start_arc h a \<longrightarrow> (arc_cost (m_edges h) a, a) \<in> set (m_que h) \<and> label h a = arc_cost (m_edges h) a)"

lemma start_step:
  assumes "starting h A" "costs_ok h" "arc h a"
  defines "h1 \<equiv> if start_arc h a then started a h else h"
  shows "starting h1 (insert a A) \<and> same_graph h h1"
proof (cases "start_arc h a")
  case True
  have i: "search_ok h" "\<forall>b. arc h b \<longrightarrow> parent h b = None" using assms(1) by (simp_all add: starting_def)
  have a: "arc_from (m_edges h) a = m_start_vertex h" "0 \<le> arc_cost (m_edges h) a" "arc_cost (m_edges h) a < dbl_max"
    using True assms(2,3) by (simp_all add: start_arc_def costs_ok_def)
  note s = started_simps[OF search_okD(1)[OF i(1)] assms(3)]
  have g: "same_graph h (started a h)" by simp
  have "start_arc (started a h) b = start_arc h b" for b using start_same(1)[OF g] .
  then show ?thesis
    using True search_ok_started[OF i assms(3) a] assms(1) s(1,5) same_graphD(1)[OF g] g
    by (auto simp: h1_def starting_def)
qed (use assms in \<open>auto simp: starting_def\<close>)

lemma start_loop:
  assumes "starting h A" "costs_ok h" "set is \<subseteq> {..<length (m_edges h)}"
  shows "\<exists>h'. foldE start_from is h = Inr h' \<and> starting h' (A \<union> set is \<times> UNIV) \<and> same_graph h h'"
  using assms
proof (induction "is" arbitrary: h A)
  case Nil
  then show ?case by auto
next
  case (Cons s "is")
  define h1 where "h1 = (if start_arc h (s, True) then started (s, True) h else h)"
  define h2 where "h2 = (if start_arc h1 (s, False) then started (s, False) h1 else h1)"
  have s: "sizes_ok h" "s < length (m_edges h)" "m_edgeIndex (m_edges h ! s) = s"
    using Cons.prems search_okD(1,2) unfolding starting_def graph_ok_def by auto
  have 1: "starting h1 (insert (s, True) A) \<and> same_graph h h1"
    unfolding h1_def by (rule start_step[OF Cons.prems(1,2)]) (simp add: s)
  then have c1: "costs_ok h1" "m_edges h1 = m_edges h" "start_arc h1 (s, False) = start_arc h (s, False)"
    using Cons.prems(2) start_same same_graphD(1) by blast+
  have 2: "starting h2 (insert (s, False) (insert (s, True) A)) \<and> same_graph h1 h2"
    unfolding h2_def using 1 by (intro start_step) (simp_all add: c1 s)
  then have c2: "costs_ok h2" "m_edges h2 = m_edges h"
    using c1 start_same same_graphD(1) by metis+
  have "start_from s h = Inr h2"
    using start_from_started[OF s] c1(3) by (simp add: Let_def h1_def[symmetric] h2_def)
  moreover obtain h' where h': "foldE start_from is h2 = Inr h'"
      "starting h' (insert (s, False) (insert (s, True) A) \<union> set is \<times> UNIV)" "same_graph h2 h'"
    using Cons.IH[OF conjunct1[OF 2] c2(1)] c2(2) Cons.prems(3) by auto
  moreover have "insert (s, False) (insert (s, True) A) \<union> set is \<times> UNIV = A \<union> set (s # is) \<times> UNIV"
    by (auto intro: prod_eqI)
  then have "starting h' (A \<union> set (s # is) \<times> UNIV)" using h'(2) by (simp only:)
  moreover have "same_graph h h'" using 1 2 h'(3) same_graph_trans by blast
  ultimately show ?case by (intro exI[of _ h']) simp
qed

lemma fresh_tables:
  assumes "m_parent h = replicate (Suc (length (m_edges h))) no_predecessor"
    and "m_dCost h = replicate (Suc (length (m_edges h))) max_costs"
    and "graph_ok (m_edges h) (m_adjacency h)" "m_que h = []"
  shows "search_ok h" "arc h a \<Longrightarrow> parent h a = None" "arc h a \<Longrightarrow> label h a = dbl_max"
proof -
  have l: "label h a = dbl_max" "parent h a = None" "parent_index h a = 0" if "arc h a" for a
    using that assms(1,2)
    by (cases a; simp add: label.simps parent.simps parent_index.simps no_predecessor_def max_costs_def
        nth_append del: replicate_Suc)+
  then have "arc_ok h a" if "arc h a" for a
    using l[OF that] chain_first[of h a] by (auto simp: arc_ok_def reached_def dbl_le_refl)
  then show "search_ok h"
    using assms by (intro search_okI) (simp_all add: sizes_ok_def pdp_inv_def)
  show "arc h a \<Longrightarrow> parent h a = None" "arc h a \<Longrightarrow> label h a = dbl_max" using l by blast+
qed

section \<open>The loop\<close>

lemma current_node_relax [simp]: "m_current_node (relax_from c a x h) = m_current_node h"
  by (simp add: relax_from_def relax_def relaxed_def Let_def)

definition popped :: "PDP list \<Rightarrow> arc \<Rightarrow> TrspHandler \<Rightarrow> TrspHandler" where
  "popped que a h = h\<lparr>m_que := que, m_current_node := arc_to (m_edges h) a\<rparr>"

lemma popped_simps [simp]:
  "m_edges (popped que a h) = m_edges h" "label (popped que a h) = label h" "parent (popped que a h) = parent h"
  "m_que (popped que a h) = que" "same_graph h (popped que a h)" "reached (popped que a h) = reached h"
  "m_end_vertex (popped que a h) = m_end_vertex h" "m_current_node (popped que a h) = arc_to (m_edges h) a"
  "parent_index (popped que a h) = parent_index h" "m_start_vertex (popped que a h) = m_start_vertex h"
  by (auto simp: popped_def same_graph_def reached_def fun_eq_iff label.simps parent.simps parent_index.simps)

lemma sizes_ok_popped: "sizes_ok (popped que a h) = sizes_ok h"
  by (simp add: sizes_ok_def popped_def)

lemma chain_popped: "chain h a as \<Longrightarrow> chain (popped que b h) a as"
  by (erule chain_same_parents) simp

lemma search_ok_popped:
  assumes "search_ok h" "m_que h = (k, a) # que"
  shows "search_ok (popped que a h)" "reached h a" "label h a \<le> k" "\<And>l b. (l, b) \<in> set que \<Longrightarrow> k \<le> l"
proof -
  note ok = search_okD[OF assms(1)]
  show "reached h a" "label h a \<le> k" using ok(5)[of k a] assms(2) by simp_all
  have pop: "pop_pdp (m_que h) = Some ((k, a), que)" using assms(2) by (simp add: pop_pdp_def)
  show "k \<le> l" if "(l, b) \<in> set que" for l b
  proof -
    have "\<not> pdp_less (l, b) (k, a)" using pdp.pop_least[OF ok(3) pop, of "(l, b)"] that by simp
    moreover have "l \<noteq> NaN" "k \<noteq> NaN" using ok(3) assms(2) that by (auto simp: pdp_inv_def)
    ultimately show ?thesis using dbl_linear[of k l] by (auto simp: pdp_less_def dbl_le_iff)
  qed
  have "arc_ok (popped que a h) b" if "arc h b" for b
    using ok(4)[OF that] chain_popped[of h b _ que a] unfolding arc_ok_def popped_simps by blast
  moreover have "reached h b \<and> label h b \<le> l" if "(l, b) \<in> set que" for l b
    using ok(5)[of l b] assms(2) that by simp
  ultimately show "search_ok (popped que a h)"
    using ok(1,2) pdp.pop_inv[OF ok(3) pop]
    by (intro search_okI; simp only: popped_simps sizes_ok_popped same_graphD(2)[OF popped_simps(5)])
qed

text \<open>
  The loop, for any invariant \<open>I\<close> that implies \<open>search_ok\<close> and any bound \<open>M\<close> that a round lowers.
  It ends at an arc into the end vertex, or with the queue empty.
\<close>

lemma exploration_loop_rule:
  assumes I: "\<And>h. I h \<Longrightarrow> search_ok h"
    and step: "\<And>h k a que. I h \<Longrightarrow> m_que h = (k, a) # que \<Longrightarrow> arc_to (m_edges h) a \<noteq> m_end_vertex h \<Longrightarrow>
      \<exists>h'. explore (arc_to (m_edges h) a) (m_edges h ! fst a) (\<not> snd a) (popped que a h) = Inr h' \<and> I h' \<and>
        M h' < (M h :: nat) \<and> same_graph h h' \<and> m_current_node h' = arc_to (m_edges h) a"
    and pos: "\<And>h. I h \<Longrightarrow> m_que h \<noteq> [] \<Longrightarrow> 0 < M h"
  shows "I h \<Longrightarrow> M h \<le> fuel \<Longrightarrow> m_current_node h \<noteq> m_end_vertex h \<Longrightarrow>
    \<exists>cur' h'. exploration_loop fuel cur h = Inr (cur', h') \<and> same_graph h h' \<and>
      ((\<exists>h0 k a que. I h0 \<and> m_que h0 = (k, a) # que \<and> arc_to (m_edges h0) a = m_end_vertex h0 \<and>
          h' = popped que a h0 \<and> cur' = Some (m_edges h0 ! fst a)) \<or>
       I h' \<and> m_que h' = [] \<and> m_current_node h' \<noteq> m_end_vertex h')"
proof (induction fuel arbitrary: h cur)
  case 0
  then have "m_que h = []" using pos[of h] by auto
  then show ?case using "0.prems" by (auto simp: exploration_loop.simps)
next
  case (Suc fuel)
  show ?case
  proof (cases "m_que h")
    case Nil
    then show ?thesis using Suc.prems by (auto simp: exploration_loop.simps)
  next
    case (Cons e que)
    obtain k i b where e: "e = (k, i, b)" by (cases e)
    let ?a = "(i, b)"
    let ?h = "popped que ?a h"
    let ?v = "arc_to (m_edges h) ?a"
    note q = Cons[unfolded e]
    note ok = search_ok_popped[OF I[OF Suc.prems(1)] q]
    have i: "i < length (m_edges h)" and c: "0 \<le> arc_cost (m_edges h) ?a"
      using ok(2) search_okD(4)[OF I[OF Suc.prems(1)] reached_arc[OF ok(2)]] by (simp_all add: reached_def arc_ok_def)
    have c0: "\<not> (if b then c_cost (m_edges h ! i) else r_cost (m_edges h ! i)) < 0"
      using c by (auto simp: arc_cost.simps dest: dbl_le_less_trans split: if_splits)
    have h: "h\<lparr>m_que := que, m_current_node := if b then endNode (m_edges h ! i) else startNode (m_edges h ! i)\<rparr> = ?h"
      "(if b then endNode (m_edges h ! i) else startNode (m_edges h ! i)) = ?v"
      by (simp_all add: popped_def arc_to.simps)
    have unfold: "exploration_loop (Suc fuel) cur h =
        (if ?v = m_end_vertex h then Inr (Some (m_edges h ! i), ?h)
         else bindE (explore ?v (m_edges h ! i) (\<not> b) ?h) (exploration_loop fuel (Some (m_edges h ! i))))"
      by (subst exploration_loop.simps) (simp only: q list.case prod.case nat.case nthE_Inr[OF i] bindE_simps Let_def h c0 if_False popped_def)
    show ?thesis
    proof (cases "?v = m_end_vertex h")
      case True
      then show ?thesis using Suc.prems(1) q unfolding unfold
        by (intro exI[of _ "Some (m_edges h ! i)"] exI[of _ ?h]) auto
    next
      case False
      from step[OF Suc.prems(1) q False] obtain h1 where h1: "explore ?v (m_edges h ! i) (\<not> b) ?h = Inr h1"
          "I h1" "M h1 < M h" "same_graph h h1" "m_current_node h1 = ?v" by auto
      have "M h1 \<le> fuel" "m_current_node h1 \<noteq> m_end_vertex h1"
        using h1 Suc.prems(2) False same_graphD(4)[OF h1(4)] by simp_all
      from Suc.IH[OF h1(2) this, of "Some (m_edges h ! i)"] obtain cur' h' where rest:
          "exploration_loop fuel (Some (m_edges h ! i)) h1 = Inr (cur', h')" "same_graph h1 h'"
          "(\<exists>h0 k a que. I h0 \<and> m_que h0 = (k, a) # que \<and> arc_to (m_edges h0) a = m_end_vertex h0 \<and>
             h' = popped que a h0 \<and> cur' = Some (m_edges h0 ! fst a)) \<or>
           I h' \<and> m_que h' = [] \<and> m_current_node h' \<noteq> m_end_vertex h'"
        by blast
      have "exploration_loop (Suc fuel) cur h = Inr (cur', h')"
        unfolding unfold using False h1(1) rest(1) by simp
      then show ?thesis using rest(3) same_graph_trans[OF h1(4) rest(2)] by blast
    qed
  qed
qed

end
