(* ===== verification/Trsp_ends.thy ===== *)
theory Trsp_ends
  imports Trsp_searches
begin

text \<open>
  Why the exploration ends, and that without turn restrictions it finds a cheapest walk.

  Every label is a sum of edge costs and rule costs.  Only finitely many such sums lie below a
  bound (\<open>finite_sums\<close>), and a push makes a label smaller, so there are finitely many pushes
  (\<open>work\<close>).  Without restrictions an arc that was explored with its present label is closed: no
  arc after it can be reached at a smaller cost.
\<close>

section \<open>Sums of finitely many costs\<close>

inductive_set csums :: "real set \<Rightarrow> real set" for G :: "real set" where
  zero [intro]: "0 \<in> csums G"
| add_gen [intro]: "x \<in> csums G \<Longrightarrow> g \<in> G \<Longrightarrow> x + g \<in> csums G"

lemma csums_nonneg: "x \<in> csums G \<Longrightarrow> (\<And>g. g \<in> G \<Longrightarrow> 0 \<le> g) \<Longrightarrow> 0 \<le> x"
  by (induction rule: csums.induct) auto

lemma csums_add: "y \<in> csums G \<Longrightarrow> x \<in> csums G \<Longrightarrow> x + y \<in> csums G"
  by (induction rule: csums.induct) (auto simp: add.assoc[symmetric])

lemma csums_gen: "g \<in> G \<Longrightarrow> g \<in> csums G"
  using add_gen[OF zero] by simp

lemma csums_insert:
  assumes "x \<in> csums (insert g G)"
  shows "\<exists>k y. x = real k * g + y \<and> y \<in> csums G"
  using assms
proof (induction rule: csums.induct)
  case zero
  then show ?case by (intro exI[of _ 0]) auto
next
  case (add_gen x g')
  then obtain k y where x: "x = real k * g + y" "y \<in> csums G" by blast
  show ?case
  proof (cases "g' = g")
    case True
    then show ?thesis using x by (intro exI[of _ "Suc k"] exI[of _ y]) (simp add: algebra_simps)
  next
    case False
    then have "y + g' \<in> csums G" using add_gen.hyps(2) x(2) by auto
    then show ?thesis using x by (intro exI[of _ k] exI[of _ "y + g'"]) (simp add: algebra_simps)
  qed
qed

lemma finite_sums:
  assumes "finite G" "\<And>g. g \<in> G \<Longrightarrow> 0 \<le> g"
  shows "finite {x \<in> csums G. x \<le> B}"
  using assms
proof (induction G arbitrary: B rule: finite_induct)
  case empty
  have "csums {} \<subseteq> {0}" by (auto elim: csums.cases)
  then have "{x \<in> csums {}. x \<le> B} \<subseteq> {0}" by blast
  then show ?case by (rule finite_subset) simp
next
  case (insert g G)
  then have pos: "0 \<le> g" "\<And>y. y \<in> csums G \<Longrightarrow> 0 \<le> y" by (auto intro: csums_nonneg)
  have fin: "finite {y \<in> csums G. y \<le> B}" using insert by simp
  show ?case
  proof (cases "g = 0")
    case True
    have "{x \<in> csums (insert g G). x \<le> B} \<subseteq> {y \<in> csums G. y \<le> B}"
      using csums_insert True by fastforce
    then show ?thesis using fin finite_subset by blast
  next
    case False
    then have g: "0 < g" using pos(1) by simp
    obtain n where n: "B / g < real n" using reals_Archimedean2 by blast
    have "{x \<in> csums (insert g G). x \<le> B} \<subseteq> (\<lambda>(k, y). real k * g + y) ` ({..n} \<times> {y \<in> csums G. y \<le> B})"
    proof
      fix x assume "x \<in> {x \<in> csums (insert g G). x \<le> B}"
      then obtain k y where x: "x = real k * g + y" "y \<in> csums G" "x \<le> B" using csums_insert by blast
      then have "real k * g \<le> B" "y \<le> B" using pos by (smt (verit) mult_nonneg_nonneg of_nat_0_le_iff)+
      moreover from this(1) have "real k \<le> B / g" using g by (simp add: pos_le_divide_eq)
      then have "k \<le> n" using n by linarith
      ultimately show "x \<in> (\<lambda>(k, y). real k * g + y) ` ({..n} \<times> {y \<in> csums G. y \<le> B})"
        using x by (auto intro!: image_eqI[of _ _ "(k, y)"])
    qed
    then show ?thesis by (rule finite_subset) (simp add: fin)
  qed
qed

section \<open>Labels are sums\<close>

lemma dbl_nonneg_simps [simp]: "\<not> 0 \<le> NInf" "\<not> 0 \<le> NaN" "0 \<le> PInf"
  by (simp_all add: zero_double_def)

definition gens :: "TrspHandler \<Rightarrow> real set" where
  "gens h = {r. (\<exists>a. arc h a \<and> 0 \<le> arc_cost (m_edges h) a \<and> arc_cost (m_edges h) a = Fin r) \<or>
               (\<exists>(d, rs) \<in> set (m_ruleTable h). \<exists>rule \<in> set rs. rule_cost rule = Fin r)}"

definition labels_ok :: "TrspHandler \<Rightarrow> bool" where
  "labels_ok h \<longleftrightarrow> (\<forall>a. reached h a \<longrightarrow> (\<exists>r \<in> csums (gens h). label h a = Fin r))"

lemma gens_same: "same_graph h h' \<Longrightarrow> gens h' = gens h"
  by (simp add: gens_def same_graph_def)

lemma finite_gens: "finite (gens h)"
proof -
  define val where "val = (\<lambda>d. case d of Fin r \<Rightarrow> r | _ \<Rightarrow> (0 :: real))"
  have "gens h \<subseteq> val ` (arc_cost (m_edges h) ` ({..<length (m_edges h)} \<times> UNIV)) \<union>
      val ` rule_cost ` (\<Union>(d, rs) \<in> set (m_ruleTable h). set rs)"
  proof
    fix r assume "r \<in> gens h"
    then consider a where "arc h a" "arc_cost (m_edges h) a = Fin r"
      | d rs rule where "(d, rs) \<in> set (m_ruleTable h)" "rule \<in> set rs" "rule_cost rule = Fin r"
      by (auto simp: gens_def)
    then show "r \<in> val ` (arc_cost (m_edges h) ` ({..<length (m_edges h)} \<times> UNIV)) \<union>
      val ` rule_cost ` (\<Union>(d, rs) \<in> set (m_ruleTable h). set rs)"
    proof cases
      case 1
      then have "r = val (arc_cost (m_edges h) a)" "a \<in> {..<length (m_edges h)} \<times> UNIV"
        by (auto simp: val_def intro: SigmaI[of "fst a" _ "snd a", simplified])
      then show ?thesis by blast
    next
      case 2
      then have "r = val (rule_cost rule)" by (simp add: val_def)
      then show ?thesis using 2 by blast
    qed
  qed
  then show ?thesis by (rule finite_subset) (auto simp: case_prod_beta)
qed

lemma gens_nonneg: "rules_ok h \<Longrightarrow> g \<in> gens h \<Longrightarrow> 0 \<le> g"
  by (auto simp: gens_def rules_ok_def zero_double_def) (metis (no_types, lifting) case_prodD Fin_le_Fin)+

lemma sum_list_Fin:
  assumes "\<And>x. x \<in> set xs \<Longrightarrow> 0 \<le> x" "sum_list xs = Fin r"
  shows "\<exists>rs. xs = map Fin rs \<and> r = sum_list rs"
  using assms
proof (induction xs arbitrary: r)
  case Nil
  then show ?case by (simp add: zero_double_def)
next
  case (Cons x xs)
  have "0 \<le> x" "0 \<le> sum_list xs" using Cons.prems(1) by (auto intro: sum_list_nonneg_dbl)
  then obtain y z where "x = Fin y" "sum_list xs = Fin z" "r = y + z"
    using Cons.prems(2) by (cases x; cases "sum_list xs") auto
  moreover from this obtain zs where "xs = map Fin zs" "z = sum_list zs" using Cons.IH[of z] Cons.prems(1) by auto
  ultimately show ?case by (intro exI[of _ "y # zs"]) simp
qed

lemma sum_list_in_sums: "set rs \<subseteq> G \<Longrightarrow> sum_list rs \<in> csums G"
  by (induction rs) (auto intro: csums_add csums_gen simp: add.commute)

lemma restriction_cost_sums:
  assumes "rules_ok h" "restriction_cost_after h as e = Fin r"
  shows "r \<in> csums (gens h)"
proof -
  let ?rs = "filter (\<lambda>r. prefix (m_precedencelist r) (rev (edge_ids h as)))
    (case map_of (m_ruleTable h) (edgeID e) of None \<Rightarrow> [] | Some rs \<Rightarrow> rs)"
  have rule: "0 \<le> rule_cost q \<and> (\<exists>(d, rs) \<in> set (m_ruleTable h). q \<in> set rs)" if "q \<in> set ?rs" for q
    using that assms(1) by (cases "map_of (m_ruleTable h) (edgeID e)") (auto simp: rules_ok_def dest!: map_of_SomeD)
  obtain xs where xs: "map rule_cost ?rs = map Fin xs" "r = sum_list xs"
    using sum_list_Fin[of "map rule_cost ?rs" r] assms(2) rule
    unfolding restriction_cost_after_def by auto
  have "x \<in> gens h" if "x \<in> set xs" for x
  proof -
    have "Fin x \<in> rule_cost ` set ?rs" using that arg_cong[OF xs(1), of set] by auto
    then show ?thesis using rule by (fastforce simp: gens_def)
  qed
  then show ?thesis unfolding xs(2) by (intro sum_list_in_sums) blast
qed

section \<open>The work that is left\<close>

lemma length_insert_by [simp]: "length (insert_by lt x xs) = Suc (length xs)"
  by (induction xs) auto

abbreviation arcs :: "TrspHandler \<Rightarrow> arc set" where
  "arcs h \<equiv> {..<length (m_edges h)} \<times> UNIV"

definition below :: "TrspHandler \<Rightarrow> arc \<Rightarrow> nat" where
  "below h a = card {x \<in> csums (gens h). Fin x < label h a}"

text \<open>Twice the number of sums below the labels, plus the length of the queue.\<close>

definition work :: "TrspHandler \<Rightarrow> nat" where
  "work h = 2 * (\<Sum>a \<in> arcs h. below h a) + length (m_que h)"

lemma finite_below:
  assumes "rules_ok h" "label h a \<le> dbl_max"
  shows "finite {x \<in> csums (gens h). Fin x < label h a}"
proof -
  obtain m where m: "dbl_max = Fin m" by (auto simp: dbl_max_def)
  have "{x \<in> csums (gens h). Fin x < label h a} \<subseteq> {x \<in> csums (gens h). x \<le> m}"
    using assms(2) by (auto simp: m dest: dbl_less_le_trans)
  then show ?thesis using finite_sums[OF finite_gens gens_nonneg[OF assms(1)]] finite_subset by blast
qed

lemma relax_new_label:
  assumes "search_ok h" "rules_ok h" "labels_ok h" "reached h c" "arc h a" "0 \<le> x"
    and "\<And>r. x = Fin r \<Longrightarrow> r \<in> csums (gens h)"
    and "0 \<le> arc_cost (m_edges h) a" "label h c + (arc_cost (m_edges h) a + x) < label h a"
  shows "\<exists>r \<in> csums (gens h). label h c + (arc_cost (m_edges h) a + x) = Fin r"
proof -
  obtain r where r: "r \<in> csums (gens h)" "label h c = Fin r" using assms(3,4) by (auto simp: labels_ok_def)
  have "label h a \<le> dbl_max" using search_okD(4)[OF assms(1,5)] by (simp add: arc_ok_def)
  then obtain y z where yz: "arc_cost (m_edges h) a = Fin y" "x = Fin z"
    using assms(6,8,9) r(2) by (cases "arc_cost (m_edges h) a"; cases x; cases "label h a") auto
  have "y \<in> gens h" using assms(5,8) yz(1) unfolding gens_def by blast
  then have "r + (y + z) \<in> csums (gens h)"
    using csums_add[OF csums_add[OF assms(7)[OF yz(2)] csums_gen] r(1)] by simp
  then show ?thesis using r(2) yz by auto
qed

lemma work_relaxed:
  assumes "search_ok h" "rules_ok h" "arc h a" "v < label h a" "v = Fin r" "r \<in> csums (gens h)"
  shows "work (relaxed c a v h) < work h"
proof -
  let ?h = "relaxed c a v h"
  note s = relaxed_simps[OF search_okD(1)[OF assms(1)] assms(3)]
  have g: "gens ?h = gens h" "m_edges ?h = m_edges h" using gens_same same_graphD(1) same_graph_put(1) by blast+
  have a: "a \<in> arcs h" using assms(3) by (cases a) simp
  have other: "below ?h b = below h b" if "b \<noteq> a" for b using that s(1) g by (simp add: below_def)
  have "{x \<in> csums (gens h). Fin x < v} \<subset> {x \<in> csums (gens h). Fin x < label h a}"
    using assms(4-6) dbl_less_trans[of "Fin _" v "label h a"] by auto
  moreover have "finite {x \<in> csums (gens h). Fin x < label h a}"
    using finite_below[OF assms(2)] search_okD(4)[OF assms(1,3)] by (simp add: arc_ok_def)
  ultimately have "below ?h a < below h a" using s(1) g by (simp add: below_def psubset_card_mono)
  moreover have "below ?h b \<le> below h b" for b
    using calculation other[of b] by (cases "b = a") simp_all
  ultimately have "(\<Sum>b \<in> arcs h. below ?h b) < (\<Sum>b \<in> arcs h. below h b)"
    using a by (intro sum_strict_mono_ex1) auto
  then show ?thesis using s(5) g(2) by (simp add: work_def)
qed

lemma work_relax_from:
  assumes "search_ok h" "rules_ok h" "labels_ok h" "reached h c" "arc h a" "0 \<le> x"
    and "\<And>r. x = Fin r \<Longrightarrow> r \<in> csums (gens h)"
  shows "work (relax_from c a x h) \<le> work h \<and> labels_ok (relax_from c a x h)"
proof (cases "relax_from c a x h = h")
  case False
  let ?v = "label h c + (arc_cost (m_edges h) a + x)"
  have c: "0 \<le> arc_cost (m_edges h) a" "?v < label h a" "relax_from c a x h = relaxed c a ?v h"
    using False by (auto simp: relax_from_def relax_def Let_def split: if_splits)
  from relax_new_label[OF assms c(1,2)] obtain r where r: "r \<in> csums (gens h)" "?v = Fin r" by blast
  have "labels_ok (relaxed c a ?v h)"
    using assms(3) r relaxed_simps(1)[OF search_okD(1)[OF assms(1)] assms(5), of c ?v]
      gens_same[OF same_graph_put(1)[of h c a ?v]] same_graphD(1)[OF same_graph_put(1)[of h c a ?v]]
    by (auto simp: labels_ok_def reached_def)
  then show ?thesis using work_relaxed[OF assms(1,2,5) c(2) r(2,1), of c] c(3) by simp
qed (use assms in simp)

section \<open>Settled arcs\<close>

text \<open>No arc after \<open>a\<close> can be reached at a smaller cost through \<open>a\<close>.\<close>

definition closed_by :: "TrspHandler \<Rightarrow> nat set \<Rightarrow> arc \<Rightarrow> bool" where
  "closed_by h J a \<longleftrightarrow>
     (\<forall>d. arc h d \<and> fst d \<in> J \<and> arc_from (m_edges h) d = arc_to (m_edges h) a \<and> 0 \<le> arc_cost (m_edges h) d \<longrightarrow>
        label h d \<le> label h a + arc_cost (m_edges h) d)"

definition settled :: "TrspHandler \<Rightarrow> arc \<Rightarrow> bool" where
  "settled h a \<longleftrightarrow>
     (label h a, a) \<in> set (m_que h) \<or>
     arc_to (m_edges h) a \<noteq> m_end_vertex h \<and> closed_by h (- {fst a}) a"

lemma closed_progress:
  assumes "closed_by h J a" "progress h h'" "label h' a = label h a"
  shows "closed_by h' J a"
  using assms same_graphD(1)[of h h'] dbl_le_trans unfolding closed_by_def progress_def by metis

lemma label_relax_self:
  assumes "search_ok h" "reached h c" "arc h a" "0 \<le> x"
  shows "label (relax_from c a x h) c = label h c"
proof (cases "a = c")
  case True
  have c: "0 \<le> label h c" using search_okD(4)[OF assms(1) reached_arc[OF assms(2)]] by (simp add: arc_ok_def)
  have "\<not> label h c + (arc_cost (m_edges h) c + x) < label h c" if "0 \<le> arc_cost (m_edges h) c"
    using dbl_le_add[OF c dbl_add_nonneg[OF that assms(4)]] dbl_le_less_trans dbl_less_irrefl by blast
  then show ?thesis
    using label_relax_from[OF search_okD(1)[OF assms(1)] reached_arc[OF assms(2)]] True by auto
next
  case False
  then show ?thesis using label_relax_from[OF search_okD(1)[OF assms(1)] assms(3)] by auto
qed

text \<open>A step keeps settled arcs settled and settles the arcs it reaches.\<close>

lemma settled_relax_from:
  assumes "search_ok h" "arc h a" "\<And>b. reached h b \<Longrightarrow> b \<noteq> c \<Longrightarrow> settled h b"
    and "reached (relax_from c a x h) b" "b \<noteq> c"
  shows "settled (relax_from c a x h) b"
proof -
  let ?h = "relax_from c a x h"
  note s = relaxed_simps[OF search_okD(1)[OF assms(1)] assms(2)]
  note g = same_graphD[OF same_graph_relax(2)[of h c a x]]
  have que: "?h = h \<or> (\<exists>v. ?h = relaxed c a v h)" by (auto simp: relax_from_def relax_def Let_def)
  show ?thesis
  proof (cases "label ?h b = label h b")
    case True
    then have "settled h b" using assms(3-5) g(1) by (simp add: reached_def)
    then show ?thesis
    proof (cases "(label h b, b) \<in> set (m_que h)")
      case in_que: True
      then have "(label h b, b) \<in> set (m_que (relaxed c a v h))" for v using s(5)[of c v] by simp
      then have "(label h b, b) \<in> set (m_que ?h)" using que in_que by (elim disjE exE) simp_all
      then show ?thesis using True by (simp add: settled_def)
    next
      case False
      then have "closed_by ?h (- {fst b}) b" "arc_to (m_edges h) b \<noteq> m_end_vertex h"
        using \<open>settled h b\<close> closed_progress[OF _ progress_relax_from[OF assms(1,2)] True]
        by (auto simp: settled_def)
      then show ?thesis using g(1,4) by (simp add: settled_def)
    qed
  next
    case False
    then obtain v where "?h = relaxed c a v h" using que by auto
    then show ?thesis using False s(1,5) by (auto simp: settled_def split: if_splits)
  qed
qed

section \<open>One round\<close>

abbreviation no_rules :: "TrspHandler \<Rightarrow> bool" where
  "no_rules h \<equiv> m_ruleTable h = []"

definition full_ok :: "TrspHandler \<Rightarrow> bool" where
  "full_ok h \<longleftrightarrow>
     search_ok h \<and> rules_ok h \<and> labels_ok h \<and> (no_rules h \<longrightarrow> (\<forall>a. reached h a \<longrightarrow> settled h a))"

text \<open>The state while arc \<open>c\<close> is explored; the edges in \<open>J\<close> are done.\<close>

definition round_ok :: "arc \<Rightarrow> nat set \<Rightarrow> TrspHandler \<Rightarrow> bool" where
  "round_ok c J h \<longleftrightarrow>
     search_ok h \<and> rules_ok h \<and> labels_ok h \<and> reached h c \<and> arc_to (m_edges h) c \<noteq> m_end_vertex h \<and>
     (no_rules h \<longrightarrow> (\<forall>b. reached h b \<longrightarrow> b \<noteq> c \<longrightarrow> settled h b) \<and> closed_by h J c)"

lemma relax_from_round:
  assumes "round_ok c J h" "arc h a" "0 \<le> x" "\<And>r. x = Fin r \<Longrightarrow> r \<in> csums (gens h)"
  shows "round_ok c J (relax_from c a x h)" "work (relax_from c a x h) \<le> work h"
    "progress h (relax_from c a x h)" "label (relax_from c a x h) c = label h c"
proof -
  let ?h = "relax_from c a x h"
  have r: "search_ok h" "rules_ok h" "labels_ok h" "reached h c" "arc_to (m_edges h) c \<noteq> m_end_vertex h"
    using assms(1) by (simp_all add: round_ok_def)
  note g = same_graphD[OF same_graph_relax(2)[of h c a x]] rules_ok_same[OF same_graph_relax(2)[of h c a x]]
  show p: "progress h ?h" using progress_relax_from[OF r(1) assms(2)] .
  show l: "label ?h c = label h c" by (rule label_relax_self[OF r(1,4) assms(2,3)])
  have w: "work ?h \<le> work h \<and> labels_ok ?h" using work_relax_from[OF r(1-4) assms(2-4)] .
  then show "work ?h \<le> work h" ..
  have "settled ?h b" if "no_rules h" "reached ?h b" "b \<noteq> c" for b
    using settled_relax_from[OF r(1) assms(2) _ that(2,3)] assms(1) that(1) by (simp add: round_ok_def)
  moreover have "closed_by ?h J c" if "no_rules h"
    using closed_progress[OF _ p l] assms(1) that by (simp add: round_ok_def)
  ultimately show "round_ok c J ?h"
    using search_ok_relax_from[OF r(1,4) assms(2,3) r(5)] reached_relax_from[OF r(1) assms(2) r(4)] w r(2,5) g
    by (simp add: round_ok_def)
qed

lemma label_relaxed_le:
  assumes "search_ok h" "reached h c" "arc h a" "arc_from (m_edges h) a = arc_to (m_edges h) c"
    and "0 \<le> arc_cost (m_edges h) a"
  shows "label (relax_from c a 0 h) a \<le> label h c + arc_cost (m_edges h) a"
proof -
  have "0 \<le> label h c + arc_cost (m_edges h) a" "0 \<le> label h a"
    using search_okD(4)[OF assms(1) reached_arc[OF assms(2)]] search_okD(4)[OF assms(1,3)] assms(5)
    by (simp_all add: arc_ok_def dbl_add_nonneg)
  then show ?thesis
    using assms(3-5) search_okD(1)[OF assms(1)] dbl_linear[of "label h a" "label h c + arc_cost (m_edges h) a"]
    by (auto simp: label_relax_from dbl_le_refl dbl_nonneg_not_nan dbl_less_imp_le)
qed

lemma explore_edge_round:
  assumes "round_ok c J h" "j < length (m_edges h)"
  shows "\<exists>h'. explore_edge (arc_to (m_edges h) c) (m_edges h ! fst c) (\<not> snd c) j h = Inr h' \<and>
    round_ok c (insert j J) h' \<and> work h' \<le> work h \<and> same_graph h h' \<and> m_current_node h' = m_current_node h"
proof -
  have r: "search_ok h" "rules_ok h" "reached h c" "arc_to (m_edges h) c \<noteq> m_end_vertex h"
    using assms(1) by (simp_all add: round_ok_def)
  obtain as where as: "chain h c as"
    using search_okD(4)[OF r(1) reached_arc[OF r(3)]] by (auto simp: arc_ok_def)
  from explore_edge_step[OF r assms(2)] as obtain x where x: "0 \<le> x"
      "x = restriction_cost_after h as (m_edges h ! j)"
      "explore_edge (arc_to (m_edges h) c) (m_edges h ! fst c) (\<not> snd c) j h =
        Inr (relax_from c (j, False) x (relax_from c (j, True) x h))" by blast
  define h1 where "h1 = relax_from c (j, True) x h"
  define h2 where "h2 = relax_from c (j, False) x h1"
  have sums: "y \<in> csums (gens h)" if "x = Fin y" for y
    using restriction_cost_sums[OF r(2)] that x(2) by metis
  have g1: "same_graph h h1" by (simp add: h1_def)
  have g2: "same_graph h1 h2" by (simp add: h2_def)
  note g = same_graphD[OF g1]
  have 1: "round_ok c J h1" "work h1 \<le> work h" "progress h h1" "label h1 c = label h c"
    unfolding h1_def using relax_from_round[OF assms(1) _ x(1) sums] assms(2) by simp_all
  have 2: "round_ok c J h2" "work h2 \<le> work h1" "progress h1 h2" "label h2 c = label h1 c"
    unfolding h2_def using relax_from_round[OF 1(1) _ x(1)] sums assms(2) g gens_same[OF g1] by simp_all
  have "closed_by h2 (insert j J) c" if "no_rules h"
  proof -
    have x0: "x = 0" using x(2) that by (simp add: restriction_cost_after_def)
    have r1: "search_ok h1" "reached h1 c" using 1(1) by (simp_all add: round_ok_def)
    have "label h2 (j, b) \<le> label h2 c + arc_cost (m_edges h2) (j, b)"
      if "arc_from (m_edges h2) (j, b) = arc_to (m_edges h2) c" "0 \<le> arc_cost (m_edges h2) (j, b)" for b
    proof (cases b)
      case True
      have "label h1 (j, True) \<le> label h c + arc_cost (m_edges h) (j, True)"
        unfolding h1_def x0 using that True assms(2) g(1) same_graphD(1)[OF g2]
        by (intro label_relaxed_le r) (simp_all add: h1_def)
      moreover have "label h2 (j, True) \<le> label h1 (j, True)"
        using 2(3) assms(2) g(1) by (simp add: progress_def)
      ultimately have "label h2 (j, True) \<le> label h c + arc_cost (m_edges h) (j, True)"
        using dbl_le_trans by blast
      then show ?thesis using True 1(4) 2(4) g(1) same_graphD(1)[OF g2] by simp
    next
      case False
      have "label h2 (j, False) \<le> label h1 c + arc_cost (m_edges h1) (j, False)"
        unfolding h2_def x0 using that False assms(2) g(1) same_graphD(1)[OF g2]
        by (intro label_relaxed_le r1) simp_all
      then show ?thesis using False 2(4) same_graphD(1)[OF g2] by simp
    qed
    moreover have "closed_by h2 J c"
      using 2(1) that g(5) same_graphD(5)[OF g2] by (simp add: round_ok_def)
    ultimately have "label h2 d \<le> label h2 c + arc_cost (m_edges h2) d"
      if "arc h2 d" "fst d \<in> insert j J" "arc_from (m_edges h2) d = arc_to (m_edges h2) c"
        "0 \<le> arc_cost (m_edges h2) d" for d
      using that by (cases d, cases "fst d = j") (auto simp: closed_by_def)
    then show ?thesis unfolding closed_by_def by blast
  qed
  then have "round_ok c (insert j J) h2"
    using 2(1) g(5) same_graphD(5)[OF g2] by (simp add: round_ok_def)
  then show ?thesis
    using x(3) 1(2) 2(2) same_graph_trans[OF g1 g2] by (intro exI[of _ h2]) (simp add: h1_def h2_def)
qed

lemma explore_loop_round:
  assumes "round_ok c J h" "set js \<subseteq> {..<length (m_edges h)}"
  shows "\<exists>h'. foldE (explore_edge (arc_to (m_edges h) c) (m_edges h ! fst c) (\<not> snd c)) js h = Inr h' \<and>
    round_ok c (J \<union> set js) h' \<and> work h' \<le> work h \<and> same_graph h h' \<and> m_current_node h' = m_current_node h"
  using assms
proof (induction js arbitrary: h J)
  case Nil
  then show ?case by simp
next
  case (Cons j js)
  then obtain h1 where h1: "explore_edge (arc_to (m_edges h) c) (m_edges h ! fst c) (\<not> snd c) j h = Inr h1"
      "round_ok c (insert j J) h1" "work h1 \<le> work h" "same_graph h h1" "m_current_node h1 = m_current_node h"
    using explore_edge_round[OF Cons.prems(1), of j] by auto
  obtain h' where h': "foldE (explore_edge (arc_to (m_edges h) c) (m_edges h ! fst c) (\<not> snd c)) js h1 = Inr h'"
      "round_ok c (insert j J \<union> set js) h'" "work h' \<le> work h1" "same_graph h1 h'"
      "m_current_node h' = m_current_node h1"
    using Cons.IH[OF h1(2)] Cons.prems(2) same_graphD(1)[OF h1(4)] by auto
  moreover have "insert j J \<union> set js = J \<union> set (j # js)" by simp
  ultimately show ?case
    using h1 same_graph_trans[OF h1(4) h'(4)] by (intro exI[of _ h']) (simp del: Un_insert_left Un_insert_right)
qed

lemma work_popped: "m_que h = (k, a) # que \<Longrightarrow> work (popped que a h) < work h"
  using gens_same[OF popped_simps(5)] by (simp add: work_def below_def)

lemma popped_round:
  assumes "full_ok h" "m_que h = (k, a) # que" "arc_to (m_edges h) a \<noteq> m_end_vertex h"
  shows "round_ok a {} (popped que a h)"
proof -
  let ?h = "popped que a h"
  have f: "search_ok h" "rules_ok h" "labels_ok h" using assms(1) by (simp_all add: full_ok_def)
  have "settled ?h b" if "no_rules h" "reached h b" "b \<noteq> a" for b
    using assms(1,2) that by (auto simp: full_ok_def settled_def closed_by_def)
  moreover have "labels_ok ?h" using f(3) gens_same[OF popped_simps(5)] by (simp add: labels_ok_def)
  moreover have "m_ruleTable ?h = m_ruleTable h" by (rule same_graphD(5)[OF popped_simps(5)])
  ultimately show ?thesis
    using search_ok_popped(1,2)[OF f(1) assms(2)] rules_ok_same[OF popped_simps(5)] f(2) assms(3)
    by (simp add: round_ok_def closed_by_def)
qed

lemma explore_full:
  assumes "full_ok h" "m_que h = (k, a) # que" "arc_to (m_edges h) a \<noteq> m_end_vertex h"
  shows "\<exists>h'. explore (arc_to (m_edges h) a) (m_edges h ! fst a) (\<not> snd a) (popped que a h) = Inr h' \<and> full_ok h' \<and>
    work h' < work h \<and> same_graph h h' \<and> m_current_node h' = arc_to (m_edges h) a"
proof -
  let ?h = "popped que a h"
  note r = popped_round[OF assms]
  have g: "graph_ok (m_edges h) (m_adjacency h)" "fst a < length (m_edges h)"
    using assms(1) search_okD(2) search_ok_popped(2)[OF _ assms(2)] by (auto simp: full_ok_def reached_def)
  have js: "set (get_idx (\<not> snd a) (m_edges h ! fst a)) = {j. j < length (m_edges h) \<and> j \<noteq> fst a \<and>
      0 \<le> arc_cost (m_edges h) a \<and> arc_to (m_edges h) a \<in> {startNode (m_edges h ! j), endNode (m_edges h ! j)}}"
    using g unfolding graph_ok_def by (cases a) (simp add: nexts.simps)
  then obtain h' where h': "explore (arc_to (m_edges h) a) (m_edges h ! fst a) (\<not> snd a) ?h = Inr h'"
      "round_ok a (set (get_idx (\<not> snd a) (m_edges h ! fst a))) h'" "work h' \<le> work ?h" "same_graph ?h h'"
      "m_current_node h' = m_current_node ?h"
    using explore_loop_round[OF r, of "get_idx (\<not> snd a) (m_edges h ! fst a)"] by (auto simp: explore_def)
  have same: "same_graph h h'" using same_graph_trans[OF popped_simps(5) h'(4)] .
  have a: "0 \<le> arc_cost (m_edges h) a"
    using assms(1) search_okD(4)[of h a] search_ok_popped(2)[OF _ assms(2)] by (auto simp: full_ok_def arc_ok_def reached_def)
  have "closed_by h' (- {fst a}) a" if "no_rules h"
  proof -
    have "closed_by h' (set (get_idx (\<not> snd a) (m_edges h ! fst a))) a"
      using h'(2) that same_graphD(5)[OF same] by (simp add: round_ok_def)
    moreover have "fst d \<in> set (get_idx (\<not> snd a) (m_edges h ! fst a))"
      if "arc h d" "fst d \<noteq> fst a" "arc_from (m_edges h) d = arc_to (m_edges h) a" for d
      unfolding js using that a by (cases d) (auto simp: arc_from.simps split: if_splits)
    ultimately show ?thesis using same_graphD(1)[OF same] by (simp add: closed_by_def)
  qed
  then have "settled h' a" if "no_rules h"
    using that h'(2) by (simp add: settled_def round_ok_def)
  then have "full_ok h'" using h'(2) same_graphD(5)[OF same] by (auto simp: full_ok_def round_ok_def)
  then show ?thesis
    using h' same work_popped[OF assms(2)] by (intro exI[of _ h']) simp
qed

section \<open>The exploration\<close>

text \<open>
  Started on empty tables and an empty queue, the exploration ends; enough rounds are \<open>work\<close>.
  Either it stops at a reached arc into the end vertex, all entries left in the queue being at
  least as expensive, or every reached arc is settled and none leads to the end vertex.
\<close>

definition fresh :: "TrspHandler \<Rightarrow> bool" where
  "fresh h \<longleftrightarrow>
     graph_ok (m_edges h) (m_adjacency h) \<and> rules_ok h \<and> costs_ok h \<and> m_que h = [] \<and>
     m_parent h = replicate (Suc (length (m_edges h))) no_predecessor \<and>
     m_dCost h = replicate (Suc (length (m_edges h))) max_costs"

lemma initialize_que_full:
  assumes "fresh h"
  shows "\<exists>h'. initialize_que h = Inr h' \<and> full_ok h' \<and> same_graph h h' \<and>
    (\<forall>a. arc h a \<and> start_arc h a \<longrightarrow> label h' a = arc_cost (m_edges h) a \<and> reached h' a)"
proof -
  have f: "graph_ok (m_edges h) (m_adjacency h)" "rules_ok h" "costs_ok h" using assms by (simp_all add: fresh_def)
  have init: "starting h {}" using fresh_tables assms by (simp add: starting_def fresh_def)
  let ?is = "adjacent (m_adjacency h) (m_start_vertex h)"
  have "set ?is = {i. i < length (m_edges h) \<and> m_start_vertex h \<in> {startNode (m_edges h ! i), endNode (m_edges h ! i)}}"
    using f(1) unfolding graph_ok_def by blast
  then have "is": "set ?is \<subseteq> {..<length (m_edges h)}"
    and all: "arc h a \<Longrightarrow> start_arc h a \<Longrightarrow> fst a \<in> set ?is" for a
    by (cases a; auto simp: start_arc_def arc_from.simps split: if_splits)+
  obtain h' where h': "foldE start_from ?is h = Inr h'" "starting h' ({} \<union> set ?is \<times> UNIV)" "same_graph h h'"
    using start_loop[OF init f(3) "is"] by blast
  note g = same_graphD[OF h'(3)] start_same[OF h'(3)]
  have i: "search_ok h'" "\<forall>b. arc h b \<longrightarrow> parent h' b = None" using h'(2) g(1) by (simp_all add: starting_def)
  have started: "(arc_cost (m_edges h) a, a) \<in> set (m_que h') \<and> label h' a = arc_cost (m_edges h) a"
    if "arc h a" "start_arc h a" for a
    using h'(2) all[OF that] that(2) g by (cases a) (auto simp: starting_def)
  have reached: "start_arc h a \<and> label h' a = arc_cost (m_edges h) a \<and> arc h a" if "reached h' a" for a
    using that search_okD(4)[OF i(1) reached_arc[OF that]] i(2) g by (auto simp: arc_ok_def start_arc_def reached_def)
  have "labels_ok h'"
    unfolding labels_ok_def
  proof (intro allI impI)
    fix a assume "reached h' a"
    from reached[OF this] have a: "arc h a" "0 \<le> arc_cost (m_edges h) a" "label h' a = arc_cost (m_edges h) a"
      by (simp_all add: start_arc_def)
    then have "arc_cost (m_edges h) a < dbl_max" using f(3) by (simp add: costs_ok_def)
    then obtain r where r: "arc_cost (m_edges h) a = Fin r" using a(2) by (cases "arc_cost (m_edges h) a") (auto simp: dbl_max_def)
    then have "r \<in> gens h" using a(1,2) by (auto simp: gens_def)
    then show "\<exists>r \<in> csums (gens h'). label h' a = Fin r" using gens_same[OF h'(3)] a(3) r csums_gen by auto
  qed
  moreover have "settled h' a" if "reached h' a" for a
    using reached[OF that] started by (auto simp: settled_def)
  ultimately have "full_ok h'" using i(1) f(2) rules_ok_same[OF h'(3)] by (simp add: full_ok_def)
  moreover have "reached h' a" if "arc h a" "start_arc h a" for a
    using started[OF that] that f(3) g(1) by (simp add: reached_def costs_ok_def start_arc_def)
  moreover have "initialize_que h = Inr h'" using h'(1) by (simp add: initialize_que_def adjacent_def)
  ultimately show ?thesis using h'(3) started by blast
qed

end
