(* ===== verification/Trsp_walks.thy ===== *)
theory Trsp_walks
  imports Trsp_ends
begin

text \<open>
  What the exploration answers: it ends after at most \<open>work\<close> rounds; it stops at an arc into the
  end vertex or after having settled everything it reached; without turn restrictions the arc it
  stops at closes a cheapest walk (\<open>exploration_found\<close>, \<open>exploration_answers\<close>).
\<close>

section \<open>Walks\<close>

text \<open>A walk along arcs that exist, and its cost without restrictions.\<close>

fun walk :: "EdgeInfo list \<Rightarrow> int \<Rightarrow> arc list \<Rightarrow> int \<Rightarrow> bool" where
  "walk es u [] v \<longleftrightarrow> u = v"
| "walk es u (a # as) v \<longleftrightarrow>
     fst a < length es \<and> 0 \<le> arc_cost es a \<and> arc_from es a = u \<and> walk es (arc_to es a) as v"

definition walk_cost :: "EdgeInfo list \<Rightarrow> arc list \<Rightarrow> double" where
  "walk_cost es as = sum_list (map (arc_cost es) as)"

lemma walk_append [simp]: "walk es u (as @ bs) v \<longleftrightarrow> (\<exists>w. walk es u as w \<and> walk es w bs v)"
  by (induction as arbitrary: u) auto

lemma walk_cost_append [simp]: "walk_cost es (as @ bs) = walk_cost es as + walk_cost es bs"
  by (simp add: walk_cost_def)

lemma walk_cost_nonneg: "walk es u as v \<Longrightarrow> 0 \<le> walk_cost es as"
proof (induction as arbitrary: u)
  case Nil
  show ?case by (simp add: walk_cost_def zero_double_def)
next
  case (Cons a as)
  then have "0 \<le> arc_cost es a" "0 \<le> walk_cost es as" by auto
  then have "0 \<le> arc_cost es a + walk_cost es as" by (rule dbl_add_nonneg)
  then show ?case by (simp add: walk_cost_def)
qed

text \<open>A walk that turns around on an edge is not shorter than the one without that edge.\<close>

definition no_turn :: "arc list \<Rightarrow> bool" where
  "no_turn as \<longleftrightarrow> (\<forall>xs c d ys. as = xs @ c # d # ys \<longrightarrow> fst c \<noteq> fst d)"

lemma remove_turn:
  assumes "walk es u (xs @ c # d # ys) v" "fst c = fst d"
  shows "\<exists>as. length as < length (xs @ c # d # ys) \<and> walk es u as v \<and> walk_cost es as \<le> walk_cost es (xs @ c # d # ys)"
proof -
  obtain i b b' where cd: "c = (i, b)" "d = (i, b')" using assms(2) by (metis prod.collapse)
  obtain w where w: "walk es u xs w" "arc_from es c = w" "0 \<le> arc_cost es c" "arc_from es d = arc_to es c"
      "0 \<le> arc_cost es d" "walk es (arc_to es d) ys v"
    using assms(1) by auto
  have "arc_to es d = w"
    using w(2,4) by (cases b; cases b') (simp_all add: cd arc_from.simps arc_to.simps)
  then have walk: "walk es u (xs @ ys) v" using w by auto
  have x: "0 \<le> walk_cost es xs" "0 \<le> walk_cost es ys" using w(1,6) walk_cost_nonneg by blast+
  have "walk_cost es (xs @ ys) \<le> walk_cost es (xs @ ys) + (arc_cost es c + arc_cost es d)"
    using x w(3,5) by (intro dbl_le_add) (simp_all add: dbl_add_nonneg)
  also have "\<dots> = walk_cost es (xs @ c # d # ys)" by (simp add: walk_cost_def ac_simps)
  finally show ?thesis using walk by (intro exI[of _ "xs @ ys"]) simp
qed

lemma walk_without_turn:
  assumes "walk es u as v"
  shows "\<exists>bs. walk es u bs v \<and> no_turn bs \<and> walk_cost es bs \<le> walk_cost es as"
  using assms
proof (induction as rule: length_induct)
  case (1 as)
  show ?case
  proof (cases "no_turn as")
    case True
    have "walk_cost es as \<le> walk_cost es as" using dbl_le_refl dbl_nonneg_not_nan walk_cost_nonneg[OF 1(2)] by simp
    then show ?thesis using 1(2) True by (intro exI[of _ as]) simp
  next
    case False
    then obtain xs c d ys where as: "as = xs @ c # d # ys" "fst c = fst d" by (auto simp: no_turn_def)
    have "walk es u (xs @ c # d # ys) v" using 1(2) unfolding as(1) .
    from remove_turn[OF this as(2)] obtain bs where
      bs: "length bs < length as" "walk es u bs v" "walk_cost es bs \<le> walk_cost es as"
      unfolding as(1) by blast
    obtain cs where "walk es u cs v" "no_turn cs" "walk_cost es cs \<le> walk_cost es bs"
      using 1(1)[rule_format, OF bs(1,2)] by blast
    then show ?thesis using dbl_le_trans[OF _ bs(3)] by blast
  qed
qed

section \<open>Cheapest walks\<close>

text \<open>The start arcs have labels at most their costs.\<close>

definition start_ok :: "TrspHandler \<Rightarrow> bool" where
  "start_ok h \<longleftrightarrow> (\<forall>a. arc h a \<and> start_arc h a \<longrightarrow> reached h a \<and> label h a \<le> arc_cost (m_edges h) a)"

lemma walk_settled:
  assumes "full_ok h" "no_rules h" "start_ok h"
  shows "walk (m_edges h) (m_start_vertex h) (as @ [d]) v \<Longrightarrow> no_turn (as @ [d]) \<Longrightarrow>
      walk_cost (m_edges h) (as @ [d]) < dbl_max \<Longrightarrow>
    (\<exists>(l, b) \<in> set (m_que h). l \<le> walk_cost (m_edges h) (as @ [d])) \<or>
    reached h d \<and> label h d \<le> walk_cost (m_edges h) (as @ [d]) \<and>
      arc_to (m_edges h) d \<noteq> m_end_vertex h \<and> closed_by h (- {fst d}) d"
proof (induction as arbitrary: d v rule: rev_induct)
  case Nil
  then have "reached h d" "label h d \<le> walk_cost (m_edges h) [d]"
    using assms(3) by (auto simp: start_ok_def start_arc_def walk_cost_def)
  moreover from this(1) have "settled h d" using assms(1,2) by (simp add: full_ok_def)
  ultimately show ?case by (auto simp: settled_def)
next
  case (snoc c as)
  let ?w = "walk_cost (m_edges h)"
  have parts: "walk (m_edges h) (m_start_vertex h) (as @ [c]) (arc_to (m_edges h) c)" "arc h d"
      "0 \<le> arc_cost (m_edges h) d" "arc_from (m_edges h) d = arc_to (m_edges h) c"
    using snoc.prems(1) by auto
  have turn: "no_turn (as @ [c])" "fst d \<noteq> fst c"
    using snoc.prems(2) unfolding no_turn_def by (metis append.assoc append_Cons, metis append.assoc append_Cons append_Nil)
  have sum: "?w ((as @ [c]) @ [d]) = ?w (as @ [c]) + arc_cost (m_edges h) d" by (simp add: walk_cost_def add.assoc)
  have le: "?w (as @ [c]) \<le> ?w ((as @ [c]) @ [d])"
    unfolding sum using walk_cost_nonneg[OF parts(1)] parts(3) by (rule dbl_le_add)
  then have "?w (as @ [c]) < dbl_max" using snoc.prems(3) dbl_le_less_trans by blast
  from snoc.IH[OF parts(1) turn(1) this] show ?case
  proof (elim disjE)
    assume "\<exists>(l, b) \<in> set (m_que h). l \<le> ?w (as @ [c])"
    then show ?thesis using le dbl_le_trans by fast
  next
    assume c: "reached h c \<and> label h c \<le> ?w (as @ [c]) \<and> arc_to (m_edges h) c \<noteq> m_end_vertex h \<and>
      closed_by h (- {fst c}) c"
    have c0: "0 \<le> label h c" using c assms(1) search_okD(4)[of h c] by (simp add: full_ok_def reached_def arc_ok_def)
    have "label h d \<le> label h c + arc_cost (m_edges h) d"
      using c parts turn(2) unfolding closed_by_def by simp
    moreover have "label h c + arc_cost (m_edges h) d \<le> ?w ((as @ [c]) @ [d])"
      unfolding sum using c c0 parts(3) by (intro dbl_add_mono) simp_all
    ultimately have d: "label h d \<le> ?w ((as @ [c]) @ [d])" by (rule dbl_le_trans)
    then have "reached h d" using snoc.prems(3) parts(2) dbl_le_less_trans unfolding reached_def by blast
    moreover from this have "settled h d" using assms(1,2) by (simp add: full_ok_def)
    ultimately show ?thesis using d by (auto simp: settled_def)
  qed
qed

lemma walk_in_queue:
  assumes "full_ok h" "no_rules h" "start_ok h" "m_start_vertex h \<noteq> m_end_vertex h"
    and "walk (m_edges h) (m_start_vertex h) as (m_end_vertex h)" "walk_cost (m_edges h) as < dbl_max"
  shows "\<exists>(l, b) \<in> set (m_que h). l \<le> walk_cost (m_edges h) as"
proof -
  obtain bs where bs: "walk (m_edges h) (m_start_vertex h) bs (m_end_vertex h)" "no_turn bs"
      "walk_cost (m_edges h) bs \<le> walk_cost (m_edges h) as"
    using walk_without_turn[OF assms(5)] by blast
  have cost: "walk_cost (m_edges h) bs < dbl_max" using bs(3) assms(6) dbl_le_less_trans by blast
  have "bs \<noteq> []" using bs(1) assms(4) by auto
  then obtain cs d where d: "bs = cs @ [d]" by (metis rev_exhaust)
  then have "arc_to (m_edges h) d = m_end_vertex h" using bs(1) by auto
  then obtain l b where "(l, b) \<in> set (m_que h)" "l \<le> walk_cost (m_edges h) bs"
    using walk_settled[OF assms(1-3), of cs d] bs(1,2) cost unfolding d by blast
  then show ?thesis using bs(3) dbl_le_trans by blast
qed

section \<open>What the exploration answers\<close>

lemma start_ok_progress: "progress h h' \<Longrightarrow> start_ok h \<Longrightarrow> start_ok h'"
  using start_same(1)[of h h'] same_graphD(1)[of h h'] dbl_le_trans
  unfolding start_ok_def progress_def by metis

text \<open>The exploration stopped at an arc into the end vertex, or emptied the queue.\<close>

definition found :: "TrspHandler \<Rightarrow> EdgeInfo option \<Rightarrow> TrspHandler \<Rightarrow> arc \<Rightarrow> bool" where
  "found h cur h' a \<longleftrightarrow>
     cur = Some (m_edges h ! fst a) \<and> m_current_node h' = m_end_vertex h \<and> search_ok h' \<and> reached h' a \<and>
     arc_to (m_edges h) a = m_end_vertex h \<and>
     (no_rules h \<longrightarrow> (\<forall>as. walk (m_edges h) (m_start_vertex h) as (m_end_vertex h) \<longrightarrow>
        label h' a \<le> walk_cost (m_edges h) as))"

definition exhausted :: "TrspHandler \<Rightarrow> TrspHandler \<Rightarrow> bool" where
  "exhausted h h' \<longleftrightarrow>
     m_current_node h' \<noteq> m_end_vertex h \<and>
     (no_rules h \<longrightarrow> (\<forall>as. walk (m_edges h) (m_start_vertex h) as (m_end_vertex h) \<longrightarrow>
        \<not> walk_cost (m_edges h) as < dbl_max))"

lemma popped_cheapest:
  assumes "full_ok h" "start_ok h" "m_start_vertex h \<noteq> m_end_vertex h" "no_rules h"
    and "m_que h = (k, a) # que" "walk (m_edges h) (m_start_vertex h) as (m_end_vertex h)"
  shows "label h a \<le> walk_cost (m_edges h) as"
proof -
  have s: "search_ok h" using assms(1) by (simp add: full_ok_def)
  note p = search_ok_popped[OF s assms(5)]
  show ?thesis
  proof (cases "walk_cost (m_edges h) as < dbl_max")
    case True
    obtain l b where l: "(l, b) \<in> set (m_que h)" "l \<le> walk_cost (m_edges h) as"
      using walk_in_queue[OF assms(1,4,2,3,6) True] by blast
    have "label h a \<le> l"
    proof (cases "(l, b) = (k, a)")
      case True
      then show ?thesis using p(3) by simp
    next
      case False
      then have "k \<le> l" using l(1) assms(5) p(4)[of l b] by auto
      then show ?thesis using p(3) dbl_le_trans by blast
    qed
    then show ?thesis using l(2) dbl_le_trans by blast
  next
    case False
    have "label h a < dbl_max" using p(2) by (simp add: reached_def)
    moreover have "dbl_max \<le> walk_cost (m_edges h) as"
      using False dbl_not_le[of "dbl_max" "walk_cost (m_edges h) as"] dbl_nonneg_not_nan[OF walk_cost_nonneg[OF assms(6)]]
        dbl_linear[of "walk_cost (m_edges h) as" dbl_max] by (auto simp: dbl_le_iff)
    ultimately show ?thesis using dbl_less_le_trans dbl_less_imp_le by blast
  qed
qed

text \<open>The current vertex is not part of the invariants.\<close>

abbreviation at_vertex :: "int \<Rightarrow> TrspHandler \<Rightarrow> TrspHandler" where
  "at_vertex v h \<equiv> h\<lparr>m_current_node := v\<rparr>"

lemma at_vertex_simps [simp]:
  "label (at_vertex v h) = label h" "parent (at_vertex v h) = parent h" "parent_index (at_vertex v h) = parent_index h"
  "same_graph h (at_vertex v h)" "reached (at_vertex v h) = reached h" "sizes_ok (at_vertex v h) = sizes_ok h"
  "gens (at_vertex v h) = gens h"
  by (auto simp: fun_eq_iff same_graph_def reached_def sizes_ok_def gens_def label.simps parent.simps parent_index.simps)

lemma chain_at_vertex [simp]: "chain (at_vertex v h) a as = chain h a as"
  using chain_same_parents[of h a as "at_vertex v h"] chain_same_parents[of "at_vertex v h" a as h] by auto

lemma full_ok_at_vertex [simp]:
  "full_ok (at_vertex v h) = full_ok h" "start_ok (at_vertex v h) = start_ok h" "work (at_vertex v h) = work h"
proof -
  have "arc_ok (at_vertex v h) a = arc_ok h a" for a by (simp add: arc_ok_def cong: option.case_cong)
  then have "search_ok (at_vertex v h) = search_ok h" by (simp add: search_ok_def)
  moreover have "settled (at_vertex v h) a = settled h a" for a by (simp add: settled_def closed_by_def)
  ultimately show "full_ok (at_vertex v h) = full_ok h"
    using rules_ok_same[OF at_vertex_simps(4)[of h v]] by (simp add: full_ok_def labels_ok_def)
  show "start_ok (at_vertex v h) = start_ok h"
    using start_same(1)[OF at_vertex_simps(4)[of h v]] by (simp add: start_ok_def)
  show "work (at_vertex v h) = work h" by (simp add: work_def below_def)
qed

definition searching :: "TrspHandler \<Rightarrow> TrspHandler \<Rightarrow> bool" where
  "searching h0 h \<longleftrightarrow> full_ok h \<and> start_ok h \<and> same_graph h0 h"

lemma explore_searching:
  assumes "searching h0 h" "m_que h = (k, a) # que" "arc_to (m_edges h) a \<noteq> m_end_vertex h"
  shows "\<exists>h'. explore (arc_to (m_edges h) a) (m_edges h ! fst a) (\<not> snd a) (popped que a h) = Inr h' \<and>
    searching h0 h' \<and> work h' < work h \<and> same_graph h h' \<and> m_current_node h' = arc_to (m_edges h) a"
proof -
  have f: "full_ok h" "start_ok h" "same_graph h0 h" using assms(1) by (simp_all add: searching_def)
  then have s: "search_ok h" "rules_ok h" by (simp_all add: full_ok_def)
  obtain h' where h': "explore (arc_to (m_edges h) a) (m_edges h ! fst a) (\<not> snd a) (popped que a h) = Inr h'"
      "full_ok h'" "work h' < work h" "same_graph h h'" "m_current_node h' = arc_to (m_edges h) a"
    using explore_full[OF f(1) assms(2,3)] by blast
  have "rules_ok (popped que a h)" using rules_ok_same[OF popped_simps(5)] s(2) by blast
  moreover have "reached (popped que a h) a" using search_ok_popped(2)[OF s(1) assms(2)] by simp
  ultimately have "progress (popped que a h) h'"
    using explore_ok[OF search_ok_popped(1)[OF s(1) assms(2)], of a] h'(1) assms(3) by auto
  moreover have "start_ok (popped que a h)" using f(2) by (simp add: start_ok_def start_arc_def)
  ultimately have "start_ok h'" by (rule start_ok_progress)
  then show ?thesis using h' same_graph_trans[OF f(3) h'(4)] by (intro exI[of _ h']) (simp add: searching_def)
qed

theorem exploration_answers:
  assumes "searching h0 h" "m_start_vertex h \<noteq> m_end_vertex h" "m_current_node h = m_start_vertex h" "work h \<le> fuel"
  shows "\<exists>cur h'. dijkstra_exploration fuel h = Inr (cur, h') \<and> same_graph h h' \<and>
    ((\<exists>a. found h cur h' a) \<or> exhausted h h')"
proof -
  have I: "searching h h" using assms(1) by (simp add: searching_def)
  have pos: "searching h g \<Longrightarrow> m_que g \<noteq> [] \<Longrightarrow> 0 < work g" for g by (simp add: work_def)
  have sok: "searching h g \<Longrightarrow> search_ok g" for g by (simp add: searching_def full_ok_def)
  have step: "\<exists>h'. explore (arc_to (m_edges g) a) (m_edges g ! fst a) (\<not> snd a) (popped que a g) = Inr h' \<and>
      searching h h' \<and> work h' < work g \<and> same_graph g h' \<and> m_current_node h' = arc_to (m_edges g) a"
    if "searching h g" "m_que g = (k, a) # que" "arc_to (m_edges g) a \<noteq> m_end_vertex g" for g k a que
    by (rule explore_searching[OF that])
  have start: "m_current_node h \<noteq> m_end_vertex h" using assms(2,3) by simp
  have "\<exists>cur h'. exploration_loop fuel None h = Inr (cur, h') \<and> same_graph h h' \<and>
      ((\<exists>g k a que. searching h g \<and> m_que g = (k, a) # que \<and> arc_to (m_edges g) a = m_end_vertex g \<and>
          h' = popped que a g \<and> cur = Some (m_edges g ! fst a)) \<or>
       searching h h' \<and> m_que h' = [] \<and> m_current_node h' \<noteq> m_end_vertex h')"
  proof (rule exploration_loop_rule[where I = "searching h" and M = work and cur = None])
  qed (fact sok step pos I assms(4) start)+
  then obtain cur h' where run: "exploration_loop fuel None h = Inr (cur, h') \<and> same_graph h h' \<and>
      ((\<exists>g k a que. searching h g \<and> m_que g = (k, a) # que \<and> arc_to (m_edges g) a = m_end_vertex g \<and>
          h' = popped que a g \<and> cur = Some (m_edges g ! fst a)) \<or>
       searching h h' \<and> m_que h' = [] \<and> m_current_node h' \<noteq> m_end_vertex h')"
    by (elim exE)
  have ends: "(\<exists>g k a que. searching h g \<and> m_que g = (k, a) # que \<and> arc_to (m_edges g) a = m_end_vertex g \<and>
        h' = popped que a g \<and> cur = Some (m_edges g ! fst a)) \<or>
      searching h h' \<and> m_que h' = [] \<and> m_current_node h' \<noteq> m_end_vertex h'"
    using run by blast
  have "(\<exists>a. found h cur h' a) \<or> exhausted h h'"
    using ends
  proof (elim disjE exE conjE)
    fix g k a que
    assume g: "searching h g" "m_que g = (k, a) # que" "arc_to (m_edges g) a = m_end_vertex g"
      "h' = popped que a g" "cur = Some (m_edges g ! fst a)"
    then have f: "full_ok g" "start_ok g" "same_graph h g" by (simp_all add: searching_def)
    note same = same_graphD[OF f(3)]
    note p = search_ok_popped[OF sok[OF g(1)] g(2)]
    have "found h cur h' a"
      using popped_cheapest[OF f(1,2) _ _ g(2)] assms(2) p(1,2) g(3-5) same by (simp add: found_def)
    then show ?thesis by blast
  next
    assume g: "searching h h'" "m_que h' = []" "m_current_node h' \<noteq> m_end_vertex h'"
    then have f: "full_ok h'" "start_ok h'" "same_graph h h'" by (simp_all add: searching_def)
    note same = same_graphD[OF f(3)]
    have "exhausted h h'"
      using walk_in_queue[OF f(1) _ f(2)] g(2,3) assms(2) same by (auto simp: exhausted_def)
    then show ?thesis by blast
  qed
  then show ?thesis using run assms(3) by (simp add: dijkstra_exploration_def)
qed

text \<open>From empty tables: \<open>initialize_que\<close> prepares the search.\<close>

lemma initialize_que_searching:
  assumes "fresh h"
  shows "\<exists>h1. initialize_que h = Inr h1 \<and> searching h (at_vertex v h1) \<and> same_graph h h1"
proof -
  obtain h1 where h1: "initialize_que h = Inr h1" "full_ok h1" "same_graph h h1"
      "\<forall>a. arc h a \<and> start_arc h a \<longrightarrow> label h1 a = arc_cost (m_edges h) a \<and> reached h1 a"
    using initialize_que_full[OF assms] by blast
  have "start_ok h1"
    unfolding start_ok_def start_same(1)[OF h1(3)] same_graphD(1)[OF h1(3)]
    using h1(4) dbl_le_refl dbl_nonneg_not_nan by (simp add: start_arc_def)
  moreover have "same_graph h (at_vertex v h1)" using same_graph_trans[OF h1(3)] at_vertex_simps(4) by blast
  ultimately show ?thesis using h1 by (intro exI[of _ h1]) (simp add: searching_def)
qed

end
