(* ===== verification/Trsp_paths.thy ===== *)
theory Trsp_paths
  imports Trsp_walks
begin

text \<open>
  The path that \<open>TrspHandler\<close> writes after a search: \<open>construct_path\<close> follows the predecessors
  from the arc the search stopped at, and \<open>process\<close> turns the result into the vertices of the
  caller.
\<close>

section \<open>The walk of a chain\<close>

lemma chain_last: "chain h a as \<Longrightarrow> as \<noteq> [] \<and> last as = a"
  by (induction rule: chain.induct) auto

lemma chain_walk:
  assumes "chain h a as" "search_ok h" "reached h a"
  shows "walk (m_edges h) (m_start_vertex h) as (arc_to (m_edges h) a)"
  using assms
proof (induction rule: chain.induct)
  case (chain_first h a)
  then show ?case using search_okD(4)[OF _ reached_arc, of h a] by (simp add: arc_ok_def reached_def)
next
  case (chain_next h a c cs)
  note a = search_okD(4)[OF chain_next.prems(1) reached_arc[OF chain_next.prems(2)]]
  have c: "reached h c" "arc_to (m_edges h) c = arc_from (m_edges h) a" "0 \<le> arc_cost (m_edges h) a"
    using a chain_next.hyps(1) chain_next.prems(2) by (simp_all add: arc_ok_def)
  then show ?case
    using chain_next.IH[OF chain_next.prems(1) c(1)] chain_next.prems(2) by (auto simp: reached_def)
qed

text \<open>No arc of the walk but the last one leads to the end vertex.\<close>

lemma chain_avoids_end:
  assumes "chain h a as" "search_ok h" "reached h a" "b \<in> set as" "b \<noteq> a"
  shows "arc_to (m_edges h) b \<noteq> m_end_vertex h"
  using assms
proof (induction rule: chain.induct)
  case (chain_next h a c cs)
  note a = search_okD(4)[OF chain_next.prems(1) reached_arc[OF chain_next.prems(2)]]
  then have c: "reached h c" "arc_to (m_edges h) c \<noteq> m_end_vertex h"
    using chain_next.hyps(1) by (simp_all add: arc_ok_def)
  then show ?case
    using chain_next.IH[OF chain_next.prems(1) c(1)] chain_next.prems(3,4) by (cases "b = c") auto
qed simp

lemma chain_length:
  assumes "chain h a as" "search_ok h" "reached h a"
  shows "length as \<le> 2 * length (m_edges h)"
proof -
  have "set as \<subseteq> arcs h"
  proof
    fix b assume "b \<in> set as"
    then have "arc h b" using chain_labels[OF assms] reached_arc by blast
    then show "b \<in> arcs h" by (cases b) simp
  qed
  then have "card (set as) \<le> card (arcs h)" by (intro card_mono) simp_all
  then show ?thesis using chain_distinct[OF assms(1)] by (simp add: distinct_card card_UNIV_bool)
qed

section \<open>The rows\<close>

text \<open>One row per arc; its cost is the increase of the label.\<close>

fun leg_rows :: "TrspHandler \<Rightarrow> double \<Rightarrow> arc list \<Rightarrow> Path_t list" where
  "leg_rows h l [] = []"
| "leg_rows h l (a # as) =
     path_row (arc_from (m_edges h) a) (edgeID (m_edges h ! fst a)) (label h a - l) # leg_rows h (label h a) as"

lemma leg_rows_snoc:
  "leg_rows h l (as @ [a]) = leg_rows h l as @ [path_row (arc_from (m_edges h) a) (edgeID (m_edges h ! fst a))
     (label h a - (if as = [] then l else label h (last as)))]"
  by (induction as arbitrary: l) auto

lemma leg_rows_fields [simp]:
  "map node (leg_rows h l as) = map (arc_from (m_edges h)) as" "map edge (leg_rows h l as) = edge_ids h as"
  "length (leg_rows h l as) = length as"
  by (induction as arbitrary: l) (simp_all add: path_row_def)

lemma label_finite: "search_ok h \<Longrightarrow> reached h a \<Longrightarrow> \<exists>r \<ge> 0. label h a = Fin r"
  using search_okD(4)[of h a] by (cases "label h a") (auto simp: reached_def arc_ok_def dbl_max_def zero_double_def)

lemma leg_rows_cost:
  assumes "search_ok h" "\<forall>a \<in> set as. reached h a" "l = Fin r"
  shows "l + path_cost (leg_rows h l as) = (if as = [] then l else label h (last as))"
  using assms(2,3)
proof (induction as arbitrary: l r)
  case Nil
  then show ?case by simp
next
  case (Cons a as)
  have "reached h a" using Cons.prems(1) by simp
  from label_finite[OF assms(1) this] obtain s where s: "label h a = Fin s" by blast
  have "l + (label h a - l) = label h a" using Cons.prems(2) s by (simp add: minus_double_def)
  then have "l + path_cost (leg_rows h l (a # as)) = label h a + path_cost (leg_rows h (label h a) as)"
    by (simp add: path_row_def add.assoc[symmetric])
  then show ?case using Cons.IH[OF _ s] Cons.prems(1) by simp
qed

abbreviation push_rows :: "Path_t list \<Rightarrow> TrspHandler \<Rightarrow> TrspHandler" where
  "push_rows rs h \<equiv> h\<lparr>trsp_path := (trsp_path h)\<lparr>path := path (trsp_path h) @ rs,
     m_tot_cost := m_tot_cost (trsp_path h) + path_cost rs\<rparr>\<rparr>"

text \<open>The walk back along the predecessors returns the label and has pushed the rows.\<close>

lemma construct_path_rows:
  assumes "chain h a as" "search_ok h" "reached h a" "length as \<le> fuel"
    "m_start_id (trsp_path h) = m_start_vertex h"
  shows "construct_path fuel (fst a) (pos_of (snd a)) h = Inr (label h a, push_rows (leg_rows h 0 as) h)"
  using assms
proof (induction arbitrary: fuel rule: chain.induct)
  case (chain_first h a)
  obtain i b where a: "a = (i, b)" by (cases a)
  have i: "i < length (m_edges h)" "i < length (m_parent h)" "i < length (m_dCost h)"
    using chain_first.prems(1,2) search_okD(1)[of h] by (auto simp: a sizes_ok_def reached_def)
  have none: "side b (v_pos (m_parent h ! i)) = ILLEGAL"
    using chain_first.hyps by (cases "side b (v_pos (m_parent h ! i))") (simp_all add: a parent.simps)
  have l: "label h a = arc_cost (m_edges h) a"
    using search_okD(4)[OF chain_first.prems(1) reached_arc[OF chain_first.prems(2)]] chain_first by (simp add: arc_ok_def)
  obtain r where "label h a = Fin r" using label_finite[OF chain_first.prems(1,2)] by blast
  then have "label h a - 0 = arc_cost (m_edges h) a" using l by (simp add: zero_double_def minus_double_def)
  moreover have "isIllegal (pos_of b) (m_parent h ! i) = Inr True"
    using none by (cases b) (simp_all add: isIllegal_def)
  ultimately show ?case
    using i l chain_first.prems(4)
    by (subst construct_path.simps) (cases b; simp add: a Let_def arc_cost.simps arc_from.simps push_back_def path_row_def)
next
  case (chain_next h a c cs)
  obtain i b where a: "a = (i, b)" by (cases a)
  have i: "i < length (m_edges h)" "i < length (m_parent h)" "i < length (m_dCost h)"
    using chain_next.prems(1,2) search_okD(1)[of h] by (auto simp: a sizes_ok_def reached_def)
  have p: "side b (v_pos (m_parent h ! i)) = pos_of (snd c)" "side b (e_idx (m_parent h ! i)) = fst c"
    using chain_next.hyps(1) by (simp_all add: a arc_at_Some parent.simps)
  note aok = search_okD(4)[OF chain_next.prems(1) reached_arc[OF chain_next.prems(2)]]
  then have c: "reached h c" using chain_next.hyps(1) by (simp add: arc_ok_def)
  note cs = chain_last[OF chain_next.hyps(2)]
  obtain fuel' where f: "fuel = Suc fuel'" "length cs \<le> fuel'" using chain_next.prems(3) by (cases fuel) auto
  have rec: "construct_path fuel' (fst c) (pos_of (snd c)) h = Inr (label h c, push_rows (leg_rows h 0 cs) h)"
    by (rule chain_next.IH[OF chain_next.prems(1) c f(2) chain_next.prems(4)])
  have ill: "isIllegal (pos_of b) (m_parent h ! i) = Inr False"
    using p by (cases b; cases "snd c") (simp_all add: isIllegal_def)
  show ?case
    using i p rec ill cs f(1)
    by (subst construct_path.simps)
      (cases b; simp add: a Let_def leg_rows_snoc label.simps arc_from.simps push_back_def add.assoc)
qed

section \<open>The finished path\<close>

text \<open>\<open>process_trsp\<close> adds the end vertex and sums up the costs.\<close>

definition trsp_result :: "TrspHandler \<Rightarrow> arc list \<Rightarrow> Path" where
  "trsp_result h as =
     recalculate_agg_cost (push_back (path_row (m_end_vertex h) (-1) 0)
       ((Path_of (m_start_vertex h) (m_end_vertex h))\<lparr>path := leg_rows h 0 as, m_tot_cost := path_cost (leg_rows h 0 as)\<rparr>))"

lemma trsp_result_ok:
  assumes "chain h a as" "search_ok h" "reached h a" "arc_to (m_edges h) a = m_end_vertex h"
  shows "path_ok (trsp_result h as)" "m_start_id (trsp_result h as) = m_start_vertex h"
    "m_end_id (trsp_result h as) = m_end_vertex h" "m_tot_cost (trsp_result h as) = label h a"
    "map node (path (trsp_result h as)) = map (arc_from (m_edges h)) as @ [m_end_vertex h]"
    "map edge (path (trsp_result h as)) = edge_ids h as @ [-1]"
proof -
  let ?p = "trsp_result h as"
  let ?rs = "leg_rows h 0 as @ [path_row (m_end_vertex h) (-1) 0]"
  note last = chain_last[OF assms(1)]
  have rows: "path ?p = accumulate 0 ?rs" by (simp add: trsp_result_def recalculate_agg_cost_def push_back_def)
  have ids: "m_start_id ?p = m_start_vertex h" "m_end_id ?p = m_end_vertex h"
    by (simp_all add: trsp_result_def recalculate_agg_cost_def push_back_def Path_of_def)
  have agg: "agg_from 0 (path ?p)" "m_tot_cost ?p = path_cost (path ?p)"
    unfolding trsp_result_def using recalculate_agg_cost_ok by blast+
  have nodes: "map node (path ?p) = map (arc_from (m_edges h)) as @ [m_end_vertex h]"
    unfolding rows by (simp add: path_row_def)
  have edges: "map edge (path ?p) = edge_ids h as @ [-1]" unfolding rows by (simp add: path_row_def)
  have costs: "map cost (path ?p) = map cost (leg_rows h 0 as) @ [0]" unfolding rows by (simp add: path_row_def)
  have "\<forall>b \<in> set as. reached h b" using chain_labels[OF assms(1-3)] by blast
  from leg_rows_cost[OF assms(2) this zero_double_def] have sum: "path_cost (leg_rows h 0 as) = label h a"
    using last by simp
  then have tot: "m_tot_cost ?p = label h a" using agg(2) costs by simp
  have ne: "path ?p \<noteq> []" using rows by simp
  have "walk (m_edges h) (m_start_vertex h) as (arc_to (m_edges h) a)" by (rule chain_walk[OF assms(1-3)])
  then have "arc_from (m_edges h) (hd as) = m_start_vertex h" using last by (cases as) auto
  moreover have "node (hd (path ?p)) = hd (map node (path ?p))" "node (last (path ?p)) = last (map node (path ?p))"
    "edge (last (path ?p)) = last (map edge (path ?p))" "cost (last (path ?p)) = last (map cost (path ?p))"
    using ne by (simp_all add: hd_map last_map)
  ultimately show "path_ok ?p"
    using ne agg ids last unfolding path_ok_def nodes edges costs by (simp add: hd_map)
  show "m_start_id ?p = m_start_vertex h" "m_end_id ?p = m_end_vertex h" "m_tot_cost ?p = label h a"
    "map node (path ?p) = map (arc_from (m_edges h)) as @ [m_end_vertex h]" "map edge (path ?p) = edge_ids h as @ [-1]"
    using ids tot nodes edges by blast+
qed

section \<open>Renumbering\<close>

lemma renumber_vertices_total:
  assumes "m (m_start_id p) \<noteq> None" "m (m_end_id p) \<noteq> None" "\<forall>r \<in> set (path p). m (node r) \<noteq> None"
  shows "\<exists>q. renumber_vertices m p = Inr q"
proof -
  have "renumber_vertices m p = Inr (p\<lparr>path := map (\<lambda>r. r\<lparr>node := the (m (node r))\<rparr>) (path p),
    m_start_id := the (m (m_start_id p)), m_end_id := the (m (m_end_id p))\<rparr>)"
    using assms unfolding renumber_vertices_Inr_iff by (auto simp: list_all2_map2 list_all2_same)
  then show ?thesis by blast
qed

lemma agg_from_renumbered:
  "list_all2 (\<lambda>r r'. m (node r) = Some (node r') \<and> r' = r\<lparr>node := node r'\<rparr>) rs rs' \<Longrightarrow>
    agg_from c rs \<Longrightarrow> agg_from c rs' \<and> map cost rs' = map cost rs \<and> map edge rs' = map edge rs \<and>
      map (\<lambda>r. m (node r)) rs = map (\<lambda>r. Some (node r)) rs'"
proof (induction arbitrary: c rule: list_all2_induct)
  case (Cons r rs r' rs')
  then have "r' = r\<lparr>node := node r'\<rparr>" by blast
  then have "cost r' = cost r \<and> agg_cost r' = agg_cost r \<and> edge r' = edge r"
    by (metis Path_t.select_convs(2-4) Path_t.surjective Path_t.update_convs(1))
  then show ?case using Cons.IH[of "c + cost r"] Cons.prems Cons.hyps by simp
qed simp

lemma path_ok_renumbered:
  assumes "renumber_vertices m p = Inr q" "path_ok p"
  shows "path_ok q \<and> m_tot_cost q = m_tot_cost p \<and> map edge (path q) = map edge (path p) \<and>
    map (\<lambda>r. m (node r)) (path p) = map (\<lambda>r. Some (node r)) (path q)"
proof -
  have r: "m (m_start_id p) = Some (m_start_id q)" "m (m_end_id p) = Some (m_end_id q)" "m_tot_cost q = m_tot_cost p"
      "list_all2 (\<lambda>r r'. m (node r) = Some (node r') \<and> r' = r\<lparr>node := node r'\<rparr>) (path p) (path q)"
    using assms(1) unfolding renumber_vertices_Inr_iff by blast+
  have p: "path p \<noteq> []" "agg_from 0 (path p)" using assms(2) by (simp_all add: path_ok_def)
  from agg_from_renumbered[OF r(4) p(2)] have
    a: "agg_from 0 (path q)" "map cost (path q) = map cost (path p)" "map edge (path q) = map edge (path p)"
      and nodes: "map (\<lambda>r. m (node r)) (path p) = map (\<lambda>r. Some (node r)) (path q)" by blast+
  have q: "path q \<noteq> []" using p(1) r(4) by auto
  have "m (node (hd (path p))) = Some (node (hd (path q)))" "m (node (last (path p))) = Some (node (last (path q)))"
    using arg_cong[OF nodes, of hd] arg_cong[OF nodes, of last] p(1) q by (simp_all add: hd_map last_map)
  moreover have "edge (last (path q)) = edge (last (path p))" "cost (last (path q)) = cost (last (path p))"
    using arg_cong[OF a(3), of last] arg_cong[OF a(2), of last] p(1) q by (simp_all add: last_map)
  ultimately show ?thesis
    using assms(2) r(1-3) a q nodes unfolding path_ok_def by simp
qed

section \<open>A search from empty tables\<close>

lemma chain_cost:
  assumes "chain h a as" "search_ok h" "reached h a"
  shows "walk_cost (m_edges h) as \<le> label h a"
  using assms
proof (induction rule: chain.induct)
  case (chain_first h a)
  then have "label h a = arc_cost (m_edges h) a" "0 \<le> label h a"
    using search_okD(4)[OF _ reached_arc, of h a] by (simp_all add: arc_ok_def)
  then show ?case using dbl_le_refl[OF dbl_nonneg_not_nan] by (simp add: walk_cost_def)
next
  case (chain_next h a c cs)
  note a = search_okD(4)[OF chain_next.prems(1) reached_arc[OF chain_next.prems(2)]]
  have c: "reached h c" "label h c + arc_cost (m_edges h) a \<le> label h a" "0 \<le> arc_cost (m_edges h) a"
    using a chain_next.hyps(1) chain_next.prems(2) by (simp_all add: arc_ok_def)
  have "walk (m_edges h) (m_start_vertex h) cs (arc_to (m_edges h) c)"
    by (rule chain_walk[OF chain_next.hyps(2) chain_next.prems(1) c(1)])
  then have "0 \<le> walk_cost (m_edges h) cs" by (rule walk_cost_nonneg)
  then have "walk_cost (m_edges h) cs + arc_cost (m_edges h) a \<le> label h c + arc_cost (m_edges h) a"
    by (rule dbl_add_mono[OF _ chain_next.IH[OF chain_next.prems(1) c(1)] c(3)])
  moreover have "walk_cost (m_edges h) (cs @ [a]) = walk_cost (m_edges h) cs + arc_cost (m_edges h) a"
    by (simp add: walk_cost_def)
  ultimately show ?case using c(2) dbl_le_trans by simp
qed

text \<open>The state \<open>process_trsp\<close> needs, and what it answers.\<close>

definition ready :: "TrspHandler \<Rightarrow> bool" where
  "ready h \<longleftrightarrow>
     graph_ok (m_edges h) (m_adjacency h) \<and> rules_ok h \<and> costs_ok h \<and> m_que h = [] \<and> m_parent h = [] \<and>
     m_dCost h = [] \<and> trsp_path h = Path_of (m_start_vertex h) (m_end_vertex h) \<and>
     (\<forall>e \<in> set (m_edges h). map_of (m_idx_to_id h) (startNode e) \<noteq> None \<and> map_of (m_idx_to_id h) (endNode e) \<noteq> None) \<and>
     map_of (m_idx_to_id h) (m_start_vertex h) \<noteq> None \<and> map_of (m_idx_to_id h) (m_end_vertex h) \<noteq> None"

definition no_way :: "TrspHandler \<Rightarrow> Path \<Rightarrow> bool" where
  "no_way h p \<longleftrightarrow>
     path p = [] \<and> m_tot_cost p = 0 \<and>
     (no_rules h \<longrightarrow> (\<forall>as. walk (m_edges h) (m_start_vertex h) as (m_end_vertex h) \<longrightarrow>
        \<not> walk_cost (m_edges h) as < dbl_max))"

definition way :: "TrspHandler \<Rightarrow> arc list \<Rightarrow> Path \<Rightarrow> bool" where
  "way h as p \<longleftrightarrow>
     path_ok p \<and> walk (m_edges h) (m_start_vertex h) as (m_end_vertex h) \<and> distinct as \<and>
     map edge (path p) = edge_ids h as @ [-1] \<and>
     map (\<lambda>r. Some (node r)) (path p) =
       map (\<lambda>a. map_of (m_idx_to_id h) (arc_from (m_edges h) a)) as @ [map_of (m_idx_to_id h) (m_end_vertex h)] \<and>
     walk_cost (m_edges h) as \<le> m_tot_cost p \<and>
     (no_rules h \<longrightarrow> (\<forall>bs. walk (m_edges h) (m_start_vertex h) bs (m_end_vertex h) \<longrightarrow>
        m_tot_cost p \<le> walk_cost (m_edges h) bs))"

definition answers :: "TrspHandler \<Rightarrow> Path \<Rightarrow> bool" where
  "answers h p \<longleftrightarrow>
     map_of (m_idx_to_id h) (m_start_vertex h) = Some (m_start_id p) \<and>
     map_of (m_idx_to_id h) (m_end_vertex h) = Some (m_end_id p) \<and> (no_way h p \<or> (\<exists>as. way h as p))"

lemma arc_ends:
  "ready h \<Longrightarrow> arc h a \<Longrightarrow> map_of (m_idx_to_id h) (arc_from (m_edges h) a) \<noteq> None"
  by (cases a) (auto simp: ready_def arc_from.simps)

lemma reached_from_end:
  assumes "search_ok h" "reached h a" "m_start_vertex h \<noteq> m_end_vertex h"
  shows "arc_from (m_edges h) a \<noteq> m_end_vertex h"
proof (cases "parent h a")
  case None
  then show ?thesis
    using search_okD(4)[OF assms(1) reached_arc[OF assms(2)]] assms(2,3) by (simp add: arc_ok_def)
next
  case (Some c)
  then show ?thesis using search_okD(4)[OF assms(1) reached_arc[OF assms(2)]] by (simp add: arc_ok_def)
qed

lemma found_position:
  assumes "search_ok h" "reached h a" "m_start_vertex h \<noteq> m_end_vertex h" "arc_to (m_edges h) a = m_end_vertex h"
  shows "(if m_end_vertex h = startNode (m_edges h ! fst a) then C_EDGE else RC_EDGE) = pos_of (snd a)"
  using reached_from_end[OF assms(1-3)] assms(4) by (cases a) (auto simp: arc_from.simps arc_to.simps split: if_splits)

lemma result_renumbered:
  assumes "ready h" "same_graph h g" "search_ok g" "reached g a" "chain g a as" "arc_to (m_edges g) a = m_end_vertex g"
    and "no_rules h \<Longrightarrow> \<forall>bs. walk (m_edges h) (m_start_vertex h) bs (m_end_vertex h) \<longrightarrow> label g a \<le> walk_cost (m_edges h) bs"
  shows "\<exists>p. renumber_vertices (map_of (m_idx_to_id g)) (trsp_result g as) = Inr p \<and> answers h p \<and> way h as p"
proof -
  note same = same_graphD[OF assms(2)]
  let ?m = "map_of (m_idx_to_id h)"
  note t = trsp_result_ok[OF assms(5,3,4,6)]
  have arcs: "reached g b" if "b \<in> set as" for b using chain_labels[OF assms(5,3,4) that] by blast
  have "?m (node r) \<noteq> None" if "r \<in> set (path (trsp_result g as))" for r
  proof -
    have "node r \<in> set (map node (path (trsp_result g as)))" using that by simp
    then consider b where "b \<in> set as" "node r = arc_from (m_edges h) b" | "node r = m_end_vertex h"
      unfolding t(5) same(1,4) by auto
    then show ?thesis
    proof cases
      case 1
      then show ?thesis using arc_ends[OF assms(1)] reached_arc[OF arcs] same(1) by simp
    next
      case 2
      then show ?thesis using assms(1) by (simp add: ready_def)
    qed
  qed
  then obtain p where p: "renumber_vertices ?m (trsp_result g as) = Inr p"
    using renumber_vertices_total[of ?m "trsp_result g as"] t(2,3) assms(1) same(3,4) by (auto simp: ready_def)
  note q = path_ok_renumbered[OF p t(1)]
  have ids: "?m (m_start_vertex h) = Some (m_start_id p)" "?m (m_end_vertex h) = Some (m_end_id p)"
    using p t(2,3) same(3,4) unfolding renumber_vertices_Inr_iff by simp_all
  have "map (\<lambda>r. ?m (node r)) (path (trsp_result g as)) = map ?m (map node (path (trsp_result g as)))" by simp
  then have nodes: "map (\<lambda>r. Some (node r)) (path p) =
      map (\<lambda>a. ?m (arc_from (m_edges h) a)) as @ [?m (m_end_vertex h)]"
    using q unfolding t(5) same(1,4) by simp
  have "walk (m_edges h) (m_start_vertex h) as (m_end_vertex h)"
    using chain_walk[OF assms(5,3,4)] assms(6) same(1,3,4) by simp
  moreover have "walk_cost (m_edges h) as \<le> m_tot_cost p"
    using chain_cost[OF assms(5,3,4)] q t(4) same(1) by simp
  moreover have "map edge (path p) = edge_ids h as @ [-1]" using q t(6) same(1) by (simp add: edge_ids_def)
  ultimately have "way h as p"
    using q nodes chain_distinct[OF assms(5)] assms(7) t(4) by (simp add: way_def)
  then show ?thesis using p ids same(8) by (auto simp: answers_def)
qed

lemma process_trsp_answers:
  assumes "ready h" "m_start_vertex h \<noteq> m_end_vertex h"
  shows "\<exists>N. \<forall>fuel \<ge> N. \<exists>p h'. process_trsp fuel (length (m_edges h)) h = Inr (p, h') \<and> answers h p"
proof -
  define h1 where "h1 = h\<lparr>m_parent := replicate (Suc (length (m_edges h))) no_predecessor,
    m_dCost := replicate (Suc (length (m_edges h))) max_costs\<rparr>"
  have r: "trsp_path h = Path_of (m_start_vertex h) (m_end_vertex h)" "m_parent h = []" "m_dCost h = []"
    using assms(1) by (simp_all add: ready_def)
  have g1: "same_graph h h1" by (simp add: h1_def same_graph_def)
  have "fresh h1"
    using assms(1) rules_ok_same[OF g1] start_same(2)[OF g1] by (simp add: fresh_def ready_def) (simp add: h1_def)
  from initialize_que_searching[OF this, of "m_start_vertex h"] obtain h2 where
    h2: "initialize_que h1 = Inr h2" "searching h1 (at_vertex (m_start_vertex h) h2)" "same_graph h1 h2" by blast
  let ?h3 = "at_vertex (m_start_vertex h) h2"
  have g2: "same_graph h h2" using same_graph_trans[OF g1 h2(3)] .
  have g3: "same_graph h ?h3" using same_graph_trans[OF g2] at_vertex_simps(4) by blast
  note s2 = same_graphD[OF g2] and s3 = same_graphD[OF g3]
  have ids: "m_start_id (trsp_path h) = m_start_vertex h" "m_end_id (trsp_path h) = m_end_vertex h"
    by (simp_all add: r Path_of_def)
  have run: "process_trsp fuel (length (m_edges h)) h =
    bindE (dijkstra_exploration fuel ?h3) (\<lambda>(cur_edge, h4).
      bindE (pgassert (m_start_id (trsp_path h4) = m_start_vertex h4)) (\<lambda>_.
      if m_current_node h4 \<noteq> m_end_vertex h4 then
        bindE (renumber_vertices (map_of (m_idx_to_id h4)) (Path_of (m_start_vertex h4) (m_end_vertex h4)))
         (\<lambda>p. Inr (p, h4))
      else
       (case cur_edge of
          None \<Rightarrow> Inl UndefinedBehaviour
        | Some e \<Rightarrow>
            bindE (construct_path (2 * length (m_edges h) + 1) (m_edgeIndex e)
                     (if m_current_node h4 = startNode e then C_EDGE else RC_EDGE) h4) (\<lambda>(_, h5).
            let p = recalculate_agg_cost (push_back (path_row (m_end_vertex h5) (-1) 0) (trsp_path h5)) in
            bindE (renumber_vertices (map_of (m_idx_to_id h5)) p) (\<lambda>p'. Inr (p', h5\<lparr>trsp_path := p'\<rparr>))))))" for fuel
    using h2(1) ids r(2,3) s2(3,6) by (simp add: process_trsp_def h1_def Let_def)
  have "\<exists>p h'. process_trsp fuel (length (m_edges h)) h = Inr (p, h') \<and> answers h p" if fuel: "work ?h3 \<le> fuel" for fuel
  proof -
    obtain cur h4 where e: "dijkstra_exploration fuel ?h3 = Inr (cur, h4)" "same_graph ?h3 h4"
        and ends: "(\<exists>a. found ?h3 cur h4 a) \<or> exhausted ?h3 h4"
      using exploration_answers[OF h2(2) _ _ fuel] assms(2) s3(3,4) by auto
    have g4: "same_graph h h4" using same_graph_trans[OF g3 e(2)] .
    note s4 = same_graphD[OF g4]
    show ?thesis
    proof (cases "exhausted ?h3 h4")
      case True
      then have x: "m_current_node h4 \<noteq> m_end_vertex h4" by (simp add: exhausted_def s3 s4)
      obtain p where p: "renumber_vertices (map_of (m_idx_to_id h)) (Path_of (m_start_vertex h) (m_end_vertex h)) = Inr p"
        using renumber_vertices_total[of "map_of (m_idx_to_id h)" "Path_of (m_start_vertex h) (m_end_vertex h)"] assms(1)
        by (auto simp: ready_def Path_of_def)
      then have "answers h p"
        using True unfolding renumber_vertices_Inr_iff
        by (simp add: answers_def no_way_def Path_of_def exhausted_def s3)
      then show ?thesis using e(1) x p s4 ids unfolding run by simp
    next
      case False
      then obtain a where a: "found ?h3 cur h4 a" using ends by blast
      then have f: "cur = Some (m_edges h4 ! fst a)" "m_current_node h4 = m_end_vertex h4" "search_ok h4" "reached h4 a"
          "arc_to (m_edges h4) a = m_end_vertex h4"
        by (simp_all add: found_def s3 s4)
      obtain as where as: "chain h4 a as" using search_okD(4)[OF f(3) reached_arc[OF f(4)]] by (auto simp: arc_ok_def)
      have idx: "m_edgeIndex (m_edges h4 ! fst a) = fst a"
        using search_okD(2)[OF f(3)] reached_arc[OF f(4)] by (simp add: graph_ok_def)
      have pos: "(if m_current_node h4 = startNode (m_edges h4 ! fst a) then C_EDGE else RC_EDGE) = pos_of (snd a)"
        using found_position[OF f(3,4) _ f(5)] assms(2) f(2) s4(3,4) by simp
      have c: "construct_path (2 * length (m_edges h) + 1) (fst a) (pos_of (snd a)) h4 =
          Inr (label h4 a, push_rows (leg_rows h4 0 as) h4)"
        using construct_path_rows[OF as f(3,4)] chain_length[OF as f(3,4)] ids s4 by simp
      have res: "recalculate_agg_cost (push_back (path_row (m_end_vertex h4) (-1) 0) (trsp_path (push_rows (leg_rows h4 0 as) h4))) =
          trsp_result h4 as"
        using s4(3,4,6) r(1) by (simp add: trsp_result_def Path_of_def)
      have best: "\<forall>bs. walk (m_edges h) (m_start_vertex h) bs (m_end_vertex h) \<longrightarrow> label h4 a \<le> walk_cost (m_edges h) bs"
        if "no_rules h" using a that by (simp add: found_def s3)
      obtain p where p: "renumber_vertices (map_of (m_idx_to_id h4)) (trsp_result h4 as) = Inr p" "answers h p"
        using result_renumbered[OF assms(1) g4 f(3,4) as f(5) best] by blast
      then show ?thesis
        using e(1) f(1,2) idx pos c res s4 ids unfolding run by (simp add: Let_def)
    qed
  qed
  then show ?thesis by blast
qed

section \<open>Between the vertices of the caller\<close>

text \<open>The state \<open>process\<close> hands to \<open>process_trsp\<close>.\<close>

definition prepared :: "int \<Rightarrow> int \<Rightarrow> TrspHandler \<Rightarrow> TrspHandler" where
  "prepared s t h = (clear_handler h)\<lparr>m_start_vertex := s, m_end_vertex := t, trsp_path := Path_of s t\<rparr>"

lemma prepared_fields [simp]:
  "m_edges (prepared s t h) = m_edges h" "m_adjacency (prepared s t h) = m_adjacency h"
  "m_start_vertex (prepared s t h) = s" "m_end_vertex (prepared s t h) = t" "m_ruleTable (prepared s t h) = m_ruleTable h"
  "m_idx_to_id (prepared s t h) = m_idx_to_id h" "m_que (prepared s t h) = m_que h" "m_parent (prepared s t h) = []"
  "m_dCost (prepared s t h) = []" "trsp_path (prepared s t h) = Path_of s t"
  "rules_ok (prepared s t h) = rules_ok h" "costs_ok (prepared s t h) = costs_ok h"
  by (simp_all add: prepared_def clear_handler_def rules_ok_def costs_ok_def)

lemma adjacent_ends:
  assumes "graph_ok es adj" "i < length es"
  shows "map_of adj (startNode (es ! i)) \<noteq> None" "map_of adj (endNode (es ! i)) \<noteq> None"
proof -
  have "map_of adj v \<noteq> None" if "v \<in> {startNode (es ! i), endNode (es ! i)}" for v
  proof -
    have "i \<in> set (adjacent adj v)" using assms that unfolding graph_ok_def by blast
    then show ?thesis by (cases "map_of adj v") (simp_all add: adjacent_def)
  qed
  then show "map_of adj (startNode (es ! i)) \<noteq> None" "map_of adj (endNode (es ! i)) \<noteq> None" by blast+
qed

lemma numbered_iff:
  assumes "handler_ok h"
  shows "map_of (m_idx_to_id h) i \<noteq> None \<longleftrightarrow> map_of (m_adjacency h) i \<noteq> None"
  using handler_okD(3)[OF assms] by (metis domIff)

lemma ready_prepared:
  assumes "handler_ok h" "m_que h = []" "rules_ok h" "costs_ok h"
    and "map_of (m_id_to_idx h) v = Some s" "map_of (m_id_to_idx h) w = Some t"
  shows "ready (prepared s t h)"
proof -
  have "map_of (m_idx_to_id h) (startNode e) \<noteq> None \<and> map_of (m_idx_to_id h) (endNode e) \<noteq> None"
    if e: "e \<in> set (m_edges h)" for e
  proof -
    obtain i where "i < length (m_edges h)" "e = m_edges h ! i" using e by (metis in_set_conv_nth)
    then show ?thesis using adjacent_ends[OF handler_okD(1)[OF assms(1)]] numbered_iff[OF assms(1)] by simp
  qed
  moreover have "map_of (m_idx_to_id h) s = Some v" "map_of (m_idx_to_id h) t = Some w"
    using assms(5,6) handler_okD(2)[OF assms(1)] by simp_all
  ultimately show ?thesis using handler_okD(1)[OF assms(1)] assms(2-4) by (simp add: ready_def)
qed

lemma process_prepared:
  assumes "handler_ok h" "map_of (m_id_to_idx h) v = Some s" "map_of (m_id_to_idx h) w = Some t"
  shows "process fuel v w h = process_trsp fuel (length (m_edges h)) (prepared s t h)"
proof -
  have b: "map_of (m_idx_to_id h) s = Some v" "map_of (m_idx_to_id h) t = Some w"
    using assms(2,3) handler_okD(2)[OF assms(1)] by simp_all
  then have "map_of (m_adjacency h) s \<noteq> None" "map_of (m_adjacency h) t \<noteq> None"
    using numbered_iff[OF assms(1)] by (metis option.distinct(1))+
  then show ?thesis
    using assms(2,3) b by (auto simp: process_def Let_def map_at_def prepared_def clear_handler_def)
qed

text \<open>A walk as the caller sees it: along edges between vertices with their own ids.\<close>

definition id_of :: "TrspHandler \<Rightarrow> int \<Rightarrow> int" where
  "id_of h i = the (map_of (m_idx_to_id h) i)"

definition walks :: "TrspHandler \<Rightarrow> int \<Rightarrow> int \<Rightarrow> arc list set" where
  "walks h v w = {as. \<exists>s t. map_of (m_id_to_idx h) v = Some s \<and> map_of (m_id_to_idx h) w = Some t \<and>
     walk (m_edges h) s as t}"

text \<open>A path that follows a walk: its rows name the vertices and edges of the walk.\<close>

definition follows :: "TrspHandler \<Rightarrow> arc list \<Rightarrow> Path \<Rightarrow> bool" where
  "follows h as p \<longleftrightarrow>
     path_ok p \<and> map edge (path p) = edge_ids h as @ [-1] \<and>
     map node (path p) = map (\<lambda>a. id_of h (arc_from (m_edges h) a)) as @ [m_end_id p]"

definition route_ok :: "TrspHandler \<Rightarrow> int \<Rightarrow> int \<Rightarrow> Path \<Rightarrow> bool" where
  "route_ok h v w p \<longleftrightarrow>
     m_start_id p = v \<and> m_end_id p = w \<and>
     (path p = [] \<and> (no_rules h \<longrightarrow> (\<forall>as \<in> walks h v w. \<not> walk_cost (m_edges h) as < dbl_max)) \<or>
     (\<exists>as \<in> walks h v w. follows h as p \<and> distinct as \<and> walk_cost (m_edges h) as \<le> m_tot_cost p \<and>
        (no_rules h \<longrightarrow> (\<forall>bs \<in> walks h v w. m_tot_cost p \<le> walk_cost (m_edges h) bs))))"

theorem process_answers:
  assumes "handler_ok h" "m_que h = []" "rules_ok h" "costs_ok h" "v \<noteq> w"
    and "map_of (m_id_to_idx h) v = Some s" "map_of (m_id_to_idx h) w = Some t"
  shows "\<exists>N. \<forall>fuel \<ge> N. \<exists>p h'. process fuel v w h = Inr (p, h') \<and> route_ok h v w p"
proof -
  let ?h = "prepared s t h"
  have b: "map_of (m_idx_to_id h) s = Some v" "map_of (m_idx_to_id h) t = Some w"
    using assms(6,7) handler_okD(2)[OF assms(1)] by simp_all
  then have st: "s \<noteq> t" using assms(5) by auto
  have ws: "as \<in> walks h v w \<longleftrightarrow> walk (m_edges h) s as t" for as using assms(6,7) by (simp add: walks_def)
  have ids: "edge_ids ?h as = edge_ids h as" for as by (simp add: edge_ids_def)
  have conv: "route_ok h v w p"
    if "answers ?h p" for p
  proof -
    have p: "m_start_id p = v" "m_end_id p = w" "no_way ?h p \<or> (\<exists>as. way ?h as p)"
      using that b by (simp_all add: answers_def)
    from p(3) show ?thesis
    proof (elim disjE exE)
      assume "no_way ?h p"
      then show ?thesis using p(1,2) by (simp add: no_way_def ws route_ok_def)
    next
      fix as assume w: "way ?h as p"
      have "map Some (map node (path p)) = map Some (map (\<lambda>a. id_of h (arc_from (m_edges h) a)) as @ [m_end_id p])"
      proof -
        have "map_of (m_idx_to_id h) (arc_from (m_edges h) a) = Some (id_of h (arc_from (m_edges h) a))" if "a \<in> set as" for a
        proof -
          have "map_of (m_idx_to_id h) (arc_from (m_edges h) a) \<in> set (map (\<lambda>r. Some (node r)) (path p))"
            using w that by (auto simp: way_def)
          then show ?thesis by (auto simp: id_of_def)
        qed
        then show ?thesis using w b(2) p(2) by (simp add: way_def comp_def)
      qed
      then have "map node (path p) = map (\<lambda>a. id_of h (arc_from (m_edges h) a)) as @ [m_end_id p]"
        by (metis inj_map_eq_map inj_Some)
      then have "follows h as p" using w by (simp add: way_def follows_def ids)
      moreover have "as \<in> walks h v w" using w by (simp add: way_def ws)
      moreover have "walk_cost (m_edges h) as \<le> m_tot_cost p" "distinct as"
        "no_rules h \<longrightarrow> (\<forall>bs \<in> walks h v w. m_tot_cost p \<le> walk_cost (m_edges h) bs)"
        using w by (simp_all add: way_def ws)
      ultimately show ?thesis using p(1,2) unfolding route_ok_def by blast
    qed
  qed
  obtain N where N: "\<forall>fuel \<ge> N. \<exists>p h'. process_trsp fuel (length (m_edges h)) ?h = Inr (p, h') \<and> answers ?h p"
    using process_trsp_answers[OF ready_prepared[OF assms(1-4,6,7)]] st by auto
  show ?thesis
    unfolding process_prepared[OF assms(1,6,7)]
  proof (intro exI[of _ N] allI impI)
    fix fuel assume "N \<le> fuel"
    then obtain p h' where "process_trsp fuel (length (m_edges h)) ?h = Inr (p, h')" "answers ?h p" using N by blast
    then show "\<exists>p h'. process_trsp fuel (length (m_edges h)) ?h = Inr (p, h') \<and> route_ok h v w p"
      using conv[of p] by blast
  qed
qed

section \<open>More fuel\<close>

text \<open>A run that returned is the same run with more fuel.\<close>

lemma exploration_loop_more:
  "exploration_loop fuel cur h = Inr r \<Longrightarrow> exploration_loop (fuel + k) cur h = Inr r"
proof (induction fuel arbitrary: cur h)
  case 0
  then show ?case by (cases "m_que h") (auto simp: exploration_loop.simps[of _ _ h])
next
  case (Suc fuel)
  show ?case
  proof (cases "m_que h")
    case Nil
    then show ?thesis using Suc.prems by (simp add: exploration_loop.simps[of _ _ h])
  next
    case (Cons e que)
    obtain c i b where e: "e = (c, i, b)" by (cases e)
    show ?thesis
      using Suc.prems Suc.IH unfolding exploration_loop.simps[of _ _ h] Cons e
      by (auto simp: bindE_Inr_iff Let_def simp del: split_paired_Ex split: if_split_asm)
  qed
qed

lemma bindE_more:
  "bindE m f = Inr y \<Longrightarrow> (\<And>x. m = Inr x \<Longrightarrow> f x = Inr y \<Longrightarrow> f' x = Inr y) \<Longrightarrow> bindE m f' = Inr y"
  by (cases m) auto

lemma bindE_more_first:
  "bindE m f = Inr y \<Longrightarrow> (\<And>x. m = Inr x \<Longrightarrow> m' = Inr x) \<Longrightarrow> bindE m' f = Inr y"
  by (cases m) auto

lemma process_trsp_more:
  assumes "process_trsp fuel n h = Inr r"
  shows "process_trsp (fuel + k) n h = Inr r"
proof -
  have "dijkstra_exploration (fuel + k) g = Inr q" if "dijkstra_exploration fuel g = Inr q" for g q
    using that exploration_loop_more by (auto simp: dijkstra_exploration_def bindE_Inr_iff)
  then show ?thesis
    using assms unfolding process_trsp_def Let_def
    by (elim bindE_more) (erule bindE_more_first)
qed

lemma process_more:
  assumes "process fuel v w h = Inr r"
  shows "process (fuel + k) v w h = Inr r"
  using assms unfolding process_def Let_def
  by (auto simp: bindE_Inr_iff process_trsp_more simp del: split_paired_All split_paired_Ex split: option.splits if_splits)

theorem process_route:
  assumes "handler_ok h" "m_que h = []" "rules_ok h" "costs_ok h" "v \<noteq> w"
    and "process fuel v w h = Inr (p, h')" "v \<in> dom (map_of (m_id_to_idx h))" "w \<in> dom (map_of (m_id_to_idx h))"
  shows "route_ok h v w p"
proof -
  obtain s t where st: "map_of (m_id_to_idx h) v = Some s" "map_of (m_id_to_idx h) w = Some t" using assms(7,8) by blast
  obtain N where N: "\<forall>fuel \<ge> N. \<exists>p h'. process fuel v w h = Inr (p, h') \<and> route_ok h v w p"
    using process_answers[OF assms(1-5) st] by blast
  have "process (fuel + N) v w h = Inr (p, h')" by (rule process_more[OF assms(6)])
  moreover obtain q g where "process (fuel + N) v w h = Inr (q, g)" "route_ok h v w q" using N by (meson le_add2)
  ultimately show ?thesis by simp
qed

text \<open>A vertex that is in no edge has no number, and the answer is the empty path from 0 to 0.\<close>

lemma process_unknown:
  "v \<notin> dom (map_of (m_id_to_idx h)) \<or> w \<notin> dom (map_of (m_id_to_idx h)) \<Longrightarrow> process fuel v w h = Inr (Path_none, h)"
  by (auto simp: process_def split: option.splits)

section \<open>From a vertex to itself\<close>

text \<open>
  When start and end are the same vertex and no arc leaves it, the queue stays empty and the edge
  that \<open>dijkstra_exploration\<close> returns was never assigned.
\<close>

lemma start_loop_none:
  assumes "sizes_ok h" "\<forall>i < length (m_edges h). m_edgeIndex (m_edges h ! i) = i"
    and "\<And>a. arc h a \<Longrightarrow> \<not> start_arc h a" "set is \<subseteq> {..<length (m_edges h)}"
  shows "foldE start_from is h = Inr h"
  using assms(4)
proof (induction "is")
  case (Cons i "is")
  then have "start_from i h = Inr h" using start_from_started[of h i] assms(1-3) by (simp add: Let_def)
  then show ?case using Cons by simp
qed simp

lemma process_same_vertex:
  assumes "handler_ok h" "m_que h = []" "map_of (m_id_to_idx h) v = Some s"
    and "\<And>a. arc h a \<Longrightarrow> arc_from (m_edges h) a = s \<Longrightarrow> \<not> 0 \<le> arc_cost (m_edges h) a"
  shows "process fuel v v h = Inl UndefinedBehaviour"
proof -
  define g where "g = (prepared s s h)\<lparr>m_parent := replicate (Suc (length (m_edges h))) no_predecessor,
    m_dCost := replicate (Suc (length (m_edges h))) max_costs\<rparr>"
  note graph = handler_okD(1)[OF assms(1)]
  have g: "m_edges g = m_edges h" "m_adjacency g = m_adjacency h" "m_start_vertex g = s" "m_end_vertex g = s"
      "m_que g = []" "trsp_path g = Path_of s s" "sizes_ok g"
    using assms(2) by (simp_all add: g_def sizes_ok_def)
  have "set (adjacent (m_adjacency h) s) \<subseteq> {..<length (m_edges h)}" using graph unfolding graph_ok_def by blast
  moreover have "\<forall>i < length (m_edges h). m_edgeIndex (m_edges h ! i) = i" using graph unfolding graph_ok_def by blast
  moreover have "\<not> start_arc g a" if "arc g a" for a using assms(4) that g by (auto simp: start_arc_def)
  ultimately have init: "initialize_que g = Inr g"
    using start_loop_none[of g "adjacent (m_adjacency g) s"] g by (simp add: initialize_que_def adjacent_def)
  have loop: "dijkstra_exploration fuel (at_vertex s g) = Inr (None, at_vertex s g)"
    using g(3,5) by (simp add: dijkstra_exploration_def exploration_loop.simps)
  have "process_trsp fuel (length (m_edges h)) (prepared s s h) = Inl UndefinedBehaviour"
    using init loop by (simp add: process_trsp_def g_def Path_of_def Let_def)
  then show ?thesis using process_prepared[OF assms(1,3,3)] by simp
qed

section \<open>The handler of the constructor\<close>

lemma numbering_roundtrip_edges:
  assumes "list_all2 (renumbered (m_id_to_idx h)) es es'" "handler_ok h"
  shows "map (\<lambda>e. e\<lparr>source := id_of h (source e), target := id_of h (target e)\<rparr>) es' = es"
  using assms(1)
proof (induction rule: list_all2_induct)
  case (Cons e es e' es')
  then have "map_of (m_idx_to_id h) (source e') = Some (source e)" "map_of (m_idx_to_id h) (target e') = Some (target e)"
    using handler_okD(2)[OF assms(2)] by (simp_all add: renumbered_def)
  moreover have "e' = e\<lparr>source := source e', target := target e'\<rparr>" using Cons.hyps by (simp add: renumbered_def)
  ultimately have "e'\<lparr>source := id_of h (source e'), target := id_of h (target e')\<rparr> = e"
    by (simp add: id_of_def) (metis Edge_t.surjective Edge_t.update_convs(2,3))
  then show ?case using Cons.IH by simp
qed simp

lemma renumber_loop_length: "renumber_loop es st = Inr (es', st') \<Longrightarrow> length es' = length es"
proof (induction es arbitrary: st es' st')
  case (Cons e es)
  then obtain r where "renumber_loop es (number_vertex (target e) (number_vertex (source e) st)) = Inr r" "length es' = Suc (length (fst r))"
    by (auto simp: Let_def bindE_Inr_iff)
  then show ?case using Cons.IH[of _ "fst r" "snd r"] by simp
qed simp

lemma renumbered_length: "TrspHandler_of edges new_edges directed rules = Inr (es', h) \<Longrightarrow> length es' = length edges"
  by (auto simp: TrspHandler_of_def renumber_edges_def Let_def bindE_Inr_iff dest: renumber_loop_length)

end
