(* ===== verification/Trsp_samples.thy ===== *)
theory Trsp_samples
  imports Trsp_paths
begin

text \<open>
  A small street network on which the theorems are instantiated: 10 -> 20 -> 30 at cost 1 each, a
  direct but dearer edge 10 -> 30, and an edge 40 -> 20.
\<close>

text \<open>The largest double as a numeral, for the evaluation of the runs below.\<close>

lemma dbl_max_numeral [code]: "dbl_max = Fin 179769313486231570814527423731704356798070567525844996598917476803157260780028538760589558632766878171540458953514382464234321326889464182768467546703537516986049910576551282076245490090389328944075868508455133942304583236903222948165808559332123348274797826204144723168738177180919299881250404026184124858368"
  by (simp add: dbl_max_def)

definition street :: "int \<Rightarrow> int \<Rightarrow> int \<Rightarrow> real \<Rightarrow> Edge_t" where
  "street i s t c = \<lparr>edge_id = i, source = s, target = t, edge_cost = Fin c, reverse_cost = Fin (-1)\<rparr>"

definition net_edges :: "Edge_t list" where
  "net_edges = [street 1 10 20 1, street 2 20 30 1, street 3 10 30 5, street 4 40 20 9]"

definition net_of :: "Rule list \<Rightarrow> TrspHandler" where
  "net_of rules = (case TrspHandler_of net_edges [] True rules of Inr (_, h) \<Rightarrow> h | Inl _ \<Rightarrow> no_handler)"

definition turn_rule :: "int list \<Rightarrow> Rule" where
  "turn_rule es = \<lparr>m_dest_id = last es, rule_cost = Fin 100, m_precedencelist = rev (butlast es), m_all = es\<rparr>"

lemma net_handler:
  "handler_ok (net_of rules)" "m_que (net_of rules) = []"
  "dom (map_of (m_id_to_idx (net_of rules))) = {10, 20, 30, 40}"
proof -
  obtain es' ns' h where h: "TrspHandler_of net_edges [] True rules = Inr (es', h)" "handler_ok h" "m_que h = []"
      "dom (map_of (m_id_to_idx h)) = source ` set net_edges \<union> target ` set net_edges"
    using TrspHandler_of_ok[of net_edges "[]" True rules] by auto
  then have "net_of rules = h" by (simp add: net_of_def)
  then show "handler_ok (net_of rules)" "m_que (net_of rules) = []"
    "dom (map_of (m_id_to_idx (net_of rules))) = {10, 20, 30, 40}"
    using h(2-4) by (auto simp: net_edges_def street_def)
qed

lemma net_edge_values:
  "map m_edge (m_edges (net_of [])) =
    [street 1 0 1 1, street 2 1 2 1, street 3 0 2 5, street 4 3 1 9]"
  "m_ruleTable (net_of []) = []"
  "map_of (m_id_to_idx (net_of [])) 10 = Some 0" "map_of (m_id_to_idx (net_of [])) 30 = Some 2"
  by code_simp+

lemma net_table: "m_ruleTable (net_of [turn_rule [1, 2]]) = [(2, [turn_rule [1, 2]])]"
  by code_simp

lemma net_rules_ok: "rules_ok (net_of [])" "rules_ok (net_of [turn_rule [1, 2]])"
  by code_simp+

lemma net_edges_of: "map m_edge (m_edges (net_of [turn_rule [1, 2]])) = map m_edge (m_edges (net_of []))"
  by code_simp

lemma net_costs_ok: "costs_ok (net_of [])" "costs_ok (net_of [turn_rule [1, 2]])"
proof -
  have "costs_ok h" if "map m_edge (m_edges h) = map m_edge (m_edges (net_of []))" for h
  proof -
    have "set (map m_edge (m_edges h)) = {street 1 0 1 1, street 2 1 2 1, street 3 0 2 5, street 4 3 1 9}"
      unfolding that net_edge_values(1) by simp
    then have e: "m_edge (m_edges h ! i) \<in> {street 1 0 1 1, street 2 1 2 1, street 3 0 2 5, street 4 3 1 9}"
      if "i < length (m_edges h)" for i
      using nth_mem[OF that] by auto
    have "arc_cost (m_edges h) a < dbl_max" if "arc h a" for a
      using e[OF that] by (cases a) (auto simp: street_def arc_cost.simps dbl_max_numeral)
    then show ?thesis by (simp add: costs_ok_def)
  qed
  then show "costs_ok (net_of [])" "costs_ok (net_of [turn_rule [1, 2]])" using net_edges_of by blast+
qed

text \<open>The searches on it.\<close>

definition rows_of :: "Path \<Rightarrow> (int \<times> int \<times> double \<times> double) list" where
  "rows_of p = map (\<lambda>r. (node r, edge r, cost r, agg_cost r)) (path p)"

definition routes :: "Rule list \<Rightarrow> (int \<times> int list) list \<Rightarrow> (int \<times> int \<times> (int \<times> int \<times> double \<times> double) list) list run" where
  "routes rules combos =
     bindE (process_all 20 combos (net_of rules)) (\<lambda>(ps, h). Inr (map (\<lambda>p. (m_start_id p, m_end_id p, rows_of p)) ps))"

lemma route_10_30: "routes [] [(10, [30])] =
    Inr [(10, 30, [(10, 1, Fin 1, 0), (20, 2, Fin 1, Fin 1), (30, -1, 0, Fin 2)])]"
  by code_simp

lemma route_40_30: "routes [] [(40, [30])] =
    Inr [(40, 30, [(40, 4, Fin 9, 0), (20, 2, Fin 1, Fin 9), (30, -1, 0, Fin 10)])]"
  by code_simp

lemma route_both: "routes [] [(10, [30]), (40, [30])] =
    Inr [(10, 30, [(10, 1, Fin 1, 0), (20, 2, Fin 1, Fin 1), (30, -1, 0, Fin 2)]),
         (40, 30, [(10, 3, Fin 5, 0), (30, -1, 0, Fin 5)])]"
  by code_simp

lemma route_rule: "routes [turn_rule [1, 2]] [(10, [30])] =
    Inr [(10, 30, [(10, 3, Fin 5, 0), (30, -1, 0, Fin 5)])]"
  by code_simp

lemma route_bad_rule: "routes [turn_rule [1, 4, 2]] [(40, [30])] = Inl UndefinedBehaviour"
  by code_simp

lemma route_loop: "routes [] [(30, [30])] = Inl UndefinedBehaviour"
  by code_simp

text \<open>The same runs, as the theorems use them.\<close>

lemma ends_in: "(case r of Inl _ \<Rightarrow> False | Inr (p, h) \<Rightarrow> path p \<noteq> []) \<Longrightarrow> \<exists>p h. r = Inr (p, h) \<and> path p \<noteq> []"
  by (cases r) auto

lemma net_process_runs:
  "case process 20 10 30 (net_of []) of Inl _ \<Rightarrow> False | Inr (p, h) \<Rightarrow> path p \<noteq> []"
  "case process 20 10 30 (net_of [turn_rule [1, 2]]) of Inl _ \<Rightarrow> False | Inr (p, h) \<Rightarrow> path p \<noteq> []"
  by code_simp+

lemma net_process:
  "\<exists>p h. process 20 10 30 (net_of []) = Inr (p, h) \<and> path p \<noteq> []"
  "\<exists>p h. process 20 10 30 (net_of [turn_rule [1, 2]]) = Inr (p, h) \<and> path p \<noteq> []"
  using ends_in[OF net_process_runs(1)] ends_in[OF net_process_runs(2)] by blast+

lemma net_constructed: "\<exists>es. TrspHandler_of net_edges [] True rules = Inr (es, net_of rules)"
  using TrspHandler_of_ok[of net_edges "[]" True rules] by (auto simp: net_of_def)

definition stops_of :: "Path list \<Rightarrow> (int \<times> int list) list" where
  "stops_of ps = map (\<lambda>p. (m_start_id p, map node (path p))) ps"

lemma stops_in:
  "(case r of Inl _ \<Rightarrow> False | Inr (ps, h) \<Rightarrow> stops_of ps = xs) \<Longrightarrow> \<exists>ps h. r = Inr (ps, h) \<and> stops_of ps = xs"
  by (cases r) auto

lemma net_stale_runs:
  "case process_all 20 [(10, [30]), (40, [30])] (net_of []) of Inl _ \<Rightarrow> False
   | Inr (ps, h) \<Rightarrow> stops_of ps = [(10, [10, 20, 30]), (40, [10, 30])]"
  "case process_all 20 [(40, [30])] (net_of []) of Inl _ \<Rightarrow> False | Inr (ps, h) \<Rightarrow> stops_of ps = [(40, [40, 20, 30])]"
  by code_simp+

lemma net_stale_run:
  "\<exists>h p q r g g'. TrspHandler_of net_edges [] True [] = Inr h \<and>
     process_all 20 [(10, [30]), (40, [30])] (snd h) = Inr ([p, q], g) \<and> process_all 20 [(40, [30])] (snd h) = Inr ([r], g') \<and>
     m_start_id q = 40 \<and> map node (path q) = [10, 30] \<and> m_start_id r = 40 \<and> map node (path r) = [40, 20, 30]"
proof -
  obtain es where "TrspHandler_of net_edges [] True [] = Inr (es, net_of [])" using net_constructed by blast
  moreover obtain ps g where a: "process_all 20 [(10, [30]), (40, [30])] (net_of []) = Inr (ps, g)"
      "stops_of ps = [(10, [10, 20, 30]), (40, [10, 30])]"
    using stops_in[OF net_stale_runs(1)] by blast
  moreover obtain qs g' where b: "process_all 20 [(40, [30])] (net_of []) = Inr (qs, g')" "stops_of qs = [(40, [40, 20, 30])]"
    using stops_in[OF net_stale_runs(2)] by blast
  moreover obtain p q where "ps = [p, q]" "m_start_id q = 40" "map node (path q) = [10, 30]"
    using a(2) unfolding stops_of_def by (auto simp: map_eq_Cons_conv)
  moreover obtain r where "qs = [r]" "m_start_id r = 40" "map node (path r) = [40, 20, 30]"
    using b(2) unfolding stops_of_def by (auto simp: map_eq_Cons_conv)
  ultimately show ?thesis by auto
qed

lemma net_bad_rule_runs:
  "process_all 20 [(40, [30])] (net_of [turn_rule [1, 4, 2]]) = Inl UndefinedBehaviour"
  "\<not> rules_ok (net_of [turn_rule [1, 4, 2]])"
  by code_simp+

lemma net_bad_rule_run:
  "\<exists>h. TrspHandler_of net_edges [] True [turn_rule [1, 4, 2]] = Inr h \<and>
     process_all 20 [(40, [30])] (snd h) = Inl UndefinedBehaviour \<and> \<not> rules_ok (snd h)"
  using net_constructed[of "[turn_rule [1, 4, 2]]"] net_bad_rule_runs by auto

text \<open>The state after the first arcs of a search from 10.\<close>

definition net_fresh :: TrspHandler where
  "net_fresh = (prepared 0 2 (net_of [turn_rule [1, 2]]))\<lparr>m_parent := replicate 5 no_predecessor,
     m_dCost := replicate 5 max_costs\<rparr>"

definition net_first :: TrspHandler where
  "net_first = (case initialize_que net_fresh of Inr h \<Rightarrow> h | Inl _ \<Rightarrow> net_fresh)"

lemma net_first_values:
  "parent net_first (0, True) = None" "length (m_edges net_first) = 4" "edgeID (m_edges net_first ! 0) = 1"
  "edgeID (m_edges net_first ! 1) = 2" "m_ruleTable net_first = [(2, [turn_rule [1, 2]])]"
  by code_simp+

lemma net_first_ok: "search_ok net_first" "rules_ok net_first"
proof -
  let ?n = "net_of [turn_rule [1, 2]]"
  have len: "length (m_edges ?n) = 4" using arg_cong[OF net_edges_of, of length] arg_cong[OF net_edge_values(1), of length] by simp
  have same: "same_graph (prepared 0 2 ?n) net_fresh" by (simp add: net_fresh_def same_graph_def)
  have "graph_ok (m_edges ?n) (m_adjacency ?n)" by (rule handler_okD(1)[OF net_handler(1)])
  then have "fresh net_fresh"
    using rules_ok_same[OF same] start_same(2)[OF same] net_rules_ok(2) net_costs_ok(2) net_handler(2)
      same_graphD(1,2)[OF same] len
    by (simp add: fresh_def) (simp add: net_fresh_def numeral_eq_Suc)
  from initialize_que_full[OF this] obtain h where "initialize_que net_fresh = Inr h" "full_ok h" by blast
  then show "search_ok net_first" "rules_ok net_first" by (simp_all add: net_first_def full_ok_def)
qed

lemma net_started:
  obtains h where "search_ok h" "rules_ok h" "parent h (0, True) = None" "length (m_edges h) = 4"
    "edgeID (m_edges h ! 0) = 1" "edgeID (m_edges h ! 1) = 2" "m_ruleTable h = [(2, [turn_rule [1, 2]])]"
  using net_first_ok net_first_values by blast

lemma net_no_arc_from_30:
  assumes "fst a < length (m_edges (net_of []))" "arc_from (m_edges (net_of [])) a = 2"
  shows "\<not> 0 \<le> arc_cost (m_edges (net_of [])) a"
proof -
  let ?es = "m_edges (net_of [])"
  have "\<forall>e \<in> set ?es. startNode e \<noteq> 2 \<and> r_cost e = Fin (-1)" by code_simp
  then have "startNode (?es ! fst a) \<noteq> 2" "r_cost (?es ! fst a) = Fin (-1)" using nth_mem[OF assms(1)] by blast+
  then show ?thesis using assms(2) by (cases a) (auto simp: arc_from.simps arc_cost.simps split: if_splits)
qed

text \<open>A path of one edge.\<close>

definition leg_path :: "int \<Rightarrow> int \<Rightarrow> int \<Rightarrow> Path" where
  "leg_path v e w = recalculate_agg_cost ((Path_of v w)\<lparr>path := [path_row v e 1, path_row w (-1) 0]\<rparr>)"

lemma leg_path_value:
  "leg_path v e w = \<lparr>path = [path_row v e 1, (path_row w (-1) 0)\<lparr>agg_cost := 1\<rparr>], m_start_id = v, m_end_id = w, m_tot_cost = 1\<rparr>"
  by (simp add: leg_path_def recalculate_agg_cost_def Path_of_def path_row_def)

lemma leg_path_ok: "path_ok (leg_path v e w)"
  by (simp add: leg_path_value path_ok_def path_row_def)

lemma leg_path_fields [simp]:
  "m_start_id (leg_path v e w) = v" "m_end_id (leg_path v e w) = w" "map node (path (leg_path v e w)) = [v, w]"
  "map edge (path (leg_path v e w)) = [e, -1]" "\<forall>r \<in> set (path (leg_path v e w)). pred r = 0"
  by (simp_all add: leg_path_value path_row_def)

end
