(* ===== verification/Samples.thy ===== *)
theory Samples
  imports Problems
begin

text \<open>
  A small concrete problem, on which the theorems are instantiated: three places, two orders and
  one vehicle.  Every value below is computed from the rows by the model's own constructors.
\<close>

definition ex_rows :: "IID_t_rt list" where
  "ex_rows = map (\<lambda>(i, j, c). \<lparr>from_vid = i, to_vid = j, iid_cost = Fin c\<rparr>)
     [(1, 2, 3), (1, 3, 4), (2, 1, 3), (2, 3, 2), (3, 1, 4), (3, 2, 2)]"

definition ex_matrix :: Dmatrix where
  "ex_matrix = \<lparr>dm_ids = [1, 2, 3],
     dm_costs = [[0, Fin 3, Fin 4], [Fin 3, 0, Fin 2], [Fin 4, Fin 2, 0]]\<rparr>"

definition ex_order :: "int \<Rightarrow> int \<Rightarrow> int \<Rightarrow> Orders_t" where
  "ex_order i p d =
     \<lparr>o_id = i, o_demand = Fin 10, pick_x = 0, pick_y = 0, pick_node_id = p,
      pick_open_t = Fin 2, pick_close_t = Fin 30, pick_service_t = Fin 1, deliver_x = 0,
      deliver_y = 0, deliver_node_id = d, deliver_open_t = Fin 4, deliver_close_t = Fin 40,
      deliver_service_t = Fin 1\<rparr>"

definition ex_orders :: "Orders_t list" where
  "ex_orders = [ex_order 10 2 3, ex_order 11 3 2]"

definition ex_vehicle :: "Vehicle_t" where
  "ex_vehicle =
     \<lparr>v_id = 1, v_capacity = Fin 15, v_speed = 1, start_x = 0, start_y = 0, start_node_id = 1,
      cant_v = 1, start_open_t = 0, start_close_t = Fin 100, start_service_t = 0, end_x = 0,
      end_y = 0, end_node_id = 1, end_open_t = 0, end_close_t = Fin 100, end_service_t = 0\<rparr>"

definition right :: "'a run \<Rightarrow> 'a" where
  "right r = (case r of Inr x \<Rightarrow> x)"

definition ex_table :: PD_Orders where
  "ex_table = map (\<lambda>(i, q). Order_of i (o_id q)
       (Vehicle_node_of (Tw_node_of_order (2 * i) q kPickup))
       (Vehicle_node_of (Tw_node_of_order (2 * i + 1) q kDelivery))) [(0, ex_order 10 2 3), (1, ex_order 11 3 2)]"

definition ex_truck :: Vehicle_pickDeliver where
  "ex_truck =
     (let s = Vehicle_node_of (Tw_node_of_vehicle 4 ex_vehicle kStart);
          e = Vehicle_node_of (Tw_node_of_vehicle 5 ex_vehicle kEnd) in
      right (Vehicle_pickDeliver_of ex_matrix 0 1 s e (Fin 15) 1 1)\<lparr>m_orders := ex_table\<rparr>)"

lemma ex_matrix_rows: "Dmatrix_of_rows ex_rows = Inr ex_matrix"
  by code_simp

lemma ex_truck_path: "sites ex_truck = [site (hd (m_path ex_truck)), site (last (m_path ex_truck))]"
  by code_simp

lemma ex_veh_wf: "veh_wf ex_matrix ex_truck"
  unfolding veh_wf_def by (intro conjI; code_simp)

lemma ex_orders_ok: "orders_ok ex_matrix ex_table"
  by code_simp

lemma ex_truck_orders: "m_orders ex_truck = ex_table" "m_orders_in_vehicle ex_truck = ids_none"
    "length (m_path ex_truck) = 2"
  by code_simp+

lemma ex_pd_wf: "pd_wf ex_matrix ex_truck"
proof -
  have "serves ex_table {} (sites ex_truck)"
    unfolding serves_def by (intro conjI; code_simp)
  then show ?thesis
    by (simp add: pd_wf_def ex_veh_wf ex_orders_ok ex_truck_orders)
qed

text \<open>The problem as the constructor sees it: every order fits alone on every vehicle.\<close>

lemma ex_build_run:
  "case build_orders ex_matrix ex_orders [] of Inl _ \<Rightarrow> False | Inr (nodes, os) \<Rightarrow>
     (case build_fleet ex_matrix [ex_vehicle] 1 nodes of Inl _ \<Rightarrow> False | Inr (nodes', f) \<Rightarrow>
        is_fleet_ok [] f = Inr (True, []) \<and> all_alone ex_matrix os f)"
  by code_simp

lemma ex_rows_finite: "\<forall>c \<in> set ex_rows. is_fin (iid_cost c)"
  by (simp add: ex_rows_def is_fin_def)

lemma ex_clocks: "finite_matrix ex_matrix" "clocked_row 1 ex_vehicle" "timed ex_matrix (clock ex_truck)"
  by code_simp+

lemma ex_build:
  obtains nodes os nodes' f where "build_orders ex_matrix ex_orders [] = Inr (nodes, os)"
    "build_fleet ex_matrix [ex_vehicle] 1 nodes = Inr (nodes', f)" "is_fleet_ok [] f = Inr (True, [])"
    "all_alone ex_matrix os f" "orders_all_ok ex_matrix f os = Inr True"
    "\<forall>v \<in> set (m_trucks f). timed ex_matrix (clock v)"
proof -
  obtain nodes os where n: "build_orders ex_matrix ex_orders [] = Inr (nodes, os)"
    using ex_build_run by (cases "build_orders ex_matrix ex_orders []") auto
  obtain nodes' f where f: "build_fleet ex_matrix [ex_vehicle] 1 nodes = Inr (nodes', f)"
    using ex_build_run n by (cases "build_fleet ex_matrix [ex_vehicle] 1 nodes") auto
  have r: "is_fleet_ok [] f = Inr (True, [])" "all_alone ex_matrix os f"
    using ex_build_run by (simp_all add: n f)
  have wf: "dm_wf ex_matrix" using ex_veh_wf by (simp add: veh_wf_def)
  then have "m_trucks f \<noteq> []" using build_fleet_trucks(3) f by blast
  moreover have "\<forall>v \<in> set (m_trucks f). timed ex_matrix (clock v)"
    by (rule build_fleet_timed[OF wf f ex_clocks(1)]) (simp add: ex_clocks(2))
  ultimately show ?thesis using that n f r all_alone_ok by blast
qed

lemma ex_dm: "dm_wf ex_matrix" "dm_has_id ex_matrix 1" "has_no_infinity ex_matrix"
  using ex_veh_wf by (simp_all add: veh_wf_def) (simp_all add: ex_matrix_def has_no_infinity_def
    dbl_max_def zero_double_def)

lemma ex_problem:
  obtains p where "Pgr_pickDeliver_of ex_orders [ex_vehicle] ex_matrix 1 1 1 = Inr p" "msg_error p = []"
    "problem_ok p" "p_orders p = table_of ex_orders" "m_cost_matrix p = ex_matrix"
proof -
  obtain nodes os nodes' f where b: "build_orders ex_matrix ex_orders [] = Inr (nodes, os)"
    "build_fleet ex_matrix [ex_vehicle] 1 nodes = Inr (nodes', f)" "is_fleet_ok [] f = Inr (True, [])"
    "orders_all_ok ex_matrix f os = Inr True"
    by (rule ex_build)
  show ?thesis
    by (rule Pgr_pickDeliver_of_accepts[OF ex_dm(1) _ _ b, of 1 1])
      (use that in \<open>auto simp: ex_orders_def\<close>)
qed

lemma ex_fleet: obtains f where "fleet_ok ex_matrix (table_of ex_orders) f"
  using ex_problem by (metis problem_ok_def)

lemma ex_in_table: "in_table (m_orders ex_truck) (ex_table ! 0)" "\<not> has_order ex_truck (ex_table ! 0)"
  using in_table_nth[OF ex_orders_ok, of 0] by (simp_all add: ex_truck_orders has_order_def ex_table_def)

lemma ex_table_eq: "ex_table = table_of ex_orders"
  by code_simp

lemma ex_table_ok: "orders_ok ex_matrix (table_of ex_orders)" "length (table_of ex_orders) = 2"
  using ex_orders_ok by (simp_all add: ex_table_eq) (simp add: ex_orders_def)

lemma ex_table_idx: "length ex_table = 2" "m_idx (ex_table ! 0) = 0" "m_idx (ex_table ! 1) = 1"
  by code_simp+

lemma ex_carries:
  obtains v where "pd_wf ex_matrix v" "m_orders v = ex_table" "m_orders_in_vehicle v = Identifiers [0]"
    "has_order v (ex_table ! 0)" "\<not> has_order v (ex_table ! 1)" "in_table (m_orders v) (ex_table ! 1)"
    "in_table (m_orders v) (ex_table ! 0)" "timed ex_matrix (clock v)"
proof -
  let ?v = "carry (ex_table ! 0) (via ex_matrix ex_truck (with_order (ex_table ! 0) (sites ex_truck) 1 2))"
  note len = ex_table_idx(1) and idx = ex_table_idx(2,3)
  have e: "extends ex_matrix ex_truck (ex_table ! 0) ?v"
    by (intro extendsI) (simp_all add: ex_truck_orders)
  note f = extends_fields[OF e]
  have "m_orders_in_vehicle ?v = Identifiers [0]"
    using f(6) by (simp add: ex_truck_orders idx ids_add_def ids_none_def)
  then show ?thesis
    using that[of ?v] extends_wf[OF e ex_pd_wf ex_in_table] f(1,7) ex_truck_orders(1) idx len
      in_table_nth[OF ex_orders_ok, of 0] in_table_nth[OF ex_orders_ok, of 1]
      extends_clock[OF e ex_pd_wf ex_in_table] ex_clocks(3)
    by (simp add: has_order_def ids_set_def)
qed

lemma ex_solution:
  obtains old :: Solution where "vehicles_ok ex_matrix (table_of ex_orders) (fleet old)" "fleet old \<noteq> []"
    "mset (loads (fleet old)) = mset [0..<length (table_of ex_orders)]"
    "\<forall>v \<in> set (fleet old). timed ex_matrix (clock v)"
proof -
  obtain v where v: "pd_wf ex_matrix v" "m_orders v = ex_table" "m_orders_in_vehicle v = Identifiers [0]"
    "\<not> has_order v (ex_table ! 1)" "in_table (m_orders v) (ex_table ! 1)" "timed ex_matrix (clock v)"
    by (rule ex_carries)
  obtain w where w: "extends ex_matrix v (ex_table ! 1) w"
    using extendsI[of 1 2 v] veh_wf_nonempty[OF pd_wfD(1)[OF v(1)]] by auto
  have "m_orders_in_vehicle w = Identifiers [0, 1]"
    using extends_fields(6)[OF w] v(3) ex_table_idx(3) by (simp add: ids_add_def)
  moreover have "pd_wf ex_matrix w" "m_orders w = ex_table"
    using extends_wf[OF w v(1,5,4)] extends_fields(1)[OF w] v(2) by simp_all
  moreover have "timed ex_matrix (clock w)" using extends_clock[OF w v(1,5,4)] v(6) by simp
  moreover have "[0..<length (table_of ex_orders)] = [0, 1]"
    unfolding ex_table_ok(2) by (simp add: upt_rec)
  ultimately show ?thesis
    by (intro that[of "\<lparr>fleet = [w], trucks = undefined\<rparr>"]) (simp_all only:, simp_all add: ex_table_eq)
qed

lemma ex_run:
  obtains rs where "do_pickDeliver ex_orders [ex_vehicle] ex_rows 1 1 1 = Inr (Rows rs)"
proof -
  obtain nodes os nodes' f where b: "build_orders ex_matrix ex_orders [] = Inr (nodes, os)"
    "build_fleet ex_matrix [ex_vehicle] 1 nodes = Inr (nodes', f)" "is_fleet_ok [] f = Inr (True, [])"
    "all_alone ex_matrix os f" and t: "\<forall>v \<in> set (m_trucks f). timed ex_matrix (clock v)"
    by (rule ex_build)
  obtain rs where "run_problem ex_orders [ex_vehicle] ex_matrix 1 1 1 = Inr (Rows rs)"
    using run_problem_solves[OF ex_dm(1) _ _ b, of 1 1] t by (auto simp: ex_orders_def)
  moreover have "ex_rows \<noteq> []" "ex_orders \<noteq> []" by (simp_all add: ex_rows_def ex_orders_def)
  ultimately show ?thesis
    using that ex_dm(3) ex_matrix_rows by (simp add: do_pickDeliver_def catching_def)
qed

end
