(* ===== verification/Table_samples.thy ===== *)
theory Table_samples
  imports Sql_planners Rule_checks Trsp_samples Samples
begin

text \<open>
  A small database behind the interface of the server, with cursors that hand out one row at a time:
  the concrete tables of the witnesses, and the paths and places that other properties are applied to.
\<close>

datatype datum = Num int | Real double | Char char | Ints "int list" | Null

type_synonym table = "(string \<times> nat) list \<times> datum list list"

fun num_of :: "datum \<Rightarrow> int" where
  "num_of (Num i) = i"
| "num_of _ = 0"

fun real_of :: "datum \<Rightarrow> double" where
  "real_of (Real x) = x"
| "real_of _ = 0"

fun column_position :: "(string \<times> nat) list \<Rightarrow> string \<Rightarrow> int \<Rightarrow> int" where
  "column_position [] name i = SPI_ERROR_NOATTRIBUTE"
| "column_position ((n, ty) # cols) name i = (if n = name then i else column_position cols name (i + 1))"

definition spi_of :: "(string \<times> table) list \<Rightarrow> (datum list, (string \<times> nat) list, datum, table) spi" where
  "spi_of db =
     \<lparr>SPI_prepare = map_of db, SPI_cursor_open = Some,
      SPI_cursor_fetch = (\<lambda>(cols, rows) n. (take (min n 1) rows, cols, (cols, drop (min n 1) rows))),
      SPI_fnumber = (\<lambda>cols name. column_position cols name 1),
      SPI_gettypeid = (\<lambda>cols i. snd (cols ! (nat i - 1))),
      SPI_getbinval = (\<lambda>t cols i. if 1 \<le> i \<and> nat i \<le> length t then (t ! (nat i - 1), t ! (nat i - 1) = Null) else (Null, True)),
      SPI_getvalue = (\<lambda>t cols i. None),
      DatumGetInt16 = num_of, DatumGetInt32 = num_of, DatumGetInt64 = num_of,
      DatumGetFloat4 = real_of, DatumGetFloat8 = real_of, numeric_float8_no_overflow = (\<lambda>v. v),
      char_at_1 = (\<lambda>v. case v of Char c \<Rightarrow> c | _ \<Rightarrow> kBoth),
      DatumGetArrayTypeP = (\<lambda>v. case v of
          Ints xs \<Rightarrow> \<lparr>elemtype = INT8OID, ndim = 1, nitems = int (length xs), elements = map (\<lambda>i. (Num i, False)) xs\<rparr>
        | _ \<Rightarrow> \<lparr>elemtype = INT8OID, ndim = 0, nitems = 0, elements = []\<rparr>)\<rparr>"

lemma spi_of_delivers: "delivers (spi_of db) cols (cols, rows) rows"
proof (induction rows)
  case Nil
  show ?case by (rule delivers.finished[where p' = "(cols, [])"]) (simp add: spi_of_def)
next
  case (Cons r rows)
  have "delivers (spi_of db) cols (cols, r # rows) ([r] @ rows)"
    by (rule delivers.block[OF _ _ Cons]) (simp_all add: spi_of_def tuple_limit_def min_def)
  then show ?case by simp
qed

lemma spi_of_query: "map_of db sql = Some (cols, rows) \<Longrightarrow> query (spi_of db) sql cols rows"
  using spi_of_delivers by (auto simp: query_def spi_of_def)

text \<open>Two edges without ids and without reverse costs, and vehicles that end elsewhere.\<close>

definition edge_columns_of_table :: "(string \<times> nat) list" where
  "edge_columns_of_table = [(''source'', INT4OID), (''target'', INT8OID), (''cost'', FLOAT8OID)]"

definition vehicle_columns_of_table :: "(string \<times> nat) list" where
  "vehicle_columns_of_table =
     [(''id'', INT8OID), (''capacity'', INT4OID), (''start_node_id'', INT8OID), (''end_node_id'', INT8OID)]"

definition example_db :: "(string \<times> table) list" where
  "example_db =
     [(''edges'', edge_columns_of_table, [[Num 10, Num 20, Real (Fin 2)], [Num 20, Num 30, Real PInf]]),
      (''vehicles'', vehicle_columns_of_table, [[Num 1, Num 50, Num 6, Num 7]]),
      (''bad'', [(''source'', INT4OID), (''cost'', TEXTOID)], [])]"

lemma example_queries:
  "query (spi_of example_db) ''edges'' edge_columns_of_table [[Num 10, Num 20, Real (Fin 2)], [Num 20, Num 30, Real PInf]]"
  "query (spi_of example_db) ''vehicles'' vehicle_columns_of_table [[Num 1, Num 50, Num 6, Num 7]]"
  "query (spi_of example_db) ''bad'' [(''source'', INT4OID), (''cost'', TEXTOID)] []"
  by (rule spi_of_query, simp add: example_db_def)+

lemma example_cells:
  "has_column (spi_of db) cols n \<longleftrightarrow> column_position cols n 1 \<noteq> SPI_ERROR_NOATTRIBUTE"
  "column_type (spi_of db) cols n = snd (cols ! (nat (column_position cols n 1) - 1))"
  "null_at (spi_of db) cols t n =
     (let i = column_position cols n 1 in if 1 \<le> i \<and> nat i \<le> length t then t ! (nat i - 1) = Null else True)"
  "datum_at (spi_of db) cols t n =
     (let i = column_position cols n 1 in if 1 \<le> i \<and> nat i \<le> length t then t ! (nat i - 1) else Null)"
  "DatumGetInt16 (spi_of db) = num_of" "DatumGetInt32 (spi_of db) = num_of" "DatumGetInt64 (spi_of db) = num_of"
  "DatumGetFloat8 (spi_of db) = real_of"
  by (simp_all add: spi_of_def has_column_def column_type_def null_at_def datum_at_def Let_def)

text \<open>The vehicle of the table ends where it starts.\<close>

lemma vehicle_columns_good: "columns_ok (spi_of db) vehicle_columns_of_table (vehicle_columns True)"
  by (simp add: columns_ok_def vehicle_columns_def example_cells vehicle_columns_of_table_def oids.simps)

lemma example_vehicles: "\<exists>v. get_vehicles (spi_of example_db) ''vehicles'' True = Inr [v] \<and> start_node_id v = 6"
proof -
  have eq: "get_vehicles (spi_of example_db) ''vehicles'' True =
      Inr (vehicle_rows.numbered_rows True (spi_of example_db) vehicle_columns_of_table 0 [[Num 1, Num 50, Num 6, Num 7]])"
    unfolding get_vehicles_def
    by (rule vehicle_rows.read_all[OF example_queries(2) vehicle_columns_good])
      (simp add: vehicle_complete_def vehicle_cells_def no_nulls_def example_cells vehicle_columns_of_table_def)
  then show ?thesis
    by (simp add: vehicle_rows.numbered_rows_def vehicle_of_row_def Let_def int_at_def element_value_def example_cells vehicle_columns_of_table_def)
qed

section \<open>Paths and rules\<close>

text \<open>A path over the edges 1, 2 and 3.\<close>

definition turning_path :: Path where
  "turning_path =
     \<lparr>path = [\<lparr>node = 10, edge = 1, cost = Fin 1, agg_cost = 0, pred = 10\<rparr>, \<lparr>node = 20, edge = 2, cost = Fin 1, agg_cost = Fin 1, pred = 20\<rparr>,
              \<lparr>node = 30, edge = 3, cost = Fin 1, agg_cost = Fin 2, pred = 30\<rparr>, \<lparr>node = 40, edge = -1, cost = 0, agg_cost = Fin 3, pred = 40\<rparr>],
      m_start_id = 10, m_end_id = 40, m_tot_cost = Fin 3\<rparr>"

text \<open>The same path with edge 0 in the place of edge 1.\<close>

definition zero_path :: Path where
  "zero_path = turning_path\<lparr>path := (hd (path turning_path))\<lparr>edge := 0\<rparr> # tl (path turning_path)\<rparr>"

section \<open>Places\<close>

definition far_order :: Orders_t where
  "far_order = (ex_order 10 0 0)\<lparr>deliver_x := Fin 3, deliver_y := Fin 4\<rparr>"

lemma far_points: "\<forall>p \<in> points_of [far_order] [ex_vehicle]. finite_pt p"
  by (simp add: points_of_def finite_pt_def pick_pt_def deliver_pt_def start_pt_def end_pt_def far_order_def ex_order_def
      ex_vehicle_def zero_double_def)

section \<open>The tables of a planner\<close>

definition place_columns :: "(string \<times> nat) list" where
  "place_columns =
     [(''id'', INT8OID), (''demand'', INT4OID), (''p_x'', INT4OID), (''p_y'', INT4OID), (''p_open'', INT4OID), (''p_close'', INT4OID),
      (''d_x'', INT4OID), (''d_y'', INT4OID), (''d_open'', INT4OID), (''d_close'', INT4OID)]"

definition depot_columns :: "(string \<times> nat) list" where
  "depot_columns = [(''id'', INT8OID), (''capacity'', INT4OID), (''start_x'', INT4OID), (''start_y'', INT4OID)]"

definition planner_db :: "(string \<times> table) list" where
  "planner_db =
     [(''orders'', ([(''id'', INT8OID), (''demand'', INT4OID), (''p_node_id'', INT8OID), (''p_open'', INT4OID), (''p_close'', INT4OID),
         (''d_node_id'', INT8OID), (''d_open'', INT4OID), (''d_close'', INT4OID)],
        [[Num 10, Num 10, Num 2, Num 2, Num 30, Num 3, Num 4, Num 40]])),
      (''vehicles'', (vehicle_columns_of_table, [[Num 1, Num 50, Num 1, Num 1]])),
      (''matrix'', ([(''start_vid'', INT8OID), (''end_vid'', INT8OID), (''agg_cost'', FLOAT8OID)],
        [[Num 1, Num 2, Real (Fin 3)], [Num 2, Num 3, Real (Fin 2)], [Num 1, Num 3, Real (Fin 4)]])),
      (''places'', (place_columns, [[Num 10, Num 10, Num 3, Num 4, Num 2, Num 30, Num 0, Num 4, Num 4, Num 40]])),
      (''depots'', (depot_columns, [[Num 1, Num 50, Num 0, Num 0]]))]"

lemma planner_queries:
  "\<exists>d rows. query (spi_of planner_db) ''orders'' d rows" "\<exists>rows. query (spi_of planner_db) ''vehicles'' vehicle_columns_of_table rows"
  "\<exists>d rows. query (spi_of planner_db) ''matrix'' d rows"
  by ((intro exI)?, rule spi_of_query, simp add: planner_db_def)+

lemma planner_columns: "paired_columns (spi_of db) vehicle_columns_of_table" "paired_columns (spi_of db) depot_columns"
  by (simp_all add: paired_columns_def example_cells vehicle_columns_of_table_def depot_columns_def)

text \<open>What the readers make of them has finite costs, places and speeds.\<close>

lemma planner_tables:
  "query (spi_of planner_db) ''vehicles'' vehicle_columns_of_table [[Num 1, Num 50, Num 1, Num 1]]"
  "query (spi_of planner_db) ''matrix'' [(''start_vid'', INT8OID), (''end_vid'', INT8OID), (''agg_cost'', FLOAT8OID)]
     [[Num 1, Num 2, Real (Fin 3)], [Num 2, Num 3, Real (Fin 2)], [Num 1, Num 3, Real (Fin 4)]]"
  "query (spi_of planner_db) ''places'' place_columns [[Num 10, Num 10, Num 3, Num 4, Num 2, Num 30, Num 0, Num 4, Num 4, Num 40]]"
  "query (spi_of planner_db) ''depots'' depot_columns [[Num 1, Num 50, Num 0, Num 0]]"
  by (rule spi_of_query, simp add: planner_db_def)+

lemma planner_vehicles:
  "\<exists>v. get_vehicles (spi_of planner_db) ''vehicles'' True = Inr [v] \<and> clocked_row (Fin 1) v"
proof -
  have eq: "get_vehicles (spi_of planner_db) ''vehicles'' True =
      Inr (vehicle_rows.numbered_rows True (spi_of planner_db) vehicle_columns_of_table 0 [[Num 1, Num 50, Num 1, Num 1]])"
    unfolding get_vehicles_def
    by (rule vehicle_rows.read_all[OF planner_tables(1) vehicle_columns_good])
      (simp add: vehicle_complete_def vehicle_cells_def no_nulls_def example_cells vehicle_columns_of_table_def)
  then show ?thesis
    by (simp add: vehicle_rows.numbered_rows_def vehicle_of_row_def Let_def clocked_row_def float_at_or_def
        example_cells vehicle_columns_of_table_def one_double_def zero_double_def)
qed

lemma planner_matrix:
  "\<exists>cs. get_matrixRows (spi_of planner_db) ''matrix'' = Inr cs \<and> (\<forall>c \<in> set cs. is_fin (iid_cost c))"
proof -
  have eq: "get_matrixRows (spi_of planner_db) ''matrix'' = Inr (matrix.numbered_rows (spi_of planner_db)
      [(''start_vid'', INT8OID), (''end_vid'', INT8OID), (''agg_cost'', FLOAT8OID)] 0
      [[Num 1, Num 2, Real (Fin 3)], [Num 2, Num 3, Real (Fin 2)], [Num 1, Num 3, Real (Fin 4)]])"
    unfolding get_matrixRows_def
    by (rule matrix.read_all[OF planner_tables(2)])
      (simp_all add: columns_ok_def column_error_def no_nulls_def example_cells oids.simps)
  then show ?thesis
    by (simp add: matrix.numbered_rows_plain matrix_row_def float_at_def Let_def is_fin_def example_cells oids.simps)
qed

lemma planner_places:
  "\<exists>q. get_orders (spi_of planner_db) ''places'' False = Inr [q] \<and> finite_pt (pick_pt q) \<and> finite_pt (deliver_pt q)"
proof -
  have eq: "get_orders (spi_of planner_db) ''places'' False =
      Inr (order_rows.numbered_rows False (spi_of planner_db) place_columns 0
        [[Num 10, Num 10, Num 3, Num 4, Num 2, Num 30, Num 0, Num 4, Num 4, Num 40]])"
    unfolding get_orders_def
    by (rule order_rows.read_all[OF planner_tables(3)])
      (simp_all add: columns_ok_def order_columns_def column_error_def order_cells_def no_nulls_def example_cells
        place_columns_def oids.simps)
  then show ?thesis
    by (simp add: order_rows.numbered_rows_plain order_of_table_def float_at_def Let_def finite_pt_def
        pick_pt_def deliver_pt_def example_cells place_columns_def oids.simps)
qed

lemma planner_depots:
  "\<exists>v. get_vehicles (spi_of planner_db) ''depots'' False = Inr [v] \<and> clocked_row (Fin 1) v \<and>
    finite_pt (start_pt v) \<and> finite_pt (end_pt v)"
proof -
  have eq: "get_vehicles (spi_of planner_db) ''depots'' False =
      Inr (vehicle_rows.numbered_rows False (spi_of planner_db) depot_columns 0 [[Num 1, Num 50, Num 0, Num 0]])"
    unfolding get_vehicles_def
    by (rule vehicle_rows.read_all[OF planner_tables(4)])
      (simp_all add: columns_ok_def vehicle_columns_def column_error_def vehicle_complete_def vehicle_cells_def
        no_nulls_def example_cells depot_columns_def oids.simps)
  then show ?thesis
    by (simp add: vehicle_rows.numbered_rows_def vehicle_of_row_def Let_def clocked_row_def float_at_or_def float_at_def
        finite_pt_def start_pt_def end_pt_def example_cells depot_columns_def oids.simps one_double_def zero_double_def)
qed

end
