(* ===== verification/Graphs.thy ===== *)
theory Graphs
  imports Trsp
begin

text \<open>
  The graph that the searches run on: \<open>include/cpp_common/base_graph.hpp\<close>, with the vertices and
  edges of \<open>basic_vertex.hpp\<close> and \<open>basic_edge.hpp\<close>.  The adjacency list of the Boost graph library is
  the argument \<open>B\<close> of every definition: a record of its functions over graphs \<open>'g\<close> and edge
  descriptors \<open>'e\<close>.  A vertex descriptor of a \<open>vecS\<close> list is a number.
\<close>

section \<open>Vertices and edges\<close>

record Basic_vertex =
  bv_id :: int

record Basic_edge =
  be_source :: int
  be_target :: int
  be_id :: int
  be_cost :: double

definition cp_members :: "Basic_edge \<Rightarrow> Basic_edge \<Rightarrow> Basic_edge" where
  "cp_members other e = e\<lparr>be_id := be_id other, be_cost := be_cost other\<rparr>"

text \<open>The constructor from an edge row.\<close>

definition Basic_vertex_of :: "Edge_t \<Rightarrow> bool \<Rightarrow> Basic_vertex" where
  "Basic_vertex_of other is_source = \<lparr>bv_id = (if is_source then source other else target other)\<rparr>"

definition distinct_vertices :: "Basic_vertex list \<Rightarrow> Basic_vertex list" where
  "distinct_vertices vertices =
     unique_by (\<lambda>lhs rhs. bv_id lhs = bv_id rhs) (sort_by (\<lambda>lhs rhs. bv_id lhs < bv_id rhs) vertices)"

text \<open>A difference of two \<open>size_t\<close>.\<close>

definition check_vertices :: "Basic_vertex list \<Rightarrow> nat" where
  "check_vertices vertices =
     nat ((int (length (distinct_vertices vertices)) - int (length vertices)) mod 2 ^ 64)"

definition ends_of_edges :: "Edge_t list \<Rightarrow> Basic_vertex list" where
  "ends_of_edges data_edges = concat (map (\<lambda>e. [\<lparr>bv_id = source e\<rparr>, \<lparr>bv_id = target e\<rparr>]) data_edges)"

definition extract_vertices_into :: "Basic_vertex list \<Rightarrow> Edge_t list \<Rightarrow> Basic_vertex list" where
  "extract_vertices_into vertices data_edges =
     (if data_edges = [] then vertices else distinct_vertices (vertices @ ends_of_edges data_edges))"

definition extract_vertices :: "Edge_t list \<Rightarrow> Basic_vertex list" where
  "extract_vertices data_edges = (if data_edges = [] then [] else distinct_vertices (ends_of_edges data_edges))"

section \<open>The adjacency list\<close>

text \<open>
  \<open>b_dijkstra\<close> is \<open>dijkstra_shortest_paths\<close> as its visitor sees it: the vertices in the order in which
  they are examined, each with the predecessors and the distances at that moment, and the final
  predecessors and distances.
\<close>

type_synonym search_state = "nat list \<times> double list"

record ('g, 'e) bgl =
  b_make :: "nat \<Rightarrow> 'g"
  b_num_vertices :: "'g \<Rightarrow> nat"
  b_num_edges :: "'g \<Rightarrow> nat"
  b_add_vertex :: "'g \<Rightarrow> nat \<times> 'g"
  b_vertex :: "'g \<Rightarrow> nat \<Rightarrow> Basic_vertex"
  b_set_vertex :: "nat \<Rightarrow> Basic_vertex \<Rightarrow> 'g \<Rightarrow> 'g"
  b_add_edge :: "nat \<Rightarrow> nat \<Rightarrow> 'g \<Rightarrow> 'e \<times> 'g"
  b_find_edge :: "nat \<Rightarrow> nat \<Rightarrow> 'g \<Rightarrow> 'e option"
  b_edge :: "'g \<Rightarrow> 'e \<Rightarrow> Basic_edge"
  b_set_edge :: "'e \<Rightarrow> Basic_edge \<Rightarrow> 'g \<Rightarrow> 'g"
  b_source :: "'g \<Rightarrow> 'e \<Rightarrow> nat"
  b_target :: "'g \<Rightarrow> 'e \<Rightarrow> nat"
  b_out_edges :: "'g \<Rightarrow> nat \<Rightarrow> 'e list"
  b_in_edges :: "'g \<Rightarrow> nat \<Rightarrow> 'e list"
  b_remove_edges :: "nat \<Rightarrow> nat \<Rightarrow> 'g \<Rightarrow> 'g"
  b_remove_edge :: "'e \<Rightarrow> 'g \<Rightarrow> 'g"
  b_clear_vertex :: "nat \<Rightarrow> 'g \<Rightarrow> 'g"
  b_dijkstra :: "'g \<Rightarrow> nat \<Rightarrow> (nat \<times> search_state) list \<times> search_state"
  uninitialised :: "int \<Rightarrow> int \<Rightarrow> double"

section \<open>The graph\<close>

text \<open>\<open>mapIndex\<close> is only written.\<close>

record 'g Pgr_base_graph =
  graph :: 'g
  vertices_map :: "(int, nat) std_map"
  directed_graph :: bool
  removed_edges :: "Basic_edge list"

definition Pgr_base_graph_empty :: "('g, 'e) bgl \<Rightarrow> bool \<Rightarrow> 'g Pgr_base_graph" where
  "Pgr_base_graph_empty B is_directed =
     \<lparr>graph = b_make B 0, vertices_map = [], directed_graph = is_directed, removed_edges = []\<rparr>"

definition Pgr_base_graph_of :: "('g, 'e) bgl \<Rightarrow> bool \<Rightarrow> Basic_vertex list \<Rightarrow> 'g Pgr_base_graph" where
  "Pgr_base_graph_of B is_directed vertices =
     foldl (\<lambda>g (vi, vertex). g\<lparr>vertices_map := map_put (bv_id vertex) vi (vertices_map g),
                               graph := b_set_vertex B vi vertex (graph g)\<rparr>)
       \<lparr>graph = b_make B (length vertices), vertices_map = [], directed_graph = is_directed, removed_edges = []\<rparr>
       (zip [0..<length vertices] vertices)"

definition has_vertex :: "'g Pgr_base_graph \<Rightarrow> int \<Rightarrow> bool" where
  "has_vertex g vid \<longleftrightarrow> map_of (vertices_map g) vid \<noteq> None"

text \<open>The text of the exception contains the signature of the function as the compiler prints it.\<close>

definition get_V :: "'g Pgr_base_graph \<Rightarrow> int \<Rightarrow> nat run" where
  "get_V g vid =
     (case map_of (vertices_map g) vid of
        None \<Rightarrow> Inl (Thrown ''Call to get_V without checking with has_vertex'') | Some v \<Rightarrow> Inr v)"

definition get_V_vertex :: "('g, 'e) bgl \<Rightarrow> Basic_vertex \<Rightarrow> 'g Pgr_base_graph \<Rightarrow> nat \<times> 'g Pgr_base_graph" where
  "get_V_vertex B vertex g =
     (case map_of (vertices_map g) (bv_id vertex) of
        Some v \<Rightarrow> (v, g)
      | None \<Rightarrow>
          let (v, h) = b_add_vertex B (graph g) in
          (v, g\<lparr>graph := b_set_vertex B v vertex h, vertices_map := map_put (bv_id vertex) v (vertices_map g)\<rparr>))"

definition num_vertices :: "('g, 'e) bgl \<Rightarrow> 'g Pgr_base_graph \<Rightarrow> nat" where
  "num_vertices B g = b_num_vertices B (graph g)"

definition num_edges :: "('g, 'e) bgl \<Rightarrow> 'g Pgr_base_graph \<Rightarrow> nat" where
  "num_edges B g = b_num_edges B (graph g)"

definition vertex_id_of :: "('g, 'e) bgl \<Rightarrow> 'g Pgr_base_graph \<Rightarrow> nat \<Rightarrow> int" where
  "vertex_id_of B g v = bv_id (b_vertex B (graph g) v)"

definition out_degree_of :: "('g, 'e) bgl \<Rightarrow> 'g Pgr_base_graph \<Rightarrow> nat \<Rightarrow> nat" where
  "out_degree_of B g v = length (b_out_edges B (graph g) v)"

definition in_degree_of :: "('g, 'e) bgl \<Rightarrow> 'g Pgr_base_graph \<Rightarrow> nat \<Rightarrow> nat" where
  "in_degree_of B g v =
     (if directed_graph g then length (b_in_edges B (graph g) v) else length (b_out_edges B (graph g) v))"

definition out_degree :: "('g, 'e) bgl \<Rightarrow> 'g Pgr_base_graph \<Rightarrow> int \<Rightarrow> nat run" where
  "out_degree B g vertex_id =
     (if \<not> has_vertex g vertex_id then Inr 0
      else bindE (get_V g vertex_id) (\<lambda>v. Inr (out_degree_of B g v)))"

definition in_degree :: "('g, 'e) bgl \<Rightarrow> 'g Pgr_base_graph \<Rightarrow> int \<Rightarrow> nat run" where
  "in_degree B g vertex_id =
     (if \<not> has_vertex g vertex_id then Inr 0
      else bindE (get_V g vertex_id) (\<lambda>v. Inr (if directed_graph g then in_degree_of B g v else out_degree_of B g v)))"

definition adjacent_vertex :: "('g, 'e) bgl \<Rightarrow> 'g Pgr_base_graph \<Rightarrow> nat \<Rightarrow> 'e \<Rightarrow> nat run" where
  "adjacent_vertex B g v e =
     bindE (pgassert (v = b_source B (graph g) e \<or> v = b_target B (graph g) e)) (\<lambda>_.
     Inr (if v = b_source B (graph g) e then b_target B (graph g) e else b_source B (graph g) e))"

section \<open>Edges between two vertices\<close>

definition joins :: "('g, 'e) bgl \<Rightarrow> 'g Pgr_base_graph \<Rightarrow> nat \<Rightarrow> nat \<Rightarrow> 'e \<Rightarrow> bool" where
  "joins B g u v e \<longleftrightarrow> u = b_source B (graph g) e \<and> v = b_target B (graph g) e"

text \<open>The loop over the outgoing edges; the second result is the reference argument \<open>weight\<close>.\<close>

fun edge_id_loop ::
    "('g, 'e) bgl \<Rightarrow> 'g Pgr_base_graph \<Rightarrow> nat \<Rightarrow> nat \<Rightarrow> double \<Rightarrow> 'e list \<Rightarrow> double \<Rightarrow> int \<Rightarrow> int \<times> double" where
  "edge_id_loop B g u v weight [] minCost minEdge = (minEdge, if minEdge = -1 then 0 else minCost)"
| "edge_id_loop B g u v weight (e # es) minCost minEdge =
     (let d = b_edge B (graph g) e in
      if joins B g u v e \<and> deq weight (be_cost d) then (be_id d, weight)
      else if joins B g u v e \<and> be_cost d < minCost then edge_id_loop B g u v weight es (be_cost d) (be_id d)
      else edge_id_loop B g u v weight es minCost minEdge)"

definition get_edge_id :: "('g, 'e) bgl \<Rightarrow> 'g Pgr_base_graph \<Rightarrow> nat \<Rightarrow> nat \<Rightarrow> double \<Rightarrow> int \<times> double" where
  "get_edge_id B g u v weight = edge_id_loop B g u v weight (b_out_edges B (graph g) u) dbl_max (-1)"

text \<open>\<open>get_edge\<close> starts with the first outgoing edge, whatever it joins, and has none without one.\<close>

fun edge_loop ::
    "('g, 'e) bgl \<Rightarrow> 'g Pgr_base_graph \<Rightarrow> nat \<Rightarrow> nat \<Rightarrow> double \<Rightarrow> 'e list \<Rightarrow> double \<Rightarrow> 'e \<Rightarrow> 'e" where
  "edge_loop B g u v distance [] minCost minEdge = minEdge"
| "edge_loop B g u v distance (e # es) minCost minEdge =
     (let d = b_edge B (graph g) e in
      if joins B g u v e \<and> deq distance (be_cost d) then e
      else if joins B g u v e \<and> be_cost d < minCost then edge_loop B g u v distance es (be_cost d) e
      else edge_loop B g u v distance es minCost minEdge)"

definition get_edge :: "('g, 'e) bgl \<Rightarrow> 'g Pgr_base_graph \<Rightarrow> nat \<Rightarrow> nat \<Rightarrow> double \<Rightarrow> 'e run" where
  "get_edge B g u v distance =
     (case b_out_edges B (graph g) u of
        [] \<Rightarrow> Inl UndefinedBehaviour
      | e # es \<Rightarrow> Inr (edge_loop B g u v distance (e # es) dbl_max e))"

section \<open>Taking edges away and bringing them back\<close>

definition get_edge_info :: "('g, 'e) bgl \<Rightarrow> 'g Pgr_base_graph \<Rightarrow> 'e \<Rightarrow> Basic_edge" where
  "get_edge_info B g e =
     \<lparr>be_source = vertex_id_of B g (b_source B (graph g) e), be_target = vertex_id_of B g (b_target B (graph g) e),
      be_id = be_id (b_edge B (graph g) e), be_cost = be_cost (b_edge B (graph g) e)\<rparr>"

definition disconnect_edge :: "('g, 'e) bgl \<Rightarrow> int \<Rightarrow> int \<Rightarrow> 'g Pgr_base_graph \<Rightarrow> 'g Pgr_base_graph run" where
  "disconnect_edge B p_from p_to g =
     (if \<not> has_vertex g p_from \<or> \<not> has_vertex g p_to then Inr g
      else
        bindE (get_V g p_from) (\<lambda>u.
        bindE (get_V g p_to) (\<lambda>v.
        let g1 = (case find (\<lambda>e. b_target B (graph g) e = v) (b_out_edges B (graph g) u) of
                    None \<Rightarrow> g
                  | Some e \<Rightarrow> g\<lparr>removed_edges := removed_edges g @ [get_edge_info B g e]\<rparr>) in
        Inr (g1\<lparr>graph := b_remove_edges B u v (graph g1)\<rparr>))))"

text \<open>The rounds of the loop: each removes one edge; one more round than there are edges is enough.\<close>

fun out_going_loop :: "('g, 'e) bgl \<Rightarrow> nat \<Rightarrow> nat \<Rightarrow> int \<Rightarrow> 'g Pgr_base_graph \<Rightarrow> 'g Pgr_base_graph run" where
  "out_going_loop B 0 v eid g = Inl Diverges"
| "out_going_loop B (Suc n) v eid g =
     (case find (\<lambda>e. be_id (b_edge B (graph g) e) = eid) (b_out_edges B (graph g) v) of
        None \<Rightarrow> Inr g
      | Some e \<Rightarrow>
          out_going_loop B n v eid
            (g\<lparr>removed_edges := removed_edges g @ [get_edge_info B g e], graph := b_remove_edge B e (graph g)\<rparr>))"

definition disconnect_out_going_edge :: "('g, 'e) bgl \<Rightarrow> int \<Rightarrow> int \<Rightarrow> 'g Pgr_base_graph \<Rightarrow> 'g Pgr_base_graph run" where
  "disconnect_out_going_edge B vid eid g =
     (if \<not> has_vertex g vid then Inr g
      else bindE (get_V g vid) (\<lambda>v. out_going_loop B (length (b_out_edges B (graph g) v) + 1) v eid g))"

definition disconnect_V :: "('g, 'e) bgl \<Rightarrow> nat \<Rightarrow> 'g Pgr_base_graph \<Rightarrow> 'g Pgr_base_graph" where
  "disconnect_V B v g =
     g\<lparr>removed_edges := removed_edges g @ map (get_edge_info B g) (b_out_edges B (graph g) v) @
         (if directed_graph g then map (get_edge_info B g) (b_in_edges B (graph g) v) else []),
       graph := b_clear_vertex B v (graph g)\<rparr>"

definition disconnect_vertex :: "('g, 'e) bgl \<Rightarrow> int \<Rightarrow> 'g Pgr_base_graph \<Rightarrow> 'g Pgr_base_graph run" where
  "disconnect_vertex B vid g =
     (if \<not> has_vertex g vid then Inr g else bindE (get_V g vid) (\<lambda>v. Inr (disconnect_V B v g)))"

definition put_edge :: "('g, 'e) bgl \<Rightarrow> nat \<Rightarrow> nat \<Rightarrow> (Basic_edge \<Rightarrow> Basic_edge) \<Rightarrow> 'g Pgr_base_graph \<Rightarrow> 'g Pgr_base_graph" where
  "put_edge B u v f g =
     (let (e, h) = b_add_edge B u v (graph g) in g\<lparr>graph := b_set_edge B e (f (b_edge B h e)) h\<rparr>)"

definition restore_edge :: "('g, 'e) bgl \<Rightarrow> Basic_edge \<Rightarrow> 'g Pgr_base_graph \<Rightarrow> 'g Pgr_base_graph run" where
  "restore_edge B d g =
     bindE (get_V g (be_source d)) (\<lambda>u.
     bindE (get_V g (be_target d)) (\<lambda>v.
     Inr (if 0 \<le> be_cost d then put_edge B u v (cp_members d) g else g)))"

definition restore_graph :: "('g, 'e) bgl \<Rightarrow> 'g Pgr_base_graph \<Rightarrow> 'g Pgr_base_graph run" where
  "restore_graph B g =
     foldE (\<lambda>d g. bindE (restore_edge B d g) (\<lambda>g'. Inr (g'\<lparr>removed_edges := tl (removed_edges g')\<rparr>))) (removed_edges g) g"

section \<open>Inserting edges\<close>

definition set_cost_id :: "double \<Rightarrow> int \<Rightarrow> Basic_edge \<Rightarrow> Basic_edge" where
  "set_cost_id c i d = d\<lparr>be_cost := c, be_id := i\<rparr>"

text \<open>Both ends of an edge, as descriptors.\<close>

definition ends_in_graph ::
    "('g, 'e) bgl \<Rightarrow> Edge_t \<Rightarrow> 'g Pgr_base_graph \<Rightarrow> (nat \<times> nat \<times> 'g Pgr_base_graph) run" where
  "ends_in_graph B e g =
     (let (vm_s, g1) = get_V_vertex B (Basic_vertex_of e True) g;
          (vm_t, g2) = get_V_vertex B (Basic_vertex_of e False) g1 in
      bindE (pgassert (has_vertex g2 (source e))) (\<lambda>_.
      bindE (pgassert (has_vertex g2 (target e))) (\<lambda>_.
      Inr (vm_s, vm_t, g2))))"

text \<open>The edge against the direction is a second one unless it costs the same in an undirected graph.\<close>

definition second_way :: "'g Pgr_base_graph \<Rightarrow> Edge_t \<Rightarrow> bool" where
  "second_way g e \<longleftrightarrow> 0 \<le> reverse_cost e \<and>
     (directed_graph g \<or> \<not> directed_graph g \<and> \<not> deq (edge_cost e) (reverse_cost e))"

definition graph_add_edge :: "('g, 'e) bgl \<Rightarrow> bool \<Rightarrow> Edge_t \<Rightarrow> 'g Pgr_base_graph \<Rightarrow> 'g Pgr_base_graph run" where
  "graph_add_edge B normal e g =
     (if edge_cost e < 0 \<and> reverse_cost e < 0 then Inr g
      else
        bindE (ends_in_graph B e g) (\<lambda>(vm_s, vm_t, g1).
        let g2 = (if 0 \<le> edge_cost e then put_edge B vm_s vm_t (set_cost_id (edge_cost e) (edge_id e)) g1 else g1) in
        Inr (if second_way g2 e
             then put_edge B vm_t vm_s (set_cost_id (reverse_cost e) (if normal then edge_id e else - edge_id e)) g2
             else g2)))"

definition lower_edge ::
    "('g, 'e) bgl \<Rightarrow> nat \<Rightarrow> nat \<Rightarrow> double \<Rightarrow> int \<Rightarrow> 'g Pgr_base_graph \<Rightarrow> 'g Pgr_base_graph" where
  "lower_edge B u v c i g =
     (case b_find_edge B u v (graph g) of
        Some e1 \<Rightarrow>
          if c < be_cost (b_edge B (graph g) e1)
          then g\<lparr>graph := b_set_edge B e1 (set_cost_id c i (b_edge B (graph g) e1)) (graph g)\<rparr> else g
      | None \<Rightarrow> put_edge B u v (set_cost_id c i) g)"

definition graph_add_min_edge_no_parallel :: "('g, 'e) bgl \<Rightarrow> Edge_t \<Rightarrow> 'g Pgr_base_graph \<Rightarrow> 'g Pgr_base_graph run" where
  "graph_add_min_edge_no_parallel B e g =
     (if edge_cost e < 0 \<and> reverse_cost e < 0 then Inr g
      else
        bindE (ends_in_graph B e g) (\<lambda>(vm_s, vm_t, g1).
        let g2 = (if 0 \<le> edge_cost e then lower_edge B vm_s vm_t (edge_cost e) (edge_id e) g1 else g1) in
        Inr (if second_way g2 e then lower_edge B vm_t vm_s (reverse_cost e) (edge_id e) g2 else g2)))"

text \<open>A negative cost enters as half its absolute value.\<close>

definition half_negated :: "double \<Rightarrow> double" where
  "half_negated c = (if c < 0 then Fin (- 1 / 2) * c else c)"

definition graph_add_neg_edge :: "('g, 'e) bgl \<Rightarrow> bool \<Rightarrow> Edge_t \<Rightarrow> 'g Pgr_base_graph \<Rightarrow> 'g Pgr_base_graph run" where
  "graph_add_neg_edge B normal e g =
     bindE (ends_in_graph B e g) (\<lambda>(vm_s, vm_t, g1).
     let g2 = put_edge B vm_s vm_t (set_cost_id (half_negated (edge_cost e)) (edge_id e)) g1 in
     Inr (if directed_graph g2 \<or> \<not> directed_graph g2 \<and> reverse_cost e < edge_cost e
          then put_edge B vm_t vm_s
                 (set_cost_id (half_negated (reverse_cost e)) (if normal then edge_id e else - edge_id e)) g2
          else g2))"

definition insert_edges :: "('g, 'e) bgl \<Rightarrow> Edge_t list \<Rightarrow> bool \<Rightarrow> 'g Pgr_base_graph \<Rightarrow> 'g Pgr_base_graph run" where
  "insert_edges B es normal g = foldE (graph_add_edge B normal) es g"

definition insert_edges_neg :: "('g, 'e) bgl \<Rightarrow> Edge_t list \<Rightarrow> 'g Pgr_base_graph \<Rightarrow> 'g Pgr_base_graph run" where
  "insert_edges_neg B es g = insert_edges B es False g"

definition insert_min_edges_no_parallel :: "('g, 'e) bgl \<Rightarrow> Edge_t list \<Rightarrow> 'g Pgr_base_graph \<Rightarrow> 'g Pgr_base_graph run" where
  "insert_min_edges_no_parallel B es g = foldE (graph_add_min_edge_no_parallel B) es g"

definition insert_negative_edges :: "('g, 'e) bgl \<Rightarrow> Edge_t list \<Rightarrow> bool \<Rightarrow> 'g Pgr_base_graph \<Rightarrow> 'g Pgr_base_graph run" where
  "insert_negative_edges B es normal g = foldE (graph_add_neg_edge B normal) es g"

end
