(* ===== verification/Dijkstras.thy ===== *)
theory Dijkstras
  imports Graphs Combinations
begin

text \<open>
  The shortest paths of \<open>pgr_dijkstra\<close> and \<open>pgr_withPoints\<close>: the visitor that stops the search
  (\<open>include/visitors/dijkstra_visitors.hpp\<close>), the search for all combinations
  (\<open>include/dijkstra/dijkstra.hpp\<close>, \<open>include/dijkstra/dijkstraVia.hpp\<close>), the paths that are read off
  its result (the constructors of \<open>include/cpp_common/path.hpp\<close>) and the driver
  \<open>src/dijkstra/shortestPath_driver.cpp\<close>.
\<close>

section \<open>The visitor\<close>

text \<open>\<open>--n\<close> of a \<open>size_t\<close>.\<close>

definition decrement :: "nat \<Rightarrow> nat" where
  "decrement n = (if n = 0 then 2 ^ 64 - 1 else n - 1)"

text \<open>
  \<open>dijkstra_many_goal_visitor\<close>: the goals found and the state of the search when it throws
  \<open>found_goals\<close>, if it does.
\<close>

fun many_goals ::
    "nat list \<Rightarrow> nat \<Rightarrow> nat list \<Rightarrow> (nat \<times> search_state) list \<Rightarrow> (nat list \<times> search_state) option" where
  "many_goals goals n_goals found [] = None"
| "many_goals goals n_goals found ((u, s) # events) =
     (if u \<notin> set goals then many_goals goals n_goals found events
      else
        let found' = set_insert u found; goals' = set_erase u goals; n' = decrement n_goals in
        if goals' = [] then Some (found', s)
        else if n' = 0 then Some (found', s)
        else many_goals goals' n' found' events)"

section \<open>One search\<close>

definition dijkstra_1_to_many :: "('g, 'e) bgl \<Rightarrow> 'g \<Rightarrow> nat \<Rightarrow> nat list \<Rightarrow> nat \<Rightarrow> search_state" where
  "dijkstra_1_to_many B h departure destinations n_goals =
     (let (events, final) = b_dijkstra B h departure in
      case many_goals destinations n_goals [] events of
        None \<Rightarrow> final
      | Some (goals_found, predecessors, distances) \<Rightarrow>
          (foldl (\<lambda>ps g. if g \<notin> set goals_found then ps[g := g] else ps) predecessors destinations, distances))"

section \<open>Paths\<close>

text \<open>The rows of \<open>complete_path\<close>, from the target back; the bound is the number of vertices.\<close>

fun complete_loop ::
    "('g, 'e) bgl \<Rightarrow> 'g Pgr_base_graph \<Rightarrow> nat \<Rightarrow> nat \<Rightarrow> nat \<Rightarrow> nat list \<Rightarrow> double list \<Rightarrow> bool \<Rightarrow> Path \<Rightarrow> Path run" where
  "complete_loop B g v_source 0 t ps ds normal p = Inl Diverges"
| "complete_loop B g v_source (Suc n) t ps ds normal p =
     (if t = v_source then Inr p
      else
        bindE (nthE ps t) (\<lambda>u.
        if t = u then Inr p
        else
          bindE (nthE ds t) (\<lambda>dt.
          bindE (nthE ds u) (\<lambda>du.
          let (eid, c) = (if normal then get_edge_id B g u t (dt - du) else get_edge_id B g t u (dt - du)) in
          complete_loop B g v_source n u ps ds normal
            (push_front \<lparr>node = vertex_id_of B g u, edge = eid, cost = c, agg_cost = dt - c, pred = 0\<rparr> p)))))"

definition complete_path ::
    "('g, 'e) bgl \<Rightarrow> 'g Pgr_base_graph \<Rightarrow> nat \<Rightarrow> nat \<Rightarrow> nat list \<Rightarrow> double list \<Rightarrow> bool \<Rightarrow> Path \<Rightarrow> Path run" where
  "complete_path B g v_source v_target ps ds normal p =
     bindE (nthE ps v_target) (\<lambda>u.
     if v_target = u then Inr p
     else
       bindE (nthE ds v_target) (\<lambda>dt.
       complete_loop B g v_source (length ps + 1) v_target ps ds normal
         (push_front \<lparr>node = vertex_id_of B g v_target, edge = -1, cost = 0, agg_cost = dt, pred = 0\<rparr> p)))"

text \<open>The constructors from the result of a search leave \<open>m_tot_cost\<close> as it is in memory.\<close>

definition Path_raw :: "('g, 'e) bgl \<Rightarrow> int \<Rightarrow> int \<Rightarrow> Path" where
  "Path_raw B s_id e_id = (Path_of s_id e_id)\<lparr>m_tot_cost := uninitialised B s_id e_id\<rparr>"

definition Path_of_search ::
    "('g, 'e) bgl \<Rightarrow> 'g Pgr_base_graph \<Rightarrow> nat \<Rightarrow> nat \<Rightarrow> nat list \<Rightarrow> double list \<Rightarrow> bool \<Rightarrow> bool \<Rightarrow> Path run" where
  "Path_of_search B g v_source v_target ps ds only_cost normal =
     (let p = Path_raw B (vertex_id_of B g v_source) (vertex_id_of B g v_target) in
      if \<not> only_cost then complete_path B g v_source v_target ps ds normal p
      else
        bindE (nthE ps v_target) (\<lambda>u.
        if v_target \<noteq> u then
          bindE (nthE ds v_target) (\<lambda>dt.
          Inr (push_front \<lparr>node = vertex_id_of B g v_target, edge = -1, cost = dt, agg_cost = dt, pred = 0\<rparr> p))
        else Inr p))"

text \<open>The vertices within a distance: the constructor of the driving distances.\<close>

definition Path_within ::
    "('g, 'e) bgl \<Rightarrow> 'g Pgr_base_graph \<Rightarrow> int \<Rightarrow> double \<Rightarrow> nat list \<Rightarrow> double list \<Rightarrow> Path run" where
  "Path_within B g start distance ps ds =
     foldE (\<lambda>i p.
       bindE (nthE ds i) (\<lambda>di.
       if di \<le> distance then
         bindE (nthE ps i) (\<lambda>u.
         bindE (nthE ds u) (\<lambda>du.
         let (eid, c) = get_edge_id B g u i (di - du) in
         Inr (push_back \<lparr>node = vertex_id_of B g i, edge = eid, cost = c, agg_cost = di, pred = vertex_id_of B g u\<rparr> p)))
       else Inr p)) [0..<length ds] (Path_raw B start start)"

text \<open>The rows of a path found on another graph, with the costs of this one.\<close>

fun original_rows :: "('g, 'e) bgl \<Rightarrow> 'g Pgr_base_graph \<Rightarrow> int \<Rightarrow> Path_t list \<Rightarrow> Path \<Rightarrow> Path run" where
  "original_rows B g e_id [] p = Inr p"
| "original_rows B g e_id (r # rs) p =
     bindE (get_V g (node r)) (\<lambda>v.
     let es = filter (\<lambda>e. be_id (b_edge B (graph g) e) = edge r) (b_out_edges B (graph g) v);
         p' = (if edge r = -1 then p\<lparr>path := path p @ [\<lparr>node = e_id, edge = -1, cost = 0, agg_cost = 0, pred = 0\<rparr>]\<rparr>
               else foldl (\<lambda>q e. push_back \<lparr>node = node r, edge = edge r, cost = be_cost (b_edge B (graph g) e),
                                          agg_cost = 0, pred = 0\<rparr> q) p es) in
     original_rows B g e_id rs p')"

definition Path_of_original :: "('g, 'e) bgl \<Rightarrow> 'g Pgr_base_graph \<Rightarrow> Path \<Rightarrow> bool \<Rightarrow> Path run" where
  "Path_of_original B g original only_cost =
     (let p0 = Path_of (m_start_id original) (m_end_id original) in
      if path original = [] then Inr p0
      else
        bindE (original_rows B g (m_end_id original) (path original) p0) (\<lambda>p.
        let q = recalculate_agg_cost p in
        Inr (if only_cost
             then q\<lparr>path := [\<lparr>node = m_end_id q, edge = -1, cost = m_tot_cost q, agg_cost = m_tot_cost q, pred = 0\<rparr>]\<rparr>
             else q)))"

section \<open>All combinations\<close>

definition get_paths ::
    "('g, 'e) bgl \<Rightarrow> 'g Pgr_base_graph \<Rightarrow> search_state \<Rightarrow> nat \<Rightarrow> nat list \<Rightarrow> bool \<Rightarrow> Path list run" where
  "get_paths B g s v_source targets only_cost =
     mapE (\<lambda>t. Path_of_search B g v_source t (fst s) (snd s) only_cost True) targets"

definition destinations_of :: "'g Pgr_base_graph \<Rightarrow> int list \<Rightarrow> nat list" where
  "destinations_of g end_vertex =
     foldl (\<lambda>ds v. case map_of (vertices_map g) v of None \<Rightarrow> ds | Some w \<Rightarrow> set_insert w ds) [] end_vertex"

definition dijkstra_from ::
    "('g, 'e) bgl \<Rightarrow> 'g Pgr_base_graph \<Rightarrow> int \<Rightarrow> int list \<Rightarrow> bool \<Rightarrow> nat \<Rightarrow> Path list run" where
  "dijkstra_from B g start_vertex end_vertex only_cost n_goals =
     (if \<not> has_vertex g start_vertex then Inr []
      else
        bindE (get_V g start_vertex) (\<lambda>departure.
        let destinations = destinations_of g end_vertex in
        get_paths B g (dijkstra_1_to_many B (graph g) departure destinations n_goals) departure destinations only_cost))"

text \<open>The paths of a combination are put before those of the combinations before it.\<close>

definition dijkstra ::
    "('g, 'e) bgl \<Rightarrow> 'g Pgr_base_graph \<Rightarrow> combinations \<Rightarrow> bool \<Rightarrow> nat \<Rightarrow> Path list run" where
  "dijkstra B g combinations only_cost n_goals =
     foldE (\<lambda>(s, ts) paths. bindE (dijkstra_from B g s ts only_cost n_goals) (\<lambda>r_paths. Inr (r_paths @ paths)))
       combinations []"

definition size_max :: nat where
  "size_max = 2 ^ 64 - 1"

text \<open>\<open>paths.front()\<close> of an empty deque is undefined.\<close>

definition dijkstra_1_to_1 :: "('g, 'e) bgl \<Rightarrow> 'g Pgr_base_graph \<Rightarrow> int \<Rightarrow> int \<Rightarrow> bool \<Rightarrow> Path run" where
  "dijkstra_1_to_1 B g start_vertex end_vertex only_cost =
     bindE (dijkstra B g (add_pair start_vertex end_vertex []) only_cost size_max) (\<lambda>paths.
     case paths of [] \<Rightarrow> Inl UndefinedBehaviour | p # _ \<Rightarrow> Inr p)"

section \<open>Via vertices\<close>

text \<open>
  \<open>pgr_dijkstraVia\<close>: from each vertex to the next, where leaving on the last edge of the path before
  is forbidden unless there is no other way.  The state is the graph, the paths and the last path.
\<close>

definition without_u_turn ::
    "('g, 'e) bgl \<Rightarrow> int \<Rightarrow> Path \<Rightarrow> 'g Pgr_base_graph \<Rightarrow> 'g Pgr_base_graph run" where
  "without_u_turn B prev_vertex p g =
     (if 1 < length (path p) then
        bindE (out_degree B g prev_vertex) (\<lambda>d.
        if 1 < d then disconnect_out_going_edge B prev_vertex (edge (path p ! (length (path p) - 2))) g else Inr g)
      else Inr g)"

definition via_leg ::
    "('g, 'e) bgl \<Rightarrow> bool \<Rightarrow> bool \<Rightarrow> int \<Rightarrow> int \<Rightarrow> Path \<times> 'g Pgr_base_graph \<Rightarrow> (Path \<times> 'g Pgr_base_graph) run" where
  "via_leg B U_turn_on_edge later prev_vertex vertex = (\<lambda>(p, g).
     bindE (if \<not> U_turn_on_edge \<and> later then without_u_turn B prev_vertex p g else Inr g) (\<lambda>g1.
     bindE (dijkstra_1_to_1 B g1 prev_vertex vertex False) (\<lambda>p1.
     if \<not> U_turn_on_edge \<and> later then
       bindE (restore_graph B g1) (\<lambda>g2.
       if path p1 = [] then bindE (dijkstra_1_to_1 B g2 prev_vertex vertex False) (\<lambda>p2. Inr (p2, g2))
       else Inr (p1, g2))
     else Inr (p1, g1))))"

fun via_legs ::
    "('g, 'e) bgl \<Rightarrow> bool \<Rightarrow> bool \<Rightarrow> bool \<Rightarrow> int \<Rightarrow> int list \<Rightarrow> Path \<times> 'g Pgr_base_graph \<Rightarrow> Path list \<Rightarrow>
       (Path list \<times> 'g Pgr_base_graph) run" where
  "via_legs B U_turn_on_edge strict later prev_vertex [] (p, g) paths = Inr (paths, g)"
| "via_legs B U_turn_on_edge strict later prev_vertex (vertex # vs) (p, g) paths =
     bindE (via_leg B U_turn_on_edge later prev_vertex vertex (p, g)) (\<lambda>(p', g').
     if strict \<and> path p' = [] then Inr ([], g')
     else via_legs B U_turn_on_edge strict True vertex vs (p', g') (paths @ [p']))"

definition dijkstraVia ::
    "('g, 'e) bgl \<Rightarrow> 'g Pgr_base_graph \<Rightarrow> int list \<Rightarrow> Path list \<Rightarrow> bool \<Rightarrow> bool \<Rightarrow> (Path list \<times> 'g Pgr_base_graph) run" where
  "dijkstraVia B g via_vertices paths strict U_turn_on_edge =
     (case via_vertices of
        [] \<Rightarrow> Inr (paths, g)
      | v # vs \<Rightarrow> via_legs B U_turn_on_edge strict False v vs (Path_none, g) [])"

section \<open>The driver\<close>

datatype path_answer =
    PathRows "Path_rt list"
  | PathNotice string
  | PathError string
  | PointsError "points_error list"

text \<open>The driving side, or the text of the exception.\<close>

definition tolower :: "char \<Rightarrow> char" where
  "tolower c = (let n = of_char c :: nat in if 65 \<le> n \<and> n \<le> 90 then char_of (n + 32) else c)"

definition estimate_drivingSide :: "char \<Rightarrow> int \<Rightarrow> string + char" where
  "estimate_drivingSide driving_side which =
     (let d0 = tolower driving_side;
          d_side = (if d0 = kRight \<or> d0 = kLeft \<or> d0 = kBoth then d0 else CHR '' '') in
      if which = 0 then Inr (CHR '' '')
      else if which = 1 then
        (if d_side = CHR '' '' then Inl (''Invalid value of '' @ quoted ''driving side'') else Inr d_side)
      else Inr (if d_side = kRight \<or> d_side = kLeft then d_side else kBoth))"

definition edges_of_points_query :: "string \<Rightarrow> string \<Rightarrow> string" where
  "edges_of_points_query edges_sql points_sql =
     ''WITH '' @ '' edges AS ('' @ edges_sql @ ''), '' @ '' points AS ('' @ points_sql @ '')'' @
     '' SELECT DISTINCT edges.* FROM edges JOIN points ON (id = edge_id)''"

definition edges_no_points_query :: "string \<Rightarrow> string \<Rightarrow> string" where
  "edges_no_points_query edges_sql points_sql =
     ''WITH '' @ '' edges AS ('' @ edges_sql @ ''), '' @ '' points AS ('' @ points_sql @ '')'' @
     '' SELECT edges.*'' @ '' FROM edges'' @ '' WHERE NOT EXISTS (SELECT edge_id FROM points WHERE id = edge_id)''"

text \<open>\<open>std::sort\<close> by the end and stable sorts after it.\<close>

definition post_process :: "Path list \<Rightarrow> bool \<Rightarrow> bool \<Rightarrow> nat \<Rightarrow> bool \<Rightarrow> Path list" where
  "post_process paths only_cost normal n_goals global =
     (let ps1 = filter (\<lambda>p. path p \<noteq> []) paths;
          ps2 = (if \<not> normal then map reverse_path ps1 else ps1);
          ps3 = (if \<not> only_cost then map recalculate_agg_cost ps2 else ps2);
          ps4 = sort_by (\<lambda>e1 e2. m_start_id e1 < m_start_id e2) (sort_by (\<lambda>e1 e2. m_end_id e1 < m_end_id e2) ps3) in
      if n_goals \<noteq> size_max then
        (let ps5 = sort_by (\<lambda>e1 e2. m_tot_cost e1 < m_tot_cost e2) ps4 in
         if global \<and> n_goals < length ps5 then take n_goals ps5 else ps5)
      else ps4)"

definition shortest_paths ::
    "('g, 'e) bgl \<Rightarrow> bool \<Rightarrow> Edge_t list \<Rightarrow> combinations \<Rightarrow> bool \<Rightarrow> nat \<Rightarrow> int \<Rightarrow> Path list run" where
  "shortest_paths B directed edges combinations only_cost n which =
     bindE (insert_edges B edges True (Pgr_base_graph_empty B directed)) (\<lambda>g.
     if which = 0 \<or> which = 101 \<or> which = 1 then dijkstra B g combinations only_cost n else Inr [])"

text \<open>The number of goals: all when it is not positive.\<close>

definition goals_wanted :: "int \<Rightarrow> nat" where
  "goals_wanted n_goals = (if n_goals \<le> 0 then size_max else nat n_goals)"

text \<open>From the rows of the queries on.\<close>

definition shortest_path_of_rows ::
    "('g, 'e) bgl \<Rightarrow> Point_on_edge_t list \<Rightarrow> Edge_t list \<Rightarrow> Edge_t list \<Rightarrow> combinations \<Rightarrow> bool \<Rightarrow> bool \<Rightarrow> bool \<Rightarrow>
       int \<Rightarrow> bool \<Rightarrow> char \<Rightarrow> bool \<Rightarrow> int \<Rightarrow> path_answer run" where
  "shortest_path_of_rows B points edges_of_points edges combinations directed only_cost normal n_goals global
       driving_side details which =
     (case estimate_drivingSide driving_side which of
        Inl text \<Rightarrow> Inr (PathError text)
      | Inr d_side \<Rightarrow>
          bindE (Pg_points_graph_of points edges_of_points normal d_side directed) (\<lambda>pg_graph.
          if wp_error pg_graph \<noteq> [] then Inr (PointsError (wp_error pg_graph))
          else
            let all_edges = edges @ m_new_edges pg_graph in
            if all_edges = [] then Inr (PathNotice ''No edges found'')
            else
              let n = goals_wanted n_goals in
              bindE (shortest_paths B directed all_edges combinations only_cost n which) (\<lambda>paths.
              let ps = post_process paths only_cost normal n global;
                  qs = (if \<not> details then map eliminate_details ps else ps) in
              Inr (if count_tuples qs = 0 then PathRows [] else PathRows (collapse_paths qs)))))"

text \<open>
  The \<open>catch\<close> clauses: an \<open>ereport\<close> leaves the driver, undefined behaviour is no exception.
\<close>

fun path_caught :: "pgr_error \<Rightarrow> string option" where
  "path_caught AssertFailed = Some ''AssertFailedException''"
| "path_caught (KeyNotFound k) = Some ''map::at''"
| "path_caught (Thrown ex) = Some ex"
| "path_caught UndefinedBehaviour = None"
| "path_caught Diverges = None"
| "path_caught _ = Some ''Caught unknown exception!''"

definition path_catching :: "failure + path_answer \<Rightarrow> failure + path_answer" where
  "path_catching r =
     (case r of
        Inr ans \<Rightarrow> Inr ans
      | Inl e \<Rightarrow>
          (case (case e of Inl s \<Rightarrow> error_text s | Inr x \<Rightarrow> path_caught x) of
             Some text \<Rightarrow> Inr (PathError text) | None \<Rightarrow> Inl e))"

definition do_shortestPath ::
    "('t, 'd, 'v, 'p) spi \<Rightarrow> ('g, 'e) bgl \<Rightarrow> string \<Rightarrow> string \<Rightarrow> string \<Rightarrow> 'v ArrayType option \<Rightarrow> 'v ArrayType option \<Rightarrow>
       bool \<Rightarrow> bool \<Rightarrow> bool \<Rightarrow> int \<Rightarrow> bool \<Rightarrow> char \<Rightarrow> bool \<Rightarrow> int \<Rightarrow> failure + path_answer" where
  "do_shortestPath spi B edges_sql points_sql combinations_sql starts ends directed only_cost normal n_goals global
       driving_side details which =
     path_catching
       (bindE (running (pgassert (edges_sql \<noteq> []))) (\<lambda>_.
        bindE (fetching (get_combinations_matrix spi combinations_sql starts ends normal False)) (\<lambda>(combinations, _).
        if combinations = [] \<and> combinations_sql \<noteq> [] then Inr (PathNotice ''No (source, target) pairs found'')
        else if points_sql = [] then
          bindE (fetching (get_edges spi edges_sql normal False)) (\<lambda>edges.
          running (shortest_path_of_rows B [] [] edges combinations directed only_cost normal n_goals global
            driving_side details which))
        else
          bindE (fetching (get_points spi points_sql)) (\<lambda>points.
          bindE (fetching (get_edges spi (edges_of_points_query edges_sql points_sql) normal False)) (\<lambda>edges_of_points.
          bindE (fetching (get_edges spi (edges_no_points_query edges_sql points_sql) normal False)) (\<lambda>edges.
          if edges = [] \<and> edges_of_points = [] then Inr (PathNotice ''No edges found'')
          else
            running (shortest_path_of_rows B points edges_of_points edges combinations directed only_cost normal n_goals
              global driving_side details which)))))))"

end
