(* ===== verification/Graph_laws.thy ===== *)
theory Graph_laws
  imports Graphs Trsp_graphs "HOL-Library.Multiset"
begin

text \<open>
  What the graph relies on: the documented behaviour of an adjacency list of the Boost graph library
  (\<open>adjacency_list B d I\<close>, for directed graphs when \<open>d\<close> holds, for graphs that satisfy the invariant \<open>I\<close> of
  the container), stated over the multiset of arcs; and what the operations of the graph do to the
  arcs between vertex ids.
\<close>

section \<open>Arcs\<close>

type_synonym 'v garc = "'v \<times> 'v \<times> int \<times> double"

definition arc_of :: "('g, 'e) bgl \<Rightarrow> 'g \<Rightarrow> 'e \<Rightarrow> nat garc" where
  "arc_of B h e = (b_source B h e, b_target B h e, be_id (b_edge B h e), be_cost (b_edge B h e))"

definition garcs :: "('g, 'e) bgl \<Rightarrow> 'g \<Rightarrow> nat garc multiset" where
  "garcs B h = mset (concat (map (\<lambda>u. map (arc_of B h) (b_out_edges B h u)) [0..<b_num_vertices B h]))"

text \<open>An edge that is put into a graph: one arc, or one in each direction.\<close>

definition ways :: "bool \<Rightarrow> 'v \<Rightarrow> 'v \<Rightarrow> int \<Rightarrow> double \<Rightarrow> 'v garc multiset" where
  "ways d u v i c = (if d then {#(u, v, i, c)#} else {#(u, v, i, c), (v, u, i, c)#})"

fun swap_arc :: "'v garc \<Rightarrow> 'v garc" where
  "swap_arc (u, v, i, c) = (v, u, i, c)"

definition from_to :: "'v \<Rightarrow> 'v \<Rightarrow> 'v garc \<Rightarrow> bool" where
  "from_to u v a \<longleftrightarrow> fst a = u \<and> fst (snd a) = v"

definition touches :: "'v \<Rightarrow> 'v garc \<Rightarrow> bool" where
  "touches v a \<longleftrightarrow> fst a = v \<or> fst (snd a) = v"

text \<open>Two graphs with the same vertices.\<close>

definition same_vertices :: "('g, 'e) bgl \<Rightarrow> 'g \<Rightarrow> 'g \<Rightarrow> bool" where
  "same_vertices B h h' \<longleftrightarrow> b_num_vertices B h' = b_num_vertices B h \<and>
     (\<forall>v < b_num_vertices B h. b_vertex B h' v = b_vertex B h v)"

definition edge_ways :: "('g, 'e) bgl \<Rightarrow> bool \<Rightarrow> 'g \<Rightarrow> 'e \<Rightarrow> nat garc multiset" where
  "edge_ways B d h e = ways d (b_source B h e) (b_target B h e) (be_id (b_edge B h e)) (be_cost (b_edge B h e))"

definition make_law :: "('g, 'e) bgl \<Rightarrow> bool \<Rightarrow> ('g \<Rightarrow> bool) \<Rightarrow> bool" where
  "make_law B d I \<longleftrightarrow>
     (\<forall>n. I (b_make B n) \<and> b_num_vertices B (b_make B n) = n \<and> garcs B (b_make B n) = {#})"

definition add_vertex_ok :: "('g, 'e) bgl \<Rightarrow> bool \<Rightarrow> ('g \<Rightarrow> bool) \<Rightarrow> bool" where
  "add_vertex_ok B d I \<longleftrightarrow>
     (\<forall>h v h'. I h \<longrightarrow> b_add_vertex B h = (v, h') \<longrightarrow>
        I h' \<and> v = b_num_vertices B h \<and> b_num_vertices B h' = Suc v \<and> garcs B h' = garcs B h \<and>
        (\<forall>w < v. b_vertex B h' w = b_vertex B h w))"

definition set_vertex_ok :: "('g, 'e) bgl \<Rightarrow> bool \<Rightarrow> ('g \<Rightarrow> bool) \<Rightarrow> bool" where
  "set_vertex_ok B d I \<longleftrightarrow>
     (\<forall>h v x. I h \<longrightarrow> v < b_num_vertices B h \<longrightarrow>
        I (b_set_vertex B v x h) \<and> b_num_vertices B (b_set_vertex B v x h) = b_num_vertices B h \<and>
        garcs B (b_set_vertex B v x h) = garcs B h \<and>
        (\<forall>w. b_vertex B (b_set_vertex B v x h) w = (if w = v then x else b_vertex B h w)))"

definition out_edges_ok :: "('g, 'e) bgl \<Rightarrow> bool \<Rightarrow> ('g \<Rightarrow> bool) \<Rightarrow> bool" where
  "out_edges_ok B d I \<longleftrightarrow>
     (\<forall>h u e. I h \<longrightarrow> u < b_num_vertices B h \<longrightarrow> e \<in> set (b_out_edges B h u) \<longrightarrow>
        b_source B h e = u \<and> b_target B h e < b_num_vertices B h \<and> edge_ways B d h e \<subseteq># garcs B h)"

definition in_edges_ok :: "('g, 'e) bgl \<Rightarrow> bool \<Rightarrow> ('g \<Rightarrow> bool) \<Rightarrow> bool" where
  "in_edges_ok B d I \<longleftrightarrow>
     (\<forall>h v. I h \<longrightarrow> d \<longrightarrow> v < b_num_vertices B h \<longrightarrow>
        mset (map (arc_of B h) (b_in_edges B h v)) = filter_mset (\<lambda>a. fst (snd a) = v) (garcs B h))"

definition symmetric_ok :: "('g, 'e) bgl \<Rightarrow> bool \<Rightarrow> ('g \<Rightarrow> bool) \<Rightarrow> bool" where
  "symmetric_ok B d I \<longleftrightarrow>
     (\<forall>h. I h \<longrightarrow> \<not> d \<longrightarrow> image_mset swap_arc (garcs B h) = garcs B h)"

definition find_edge_ok :: "('g, 'e) bgl \<Rightarrow> bool \<Rightarrow> ('g \<Rightarrow> bool) \<Rightarrow> bool" where
  "find_edge_ok B d I \<longleftrightarrow>
     (\<forall>h u v. I h \<longrightarrow> u < b_num_vertices B h \<longrightarrow>
        (case b_find_edge B u v h of
           Some e \<Rightarrow> e \<in> set (b_out_edges B h u) \<and> b_target B h e = v
         | None \<Rightarrow> \<forall>e \<in> set (b_out_edges B h u). b_target B h e \<noteq> v))"

definition add_edge_ok :: "('g, 'e) bgl \<Rightarrow> bool \<Rightarrow> ('g \<Rightarrow> bool) \<Rightarrow> bool" where
  "add_edge_ok B d I \<longleftrightarrow>
     (\<forall>h u v e h' x. I h \<longrightarrow> u < b_num_vertices B h \<longrightarrow> v < b_num_vertices B h \<longrightarrow> b_add_edge B u v h = (e, h') \<longrightarrow>
        I (b_set_edge B e x h') \<and> same_vertices B h (b_set_edge B e x h') \<and>
        garcs B (b_set_edge B e x h') = garcs B h + ways d u v (be_id x) (be_cost x))"

definition set_edge_ok :: "('g, 'e) bgl \<Rightarrow> bool \<Rightarrow> ('g \<Rightarrow> bool) \<Rightarrow> bool" where
  "set_edge_ok B d I \<longleftrightarrow>
     (\<forall>h u e x. I h \<longrightarrow> u < b_num_vertices B h \<longrightarrow> e \<in> set (b_out_edges B h u) \<longrightarrow>
        I (b_set_edge B e x h) \<and> same_vertices B h (b_set_edge B e x h) \<and>
        garcs B (b_set_edge B e x h) = garcs B h - edge_ways B d h e + ways d u (b_target B h e) (be_id x) (be_cost x))"

definition remove_edges_ok :: "('g, 'e) bgl \<Rightarrow> bool \<Rightarrow> ('g \<Rightarrow> bool) \<Rightarrow> bool" where
  "remove_edges_ok B d I \<longleftrightarrow>
     (\<forall>h u v. I h \<longrightarrow> u < b_num_vertices B h \<longrightarrow> v < b_num_vertices B h \<longrightarrow>
        I (b_remove_edges B u v h) \<and> same_vertices B h (b_remove_edges B u v h) \<and>
        garcs B (b_remove_edges B u v h) =
          filter_mset (\<lambda>a. \<not> (from_to u v a \<or> \<not> d \<and> from_to v u a)) (garcs B h))"

definition remove_edge_ok :: "('g, 'e) bgl \<Rightarrow> bool \<Rightarrow> ('g \<Rightarrow> bool) \<Rightarrow> bool" where
  "remove_edge_ok B d I \<longleftrightarrow>
     (\<forall>h u e. I h \<longrightarrow> u < b_num_vertices B h \<longrightarrow> e \<in> set (b_out_edges B h u) \<longrightarrow>
        I (b_remove_edge B e h) \<and> same_vertices B h (b_remove_edge B e h) \<and>
        garcs B (b_remove_edge B e h) = garcs B h - edge_ways B d h e)"

definition clear_vertex_ok :: "('g, 'e) bgl \<Rightarrow> bool \<Rightarrow> ('g \<Rightarrow> bool) \<Rightarrow> bool" where
  "clear_vertex_ok B d I \<longleftrightarrow>
     (\<forall>h v. I h \<longrightarrow> v < b_num_vertices B h \<longrightarrow>
        I (b_clear_vertex B v h) \<and> same_vertices B h (b_clear_vertex B v h) \<and>
        garcs B (b_clear_vertex B v h) = filter_mset (\<lambda>a. \<not> touches v a) (garcs B h))"

definition adjacency_list :: "('g, 'e) bgl \<Rightarrow> bool \<Rightarrow> ('g \<Rightarrow> bool) \<Rightarrow> bool" where
  "adjacency_list B d I \<longleftrightarrow>
     make_law B d I \<and>
     add_vertex_ok B d I \<and>
     set_vertex_ok B d I \<and>
     out_edges_ok B d I \<and>
     in_edges_ok B d I \<and>
     symmetric_ok B d I \<and>
     find_edge_ok B d I \<and>
     add_edge_ok B d I \<and>
     set_edge_ok B d I \<and>
     remove_edges_ok B d I \<and>
     remove_edge_ok B d I \<and>
     clear_vertex_ok B d I"

section \<open>The invariant of the graph\<close>

definition base_graph_ok :: "('g, 'e) bgl \<Rightarrow> bool \<Rightarrow> ('g \<Rightarrow> bool) \<Rightarrow> 'g Pgr_base_graph \<Rightarrow> bool" where
  "base_graph_ok B d I g \<longleftrightarrow> I (graph g) \<and> directed_graph g = d \<and> keys_ok (vertices_map g) \<and>
     (\<forall>k v. map_of (vertices_map g) k = Some v \<longleftrightarrow> v < num_vertices B g \<and> vertex_id_of B g v = k)"

definition id_arc :: "('g, 'e) bgl \<Rightarrow> 'g Pgr_base_graph \<Rightarrow> nat garc \<Rightarrow> int garc" where
  "id_arc B g a = (vertex_id_of B g (fst a), vertex_id_of B g (fst (snd a)), snd (snd a))"

definition id_arcs :: "('g, 'e) bgl \<Rightarrow> 'g Pgr_base_graph \<Rightarrow> int garc multiset" where
  "id_arcs B g = image_mset (id_arc B g) (garcs B (graph g))"

definition vertex_ids :: "'g Pgr_base_graph \<Rightarrow> int set" where
  "vertex_ids g = dom (map_of (vertices_map g))"

lemma has_vertex_ids: "has_vertex g v \<longleftrightarrow> v \<in> vertex_ids g"
  by (auto simp: has_vertex_def vertex_ids_def)

lemma base_graph_okD:
  assumes "base_graph_ok B d I g"
  shows "I (graph g)" "directed_graph g = d" "keys_ok (vertices_map g)"
    "map_of (vertices_map g) k = Some v \<longleftrightarrow> v < num_vertices B g \<and> vertex_id_of B g v = k"
  using assms unfolding base_graph_ok_def by blast+

lemma get_V_ok: "base_graph_ok B d I g \<Longrightarrow> get_V g k = Inr v \<longleftrightarrow> v < num_vertices B g \<and> vertex_id_of B g v = k"
  by (simp add: get_V_def base_graph_okD(4)[symmetric] split: option.split)

lemma id_in_graph: "base_graph_ok B d I g \<Longrightarrow> v < num_vertices B g \<Longrightarrow> vertex_id_of B g v \<in> vertex_ids g"
  unfolding vertex_ids_def by (rule domI) (simp add: base_graph_okD(4))

lemma id_inj:
  assumes "base_graph_ok B d I g" "u < num_vertices B g" "v < num_vertices B g"
  shows "vertex_id_of B g u = vertex_id_of B g v \<longleftrightarrow> u = v"
proof
  assume eq: "vertex_id_of B g u = vertex_id_of B g v"
  have "map_of (vertices_map g) (vertex_id_of B g u) = Some u" "map_of (vertices_map g) (vertex_id_of B g v) = Some v"
    unfolding base_graph_okD(4)[OF assms(1)] by (intro conjI refl assms(2,3))+
  then show "u = v" unfolding eq by (rule option.inject[THEN iffD1, OF trans[OF sym]])
qed (rule arg_cong)

lemma descriptor_of_id:
  assumes "base_graph_ok B d I g" "k \<in> vertex_ids g"
  obtains v where "map_of (vertices_map g) k = Some v" "v < num_vertices B g" "vertex_id_of B g v = k"
proof -
  obtain v where v: "map_of (vertices_map g) k = Some v" using assms(2) by (auto simp: vertex_ids_def)
  then show ?thesis using that[of v] base_graph_okD(4)[OF assms(1), of k v] by simp
qed

text \<open>Arcs join vertices of the graph.\<close>

lemma in_garcs_iff:
  "a \<in># garcs B h \<longleftrightarrow> (\<exists>u < b_num_vertices B h. \<exists>e \<in> set (b_out_edges B h u). a = arc_of B h e)"
  by (auto simp: garcs_def)

lemma garc_ends:
  assumes "adjacency_list B d I" "I h" "a \<in># garcs B h"
  shows "fst a < b_num_vertices B h" "fst (snd a) < b_num_vertices B h"
  using assms unfolding in_garcs_iff adjacency_list_def out_edges_ok_def arc_of_def by fastforce+

lemma out_edges_arcs:
  assumes "adjacency_list B d I" "I h" "u < b_num_vertices B h"
  shows "mset (map (arc_of B h) (b_out_edges B h u)) = filter_mset (\<lambda>a. fst a = u) (garcs B h)"
proof -
  have src: "fst (arc_of B h e) = w" if "w < b_num_vertices B h" "e \<in> set (b_out_edges B h w)" for w e
    using assms(1,2) that unfolding adjacency_list_def out_edges_ok_def arc_of_def by auto
  have one: "filter_mset (\<lambda>a. fst a = u) (mset (map (arc_of B h) (b_out_edges B h w))) =
      (if w = u then mset (map (arc_of B h) (b_out_edges B h w)) else {#})" if "w < b_num_vertices B h" for w
  proof (cases "w = u")
    case True
    have "filter (\<lambda>a. fst a = u) (map (arc_of B h) (b_out_edges B h w)) = map (arc_of B h) (b_out_edges B h w)"
      using src[OF that] True by (auto simp: filter_map comp_def intro!: filter_True)
    then show ?thesis using True by (simp del: mset_map flip: mset_filter)
  next
    case False
    have "filter (\<lambda>a. fst a = u) (map (arc_of B h) (b_out_edges B h w)) = []"
      using src[OF that] False by (auto simp: filter_empty_conv)
    then show ?thesis using False by (simp del: mset_map flip: mset_filter)
  qed
  have "filter_mset (\<lambda>a. fst a = u) (mset (concat (map (\<lambda>w. map (arc_of B h) (b_out_edges B h w)) ws))) =
      (if u \<in> set ws then mset (map (arc_of B h) (b_out_edges B h u)) else {#})"
    if "distinct ws" "set ws \<subseteq> {..<b_num_vertices B h}" for ws
    using that
  proof (induction ws)
    case (Cons w ws)
    then show ?case using one[of w] by (auto simp del: mset_map)
  qed simp
  from this[of "[0..<b_num_vertices B h]"] show ?thesis using assms(3) by (simp add: garcs_def lessThan_atLeast0)
qed

section \<open>The laws one by one\<close>

lemma add_vertex_law:
  assumes "adjacency_list B d I" "I h" "b_add_vertex B h = (v, h')"
  shows "I h'" "v = b_num_vertices B h" "b_num_vertices B h' = Suc v" "garcs B h' = garcs B h"
    "\<forall>w < v. b_vertex B h' w = b_vertex B h w"
  using assms unfolding adjacency_list_def add_vertex_ok_def by blast+

lemma set_vertex_law:
  assumes "adjacency_list B d I" "I h" "v < b_num_vertices B h"
  shows "I (b_set_vertex B v x h)" "b_num_vertices B (b_set_vertex B v x h) = b_num_vertices B h"
    "garcs B (b_set_vertex B v x h) = garcs B h"
    "b_vertex B (b_set_vertex B v x h) w = (if w = v then x else b_vertex B h w)"
  using assms unfolding adjacency_list_def set_vertex_ok_def by blast+

lemma add_edge_law:
  assumes "adjacency_list B d I" "I h" "u < b_num_vertices B h" "v < b_num_vertices B h" "b_add_edge B u v h = (e, h')"
  shows "I (b_set_edge B e x h')" "same_vertices B h (b_set_edge B e x h')"
    "garcs B (b_set_edge B e x h') = garcs B h + ways d u v (be_id x) (be_cost x)"
  using assms unfolding adjacency_list_def add_edge_ok_def by blast+

lemma set_edge_law:
  assumes "adjacency_list B d I" "I h" "u < b_num_vertices B h" "e \<in> set (b_out_edges B h u)"
  shows "I (b_set_edge B e x h)" "same_vertices B h (b_set_edge B e x h)"
    "garcs B (b_set_edge B e x h) = garcs B h - edge_ways B d h e + ways d u (b_target B h e) (be_id x) (be_cost x)"
  using assms unfolding adjacency_list_def set_edge_ok_def by blast+

lemma remove_edges_law:
  assumes "adjacency_list B d I" "I h" "u < b_num_vertices B h" "v < b_num_vertices B h"
  shows "I (b_remove_edges B u v h)" "same_vertices B h (b_remove_edges B u v h)"
    "garcs B (b_remove_edges B u v h) = filter_mset (\<lambda>a. \<not> (from_to u v a \<or> \<not> d \<and> from_to v u a)) (garcs B h)"
  using assms unfolding adjacency_list_def remove_edges_ok_def by blast+

lemma remove_edge_law:
  assumes "adjacency_list B d I" "I h" "u < b_num_vertices B h" "e \<in> set (b_out_edges B h u)"
  shows "I (b_remove_edge B e h)" "same_vertices B h (b_remove_edge B e h)"
    "garcs B (b_remove_edge B e h) = garcs B h - edge_ways B d h e"
  using assms unfolding adjacency_list_def remove_edge_ok_def by blast+

lemma clear_vertex_law:
  assumes "adjacency_list B d I" "I h" "v < b_num_vertices B h"
  shows "I (b_clear_vertex B v h)" "same_vertices B h (b_clear_vertex B v h)"
    "garcs B (b_clear_vertex B v h) = filter_mset (\<lambda>a. \<not> touches v a) (garcs B h)"
  using assms unfolding adjacency_list_def clear_vertex_ok_def by blast+

lemma out_edge_ends:
  assumes "adjacency_list B d I" "I h" "u < b_num_vertices B h" "e \<in> set (b_out_edges B h u)"
  shows "b_source B h e = u" "b_target B h e < b_num_vertices B h"
  using assms unfolding adjacency_list_def out_edges_ok_def by blast+

lemma edge_ways_law:
  assumes "adjacency_list B d I" "I h" "u < b_num_vertices B h" "e \<in> set (b_out_edges B h u)"
  shows "edge_ways B d h e \<subseteq># garcs B h"
  using assms unfolding adjacency_list_def out_edges_ok_def by blast

lemma in_edges_law:
  assumes "adjacency_list B d I" d "I h" "v < b_num_vertices B h"
  shows "mset (map (arc_of B h) (b_in_edges B h v)) = filter_mset (\<lambda>a. fst (snd a) = v) (garcs B h)"
  using assms unfolding adjacency_list_def in_edges_ok_def by blast

lemma symmetric_law: "adjacency_list B False I \<Longrightarrow> I h \<Longrightarrow> image_mset swap_arc (garcs B h) = garcs B h"
  unfolding adjacency_list_def symmetric_ok_def by blast

lemma find_edge_law:
  assumes "adjacency_list B d I" "I h" "u < b_num_vertices B h"
  shows "b_find_edge B u v h = Some e \<Longrightarrow> e \<in> set (b_out_edges B h u) \<and> b_target B h e = v"
    "b_find_edge B u v h = None \<Longrightarrow> \<forall>e \<in> set (b_out_edges B h u). b_target B h e \<noteq> v"
proof -
  have "case b_find_edge B u v h of
      Some e \<Rightarrow> e \<in> set (b_out_edges B h u) \<and> b_target B h e = v
    | None \<Rightarrow> \<forall>e \<in> set (b_out_edges B h u). b_target B h e \<noteq> v"
    using assms unfolding adjacency_list_def find_edge_ok_def by blast
  then show "b_find_edge B u v h = Some e \<Longrightarrow> e \<in> set (b_out_edges B h u) \<and> b_target B h e = v"
    "b_find_edge B u v h = None \<Longrightarrow> \<forall>e \<in> set (b_out_edges B h u). b_target B h e \<noteq> v" by simp_all
qed

section \<open>Changing arcs\<close>

text \<open>The graph changed, its vertices did not.\<close>

lemma same_vertices_graph:
  assumes L: "adjacency_list B d I" and g: "base_graph_ok B d I g"
    and h: "I h" "same_vertices B (graph g) h"
  shows "base_graph_ok B d I (g\<lparr>graph := h\<rparr>)" "id_arcs B (g\<lparr>graph := h\<rparr>) = image_mset (id_arc B g) (garcs B h)"
    "v < num_vertices B g \<Longrightarrow> vertex_id_of B (g\<lparr>graph := h\<rparr>) v = vertex_id_of B g v"
proof -
  have n: "b_num_vertices B h = num_vertices B g" and
    ids: "vertex_id_of B (g\<lparr>graph := h\<rparr>) v = vertex_id_of B g v" if "v < num_vertices B g" for v
    using h(2) that by (simp_all add: same_vertices_def num_vertices_def vertex_id_of_def)
  have n': "num_vertices B (g\<lparr>graph := h\<rparr>) = num_vertices B g" using h(2) by (simp add: same_vertices_def num_vertices_def)
  show "base_graph_ok B d I (g\<lparr>graph := h\<rparr>)"
    using g h(1) ids by (auto simp: base_graph_ok_def n')
  have "id_arc B (g\<lparr>graph := h\<rparr>) a = id_arc B g a" if "a \<in># garcs B h" for a
    using garc_ends[OF L h(1) that] ids by (simp add: id_arc_def h(2)[unfolded same_vertices_def] num_vertices_def)
  then show "id_arcs B (g\<lparr>graph := h\<rparr>) = image_mset (id_arc B g) (garcs B h)"
    by (auto simp: id_arcs_def intro: image_mset_cong)
  show "v < num_vertices B g \<Longrightarrow> vertex_id_of B (g\<lparr>graph := h\<rparr>) v = vertex_id_of B g v" by (rule ids)
qed

lemma removed_edges_irrelevant [simp]:
  "base_graph_ok B d I (g\<lparr>removed_edges := ds\<rparr>) = base_graph_ok B d I g"
  "id_arcs B (g\<lparr>removed_edges := ds\<rparr>) = id_arcs B g" "vertex_id_of B (g\<lparr>removed_edges := ds\<rparr>) v = vertex_id_of B g v"
  "num_vertices B (g\<lparr>removed_edges := ds\<rparr>) = num_vertices B g" "vertex_ids (g\<lparr>removed_edges := ds\<rparr>) = vertex_ids g"
proof -
  have "id_arc B (g\<lparr>removed_edges := ds\<rparr>) = id_arc B g" by (simp add: id_arc_def vertex_id_of_def fun_eq_iff)
  then show "id_arcs B (g\<lparr>removed_edges := ds\<rparr>) = id_arcs B g" by (simp add: id_arcs_def)
qed (simp_all add: base_graph_ok_def vertex_id_of_def num_vertices_def vertex_ids_def)

lemma vertex_ids_graph [simp]: "vertex_ids (g\<lparr>graph := h\<rparr>) = vertex_ids g"
  by (simp add: vertex_ids_def)

lemma image_ways: "image_mset (id_arc B g) (ways d u v i c) = ways d (vertex_id_of B g u) (vertex_id_of B g v) i c"
  by (simp add: ways_def id_arc_def)

lemma put_edge_arcs:
  assumes L: "adjacency_list B d I" and g: "base_graph_ok B d I g" and uv: "u < num_vertices B g" "v < num_vertices B g"
    and f: "\<And>x. be_id (f x) = i" "\<And>x. be_cost (f x) = c"
  shows "base_graph_ok B d I (put_edge B u v f g)"
    "id_arcs B (put_edge B u v f g) = id_arcs B g + ways d (vertex_id_of B g u) (vertex_id_of B g v) i c"
    "vertex_ids (put_edge B u v f g) = vertex_ids g" "removed_edges (put_edge B u v f g) = removed_edges g"
    "num_vertices B (put_edge B u v f g) = num_vertices B g"
    "w < num_vertices B g \<Longrightarrow> vertex_id_of B (put_edge B u v f g) w = vertex_id_of B g w"
proof -
  obtain e h where e: "b_add_edge B u v (graph g) = (e, h)" by fastforce
  let ?h = "b_set_edge B e (f (b_edge B h e)) h"
  have I: "I ?h" "same_vertices B (graph g) ?h" and a: "garcs B ?h = garcs B (graph g) + ways d u v i c"
    using add_edge_law[OF L base_graph_okD(1)[OF g] uv[unfolded num_vertices_def] e, of "f (b_edge B h e)"] f by simp_all
  have p: "put_edge B u v f g = g\<lparr>graph := ?h\<rparr>" by (simp add: put_edge_def e)
  note r = same_vertices_graph[OF L g I]
  show "base_graph_ok B d I (put_edge B u v f g)"
    "id_arcs B (put_edge B u v f g) = id_arcs B g + ways d (vertex_id_of B g u) (vertex_id_of B g v) i c"
    "vertex_ids (put_edge B u v f g) = vertex_ids g" "removed_edges (put_edge B u v f g) = removed_edges g"
    "num_vertices B (put_edge B u v f g) = num_vertices B g"
    using r(1,2) I(2) unfolding p by (simp_all add: a image_ways id_arcs_def num_vertices_def same_vertices_def)
  show "w < num_vertices B g \<Longrightarrow> vertex_id_of B (put_edge B u v f g) w = vertex_id_of B g w"
    unfolding p by (rule r(3))
qed

section \<open>Inserting edges\<close>

lemma get_V_vertex_ok:
  assumes L: "adjacency_list B d I" and g: "base_graph_ok B d I g"
  shows "\<exists>v g'. get_V_vertex B x g = (v, g') \<and> base_graph_ok B d I g' \<and> id_arcs B g' = id_arcs B g \<and>
    vertex_ids g' = insert (bv_id x) (vertex_ids g) \<and> removed_edges g' = removed_edges g \<and>
    v < num_vertices B g' \<and> vertex_id_of B g' v = bv_id x \<and>
    num_vertices B g \<le> num_vertices B g' \<and> (\<forall>w < num_vertices B g. vertex_id_of B g' w = vertex_id_of B g w)"
proof (cases "map_of (vertices_map g) (bv_id x)")
  case (Some v)
  then have "v < num_vertices B g" "vertex_id_of B g v = bv_id x" using base_graph_okD(4)[OF g] by blast+
  moreover have "bv_id x \<in> vertex_ids g" using Some by (auto simp: vertex_ids_def)
  ultimately show ?thesis using g Some by (simp add: get_V_vertex_def insert_absorb)
next
  case None
  obtain v h where h: "b_add_vertex B (graph g) = (v, h)" by fastforce
  have h1: "I h" "v = num_vertices B g" "b_num_vertices B h = Suc v" "garcs B h = garcs B (graph g)"
      "\<forall>w < v. b_vertex B h w = b_vertex B (graph g) w"
    using add_vertex_law[OF L base_graph_okD(1)[OF g] h] by (simp_all add: num_vertices_def)
  let ?h = "b_set_vertex B v x h"
  have h2: "I ?h" "b_num_vertices B ?h = Suc v" "garcs B ?h = garcs B (graph g)"
      "\<forall>w. b_vertex B ?h w = (if w = v then x else b_vertex B h w)"
    using set_vertex_law[OF L h1(1), of v x] h1(3,4) by simp_all
  define g' where "g' = g\<lparr>graph := ?h, vertices_map := map_put (bv_id x) v (vertices_map g)\<rparr>"
  have n: "num_vertices B g' = Suc (num_vertices B g)" using h1(2) h2(2) by (simp add: g'_def num_vertices_def)
  have new: "vertex_id_of B g' v = bv_id x" using h2(4) by (simp add: g'_def vertex_id_of_def)
  have old: "vertex_id_of B g' w = vertex_id_of B g w" if "w < num_vertices B g" for w
    using h2(4) h1(2,5) that by (simp add: g'_def vertex_id_of_def)
  have "id_arc B g' a = id_arc B g a" if "a \<in># garcs B (graph g)" for a
    using garc_ends[OF L base_graph_okD(1)[OF g] that] old by (simp add: id_arc_def num_vertices_def)
  then have arcs: "id_arcs B g' = id_arcs B g" using h2(3) by (auto simp: id_arcs_def g'_def intro: image_mset_cong)
  have "base_graph_ok B d I g'"
    unfolding base_graph_ok_def
  proof (intro conjI allI)
    show "I (graph g')" "directed_graph g' = d" using h2(1) base_graph_okD(2)[OF g] by (simp_all add: g'_def)
    show "keys_ok (vertices_map g')" using base_graph_okD(3)[OF g] by (simp add: g'_def keys_ok_map_put)
    fix k w
    have fresh: "vertex_id_of B g u \<noteq> bv_id x" if "u < num_vertices B g" for u
      using None base_graph_okD(4)[OF g, of "bv_id x" u] that by auto
    have "map_of (vertices_map g') k = Some w \<longleftrightarrow> (if k = bv_id x then w = v else w < v \<and> vertex_id_of B g w = k)"
      using base_graph_okD(4)[OF g, of k w] h1(2) by (auto simp: g'_def)
    also have "\<dots> \<longleftrightarrow> w < num_vertices B g' \<and> vertex_id_of B g' w = k"
      using new old fresh h1(2) by (auto simp: n less_Suc_eq)
    finally show "map_of (vertices_map g') k = Some w \<longleftrightarrow> w < num_vertices B g' \<and> vertex_id_of B g' w = k" .
  qed
  moreover have "get_V_vertex B x g = (v, g')" using None h by (simp add: get_V_vertex_def g'_def)
  moreover have "vertex_ids g' = insert (bv_id x) (vertex_ids g)" "removed_edges g' = removed_edges g"
    by (simp_all add: g'_def vertex_ids_def)
  ultimately show ?thesis using arcs n new old h1(2) by auto
qed

text \<open>The arcs of an edge row.\<close>

definition row_arcs :: "bool \<Rightarrow> bool \<Rightarrow> Edge_t \<Rightarrow> int garc multiset" where
  "row_arcs d normal e =
     (if 0 \<le> edge_cost e then ways d (source e) (target e) (edge_id e) (edge_cost e) else {#}) +
     (if 0 \<le> reverse_cost e \<and> (d \<or> \<not> deq (edge_cost e) (reverse_cost e))
      then ways d (target e) (source e) (if normal then edge_id e else - edge_id e) (reverse_cost e) else {#})"

definition row_used :: "Edge_t \<Rightarrow> bool" where
  "row_used e \<longleftrightarrow> \<not> (edge_cost e < 0 \<and> reverse_cost e < 0)"

lemma ends_in_graph_ok:
  assumes L: "adjacency_list B d I" and g: "base_graph_ok B d I g"
  shows "\<exists>u v g'. ends_in_graph B e g = Inr (u, v, g') \<and> base_graph_ok B d I g' \<and> id_arcs B g' = id_arcs B g \<and>
    vertex_ids g' = {source e, target e} \<union> vertex_ids g \<and> removed_edges g' = removed_edges g \<and>
    u < num_vertices B g' \<and> v < num_vertices B g' \<and> vertex_id_of B g' u = source e \<and> vertex_id_of B g' v = target e"
proof -
  obtain u g1 where 1: "get_V_vertex B (Basic_vertex_of e True) g = (u, g1)" "base_graph_ok B d I g1" "id_arcs B g1 = id_arcs B g"
      "vertex_ids g1 = insert (source e) (vertex_ids g)" "removed_edges g1 = removed_edges g" "u < num_vertices B g1"
      "vertex_id_of B g1 u = source e"
    using get_V_vertex_ok[OF L g, of "Basic_vertex_of e True"] by (auto simp: Basic_vertex_of_def)
  obtain v g2 where 2: "get_V_vertex B (Basic_vertex_of e False) g1 = (v, g2)" "base_graph_ok B d I g2" "id_arcs B g2 = id_arcs B g1"
      "vertex_ids g2 = insert (target e) (vertex_ids g1)" "removed_edges g2 = removed_edges g1" "v < num_vertices B g2"
      "vertex_id_of B g2 v = target e" "num_vertices B g1 \<le> num_vertices B g2"
      "\<forall>w < num_vertices B g1. vertex_id_of B g2 w = vertex_id_of B g1 w"
    using get_V_vertex_ok[OF L 1(2), of "Basic_vertex_of e False"] by (auto simp: Basic_vertex_of_def)
  have "ends_in_graph B e g = Inr (u, v, g2)"
    using 1(4) 2(4) by (simp add: ends_in_graph_def 1(1) 2(1) has_vertex_ids)
  moreover have "vertex_ids g2 = {source e, target e} \<union> vertex_ids g" using 1(4) 2(4) by auto
  ultimately show ?thesis using 1 2 by (intro exI conjI) (assumption | simp)+
qed

lemma set_cost_id_fields [simp]: "be_id (set_cost_id c i x) = i" "be_cost (set_cost_id c i x) = c"
  by (simp_all add: set_cost_id_def)

lemma graph_add_edge_ok:
  assumes L: "adjacency_list B d I" and g: "base_graph_ok B d I g"
  shows "\<exists>g'. graph_add_edge B normal e g = Inr g' \<and> base_graph_ok B d I g' \<and>
    id_arcs B g' = id_arcs B g + row_arcs d normal e \<and> removed_edges g' = removed_edges g \<and>
    vertex_ids g' = (if row_used e then {source e, target e} else {}) \<union> vertex_ids g"
proof (cases "row_used e")
  case False
  then have neg: "edge_cost e < 0" "reverse_cost e < 0" by (auto simp: row_used_def)
  then have "\<not> 0 \<le> edge_cost e" "\<not> 0 \<le> reverse_cost e"
    by (cases "edge_cost e"; cases "reverse_cost e"; simp add: zero_double_def)+
  then show ?thesis using False neg g by (simp add: graph_add_edge_def row_arcs_def)
next
  case True
  obtain u v g1 where 1: "ends_in_graph B e g = Inr (u, v, g1)" "base_graph_ok B d I g1" "id_arcs B g1 = id_arcs B g"
      "vertex_ids g1 = {source e, target e} \<union> vertex_ids g" "removed_edges g1 = removed_edges g"
      "u < num_vertices B g1" "v < num_vertices B g1" "vertex_id_of B g1 u = source e" "vertex_id_of B g1 v = target e"
    using ends_in_graph_ok[OF L g, of e] by blast
  define g2 where "g2 = (if 0 \<le> edge_cost e then put_edge B u v (set_cost_id (edge_cost e) (edge_id e)) g1 else g1)"
  note put1 = put_edge_arcs[OF L 1(2,6,7), of "set_cost_id (edge_cost e) (edge_id e)"]
  have 2: "base_graph_ok B d I g2" "vertex_ids g2 = vertex_ids g1" "removed_edges g2 = removed_edges g1"
      "num_vertices B g2 = num_vertices B g1" "vertex_id_of B g2 u = source e" "vertex_id_of B g2 v = target e"
      "id_arcs B g2 = id_arcs B g + (if 0 \<le> edge_cost e then ways d (source e) (target e) (edge_id e) (edge_cost e) else {#})"
    using 1 put1 by (simp_all add: g2_def)
  let ?i = "if normal then edge_id e else - edge_id e"
  define g3 where "g3 = (if second_way g2 e then put_edge B v u (set_cost_id (reverse_cost e) ?i) g2 else g2)"
  have uv2: "v < num_vertices B g2" "u < num_vertices B g2" using 1(6,7) 2(4) by simp_all
  note put2 = put_edge_arcs[OF L 2(1) uv2, of "set_cost_id (reverse_cost e) ?i"]
  have "graph_add_edge B normal e g = Inr g3"
    unfolding graph_add_edge_def if_not_P[OF True[unfolded row_used_def]]
    by (simp only: 1(1) bindE_simps case_prod_conv Let_def g2_def g3_def)
  moreover have "base_graph_ok B d I g3" "removed_edges g3 = removed_edges g" "vertex_ids g3 = {source e, target e} \<union> vertex_ids g"
    using 1(4,5) 2 put2 by (simp_all add: g3_def)
  moreover have "second_way g2 e \<longleftrightarrow> 0 \<le> reverse_cost e \<and> (d \<or> \<not> deq (edge_cost e) (reverse_cost e))"
    using base_graph_okD(2)[OF 2(1)] by (auto simp: second_way_def)
  then have "id_arcs B g3 = id_arcs B g + row_arcs d normal e"
    using put2(2) 2(5-7) by (cases "second_way g2 e") (auto simp: g3_def row_arcs_def add.assoc)
  ultimately show ?thesis using True by auto
qed

text \<open>All rows: the graph refines the multiset of their arcs.\<close>

definition rows_arcs :: "bool \<Rightarrow> bool \<Rightarrow> Edge_t list \<Rightarrow> int garc multiset" where
  "rows_arcs d normal es = sum_list (map (row_arcs d normal) es)"

definition rows_ids :: "Edge_t list \<Rightarrow> int set" where
  "rows_ids es = (\<Union>e \<in> {e \<in> set es. row_used e}. {source e, target e})"

lemma insert_edges_ok:
  assumes L: "adjacency_list B d I" and g: "base_graph_ok B d I g"
  shows "\<exists>g'. insert_edges B es normal g = Inr g' \<and> base_graph_ok B d I g' \<and> id_arcs B g' = id_arcs B g + rows_arcs d normal es \<and>
    vertex_ids g' = rows_ids es \<union> vertex_ids g \<and> removed_edges g' = removed_edges g"
  using g
proof (induction es arbitrary: g)
  case Nil
  then show ?case by (simp add: insert_edges_def rows_arcs_def rows_ids_def)
next
  case (Cons e es)
  obtain g1 where 1: "graph_add_edge B normal e g = Inr g1" "base_graph_ok B d I g1" "id_arcs B g1 = id_arcs B g + row_arcs d normal e"
      "removed_edges g1 = removed_edges g" "vertex_ids g1 = (if row_used e then {source e, target e} else {}) \<union> vertex_ids g"
    using graph_add_edge_ok[OF L Cons.prems] by blast
  obtain g' where 2: "insert_edges B es normal g1 = Inr g'" "base_graph_ok B d I g'" "id_arcs B g' = id_arcs B g1 + rows_arcs d normal es"
      "vertex_ids g' = rows_ids es \<union> vertex_ids g1" "removed_edges g' = removed_edges g1"
    using Cons.IH[OF 1(2)] by blast
  have "insert_edges B (e # es) normal g = Inr g'" using 1(1) 2(1) by (simp add: insert_edges_def)
  moreover have "vertex_ids g' = rows_ids (e # es) \<union> vertex_ids g" using 1(5) 2(4) by (auto simp: rows_ids_def)
  ultimately show ?case using 1 2 by (intro exI[of _ g']) (simp add: rows_arcs_def add.assoc)
qed

lemma empty_graph_ok:
  assumes "adjacency_list B d I"
  shows "base_graph_ok B d I (Pgr_base_graph_empty B d)" "id_arcs B (Pgr_base_graph_empty B d) = {#}"
    "vertex_ids (Pgr_base_graph_empty B d) = {}" "removed_edges (Pgr_base_graph_empty B d) = []"
  using assms unfolding adjacency_list_def make_law_def
  by (simp_all add: base_graph_ok_def Pgr_base_graph_empty_def keys_ok_def num_vertices_def id_arcs_def vertex_ids_def)

lemma graph_of_rows:
  assumes "adjacency_list B d I"
  obtains g where "insert_edges B es normal (Pgr_base_graph_empty B d) = Inr g" "base_graph_ok B d I g"
    "id_arcs B g = rows_arcs d normal es" "vertex_ids g = rows_ids es" "removed_edges g = []"
proof -
  note e = empty_graph_ok[OF assms]
  show thesis using insert_edges_ok[OF assms e(1), of es normal] that by (auto simp: e(2-4))
qed

end
