(* ===== verification/Search_trees.thy ===== *)
theory Search_trees
  imports Dijkstras Graph_laws
begin

text \<open>
  What the search of the Boost graph library promises (\<open>search_law\<close>: its documented behaviour at every
  vertex that it examines) and the paths that the program reads off its predecessors and distances.
\<close>

section \<open>Walks\<close>

fun arc_walk :: "'v garc multiset \<Rightarrow> 'v \<Rightarrow> 'v garc list \<Rightarrow> 'v \<Rightarrow> bool" where
  "arc_walk A s [] t \<longleftrightarrow> s = t"
| "arc_walk A s (a # as) t \<longleftrightarrow> a \<in># A \<and> fst a = s \<and> arc_walk A (fst (snd a)) as t"

definition garc_cost :: "'v garc \<Rightarrow> double" where
  "garc_cost a = snd (snd (snd a))"

definition arcs_cost :: "'v garc list \<Rightarrow> double" where
  "arcs_cost as = sum_list (map garc_cost as)"

lemma arcs_cost_simps [simp]: "arcs_cost [] = 0" "arcs_cost (a # as) = garc_cost a + arcs_cost as"
  "arcs_cost (as @ bs) = arcs_cost as + arcs_cost bs"
  by (simp_all add: arcs_cost_def)

lemma arc_walk_append: "arc_walk A s (as @ bs) t \<longleftrightarrow> (\<exists>u. arc_walk A s as u \<and> arc_walk A u bs t)"
  by (induction as arbitrary: s) auto

text \<open>Costs that are finite and not negative.\<close>

definition cost_ok :: "double \<Rightarrow> bool" where
  "cost_ok c \<longleftrightarrow> (\<exists>r \<ge> 0. c = Fin r)"

definition arcs_ok :: "'v garc multiset \<Rightarrow> bool" where
  "arcs_ok A \<longleftrightarrow> (\<forall>a \<in># A. cost_ok (garc_cost a))"

lemma cost_ok_0 [simp]: "cost_ok 0"
  by (auto simp: cost_ok_def zero_double_def)

lemma cost_ok_add: "cost_ok a \<Longrightarrow> cost_ok b \<Longrightarrow> cost_ok (a + b)"
  by (auto simp: cost_ok_def intro!: add_nonneg_nonneg)

lemma arcs_cost_ok: "arcs_ok A \<Longrightarrow> arc_walk A s as t \<Longrightarrow> cost_ok (arcs_cost as)"
  by (induction as arbitrary: s) (auto simp: arcs_ok_def intro: cost_ok_add)

lemma cost_ok_mono: "cost_ok a \<Longrightarrow> cost_ok b \<Longrightarrow> cost_ok c \<Longrightarrow> a \<le> b \<Longrightarrow> a + c \<le> b + c"
  by (auto simp: cost_ok_def)

lemma cost_ok_diff: "cost_ok a \<Longrightarrow> cost_ok c \<Longrightarrow> (a + c) - a = c"
  by (auto simp: cost_ok_def)

lemma cost_ok_deq: "cost_ok a \<Longrightarrow> deq a b \<longleftrightarrow> a = b"
  by (auto simp: cost_ok_def deq_def)

section \<open>The law of the search\<close>

text \<open>
  \<open>us\<close>: the vertices in the order in which they are examined; the predecessor of a vertex was examined
  before it, and an arc from the predecessor makes its distance.
\<close>

definition tree_law :: "nat garc multiset \<Rightarrow> nat \<Rightarrow> nat list \<Rightarrow> nat list \<Rightarrow> double list \<Rightarrow> bool" where
  "tree_law A s us ps ds \<longleftrightarrow> us \<noteq> [] \<and> hd us = s \<and> ps ! s = s \<and> ds ! s = 0 \<and>
     (\<forall>k < length us. 0 < k \<longrightarrow> ps ! (us ! k) \<in> set (take k us) \<and>
        (\<exists>i c. (ps ! (us ! k), us ! k, i, c) \<in># A \<and> ds ! (us ! k) = ds ! (ps ! (us ! k)) + c))"

text \<open>No arc leads from an examined vertex to one that is not examined, or shortens a distance.\<close>

definition closed_law :: "nat garc multiset \<Rightarrow> nat list \<Rightarrow> double list \<Rightarrow> bool" where
  "closed_law A us ds \<longleftrightarrow>
     (\<forall>a \<in># A. fst a \<in> set us \<longrightarrow> fst (snd a) \<in> set us \<and> ds ! fst (snd a) \<le> ds ! fst a + garc_cost a)"

text \<open>When a vertex is examined, it and the vertices before it have their final values.\<close>

definition settled_law :: "(nat \<times> search_state) list \<Rightarrow> nat list \<Rightarrow> double list \<Rightarrow> bool" where
  "settled_law events ps ds \<longleftrightarrow>
     (\<forall>k < length events. case events ! k of (_, pk, dk) \<Rightarrow> length pk = length ps \<and> length dk = length ds \<and>
        (\<forall>j \<le> k. pk ! fst (events ! j) = ps ! fst (events ! j) \<and> dk ! fst (events ! j) = ds ! fst (events ! j)))"

definition search_law :: "('g, 'e) bgl \<Rightarrow> 'g \<Rightarrow> nat \<Rightarrow> bool" where
  "search_law B h s \<longleftrightarrow>
     (case b_dijkstra B h s of (events, ps, ds) \<Rightarrow>
        let n = b_num_vertices B h; us = map fst events in
        length ps = n \<and> length ds = n \<and> distinct us \<and> set us \<subseteq> {..<n} \<and>
        tree_law (garcs B h) s us ps ds \<and> closed_law (garcs B h) us ds \<and> settled_law events ps ds \<and>
        sorted_wrt (\<lambda>u v. ds ! u \<le> ds ! v) us \<and> (\<forall>v < n. v \<notin> set us \<longrightarrow> ps ! v = v))"

text \<open>On every graph of the container, when no cost is negative or infinite.\<close>

definition searches :: "('g, 'e) bgl \<Rightarrow> ('g \<Rightarrow> bool) \<Rightarrow> bool" where
  "searches B I \<longleftrightarrow> (\<forall>h s. I h \<longrightarrow> arcs_ok (garcs B h) \<longrightarrow> s < b_num_vertices B h \<longrightarrow> search_law B h s)"

section \<open>Trees\<close>

text \<open>
  The vertices \<open>vs\<close> (in order) carry a tree with root \<open>s\<close> in the predecessors; the program stops the
  search, so the other vertices may carry anything.
\<close>

definition tree_on :: "nat garc multiset \<Rightarrow> nat \<Rightarrow> nat \<Rightarrow> nat list \<Rightarrow> nat list \<Rightarrow> double list \<Rightarrow> bool" where
  "tree_on A n s vs ps ds \<longleftrightarrow> length ps = n \<and> length ds = n \<and> distinct vs \<and> set vs \<subseteq> {..<n} \<and> tree_law A s vs ps ds"

lemma tree_on_nth:
  assumes "tree_on A n s vs ps ds" "k < length vs"
  shows "vs ! k < n" "k = 0 \<longleftrightarrow> vs ! k = s"
    "0 < k \<Longrightarrow> \<exists>j < k. ps ! (vs ! k) = vs ! j \<and> (\<exists>i c. (vs ! j, vs ! k, i, c) \<in># A \<and> ds ! (vs ! k) = ds ! (vs ! j) + c)"
proof -
  have t: "vs \<noteq> []" "vs ! 0 = s" "distinct vs" "set vs \<subseteq> {..<n}"
    using assms(1) by (auto simp: tree_on_def tree_law_def hd_conv_nth)
  show "vs ! k < n" using t(4) nth_mem[OF assms(2)] by blast
  show "k = 0 \<longleftrightarrow> vs ! k = s" using t(1-3) assms(2) nth_eq_iff_index_eq[of vs k 0] by auto
  assume "0 < k"
  then have "ps ! (vs ! k) \<in> set (take k vs)"
      "\<exists>i c. (ps ! (vs ! k), vs ! k, i, c) \<in># A \<and> ds ! (vs ! k) = ds ! (ps ! (vs ! k)) + c"
    using assms by (auto simp: tree_on_def tree_law_def)
  moreover obtain j where "j < k" "vs ! j = ps ! (vs ! k)"
    using calculation(1) assms(2) by (auto simp: in_set_conv_nth)
  ultimately show "\<exists>j < k. ps ! (vs ! k) = vs ! j \<and> (\<exists>i c. (vs ! j, vs ! k, i, c) \<in># A \<and> ds ! (vs ! k) = ds ! (vs ! j) + c)"
    by (intro exI[of _ j]) simp
qed

lemma tree_on_cost:
  assumes "tree_on A n s vs ps ds" "arcs_ok A" "k < length vs"
  shows "cost_ok (ds ! (vs ! k))"
  using assms(3)
proof (induction k rule: less_induct)
  case (less k)
  show ?case
  proof (cases "k = 0")
    case True
    then have "vs ! k = s" using tree_on_nth(2)[OF assms(1) less.prems] by simp
    then show ?thesis using assms(1) by (simp add: tree_on_def tree_law_def)
  next
    case False
    then obtain j i c where j: "j < k" "(vs ! j, vs ! k, i, c) \<in># A" "ds ! (vs ! k) = ds ! (vs ! j) + c"
      using tree_on_nth(3)[OF assms(1) less.prems] by auto
    then have "cost_ok c" using assms(2) by (auto simp: arcs_ok_def garc_cost_def)
    then show ?thesis using less.IH[OF j(1)] j less.prems by (simp add: cost_ok_add)
  qed
qed

section \<open>The edge of a step\<close>

lemma edge_id_loop_found:
  assumes "cost_ok c" "\<exists>e \<in> set es. joins B g u v e \<and> be_cost (b_edge B (graph g) e) = c"
  shows "\<exists>e \<in> set es. joins B g u v e \<and> be_cost (b_edge B (graph g) e) = c \<and>
    edge_id_loop B g u v c es mc me = (be_id (b_edge B (graph g) e), c)"
  using assms(2)
proof (induction es arbitrary: mc me)
  case (Cons e es)
  show ?case
  proof (cases "joins B g u v e \<and> be_cost (b_edge B (graph g) e) = c")
    case True
    then show ?thesis using cost_ok_deq[OF assms(1)] by (intro bexI[of _ e]) (simp_all add: Let_def)
  next
    case False
    then have rest: "\<exists>e \<in> set es. joins B g u v e \<and> be_cost (b_edge B (graph g) e) = c" using Cons.prems by auto
    have not: "\<not> (joins B g u v e \<and> deq c (be_cost (b_edge B (graph g) e)))"
      using False cost_ok_deq[OF assms(1)] by auto
    have "\<exists>mc' me'. edge_id_loop B g u v c (e # es) mc me = edge_id_loop B g u v c es mc' me'"
      using not by (cases "joins B g u v e \<and> be_cost (b_edge B (graph g) e) < mc") (auto simp: Let_def)
    then obtain mc' me' where "edge_id_loop B g u v c (e # es) mc me = edge_id_loop B g u v c es mc' me'" by blast
    then show ?thesis using Cons.IH[OF rest, of mc' me'] by auto
  qed
qed simp

lemma get_edge_id_arc:
  assumes L: "adjacency_list B d I" and I: "I (graph g)" and c: "cost_ok c" and a: "(u, v, i, c) \<in># garcs B (graph g)"
  shows "\<exists>i'. get_edge_id B g u v c = (i', c) \<and> (u, v, i', c) \<in># garcs B (graph g)"
proof -
  have u: "u < b_num_vertices B (graph g)" using garc_ends(1)[OF L I a] by simp
  have "(u, v, i, c) \<in># mset (map (arc_of B (graph g)) (b_out_edges B (graph g) u))"
    unfolding out_edges_arcs[OF L I u] using a by simp
  then have "\<exists>e \<in> set (b_out_edges B (graph g) u). joins B g u v e \<and> be_cost (b_edge B (graph g) e) = c"
    by (auto simp: arc_of_def joins_def)
  from edge_id_loop_found[OF c this] obtain e where e: "e \<in> set (b_out_edges B (graph g) u)" "joins B g u v e"
      "be_cost (b_edge B (graph g) e) = c" "get_edge_id B g u v c = (be_id (b_edge B (graph g) e), c)"
    unfolding get_edge_id_def by blast
  have "arc_of B (graph g) e \<in># garcs B (graph g)" using e(1) u by (auto simp: in_garcs_iff)
  then show ?thesis using e by (intro exI[of _ "be_id (b_edge B (graph g) e)"]) (simp add: arc_of_def joins_def)
qed

section \<open>Rows\<close>

text \<open>The arc that a row stands for, given the node of the row behind it.\<close>

fun row_arcs_of :: "Path_t list \<Rightarrow> int \<Rightarrow> int garc list" where
  "row_arcs_of [] t = []"
| "row_arcs_of (r # rs) t = (node r, (case rs of [] \<Rightarrow> t | r' # _ \<Rightarrow> node r'), edge r, cost r) # row_arcs_of rs t"

text \<open>A path that walks over arcs: its last row is the end, with edge -1 and cost 0.\<close>

definition path_walks :: "int garc multiset \<Rightarrow> Path \<Rightarrow> bool" where
  "path_walks A p \<longleftrightarrow> (\<exists>rs r. path p = rs @ [r] \<and> rs \<noteq> [] \<and> node r = m_end_id p \<and> edge r = -1 \<and> cost r = 0 \<and>
     arc_walk A (m_start_id p) (row_arcs_of rs (m_end_id p)) (m_end_id p))"

lemma arcs_cost_rows: "arcs_cost (row_arcs_of rs t) = sum_list (map cost rs)"
  by (induction rs) (simp_all add: garc_cost_def)

lemma row_arcs_of_nonempty: "rs \<noteq> [] \<Longrightarrow> row_arcs_of rs t \<noteq> []"
  by (cases rs) simp_all

lemma row_arcs_of_hd: "rs \<noteq> [] \<Longrightarrow> arc_walk A s (row_arcs_of rs t) t' \<Longrightarrow> node (hd rs) = s"
  by (cases rs) simp_all

lemma row_arcs_of_Cons:
  "rs \<noteq> [] \<Longrightarrow> row_arcs_of (r # rs) t = (node r, node (hd rs), edge r, cost r) # row_arcs_of rs t"
  by (cases rs) simp_all

lemma complete_loop_rows:
  assumes L: "adjacency_list B d I" and g: "base_graph_ok B d I g" and A: "arcs_ok (garcs B (graph g))"
    and t: "tree_on (garcs B (graph g)) (num_vertices B g) s vs ps ds"
    and k: "k < length vs" "k < m" and p: "path p = rs @ [r]" "rs = [] \<longrightarrow> vertex_id_of B g (vs ! k) = e"
      "arc_walk (id_arcs B g) (vertex_id_of B g (vs ! k)) (row_arcs_of rs e) e"
  shows "\<exists>rs' p'. complete_loop B g s m (vs ! k) ps ds True p = Inr p' \<and> path p' = rs' @ rs @ [r] \<and> (rs' = [] \<longleftrightarrow> k = 0) \<and>
    m_start_id p' = m_start_id p \<and> m_end_id p' = m_end_id p \<and>
    arc_walk (id_arcs B g) (vertex_id_of B g s) (row_arcs_of (rs' @ rs) e) e \<and>
    sum_list (map cost rs') = ds ! (vs ! k)"
  using k p
proof (induction m arbitrary: k rs p)
  case (Suc m)
  have lens: "length ps = num_vertices B g" "length ds = num_vertices B g" using t by (simp_all add: tree_on_def)
  show ?case
  proof (cases "k = 0")
    case True
    then have s: "vs ! k = s" using tree_on_nth(2)[OF t Suc.prems(1)] by simp
    have "ds ! s = 0" using t by (simp add: tree_on_def tree_law_def)
    then show ?thesis using s True Suc.prems(3-5) by (intro exI[of _ "[]"] exI[of _ p]) simp
  next
    case False
    then have not_s: "vs ! k \<noteq> s" using tree_on_nth(2)[OF t Suc.prems(1)] by simp
    obtain j i c where j: "j < k" "ps ! (vs ! k) = vs ! j" "(vs ! j, vs ! k, i, c) \<in># garcs B (graph g)"
        "ds ! (vs ! k) = ds ! (vs ! j) + c"
      using tree_on_nth(3)[OF t Suc.prems(1)] False by blast
    have jl: "j < length vs" "j < m" using j(1) Suc.prems(1,2) by simp_all
    have ne: "vs ! k \<noteq> vs ! j"
      using t j(1) jl(1) Suc.prems(1) by (simp add: tree_on_def nth_eq_iff_index_eq)
    have bounds: "vs ! k < num_vertices B g" "vs ! j < num_vertices B g"
      using tree_on_nth(1)[OF t] Suc.prems(1) jl(1) by blast+
    have c: "cost_ok c" using A j(3) by (auto simp: arcs_ok_def garc_cost_def)
    obtain i' where i': "get_edge_id B g (vs ! j) (vs ! k) c = (i', c)" "(vs ! j, vs ! k, i', c) \<in># garcs B (graph g)"
      using get_edge_id_arc[OF L base_graph_okD(1)[OF g] c j(3)] by blast
    have diff: "ds ! (vs ! k) - ds ! (vs ! j) = c" "ds ! (vs ! k) - ds ! (vs ! j) = c"
      using cost_ok_diff[OF tree_on_cost[OF t A jl(1)] c] j(4) by simp_all
    let ?row = "\<lparr>node = vertex_id_of B g (vs ! j), edge = i', cost = c, agg_cost = ds ! (vs ! k) - c, pred = 0\<rparr>"
    have step: "complete_loop B g s (Suc m) (vs ! k) ps ds True p = complete_loop B g s m (vs ! j) ps ds True (push_front ?row p)"
      using not_s ne bounds lens j(2) by (simp add: diff i'(1))
    have mem: "(vertex_id_of B g (vs ! j), vertex_id_of B g (vs ! k), i', c) \<in># id_arcs B g"
      using i'(2) by (force simp: id_arcs_def id_arc_def)
    have pp: "path (push_front ?row p) = (?row # rs) @ [r]" using Suc.prems(3) by (simp add: push_front_def)
    have "arc_walk (id_arcs B g) (vertex_id_of B g (vs ! j)) (row_arcs_of (?row # rs) e) e"
    proof (cases "rs = []")
      case True
      then show ?thesis using Suc.prems(4) mem by simp
    next
      case False
      then show ?thesis
        unfolding row_arcs_of_Cons[OF False] using mem Suc.prems(5) row_arcs_of_hd[OF False Suc.prems(5)] by simp
    qed
    from Suc.IH[OF jl pp _ this] obtain rs' p' where r: "complete_loop B g s m (vs ! j) ps ds True (push_front ?row p) = Inr p'"
        "path p' = rs' @ (?row # rs) @ [r]" "m_start_id p' = m_start_id p" "m_end_id p' = m_end_id p"
        "arc_walk (id_arcs B g) (vertex_id_of B g s) (row_arcs_of (rs' @ ?row # rs) e) e" "sum_list (map cost rs') = ds ! (vs ! j)"
      by (auto simp: push_front_def)
    show ?thesis
      using r False j(4) unfolding step by (intro exI[of _ "rs' @ [?row]"] exI[of _ p']) simp
  qed
qed simp

end
