(* ===== verification/List_graphs.thy ===== *)
theory List_graphs
  imports Search_trees
begin

text \<open>
  An adjacency list over HOL lists: it keeps the promises \<open>adjacency_list\<close> of the container and
  \<open>searches\<close> of its shortest path search, so both can hold together.
\<close>

section \<open>The container\<close>

text \<open>An edge is stored once, with its key; a descriptor is the key and the ends as they are seen.\<close>

record lgraph =
  lg_vertices :: "Basic_vertex list"
  lg_edges :: "(nat \<times> nat \<times> nat \<times> Basic_edge) list"
  lg_next :: nat

type_synonym ledge = "nat \<times> nat \<times> nat"

definition no_edge :: Basic_edge where
  "no_edge = \<lparr>be_source = 0, be_target = 0, be_id = 0, be_cost = 0\<rparr>"

definition lg_vertex :: "lgraph \<Rightarrow> nat \<Rightarrow> Basic_vertex" where
  "lg_vertex h v = (if v < length (lg_vertices h) then lg_vertices h ! v else \<lparr>bv_id = 0\<rparr>)"

definition lg_edge :: "lgraph \<Rightarrow> ledge \<Rightarrow> Basic_edge" where
  "lg_edge h e = (case map_of (lg_edges h) (fst e) of None \<Rightarrow> no_edge | Some (u, v, x) \<Rightarrow> x)"

fun outs :: "bool \<Rightarrow> nat \<Rightarrow> nat \<times> nat \<times> nat \<times> Basic_edge \<Rightarrow> ledge list" where
  "outs d w (k, u, v, x) = (if u = w then [(k, u, v)] else []) @ (if \<not> d \<and> v = w then [(k, v, u)] else [])"

fun ins :: "bool \<Rightarrow> nat \<Rightarrow> nat \<times> nat \<times> nat \<times> Basic_edge \<Rightarrow> ledge list" where
  "ins d w (k, u, v, x) = (if v = w then [(k, u, v)] else []) @ (if \<not> d \<and> u = w then [(k, v, u)] else [])"

definition lg_out_edges :: "bool \<Rightarrow> lgraph \<Rightarrow> nat \<Rightarrow> ledge list" where
  "lg_out_edges d h w = concat (map (outs d w) (lg_edges h))"

definition lg_set_edge :: "ledge \<Rightarrow> Basic_edge \<Rightarrow> lgraph \<Rightarrow> lgraph" where
  "lg_set_edge e x h = h\<lparr>lg_edges := map (\<lambda>(k, u, v, y). (k, u, v, if k = fst e then x else y)) (lg_edges h)\<rparr>"

definition keep_edges :: "(nat \<times> nat \<times> nat \<times> Basic_edge \<Rightarrow> bool) \<Rightarrow> lgraph \<Rightarrow> lgraph" where
  "keep_edges P h = h\<lparr>lg_edges := filter P (lg_edges h)\<rparr>"

definition lg_find_edge :: "bool \<Rightarrow> nat \<Rightarrow> nat \<Rightarrow> lgraph \<Rightarrow> ledge option" where
  "lg_find_edge d u v h = find (\<lambda>e. snd (snd e) = v) (lg_out_edges d h u)"

section \<open>The search\<close>

fun finite_part :: "double \<Rightarrow> real" where
  "finite_part (Fin r) = r"
| "finite_part _ = 0"

text \<open>The arcs of the graph as a list.\<close>

fun arc_list :: "bool \<Rightarrow> nat \<times> nat \<times> nat \<times> Basic_edge \<Rightarrow> nat garc list" where
  "arc_list d (k, u, v, x) = (u, v, be_id x, be_cost x) # (if d then [] else [(v, u, be_id x, be_cost x)])"

definition lg_arcs :: "bool \<Rightarrow> lgraph \<Rightarrow> nat garc list" where
  "lg_arcs d h = concat (map (arc_list d) (lg_edges h))"

definition frontier :: "nat list \<Rightarrow> nat garc list \<Rightarrow> nat garc list" where
  "frontier us as = filter (\<lambda>a. fst a \<in> set us \<and> fst (snd a) \<notin> set us) as"

definition reach :: "double list \<Rightarrow> nat garc \<Rightarrow> double" where
  "reach ds a = ds ! fst a + garc_cost a"

text \<open>The nearest vertex behind the frontier, again and again.\<close>

fun search_loop :: "nat \<Rightarrow> nat garc list \<Rightarrow> nat list \<Rightarrow> search_state \<Rightarrow> (nat \<times> search_state) list \<times> search_state" where
  "search_loop 0 as us s = ([], s)"
| "search_loop (Suc n) as us s =
     (if frontier us as = [] then ([], s)
      else
        let a = arg_min_list (\<lambda>a. finite_part (reach (snd s) a)) (frontier us as);
            v = fst (snd a);
            s' = ((fst s)[v := fst a], (snd s)[v := reach (snd s) a]);
            (events, final) = search_loop n as (us @ [v]) s' in
        ((v, s') # events, final))"

definition lg_dijkstra :: "bool \<Rightarrow> lgraph \<Rightarrow> nat \<Rightarrow> (nat \<times> search_state) list \<times> search_state" where
  "lg_dijkstra d h s =
     (let n = length (lg_vertices h); s0 = ([0..<n], (replicate n PInf)[s := 0]);
          (events, final) = search_loop n (lg_arcs d h) [s] s0 in
      ((s, s0) # events, final))"

definition list_bgl :: "bool \<Rightarrow> (lgraph, ledge) bgl" where
  "list_bgl d =
     \<lparr>b_make = (\<lambda>n. \<lparr>lg_vertices = replicate n \<lparr>bv_id = 0\<rparr>, lg_edges = [], lg_next = 0\<rparr>),
      b_num_vertices = (\<lambda>h. length (lg_vertices h)),
      b_num_edges = (\<lambda>h. length (lg_edges h)),
      b_add_vertex = (\<lambda>h. (length (lg_vertices h), h\<lparr>lg_vertices := lg_vertices h @ [\<lparr>bv_id = 0\<rparr>]\<rparr>)),
      b_vertex = lg_vertex,
      b_set_vertex = (\<lambda>v x h. h\<lparr>lg_vertices := (lg_vertices h)[v := x]\<rparr>),
      b_add_edge = (\<lambda>u v h. ((lg_next h, u, v), h\<lparr>lg_edges := lg_edges h @ [(lg_next h, u, v, no_edge)], lg_next := lg_next h + 1\<rparr>)),
      b_find_edge = lg_find_edge d,
      b_edge = lg_edge,
      b_set_edge = lg_set_edge,
      b_source = (\<lambda>h e. fst (snd e)),
      b_target = (\<lambda>h e. snd (snd e)),
      b_out_edges = lg_out_edges d,
      b_in_edges = (\<lambda>h w. concat (map (ins d w) (lg_edges h))),
      b_remove_edges = (\<lambda>u v. keep_edges (\<lambda>(k, a, b, x). \<not> (a = u \<and> b = v \<or> \<not> d \<and> a = v \<and> b = u))),
      b_remove_edge = (\<lambda>e. keep_edges (\<lambda>(k, a, b, x). k \<noteq> fst e)),
      b_clear_vertex = (\<lambda>v. keep_edges (\<lambda>(k, a, b, x). a \<noteq> v \<and> b \<noteq> v)),
      b_dijkstra = lg_dijkstra d,
      uninitialised = (\<lambda>s e. NaN)\<rparr>"

section \<open>Its arcs\<close>

definition lg_ok :: "lgraph \<Rightarrow> bool" where
  "lg_ok h \<longleftrightarrow> distinct (map fst (lg_edges h)) \<and> (\<forall>(k, u, v, x) \<in> set (lg_edges h).
     k < lg_next h \<and> u < length (lg_vertices h) \<and> v < length (lg_vertices h))"

lemma list_bgl_simps [simp]:
  "b_num_vertices (list_bgl d) h = length (lg_vertices h)" "b_vertex (list_bgl d) = lg_vertex" "b_edge (list_bgl d) = lg_edge"
  "b_source (list_bgl d) h e = fst (snd e)" "b_target (list_bgl d) h e = snd (snd e)" "b_out_edges (list_bgl d) = lg_out_edges d"
  "b_in_edges (list_bgl d) h w = concat (map (ins d w) (lg_edges h))" "b_set_edge (list_bgl d) = lg_set_edge"
  "b_find_edge (list_bgl d) = lg_find_edge d" "b_dijkstra (list_bgl d) = lg_dijkstra d"
  "b_make (list_bgl d) n = \<lparr>lg_vertices = replicate n \<lparr>bv_id = 0\<rparr>, lg_edges = [], lg_next = 0\<rparr>"
  "b_add_vertex (list_bgl d) h = (length (lg_vertices h), h\<lparr>lg_vertices := lg_vertices h @ [\<lparr>bv_id = 0\<rparr>]\<rparr>)"
  "b_set_vertex (list_bgl d) v x h = h\<lparr>lg_vertices := (lg_vertices h)[v := x]\<rparr>"
  "b_add_edge (list_bgl d) u v h =
     ((lg_next h, u, v), h\<lparr>lg_edges := lg_edges h @ [(lg_next h, u, v, no_edge)], lg_next := lg_next h + 1\<rparr>)"
  "b_remove_edges (list_bgl d) u v = keep_edges (\<lambda>(k, a, b, x). \<not> (a = u \<and> b = v \<or> \<not> d \<and> a = v \<and> b = u))"
  "b_remove_edge (list_bgl d) e = keep_edges (\<lambda>(k, a, b, x). k \<noteq> fst e)"
  "b_clear_vertex (list_bgl d) v = keep_edges (\<lambda>(k, a, b, x). a \<noteq> v \<and> b \<noteq> v)"
  by (simp_all add: list_bgl_def)

lemma lg_edge_stored: "lg_ok h \<Longrightarrow> (k, u, v, x) \<in> set (lg_edges h) \<Longrightarrow> lg_edge h (k, p) = x"
  by (simp add: lg_edge_def lg_ok_def)

fun seen_from :: "bool \<Rightarrow> nat \<Rightarrow> nat \<times> nat \<times> nat \<times> Basic_edge \<Rightarrow> nat garc list" where
  "seen_from d w (k, u, v, x) =
     (if u = w then [(u, v, be_id x, be_cost x)] else []) @ (if \<not> d \<and> v = w then [(v, u, be_id x, be_cost x)] else [])"

lemma out_arcs:
  assumes "lg_ok h"
  shows "map (arc_of (list_bgl d) h) (lg_out_edges d h w) = concat (map (seen_from d w) (lg_edges h))"
proof -
  have "map (arc_of (list_bgl d) h) (outs d w e) = seen_from d w e" if "e \<in> set (lg_edges h)" for e
  proof -
    obtain k u v x where ex: "e = (k, u, v, x)" by (cases e)
    have "lg_edge h (k, p) = x" for p using lg_edge_stored[OF assms] that ex by blast
    then show ?thesis by (simp add: ex arc_of_def)
  qed
  then show ?thesis by (simp add: lg_out_edges_def map_concat comp_def cong: map_cong)
qed

lemma mset_concat: "mset (concat xss) = sum_list (map mset xss)"
  by (induction xss) simp_all

lemma sum_list_swap:
  fixes f :: "'a \<Rightarrow> 'b \<Rightarrow> 'c :: comm_monoid_add"
  shows "sum_list (map (\<lambda>x. sum_list (map (f x) ys)) xs) = sum_list (map (\<lambda>y. sum_list (map (\<lambda>x. f x y) xs)) ys)"
  by (induction xs) (simp_all add: sum_list_addf)

lemma sum_list_at:
  "u < n \<Longrightarrow> sum_list (map (\<lambda>w. if u = w then A else {#}) [0..<n]) = (A :: 'a multiset)"
proof -
  have "sum_list (map (\<lambda>w. if u = w then A else {#}) [0..<n]) = (if u < n then A else {#})"
    by (induction n) auto
  then show "u < n \<Longrightarrow> sum_list (map (\<lambda>w. if u = w then A else {#}) [0..<n]) = A" by simp
qed

fun edge_arcs :: "bool \<Rightarrow> nat \<times> nat \<times> nat \<times> Basic_edge \<Rightarrow> nat garc multiset" where
  "edge_arcs d (k, u, v, x) = ways d u v (be_id x) (be_cost x)"

lemma garcs_list:
  assumes "lg_ok h"
  shows "garcs (list_bgl d) h = sum_list (map (edge_arcs d) (lg_edges h))"
proof -
  let ?n = "length (lg_vertices h)"
  have one: "sum_list (map (\<lambda>w. mset (seen_from d w e)) [0..<?n]) = edge_arcs d e" if e: "e \<in> set (lg_edges h)" for e
  proof -
    obtain k u v x where ex: "e = (k, u, v, x)" by (cases e)
    have uv: "u < ?n" "v < ?n" using assms e unfolding ex lg_ok_def by auto
    let ?a = "{#(u, v, be_id x, be_cost x)#}" and ?b = "if d then {#} else {#(v, u, be_id x, be_cost x)#}"
    have "mset (seen_from d w e) = (if u = w then ?a else {#}) + (if v = w then ?b else {#})" for w
      by (simp add: ex)
    then have "sum_list (map (\<lambda>w. mset (seen_from d w e)) [0..<?n]) = ?a + ?b"
      by (simp only: sum_list_addf sum_list_at[OF uv(1)] sum_list_at[OF uv(2)])
    then show ?thesis by (simp add: ex ways_def)
  qed
  have "garcs (list_bgl d) h = sum_list (map (\<lambda>w. sum_list (map (\<lambda>e. mset (seen_from d w e)) (lg_edges h))) [0..<?n])"
    by (simp add: garcs_def out_arcs[OF assms] mset_concat comp_def)
  also have "\<dots> = sum_list (map (\<lambda>e. sum_list (map (\<lambda>w. mset (seen_from d w e)) [0..<?n])) (lg_edges h))"
    by (rule sum_list_swap)
  also have "\<dots> = sum_list (map (edge_arcs d) (lg_edges h))" using one by (simp cong: map_cong)
  finally show ?thesis .
qed

lemma garcs_lg_arcs: "lg_ok h \<Longrightarrow> garcs (list_bgl d) h = mset (lg_arcs d h)"
proof -
  have "mset (arc_list d e) = edge_arcs d e" for e by (cases e) (simp add: ways_def)
  then show "lg_ok h \<Longrightarrow> garcs (list_bgl d) h = mset (lg_arcs d h)"
    by (simp add: garcs_list lg_arcs_def mset_concat comp_def)
qed

section \<open>Its laws\<close>

lemma lg_okD:
  assumes "lg_ok h" "(k, u, v, x) \<in> set (lg_edges h)"
  shows "k < lg_next h" "u < length (lg_vertices h)" "v < length (lg_vertices h)"
  using assms unfolding lg_ok_def by auto

lemma out_edge_cases:
  assumes "e \<in> set (lg_out_edges d h w)"
  obtains k u v x where "(k, u, v, x) \<in> set (lg_edges h)" "fst e = k" "fst (snd e) = w"
    "u = w \<and> snd (snd e) = v \<or> \<not> d \<and> v = w \<and> snd (snd e) = u"
proof -
  obtain k u v x where "(k, u, v, x) \<in> set (lg_edges h)" "e \<in> set (outs d w (k, u, v, x))"
    using assms by (auto simp: lg_out_edges_def)
  then show thesis using that by (auto split: if_splits)
qed

lemma edge_ways_list:
  assumes "lg_ok h" "e \<in> set (lg_out_edges d h w)"
  shows "\<exists>k u v x. (k, u, v, x) \<in> set (lg_edges h) \<and> fst e = k \<and> edge_ways (list_bgl d) d h e = edge_arcs d (k, u, v, x) \<and>
    fst (snd e) = w \<and> snd (snd e) < length (lg_vertices h) \<and> (\<forall>i c. ways d w (snd (snd e)) i c = ways d u v i c)"
proof -
  obtain k u v x where e: "(k, u, v, x) \<in> set (lg_edges h)" "fst e = k" "fst (snd e) = w"
      "u = w \<and> snd (snd e) = v \<or> \<not> d \<and> v = w \<and> snd (snd e) = u"
    using out_edge_cases[OF assms(2)] .
  have x: "lg_edge h e = x" using lg_edge_stored[OF assms(1) e(1), of "snd e"] unfolding e(2)[symmetric] by simp
  have w: "ways d w (snd (snd e)) i c = ways d u v i c" for i c using e(4) by (auto simp: ways_def add_mset_commute)
  have "edge_ways (list_bgl d) d h e = edge_arcs d (k, u, v, x)" using e(3) w by (simp add: edge_ways_def x)
  moreover have "snd (snd e) < length (lg_vertices h)" using e(4) lg_okD[OF assms(1) e(1)] by blast
  ultimately show ?thesis using e(1-3) w by blast
qed

lemma sum_list_member: "x \<in> set xs \<Longrightarrow> f x \<subseteq># sum_list (map f xs)" for f :: "'a \<Rightarrow> 'b multiset"
  by (induction xs) (auto intro: subset_mset.add_increasing subset_mset.add_increasing2)

lemma keep_edges_ok:
  assumes "lg_ok h"
  shows "lg_ok (keep_edges P h)" "same_vertices (list_bgl d) h (keep_edges P h)"
    "garcs (list_bgl d) (keep_edges P h) = sum_list (map (edge_arcs d) (filter P (lg_edges h)))"
proof -
  show ok: "lg_ok (keep_edges P h)" using assms by (auto simp: lg_ok_def keep_edges_def distinct_map inj_on_def)
  show "same_vertices (list_bgl d) h (keep_edges P h)" by (simp add: same_vertices_def keep_edges_def lg_vertex_def)
  show "garcs (list_bgl d) (keep_edges P h) = sum_list (map (edge_arcs d) (filter P (lg_edges h)))"
    using garcs_list[OF ok] by (simp add: keep_edges_def)
qed

lemma filter_edge_arcs:
  assumes "\<And>e. e \<in> set es \<Longrightarrow> filter_mset Q (edge_arcs d e) = (if P e then edge_arcs d e else {#})"
  shows "filter_mset Q (sum_list (map (edge_arcs d) es)) = sum_list (map (edge_arcs d) (filter P es))"
  using assms by (induction es) auto

lemma set_edge_list:
  assumes h: "lg_ok h" and k: "(k, u, v, y) \<in> set (lg_edges h)"
  shows "lg_ok (lg_set_edge (k, p) x h)" "same_vertices (list_bgl d) h (lg_set_edge (k, p) x h)"
    "garcs (list_bgl d) (lg_set_edge (k, p) x h) = garcs (list_bgl d) h - edge_arcs d (k, u, v, y) + edge_arcs d (k, u, v, x)"
proof -
  obtain as bs where split: "lg_edges h = as @ (k, u, v, y) # bs" using split_list[OF k] by blast
  have others: "k \<notin> fst ` set as" "k \<notin> fst ` set bs" using h by (auto simp: lg_ok_def split)
  let ?f = "\<lambda>(k', u, v, y). (k', u, v, if k' = k then x else y)"
  have same: "map ?f cs = cs" if "k \<notin> fst ` set cs" for cs using that by (induction cs) auto
  have new: "lg_edges (lg_set_edge (k, p) x h) = as @ (k, u, v, x) # bs"
    using same[OF others(1)] same[OF others(2)] by (simp add: lg_set_edge_def split)
  show ok: "lg_ok (lg_set_edge (k, p) x h)"
    using h unfolding lg_ok_def new by (auto simp: split lg_set_edge_def)
  show "same_vertices (list_bgl d) h (lg_set_edge (k, p) x h)" by (simp add: same_vertices_def lg_set_edge_def lg_vertex_def)
  show "garcs (list_bgl d) (lg_set_edge (k, p) x h) = garcs (list_bgl d) h - edge_arcs d (k, u, v, y) + edge_arcs d (k, u, v, x)"
    unfolding garcs_list[OF ok] garcs_list[OF h] new split by simp
qed

text \<open>The laws of the container, one by one.\<close>

lemma list_make: "make_law (list_bgl d) d lg_ok"
  by (simp add: make_law_def lg_ok_def garcs_list)

lemma list_add_vertex: "add_vertex_ok (list_bgl d) d lg_ok"
proof -
  have "lg_ok (h\<lparr>lg_vertices := lg_vertices h @ [y]\<rparr>)" if "lg_ok h" for h y
    using that unfolding lg_ok_def by (auto intro: less_SucI)
  then show ?thesis by (auto simp: add_vertex_ok_def garcs_list lg_vertex_def nth_append)
qed

lemma list_set_vertex: "set_vertex_ok (list_bgl d) d lg_ok"
proof -
  have "lg_ok (h\<lparr>lg_vertices := (lg_vertices h)[v := x]\<rparr>)" if "lg_ok h" for h v x
    using that unfolding lg_ok_def by auto
  then show ?thesis by (auto simp: set_vertex_ok_def garcs_list lg_vertex_def)
qed

lemma list_out_edges: "out_edges_ok (list_bgl d) d lg_ok"
  unfolding out_edges_ok_def
proof (intro allI impI)
  fix h w e assume h: "lg_ok h" and e: "e \<in> set (b_out_edges (list_bgl d) h w)"
  obtain k u v y where r: "(k, u, v, y) \<in> set (lg_edges h)" "fst e = k" "edge_ways (list_bgl d) d h e = edge_arcs d (k, u, v, y)"
      "fst (snd e) = w" "snd (snd e) < length (lg_vertices h)" "\<forall>i c. ways d w (snd (snd e)) i c = ways d u v i c"
    using edge_ways_list[OF h e[unfolded list_bgl_simps]] by blast
  show "b_source (list_bgl d) h e = w \<and> b_target (list_bgl d) h e < b_num_vertices (list_bgl d) h \<and>
      edge_ways (list_bgl d) d h e \<subseteq># garcs (list_bgl d) h"
    using r(3-5) sum_list_member[OF r(1), of "edge_arcs d"] by (simp add: garcs_list[OF h])
qed

lemma list_in_edges: "in_edges_ok (list_bgl d) d lg_ok"
  unfolding in_edges_ok_def
proof (intro allI impI)
  fix h v assume h: "lg_ok h" and d: d
  have one: "mset (map (arc_of (list_bgl d) h) (ins d v e)) = filter_mset (\<lambda>a. fst (snd a) = v) (edge_arcs d e)"
    if e: "e \<in> set (lg_edges h)" for e
  proof -
    obtain k u w x where ex: "e = (k, u, w, x)" by (cases e)
    have "lg_edge h (k, p) = x" for p using lg_edge_stored[OF h] e ex by blast
    then show ?thesis using d by (simp add: ex arc_of_def ways_def)
  qed
  have "mset (map (arc_of (list_bgl d) h) (concat (map (ins d v) es))) =
      filter_mset (\<lambda>a. fst (snd a) = v) (sum_list (map (edge_arcs d) es))" if "set es \<subseteq> set (lg_edges h)" for es
    using that
  proof (induction es)
    case (Cons e es)
    then show ?case using one[of e] by (simp del: edge_arcs.simps ins.simps)
  qed simp
  from this[OF subset_refl] show "mset (map (arc_of (list_bgl d) h) (b_in_edges (list_bgl d) h v)) =
      filter_mset (\<lambda>a. fst (snd a) = v) (garcs (list_bgl d) h)"
    by (simp only: garcs_list[OF h] list_bgl_simps)
qed

lemma list_symmetric: "symmetric_ok (list_bgl d) d lg_ok"
proof -
  have one: "image_mset swap_arc (edge_arcs False e) = edge_arcs False e" for e by (cases e) (simp add: ways_def add_mset_commute)
  have "image_mset swap_arc (sum_list (map (edge_arcs False) es)) = sum_list (map (edge_arcs False) es)" for es
    by (induction es) (simp_all add: one del: edge_arcs.simps)
  then show ?thesis by (cases d) (simp_all add: symmetric_ok_def garcs_list)
qed

lemma find_cases: "case find P xs of Some x \<Rightarrow> x \<in> set xs \<and> P x | None \<Rightarrow> \<forall>x \<in> set xs. \<not> P x"
  by (induction xs) (auto split: option.splits)

lemma list_find_edge: "find_edge_ok (list_bgl d) d lg_ok"
  unfolding find_edge_ok_def list_bgl_simps lg_find_edge_def by (intro allI impI find_cases)

lemma list_add_edge: "add_edge_ok (list_bgl d) d lg_ok"
  unfolding add_edge_ok_def
proof (intro allI impI)
  fix h u v e h' x
  assume h: "lg_ok h" and uv: "u < b_num_vertices (list_bgl d) h" "v < b_num_vertices (list_bgl d) h"
    and add: "b_add_edge (list_bgl d) u v h = (e, h')"
  let ?k = "lg_next h"
  have h': "h' = h\<lparr>lg_edges := lg_edges h @ [(?k, u, v, no_edge)], lg_next := ?k + 1\<rparr>" "e = (?k, u, v)"
    using add by simp_all
  have "?k \<notin> fst ` set (lg_edges h)" using lg_okD(1)[OF h] by fastforce
  then have ok: "lg_ok h'" using h uv unfolding h' lg_ok_def by (auto intro: less_SucI)
  have new: "(?k, u, v, no_edge) \<in> set (lg_edges h')" by (simp add: h')
  have arcs: "garcs (list_bgl d) h' = garcs (list_bgl d) h + edge_arcs d (?k, u, v, no_edge)"
    unfolding garcs_list[OF ok] garcs_list[OF h] by (simp add: h')
  have "same_vertices (list_bgl d) h h'" by (simp add: same_vertices_def h' lg_vertex_def)
  then show "lg_ok (b_set_edge (list_bgl d) e x h') \<and> same_vertices (list_bgl d) h (b_set_edge (list_bgl d) e x h') \<and>
      garcs (list_bgl d) (b_set_edge (list_bgl d) e x h') = garcs (list_bgl d) h + ways d u v (be_id x) (be_cost x)"
    using set_edge_list[OF ok new, where p = "(u, v)" and x = x] arcs h'(2) by (simp add: same_vertices_def)
qed

lemma list_set_edge: "set_edge_ok (list_bgl d) d lg_ok"
  unfolding set_edge_ok_def
proof (intro allI impI)
  fix h w e x assume h: "lg_ok h" and e: "e \<in> set (b_out_edges (list_bgl d) h w)"
  obtain k u v y where r: "(k, u, v, y) \<in> set (lg_edges h)" "fst e = k" "edge_ways (list_bgl d) d h e = edge_arcs d (k, u, v, y)"
      "fst (snd e) = w" "snd (snd e) < length (lg_vertices h)" "\<forall>i c. ways d w (snd (snd e)) i c = ways d u v i c"
    using edge_ways_list[OF h e[unfolded list_bgl_simps]] by blast
  have "e = (k, snd e)" using r(2) by (cases e) simp
  then show "lg_ok (b_set_edge (list_bgl d) e x h) \<and> same_vertices (list_bgl d) h (b_set_edge (list_bgl d) e x h) \<and>
      garcs (list_bgl d) (b_set_edge (list_bgl d) e x h) =
        garcs (list_bgl d) h - edge_ways (list_bgl d) d h e + ways d w (b_target (list_bgl d) h e) (be_id x) (be_cost x)"
    using set_edge_list[OF h r(1), where p = "snd e" and x = x] r(3,6) by simp
qed

lemma list_remove_edges: "remove_edges_ok (list_bgl d) d lg_ok"
  unfolding remove_edges_ok_def
proof (intro allI impI)
  fix h and u v :: nat assume h: "lg_ok h"
  let ?P = "\<lambda>(k, a, b, x). \<not> (a = u \<and> b = v \<or> \<not> d \<and> a = v \<and> b = u)"
  have "filter_mset (\<lambda>a. \<not> (from_to u v a \<or> \<not> d \<and> from_to v u a)) (edge_arcs d e) = (if ?P e then edge_arcs d e else {#})" for e
    by (cases e; cases d) (simp_all add: ways_def from_to_def conj_commute)
  then show "lg_ok (b_remove_edges (list_bgl d) u v h) \<and> same_vertices (list_bgl d) h (b_remove_edges (list_bgl d) u v h) \<and>
      garcs (list_bgl d) (b_remove_edges (list_bgl d) u v h) =
        filter_mset (\<lambda>a. \<not> (from_to u v a \<or> \<not> d \<and> from_to v u a)) (garcs (list_bgl d) h)"
    using keep_edges_ok[OF h, where P = ?P] by (simp add: garcs_list[OF h] filter_edge_arcs[where P = ?P] del: edge_arcs.simps)
qed

lemma list_clear_vertex: "clear_vertex_ok (list_bgl d) d lg_ok"
  unfolding clear_vertex_ok_def
proof (intro allI impI)
  fix h and v :: nat assume h: "lg_ok h"
  let ?P = "\<lambda>(k, a, b, x). a \<noteq> v \<and> b \<noteq> v"
  have "filter_mset (\<lambda>a. \<not> touches v a) (edge_arcs d e) = (if ?P e then edge_arcs d e else {#})" for e
    by (cases e) (auto simp: ways_def touches_def)
  then show "lg_ok (b_clear_vertex (list_bgl d) v h) \<and> same_vertices (list_bgl d) h (b_clear_vertex (list_bgl d) v h) \<and>
      garcs (list_bgl d) (b_clear_vertex (list_bgl d) v h) = filter_mset (\<lambda>a. \<not> touches v a) (garcs (list_bgl d) h)"
    using keep_edges_ok[OF h, where P = ?P] by (simp add: garcs_list[OF h] filter_edge_arcs[where P = ?P] del: edge_arcs.simps)
qed

lemma list_remove_edge: "remove_edge_ok (list_bgl d) d lg_ok"
  unfolding remove_edge_ok_def
proof (intro allI impI)
  fix h w e assume h: "lg_ok h" and e: "e \<in> set (b_out_edges (list_bgl d) h w)"
  obtain k u v y where r: "(k, u, v, y) \<in> set (lg_edges h)" "fst e = k" "edge_ways (list_bgl d) d h e = edge_arcs d (k, u, v, y)"
      "fst (snd e) = w" "snd (snd e) < length (lg_vertices h)" "\<forall>i c. ways d w (snd (snd e)) i c = ways d u v i c"
    using edge_ways_list[OF h e[unfolded list_bgl_simps]] by blast
  obtain as bs where split: "lg_edges h = as @ (k, u, v, y) # bs" using split_list[OF r(1)] by blast
  have "k \<notin> fst ` set as" "k \<notin> fst ` set bs" using h by (auto simp: lg_ok_def split)
  then have "filter (\<lambda>(k', a, b, x). k' \<noteq> k) as = as" "filter (\<lambda>(k', a, b, x). k' \<noteq> k) bs = bs"
    by (force simp: filter_id_conv)+
  then have "filter (\<lambda>(k', a, b, x). k' \<noteq> k) (lg_edges h) = as @ bs" by (simp add: split)
  then show "lg_ok (b_remove_edge (list_bgl d) e h) \<and> same_vertices (list_bgl d) h (b_remove_edge (list_bgl d) e h) \<and>
      garcs (list_bgl d) (b_remove_edge (list_bgl d) e h) = garcs (list_bgl d) h - edge_ways (list_bgl d) d h e"
    using keep_edges_ok[OF h, where P = "\<lambda>(k', a, b, x). k' \<noteq> k"] r(2,3) by (simp add: garcs_list[OF h] split)
qed

lemma list_bgl_adjacency: "adjacency_list (list_bgl d) d lg_ok"
  unfolding adjacency_list_def
  by (intro conjI list_make list_add_vertex list_set_vertex list_out_edges list_in_edges list_symmetric list_find_edge
      list_add_edge list_set_edge list_remove_edges list_remove_edge list_clear_vertex)

end
