(* ===== verification/List_searches.thy ===== *)
theory List_searches
  imports List_graphs
begin

text \<open>The search over the list graph: each round adds the nearest vertex behind the frontier.\<close>

section \<open>The state of the search\<close>

definition search_inv :: "nat garc list \<Rightarrow> nat \<Rightarrow> nat \<Rightarrow> nat list \<Rightarrow> nat list \<Rightarrow> double list \<Rightarrow> bool" where
  "search_inv as n s us ps ds \<longleftrightarrow>
     (length ps = n \<and> length ds = n \<and> distinct us \<and> set us \<subseteq> {..<n} \<and> (\<forall>v < n. v \<notin> set us \<longrightarrow> ps ! v = v)) \<and>
     tree_law (mset as) s us ps ds \<and> (\<forall>u \<in> set us. cost_ok (ds ! u)) \<and> sorted_wrt (\<lambda>u v. ds ! u \<le> ds ! v) us \<and>
     (\<forall>a \<in> set as. fst a \<in> set us \<longrightarrow> fst (snd a) \<in> set us \<longrightarrow> ds ! fst (snd a) \<le> reach ds a) \<and>
     (\<forall>a \<in> set (frontier us as). \<forall>u \<in> set us. ds ! u \<le> reach ds a)"

definition good_arcs :: "nat garc list \<Rightarrow> nat \<Rightarrow> bool" where
  "good_arcs as n \<longleftrightarrow> (\<forall>a \<in> set as. cost_ok (garc_cost a) \<and> fst a < n \<and> fst (snd a) < n)"

lemma search_invD:
  assumes "search_inv as n s us ps ds"
  shows "length ps = n" "length ds = n" "distinct us" "set us \<subseteq> {..<n}" "\<forall>v < n. v \<notin> set us \<longrightarrow> ps ! v = v"
    "tree_law (mset as) s us ps ds" "\<forall>u \<in> set us. cost_ok (ds ! u)" "sorted_wrt (\<lambda>u v. ds ! u \<le> ds ! v) us"
    "\<forall>a \<in> set as. fst a \<in> set us \<longrightarrow> fst (snd a) \<in> set us \<longrightarrow> ds ! fst (snd a) \<le> reach ds a"
    "\<forall>a \<in> set (frontier us as). \<forall>u \<in> set us. ds ! u \<le> reach ds a"
  using assms unfolding search_inv_def by blast+

lemma cost_ok_real: "cost_ok a \<Longrightarrow> cost_ok b \<Longrightarrow> a \<le> b \<longleftrightarrow> finite_part a \<le> finite_part b"
  by (auto simp: cost_ok_def)

lemma cost_ok_refl: "cost_ok a \<Longrightarrow> a \<le> a"
  by (auto simp: cost_ok_def)

lemma cost_ok_more: "cost_ok a \<Longrightarrow> cost_ok c \<Longrightarrow> a \<le> a + c"
  by (auto simp: cost_ok_def)

lemma in_frontier: "a \<in> set (frontier us as) \<longleftrightarrow> a \<in> set as \<and> fst a \<in> set us \<and> fst (snd a) \<notin> set us"
  by (simp add: frontier_def)

lemma nearest:
  assumes J: "search_inv as n s us ps ds" and as: "good_arcs as n" and f: "frontier us as \<noteq> []"
  defines "a \<equiv> arg_min_list (\<lambda>a. finite_part (reach ds a)) (frontier us as)"
  shows "a \<in> set (frontier us as)" "\<forall>b \<in> set (frontier us as). cost_ok (reach ds b) \<and> reach ds a \<le> reach ds b"
proof -
  show mem: "a \<in> set (frontier us as)" unfolding a_def by (rule arg_min_list_in[OF f])
  have ok: "cost_ok (reach ds b)" if "b \<in> set (frontier us as)" for b
    using that search_invD(7)[OF J] as by (auto simp: in_frontier reach_def good_arcs_def intro: cost_ok_add)
  have "finite_part (reach ds a) \<le> finite_part (reach ds b)" if "b \<in> set (frontier us as)" for b
    using f_arg_min_list_f[OF f, of "\<lambda>a. finite_part (reach ds a)"] that unfolding a_def by simp
  then show "\<forall>b \<in> set (frontier us as). cost_ok (reach ds b) \<and> reach ds a \<le> reach ds b"
    using ok cost_ok_real[OF ok[OF mem]] by blast
qed

lemma tree_law_snoc:
  assumes T: "tree_law A s us ps ds" and us: "set us \<subseteq> {..<n}" "length ps = n" "length ds = n"
    and v: "v \<notin> set us" "v < n" and a: "(u, v, i, c) \<in># A" "u \<in> set us"
  shows "tree_law A s (us @ [v]) (ps[v := u]) (ds[v := ds ! u + c])"
  unfolding tree_law_def
proof (intro conjI allI impI)
  note t = T[unfolded tree_law_def]
  have ne: "w \<noteq> v" if "w \<in> set us" for w using that v(1) by blast
  have root: "us \<noteq> []" "hd us = s" "ps ! s = s" "ds ! s = 0" using t by blast+
  have s: "s \<in> set us" using root(1,2) hd_in_set[of us] by simp
  show "us @ [v] \<noteq> []" "hd (us @ [v]) = s" using root(1,2) by simp_all
  show "ps[v := u] ! s = s" "ds[v := ds ! u + c] ! s = 0" using root(3,4) ne[OF s] by simp_all
  fix k assume k: "k < length (us @ [v])" "0 < k"
  let ?w = "(us @ [v]) ! k"
  have "ps[v := u] ! ?w \<in> set (take k (us @ [v])) \<and>
    (\<exists>i c'. (ps[v := u] ! ?w, ?w, i, c') \<in># A \<and> ds[v := ds ! u + c] ! ?w = ds[v := ds ! u + c] ! (ps[v := u] ! ?w) + c')"
  proof (cases "k < length us")
    case True
    have w: "?w = us ! k" "us ! k \<in> set us" "take k (us @ [v]) = take k us" using True by (simp_all add: nth_append)
    have step: "ps ! (us ! k) \<in> set (take k us)"
        "\<exists>i c. (ps ! (us ! k), us ! k, i, c) \<in># A \<and> ds ! (us ! k) = ds ! (ps ! (us ! k)) + c"
      using t k(2) True by blast+
    have "ps ! (us ! k) \<in> set us" using step(1) set_take_subset[of k us] by blast
    then show ?thesis using step ne[OF w(2)] ne[of "ps ! (us ! k)"] unfolding w(1,3) by simp
  next
    case False
    then have "?w = v" "take k (us @ [v]) = us" using k(1) by (simp_all add: nth_append)
    then show ?thesis using a v(2) us(2,3) ne[OF a(2)] by (intro conjI exI[of _ i] exI[of _ c]) simp_all
  qed
  then show "ps[v := u] ! ?w \<in> set (take k (us @ [v]))"
    "\<exists>i c'. (ps[v := u] ! ?w, ?w, i, c') \<in># A \<and> ds[v := ds ! u + c] ! ?w = ds[v := ds ! u + c] ! (ps[v := u] ! ?w) + c'"
    by blast+
qed

lemma search_step:
  assumes J: "search_inv as n s us ps ds" and as: "good_arcs as n" and f: "frontier us as \<noteq> []"
  defines "a \<equiv> arg_min_list (\<lambda>a. finite_part (reach ds a)) (frontier us as)"
  shows "search_inv as n s (us @ [fst (snd a)]) (ps[fst (snd a) := fst a]) (ds[fst (snd a) := reach ds a])"
    "fst (snd a) < n" "fst (snd a) \<notin> set us"
proof -
  note j = search_invD[OF J]
  note near = nearest[OF J as f, folded a_def]
  let ?v = "fst (snd a)" and ?ds = "ds[fst (snd a) := reach ds a]"
  have a: "a \<in> set as" "fst a \<in> set us" "?v \<notin> set us" using near(1) by (simp_all add: in_frontier)
  have v: "?v < n" "cost_ok (garc_cost a)" using as a(1) by (auto simp: good_arcs_def)
  show "?v < n" "?v \<notin> set us" using v a(3) by simp_all
  have old: "?ds ! u = ds ! u" if "u \<in> set us" for u using that a(3) by (metis nth_list_update_neq)
  have new: "?ds ! ?v = reach ds a" using v j(2) by simp
  have r_old: "reach ?ds b = reach ds b" if "fst b \<in> set us" for b using old[OF that] by (simp add: reach_def)
  have r_new: "reach ?ds b = reach ds a + garc_cost b" if "fst b = ?v" for b using new that by (simp add: reach_def)
  have rok: "cost_ok (reach ds a)" using near by blast
  have up: "reach ds a \<le> reach ds a + garc_cost b" if "b \<in> set as" for b
    using cost_ok_more[OF rok] as that by (auto simp: good_arcs_def)
  have least: "ds ! u \<le> reach ds a" if "u \<in> set us" for u using j(10) near(1) that by blast
  have tree: "tree_law (mset as) s (us @ [?v]) (ps[?v := fst a]) ?ds"
    unfolding reach_def garc_cost_def
    by (rule tree_law_snoc[OF j(6,4,1,2) a(3) v(1), where i = "fst (snd (snd a))"]) (use a in simp_all)
  have inner: "?ds ! fst (snd b) \<le> reach ?ds b" if b: "b \<in> set as" "fst b \<in> set (us @ [?v])" "fst (snd b) \<in> set (us @ [?v])" for b
  proof (cases "fst b \<in> set us")
    case True
    show ?thesis
    proof (cases "fst (snd b) \<in> set us")
      case t: True
      then show ?thesis using j(9) b(1) True old[OF t] r_old[OF True] by simp
    next
      case t: False
      then have "b \<in> set (frontier us as)" "fst (snd b) = ?v" using b True by (simp_all add: in_frontier)
      then show ?thesis using near(2) new r_old[OF True] by auto
    qed
  next
    case False
    then have bv: "fst b = ?v" using b(2) by simp
    have "?ds ! fst (snd b) \<le> reach ds a"
    proof (cases "fst (snd b) \<in> set us")
      case True
      then show ?thesis using old[OF True] least by simp
    next
      case False
      then show ?thesis using b(3) new cost_ok_refl[OF rok] by simp
    qed
    then show ?thesis using r_new[OF bv] up[OF b(1)] dbl_le_trans by metis
  qed
  have outer: "?ds ! u \<le> reach ?ds b" if b: "b \<in> set (frontier (us @ [?v]) as)" and u: "u \<in> set (us @ [?v])" for b u
  proof -
    have low: "?ds ! u \<le> reach ds a" using u old least new cost_ok_refl[OF rok] by auto
    show ?thesis
    proof (cases "fst b \<in> set us")
      case True
      then have "b \<in> set (frontier us as)" using b by (simp add: in_frontier)
      then show ?thesis using near(2) r_old[OF True] low dbl_le_trans by metis
    next
      case False
      then have "fst b = ?v" "b \<in> set as" using b by (simp_all add: in_frontier)
      then show ?thesis using r_new up low dbl_le_trans by metis
    qed
  qed
  have costs: "\<forall>u \<in> set (us @ [?v]). cost_ok (?ds ! u)" using j(7) old new rok by auto
  have sorted: "sorted_wrt (\<lambda>u v. ?ds ! u \<le> ?ds ! v) (us @ [?v])"
    using j(8) old new least by (auto simp: sorted_wrt_append intro: sorted_wrt_mono_rel[rotated])
  have "\<forall>w < n. w \<notin> set (us @ [?v]) \<longrightarrow> ps[?v := fst a] ! w = w" using j(5) by auto
  then show "search_inv as n s (us @ [?v]) (ps[?v := fst a]) ?ds"
    using j(1-4) a(3) v tree costs sorted inner outer unfolding search_inv_def by simp
qed

section \<open>The whole search\<close>

definition agree :: "nat set \<Rightarrow> search_state \<Rightarrow> search_state \<Rightarrow> bool" where
  "agree U s t \<longleftrightarrow> (\<forall>u \<in> U. fst s ! u = fst t ! u \<and> snd s ! u = snd t ! u)"

lemma agree_trans: "agree U s t \<Longrightarrow> agree V t r \<Longrightarrow> U \<subseteq> V \<Longrightarrow> agree U s r"
  unfolding agree_def by (metis subsetD)

lemma full_frontier:
  assumes J: "search_inv as n s us ps ds" and as: "good_arcs as n" and n: "n \<le> length us"
  shows "frontier us as = []"
proof -
  note j = search_invD[OF J]
  have "card (set us) = length us" using distinct_card[OF j(3)] .
  then have "set us = {..<n}" using card_subset_eq[OF _ j(4)] card_mono[OF _ j(4)] n by simp
  then show ?thesis using as by (auto simp: frontier_def filter_empty_conv good_arcs_def)
qed

lemma search_loop_ok:
  assumes "search_inv as n s us (fst st) (snd st)" "good_arcs as n" "n \<le> length us + m" "search_loop m as us st = (ev, fin)"
  shows "search_inv as n s (us @ map fst ev) (fst fin) (snd fin) \<and> frontier (us @ map fst ev) as = [] \<and> agree (set us) st fin \<and>
    (\<forall>k < length ev. length (fst (snd (ev ! k))) = n \<and> length (snd (snd (ev ! k))) = n \<and>
       agree (set us \<union> set (take (Suc k) (map fst ev))) (snd (ev ! k)) fin)"
  using assms(1,3,4)
proof (induction m arbitrary: us st ev)
  case 0
  then show ?case using full_frontier[OF 0(1) assms(2)] by (simp add: agree_def)
next
  case (Suc m)
  show ?case
  proof (cases "frontier us as = []")
    case True
    then show ?thesis using Suc.prems by (auto simp: agree_def)
  next
    case False
    let ?a = "arg_min_list (\<lambda>a. finite_part (reach (snd st) a)) (frontier us as)"
    let ?v = "fst (snd ?a)"
    let ?st = "((fst st)[?v := fst ?a], (snd st)[?v := reach (snd st) ?a])"
    note step = search_step[OF Suc.prems(1) assms(2) False]
    obtain ev' where ev: "search_loop m as (us @ [?v]) ?st = (ev', fin)" "ev = (?v, ?st) # ev'"
      using Suc.prems(3) False by (auto simp: Let_def split: prod.splits)
    have J: "search_inv as n s (us @ [?v]) (fst ?st) (snd ?st)" using step(1) by simp
    have len: "n \<le> length (us @ [?v]) + m" using Suc.prems(2) by simp
    note IH = Suc.IH[OF J len ev(1)]
    have old: "agree (set us) st ?st"
      using step(3) unfolding agree_def by (metis fst_conv snd_conv nth_list_update_neq)
    have all: "us @ map fst ev = (us @ [?v]) @ map fst ev'" by (simp add: ev(2))
    have later: "length (fst (snd (ev ! k))) = n \<and> length (snd (snd (ev ! k))) = n \<and>
        agree (set us \<union> set (take (Suc k) (map fst ev))) (snd (ev ! k)) fin" if k: "k < length ev" for k
    proof (cases k)
      case 0
      then show ?thesis using IH search_invD(1,2)[OF J] by (simp add: ev(2))
    next
      case (Suc j)
      then have j: "j < length ev'" using k by (simp add: ev(2))
      have "set us \<union> set (take (Suc k) (map fst ev)) = set (us @ [?v]) \<union> set (take (Suc j) (map fst ev'))"
        using Suc by (auto simp: ev(2))
      then show ?thesis using IH j Suc by (simp add: ev(2))
    qed
    have "agree (set (us @ [?v])) ?st fin" using IH by blast
    then have "agree (set us) st fin" by (rule agree_trans[OF old]) auto
    then show ?thesis unfolding all using IH later by blast
  qed
qed

lemma start_inv:
  assumes "s < n" "good_arcs as n"
  shows "search_inv as n s [s] [0..<n] ((replicate n PInf)[s := 0])"
proof -
  let ?ds = "(replicate n PInf)[s := 0]"
  have "0 \<le> reach ?ds a" if "a \<in> set as" "fst a = s" for a
    using that assms cost_ok_more[of 0 "garc_cost a"] by (auto simp: reach_def good_arcs_def)
  then show ?thesis using assms(1) by (auto simp: search_inv_def tree_law_def in_frontier)
qed

lemma good_lg_arcs:
  assumes "lg_ok h" "arcs_ok (garcs (list_bgl d) h)"
  shows "good_arcs (lg_arcs d h) (length (lg_vertices h))"
proof -
  have "cost_ok (garc_cost a)" if "a \<in> set (lg_arcs d h)" for a
    using that assms by (simp add: arcs_ok_def garcs_lg_arcs)
  moreover have "fst a < length (lg_vertices h) \<and> fst (snd a) < length (lg_vertices h)" if "a \<in> set (lg_arcs d h)" for a
    using that garc_ends[OF list_bgl_adjacency assms(1), of a d] by (simp add: garcs_lg_arcs[OF assms(1)])
  ultimately show ?thesis by (simp add: good_arcs_def)
qed

lemma settled_Cons:
  assumes "agree {s} s0 fin" "length (fst s0) = length (fst fin)" "length (snd s0) = length (snd fin)"
    and "\<forall>k < length ev. length (fst (snd (ev ! k))) = length (fst fin) \<and> length (snd (snd (ev ! k))) = length (snd fin) \<and>
       agree ({s} \<union> set (take (Suc k) (map fst ev))) (snd (ev ! k)) fin"
  shows "settled_law ((s, s0) # ev) (fst fin) (snd fin)"
  unfolding settled_law_def
proof (intro allI impI)
  fix k assume k: "k < length ((s, s0) # ev)"
  show "case ((s, s0) # ev) ! k of (_, pk, dk) \<Rightarrow> length pk = length (fst fin) \<and> length dk = length (snd fin) \<and>
      (\<forall>j \<le> k. pk ! fst (((s, s0) # ev) ! j) = fst fin ! fst (((s, s0) # ev) ! j) \<and>
                dk ! fst (((s, s0) # ev) ! j) = snd fin ! fst (((s, s0) # ev) ! j))"
  proof (cases k)
    case 0
    then show ?thesis using assms(1-3) by (cases s0) (simp add: agree_def)
  next
    case (Suc i)
    then have i: "i < length ev" using k by simp
    have mem: "fst (((s, s0) # ev) ! j) \<in> {s} \<union> set (take (Suc i) (map fst ev))" if "j \<le> k" for j
    proof (cases j)
      case (Suc l)
      then have "l < Suc i" "l < length ev" using that i \<open>k = Suc i\<close> by simp_all
      then have "map fst ev ! l \<in> set (take (Suc i) (map fst ev))" by (metis in_set_conv_nth length_map length_take min_less_iff_conj nth_take)
      then show ?thesis using Suc \<open>l < length ev\<close> by simp
    qed simp
    have at_i: "length (fst (snd (ev ! i))) = length (fst fin)" "length (snd (snd (ev ! i))) = length (snd fin)"
        "agree ({s} \<union> set (take (Suc i) (map fst ev))) (snd (ev ! i)) fin"
      using assms(4) i by blast+
    obtain v pk dk where e: "ev ! i = (v, pk, dk)" by (cases "ev ! i") auto
    have "pk ! u = fst fin ! u \<and> dk ! u = snd fin ! u" if "u \<in> {s} \<union> set (take (Suc i) (map fst ev))" for u
      using at_i(3) that by (auto simp: agree_def e)
    then show ?thesis using mem at_i(1,2) Suc by (simp add: e)
  qed
qed

theorem list_bgl_searches: "searches (list_bgl d) lg_ok"
  unfolding searches_def
proof (intro allI impI)
  fix h s assume h: "lg_ok h" and A: "arcs_ok (garcs (list_bgl d) h)" and s: "s < b_num_vertices (list_bgl d) h"
  let ?n = "length (lg_vertices h)" and ?as = "lg_arcs d h"
  let ?s0 = "([0..<?n], (replicate ?n PInf)[s := 0])"
  have sn: "s < ?n" using s by simp
  have good: "good_arcs ?as ?n" by (rule good_lg_arcs[OF h A])
  obtain ev fin where run: "search_loop ?n ?as [s] ?s0 = (ev, fin)" by (cases "search_loop ?n ?as [s] ?s0")
  have J: "search_inv ?as ?n s [s] (fst ?s0) (snd ?s0)" using start_inv[OF sn good] by simp
  let ?us = "s # map fst ev"
  have fin: "search_inv ?as ?n s ?us (fst fin) (snd fin)" "frontier ?us ?as = []" "agree {s} ?s0 fin"
      "\<forall>k < length ev. length (fst (snd (ev ! k))) = ?n \<and> length (snd (snd (ev ! k))) = ?n \<and>
        agree ({s} \<union> set (take (Suc k) (map fst ev))) (snd (ev ! k)) fin"
    using search_loop_ok[OF J good _ run] by auto
  note j = search_invD[OF fin(1)]
  have "closed_law (mset ?as) ?us (snd fin)"
    unfolding closed_law_def
  proof (intro ballI impI)
    fix a assume a: "a \<in># mset ?as" "fst a \<in> set ?us"
    have t: "fst (snd a) \<in> set ?us" using a fin(2) unfolding frontier_def filter_empty_conv by auto
    moreover have "snd fin ! fst (snd a) \<le> reach (snd fin) a" using j(9) a(2) t a(1)[unfolded set_mset_mset] by blast
    ultimately show "fst (snd a) \<in> set ?us \<and> snd fin ! fst (snd a) \<le> snd fin ! fst a + garc_cost a"
      by (simp add: reach_def)
  qed
  moreover have "settled_law ((s, ?s0) # ev) (fst fin) (snd fin)" by (rule settled_Cons[OF fin(3)]) (use fin(4) j(1,2) in simp_all)
  moreover have "b_dijkstra (list_bgl d) h s = ((s, ?s0) # ev, fin)" by (simp add: lg_dijkstra_def run Let_def)
  ultimately show "search_law (list_bgl d) h s"
    using j unfolding search_law_def by (cases fin) (simp add: garcs_lg_arcs[OF h] Let_def)
qed

end
