(* ===== verification/Via_routes.thy ===== *)
theory Via_routes
  imports Dijkstras With_points
begin

text \<open>
  Routes through via vertices: the rows of a route (\<open>src/cpp_common/to_postgres.cpp\<close>) and the drivers
  \<open>src/dijkstra/dijkstraVia_driver.cpp\<close> and \<open>src/withPoints/withPointsVia_driver.cpp\<close>.
\<close>

section \<open>The rows of a route\<close>

record Routes_t =
  route_id :: int
  path_id :: int
  path_seq :: int
  route_start_vid :: int
  route_end_vid :: int
  route_node :: int
  route_edge :: int
  route_cost :: double
  route_path_cost :: double
  route_agg_cost :: double

text \<open>\<open>get_path\<close>: the rows of one path and the cost of the route behind it.\<close>

fun route_path_rows :: "int \<Rightarrow> int \<Rightarrow> Path \<Rightarrow> int \<Rightarrow> Path_t list \<Rightarrow> double \<Rightarrow> Routes_t list \<times> double" where
  "route_path_rows route_no path_no p n [] total_cost = ([], total_cost)"
| "route_path_rows route_no path_no p n (e # es) total_cost =
     (let (rows, end_cost) = route_path_rows route_no path_no p (n + 1) es (total_cost + cost e) in
      (\<lparr>route_id = route_no, path_id = path_no, path_seq = n, route_start_vid = m_start_id p,
        route_end_vid = m_end_id p, route_node = node e, route_edge = edge e, route_cost = cost e,
        route_path_cost = agg_cost e, route_agg_cost = total_cost\<rparr> # rows, end_cost))"

fun route_rows :: "int \<Rightarrow> Path list \<Rightarrow> double \<Rightarrow> Routes_t list" where
  "route_rows path_no [] total_cost = []"
| "route_rows path_no (p # ps) total_cost =
     (let (rows, end_cost) = route_path_rows 1 path_no p 0 (path p) total_cost in
      rows @ route_rows (path_no + 1) ps end_cost)"

definition get_viaRoute :: "Path list \<Rightarrow> Routes_t list run" where
  "get_viaRoute paths =
     (let count = count_tuples paths in
      if count = 0 then Inr []
      else
        let rows = route_rows 1 (map recalculate_agg_cost paths) 0;
            tuples = rows[count - 1 := (rows ! (count - 1))\<lparr>route_edge := -2\<rparr>] in
        bindE (pgassert (count = length rows)) (\<lambda>_. Inr tuples))"

section \<open>The drivers\<close>

datatype via_answer =
    ViaRows "Routes_t list"
  | ViaNotice string
  | ViaError string
  | ViaPoints "points_error list"

definition via_catching :: "failure + via_answer \<Rightarrow> failure + via_answer" where
  "via_catching r =
     (case r of
        Inr ans \<Rightarrow> Inr ans
      | Inl e \<Rightarrow>
          (case (case e of Inl s \<Rightarrow> error_text s | Inr x \<Rightarrow> path_caught x) of
             Some text \<Rightarrow> Inr (ViaError text) | None \<Rightarrow> Inl e))"

definition via_of_rows ::
    "('g, 'e) bgl \<Rightarrow> Edge_t list \<Rightarrow> Edge_t list \<Rightarrow> int list \<Rightarrow> bool \<Rightarrow> bool \<Rightarrow> bool \<Rightarrow> bool \<Rightarrow> via_answer run" where
  "via_of_rows B edges new_edges via directed strict U_turn_on_edge details =
     bindE (insert_edges B edges True (Pgr_base_graph_empty B directed)) (\<lambda>g0.
     bindE (insert_edges B new_edges True g0) (\<lambda>g.
     bindE (dijkstraVia B g via [] strict U_turn_on_edge) (\<lambda>(paths, _).
     bindE (get_viaRoute (if \<not> details then map eliminate_details paths else paths)) (\<lambda>rows.
     Inr (ViaRows rows)))))"

definition do_dijkstraVia ::
    "('t, 'd, 'v, 'p) spi \<Rightarrow> ('g, 'e) bgl \<Rightarrow> string \<Rightarrow> 'v ArrayType option \<Rightarrow> bool \<Rightarrow> bool \<Rightarrow> bool \<Rightarrow> failure + via_answer" where
  "do_dijkstraVia spi B edges_sql viaArr directed strict U_turn_on_edge =
     via_catching
       (bindE (fetching (get_pgarray spi viaArr False)) (\<lambda>via.
        bindE (fetching (get_edges spi edges_sql True False)) (\<lambda>edges.
        if edges = [] then Inr (ViaNotice ''No edges found'')
        else running (via_of_rows B edges [] via directed strict U_turn_on_edge True))))"

definition do_withPointsVia ::
    "('t, 'd, 'v, 'p) spi \<Rightarrow> ('g, 'e) bgl \<Rightarrow> string \<Rightarrow> string \<Rightarrow> string \<Rightarrow> 'v ArrayType option \<Rightarrow> bool \<Rightarrow> char \<Rightarrow>
       bool \<Rightarrow> bool \<Rightarrow> bool \<Rightarrow> failure + via_answer" where
  "do_withPointsVia spi B edges_sql points_sql edges_of_points_sql viaArr directed driving_side details strict
       U_turn_on_edge =
     via_catching
       (bindE (fetching (get_pgarray spi viaArr False)) (\<lambda>via.
        bindE (fetching (get_points spi points_sql)) (\<lambda>points.
        bindE (fetching (get_edges spi edges_of_points_sql True False)) (\<lambda>edges_of_points.
        bindE (fetching (get_edges spi edges_sql True False)) (\<lambda>edges.
        if length edges + length edges_of_points = 0 then Inr (ViaNotice ''No edges found'')
        else
          running
            (bindE (Pg_points_graph_of points edges_of_points True driving_side directed) (\<lambda>pg_graph.
             if wp_error pg_graph \<noteq> [] then Inr (ViaPoints (wp_error pg_graph))
             else via_of_rows B edges (m_new_edges pg_graph) via directed strict U_turn_on_edge details)))))))"

end
