(* ===== verification/Shortest_paths.thy ===== *)
theory Shortest_paths
  imports Search_trees Rule_checks
begin

text \<open>
  The paths that \<open>dijkstra\<close> answers: for every pair of vertices a walk of least cost when there is one,
  and an empty path otherwise.
\<close>

section \<open>One path\<close>

text \<open>No walk is cheaper, and the rows walk over arcs.\<close>

definition cheapest :: "int garc multiset \<Rightarrow> Path \<Rightarrow> bool" where
  "cheapest A p \<longleftrightarrow> path_walks A p \<and>
     (\<forall>as. arc_walk A (m_start_id p) as (m_end_id p) \<longrightarrow> sum_list (map cost (path p)) \<le> arcs_cost as)"

definition reachable :: "int garc multiset \<Rightarrow> int \<Rightarrow> int \<Rightarrow> bool" where
  "reachable A s t \<longleftrightarrow> (\<exists>as. arc_walk A s as t)"

definition from_search :: "int garc multiset \<Rightarrow> int \<Rightarrow> int \<Rightarrow> Path \<Rightarrow> bool" where
  "from_search A s t p \<longleftrightarrow> m_start_id p = s \<and> m_end_id p = t \<and>
     (if s \<noteq> t \<and> reachable A s t then cheapest A p else path p = [])"

lemma arc_walk_ids:
  assumes L: "adjacency_list B d I" and g: "base_graph_ok B d I g"
    and u: "u < num_vertices B g" and w: "arc_walk (id_arcs B g) (vertex_id_of B g u) as t"
  shows "\<exists>bs v. v < num_vertices B g \<and> vertex_id_of B g v = t \<and> as = map (id_arc B g) bs \<and> arc_walk (garcs B (graph g)) u bs v"
  using u w
proof (induction as arbitrary: u)
  case Nil
  then show ?case by (intro exI[of _ "[]"] exI[of _ u]) simp
next
  case (Cons a as)
  obtain b where b: "b \<in># garcs B (graph g)" "a = id_arc B g b" using Cons.prems(2) by (auto simp: id_arcs_def)
  have ends: "fst b < num_vertices B g" "fst (snd b) < num_vertices B g"
    using garc_ends[OF L base_graph_okD(1)[OF g] b(1)] by (simp_all add: num_vertices_def)
  have "fst b = u" using Cons.prems(2) b(2) id_inj[OF g ends(1) Cons.prems(1)] by (simp add: id_arc_def)
  moreover have "arc_walk (id_arcs B g) (vertex_id_of B g (fst (snd b))) as t"
    using Cons.prems(2) b(2) by (simp add: id_arc_def)
  ultimately show ?case
    using Cons.IH[OF ends(2)] b by (metis arc_walk.simps(2) list.simps(9))
qed

lemma arcs_cost_id_arcs: "arcs_cost (map (id_arc B g) bs) = arcs_cost bs"
  by (induction bs) (simp_all add: garc_cost_def id_arc_def)

text \<open>Following arcs from the root never gets below the distance.\<close>

lemma distance_lower_bound:
  assumes A: "arcs_ok A" and C: "closed_law A us ds" and D: "\<forall>v \<in> set us. cost_ok (ds ! v)"
    and u: "u \<in> set us" and w: "arc_walk A u as v"
  shows "v \<in> set us \<and> ds ! v \<le> ds ! u + arcs_cost as"
  using u w
proof (induction as arbitrary: u)
  case Nil
  then show ?case using D by (auto simp: cost_ok_def)
next
  case (Cons a as)
  have a: "a \<in># A" "fst a = u" "arc_walk A (fst (snd a)) as v" using Cons.prems(2) by simp_all
  have n: "fst (snd a) \<in> set us" "ds ! fst (snd a) \<le> ds ! u + garc_cost a"
    using C a(1,2) Cons.prems(1) unfolding closed_law_def by blast+
  have IH: "v \<in> set us" "ds ! v \<le> ds ! fst (snd a) + arcs_cost as" using Cons.IH[OF n(1) a(3)] by blast+
  have ok: "cost_ok (ds ! u)" "cost_ok (ds ! fst (snd a))" "cost_ok (garc_cost a)" "cost_ok (arcs_cost as)"
    using D Cons.prems(1) n(1) A a(1) arcs_cost_ok[OF A a(3)] by (auto simp: arcs_ok_def)
  have "ds ! fst (snd a) + arcs_cost as \<le> (ds ! u + garc_cost a) + arcs_cost as"
    by (rule cost_ok_mono[OF ok(2) cost_ok_add[OF ok(1,3)] ok(4) n(2)])
  then show ?case using IH dbl_le_trans by (auto simp: plus_double_assoc)
qed

lemma complete_path_rows:
  assumes L: "adjacency_list B d I" and g: "base_graph_ok B d I g" and A: "arcs_ok (garcs B (graph g))"
    and t: "tree_on (garcs B (graph g)) (num_vertices B g) s vs ps ds" and v: "v \<in> set vs" "v \<noteq> s"
  shows "\<exists>p. Path_of_search B g s v ps ds False True = Inr p \<and> m_start_id p = vertex_id_of B g s \<and>
    m_end_id p = vertex_id_of B g v \<and> path_walks (id_arcs B g) p \<and> sum_list (map cost (path p)) = ds ! v"
proof -
  obtain k where k: "k < length vs" "vs ! k = v" using v(1) by (auto simp: in_set_conv_nth)
  have k0: "0 < k" using tree_on_nth(2)[OF t k(1)] k(2) v(2) by auto
  obtain j where j: "j < k" "ps ! v = vs ! j" using tree_on_nth(3)[OF t k(1) k0] k(2) by blast
  have ne: "v \<noteq> ps ! v"
    using t j k by (auto simp: tree_on_def nth_eq_iff_index_eq)
  have lens: "length ps = num_vertices B g" "length ds = num_vertices B g" "v < num_vertices B g"
    using t tree_on_nth(1)[OF t k(1)] k(2) by (simp_all add: tree_on_def)
  let ?last = "\<lparr>node = vertex_id_of B g v, edge = -1, cost = 0, agg_cost = ds ! v, pred = 0\<rparr>"
  let ?p = "push_front ?last (Path_raw B (vertex_id_of B g s) (vertex_id_of B g v))"
  have "length vs \<le> num_vertices B g"
    using t distinct_card[of vs] card_mono[of "{..<num_vertices B g}" "set vs"] by (simp add: tree_on_def)
  then have fuel: "k < length ps + 1" using k(1) lens(1) by simp
  have pp: "path ?p = [] @ [?last]" by (simp add: push_front_def Path_raw_def Path_of_def)
  obtain rs p where p: "complete_loop B g s (length ps + 1) v ps ds True ?p = Inr p" "path p = rs @ [?last]" "rs \<noteq> []"
      "m_start_id p = m_start_id ?p" "m_end_id p = m_end_id ?p"
      "arc_walk (id_arcs B g) (vertex_id_of B g s) (row_arcs_of rs (vertex_id_of B g v)) (vertex_id_of B g v)"
      "sum_list (map cost rs) = ds ! v"
    using complete_loop_rows[OF L g A t k(1) fuel pp, of "vertex_id_of B g v"] k(2) k0 by auto
  have ends: "m_start_id ?p = vertex_id_of B g s" "m_end_id ?p = vertex_id_of B g v"
    by (simp_all add: push_front_def Path_raw_def Path_of_def)
  have "Path_of_search B g s v ps ds False True = Inr p"
    using lens ne p(1) by (simp add: Path_of_search_def complete_path_def)
  moreover have "path_walks (id_arcs B g) p"
    unfolding path_walks_def using p(2,3,6) unfolding p(4,5) ends by (intro exI[of _ rs] exI[of _ ?last]) simp
  ultimately show ?thesis using p(2,4,5,7) ends by simp
qed

lemma no_path_rows:
  assumes "length ps = num_vertices B g" "v < num_vertices B g" "ps ! v = v"
  shows "Path_of_search B g s v ps ds only_cost True = Inr (Path_raw B (vertex_id_of B g s) (vertex_id_of B g v))"
  using assms by (simp add: Path_of_search_def complete_path_def Let_def)

section \<open>Stopping at the goals\<close>

lemma many_goals_found:
  assumes "ascending goals" "ascending found" "many_goals goals n found events = Some (found', st)"
  shows "\<exists>k < length events. st = snd (events ! k) \<and> ascending found' \<and>
    set found' = set found \<union> (set goals \<inter> set (map fst (take (Suc k) events)))"
  using assms
proof (induction goals n found events rule: many_goals.induct)
  case (2 goals n found u s events)
  show ?case
  proof (cases "u \<in> set goals")
    case False
    then obtain k where "k < length events" "st = snd (events ! k)" "ascending found'"
        "set found' = set found \<union> (set goals \<inter> set (map fst (take (Suc k) events)))"
      using "2.IH"(1)[OF False "2.prems"(1,2)] "2.prems"(3) by auto
    then show ?thesis using False by (intro exI[of _ "Suc k"]) auto
  next
    case True
    let ?f = "set_insert u found" and ?g = "set_erase u goals"
    have asc: "ascending ?g" "ascending ?f" using "2.prems"(1,2) by (simp_all add: ascending_set_erase ascending_set_insert)
    show ?thesis
    proof (cases "?g = [] \<or> decrement n = 0")
      case stop: True
      then have "Some (?f, s) = Some (found', st)" using "2.prems"(3) True by (auto simp: Let_def split: if_splits)
      then have "found' = ?f" "st = s" by simp_all
      then show ?thesis using True asc by (intro exI[of _ 0]) auto
    next
      case False
      then have "many_goals ?g (decrement n) ?f events = Some (found', st)" using "2.prems"(3) True by (simp add: Let_def)
      then obtain k where "k < length events" "st = snd (events ! k)" "ascending found'"
          "set found' = set ?f \<union> (set ?g \<inter> set (map fst (take (Suc k) events)))"
        using "2.IH"(2)[of ?f ?g "decrement n"] False True asc by auto
      then show ?thesis using True set_set_erase[OF "2.prems"(1), of u] by (intro exI[of _ "Suc k"]) auto
    qed
  qed
qed simp

lemma many_goals_keeps: "many_goals goals n found events = Some (found', st) \<Longrightarrow> set found \<subseteq> set found'"
  by (induction goals n found events rule: many_goals.induct) (auto simp: Let_def split: if_splits)

text \<open>With more goals allowed than there are, the search stops when it has found all.\<close>

lemma many_goals_all:
  assumes "ascending goals" "length goals < n" "many_goals goals n found events = Some (found', st)"
  shows "set goals \<subseteq> set found'"
  using assms
proof (induction goals n found events rule: many_goals.induct)
  case (2 goals n found u s events)
  show ?case
  proof (cases "u \<in> set goals")
    case False
    then show ?thesis using "2.IH"(1)[OF False "2.prems"(1,2)] "2.prems"(3) by simp
  next
    case True
    let ?f = "set_insert u found" and ?g = "set_erase u goals"
    have g: "set ?g = set goals - {u}" "ascending ?g" using "2.prems"(1) by (simp_all add: set_set_erase ascending_set_erase)
    have "length ?g = length goals - 1"
      using distinct_card[OF ascending_distinct[OF g(2)]] distinct_card[OF ascending_distinct[OF "2.prems"(1)]] g(1) True by simp
    moreover have "0 < length goals" using True by (cases goals) auto
    ultimately have len: "length ?g < n - 1" "n \<noteq> 0" using "2.prems"(2) by arith+
    have n: "decrement n = n - 1" using len(2) by (simp add: decrement_def)
    show ?thesis
    proof (cases "?g = []")
      case stop: True
      then have "Some (?f, s) = Some (found', st)" using "2.prems"(3) True by (simp add: Let_def)
      then show ?thesis using stop g(1) by auto
    next
      case False
      then have n0: "decrement n \<noteq> 0" using n len by simp
      then have m: "many_goals ?g (decrement n) ?f events = Some (found', st)" using "2.prems"(3) True False by (simp add: Let_def)
      have "set ?g \<subseteq> set found'" using "2.IH"(2)[of ?f ?g "decrement n"] True False n0 n len g(2) m by simp
      moreover have "u \<in> set found'" using many_goals_keeps[OF m] by auto
      ultimately show ?thesis using g(1) by auto
    qed
  qed
qed simp

section \<open>The state the search leaves\<close>

lemma tree_law_take:
  assumes "tree_law A s us ps ds" "0 < k" "\<forall>v \<in> set (take k us). ps' ! v = ps ! v \<and> ds' ! v = ds ! v"
  shows "tree_law A s (take k us) ps' ds'"
  unfolding tree_law_def
proof (intro conjI allI impI)
  note t = assms(1)[unfolded tree_law_def]
  show ne: "take k us \<noteq> []" and hd: "hd (take k us) = s" using t assms(2) by auto
  have "s \<in> set (take k us)" using hd ne hd_in_set by metis
  then show "ps' ! s = s" "ds' ! s = 0" using t assms(3) by auto
  fix j assume j: "j < length (take k us)" "0 < j"
  then have jk: "j < k" "j < length us" by simp_all
  have nth: "take k us ! j = us ! j" "take j (take k us) = take j us" using jk by (simp_all add: min_def)
  have mem: "us ! j \<in> set (take k us)" using nth_mem[OF j(1)] nth(1) by simp
  have step: "ps ! (us ! j) \<in> set (take j us)"
      "\<exists>i c. (ps ! (us ! j), us ! j, i, c) \<in># A \<and> ds ! (us ! j) = ds ! (ps ! (us ! j)) + c"
    using t j(2) jk(2) by blast+
  have "set (take j us) \<subseteq> set (take k us)" using jk(1) by (intro set_take_subset_set_take) simp
  then have parent: "ps ! (us ! j) \<in> set (take k us)" using step(1) by blast
  have same: "ps' ! (us ! j) = ps ! (us ! j)" "ds' ! (us ! j) = ds ! (us ! j)" "ds' ! (ps ! (us ! j)) = ds ! (ps ! (us ! j))"
    using assms(3) mem parent by blast+
  show "ps' ! (take k us ! j) \<in> set (take j (take k us))"
    "\<exists>i c. (ps' ! (take k us ! j), take k us ! j, i, c) \<in># A \<and> ds' ! (take k us ! j) = ds' ! (ps' ! (take k us ! j)) + c"
    using step unfolding nth same by blast+
qed

lemma reset_nth:
  "length (foldl (\<lambda>ps g. if g \<notin> F then ps[g := g] else ps) ps gs) = length ps"
  "v < length ps \<Longrightarrow> foldl (\<lambda>ps g. if g \<notin> F then ps[g := g] else ps) ps gs ! v = (if v \<in> set gs \<and> v \<notin> F then v else ps ! v)"
proof -
  show "length (foldl (\<lambda>ps g. if g \<notin> F then ps[g := g] else ps) ps gs) = length ps"
    by (induction gs arbitrary: ps) auto
  show "foldl (\<lambda>ps g. if g \<notin> F then ps[g := g] else ps) ps gs ! v = (if v \<in> set gs \<and> v \<notin> F then v else ps ! v)"
    if "v < length ps"
    using that
  proof (induction gs arbitrary: ps)
    case (Cons a gs)
    show ?case using Cons.IH[of ps] Cons.IH[of "ps[a := a]"] Cons.prems by (cases "v = a") simp_all
  qed simp
qed

lemma dijkstra_1_to_many_tree:
  assumes S: "search_law B h s" and D: "ascending dests" "set dests \<subseteq> {..<b_num_vertices B h}"
    and b: "b_dijkstra B h s = (events, ps, ds)"
  shows "\<exists>ps' ds' k. dijkstra_1_to_many B h s dests m = (ps', ds') \<and>
    tree_on (garcs B h) (b_num_vertices B h) s (take k (map fst events)) ps' ds' \<and>
    (\<forall>v \<in> set (take k (map fst events)). ds' ! v = ds ! v) \<and>
    (\<forall>t \<in> set dests. t \<notin> set (take k (map fst events)) \<longrightarrow> ps' ! t = t) \<and>
    (length dests < m \<longrightarrow> set dests \<inter> set (map fst events) \<subseteq> set (take k (map fst events)))"
proof -
  let ?us = "map fst events" and ?n = "b_num_vertices B h"
  have law: "length ps = ?n" "length ds = ?n" "distinct ?us" "set ?us \<subseteq> {..<?n}" "tree_law (garcs B h) s ?us ps ds"
      "settled_law events ps ds" "\<forall>v < ?n. v \<notin> set ?us \<longrightarrow> ps ! v = v"
    using S by (simp_all add: search_law_def b Let_def)
  show ?thesis
  proof (cases "many_goals dests m [] events")
    case None
    have "dijkstra_1_to_many B h s dests m = (ps, ds)" by (simp add: dijkstra_1_to_many_def b None)
    then show ?thesis
      using law D(2) by (intro exI[of _ ps] exI[of _ ds] exI[of _ "length ?us"]) (auto simp: tree_on_def)
  next
    case (Some r)
    obtain F pk dk where r: "r = (F, pk, dk)" by (cases r)
    obtain k where k: "k < length events" "(pk, dk) = snd (events ! k)" "set F = set dests \<inter> set (map fst (take (Suc k) events))"
      using many_goals_found[OF D(1) _ Some[unfolded r]] by auto
    let ?vs = "take (Suc k) ?us"
    let ?ps = "foldl (\<lambda>ps g. if g \<notin> set F then ps[g := g] else ps) pk dests"
    have run: "dijkstra_1_to_many B h s dests m = (?ps, dk)" by (simp add: dijkstra_1_to_many_def b Some r)
    have F: "set F = set dests \<inter> set ?vs" using k(3) by (simp add: take_map)
    have pk: "length pk = ?n" "length dk = ?n" "\<forall>j \<le> k. pk ! fst (events ! j) = ps ! fst (events ! j) \<and> dk ! fst (events ! j) = ds ! fst (events ! j)"
      using spec[OF law(6)[unfolded settled_law_def], of k] k(1,2) law(1,2) by (cases "events ! k"; simp)+
    have vs: "pk ! v = ps ! v \<and> dk ! v = ds ! v" if v: "v \<in> set ?vs" for v
    proof -
      obtain j where "j < length ?vs" "?vs ! j = v" using v by (auto simp: in_set_conv_nth)
      then have "j \<le> k" "fst (events ! j) = v" by auto
      then show ?thesis using pk(3) by blast
    qed
    have lt: "v < ?n" if "v \<in> set ?vs" for v using that law(4) set_take_subset[of "Suc k" ?us] by blast
    have ps: "?ps ! v = ps ! v" if "v \<in> set ?vs" for v
      using reset_nth(2)[of v pk "set F" dests] that vs[OF that] lt[OF that] pk(1) F by simp
    have "tree_on (garcs B h) ?n s ?vs ?ps dk"
      unfolding tree_on_def
    proof (intro conjI)
      show "set ?vs \<subseteq> {..<?n}" using lt by blast
      show "tree_law (garcs B h) s ?vs ?ps dk" using ps vs by (intro tree_law_take[OF law(5)]) simp_all
    qed (use law(3) pk(1,2) reset_nth(1)[of "set F" pk dests] in simp_all)
    moreover have "\<forall>v \<in> set ?vs. dk ! v = ds ! v" using vs by blast
    moreover have "\<forall>t \<in> set dests. t \<notin> set ?vs \<longrightarrow> ?ps ! t = t"
      using reset_nth(2)[of _ pk "set F" dests] pk(1) D(2) F by auto
    moreover have "set dests \<inter> set ?us \<subseteq> set ?vs" if "length dests < m"
      using many_goals_all[OF D(1) that Some[unfolded r]] F by blast
    ultimately show ?thesis using run by blast
  qed
qed

section \<open>The path to a destination\<close>

lemma path_walks_reachable: "path_walks A p \<Longrightarrow> reachable A (m_start_id p) (m_end_id p)"
  by (auto simp: path_walks_def reachable_def)

lemma path_to_destination:
  assumes L: "adjacency_list B d I" and g: "base_graph_ok B d I g" and A: "arcs_ok (garcs B (graph g))"
    and S: "search_law B (graph g) s" and s: "s < num_vertices B g"
    and D: "ascending dests" "set dests \<subseteq> {..<num_vertices B g}" "length dests < m" and t: "t \<in> set dests"
  shows "\<exists>p. (case dijkstra_1_to_many B (graph g) s dests m of (ps, ds) \<Rightarrow> Path_of_search B g s t ps ds False True) = Inr p \<and>
    from_search (id_arcs B g) (vertex_id_of B g s) (vertex_id_of B g t) p"
proof -
  obtain events ps ds where b: "b_dijkstra B (graph g) s = (events, ps, ds)" by (cases "b_dijkstra B (graph g) s") auto
  let ?us = "map fst events"
  have law: "tree_on (garcs B (graph g)) (num_vertices B g) s ?us ps ds" "closed_law (garcs B (graph g)) ?us ds"
    using S by (simp_all add: search_law_def b Let_def tree_on_def num_vertices_def)
  obtain ps' ds' k where run: "dijkstra_1_to_many B (graph g) s dests m = (ps', ds')"
      "tree_on (garcs B (graph g)) (num_vertices B g) s (take k ?us) ps' ds'"
      "\<forall>v \<in> set (take k ?us). ds' ! v = ds ! v" "\<forall>v \<in> set dests. v \<notin> set (take k ?us) \<longrightarrow> ps' ! v = v"
      "set dests \<inter> set ?us \<subseteq> set (take k ?us)"
    using dijkstra_1_to_many_tree[OF S D(1) _ b, of m] D(2,3) by (auto simp: num_vertices_def)
  have tn: "t < num_vertices B g" using D(2) t by auto
  have ok: "\<forall>v \<in> set ?us. cost_ok (ds ! v)"
  proof
    fix v assume "v \<in> set ?us"
    then obtain j where "j < length ?us" "?us ! j = v" unfolding in_set_conv_nth by blast
    then show "cost_ok (ds ! v)" using tree_on_cost[OF law(1) A] by blast
  qed
  have root: "s \<in> set ?us" "ds ! s = 0"
    using law(1) hd_in_set[of ?us] by (auto simp: tree_on_def tree_law_def)
  have len: "length ps' = num_vertices B g" using run(2) by (simp add: tree_on_def)
  have raw: "from_search (id_arcs B g) (vertex_id_of B g s) (vertex_id_of B g t) (Path_raw B (vertex_id_of B g s) (vertex_id_of B g t))"
    if "\<not> (vertex_id_of B g s \<noteq> vertex_id_of B g t \<and> reachable (id_arcs B g) (vertex_id_of B g s) (vertex_id_of B g t))"
    unfolding from_search_def if_not_P[OF that] by (simp add: Path_raw_def Path_of_def)
  show ?thesis
  proof (cases "t \<noteq> s \<and> t \<in> set ?us")
    case True
    then have tv: "t \<in> set (take k ?us)" using run(5) t by blast
    obtain p where p: "Path_of_search B g s t ps' ds' False True = Inr p" "m_start_id p = vertex_id_of B g s"
        "m_end_id p = vertex_id_of B g t" "path_walks (id_arcs B g) p" "sum_list (map cost (path p)) = ds' ! t"
      using complete_path_rows[OF L g A run(2) tv] True by blast
    have "ds' ! t \<le> arcs_cost as" if w: "arc_walk (id_arcs B g) (vertex_id_of B g s) as (vertex_id_of B g t)" for as
    proof -
      obtain bs v where bs: "v < num_vertices B g" "vertex_id_of B g v = vertex_id_of B g t" "as = map (id_arc B g) bs"
          "arc_walk (garcs B (graph g)) s bs v"
        using arc_walk_ids[OF L g s w] by blast
      have "v = t" using bs(2) id_inj[OF g bs(1) tn] by simp
      then have "ds ! t \<le> ds ! s + arcs_cost bs" using distance_lower_bound[OF A law(2) ok root(1) bs(4)] by blast
      then show ?thesis using root(2) run(3) tv bs(3) by (simp add: arcs_cost_id_arcs)
    qed
    then have "cheapest (id_arcs B g) p" using p(2-5) by (simp add: cheapest_def)
    moreover have "vertex_id_of B g s \<noteq> vertex_id_of B g t" using id_inj[OF g s tn] True by auto
    moreover have "reachable (id_arcs B g) (vertex_id_of B g s) (vertex_id_of B g t)"
      using path_walks_reachable[OF p(4)] p(2,3) by simp
    ultimately show ?thesis using p(1-3) run(1) by (simp add: from_search_def)
  next
    case False
    have no: "\<not> (vertex_id_of B g s \<noteq> vertex_id_of B g t \<and> reachable (id_arcs B g) (vertex_id_of B g s) (vertex_id_of B g t))"
    proof
      assume r: "vertex_id_of B g s \<noteq> vertex_id_of B g t \<and> reachable (id_arcs B g) (vertex_id_of B g s) (vertex_id_of B g t)"
      then obtain as where as: "arc_walk (id_arcs B g) (vertex_id_of B g s) as (vertex_id_of B g t)" by (auto simp: reachable_def)
      obtain bs v where bs: "v < num_vertices B g" "vertex_id_of B g v = vertex_id_of B g t" "arc_walk (garcs B (graph g)) s bs v"
        using arc_walk_ids[OF L g s as] by blast
      have "v = t" using bs(2) id_inj[OF g bs(1) tn] by simp
      then have "t \<in> set ?us" using distance_lower_bound[OF A law(2) ok root(1) bs(3)] by blast
      then show False using False r by auto
    qed
    have "ps' ! t = t"
    proof (cases "t = s")
      case True
      then show ?thesis using run(2) by (simp add: tree_on_def tree_law_def)
    next
      case ne: False
      then have "t \<notin> set (take k ?us)" using False set_take_subset[of k ?us] by blast
      then show ?thesis using run(4) t by blast
    qed
    then show ?thesis using no_path_rows[OF len tn] raw[OF no] run(1) by simp
  qed
qed

end
