(* ===== verification/Path_answers.thy ===== *)
theory Path_answers
  imports Shortest_paths With_points
begin

text \<open>
  All combinations: \<open>dijkstra\<close> makes one path for every pair of vertices of the graph, and
  \<open>post_process\<close> leaves the paths that have rows, in the order of the pairs.
\<close>

section \<open>The destinations of a departure\<close>

lemma destinations_fold:
  fixes ds :: "nat list"
  assumes "ascending ds"
  shows "ascending (foldl (\<lambda>ds v. case m v of None \<Rightarrow> ds | Some w \<Rightarrow> set_insert w ds) ds ts)"
    "set (foldl (\<lambda>ds v. case m v of None \<Rightarrow> ds | Some w \<Rightarrow> set_insert w ds) ds ts) = set ds \<union> {w. \<exists>v \<in> set ts. m v = Some w}"
    "length (foldl (\<lambda>ds v. case m v of None \<Rightarrow> ds | Some w \<Rightarrow> set_insert w ds) ds ts) \<le> length ds + length ts"
proof -
  have len: "length (set_insert w xs) \<le> Suc (length xs)" for w and xs :: "nat list" by (induction xs) auto
  show "ascending (foldl (\<lambda>ds v. case m v of None \<Rightarrow> ds | Some w \<Rightarrow> set_insert w ds) ds ts)"
    using assms by (induction ts arbitrary: ds) (auto simp: ascending_set_insert split: option.split)
  show "set (foldl (\<lambda>ds v. case m v of None \<Rightarrow> ds | Some w \<Rightarrow> set_insert w ds) ds ts) = set ds \<union> {w. \<exists>v \<in> set ts. m v = Some w}"
    by (induction ts arbitrary: ds) (auto split: option.split)
  show "length (foldl (\<lambda>ds v. case m v of None \<Rightarrow> ds | Some w \<Rightarrow> set_insert w ds) ds ts) \<le> length ds + length ts"
  proof (induction ts arbitrary: ds)
    case (Cons v ts)
    let ?ds = "case m v of None \<Rightarrow> ds | Some w \<Rightarrow> set_insert w ds"
    have "length ?ds \<le> Suc (length ds)" using len by (simp split: option.split)
    then show ?case using Cons.IH[of ?ds] by simp
  qed simp
qed

lemma destinations_of_spec:
  assumes g: "base_graph_ok B d I g"
  shows "ascending (destinations_of g ts)" "set (destinations_of g ts) \<subseteq> {..<num_vertices B g}"
    "vertex_id_of B g ` set (destinations_of g ts) = set ts \<inter> vertex_ids g" "length (destinations_of g ts) \<le> length ts"
proof -
  note f = destinations_fold[of "[]" "map_of (vertices_map g)" ts, folded destinations_of_def, simplified]
  show "ascending (destinations_of g ts)" "length (destinations_of g ts) \<le> length ts" using f(1,3) by blast+
  have mem: "w \<in> set (destinations_of g ts) \<longleftrightarrow> w < num_vertices B g \<and> vertex_id_of B g w \<in> set ts" for w
    using base_graph_okD(4)[OF g, of _ w] by (auto simp: f(2))
  show "set (destinations_of g ts) \<subseteq> {..<num_vertices B g}" using mem by auto
  show "vertex_id_of B g ` set (destinations_of g ts) = set ts \<inter> vertex_ids g"
  proof (intro equalityI subsetI)
    fix k assume "k \<in> set ts \<inter> vertex_ids g"
    then have k: "k \<in> set ts" "k \<in> vertex_ids g" by simp_all
    obtain v where "v < num_vertices B g" "vertex_id_of B g v = k" by (rule descriptor_of_id[OF g k(2)])
    then show "k \<in> vertex_id_of B g ` set (destinations_of g ts)" using mem k(1) by blast
  qed (use mem id_in_graph[OF g] in auto)
qed

section \<open>The paths of a departure\<close>

text \<open>One path for every pair, and no other.\<close>

definition path_ends :: "Path \<Rightarrow> int \<times> int" where
  "path_ends p = (m_start_id p, m_end_id p)"

definition path_per_pair :: "int garc multiset \<Rightarrow> (int \<times> int) set \<Rightarrow> Path list \<Rightarrow> bool" where
  "path_per_pair A P ps \<longleftrightarrow> distinct (map path_ends ps) \<and> set (map path_ends ps) = P \<and>
     (\<forall>p \<in> set ps. from_search A (m_start_id p) (m_end_id p) p)"

lemma from_search_ends: "from_search A s t p \<Longrightarrow> m_start_id p = s \<and> m_end_id p = t"
  by (simp add: from_search_def)

lemma path_per_pair_append:
  "path_per_pair A P ps \<Longrightarrow> path_per_pair A Q qs \<Longrightarrow> P \<inter> Q = {} \<Longrightarrow> path_per_pair A (P \<union> Q) (ps @ qs)"
  by (auto simp: path_per_pair_def)

lemma path_per_pair_list:
  assumes "distinct ts" "list_all2 (\<lambda>t p. from_search A s (f t) p) ts ps" "inj_on f (set ts)"
  shows "path_per_pair A ({s} \<times> f ` set ts) ps"
proof -
  have "map path_ends ps = map (\<lambda>t. (s, f t)) ts"
    using assms(2)
  proof (induction ts ps rule: list_all2_induct)
    case (Cons t ts p ps)
    have "path_ends p = (s, f t)" using from_search_ends[OF Cons.hyps(1)] by (simp add: path_ends_def)
    then show ?case using Cons.IH by simp
  qed simp
  moreover have "from_search A (m_start_id p) (m_end_id p) p" if mem: "p \<in> set ps" for p
  proof -
    obtain k where k: "k < length ps" "ps ! k = p" using mem unfolding in_set_conv_nth by blast
    have p: "from_search A s (f (ts ! k)) p" using list_all2_nthD2[OF assms(2) k(1)] unfolding k(2) .
    show ?thesis using p unfolding from_search_ends[OF p, THEN conjunct1] from_search_ends[OF p, THEN conjunct2] .
  qed
  moreover have "distinct (map (\<lambda>t. (s, f t)) ts)" using assms(1,3) by (auto simp: distinct_map inj_on_def)
  moreover have "set (map (\<lambda>t. (s, f t)) ts) = {s} \<times> f ` set ts" by auto
  ultimately show ?thesis by (simp add: path_per_pair_def del: set_map)
qed

lemma dijkstra_from_paths:
  assumes L: "adjacency_list B d I" and g: "base_graph_ok B d I g" and A: "arcs_ok (garcs B (graph g))"
    and S: "searches B I" and few: "length ts < m"
  shows "\<exists>ps. dijkstra_from B g s ts False m = Inr ps \<and>
    path_per_pair (id_arcs B g) ({s} \<times> set ts \<inter> vertex_ids g \<times> vertex_ids g) ps"
proof (cases "s \<in> vertex_ids g")
  case False
  then have "{s} \<times> set ts \<inter> vertex_ids g \<times> vertex_ids g = {}" by blast
  then show ?thesis using False by (simp add: dijkstra_from_def has_vertex_ids path_per_pair_def)
next
  case True
  obtain v where v: "v < num_vertices B g" "vertex_id_of B g v = s" by (rule descriptor_of_id[OF g True])
  then have V: "get_V g s = Inr v" using get_V_ok[OF g] by simp
  let ?ds = "destinations_of g ts" and ?r = "dijkstra_1_to_many B (graph g) v (destinations_of g ts) m"
  note D = destinations_of_spec[OF g, of ts]
  have Sv: "search_law B (graph g) v" using S base_graph_okD(1)[OF g] A v(1) by (simp add: searches_def num_vertices_def)
  have one: "\<exists>p. Path_of_search B g v t (fst ?r) (snd ?r) False True = Inr p \<and>
      from_search (id_arcs B g) s (vertex_id_of B g t) p" if "t \<in> set ?ds" for t
    using path_to_destination[OF L g A Sv v(1) D(1,2) le_less_trans[OF D(4) few] that]
    by (simp add: v(2) split_beta)
  then obtain f where f: "\<And>t. t \<in> set ?ds \<Longrightarrow> Path_of_search B g v t (fst ?r) (snd ?r) False True = Inr (f t) \<and>
      from_search (id_arcs B g) s (vertex_id_of B g t) (f t)"
    by metis
  have "get_paths B g ?r v ?ds False = Inr (map f ?ds)" unfolding get_paths_def using f by (intro mapE_map) blast
  then have "dijkstra_from B g s ts False m = Inr (map f ?ds)"
    using True V by (simp add: dijkstra_from_def has_vertex_ids Let_def)
  moreover have "inj_on (vertex_id_of B g) (set ?ds)" using D(2) id_inj[OF g] by (auto simp: inj_on_def)
  then have "path_per_pair (id_arcs B g) ({s} \<times> vertex_id_of B g ` set ?ds) (map f ?ds)"
    using f D(1) by (intro path_per_pair_list) (auto simp: ascending_distinct list_all2_conv_all_nth)
  moreover have "{s} \<times> set ts \<inter> vertex_ids g \<times> vertex_ids g = {s} \<times> vertex_id_of B g ` set ?ds"
    using True unfolding D(3) by blast
  ultimately show ?thesis by auto
qed

section \<open>All combinations\<close>

definition combined :: "combinations \<Rightarrow> (int \<times> int) set" where
  "combined m = (\<Union>(s, ts) \<in> set m. {s} \<times> set ts)"

lemma combined_pairs:
  assumes "combinations_ok m"
  shows "combined m = pairs m"
proof -
  have "distinct (map fst m)" using assms by (simp add: combinations_ok_def keys_ok_distinct)
  then have "(s, ts) \<in> set m \<longleftrightarrow> map_of m s = Some ts" for s ts by simp
  then show ?thesis by (force simp: combined_def pairs_def targets_of_def split: option.splits)
qed

lemma dijkstra_paths:
  assumes L: "adjacency_list B d I" and g: "base_graph_ok B d I g" and A: "arcs_ok (garcs B (graph g))"
    and S: "searches B I"
    and D: "distinct (map fst m)" and few: "\<forall>ts \<in> snd ` set m. length ts < n"
  shows "\<exists>ps. dijkstra B g m False n = Inr ps \<and> path_per_pair (id_arcs B g) (combined m \<inter> vertex_ids g \<times> vertex_ids g) ps"
proof -
  have "\<exists>ps. foldE (\<lambda>(s, ts) paths. bindE (dijkstra_from B g s ts False n) (\<lambda>r_paths. Inr (r_paths @ paths))) m qs = Inr ps \<and>
      path_per_pair (id_arcs B g) (P \<union> combined m \<inter> vertex_ids g \<times> vertex_ids g) ps"
    if "distinct (map fst m)" "\<forall>ts \<in> snd ` set m. length ts < n" "path_per_pair (id_arcs B g) P qs" "fst ` P \<inter> fst ` set m = {}"
    for m qs P
    using that
  proof (induction m arbitrary: qs P)
    case (Cons e m)
    obtain s ts where e: "e = (s, ts)" by (cases e)
    obtain rs where rs: "dijkstra_from B g s ts False n = Inr rs"
        "path_per_pair (id_arcs B g) ({s} \<times> set ts \<inter> vertex_ids g \<times> vertex_ids g) rs"
      using dijkstra_from_paths[OF L g A S, of ts n s] Cons.prems(2) e by auto
    let ?Q = "({s} \<times> set ts \<inter> vertex_ids g \<times> vertex_ids g) \<union> P"
    have "({s} \<times> set ts \<inter> vertex_ids g \<times> vertex_ids g) \<inter> P = {}" using Cons.prems(4) e by force
    from path_per_pair_append[OF rs(2) Cons.prems(3) this] have Q: "path_per_pair (id_arcs B g) ?Q (rs @ qs)" .
    have "fst ` ?Q \<inter> fst ` set m = {}" using Cons.prems(1,4) e by force
    moreover have "?Q \<union> combined m \<inter> vertex_ids g \<times> vertex_ids g = P \<union> combined (e # m) \<inter> vertex_ids g \<times> vertex_ids g"
      using e by (auto simp: combined_def)
    ultimately show ?case using Cons.IH[OF _ _ Q] Cons.prems(1,2) rs(1) e by auto
  qed (simp add: combined_def)
  from this[OF D few, of "{}" "[]"] show ?thesis by (simp add: dijkstra_def path_per_pair_def)
qed

lemma arcs_ok_ids: "arcs_ok (id_arcs B g) \<longleftrightarrow> arcs_ok (garcs B (graph g))"
  by (simp add: arcs_ok_def id_arcs_def garc_cost_def id_arc_def)

text \<open>An arc leads from a vertex of the graph to another.\<close>

lemma reachable_ids:
  assumes L: "adjacency_list B d I" and g: "base_graph_ok B d I g" and r: "reachable (id_arcs B g) s t" "s \<noteq> t"
  shows "s \<in> vertex_ids g \<and> t \<in> vertex_ids g"
proof -
  have ends: "fst a \<in> vertex_ids g \<and> fst (snd a) \<in> vertex_ids g" if "a \<in># id_arcs B g" for a
    using that garc_ends[OF L base_graph_okD(1)[OF g]] id_in_graph[OF g]
    by (auto simp: id_arcs_def id_arc_def num_vertices_def)
  have "t \<in> vertex_ids g" if "arc_walk (id_arcs B g) u as t" "u \<in> vertex_ids g" for u as
    using that by (induction as arbitrary: u) (auto dest: ends)
  moreover obtain as where as: "arc_walk (id_arcs B g) s as t" using r(1) by (auto simp: reachable_def)
  then obtain a as' where "as = a # as'" using r(2) by (cases as) auto
  then have "s \<in> vertex_ids g" using as ends[of a] by auto
  ultimately show ?thesis using as by blast
qed

section \<open>The order of the answer\<close>

lemma insert_by_key:
  fixes f :: "'a \<Rightarrow> int"
  assumes "sorted_wrt (\<lambda>a b. f a < f b \<or> f a = f b \<and> R a b) xs" "\<forall>y \<in> set xs. R x y"
  shows "sorted_wrt (\<lambda>a b. f a < f b \<or> f a = f b \<and> R a b) (insert_by (\<lambda>a b. f a < f b) x xs)"
  using assms by (induction xs) (auto simp: not_less)

text \<open>Sorting keeps the order of the elements with the same key.\<close>

lemma sort_by_key:
  fixes f :: "'a \<Rightarrow> int"
  assumes "sorted_wrt R xs"
  shows "sorted_wrt (\<lambda>a b. f a < f b \<or> f a = f b \<and> R a b) (sort_by (\<lambda>a b. f a < f b) xs)"
  using assms by (induction xs) (auto intro!: insert_by_key)

definition ends_before :: "Path \<Rightarrow> Path \<Rightarrow> bool" where
  "ends_before p q \<longleftrightarrow> m_start_id p < m_start_id q \<or> m_start_id p = m_start_id q \<and> m_end_id p < m_end_id q"

lemma sorted_by_ends:
  assumes "distinct (map path_ends ps)"
  shows "sorted_wrt ends_before (sort_by (\<lambda>e1 e2. m_start_id e1 < m_start_id e2) (sort_by (\<lambda>e1 e2. m_end_id e1 < m_end_id e2) ps))"
proof -
  let ?R = "\<lambda>a b. m_start_id a < m_start_id b \<or> m_start_id a = m_start_id b \<and> (m_end_id a < m_end_id b \<or> m_end_id a = m_end_id b)"
  let ?qs = "sort_by (\<lambda>e1 e2. m_start_id e1 < m_start_id e2) (sort_by (\<lambda>e1 e2. m_end_id e1 < m_end_id e2) ps)"
  have "sorted_wrt (\<lambda>_ _. True) ps" by (induction ps) auto
  from sort_by_key[OF sort_by_key[OF this]] have "sorted_wrt ?R ?qs" by simp
  moreover have "mset ?qs = mset ps" by simp
  then have "mset (map path_ends ?qs) = mset (map path_ends ps)" by (simp only: mset_map)
  then have "distinct (map path_ends ?qs)" using assms by (rule mset_eq_imp_distinct_iff[THEN iffD2])
  moreover have "sorted_wrt ends_before qs" if "sorted_wrt ?R qs" "distinct (map path_ends qs)" for qs
    using that by (induction qs) (auto simp: ends_before_def path_ends_def)
  ultimately show ?thesis by blast
qed

text \<open>What the paths of the answer promise: the pairs that are connected, with a cheapest path each.\<close>

definition path_answered :: "int garc multiset \<Rightarrow> (int \<times> int) set \<Rightarrow> Path list \<Rightarrow> bool" where
  "path_answered A P ps \<longleftrightarrow> sorted_wrt ends_before ps \<and>
     set (map path_ends ps) = {(s, t) \<in> P. s \<noteq> t \<and> reachable A s t} \<and>
     (\<forall>p \<in> set ps. cheapest A p \<and> agg_from 0 (path p) \<and> m_tot_cost p = path_cost (path p))"

lemma row_arcs_of_accumulate: "row_arcs_of (accumulate c rs) t = row_arcs_of rs t"
  by (induction rs arbitrary: c) (auto split: list.split)

lemma cheapest_recalculate:
  assumes "cheapest A p"
  shows "cheapest A (recalculate_agg_cost p)"
proof -
  obtain rs r where p: "path p = rs @ [r]" "rs \<noteq> []" "node r = m_end_id p" "edge r = -1" "cost r = 0"
      "arc_walk A (m_start_id p) (row_arcs_of rs (m_end_id p)) (m_end_id p)"
    using assms unfolding cheapest_def path_walks_def by blast
  have "path_walks A (recalculate_agg_cost p)"
    unfolding path_walks_def using p
    by (intro exI[of _ "accumulate 0 rs"] exI[of _ "r\<lparr>agg_cost := path_cost rs\<rparr>"])
      (simp add: recalculate_agg_cost_def accumulate_append row_arcs_of_accumulate)
  then show ?thesis using assms by (simp add: cheapest_def recalculate_agg_cost_def)
qed

lemma post_process_answers:
  assumes "path_per_pair A P ps"
  shows "path_answered A P (post_process ps False True size_max global)"
proof -
  let ?qs = "map recalculate_agg_cost (filter (\<lambda>p. path p \<noteq> []) ps)"
  have pp: "post_process ps False True size_max global =
      sort_by (\<lambda>e1 e2. m_start_id e1 < m_start_id e2) (sort_by (\<lambda>e1 e2. m_end_id e1 < m_end_id e2) ?qs)"
    by (simp add: post_process_def)
  have ends: "map path_ends ?qs = map path_ends (filter (\<lambda>p. path p \<noteq> []) ps)"
    by (simp add: path_ends_def recalculate_agg_cost_def)
  have kept: "path p \<noteq> [] \<longleftrightarrow> m_start_id p \<noteq> m_end_id p \<and> reachable A (m_start_id p) (m_end_id p)"
      "path p \<noteq> [] \<Longrightarrow> cheapest A p" if "p \<in> set ps" for p
    using assms that by (auto simp: path_per_pair_def from_search_def cheapest_def path_walks_def split: if_splits)
  have "distinct (map path_ends ?qs)" using assms unfolding ends by (auto simp: path_per_pair_def distinct_map inj_on_def)
  then have "sorted_wrt ends_before (post_process ps False True size_max global)" unfolding pp by (rule sorted_by_ends)
  moreover have "set (map path_ends (post_process ps False True size_max global)) = set (map path_ends (filter (\<lambda>p. path p \<noteq> []) ps))"
    using arg_cong[OF ends, of set] unfolding pp by (simp only: set_map set_sort_by)
  moreover have "set (map path_ends (filter (\<lambda>p. path p \<noteq> []) ps)) = {(s, t) \<in> P. s \<noteq> t \<and> reachable A s t}"
  proof -
    have "P = path_ends ` set ps" using assms by (simp add: path_per_pair_def)
    then show ?thesis using kept(1) by (force simp: path_ends_def)
  qed
  moreover have "cheapest A q \<and> agg_from 0 (path q) \<and> m_tot_cost q = path_cost (path q)"
    if q: "q \<in> set (post_process ps False True size_max global)" for q
  proof -
    obtain p where "p \<in> set ps" "path p \<noteq> []" "q = recalculate_agg_cost p" using q unfolding pp by auto
    then show ?thesis using kept(2) cheapest_recalculate recalculate_agg_cost_ok by blast
  qed
  ultimately show ?thesis by (simp add: path_answered_def)
qed

section \<open>The answer of the driver\<close>

lemma no_points:
  "\<exists>g. Pg_points_graph_of [] [] True d_side d = Inr g \<and> wp_error g = [] \<and> m_new_edges g = []"
  by (cases d) (simp_all add: Pg_points_graph_of_def check_points_def create_new_edges_def)

lemma shortest_paths_per_pair:
  assumes L: "adjacency_list B d I" and A: "arcs_ok (rows_arcs d True edges)" and C: "combinations_ok combos"
    and few: "\<forall>ts \<in> snd ` set combos. length ts < size_max"
    and S: "searches B I"
  shows "\<exists>ps. shortest_paths B d edges combos False size_max 0 = Inr ps \<and>
    path_answered (rows_arcs d True edges) (pairs combos) (post_process ps False True size_max global)"
proof -
  obtain g where g: "insert_edges B edges True (Pgr_base_graph_empty B d) = Inr g" "base_graph_ok B d I g"
      "id_arcs B g = rows_arcs d True edges"
    by (rule graph_of_rows[OF L])
  have ok: "arcs_ok (garcs B (graph g))" using A g(3) arcs_ok_ids[of B g] by simp
  have D: "distinct (map fst combos)" using C by (simp add: combinations_ok_def keys_ok_distinct)
  obtain ps where ps: "dijkstra B g combos False size_max = Inr ps"
      "path_per_pair (id_arcs B g) (combined combos \<inter> vertex_ids g \<times> vertex_ids g) ps"
    using dijkstra_paths[OF L g(2) ok S D few] by blast
  have "{(s, t) \<in> pairs combos \<inter> vertex_ids g \<times> vertex_ids g. s \<noteq> t \<and> reachable (id_arcs B g) s t} =
      {(s, t) \<in> pairs combos. s \<noteq> t \<and> reachable (id_arcs B g) s t}"
    using reachable_ids[OF L g(2)] by blast
  then have "path_answered (id_arcs B g) (pairs combos) (post_process ps False True size_max global)"
    using post_process_answers[OF ps(2), of global] by (simp add: path_answered_def combined_pairs[OF C])
  then show ?thesis using g(1,3) ps(1) by (simp add: shortest_paths_def)
qed

text \<open>The rows of \<open>pgr_dijkstra\<close>: those of the cheapest paths of the connected pairs, in order.\<close>

lemma driver_answers_cheapest:
  assumes L: "adjacency_list B d I" and A: "arcs_ok (rows_arcs d True edges)" and C: "combinations_ok combos"
    and few: "\<forall>ts \<in> snd ` set combos. length ts < size_max" and E: "edges \<noteq> []"
    and S: "searches B I"
  shows "\<exists>ps. shortest_path_of_rows B [] [] edges combos d False True 0 global driving_side True 0 = Inr (PathRows (collapse_paths ps)) \<and>
    path_answered (rows_arcs d True edges) (pairs combos) ps"
proof -
  obtain ps where ps: "shortest_paths B d edges combos False size_max 0 = Inr ps"
      "path_answered (rows_arcs d True edges) (pairs combos) (post_process ps False True size_max global)"
    using shortest_paths_per_pair[OF L A C few S] by blast
  let ?qs = "post_process ps False True size_max global"
  obtain pg where pg: "Pg_points_graph_of [] [] True (CHR '' '') d = Inr pg" "wp_error pg = []" "m_new_edges pg = []"
    using no_points by blast
  have side: "estimate_drivingSide driving_side 0 = Inr (CHR '' '')" by (simp add: estimate_drivingSide_def Let_def)
  have none: "collapse_paths ?qs = []" if "count_tuples ?qs = 0" using that length_collapse_paths(1)[of ?qs] by simp
  have "shortest_path_of_rows B [] [] edges combos d False True 0 global driving_side True 0 = Inr (PathRows (collapse_paths ?qs))"
    using E ps(1) none by (simp add: shortest_path_of_rows_def side pg goals_wanted_def Let_def)
  then show ?thesis using ps(2) by blast
qed

end
