(* ===== verification/Graph_changes.thy ===== *)
theory Graph_changes
  imports Graph_laws
begin

text \<open>
  Taking edges away and bringing them back (\<open>disconnect_vertex\<close>, \<open>disconnect_edge\<close>,
  \<open>disconnect_out_going_edge\<close>, \<open>restore_graph\<close>), on the arcs between vertex ids, and the graph without
  parallel edges.
\<close>

section \<open>Arcs by ids\<close>

lemma filter_image_mset: "filter_mset P (image_mset f A) = image_mset f (filter_mset (\<lambda>a. P (f a)) A)"
  by (induction A) auto

lemma id_arc_fields [simp]:
  "fst (id_arc B g a) = vertex_id_of B g (fst a)" "fst (snd (id_arc B g a)) = vertex_id_of B g (fst (snd a))"
  "snd (snd (id_arc B g a)) = snd (snd a)"
  by (simp_all add: id_arc_def)

lemma filter_id_arcs:
  assumes L: "adjacency_list B d I" and g: "base_graph_ok B d I g"
    and P: "\<And>a. fst a < num_vertices B g \<Longrightarrow> fst (snd a) < num_vertices B g \<Longrightarrow> P (id_arc B g a) \<longleftrightarrow> Q a"
  shows "filter_mset P (id_arcs B g) = image_mset (id_arc B g) (filter_mset Q (garcs B (graph g)))"
  unfolding id_arcs_def filter_image_mset
  using garc_ends[OF L base_graph_okD(1)[OF g]] P
  by (intro arg_cong[where f = "image_mset (id_arc B g)"] filter_mset_cong) (auto simp: num_vertices_def)

lemma filter_arcs_of:
  assumes L: "adjacency_list B d I" and g: "base_graph_ok B d I g" and v: "v < num_vertices B g"
  shows "filter_mset (\<lambda>a. fst a = vertex_id_of B g v) (id_arcs B g) =
      image_mset (id_arc B g) (filter_mset (\<lambda>a. fst a = v) (garcs B (graph g)))"
    "filter_mset (\<lambda>a. fst (snd a) = vertex_id_of B g v) (id_arcs B g) =
      image_mset (id_arc B g) (filter_mset (\<lambda>a. fst (snd a) = v) (garcs B (graph g)))"
  using id_inj[OF g _ v] by (intro filter_id_arcs[OF L g]; simp)+

lemma symmetric_id_arcs:
  assumes L: "adjacency_list B False I" and g: "base_graph_ok B False I g"
  shows "image_mset swap_arc (id_arcs B g) = id_arcs B g"
proof -
  have "swap_arc (id_arc B g a) = id_arc B g (swap_arc a)" for a
    by (cases a) (simp add: id_arc_def)
  then have "image_mset swap_arc (id_arcs B g) = image_mset (id_arc B g) (image_mset swap_arc (garcs B (graph g)))"
    by (simp add: id_arcs_def image_mset.compositionality comp_def)
  then show ?thesis using symmetric_law[OF L base_graph_okD(1)[OF g]] by (simp add: id_arcs_def)
qed

section \<open>What is stored\<close>

definition info_ways :: "bool \<Rightarrow> Basic_edge \<Rightarrow> int garc multiset" where
  "info_ways d x = ways d (be_source x) (be_target x) (be_id x) (be_cost x)"

definition infos_ways :: "bool \<Rightarrow> Basic_edge list \<Rightarrow> int garc multiset" where
  "infos_ways d xs = sum_list (map (info_ways d) xs)"

lemma infos_ways_simps [simp]:
  "infos_ways d [] = {#}" "infos_ways d (x # xs) = info_ways d x + infos_ways d xs"
  "infos_ways d (xs @ ys) = infos_ways d xs + infos_ways d ys"
  by (simp_all add: infos_ways_def)

definition info_in :: "'g Pgr_base_graph \<Rightarrow> Basic_edge \<Rightarrow> bool" where
  "info_in g x \<longleftrightarrow> be_source x \<in> vertex_ids g \<and> be_target x \<in> vertex_ids g \<and> 0 \<le> be_cost x"

lemma info_ways_arc:
  "info_ways d (get_edge_info B g e) =
    (if d then {#id_arc B g (arc_of B (graph g) e)#}
     else {#id_arc B g (arc_of B (graph g) e), swap_arc (id_arc B g (arc_of B (graph g) e))#})"
  by (simp add: info_ways_def get_edge_info_def ways_def arc_of_def id_arc_def)

lemma sum_list_pairs: "sum_list (map (\<lambda>x. {#f x, g x#}) xs) = mset (map f xs) + mset (map g xs)"
  by (induction xs) auto

lemma sum_list_singletons: "sum_list (map (\<lambda>x. {#f x#}) xs) = mset (map f xs)"
  by (induction xs) auto

lemma infos_of_edges:
  "infos_ways d (map (get_edge_info B g) es) =
    (let A = image_mset (id_arc B g) (mset (map (arc_of B (graph g)) es)) in if d then A else A + image_mset swap_arc A)"
  by (simp add: infos_ways_def comp_def info_ways_arc sum_list_pairs sum_list_singletons
      image_mset.compositionality Let_def split del: if_split)
    (simp add: sum_list_pairs sum_list_singletons comp_def image_mset.compositionality)

text \<open>The edges that \<open>disconnect_vertex\<close> stores: those that leave the vertex and those that enter it.\<close>

lemma stored_of_vertex:
  assumes L: "adjacency_list B d I" and g: "base_graph_ok B d I g" and v: "v < num_vertices B g"
  shows "infos_ways d (map (get_edge_info B g) (b_out_edges B (graph g) v) @
      (if d then map (get_edge_info B g) (b_in_edges B (graph g) v) else [])) =
    filter_mset (\<lambda>a. fst a = vertex_id_of B g v) (id_arcs B g) + filter_mset (\<lambda>a. fst (snd a) = vertex_id_of B g v) (id_arcs B g)"
proof -
  note I = base_graph_okD(1)[OF g] and v' = v[unfolded num_vertices_def]
  have out: "image_mset (id_arc B g) (mset (map (arc_of B (graph g)) (b_out_edges B (graph g) v))) =
      filter_mset (\<lambda>a. fst a = vertex_id_of B g v) (id_arcs B g)"
    unfolding out_edges_arcs[OF L I v'] filter_arcs_of(1)[OF L g v] ..
  show ?thesis
  proof (cases d)
    case True
    have "image_mset (id_arc B g) (mset (map (arc_of B (graph g)) (b_in_edges B (graph g) v))) =
        filter_mset (\<lambda>a. fst (snd a) = vertex_id_of B g v) (id_arcs B g)"
      unfolding in_edges_law[OF L True I v'] filter_arcs_of(2)[OF L g v] ..
    then show ?thesis using out True by (simp add: infos_of_edges del: mset_map)
  next
    case False
    have "image_mset swap_arc (filter_mset (\<lambda>a. fst a = k) A) = filter_mset (\<lambda>a. fst (snd a) = k) (image_mset swap_arc A)"
      for k and A :: "int garc multiset"
      unfolding filter_image_mset by (intro arg_cong[where f = "image_mset swap_arc"] filter_mset_cong refl) auto
    moreover have "image_mset swap_arc (id_arcs B g) = id_arcs B g" using symmetric_id_arcs[of B I g] L g False by simp
    ultimately have "image_mset swap_arc (filter_mset (\<lambda>a. fst a = vertex_id_of B g v) (id_arcs B g)) =
        filter_mset (\<lambda>a. fst (snd a) = vertex_id_of B g v) (id_arcs B g)"
      by simp
    then show ?thesis using out False by (simp add: infos_of_edges del: mset_map)
  qed
qed

section \<open>Bringing edges back\<close>

lemma cp_members_fields [simp]: "be_id (cp_members x e) = be_id x" "be_cost (cp_members x e) = be_cost x"
  by (simp_all add: cp_members_def)

lemma restore_graph_ok:
  assumes L: "adjacency_list B d I" and g: "base_graph_ok B d I g" and x: "\<forall>x \<in> set (removed_edges g). info_in g x"
  shows "\<exists>g'. restore_graph B g = Inr g' \<and> base_graph_ok B d I g' \<and> id_arcs B g' = id_arcs B g + infos_ways d (removed_edges g) \<and>
    vertex_ids g' = vertex_ids g \<and> removed_edges g' = []"
proof -
  let ?step = "\<lambda>x g. bindE (restore_edge B x g) (\<lambda>g'. Inr (g'\<lparr>removed_edges := tl (removed_edges g')\<rparr>))"
  have "\<exists>g'. foldE ?step xs g = Inr g' \<and> base_graph_ok B d I g' \<and> id_arcs B g' = id_arcs B g + infos_ways d xs \<and>
      vertex_ids g' = vertex_ids g \<and> removed_edges g' = []"
    if "base_graph_ok B d I g" "removed_edges g = xs" "\<forall>x \<in> set xs. info_in g x" for xs g
    using that
  proof (induction xs arbitrary: g)
    case (Cons x xs)
    obtain u v where uv: "get_V g (be_source x) = Inr u" "get_V g (be_target x) = Inr v" "u < num_vertices B g"
        "v < num_vertices B g" "vertex_id_of B g u = be_source x" "vertex_id_of B g v = be_target x"
      using descriptor_of_id[OF Cons.prems(1)] Cons.prems(3) get_V_ok[OF Cons.prems(1)]
      unfolding info_in_def by (metis list.set_intros(1))
    have cost: "0 \<le> be_cost x" using Cons.prems(3) by (simp add: info_in_def)
    note put = put_edge_arcs[OF L Cons.prems(1) uv(3,4) cp_members_fields[of x]]
    let ?g = "put_edge B u v (cp_members x) g"
    have step: "?step x g = Inr (?g\<lparr>removed_edges := xs\<rparr>)"
      using Cons.prems(2) put(4) by (simp add: restore_edge_def uv(1,2) cost)
    have "\<forall>y \<in> set xs. info_in (?g\<lparr>removed_edges := xs\<rparr>) y" using Cons.prems(3) put(3) by (simp add: info_in_def)
    from Cons.IH[OF _ _ this] put(1) obtain g' where g': "foldE ?step xs (?g\<lparr>removed_edges := xs\<rparr>) = Inr g'"
        "base_graph_ok B d I g'" "id_arcs B g' = id_arcs B ?g + infos_ways d xs" "vertex_ids g' = vertex_ids ?g"
        "removed_edges g' = []"
      by auto
    then show ?case using step put(2,3) uv(5,6) by (intro exI[of _ g']) (simp add: info_ways_def add.assoc)
  qed auto
  from this[OF g refl x] show ?thesis by (simp add: restore_graph_def)
qed

section \<open>A vertex\<close>

definition nonnegative_arcs :: "int garc multiset \<Rightarrow> bool" where
  "nonnegative_arcs A \<longleftrightarrow> (\<forall>a \<in># A. 0 \<le> snd (snd (snd a)))"

lemma info_of_arc:
  assumes L: "adjacency_list B d I" and g: "base_graph_ok B d I g" and A: "nonnegative_arcs (id_arcs B g)"
    and e: "arc_of B (graph g) e \<in># garcs B (graph g)"
  shows "info_in g (get_edge_info B g e)"
proof -
  have "id_arc B g (arc_of B (graph g) e) \<in># id_arcs B g" using e by (auto simp: id_arcs_def)
  then have "0 \<le> be_cost (b_edge B (graph g) e)" using A by (fastforce simp: nonnegative_arcs_def id_arc_def arc_of_def)
  moreover have "b_source B (graph g) e < num_vertices B g" "b_target B (graph g) e < num_vertices B g"
    using garc_ends[OF L base_graph_okD(1)[OF g] e] by (simp_all add: arc_of_def num_vertices_def)
  ultimately show ?thesis using id_in_graph[OF g] by (simp add: info_in_def get_edge_info_def)
qed

lemma disconnect_vertex_ok:
  assumes L: "adjacency_list B d I" and g: "base_graph_ok B d I g" and A: "nonnegative_arcs (id_arcs B g)"
    and vid: "vid \<in> vertex_ids g" and r: "removed_edges g = []"
  shows "\<exists>g'. disconnect_vertex B vid g = Inr g' \<and> base_graph_ok B d I g' \<and> vertex_ids g' = vertex_ids g \<and>
    id_arcs B g' = filter_mset (\<lambda>a. \<not> touches vid a) (id_arcs B g) \<and> (\<forall>x \<in> set (removed_edges g'). info_in g' x) \<and>
    infos_ways d (removed_edges g') =
      filter_mset (\<lambda>a. fst a = vid) (id_arcs B g) + filter_mset (\<lambda>a. fst (snd a) = vid) (id_arcs B g)"
proof -
  obtain v where v: "v < num_vertices B g" "vertex_id_of B g v = vid" "get_V g vid = Inr v"
    using descriptor_of_id[OF g vid] get_V_ok[OF g] by metis
  note I = base_graph_okD(1)[OF g] and v' = v(1)[unfolded num_vertices_def]
  let ?stored = "map (get_edge_info B g) (b_out_edges B (graph g) v) @ (if d then map (get_edge_info B g) (b_in_edges B (graph g) v) else [])"
  note clear = clear_vertex_law[OF L I v'] and changed = same_vertices_graph[OF L g clear_vertex_law(1,2)[OF L I v']]
  define g' where "g' = (g\<lparr>graph := b_clear_vertex B v (graph g)\<rparr>)\<lparr>removed_edges := ?stored\<rparr>"
  have "disconnect_vertex B vid g = Inr g'"
    using v(3) vid r base_graph_okD(2)[OF g] by (simp add: disconnect_vertex_def has_vertex_ids disconnect_V_def g'_def)
  moreover have "base_graph_ok B d I g'" "vertex_ids g' = vertex_ids g" using changed(1) by (simp_all add: g'_def)
  moreover have "id_arcs B g' = filter_mset (\<lambda>a. \<not> touches vid a) (id_arcs B g)"
  proof -
    have "filter_mset (\<lambda>a. \<not> touches vid a) (id_arcs B g) =
        image_mset (id_arc B g) (filter_mset (\<lambda>a. \<not> touches v a) (garcs B (graph g)))"
      using id_inj[OF g _ v(1)] v(2) by (intro filter_id_arcs[OF L g]) (auto simp: touches_def)
    then show ?thesis using changed(2) clear(3) by (simp add: g'_def)
  qed
  moreover have "\<forall>x \<in> set (removed_edges g'). info_in g' x"
  proof -
    have "arc_of B (graph g) e \<in># garcs B (graph g)" if "e \<in> set (b_out_edges B (graph g) v)" for e
      using that v' by (auto simp: in_garcs_iff)
    moreover have "arc_of B (graph g) e \<in># garcs B (graph g)" if "d" "e \<in> set (b_in_edges B (graph g) v)" for e
    proof -
      have "arc_of B (graph g) e \<in># filter_mset (\<lambda>a. fst (snd a) = v) (garcs B (graph g))"
        unfolding in_edges_law[OF L that(1) I v', symmetric] using that(2) by simp
      then show ?thesis by simp
    qed
    ultimately have "info_in g x" if "x \<in> set ?stored" for x
      using that info_of_arc[OF L g A] by (auto split: if_splits)
    then show ?thesis by (simp add: g'_def info_in_def)
  qed
  moreover have "infos_ways d (removed_edges g') =
      filter_mset (\<lambda>a. fst a = vid) (id_arcs B g) + filter_mset (\<lambda>a. fst (snd a) = vid) (id_arcs B g)"
    using stored_of_vertex[OF L g v(1)] v(2) by (simp add: g'_def)
  ultimately show ?thesis by blast
qed

lemma split_touching:
  "filter_mset (\<lambda>a. \<not> touches v a) A + (filter_mset (\<lambda>a. fst a = v) A + filter_mset (\<lambda>a. fst (snd a) = v) A) =
    A + filter_mset (from_to v v) A"
  by (induction A) (auto simp: touches_def from_to_def)

text \<open>A loop is stored as an edge that leaves and as an edge that enters.\<close>

lemma disconnect_restore_vertex:
  assumes L: "adjacency_list B d I" and g: "base_graph_ok B d I g" and A: "nonnegative_arcs (id_arcs B g)"
    and vid: "vid \<in> vertex_ids g" and r: "removed_edges g = []"
  shows "\<exists>g1 g2. disconnect_vertex B vid g = Inr g1 \<and> id_arcs B g1 = filter_mset (\<lambda>a. \<not> touches vid a) (id_arcs B g) \<and>
    restore_graph B g1 = Inr g2 \<and> base_graph_ok B d I g2 \<and> removed_edges g2 = [] \<and>
    id_arcs B g2 = id_arcs B g + filter_mset (from_to vid vid) (id_arcs B g)"
proof -
  obtain g1 where g1: "disconnect_vertex B vid g = Inr g1" "base_graph_ok B d I g1"
      "id_arcs B g1 = filter_mset (\<lambda>a. \<not> touches vid a) (id_arcs B g)" "\<forall>x \<in> set (removed_edges g1). info_in g1 x"
      "infos_ways d (removed_edges g1) =
        filter_mset (\<lambda>a. fst a = vid) (id_arcs B g) + filter_mset (\<lambda>a. fst (snd a) = vid) (id_arcs B g)"
    using disconnect_vertex_ok[OF assms] by blast
  obtain g2 where g2: "restore_graph B g1 = Inr g2" "base_graph_ok B d I g2" "removed_edges g2 = []"
      "id_arcs B g2 = id_arcs B g1 + infos_ways d (removed_edges g1)"
    using restore_graph_ok[OF L g1(2,4)] by blast
  show ?thesis
    using g1(1,3) g2(1-3) g2(4)[unfolded g1(3,5) split_touching] by blast
qed

section \<open>The edges between two vertices\<close>

lemma disconnect_edge_ok:
  assumes L: "adjacency_list B d I" and g: "base_graph_ok B d I g" and A: "nonnegative_arcs (id_arcs B g)"
    and ids: "p \<in> vertex_ids g" "q \<in> vertex_ids g" and r: "removed_edges g = []"
  shows "\<exists>g'. disconnect_edge B p q g = Inr g' \<and> base_graph_ok B d I g' \<and> vertex_ids g' = vertex_ids g \<and>
    id_arcs B g' = filter_mset (\<lambda>a. \<not> (from_to p q a \<or> \<not> d \<and> from_to q p a)) (id_arcs B g) \<and>
    (\<forall>x \<in> set (removed_edges g'). info_in g' x) \<and>
    (if \<exists>a \<in># id_arcs B g. from_to p q a
     then \<exists>i c. (p, q, i, c) \<in># id_arcs B g \<and> infos_ways d (removed_edges g') = ways d p q i c
     else removed_edges g' = [])"
proof -
  obtain u where u: "u < num_vertices B g" "vertex_id_of B g u = p" "get_V g p = Inr u"
    using descriptor_of_id[OF g ids(1)] get_V_ok[OF g] by metis
  obtain v where v: "v < num_vertices B g" "vertex_id_of B g v = q" "get_V g q = Inr v"
    using descriptor_of_id[OF g ids(2)] get_V_ok[OF g] by metis
  note I = base_graph_okD(1)[OF g] and u' = u(1)[unfolded num_vertices_def] and v' = v(1)[unfolded num_vertices_def]
  let ?out = "b_out_edges B (graph g) u"
  let ?f = "find (\<lambda>e. b_target B (graph g) e = v) ?out"
  let ?stored = "(case ?f of None \<Rightarrow> [] | Some e \<Rightarrow> [get_edge_info B g e])"
  note rem = remove_edges_law[OF L I u' v'] and changed = same_vertices_graph[OF L g remove_edges_law(1,2)[OF L I u' v']]
  define g' where "g' = (g\<lparr>graph := b_remove_edges B u v (graph g)\<rparr>)\<lparr>removed_edges := ?stored\<rparr>"
  have "disconnect_edge B p q g = Inr g'"
    using u(3) v(3) ids r by (simp add: disconnect_edge_def has_vertex_ids g'_def split: option.split)
  moreover have "base_graph_ok B d I g'" "vertex_ids g' = vertex_ids g" using changed(1) by (simp_all add: g'_def)
  moreover have "id_arcs B g' = filter_mset (\<lambda>a. \<not> (from_to p q a \<or> \<not> d \<and> from_to q p a)) (id_arcs B g)"
  proof -
    have "filter_mset (\<lambda>a. \<not> (from_to p q a \<or> \<not> d \<and> from_to q p a)) (id_arcs B g) =
        image_mset (id_arc B g) (filter_mset (\<lambda>a. \<not> (from_to u v a \<or> \<not> d \<and> from_to v u a)) (garcs B (graph g)))"
      using id_inj[OF g _ u(1)] id_inj[OF g _ v(1)] u(2) v(2) by (intro filter_id_arcs[OF L g]) (auto simp: from_to_def)
    then show ?thesis using changed(2) rem(3) by (simp add: g'_def)
  qed
  moreover have out: "arc_of B (graph g) e \<in># garcs B (graph g)" if "e \<in> set ?out" for e
    using that u' by (auto simp: in_garcs_iff)
  have found: "e \<in> set ?out \<and> b_target B (graph g) e = v" if "?f = Some e" for e
    using that by (auto simp: find_Some_iff)
  have "\<forall>x \<in> set (removed_edges g'). info_in g' x"
    using info_of_arc[OF L g A] out found by (auto simp: g'_def info_in_def split: option.splits)
  moreover have "if \<exists>a \<in># id_arcs B g. from_to p q a
     then \<exists>i c. (p, q, i, c) \<in># id_arcs B g \<and> infos_ways d (removed_edges g') = ways d p q i c
     else removed_edges g' = []"
  proof (cases ?f)
    case None
    have "\<not> from_to p q a" if "a \<in># id_arcs B g" for a
    proof
      assume a: "from_to p q a"
      obtain b where b: "b \<in># garcs B (graph g)" "a = id_arc B g b" using \<open>a \<in># id_arcs B g\<close> by (auto simp: id_arcs_def)
      have ends: "fst b < num_vertices B g" "fst (snd b) < num_vertices B g"
        using garc_ends[OF L I b(1)] by (simp_all add: num_vertices_def)
      then have "fst b = u" "fst (snd b) = v"
        using a b(2) id_inj[OF g _ u(1)] id_inj[OF g _ v(1)] u(2) v(2) by (simp_all add: from_to_def)
      then have "b \<in># mset (map (arc_of B (graph g)) ?out)" unfolding out_edges_arcs[OF L I u'] using b(1) by simp
      then show False using None \<open>fst (snd b) = v\<close> by (auto simp: find_None_iff arc_of_def)
    qed
    then show ?thesis using None by (auto simp: g'_def)
  next
    case (Some e)
    have e: "e \<in> set ?out" "b_target B (graph g) e = v" "b_source B (graph g) e = u"
      using found[OF Some] out_edge_ends(1)[OF L I u'] by blast+
    have "id_arc B g (arc_of B (graph g) e) \<in># id_arcs B g" using out[OF e(1)] by (auto simp: id_arcs_def)
    then have mem: "(p, q, be_id (b_edge B (graph g) e), be_cost (b_edge B (graph g) e)) \<in># id_arcs B g"
      using e(2,3) u(2) v(2) by (simp add: id_arc_def arc_of_def)
    have "removed_edges g' = [get_edge_info B g e]" using Some by (simp add: g'_def)
    then have "infos_ways d (removed_edges g') = ways d p q (be_id (b_edge B (graph g) e)) (be_cost (b_edge B (graph g) e))"
      using e(2,3) u(2) v(2) by (simp add: info_ways_def get_edge_info_def)
    then show ?thesis using mem by (auto simp: from_to_def)
  qed
  ultimately show ?thesis by blast
qed

text \<open>Of several edges between two vertices one is stored.\<close>

lemma disconnect_restore_edge:
  assumes L: "adjacency_list B d I" and g: "base_graph_ok B d I g" and A: "nonnegative_arcs (id_arcs B g)"
    and ids: "p \<in> vertex_ids g" "q \<in> vertex_ids g" and r: "removed_edges g = []" and e: "\<exists>a \<in># id_arcs B g. from_to p q a"
  shows "\<exists>g1 g2 i c. disconnect_edge B p q g = Inr g1 \<and> restore_graph B g1 = Inr g2 \<and> base_graph_ok B d I g2 \<and>
    removed_edges g2 = [] \<and> (p, q, i, c) \<in># id_arcs B g \<and>
    id_arcs B g1 = filter_mset (\<lambda>a. \<not> (from_to p q a \<or> \<not> d \<and> from_to q p a)) (id_arcs B g) \<and>
    id_arcs B g2 = id_arcs B g1 + ways d p q i c"
proof -
  obtain g1 i c where g1: "disconnect_edge B p q g = Inr g1" "base_graph_ok B d I g1"
      "id_arcs B g1 = filter_mset (\<lambda>a. \<not> (from_to p q a \<or> \<not> d \<and> from_to q p a)) (id_arcs B g)"
      "\<forall>x \<in> set (removed_edges g1). info_in g1 x" "(p, q, i, c) \<in># id_arcs B g"
      "infos_ways d (removed_edges g1) = ways d p q i c"
    using disconnect_edge_ok[OF L g A ids r] e by auto
  obtain g2 where g2: "restore_graph B g1 = Inr g2" "base_graph_ok B d I g2" "removed_edges g2 = []"
      "id_arcs B g2 = id_arcs B g1 + infos_ways d (removed_edges g1)"
    using restore_graph_ok[OF L g1(2,4)] by blast
  show ?thesis using g1(1,3,5) g2(1-3) g2(4)[unfolded g1(6)] by blast
qed

section \<open>The outgoing edges with an id\<close>

lemma out_edges_length:
  assumes "adjacency_list B d I" "I h" "u < b_num_vertices B h"
  shows "length (b_out_edges B h u) = size (filter_mset (\<lambda>a. fst a = u) (garcs B h))"
  unfolding out_edges_arcs[OF assms, symmetric] by simp

lemma remove_out_edge:
  assumes L: "adjacency_list B d I" and g: "base_graph_ok B d I g" and v: "v < num_vertices B g"
    and e: "e \<in> set (b_out_edges B (graph g) v)"
  defines "g' \<equiv> g\<lparr>removed_edges := removed_edges g @ [get_edge_info B g e], graph := b_remove_edge B e (graph g)\<rparr>"
  shows "base_graph_ok B d I g'" "vertex_ids g' = vertex_ids g" "num_vertices B g' = num_vertices B g"
    "vertex_id_of B g' v = vertex_id_of B g v" "id_arcs B g' + info_ways d (get_edge_info B g e) = id_arcs B g"
    "length (b_out_edges B (graph g') v) < length (b_out_edges B (graph g) v)"
proof -
  note I = base_graph_okD(1)[OF g] and v' = v[unfolded num_vertices_def]
  note rem = remove_edge_law[OF L I v' e]
  note changed = same_vertices_graph[OF L g rem(1,2)]
  have g'_eq: "g' = (g\<lparr>graph := b_remove_edge B e (graph g)\<rparr>)\<lparr>removed_edges := removed_edges g @ [get_edge_info B g e]\<rparr>"
    by (simp add: g'_def)
  show "base_graph_ok B d I g'" "vertex_ids g' = vertex_ids g" unfolding g'_eq using changed(1) by simp_all
  show n: "num_vertices B g' = num_vertices B g" using rem(2) by (simp add: g'_def num_vertices_def same_vertices_def)
  show "vertex_id_of B g' v = vertex_id_of B g v" unfolding g'_eq using changed(3)[OF v] by simp
  have sub: "edge_ways B d (graph g) e \<subseteq># garcs B (graph g)" by (rule edge_ways_law[OF L I v' e])
  have info: "info_ways d (get_edge_info B g e) = image_mset (id_arc B g) (edge_ways B d (graph g) e)"
    by (simp add: info_ways_def get_edge_info_def edge_ways_def image_ways)
  have "id_arcs B g' = image_mset (id_arc B g) (garcs B (graph g) - edge_ways B d (graph g) e)"
    unfolding g'_eq using changed(2) rem(3) by simp
  then show "id_arcs B g' + info_ways d (get_edge_info B g e) = id_arcs B g"
    unfolding info id_arcs_def by (simp flip: image_mset_union add: subset_mset.diff_add[OF sub])
  have "arc_of B (graph g) e \<in># filter_mset (\<lambda>a. fst a = v) (edge_ways B d (graph g) e)"
    using out_edge_ends(1)[OF L I v' e] by (simp add: edge_ways_def ways_def arc_of_def)
  then have pos: "0 < size (filter_mset (\<lambda>a. fst a = v) (edge_ways B d (graph g) e))"
    by (metis nonempty_has_size empty_iff set_mset_empty)
  have sub': "filter_mset (\<lambda>a. fst a = v) (edge_ways B d (graph g) e) \<subseteq># filter_mset (\<lambda>a. fst a = v) (garcs B (graph g))"
    by (rule multiset_filter_mono[OF sub])
  have "v < b_num_vertices B (graph g')" using n v by (simp add: num_vertices_def)
  then have "length (b_out_edges B (graph g') v) =
      size (filter_mset (\<lambda>a. fst a = v) (garcs B (graph g) - edge_ways B d (graph g) e))"
    using out_edges_length[OF L, of "graph g'" v] rem(1,3) by (simp add: g'_def)
  also have "\<dots> < length (b_out_edges B (graph g) v)"
    using pos size_mset_mono[OF sub'] unfolding out_edges_length[OF L I v'] by (simp add: size_Diff_submset[OF sub'])
  finally show "length (b_out_edges B (graph g') v) < length (b_out_edges B (graph g) v)" .
qed

lemma out_going_loop_ok:
  assumes L: "adjacency_list B d I" and "base_graph_ok B d I g" "v < num_vertices B g" "nonnegative_arcs (id_arcs B g)"
    and "length (b_out_edges B (graph g) v) < n"
  shows "\<exists>g' xs. out_going_loop B n v eid g = Inr g' \<and> base_graph_ok B d I g' \<and> vertex_ids g' = vertex_ids g \<and>
    removed_edges g' = removed_edges g @ xs \<and> (\<forall>x \<in> set xs. info_in g' x \<and> be_source x = vertex_id_of B g v \<and> be_id x = eid) \<and>
    id_arcs B g' + infos_ways d xs = id_arcs B g \<and>
    (\<forall>a \<in># id_arcs B g'. \<not> (fst a = vertex_id_of B g v \<and> fst (snd (snd a)) = eid))"
  using assms(2-5)
proof (induction n arbitrary: g)
  case (Suc n)
  note g = Suc.prems(1) and v = Suc.prems(2) and A = Suc.prems(3)
  note I = base_graph_okD(1)[OF g] and v' = v[unfolded num_vertices_def]
  let ?out = "b_out_edges B (graph g) v"
  show ?case
  proof (cases "find (\<lambda>e. be_id (b_edge B (graph g) e) = eid) ?out")
    case None
    have "\<not> (fst a = vertex_id_of B g v \<and> fst (snd (snd a)) = eid)" if mem: "a \<in># id_arcs B g" for a
    proof
      assume a: "fst a = vertex_id_of B g v \<and> fst (snd (snd a)) = eid"
      obtain b where b: "b \<in># garcs B (graph g)" "a = id_arc B g b" using mem by (auto simp: id_arcs_def)
      have "fst b = v"
        using a b id_inj[OF g _ v] garc_ends(1)[OF L I b(1)] by (simp add: num_vertices_def)
      then have "b \<in># mset (map (arc_of B (graph g)) ?out)" unfolding out_edges_arcs[OF L I v'] using b(1) by simp
      then show False using None a b(2) by (auto simp: find_None_iff arc_of_def)
    qed
    then show ?thesis using None g by (intro exI[of _ g] exI[of _ "[]"]) simp
  next
    case (Some e)
    have e: "e \<in> set ?out" "be_id (b_edge B (graph g) e) = eid" using Some by (auto simp: find_Some_iff)
    define g1 where "g1 = g\<lparr>removed_edges := removed_edges g @ [get_edge_info B g e], graph := b_remove_edge B e (graph g)\<rparr>"
    note r = remove_out_edge[OF L g v e(1), folded g1_def]
    have "nonnegative_arcs (id_arcs B g1)"
      using A unfolding nonnegative_arcs_def r(5)[symmetric] by simp
    from Suc.IH[OF r(1) _ this] r(3,6) v Suc.prems(4) obtain g' xs where g': "out_going_loop B n v eid g1 = Inr g'"
        "base_graph_ok B d I g'" "vertex_ids g' = vertex_ids g1" "removed_edges g' = removed_edges g1 @ xs"
        "\<forall>x \<in> set xs. info_in g' x \<and> be_source x = vertex_id_of B g1 v \<and> be_id x = eid"
        "id_arcs B g' + infos_ways d xs = id_arcs B g1"
        "\<forall>a \<in># id_arcs B g'. \<not> (fst a = vertex_id_of B g1 v \<and> fst (snd (snd a)) = eid)"
      by auto
    have "arc_of B (graph g) e \<in># garcs B (graph g)" using e(1) v' by (auto simp: in_garcs_iff)
    then have "info_in g (get_edge_info B g e)" by (rule info_of_arc[OF L g A])
    then have info: "info_in g' (get_edge_info B g e)" using g'(3) r(2) by (simp add: info_in_def)
    have src: "be_source (get_edge_info B g e) = vertex_id_of B g v" "be_id (get_edge_info B g e) = eid"
      using out_edge_ends(1)[OF L I v' e(1)] e(2) by (simp_all add: get_edge_info_def)
    have "out_going_loop B (Suc n) v eid g = Inr g'" using Some g'(1) by (simp add: g1_def)
    moreover have "removed_edges g' = removed_edges g @ (get_edge_info B g e # xs)" using g'(4) by (simp add: g1_def)
    moreover have "id_arcs B g' + infos_ways d (get_edge_info B g e # xs) = id_arcs B g"
      unfolding r(5)[symmetric] g'(6)[symmetric] by (simp add: ac_simps)
    ultimately show ?thesis
      using g'(2,3,5,7) r(2,4) info src by (intro exI[of _ g'] exI[of _ "get_edge_info B g e # xs"]) simp
  qed
qed simp

lemma disconnect_restore_out_going:
  assumes L: "adjacency_list B d I" and g: "base_graph_ok B d I g" and A: "nonnegative_arcs (id_arcs B g)"
    and vid: "vid \<in> vertex_ids g" and r: "removed_edges g = []"
  shows "\<exists>g1 g2. disconnect_out_going_edge B vid eid g = Inr g1 \<and> base_graph_ok B d I g1 \<and> id_arcs B g1 \<subseteq># id_arcs B g \<and>
    (\<forall>a \<in># id_arcs B g1. \<not> (fst a = vid \<and> fst (snd (snd a)) = eid)) \<and>
    (\<forall>a \<in># id_arcs B g - id_arcs B g1. touches vid a \<and> fst (snd (snd a)) = eid) \<and>
    restore_graph B g1 = Inr g2 \<and> base_graph_ok B d I g2 \<and> id_arcs B g2 = id_arcs B g \<and> removed_edges g2 = [] \<and>
    vertex_ids g1 = vertex_ids g \<and> vertex_ids g2 = vertex_ids g"
proof -
  obtain v where v: "v < num_vertices B g" "vertex_id_of B g v = vid" "get_V g vid = Inr v"
    using descriptor_of_id[OF g vid] get_V_ok[OF g] by metis
  obtain g1 xs where g1: "out_going_loop B (length (b_out_edges B (graph g) v) + 1) v eid g = Inr g1" "base_graph_ok B d I g1"
      "vertex_ids g1 = vertex_ids g" "removed_edges g1 = xs"
      "\<forall>x \<in> set xs. info_in g1 x \<and> be_source x = vid \<and> be_id x = eid" "id_arcs B g1 + infos_ways d xs = id_arcs B g"
      "\<forall>a \<in># id_arcs B g1. \<not> (fst a = vid \<and> fst (snd (snd a)) = eid)"
    using out_going_loop_ok[OF L g v(1) A, of "length (b_out_edges B (graph g) v) + 1" eid] v(2) r by auto
  have dis: "disconnect_out_going_edge B vid eid g = Inr g1"
    using g1(1) v(3) vid by (simp add: disconnect_out_going_edge_def has_vertex_ids)
  obtain g2 where g2: "restore_graph B g1 = Inr g2" "base_graph_ok B d I g2" "removed_edges g2 = []" "vertex_ids g2 = vertex_ids g1"
      "id_arcs B g2 = id_arcs B g1 + infos_ways d (removed_edges g1)"
    using restore_graph_ok[OF L g1(2)] g1(4,5) by blast
  have diff: "id_arcs B g - id_arcs B g1 = infos_ways d xs" unfolding g1(6)[symmetric] by simp
  have "touches vid a \<and> fst (snd (snd a)) = eid" if "a \<in># infos_ways d xs" for a
    using that g1(5) by (induction xs) (auto simp: info_ways_def ways_def touches_def split: if_splits)
  then have "\<forall>a \<in># id_arcs B g - id_arcs B g1. touches vid a \<and> fst (snd (snd a)) = eid" unfolding diff by blast
  moreover have "id_arcs B g1 \<subseteq># id_arcs B g" unfolding g1(6)[symmetric] by simp
  moreover have "id_arcs B g2 = id_arcs B g" using g2(5) g1(4,6) by simp
  ultimately show ?thesis using dis g1(2,3,7) g2(1-4) by auto
qed

end
