(* ===== verification/Via_laws.thy ===== *)
theory Via_laws
  imports Via_routes Path_answers Graph_changes
begin

text \<open>
  Routes through via vertices: every leg answers its pair, the graph gets back the edges that were taken
  away for a leg, and the rows of the route carry the cost so far.
\<close>

section \<open>One pair\<close>

lemma dijkstra_one_pair:
  assumes L: "adjacency_list B d I" and g: "base_graph_ok B d I g" and A: "arcs_ok (garcs B (graph g))" and S: "searches B I"
    and ids: "s \<in> vertex_ids g" "t \<in> vertex_ids g"
  shows "\<exists>p. dijkstra_1_to_1 B g s t False = Inr p \<and> from_search (id_arcs B g) s t p"
proof -
  have one: "add_pair s t [] = [(s, [t])]" by (simp add: add_pair_def targets_of_def)
  have "\<exists>ps. dijkstra B g [(s, [t])] False size_max = Inr ps \<and> path_per_pair (id_arcs B g) {(s, t)} ps"
    using dijkstra_paths[OF L g A S, of "[(s, [t])]" size_max] ids by (simp add: combined_def size_max_def)
  then obtain ps where ps: "dijkstra B g [(s, [t])] False size_max = Inr ps" "path_per_pair (id_arcs B g) {(s, t)} ps"
    by blast
  then obtain p qs where "ps = p # qs" by (cases ps) (auto simp: path_per_pair_def)
  moreover from this have "path_ends p = (s, t)" "from_search (id_arcs B g) (m_start_id p) (m_end_id p) p"
    using ps(2) by (auto simp: path_per_pair_def)
  ultimately show ?thesis using ps(1) one by (auto simp: dijkstra_1_to_1_def path_ends_def)
qed

text \<open>A vertex that is not in the graph: there is no path, and the first of no paths is undefined.\<close>

lemma dijkstra_missing_vertex:
  assumes "s \<notin> vertex_ids g \<or> t \<notin> vertex_ids g"
  shows "dijkstra_1_to_1 B g s t only_cost = Inl UndefinedBehaviour"
proof -
  have one: "add_pair s t [] = [(s, [t])]" by (simp add: add_pair_def targets_of_def)
  have "dijkstra_from B g s [t] only_cost size_max = Inr []"
  proof (cases "s \<in> vertex_ids g")
    case True
    then have "map_of (vertices_map g) t = None" using assms by (auto simp: vertex_ids_def domIff)
    then have "destinations_of g [t] = []" by (simp add: destinations_of_def)
    moreover obtain v where "get_V g s = Inr v" using True by (auto simp: vertex_ids_def get_V_def)
    ultimately show ?thesis using True by (simp add: dijkstra_from_def has_vertex_ids get_paths_def Let_def)
  qed (simp add: dijkstra_from_def has_vertex_ids)
  then show ?thesis by (simp add: dijkstra_1_to_1_def dijkstra_def one)
qed

section \<open>A leg\<close>

text \<open>The edge that a path arrives on.\<close>

definition arrival_edge :: "Path \<Rightarrow> int option" where
  "arrival_edge p = (if 1 < length (path p) then Some (edge (path p ! (length (path p) - 2))) else None)"

text \<open>
  A leg is a walk exactly when its ends are connected, and it is a cheapest one when U-turns are allowed
  or when it leaves on the edge that the leg before arrived on.
\<close>

definition leg_ok :: "int garc multiset \<Rightarrow> bool \<Rightarrow> int option \<Rightarrow> int \<Rightarrow> int \<Rightarrow> Path \<Rightarrow> bool" where
  "leg_ok A U_turn arrived s t p \<longleftrightarrow> m_start_id p = s \<and> m_end_id p = t \<and>
     (path p \<noteq> [] \<longleftrightarrow> s \<noteq> t \<and> reachable A s t) \<and> (path p \<noteq> [] \<longrightarrow> path_walks A p) \<and>
     (path p \<noteq> [] \<and> (U_turn \<or> arrived = None \<or> arrived = Some (edge (hd (path p)))) \<longrightarrow> cheapest A p)"

lemma path_walks_nonempty: "path_walks A p \<Longrightarrow> path p \<noteq> []"
  by (auto simp: path_walks_def)

lemma leg_of_search:
  assumes "from_search A s t p"
  shows "leg_ok A U_turn arrived s t p"
proof (cases "s \<noteq> t \<and> reachable A s t")
  case True
  then have "cheapest A p" using assms by (simp add: from_search_def)
  then show ?thesis using True assms path_walks_nonempty[of A p] by (simp add: leg_ok_def from_search_def cheapest_def)
next
  case False
  then have "path p = []" "m_start_id p = s" "m_end_id p = t" using assms by (auto simp: from_search_def)
  then show ?thesis using False by (simp add: leg_ok_def)
qed

lemma arc_walk_mono: "A' \<subseteq># A \<Longrightarrow> arc_walk A' s as t \<Longrightarrow> arc_walk A s as t"
  by (induction as arbitrary: s) (auto dest: mset_subset_eqD)

lemma path_walks_mono:
  assumes "A' \<subseteq># A" "path_walks A' p"
  shows "path_walks A p"
proof -
  obtain rs r where "path p = rs @ [r]" "rs \<noteq> []" "node r = m_end_id p" "edge r = -1" "cost r = 0"
      "arc_walk A' (m_start_id p) (row_arcs_of rs (m_end_id p)) (m_end_id p)"
    using assms(2) unfolding path_walks_def by blast
  then show ?thesis unfolding path_walks_def using arc_walk_mono[OF assms(1)] by (intro exI[of _ rs] exI[of _ r]) simp
qed

lemma first_arc:
  assumes "path_walks A p"
  shows "\<exists>a \<in># A. fst a = m_start_id p \<and> fst (snd (snd a)) = edge (hd (path p))"
proof -
  obtain rs r where p: "path p = rs @ [r]" "rs \<noteq> []" "arc_walk A (m_start_id p) (row_arcs_of rs (m_end_id p)) (m_end_id p)"
    using assms unfolding path_walks_def by blast
  obtain q qs where "rs = q # qs" using p(2) by (cases rs) auto
  then show ?thesis using p(1,3) by force
qed

text \<open>A leg that avoids the edge of the arrival, on the arcs that are left.\<close>

lemma leg_avoiding:
  assumes f: "from_search A' s t p" and A': "A' \<subseteq># A" "\<forall>a \<in># A'. \<not> (fst a = s \<and> fst (snd (snd a)) = e)" and p: "path p \<noteq> []"
  shows "leg_ok A False (Some e) s t p"
proof -
  have c: "m_start_id p = s" "m_end_id p = t" "s \<noteq> t" "path_walks A' p"
    using f p by (auto simp: from_search_def cheapest_def split: if_splits)
  have "edge (hd (path p)) \<noteq> e" using first_arc[OF c(4)] A'(2) c(1) by blast
  moreover have "path_walks A p" using path_walks_mono[OF A'(1) c(4)] .
  moreover from this have "reachable A s t" using path_walks_reachable c(1,2) by metis
  ultimately show ?thesis using c(1-3) p by (auto simp: leg_ok_def)
qed

section \<open>The state between legs\<close>

definition legs_graph :: "('g, 'e) bgl \<Rightarrow> bool \<Rightarrow> ('g \<Rightarrow> bool) \<Rightarrow> int garc multiset \<Rightarrow> int set \<Rightarrow> 'g Pgr_base_graph \<Rightarrow> bool" where
  "legs_graph B d I A V g \<longleftrightarrow> base_graph_ok B d I g \<and> id_arcs B g = A \<and> vertex_ids g = V \<and> removed_edges g = []"

lemma arcs_ok_nonnegative: "arcs_ok A \<Longrightarrow> nonnegative_arcs A"
  by (fastforce simp: arcs_ok_def nonnegative_arcs_def garc_cost_def cost_ok_def zero_double_def)

lemma arcs_ok_mono: "arcs_ok A \<Longrightarrow> A' \<subseteq># A \<Longrightarrow> arcs_ok A'"
  by (auto simp: arcs_ok_def dest: mset_subset_eqD)

lemma restore_nothing: "removed_edges g = [] \<Longrightarrow> restore_graph B g = Inr g"
  by (simp add: restore_graph_def)

text \<open>Taking the edge of the arrival away, and what brings it back.\<close>

lemma without_u_turn_ok:
  assumes L: "adjacency_list B d I" and g: "legs_graph B d I A V g" and A: "arcs_ok A" and s: "s \<in> V"
  shows "\<exists>g1 g2. without_u_turn B s p g = Inr g1 \<and> base_graph_ok B d I g1 \<and> vertex_ids g1 = V \<and> id_arcs B g1 \<subseteq># A \<and>
    restore_graph B g1 = Inr g2 \<and> legs_graph B d I A V g2 \<and>
    (id_arcs B g1 = A \<or> (\<exists>e. arrival_edge p = Some e \<and> (\<forall>a \<in># id_arcs B g1. \<not> (fst a = s \<and> fst (snd (snd a)) = e))))"
proof -
  have ok: "base_graph_ok B d I g" "id_arcs B g = A" "vertex_ids g = V" "removed_edges g = []"
    using g by (simp_all add: legs_graph_def)
  obtain v where v: "get_V g s = Inr v" using s ok(3) by (auto simp: get_V_def vertex_ids_def)
  have deg: "out_degree B g s = Inr (out_degree_of B g v)" using s ok(3) v by (simp add: out_degree_def has_vertex_ids)
  show ?thesis
  proof (cases "1 < length (path p) \<and> 1 < out_degree_of B g v")
    case True
    let ?e = "edge (path p ! (length (path p) - 2))"
    obtain g1 g2 where r: "disconnect_out_going_edge B s ?e g = Inr g1" "base_graph_ok B d I g1" "id_arcs B g1 \<subseteq># A"
        "\<forall>a \<in># id_arcs B g1. \<not> (fst a = s \<and> fst (snd (snd a)) = ?e)" "restore_graph B g1 = Inr g2" "base_graph_ok B d I g2"
        "id_arcs B g2 = A" "removed_edges g2 = []" "vertex_ids g1 = V" "vertex_ids g2 = V"
      using disconnect_restore_out_going[OF L ok(1) arcs_ok_nonnegative _ ok(4), of s ?e] A s ok(2,3) by auto
    have "without_u_turn B s p g = Inr g1" using True deg r(1) by (simp add: without_u_turn_def)
    moreover have "legs_graph B d I A V g2" using r(6-8,10) by (simp add: legs_graph_def)
    moreover have "arrival_edge p = Some ?e" using True by (simp add: arrival_edge_def)
    ultimately show ?thesis using r(2-5,9) by blast
  next
    case False
    then have "without_u_turn B s p g = Inr g" using deg by (auto simp: without_u_turn_def)
    then show ?thesis using ok g restore_nothing[OF ok(4)] by auto
  qed
qed

lemma via_leg_ok:
  assumes L: "adjacency_list B d I" and S: "searches B I" and g: "legs_graph B d I A V g" and A: "arcs_ok A"
    and ids: "s \<in> V" "t \<in> V"
  shows "\<exists>q g'. via_leg B U later s t (p, g) = Inr (q, g') \<and> legs_graph B d I A V g' \<and>
    leg_ok A U (if later then arrival_edge p else None) s t q"
proof -
  have search: "\<exists>q. dijkstra_1_to_1 B h s t False = Inr q \<and> from_search (id_arcs B h) s t q"
    if "base_graph_ok B d I h" "vertex_ids h = V" "id_arcs B h \<subseteq># A" for h
    using dijkstra_one_pair[OF L that(1) _ S] that(2) ids arcs_ok_mono[OF A that(3)] arcs_ok_ids[of B h] by simp
  have ok: "base_graph_ok B d I g" "id_arcs B g = A" "vertex_ids g = V" using g by (simp_all add: legs_graph_def)
  show ?thesis
  proof (cases "\<not> U \<and> later")
    case False
    obtain q where q: "dijkstra_1_to_1 B g s t False = Inr q" "from_search A s t q" using search[of g] ok by auto
    then have "via_leg B U later s t (p, g) = Inr (q, g)" using False by (auto simp: via_leg_def)
    then show ?thesis using g leg_of_search[OF q(2)] by blast
  next
    case True
    obtain g1 g2 where r: "without_u_turn B s p g = Inr g1" "base_graph_ok B d I g1" "vertex_ids g1 = V" "id_arcs B g1 \<subseteq># A"
        "restore_graph B g1 = Inr g2" "legs_graph B d I A V g2"
        "id_arcs B g1 = A \<or> (\<exists>e. arrival_edge p = Some e \<and> (\<forall>a \<in># id_arcs B g1. \<not> (fst a = s \<and> fst (snd (snd a)) = e)))"
      using without_u_turn_ok[OF L g A ids(1), of p] by blast
    obtain q where q: "dijkstra_1_to_1 B g1 s t False = Inr q" "from_search (id_arcs B g1) s t q" using search[OF r(2-4)] by blast
    show ?thesis
    proof (cases "path q = []")
      case empty: True
      obtain q2 where q2: "dijkstra_1_to_1 B g2 s t False = Inr q2" "from_search A s t q2"
        using search[of g2] r(6) by (auto simp: legs_graph_def)
      have "via_leg B U later s t (p, g) = Inr (q2, g2)" using True r(1,5) q(1) q2(1) empty by (simp add: via_leg_def)
      then show ?thesis using r(6) leg_of_search[OF q2(2)] by blast
    next
      case nonempty: False
      have "via_leg B U later s t (p, g) = Inr (q, g2)" using True r(1,5) q(1) nonempty by (simp add: via_leg_def)
      moreover have "leg_ok A U (if later then arrival_edge p else None) s t q"
        using r(7)
      proof
        assume "id_arcs B g1 = A"
        then show ?thesis using leg_of_search q(2) by simp
      next
        assume "\<exists>e. arrival_edge p = Some e \<and> (\<forall>a \<in># id_arcs B g1. \<not> (fst a = s \<and> fst (snd (snd a)) = e))"
        then obtain e where e: "arrival_edge p = Some e" "\<forall>a \<in># id_arcs B g1. \<not> (fst a = s \<and> fst (snd (snd a)) = e)" by blast
        show ?thesis using leg_avoiding[OF q(2) r(4) e(2) nonempty] True e(1) by simp
      qed
      ultimately show ?thesis using r(6) by blast
    qed
  qed
qed

section \<open>All legs\<close>

text \<open>Every leg, given the leg before it.\<close>

fun legs_ok :: "int garc multiset \<Rightarrow> bool \<Rightarrow> int option \<Rightarrow> int \<Rightarrow> int list \<Rightarrow> Path list \<Rightarrow> bool" where
  "legs_ok A U arrived s [] qs \<longleftrightarrow> qs = []"
| "legs_ok A U arrived s (t # ts) [] \<longleftrightarrow> False"
| "legs_ok A U arrived s (t # ts) (q # qs) \<longleftrightarrow> leg_ok A U arrived s t q \<and> legs_ok A U (arrival_edge q) t ts qs"

lemma via_legs_ok:
  assumes L: "adjacency_list B d I" and S: "searches B I" and A: "arcs_ok A"
  shows "legs_graph B d I A V g \<Longrightarrow> s \<in> V \<Longrightarrow> set ts \<subseteq> V \<Longrightarrow>
    \<exists>qs g'. legs_graph B d I A V g' \<and> legs_ok A U (if later then arrival_edge p else None) s ts qs \<and>
      via_legs B U strict later s ts (p, g) ps = Inr (if strict \<and> [] \<in> path ` set qs then [] else ps @ qs, g')"
proof (induction ts arbitrary: g s p later ps)
  case Nil
  then show ?case by (intro exI[of _ "[]"] exI[of _ g]) simp
next
  case (Cons t ts)
  obtain q g1 where q: "via_leg B U later s t (p, g) = Inr (q, g1)" "legs_graph B d I A V g1"
      "leg_ok A U (if later then arrival_edge p else None) s t q"
    using via_leg_ok[OF L S Cons.prems(1) A Cons.prems(2), of t U later p] Cons.prems(3) by auto
  obtain qs g' where r: "legs_graph B d I A V g'" "legs_ok A U (arrival_edge q) t ts qs"
      "via_legs B U strict True t ts (q, g1) (ps @ [q]) = Inr (if strict \<and> [] \<in> path ` set qs then [] else (ps @ [q]) @ qs, g')"
    using Cons.IH[OF q(2), of t True q "ps @ [q]"] Cons.prems(3) by auto
  show ?case
  proof (cases "strict \<and> path q = []")
    case True
    have "legs_ok A U (if later then arrival_edge p else None) s (t # ts) (q # qs)" using q(3) r(2) by simp
    moreover have "via_legs B U strict later s (t # ts) (p, g) ps = Inr ([], g1)" using q(1) True by simp
    moreover have "[] \<in> path ` set (q # qs)" using True by auto
    ultimately show ?thesis using q(2) True by (intro exI[of _ "q # qs"] exI[of _ g1]) simp
  next
    case False
    have "via_legs B U strict later s (t # ts) (p, g) ps = via_legs B U strict True t ts (q, g1) (ps @ [q])"
      using q(1) False by auto
    then show ?thesis using q(3) r False by (intro exI[of _ "q # qs"] exI[of _ g']) auto
  qed
qed

text \<open>From the rows of the edges on.\<close>

lemma via_of_edges:
  assumes L: "adjacency_list B d I" and S: "searches B I" and A: "arcs_ok (rows_arcs d True edges)"
    and V: "set (s # ts) \<subseteq> rows_ids edges"
  shows "\<exists>g qs g'. insert_edges B edges True (Pgr_base_graph_empty B d) = Inr g \<and>
    legs_ok (rows_arcs d True edges) U None s ts qs \<and> legs_graph B d I (rows_arcs d True edges) (rows_ids edges) g' \<and>
    dijkstraVia B g (s # ts) [] strict U = Inr (if strict \<and> [] \<in> path ` set qs then [] else qs, g')"
proof -
  obtain g where g: "insert_edges B edges True (Pgr_base_graph_empty B d) = Inr g" "base_graph_ok B d I g"
      "id_arcs B g = rows_arcs d True edges" "vertex_ids g = rows_ids edges" "removed_edges g = []"
    by (rule graph_of_rows[OF L])
  then have "legs_graph B d I (rows_arcs d True edges) (rows_ids edges) g" by (simp add: legs_graph_def)
  from via_legs_ok[OF L S A this, of s ts U False Path_none strict "[]"] V g(1)
  show ?thesis by (auto simp: dijkstraVia_def)
qed

text \<open>A via vertex that no edge has.\<close>

lemma via_missing_vertex:
  assumes "s \<notin> vertex_ids g \<or> t \<notin> vertex_ids g"
  shows "dijkstraVia B g (s # t # ts) ps strict U = Inl UndefinedBehaviour"
  by (simp add: dijkstra_missing_vertex[OF assms] dijkstraVia_def via_leg_def)

section \<open>The rows\<close>

lemma route_path_rows_spec:
  "\<exists>rows. route_path_rows r i p n es c = (rows, c + path_cost es) \<and> length rows = length es \<and>
     (\<forall>k < length es. route_agg_cost (rows ! k) = c + path_cost (take k es) \<and> path_seq (rows ! k) = n + int k \<and>
        path_id (rows ! k) = i \<and> route_node (rows ! k) = node (es ! k) \<and> route_edge (rows ! k) = edge (es ! k) \<and>
        route_cost (rows ! k) = cost (es ! k))"
proof (induction es arbitrary: n c)
  case (Cons e es)
  obtain rows where rows: "route_path_rows r i p (n + 1) es (c + cost e) = (rows, c + cost e + path_cost es)" "length rows = length es"
      "\<forall>k < length es. route_agg_cost (rows ! k) = c + cost e + path_cost (take k es) \<and> path_seq (rows ! k) = n + 1 + int k \<and>
        path_id (rows ! k) = i \<and> route_node (rows ! k) = node (es ! k) \<and> route_edge (rows ! k) = edge (es ! k) \<and>
        route_cost (rows ! k) = cost (es ! k)"
    using Cons.IH by blast
  show ?case using rows by (auto simp: add.assoc nth_Cons' take_Cons' split: if_splits)
qed simp

lemma route_rows_costs:
  "map route_cost (route_rows i ps c) = concat (map (\<lambda>p. map cost (path p)) ps) \<and>
   map route_edge (route_rows i ps c) = concat (map (\<lambda>p. map edge (path p)) ps) \<and>
   map route_node (route_rows i ps c) = concat (map (\<lambda>p. map node (path p)) ps) \<and>
   (\<forall>k < length (route_rows i ps c). route_agg_cost (route_rows i ps c ! k) = c + sum_list (map route_cost (take k (route_rows i ps c))))"
proof (induction ps arbitrary: i c)
  case (Cons p ps)
  obtain rows where rows: "route_path_rows 1 i p 0 (path p) c = (rows, c + path_cost (path p))" "length rows = length (path p)"
      "\<forall>k < length (path p). route_agg_cost (rows ! k) = c + path_cost (take k (path p)) \<and> path_seq (rows ! k) = 0 + int k \<and>
        path_id (rows ! k) = i \<and> route_node (rows ! k) = node (path p ! k) \<and> route_edge (rows ! k) = edge (path p ! k) \<and>
        route_cost (rows ! k) = cost (path p ! k)"
    using route_path_rows_spec[of 1 i p 0 "path p" c] by blast
  let ?rest = "route_rows (i + 1) ps (c + path_cost (path p))"
  have maps: "map route_cost rows = map cost (path p)" "map route_edge rows = map edge (path p)" "map route_node rows = map node (path p)"
    using rows(2,3) by (auto intro!: nth_equalityI)
  have all: "route_rows i (p # ps) c = rows @ ?rest" by (simp add: rows(1))
  have "route_agg_cost ((rows @ ?rest) ! k) = c + sum_list (map route_cost (take k (rows @ ?rest)))" if k: "k < length (rows @ ?rest)" for k
  proof (cases "k < length rows")
    case True
    then show ?thesis using rows(2,3) maps(1) by (simp add: nth_append flip: take_map)
  next
    case False
    then show ?thesis
      using Cons.IH[of "i + 1" "c + path_cost (path p)"] k maps(1) by (simp add: nth_append add.assoc)
  qed
  then show ?case using Cons.IH[of "i + 1" "c + path_cost (path p)"] maps unfolding all by simp
qed simp

text \<open>The rows of a route: those of the paths, with the cost so far, and -2 as the edge behind the end.\<close>

lemma get_viaRoute_rows:
  assumes "count_tuples paths \<noteq> 0"
  shows "\<exists>rows. get_viaRoute paths = Inr rows \<and> length rows = count_tuples paths \<and>
    map route_node rows = concat (map (\<lambda>p. map node (path p)) paths) \<and>
    map route_cost rows = concat (map (\<lambda>p. map cost (path p)) paths) \<and>
    map route_edge rows = (concat (map (\<lambda>p. map edge (path p)) paths))[count_tuples paths - 1 := -2] \<and>
    (\<forall>k < length rows. route_agg_cost (rows ! k) = sum_list (map route_cost (take k rows)))"
proof -
  let ?rows = "route_rows 1 (map recalculate_agg_cost paths) 0" and ?n = "count_tuples paths"
  note r = route_rows_costs[of 1 "map recalculate_agg_cost paths" 0]
  have maps: "map route_cost ?rows = concat (map (\<lambda>p. map cost (path p)) paths)"
      "map route_edge ?rows = concat (map (\<lambda>p. map edge (path p)) paths)"
      "map route_node ?rows = concat (map (\<lambda>p. map node (path p)) paths)"
    using r by (simp_all add: recalculate_agg_cost_def comp_def)
  have count: "foldl (\<lambda>n p. n + length (path p)) k ps = k + length (concat (map (\<lambda>p. map cost (path p)) ps))" for k ps
    by (induction ps arbitrary: k) auto
  have len: "length ?rows = ?n"
    using arg_cong[OF maps(1), of length] count[of 0 paths] by (simp add: count_tuples_def)
  let ?tuples = "?rows[?n - 1 := (?rows ! (?n - 1))\<lparr>route_edge := -2\<rparr>]"
  have n: "?n - 1 < length ?rows" using assms len by simp
  have same: "map f ?tuples = map f ?rows" if "\<And>x. f (x\<lparr>route_edge := -2\<rparr>) = f x" for f :: "Routes_t \<Rightarrow> 'z"
    using n by (simp add: map_update that) (metis length_map list_update_id nth_map)
  have "get_viaRoute paths = Inr ?tuples" using assms len by (simp add: get_viaRoute_def Let_def)
  moreover have "map route_edge ?tuples = (map route_edge ?rows)[?n - 1 := -2]" by (simp add: map_update)
  moreover have "route_agg_cost (?tuples ! k) = sum_list (map route_cost (take k ?tuples))" if k: "k < length ?tuples" for k
  proof -
    have kr: "k < length ?rows" using k by simp
    have "map route_agg_cost ?tuples ! k = map route_agg_cost ?rows ! k" using same[of route_agg_cost] by simp
    then have "route_agg_cost (?tuples ! k) = route_agg_cost (?rows ! k)" unfolding nth_map[OF k] nth_map[OF kr] .
    also have "\<dots> = sum_list (map route_cost (take k ?rows))" using r kr by simp
    also have "map route_cost (take k ?rows) = map route_cost (take k ?tuples)"
      unfolding take_map[symmetric] using same[of route_cost] by simp
    finally show ?thesis .
  qed
  ultimately show ?thesis using maps same[of route_node] same[of route_cost] len by auto
qed

definition route_of :: "Path list \<Rightarrow> Routes_t list \<Rightarrow> bool" where
  "route_of paths rows \<longleftrightarrow>
     map route_node rows = concat (map (\<lambda>p. map node (path p)) paths) \<and>
     map route_cost rows = concat (map (\<lambda>p. map cost (path p)) paths) \<and>
     map route_edge rows = (concat (map (\<lambda>p. map edge (path p)) paths))[length rows - 1 := -2] \<and>
     (\<forall>k < length rows. route_agg_cost (rows ! k) = sum_list (map route_cost (take k rows)))"

lemma get_viaRoute_of: "\<exists>rows. get_viaRoute paths = Inr rows \<and> route_of paths rows"
proof (cases "count_tuples paths = 0")
  case False
  then show ?thesis using get_viaRoute_rows[OF False] unfolding route_of_def by auto
next
  case True
  have "foldl (\<lambda>n p. n + length (path p)) k ps = (0 :: nat) \<Longrightarrow> k = 0 \<and> (\<forall>p \<in> set ps. path p = [])" for k ps
  proof (induction ps arbitrary: k)
    case (Cons p ps)
    have "foldl (\<lambda>n p. n + length (path p)) (k + length (path p)) ps = 0" using Cons.prems by simp
    from Cons.IH[OF this] show ?case by simp
  qed simp
  from this[of 0 paths] have "\<forall>p \<in> set paths. path p = []" using True by (simp add: count_tuples_def)
  then have "concat (map (\<lambda>p. map edge (path p)) paths) = []" "concat (map (\<lambda>p. map node (path p)) paths) = []"
    "concat (map (\<lambda>p. map cost (path p)) paths) = []" by auto
  then have "route_of paths []" unfolding route_of_def by (simp only: list.map list_update.simps list.size) simp
  then show ?thesis using True by (simp add: get_viaRoute_def)
qed

text \<open>The answer of the driver: the rows of the legs.\<close>

lemma via_of_rows_answers:
  assumes L: "adjacency_list B d I" and S: "searches B I" and A: "arcs_ok (rows_arcs d True edges)"
    and V: "set (s # ts) \<subseteq> rows_ids edges"
  shows "\<exists>qs rows. via_of_rows B edges [] (s # ts) d strict U True = Inr (ViaRows rows) \<and>
    legs_ok (rows_arcs d True edges) U None s ts qs \<and> route_of (if strict \<and> [] \<in> path ` set qs then [] else qs) rows"
proof -
  obtain g qs g' where g: "insert_edges B edges True (Pgr_base_graph_empty B d) = Inr g"
      "legs_ok (rows_arcs d True edges) U None s ts qs"
      "dijkstraVia B g (s # ts) [] strict U = Inr (if strict \<and> [] \<in> path ` set qs then [] else qs, g')"
    using via_of_edges[OF L S A V] by blast
  obtain rows where "get_viaRoute (if strict \<and> [] \<in> path ` set qs then [] else qs) = Inr rows"
      "route_of (if strict \<and> [] \<in> path ` set qs then [] else qs) rows"
    using get_viaRoute_of by blast
  then show ?thesis using g by (intro exI[of _ qs] exI[of _ rows]) (simp add: via_of_rows_def insert_edges_def[of B "[]"])
qed

lemma via_of_rows_missing:
  assumes L: "adjacency_list B d I" and V: "s \<notin> rows_ids edges \<or> t \<notin> rows_ids edges"
  shows "via_of_rows B edges [] (s # t # ts) d strict U details = Inl UndefinedBehaviour"
proof -
  obtain g where g: "insert_edges B edges True (Pgr_base_graph_empty B d) = Inr g" "vertex_ids g = rows_ids edges"
    by (rule graph_of_rows[OF L])
  then show ?thesis using V by (simp add: via_of_rows_def insert_edges_def[of B "[]"] via_missing_vertex)
qed

end
