(* ===== verification/Graph_samples.thy ===== *)
theory Graph_samples
  imports List_searches Via_laws
begin

text \<open>Three streets and a loop over the list graph, for the inputs that the theorems are applied to.\<close>

definition streets :: "Edge_t list" where
  "streets =
     [\<lparr>edge_id = 1, source = 10, target = 20, edge_cost = Fin 1, reverse_cost = Fin 1\<rparr>,
      \<lparr>edge_id = 2, source = 20, target = 30, edge_cost = Fin 2, reverse_cost = -1\<rparr>,
      \<lparr>edge_id = 3, source = 10, target = 30, edge_cost = Fin 5, reverse_cost = -1\<rparr>,
      \<lparr>edge_id = 4, source = 20, target = 20, edge_cost = Fin 1, reverse_cost = -1\<rparr>]"

abbreviation directed_bgl :: "(lgraph, ledge) bgl" where
  "directed_bgl \<equiv> list_bgl True"

lemma negative_one: "\<not> (0 :: double) \<le> -1" "(-1 :: double) = Fin (-1)" "(0 :: double) = Fin 0"
  by (simp_all add: zero_double_def one_double_def)

lemma streets_arcs:
  "rows_arcs True True streets =
    {#(10, 20, 1, Fin 1), (20, 10, 1, Fin 1), (20, 30, 2, Fin 2), (10, 30, 3, Fin 5), (20, 20, 4, Fin 1)#}"
  by (simp add: rows_arcs_def streets_def row_arcs_def ways_def negative_one)

lemma streets_ids: "rows_ids streets = {10, 20, 30}"
proof -
  have "rows_ids streets = (\<Union>e \<in> set (filter row_used streets). {source e, target e})" by (simp add: rows_ids_def)
  then show ?thesis by (auto simp: streets_def row_used_def negative_one)
qed

lemma streets_arcs_ok: "arcs_ok (rows_arcs True True streets)"
  by (simp add: arcs_ok_def streets_arcs garc_cost_def cost_ok_def)

lemma streets_nonnegative: "nonnegative_arcs (rows_arcs True True streets)"
  by (rule arcs_ok_nonnegative[OF streets_arcs_ok])

text \<open>The graph of the streets.\<close>

lemma streets_graph:
  obtains g where "insert_edges directed_bgl streets True (Pgr_base_graph_empty directed_bgl True) = Inr g"
    "base_graph_ok directed_bgl True lg_ok g" "id_arcs directed_bgl g = rows_arcs True True streets" "vertex_ids g = {10, 20, 30}"
    "removed_edges g = []"
  using graph_of_rows[OF list_bgl_adjacency, where es = streets and normal = True] unfolding streets_ids by blast

end
