(* ===== verification/Trsp_drivers.thy ===== *)
theory Trsp_drivers
  imports Path_answers
begin

text \<open>
  The driver of the turn restricted shortest paths (\<open>src/trsp/trsp_driver.cpp\<close>): the search without the
  restrictions, and the search with them for the pairs whose path breaks one.
\<close>

definition do_trsp ::
    "('t, 'd, 'v, 'p) spi \<Rightarrow> ('g, 'e) bgl \<Rightarrow> nat \<Rightarrow> string \<Rightarrow> string option \<Rightarrow>
       string option \<Rightarrow> 'v ArrayType option \<Rightarrow> 'v ArrayType option \<Rightarrow> bool \<Rightarrow> failure + trsp_answer" where
  "do_trsp spi B fuel edges_sql restrictions_sql combinations_sql starts ends directed =
     trsp_catching
       (bindE (fetching (get_combinations spi combinations_sql starts ends True)) (\<lambda>combinations.
        if combinations = [] \<and> combinations_sql \<noteq> None then Inr (TrspNotice ''No (source, target) pairs found'')
        else
          bindE (fetching (get_edges spi edges_sql True False)) (\<lambda>edges.
          if edges = [] then Inr (TrspNotice ''No edges found'')
          else
            bindE (running (shortest_paths B directed edges combinations False size_max 0)) (\<lambda>found.
            let paths = post_process_trsp False found in
            if count_tuples paths = 0 then Inr (Tuples [])
            else
              (case restrictions_sql of
                 None \<Rightarrow> Inr (Tuples (collapse_paths paths))
               | Some sql \<Rightarrow>
                   bindE (fetching (get_restrictions spi sql)) (\<lambda>restrictions.
                   if restrictions = [] then Inr (Tuples (collapse_paths paths))
                   else
                     bindE (running (trsp_paths fuel edges directed restrictions paths)) (\<lambda>new_paths.
                     Inr (Tuples (collapse_paths new_paths)))))))))"

section \<open>Without restrictions\<close>

lemma post_process_same: "mset (post_process ps False True size_max global) = mset (post_process_trsp False ps)"
  by (simp add: post_process_def post_process_trsp_def)

text \<open>The driver answers a cheapest path for every connected pair, in the order of the search.\<close>

lemma trsp_without_restrictions:
  assumes L: "adjacency_list B d I" and S: "searches B I" and A: "arcs_ok (rows_arcs d True edges)"
    and C: "combinations_ok combos" "\<forall>ts \<in> snd ` set combos. length ts < size_max"
    and q: "get_combinations spi combinations_sql starts ends True = Inr combos" "get_edges spi edges_sql True False = Inr edges"
    and ne: "combos \<noteq> []" "edges \<noteq> []"
  shows "\<exists>ps. do_trsp spi B fuel edges_sql None combinations_sql starts ends d = Inr (Tuples (collapse_paths ps)) \<and>
    distinct (map path_ends ps) \<and>
    set (map path_ends ps) = {(s, t) \<in> pairs combos. s \<noteq> t \<and> reachable (rows_arcs d True edges) s t} \<and>
    (\<forall>p \<in> set ps. cheapest (rows_arcs d True edges) p \<and> agg_from 0 (path p) \<and> m_tot_cost p = path_cost (path p))"
proof -
  obtain found where f: "shortest_paths B d edges combos False size_max 0 = Inr found"
      "path_answered (rows_arcs d True edges) (pairs combos) (post_process found False True size_max False)"
    using shortest_paths_per_pair[OF L A C S] by blast
  let ?ps = "post_process_trsp False found" and ?qs = "post_process found False True size_max False"
  note same = post_process_same[of found False]
  have sets: "set ?qs = set ?ps" using same by (rule mset_eq_setD)
  have "distinct (map path_ends qs)" if "sorted_wrt ends_before qs" for qs
    using that by (induction qs) (auto simp: ends_before_def path_ends_def)
  then have "distinct (map path_ends ?qs)" using f(2) by (simp add: path_answered_def)
  moreover have "mset (map path_ends ?qs) = mset (map path_ends ?ps)" using same by simp
  ultimately have "distinct (map path_ends ?ps)" using mset_eq_imp_distinct_iff by blast
  moreover have "set (map path_ends ?ps) = {(s, t) \<in> pairs combos. s \<noteq> t \<and> reachable (rows_arcs d True edges) s t} \<and>
      (\<forall>p \<in> set ?ps. cheapest (rows_arcs d True edges) p \<and> agg_from 0 (path p) \<and> m_tot_cost p = path_cost (path p))"
    using f(2) sets by (simp add: path_answered_def)
  moreover have none: "collapse_paths ?ps = []" if "count_tuples ?ps = 0" using that length_collapse_paths(1)[of ?ps] by simp
  have "do_trsp spi B fuel edges_sql None combinations_sql starts ends d = Inr (Tuples (collapse_paths ?ps))"
    using q ne f(1) none by (simp add: do_trsp_def fetching_def running_def trsp_catching_def Let_def)
  ultimately show ?thesis by blast
qed

end
