(* ===== verification/Further_facts.thy ===== *)
theory Further_facts
  imports Equi_costs Point_samples Table_samples Graph_samples Trsp_drivers
begin

text \<open>
  Further theorems about the same components, each with the input it is applied to.
\<close>

text \<open>
  pgr_do_pickDeliver of a Debug build, with finite costs, vehicles whose speed is a number and
  start windows that do not open at minus infinity, ends in rows, a notice or an error text: no
  loop runs forever and no access is undefined, whatever the kind of initial solution is.
\<close>

theorem driver_always_answers:
  assumes "\<forall>c \<in> set costs. is_fin (iid_cost c)" "\<forall>v \<in> set vehicles. clocked_row factor v"
  shows "\<exists>ans. do_pickDeliver orders vehicles costs factor cycles initial = Inr ans"
  by (rule do_pickDeliver_answers[OF assms])

lemma driver_always_answers_witness:
  "\<exists>ans. do_pickDeliver ex_orders [ex_vehicle] ex_rows 1 1 7 = Inr ans"
  using driver_always_answers[OF ex_rows_finite, of "[ex_vehicle]" 1] ex_clocks(2) by simp

text \<open>
  semiLIFO puts the pickup right behind the start and the delivery at the last position that
  keeps the vehicle feasible among those behind every other pickup; it returns False with the
  vehicle unchanged when none does.
\<close>

theorem semiLIFO_takes_last_slot:
  assumes "pd_wf cm v" "in_table (m_orders v) q" "\<not> has_order v q"
  shows "(\<exists>d \<in> lifo_slots cm v q. 1 < d \<and> d \<le> length (m_path v) \<and>
      is_feasable (via cm v (with_order q (sites v) 1 d)) \<and>
      pd_semiLIFO cm q v = Inr (True, carry q (via cm v (with_order q (sites v) 1 d))) \<and>
      (\<forall>d' \<in> lifo_slots cm v q. d < d' \<longrightarrow> \<not> is_feasable (via cm v (with_order q (sites v) 1 d')))) \<or>
    pd_semiLIFO cm q v = Inr (False, v) \<and>
      (\<forall>d \<in> lifo_slots cm v q. \<not> is_feasable (via cm v (with_order q (sites v) 1 d)))"
  using pd_semiLIFO_spec[OF assms] .

lemma semiLIFO_takes_last_slot_witness:
  "\<exists>b v'. pd_semiLIFO ex_matrix (ex_table ! 0) ex_truck = Inr (b, v')"
  using semiLIFO_takes_last_slot[OF ex_pd_wf ex_in_table] by blast

text \<open>
  do_while_feasable ends without failing an assertion and moves a set M of feasible unassigned
  orders into the vehicle and from the unassigned to the assigned ones; from an empty vehicle
  the pushing kinds move at least one order if there is a feasible one.
\<close>

theorem filling_moves_orders:
  assumes "fill_ok cm v u" "ids_inv a" "kind \<noteq> OneTruck"
    and "kind = OnePerTruck \<Longrightarrow> ids_set (m_orders_in_vehicle v) = {}"
  shows "\<exists>M v' u' a'. do_while_feasable cm kind (v, u, a) = Inr (v', u', a') \<and>
    M \<subseteq> ids_set (m_feasable_orders v) \<inter> ids_set u \<and> pd_wf cm v' \<and> is_feasable v' \<and>
    ids_set u' = ids_set u - M \<and> ids_set a' = ids_set a \<union> M \<and>
    ids_set (m_orders_in_vehicle v') = ids_set (m_orders_in_vehicle v) \<union> M \<and>
    (kind \<in> {OnePerTruck, FrontTruck, BackTruck} \<and> ids_set (m_orders_in_vehicle v) = {} \<and>
      ids_set (m_feasable_orders v) \<inter> ids_set u \<noteq> {} \<longrightarrow> M \<noteq> {})"
proof -
  obtain M st where st: "do_while_feasable cm kind (v, u, a) = Inr st"
      "M \<subseteq> ids_set (m_feasable_orders v) \<inter> ids_set u" "filled cm (v, u, a) M st"
      "kind \<in> {OnePerTruck, FrontTruck, BackTruck} \<and> ids_set (m_orders_in_vehicle v) = {} \<and>
        ids_set (m_feasable_orders v) \<inter> ids_set u \<noteq> {} \<longrightarrow> M \<noteq> {}"
    using do_while_feasable_spec[OF assms] by blast
  obtain v' u' a' where "st = (v', u', a')" by (cases st)
  then show ?thesis
    using st by (intro exI[of _ M] exI[of _ v'] exI[of _ u'] exI[of _ a']) (simp add: filled_def fill_ok_def)
qed

lemma filling_moves_orders_witness:
  "\<exists>v st. fill_ok ex_matrix v (ids_upto 2) \<and> do_while_feasable ex_matrix BackTruck (v, ids_upto 2, ids_none) = Inr st"
proof -
  obtain f where f: "fleet_ok ex_matrix (table_of ex_orders) f" by (rule ex_fleet)
  then obtain v where "v \<in> set (m_trucks f)"
    using ids_extensional[of "m_un_used f" ids_none] by (fastforce simp: fleet_ok_def)
  then have v: "fill_ok ex_matrix v (ids_upto 2)" using f by (auto simp: fleet_ok_def intro: truck_fill_ok)
  show ?thesis using v filling_moves_orders[OF v, of ids_none BackTruck] by auto
qed

text \<open>
  The cargo at the end of an evaluated path is the sum of the demands of its sites.
\<close>

theorem cargo_is_sum_of_demands:
  assumes "veh_wf cm v"
  shows "m_cargo (last (m_path v)) = (\<Sum>n\<leftarrow>sites v. m_demand n)"
  using veh_cargo[OF assms] .

lemma cargo_is_sum_of_demands_witness:
  "m_cargo (last (m_path ex_truck)) = (\<Sum>n\<leftarrow>sites ex_truck. m_demand n)"
  using cargo_is_sum_of_demands[OF ex_veh_wf] .

text \<open>
  get_id and get_index are inverse on the identifiers of a matrix; looking up an identifier that
  is not in it throws with that identifier.
\<close>

theorem matrix_index_roundtrip:
  "(if dm_has_id m i then \<exists>k. get_index m i = Inr k \<and> get_id m k = Inr i
    else get_index m i = Inl (NodeNotInMatrix i) \<and> dm_distance m i j = Inl (NodeNotInMatrix i))"
  using get_index_total[of m i] get_id_index[of m i] dm_distance_missing[of m i j] index_from_None[of "dm_ids m" i 0]
  by (auto simp: get_index_def split: option.splits)

text \<open>
  build_orders numbers the orders by their rows and their nodes consecutively, and throws the
  first identifier of a pickup or delivery place that is not in the matrix.
\<close>

theorem orders_table:
  assumes "\<forall>r \<in> set rows. dm_has_id cm (pick_node_id r) \<and> dm_has_id cm (deliver_node_id r)"
  shows "(\<exists>nodes. build_orders cm rows [] = Inr (nodes, map (\<lambda>i. order_of_row i (rows ! i)) [0..<length rows]) \<and>
      length nodes = 2 * length rows) \<and>
    (\<not> dm_has_id cm (pick_node_id r') \<longrightarrow>
      build_orders cm (rows @ r' # rest) [] = Inl (UnableToFindNode (pick_node_id r'))) \<and>
    (dm_has_id cm (pick_node_id r') \<and> \<not> dm_has_id cm (deliver_node_id r') \<longrightarrow>
      build_orders cm (rows @ r' # rest) [] = Inl (UnableToFindNode (deliver_node_id r')))"
  using build_orders_prefix[of rows cm] build_orders_missing[of rows cm r' rest] assms
  by (simp add: table_of_def reachable_row_def)

lemma orders_table_witness:
  "build_orders ex_matrix ([ex_order 10 2 3] @ ex_order 11 3 8 # []) [] = Inl (UnableToFindNode 8)"
  using orders_table[of "[ex_order 10 2 3]" ex_matrix "ex_order 11 3 8" "[]"]
  by (simp add: ex_order_def ex_matrix_def)

text \<open>
  PD_Orders::set_compatibles gives every order exactly the set of orders that may follow it and
  the set of those that may precede it, by Order::isCompatibleIJ, itself excluded.
\<close>

theorem compatible_orders_linked:
  assumes "dm_wf cm" "speed \<noteq> 0" "orders_ok cm os"
    and "\<forall>q \<in> set os. m_compatibleJ q = ids_none \<and> m_compatibleI q = ids_none"
  shows "\<exists>os'. orders_set_compatibles cm speed os = Inr os' \<and> length os' = length os \<and>
    (\<forall>i < length os.
      ids_set (m_compatibleJ (os' ! i)) =
        {j. j < length os \<and> j \<noteq> i \<and> isCompatibleIJ cm (os ! j) (os ! i) speed = Inr True} \<and>
      ids_set (m_compatibleI (os' ! i)) =
        {j. j < length os \<and> j \<noteq> i \<and> isCompatibleIJ cm (os ! i) (os ! j) speed = Inr True})"
  using orders_set_compatibles_spec[OF assms(1-3)] assms(4)
  by (fastforce simp: linked_def before_def)

lemma compatible_orders_linked_witness:
  "\<exists>os'. orders_set_compatibles ex_matrix 1 (table_of ex_orders) = Inr os' \<and> length os' = 2"
  using compatible_orders_linked[OF ex_dm(1) _ ex_table_ok(1), of 1] table_of_compatible[of _ ex_orders]
    ex_table_ok(2) by (auto simp: one_double_def)

text \<open>
  find_best_J and find_best_I return a member of the given non-empty set with the largest number
  of compatible orders within the set.
\<close>

theorem best_order_is_maximal:
  assumes "ids_inv xs" "\<not> ids_empty xs" "\<forall>i \<in> ids_set xs. i < length orders"
  shows "(\<exists>b \<in> ids_set xs. find_best_J orders xs = Inr b \<and>
      (\<forall>i \<in> ids_set xs. ids_size (subsetJ (orders ! i) xs) \<le> ids_size (subsetJ (orders ! b) xs))) \<and>
    (\<exists>b \<in> ids_set xs. find_best_I orders xs = Inr b \<and>
      (\<forall>i \<in> ids_set xs. ids_size (subsetI (orders ! i) xs) \<le> ids_size (subsetI (orders ! b) xs)))"
  using find_best_J_spec[OF assms] find_best_I_spec[OF assms] by blast

lemma best_order_is_maximal_witness:
  "\<exists>b \<in> ids_set (ids_upto 2). find_best_J ex_table (ids_upto 2) = Inr b"
  using best_order_is_maximal[of "ids_upto 2" ex_table] ex_table_idx(1) by (auto simp: ids_empty_iff)

text \<open>
  The operations of Identifiers refine the set operations: on ordered sequences they keep the
  order and compute membership, insertion, removal, union, intersection and difference.
\<close>

theorem identifiers_are_sets:
  fixes s t :: "'a :: linorder Identifiers"
  assumes "ids_inv s" "ids_inv t"
  shows "ids_set (ids_add s x) = insert x (ids_set s) \<and> ids_set (ids_remove s x) = ids_set s - {x} \<and>
    ids_set (ids_union s t) = ids_set s \<union> ids_set t \<and> ids_set (ids_inter s t) = ids_set s \<inter> ids_set t \<and>
    ids_set (ids_diff s t) = ids_set s - ids_set t \<and> ids_has s x = (x \<in> ids_set s) \<and>
    ids_size s = card (ids_set s) \<and> ids_inv (ids_add s x) \<and> ids_inv (ids_remove s x) \<and>
    ids_inv (ids_union s t) \<and> ids_inv (ids_inter s t) \<and> ids_inv (ids_diff s t)"
  using assms by (simp_all add: ids_size_card)

lemma identifiers_are_sets_witness:
  "ids_set (ids_union (Identifiers [1 :: nat, 3]) (Identifiers [2])) = {1, 2, 3}"
  using identifiers_are_sets[of "Identifiers [1 :: nat, 3]" "Identifiers [2]"]
  by (auto simp: ids_inv_def ids_set_def)

text \<open>
  Identifiers::operator== compares only as many elements as the left side has: it holds between
  a set and any set that extends it at the end, and reads beyond the right side when that is a
  proper prefix.
\<close>

theorem identifiers_equality_is_prefix:
  "(ids_eq s t = Inr True \<longleftrightarrow> (\<exists>rest. m_ids t = m_ids s @ rest)) \<and>
   ids_eq (Identifiers (xs @ [x])) (Identifiers xs) = Inl UndefinedBehaviour"
proof (intro conjI)
  show "ids_eq s t = Inr True \<longleftrightarrow> (\<exists>rest. m_ids t = m_ids s @ rest)"
    unfolding ids_eq_def std_equal_prefix by (metis append_eq_conv_conj append_take_drop_id length_append le_add1)
  show "ids_eq (Identifiers (xs @ [x])) (Identifiers xs) = Inl UndefinedBehaviour"
    unfolding ids_eq_def by (induction xs) simp_all
qed

text \<open>
  move_reduce_cost never changes the fleet, whatever it returns: it moves orders between copies
  of the two vehicles, and only the best solution can be replaced.
\<close>

theorem move_reduce_cost_keeps_fleet:
  "case move_reduce_cost cm kind f t s of Inl e \<Rightarrow> True | Inr (moved, s') \<Rightarrow> fleet s' = fleet s \<and> trucks s' = trucks s"
proof (cases "move_reduce_cost cm kind f t s")
  case (Inr r)
  then show ?thesis
    by (cases r) (auto simp: move_reduce_cost_def Let_def dest: reduce_loop_fleet split: if_splits)
qed simp

text \<open>
  One cycle of inter_swap on a state of the optimisation never fails an assertion, does not add
  vehicles and always answers false.
\<close>

theorem inter_swap_answers_false:
  assumes "orders_ok cm os" "opt_ok cm os s"
  shows "\<exists>s'. inter_swap cm kind s = Inr (False, s') \<and> opt_ok cm os s' \<and> length (fleet s') \<le> length (fleet s)"
  using inter_swap_spec[where E = UNIV, OF assms(1)] assms(2) by (simp add: opt_in_UNIV)

lemma inter_swap_answers_false_witness:
  "\<exists>s s'. fleet s \<noteq> [] \<and> inter_swap ex_matrix BestInsert s = Inr (False, s')"
proof -
  obtain old :: Solution where old: "vehicles_ok ex_matrix (table_of ex_orders) (fleet old)" "fleet old \<noteq> []"
      "mset (loads (fleet old)) = mset [0..<length (table_of ex_orders)]"
    by (rule ex_solution)
  let ?s = "\<lparr>fleet = fleet old, trucks = trucks old, best_solution = old\<rparr>"
  have "opt_ok ex_matrix (table_of ex_orders) ?s" using old by (simp add: opt_ok_def serves_once_def)
  from inter_swap_answers_false[OF ex_table_ok(1) this, of BestInsert]
  obtain s' where run: "inter_swap ex_matrix BestInsert ?s = Inr (False, s')" by (elim exE conjE)
  have "fleet ?s \<noteq> []" using old(2) by simp
  with run show ?thesis by (intro exI conjI)
qed

text \<open>
  The numbers the constructor gives to the vertices can be undone: the two maps are inverse to
  each other, and translating the renumbered edges back gives the edges of the caller.
\<close>

theorem vertex_numbering_roundtrip:
  assumes "TrspHandler_of edges new_edges directed rules = Inr (es', h)"
  shows "(\<forall>v i. map_of (m_id_to_idx h) v = Some i \<longleftrightarrow> map_of (m_idx_to_id h) i = Some v) \<and>
    map (\<lambda>e. e\<lparr>source := id_of h (source e), target := id_of h (target e)\<rparr>) es' = edges"
proof -
  obtain ns' where h: "handler_ok h" "list_all2 (renumbered (m_id_to_idx h)) (edges @ new_edges) (es' @ ns')"
    using TrspHandler_of_ok[of edges new_edges directed rules] assms by auto
  have len: "length es' = length edges"
    by (rule renumbered_length[OF assms])
  then have "list_all2 (renumbered (m_id_to_idx h)) edges es'"
    using h(2) by (simp add: list_all2_append)
  then show ?thesis using numbering_roundtrip_edges[OF _ h(1)] handler_okD(2)[OF h(1)] by simp
qed

lemma vertex_numbering_roundtrip_witness:
  "\<exists>es' h. TrspHandler_of net_edges [] True [] = Inr (es', h) \<and>
     map (\<lambda>e. e\<lparr>source := id_of h (source e), target := id_of h (target e)\<rparr>) es' = net_edges"
proof -
  obtain es' h where h: "TrspHandler_of net_edges [] True [] = Inr (es', h)"
    using TrspHandler_of_ok by blast
  show ?thesis using h vertex_numbering_roundtrip[OF h] by blast
qed

text \<open>
  clear() leaves the priority queue as the search before left it: asked for 10 to 30 and then
  for 40 to 30, the handler answers the second with the edge from 10 to 30, although alone it
  answers with the walk from 40.
\<close>

theorem stale_queue_answer:
  "\<exists>h p q r g g'. TrspHandler_of net_edges [] True [] = Inr h \<and>
     process_all 20 [(10, [30]), (40, [30])] (snd h) = Inr ([p, q], g) \<and> process_all 20 [(40, [30])] (snd h) = Inr ([r], g') \<and>
     m_start_id q = 40 \<and> map node (path q) = [10, 30] \<and> m_start_id r = 40 \<and> map node (path r) = [40, 20, 30]"
  using net_stale_run by blast

text \<open>
  A rule whose second edge is the first edge of the handler indexes the predecessor vectors with
  -1: on a walk that starts with the edge before the last one of the rule, getRestrictionCost
  goes on behind the first edge of the walk.
\<close>

theorem restriction_cost_out_of_bounds:
  "\<exists>h. TrspHandler_of net_edges [] True [turn_rule [1, 4, 2]] = Inr h \<and>
     process_all 20 [(40, [30])] (snd h) = Inl UndefinedBehaviour \<and> \<not> rules_ok (snd h)"
  using net_bad_rule_run by blast

text \<open>
  Asked for the path from a vertex to itself when no arc leaves the vertex, process reads the
  index of an edge that was never assigned: the queue is empty, and the test that the current
  vertex is the end vertex holds from the start.
\<close>

theorem same_vertex_reads_unset_edge:
  assumes "handler_ok h" "m_que h = []" "map_of (m_id_to_idx h) v = Some s"
    and "\<And>a. fst a < length (m_edges h) \<Longrightarrow> arc_from (m_edges h) a = s \<Longrightarrow> \<not> 0 \<le> arc_cost (m_edges h) a"
  shows "process fuel v v h = Inl UndefinedBehaviour"
  using process_same_vertex[OF assms] .

lemma same_vertex_reads_unset_edge_witness: "process 5 30 30 (net_of []) = Inl UndefinedBehaviour"
  by (rule same_vertex_reads_unset_edge[OF net_handler(1,2) net_edge_values(4)]) (rule net_no_arc_from_30)

text \<open>
  Reversing a finished path without predecessors gives a finished path with the vertices in the
  opposite order, and reversing it again gives the path back.
\<close>

theorem reverse_twice:
  assumes "path_ok p" "\<forall>r \<in> set (path p). pred r = 0"
  shows "path_ok (reverse_path p) \<and> map node (path (reverse_path p)) = rev (map node (path p)) \<and>
    reverse_path (reverse_path p) = p"
  using reverse_path_ok[OF assms(1)] reverse_path_fields[OF assms(1)] reverse_reverse_path[OF assms] by blast

lemma reverse_twice_witness: "reverse_path (reverse_path (leg_path 2 4 5)) = leg_path 2 4 5"
  using reverse_twice[OF leg_path_ok leg_path_fields(5), of 2 4 5] by blast

text \<open>
  Renumbering the vertices of a path with a map and then with its inverse gives the path back.
\<close>

theorem renumber_vertices_roundtrip:
  assumes "renumber_vertices m p = Inr q" "\<And>i x. m i = Some x \<Longrightarrow> m' x = Some i"
  shows "renumber_vertices m' q = Inr p"
  using renumber_vertices_back[OF assms] .

lemma renumber_vertices_roundtrip_witness:
  "\<exists>q. renumber_vertices (map_of [(2, 7), (5, 9)]) (leg_path 2 4 5) = Inr q \<and>
     renumber_vertices (map_of [(7, 2), (9, 5)]) q = Inr (leg_path 2 4 5)"
proof -
  obtain q where q: "renumber_vertices (map_of [(2, 7), (5, 9)]) (leg_path 2 4 5) = Inr q"
    using renumber_vertices_total[of "map_of [(2, 7), (5, 9)]" "leg_path 2 4 5"]
    by (auto simp: leg_path_value path_row_def)
  have "renumber_vertices (map_of [(7, 2), (9, 5)]) q = Inr (leg_path 2 4 5)"
    by (rule renumber_vertices_roundtrip[OF q]) (auto split: if_splits)
  then show ?thesis using q by blast
qed

text \<open>
  has_restriction answers whether the edges of the rule occur one after the other somewhere in
  the path.
\<close>

theorem restriction_is_found:
  assumes "m_all rule \<noteq> []"
  shows "has_restriction rule p \<longleftrightarrow> sublist (m_all rule) (map edge (path p))"
  using has_restriction_sublist[OF assms] .

lemma restriction_is_found_witness: "has_restriction (turn_rule [4]) (leg_path 2 4 5)"
  using restriction_is_found[of "turn_rule [4]" "leg_path 2 4 5"] by (simp add: turn_rule_def)

text \<open>
  The number of rows that collapse_paths writes, for both kinds of rows, is the number
  count_tuples gives, with which the drivers allocate the result: the rows fill the allocation
  and do not go beyond it.
\<close>

theorem rows_fill_allocation:
  "length (collapse_paths paths) = count_tuples paths \<and> length (collapse_paths_tuples paths) = count_tuples paths"
  using length_collapse_paths by blast

text \<open>
  A point at fraction 1 on the driving side, behind another point, disconnects the edge: the row
  of the last point moves prev_target without a segment, so from the source of a two-way edge
  the target is no longer reached.
\<close>

theorem end_point_breaks_edge:
  "\<exists>g. road_with [point_at 1 (Fin (1/4)) kRight, point_at 2 1 kRight] = Inr g \<and> wp_error g = [] \<and>
    (10, 20) \<in> (set (arcs_of [road]))\<^sup>* \<and> (10, 20) \<notin> (set (arcs_of (m_new_edges g)))\<^sup>*"
proof -
  obtain g where g: "road_with [point_at 1 (Fin (1/4)) kRight, point_at 2 1 kRight] = Inr g" "wp_error g = []"
      "arcs_of (m_new_edges g) = [(10, -1), (20, -2), (-2, 20), (-2, 20), (20, 10)]"
    using road_end_point by blast
  have "(10, 20) \<notin> (set (arcs_of (m_new_edges g)))\<^sup>*"
    unfolding g(3) by (rule closed_not_reached[where X = "{10, -1}"]) auto
  moreover have "(10, 20) \<in> set (arcs_of [road])" by (simp add: arcs_of_def road_fields)
  ultimately show ?thesis using g(1,2) by blast
qed

text \<open>
  A point of both sides behind a point of the driving side disconnects a two-way edge in the
  other direction: the segment that is travelled backwards starts at prev_target, not at
  prev_rtarget, so the source is no longer reached from the target.
\<close>

theorem mixed_points_break_edge:
  "\<exists>g. road_with [point_at 1 (Fin (1/4)) kRight, point_at 2 (Fin (3/4)) kBoth] = Inr g \<and> wp_error g = [] \<and>
    (20, 10) \<in> (set (arcs_of [road]))\<^sup>* \<and> (20, 10) \<notin> (set (arcs_of (m_new_edges g)))\<^sup>*"
proof -
  obtain g where g: "road_with [point_at 1 (Fin (1/4)) kRight, point_at 2 (Fin (3/4)) kBoth] = Inr g" "wp_error g = []"
      "arcs_of (m_new_edges g) = [(10, -1), (-1, -2), (-2, 20), (-2, -1), (20, -2)]"
    using road_mixed_points by blast
  have "(20, 10) \<notin> (set (arcs_of (m_new_edges g)))\<^sup>*"
    unfolding g(3) by (rule closed_not_reached[where X = "{20, -1, -2}"]) auto
  moreover have "(20, 10) \<in> set (arcs_of [road])" by (simp add: arcs_of_def road_fields)
  ultimately show ?thesis using g(1,2) by blast
qed

text \<open>
  reverse_sides is its own inverse on points with finite fractions: sides, fractions and the
  driving side come back.
\<close>

theorem sides_reversed_twice:
  assumes "\<forall>p \<in> set (m_points g). \<exists>f. fraction p = Fin f"
  shows "reverse_sides (reverse_sides g) = g"
  by (rule reverse_sides_twice[OF assms])

lemma sides_reversed_twice_witness:
  "reverse_sides (reverse_sides \<lparr>m_points = [right_of, left_of], m_o_points = [], m_edges_of_points = [],
     m_new_edges = [], m_driving_side = kRight, m_directed = True, wp_error = []\<rparr>) =
   \<lparr>m_points = [right_of, left_of], m_o_points = [], m_edges_of_points = [],
     m_new_edges = [], m_driving_side = kRight, m_directed = True, wp_error = []\<rparr>"
  by (rule sides_reversed_twice) (use road_points_inner inner_fraction in fastforce)

text \<open>
  eliminate_details merges consecutive rows of one edge: the edges of the result are those of
  the path without repetitions, the total is the sum of the costs of the old rows and of the new
  ones, the aggregates are rebuilt, and the path keeps its ends, its first vertex and names no
  new vertex.
\<close>

theorem details_are_merged:
  assumes "path p \<noteq> []"
  shows "map edge (path (eliminate_details p)) = unique_by (=) (map edge (path p)) \<and>
    m_tot_cost (eliminate_details p) = path_cost (path p) \<and> path_cost (path (eliminate_details p)) = path_cost (path p) \<and>
    agg_from 0 (path (eliminate_details p)) \<and>
    m_start_id (eliminate_details p) = m_start_id p \<and> m_end_id (eliminate_details p) = m_end_id p \<and>
    node (hd (path (eliminate_details p))) = node (hd (path p)) \<and>
    node ` set (path (eliminate_details p)) \<subseteq> node ` set (path p)"
  by (rule eliminate_details_spec[OF assms])

lemma details_are_merged_witness:
  "map edge (path (eliminate_details
     ((Path_of 1 2)\<lparr>path := [path_row 1 7 1, path_row (-4) 7 1, path_row 2 (-1) 0]\<rparr>))) = [7, -1]"
  using details_are_merged[of "(Path_of 1 2)\<lparr>path := [path_row 1 7 1, path_row (-4) 7 1, path_row 2 (-1) 0]\<rparr>"]
  by (simp add: path_row_def)

text \<open>
  The flag ignore_id of pgr_get_edges does not make the getter ignore an id: on a table with a
  column id the answer, an error included, is the same with and without the flag.
\<close>

theorem existing_id_is_used:
  assumes "query spi sql d rows" "has_column spi d ''id''"
  shows "get_edges spi sql normal True = get_edges spi sql normal False"
  by (rule ignore_id_unused[OF assms])

lemma existing_id_is_used_witness:
  "get_edges (spi_of example_db) ''vehicles'' True True = get_edges (spi_of example_db) ''vehicles'' True False"
  by (rule existing_id_is_used[OF example_queries(2)]) (simp add: example_cells vehicle_columns_of_table_def)

end
