(* ===== verification/Spec2Isabelle.thy ===== *)
theory Spec2Isabelle
  imports Further_facts
begin

text \<open>
  A model of the planners of pgRouting, of its shortest paths from the edge rows to the answer, of the
  path type its searches share and of the points on edges that searches start from, with the theorems
  that make them correct.

  \<^bold>\<open>Parts.\<close>  The pickup and delivery planner (\<open>src/pickDeliver\<close>, \<open>include/vrp\<close>): the driver
  \<open>pgr_do_pickDeliver\<close> reads orders, vehicles and a cost matrix, builds \<open>Pgr_pickDeliver\<close> (orders,
  fleet), makes an \<open>Initial_solution\<close> by loading vehicles with orders, improves it with
  \<open>Optimize\<close>, and returns the rows of the best solution.  The turn restricted shortest paths
  (\<open>src/trsp\<close>, \<open>include/trsp\<close>): \<open>TrspHandler\<close> numbers the vertices of the edge rows, links each
  edge to the edges that can follow it, searches from edge to edge with a priority queue, adding
  the costs of the turn restrictions that the search tree completes, and writes the walk it found
  into a \<open>Path\<close>.  The class \<open>Path\<close> (\<open>src/common/path.cpp\<close>) is the result of every search of
  the program; its operations append, reverse, renumber, search and flatten such results.
  \<open>Pg_points_graph\<close> (\<open>src/withPoints\<close>) cuts edges at points and cleans the paths found on them.
  The shortest paths (\<open>include/dijkstra\<close>, \<open>src/dijkstra\<close>) run on \<open>Pgr_base_graph\<close>
  (\<open>include/cpp_common/base_graph.hpp\<close>), which numbers the vertex ids of the edge rows over an
  adjacency list of the Boost graph library; a search stops at its goals, \<open>Path\<close> reads the answer off
  the predecessors, and \<open>dijkstraVia\<close> takes edges away between the legs of a route and restores them.
  The readers (\<open>src/cpp_common\<close>) turn the rows of SQL queries into the structures that all of them
  start from; the drivers \<open>pgr_do_pickDeliver\<close>, \<open>pgr_do_pickDeliverEuclidean\<close> and \<open>pgr_do_trsp\<close> are
  modelled from the queries on.

  \<^bold>\<open>Theories of the planner.\<close>  \<open>Prelude\<close>: results \<open>pgr_error + 'a\<close>, checked list access,
  stable insertion sort.  \<open>Doubles\<close>: IEEE values.  \<open>Identifiers\<close>: \<open>identifiers.hpp\<close>.
  \<open>Dmatrices\<close>: \<open>Dmatrix.cpp\<close>.  \<open>Tw_nodes\<close>, \<open>Vehicle_nodes\<close>: \<open>tw_node.cpp\<close>,
  \<open>vehicle_node.cpp\<close>.  \<open>Vehicles\<close>: the operations of \<open>vehicle.cpp\<close>, and \<open>Routes\<close> their
  invariant and limits.  \<open>Orders\<close>: \<open>order.cpp\<close>, \<open>pd_orders.cpp\<close>.  \<open>Vehicle_pickDelivers\<close>:
  \<open>vehicle_pickDeliver.cpp\<close>, with its facts in \<open>Pd_routes\<close> and \<open>Filling\<close>.  \<open>Durations\<close>: when the
  durations of vehicles are numbers.  \<open>Fleets\<close>:
  \<open>fleet.cpp\<close>.  \<open>Solutions\<close>: \<open>solution.cpp\<close>, \<open>initial_solution.cpp\<close>.  \<open>Optimizes\<close>:
  \<open>optimize.cpp\<close>, with its facts in \<open>Assignments\<close> and \<open>Improvements\<close>.  \<open>Pick_delivers\<close>:
  \<open>pickDeliver.cpp\<close> and the driver, with their facts in \<open>Problems\<close>.  \<open>Samples\<close>: the small
  inputs at which the theorems are applied.

  \<^bold>\<open>Theories of the paths.\<close>  \<open>Paths\<close>: \<open>path.cpp\<close> and \<open>rule.cpp\<close>.  \<open>Equi_costs\<close>: what
  \<open>equi_cost\<close> keeps of several driving distances.  \<open>Trsp\<close>: the operations of
  \<open>trspHandler.cpp\<close> and \<open>edgeInfo.cpp\<close>.  \<open>Trsp_graphs\<close>: the constructor (numbering of the
  vertices, links between edges).  \<open>Trsp_searches\<close>: the invariant of the exploration, stated over
  arcs; an edge has one arc per direction, and an arc has a label and a predecessor.
  \<open>Trsp_ends\<close>: why the exploration ends and what it settles.  \<open>Trsp_walks\<close>: what it answers.
  \<open>Trsp_paths\<close>: the path it writes and the operations around the search.  \<open>Trsp_samples\<close>: small
  graphs.  \<open>With_points\<close>: \<open>withPoints.cpp\<close>; \<open>Cut_edges\<close>: the chains of segments that it makes of an
  edge; \<open>Point_samples\<close>: a road with points.

  \<^bold>\<open>Theories of the readers and drivers.\<close>  \<open>Columns\<close>: \<open>get_check_data.cpp\<close>.  \<open>Fetchers\<close>:
  \<open>pgdata_fetchers.cpp\<close>, \<open>get_data.hpp\<close>, \<open>pgdata_getters.cpp\<close>.  \<open>Tables\<close>: what a query delivers
  (\<open>query\<close>), independence of the blocks of the cursor, the check of the columns.  \<open>Readers\<close>: the
  contract of a fetcher (locale \<open>fetcher\<close>, interpreted by every fetcher) and the rows by the names
  of their columns.  \<open>Combinations\<close>: \<open>combinations.cpp\<close> and the checks of \<open>trsp_driver.cpp\<close>, whose
  driver is in \<open>Trsp_drivers\<close>.  \<open>Rule_checks\<close>: the
  check of paths against restrictions.  \<open>Pickup_drivers\<close>: both pickup and delivery drivers from the
  queries on; \<open>Euclidean_sites\<close>: numbering of the sites and their distances; \<open>Sql_planners\<close>: which
  errors these drivers report.  \<open>Table_samples\<close>: small databases.  \<open>Further_facts\<close>: theorems on
  the same components that are not among the numbered ones.

  \<^bold>\<open>Theories of the shortest paths.\<close>  \<open>Graphs\<close>: \<open>base_graph.hpp\<close>, \<open>basic_vertex.cpp\<close>,
  \<open>basic_edge.hpp\<close>.  \<open>Dijkstras\<close>: \<open>dijkstra.hpp\<close>, the visitor of many goals, \<open>dijkstraVia.hpp\<close>, the
  constructors of \<open>path.hpp\<close> and \<open>shortestPath_driver.cpp\<close>.  \<open>Via_routes\<close>: \<open>to_postgres.cpp\<close>,
  \<open>dijkstraVia_driver.cpp\<close>, \<open>withPointsVia_driver.cpp\<close>.  \<open>Graph_laws\<close>: what an adjacency list promises
  (\<open>adjacency_list\<close>), the invariant \<open>base_graph_ok\<close>, and the inserters as changes to the multiset of
  arcs \<open>id_arcs\<close>.  \<open>Graph_changes\<close>: disconnection and restoring.  \<open>Search_trees\<close>: what the search
  promises (\<open>searches\<close>) and the rows of a path as arcs.  \<open>Shortest_paths\<close>: one path, and the state in
  which the visitor stops the search.  \<open>Path_answers\<close>: all combinations and the answer of the driver.
  \<open>Via_laws\<close>: the legs of a route.  \<open>List_graphs\<close>, \<open>List_searches\<close>: an adjacency list and a search over
  HOL lists that keep these promises.  \<open>Graph_samples\<close>: three streets.

  \<^bold>\<open>Parameters.\<close>  The server programming interface of PostgreSQL is the record \<open>spi\<close> of its
  functions; what the readers rely on is \<open>query spi sql d rows\<close>: the statement can be prepared and
  opened, and fetching from its cursor delivers the rows in blocks until one is empty.  The Boost graph library is the
  record \<open>bgl\<close> of the functions that the program calls, an argument of everything that uses the graph.
  Theorems rely on \<open>adjacency_list B d I\<close> (each function changes vertices and arcs as documented, on
  graphs with the invariant \<open>I\<close>) and on \<open>searches B I\<close>: on a graph whose costs are finite and not
  negative, \<open>dijkstra_shortest_paths\<close> examines the vertices that can be reached in the order of their
  distances, every predecessor was examined before and makes the distance, no arc shortens a distance,
  and the values of examined vertices are final.  \<open>List_searches\<close> shows that both can hold.

  \<^bold>\<open>Errors and undefined behaviour.\<close>  Every operation that can fail returns \<open>pgr_error + 'a\<close>.
  \<open>AssertFailed\<close> is a failed \<open>pgassert\<close> of a build with assertions, raised as
  \<open>AssertFailedException\<close>; its text (file, line, call stack) is not modelled.  A Release build, which is
  the default of the build files, sets \<open>NDEBUG\<close> and leaves the assertions out.  A run that returns
  \<open>Inr\<close>, or an error other than \<open>AssertFailed\<close>, has passed every assertion on its way and is the same
  run in both builds; about what a Release build does behind an assertion that would have failed the
  model says nothing (behind the one in \<open>do_while_foo\<close> it loops forever).  A driver turns
  \<open>AssertFailed\<close> into an error text, so theorems that a driver always answers are about builds with
  assertions.
  \<open>KeyNotFound\<close> is \<open>std::map::at\<close> on a missing key, \<open>UndefinedBehaviour\<close> an unchecked access
  outside of a vector, a use of an uninitialised value, \<open>std::sort\<close> with a comparator that is no strict
  weak order on its range, or an overflow of \<open>int64_t\<close>, \<open>Diverges\<close> an exhausted bound.
  The sorts of the planner are checked for this (\<open>std_sort\<close>): they are undefined when durations are not
  numbers, which finite costs, speeds that are numbers and start windows that do not open at minus
  infinity exclude; the map of the places of the Euclidean driver is undefined for coordinates that are
  NaN.  The order numbers of start and end nodes are never set.  \<open>operator==\<close> compares them first; the
  model takes them as numbers that are not known, so the comparison is undefined only where its answer
  depends on them, which on a well-formed vehicle never happens.  \<open>Vehicle::tau()\<close>, the text of a
  vehicle for the log, makes this comparison; it is called where constructor and result call it, and left
  out of the other log texts, where on well-formed vehicles it has no effect.  A theorem that an operation returns is stated as \<open>\<exists>x. f \<dots> = Inr x\<close>.

  \<^bold>\<open>Numbers.\<close>  A \<open>double\<close> is a real, an infinity or not a number, with the comparisons of IEEE 754
  and exact sums (\<open>Doubles\<close>); rounding is not modelled, so termination arguments do not use it.
  Ids are \<open>int\<close>; where the program adds to an id (\<open>renumber_vertices(int64_t)\<close>) the range of
  \<open>int64_t\<close> is checked.  The negated id of a point is an \<open>int\<close>.  A \<open>char\<close> (the side of a point) is
  compared by its code; the program only uses the codes of r, l and b.

  \<^bold>\<open>Containers.\<close>  \<open>std::map\<close> and \<open>std::set\<close> are lists in the order of the keys;
  \<open>std::priority_queue\<close> is the list in the order it is emptied, ties by edge and direction as the
  program compares them; \<open>std::set\<close> of points, whose order is not strict, is filled by ascending ids,
  for which the place of a new element is determined; \<open>std::sort\<close> is a stable sort, which is one of the
  orders it may produce (\<open>path.cpp\<close> sorts by costs that are taken to be numbers).

  \<^bold>\<open>Bounds.\<close>  \<open>fill_loop\<close> has as many rounds as the set of orders it empties; \<open>decrease_truck\<close> has
  \<open>decrease_bound\<close> levels, since each level has one vehicle less to empty or a smaller position;
  the exploration of \<open>TrspHandler\<close> takes a bound \<open>fuel\<close>, and \<open>work\<close> rounds are enough, since each
  round lowers \<open>work\<close>; \<open>construct_path\<close> visits each arc once, so twice the number of edges is
  enough; \<open>complete_loop\<close> follows predecessors for as many rounds as there are vertices and
  \<open>out_going_loop\<close> removes one edge per round.  Theorems state that the bounded functions never answer \<open>Diverges\<close> with these bounds.

  \<^bold>\<open>What the theorems show.\<close>  For the planner: the constructor establishes the invariant of orders
  and fleet; vehicles keep their invariant under every loading operation, the incremental
  evaluation agrees with the full one, limits of positions are exact; initial solutions and the
  optimiser keep every order on exactly one vehicle; result rows serve each order once, pickup
  before delivery.  For paths: appending and reversing keep the shape of a finished path and its
  cost, renumbering can be undone, restrictions are found exactly where they occur.  For the turn
  restricted search: the constructor never fails and its graph links exactly the edges that can
  follow each other; a search ends, its answer is a walk from the start to the end vertex with the
  costs it reports, restrictions charged by the walk of the search tree; without restrictions the
  walk is cheapest.  For points on edges: the
  segments of an edge are a chain between its ends with its cost, in both directions; points are
  checked for unique ids; merging the details of a path keeps its cost.
  For the shortest paths: the graph holds exactly the arcs of the rows; disconnected edges come back,
  up to doubled loops and lost parallel edges; the answer of the driver is one cheapest walk for every
  connected pair, in order; the legs of a route are walks exactly for connected vertices, and
  every leg sees the whole graph again.  For the readers: a getter returns one structure per row, given by the names of the columns, and
  otherwise the error of the first wrong column; the blocks of the cursor do not matter.  For the
  drivers: they answer whenever the queries can be opened, and their rows serve the orders read.
  Where the program departs from this the theorems say how: a restriction can index a vector of
  predecessors with -1, restrictions that start with edge 0 are missed, disconnected loops come back
  twice and parallel edges once.  Concrete runs in \<open>Further_facts\<close> show that a handler asked for several
  combinations keeps the queue of the search before, and that points at the end of an edge, or of both
  sides behind a point of one side, disconnect the edge.

  \<^bold>\<open>Not modelled.\<close>  The algorithms of the Boost graph library, which are not part of the sources, and
  the parts of the program that mostly call them or keep graphs of their own: A*, bidirectional
  searches, k shortest paths, driving distances, flows, contraction, spanning trees, colouring and the
  others.  The connection to the server, memory contexts, text of log messages, stream output; the
  exception of \<open>get_V\<close> carries a shorter text than the signature that the compiler prints.
\<close>





text \<open>
  C3: pgr_do_pickDeliver of a Debug build, from the queries on: when the server can open the
  three queries, the columns of the ends of vehicles come in pairs, the costs read are finite,
  and the speed of every vehicle is a number and its start window does not open at minus
  infinity, the driver ends with a result, a notice or an error text, never with an exception
  that escapes, undefined behaviour or an endless loop; the rows of a result serve each order of
  the orders query exactly once, pickup before delivery on one vehicle. A run that does not
  answer with the text of a failed assertion is the same in a Release build; what a Release
  build does where an assertion would have failed is not claimed. All this is apart from the
  order numbers of start and end nodes, which the program never sets but compares in tau() for
  the log (a finding): they are values that are not known, and nothing depends on them.
\<close>

theorem matrix_driver_answers_queries:
  assumes "query spi customers_sql d1 r1" "query spi vehicles_sql d2 r2" "query spi matrix_sql d3 r3" "paired_columns spi d2"
    and "\<forall>vs. get_vehicles spi vehicles_sql True = Inr vs \<longrightarrow> (\<forall>v \<in> set vs. clocked_row factor v)"
    and "\<forall>cs. get_matrixRows spi matrix_sql = Inr cs \<longrightarrow> (\<forall>c \<in> set cs. is_fin (iid_cost c))"
  shows "\<exists>ans. pgr_do_pickDeliver spi customers_sql vehicles_sql matrix_sql factor cycles initial = Inr ans \<and>
    (\<forall>rs. ans = Rows rs \<longrightarrow> (\<exists>qs. get_orders spi customers_sql True = Inr qs \<and> qs \<noteq> [] \<and> rows_serve qs rs))"
  using pickDeliver_queries[OF assms] unfolding answers_orders_def .

lemma matrix_driver_answers_queries_witness:
  "\<exists>ans. pgr_do_pickDeliver (spi_of planner_db) ''orders'' ''vehicles'' ''matrix'' (Fin 1) 5 2 = Inr ans"
proof -
  obtain d1 r1 where q: "query (spi_of planner_db) ''orders'' d1 r1" using planner_queries by blast
  have v: "\<forall>vs. get_vehicles (spi_of planner_db) ''vehicles'' True = Inr vs \<longrightarrow> (\<forall>v \<in> set vs. clocked_row (Fin 1) v)"
    using planner_vehicles by auto
  have c: "\<forall>cs. get_matrixRows (spi_of planner_db) ''matrix'' = Inr cs \<longrightarrow> (\<forall>c \<in> set cs. is_fin (iid_cost c))"
    using planner_matrix by auto
  from matrix_driver_answers_queries[OF q planner_tables(1,2) planner_columns(1) v c] show ?thesis by blast
qed

text \<open>
  C4: pgr_do_pickDeliverEuclidean of a Debug build, which reads coordinates and makes the matrix
  itself: when the server can open the two queries, the columns of the ends of vehicles come in
  pairs, all places read are finite, and the speed of every vehicle is a number and its start
  window does not open at minus infinity, the driver ends with a result, a notice or an error
  text, never with an exception that escapes, undefined behaviour or an endless loop; the rows
  of a result serve each order read exactly once, pickup before delivery on one vehicle. A
  Release build, and the order numbers that are never set, are covered as for
  pgr_do_pickDeliver.
\<close>

theorem euclidean_driver_answers_queries:
  assumes "query spi customers_sql d1 r1" "query spi vehicles_sql d2 r2" "paired_columns spi d2"
    and "\<forall>vs. get_vehicles spi vehicles_sql False = Inr vs \<longrightarrow> (\<forall>v \<in> set vs. clocked_row factor v)"
    and "\<forall>qs vs. get_orders spi customers_sql False = Inr qs \<longrightarrow> get_vehicles spi vehicles_sql False = Inr vs \<longrightarrow>
      (\<forall>p \<in> points_of qs vs. finite_pt p)"
  shows "\<exists>ans. pgr_do_pickDeliverEuclidean spi customers_sql vehicles_sql factor cycles initial = Inr ans \<and>
    (\<forall>rs. ans = Rows rs \<longrightarrow> (\<exists>qs. get_orders spi customers_sql False = Inr qs \<and> qs \<noteq> [] \<and> rows_serve qs rs))"
  using pickDeliverEuclidean_queries[OF assms] unfolding answers_orders_def .

lemma euclidean_driver_answers_queries_witness:
  "\<exists>ans. pgr_do_pickDeliverEuclidean (spi_of planner_db) ''places'' ''depots'' (Fin 1) 5 2 = Inr ans"
proof -
  obtain q where q: "get_orders (spi_of planner_db) ''places'' False = Inr [q]" "finite_pt (pick_pt q)" "finite_pt (deliver_pt q)"
    using planner_places by blast
  obtain v where v: "get_vehicles (spi_of planner_db) ''depots'' False = Inr [v]" "clocked_row (Fin 1) v"
      "finite_pt (start_pt v)" "finite_pt (end_pt v)"
    using planner_depots by blast
  have c: "\<forall>vs. get_vehicles (spi_of planner_db) ''depots'' False = Inr vs \<longrightarrow> (\<forall>v \<in> set vs. clocked_row (Fin 1) v)"
    using v(1,2) by simp
  have p: "\<forall>qs vs. get_orders (spi_of planner_db) ''places'' False = Inr qs \<longrightarrow>
      get_vehicles (spi_of planner_db) ''depots'' False = Inr vs \<longrightarrow> (\<forall>p \<in> points_of qs vs. finite_pt p)"
    using q v by (simp add: points_of_def)
  from euclidean_driver_answers_queries[OF planner_tables(3,4) planner_columns(2) c p] show ?thesis by blast
qed

text \<open>
  C5: pgr_dijkstra from the rows on, without points and in the normal direction (normal = true;
  the many-to-one signatures, which reverse the graph, are not covered): for finite costs, over
  any adjacency list and shortest path search that keep the promises of the Boost graph library,
  the answer is the rows of one path for every pair of the combinations whose ends differ and
  are connected, and of no other pair; the paths are in the order of their ends, each walks over
  arcs of the edge rows from its start to its end, no walk between them is cheaper, the
  aggregate costs are the sums of the costs before, and the total is the sum of all.
\<close>

theorem dijkstra_answers_cheapest:
  assumes "adjacency_list B d I" "searches B I" "arcs_ok (rows_arcs d True edges)" "combinations_ok combos"
    and "\<forall>ts \<in> snd ` set combos. length ts < size_max" "edges \<noteq> []"
  shows "\<exists>ps. shortest_path_of_rows B [] [] edges combos d False True 0 global driving_side True 0 = Inr (PathRows (collapse_paths ps)) \<and>
    sorted_wrt ends_before ps \<and>
    set (map path_ends ps) = {(s, t) \<in> pairs combos. s \<noteq> t \<and> reachable (rows_arcs d True edges) s t} \<and>
    (\<forall>p \<in> set ps. cheapest (rows_arcs d True edges) p \<and> agg_from 0 (path p) \<and> m_tot_cost p = path_cost (path p))"
  using driver_answers_cheapest[OF assms(1,3-6,2)] unfolding path_answered_def .

lemma dijkstra_answers_cheapest_witness:
  "\<exists>ps. shortest_path_of_rows directed_bgl [] [] streets [(10, [30, 40])] True False True 0 False (CHR ''b'') True 0 =
       Inr (PathRows (collapse_paths ps)) \<and> map path_ends ps = [(10, 30)] \<and> (\<forall>p \<in> set ps. m_tot_cost p \<le> Fin 3)"
proof -
  have C: "combinations_ok [(10, [30, 40])]" by (auto simp: combinations_ok_def keys_ok_def ran_def split: if_splits)
  let ?A = "rows_arcs True True streets"
  have w: "arc_walk ?A 10 [(10, 20, 1, Fin 1), (20, 30, 2, Fin 2)] 30" by (simp add: streets_arcs)
  then have r: "reachable ?A 10 30" unfolding reachable_def by (rule exI)
  have in_ids: "fst (snd a) \<noteq> 40" if "a \<in># ?A" for a using that by (auto simp: streets_arcs)
  have last_arc: "t \<noteq> 40" if "arc_walk ?A s as t" "s \<noteq> 40" for s as t
    using that
  proof (induction as arbitrary: s)
    case (Cons a as)
    then have "arc_walk ?A (fst (snd a)) as t" "fst (snd a) \<noteq> 40" using in_ids[of a] by simp_all
    then show ?case by (rule Cons.IH)
  qed simp
  have n: "\<not> reachable ?A 10 40" unfolding reachable_def using last_arc by fastforce
  obtain ps where ps: "shortest_path_of_rows directed_bgl [] [] streets [(10, [30, 40])] True False True 0 False (CHR ''b'') True 0 =
        Inr (PathRows (collapse_paths ps))" "sorted_wrt ends_before ps"
      "set (map path_ends ps) = {(s, t) \<in> pairs [(10, [30, 40])]. s \<noteq> t \<and> reachable ?A s t}"
      "\<forall>p \<in> set ps. cheapest ?A p \<and> agg_from 0 (path p) \<and> m_tot_cost p = path_cost (path p)"
    using dijkstra_answers_cheapest[OF list_bgl_adjacency list_bgl_searches streets_arcs_ok C, of False "CHR ''b''"]
    by (auto simp: size_max_def streets_def)
  have "{(s, t) \<in> pairs [(10, [30, 40])]. s \<noteq> t \<and> reachable ?A s t} = {(10, 30)}"
    using r n by (auto simp: pairs_def targets_of_def split: if_splits)
  then have ends: "set (map path_ends ps) = {(10, 30)}" using ps(3) by simp
  then have all: "path_ends p = (10, 30)" if "p \<in> set ps" for p using that by auto
  obtain p qs where pq: "ps = p # qs" using ends by (cases ps) auto
  have "qs = []"
  proof (cases qs)
    case (Cons q rs)
    then show ?thesis using ps(2) all[of p] all[of q] pq by (simp add: ends_before_def path_ends_def)
  qed
  then have "map path_ends ps = [(10, 30)]" using all pq by simp
  moreover have "m_tot_cost p \<le> Fin 3" if "p \<in> set ps" for p
  proof -
    have e: "m_start_id p = 10" "m_end_id p = 30" using all[OF that] by (simp_all add: path_ends_def)
    have c: "cheapest ?A p" "m_tot_cost p = path_cost (path p)" using ps(4) that by blast+
    have "path_cost (path p) \<le> arcs_cost [(10 :: int, 20, 1, Fin 1), (20, 30, 2, Fin 2)]"
      using c(1) w unfolding cheapest_def e by blast
    then show ?thesis using c(2) by (simp add: garc_cost_def)
  qed
  ultimately show ?thesis using ps(1) by (intro exI[of _ ps]) simp
qed

text \<open>
  C6: pgr_dijkstraVia from the rows on, when every via vertex is in the graph: there is one leg
  from each vertex to the next, a walk over the edge rows exactly when its ends differ and are
  connected; a leg is a cheapest walk when U-turns are allowed, for the first leg, and whenever
  it leaves on the edge that the leg before arrived on (edges taken away for one leg are back
  for the next). The rows of the route are those of the legs, with the cost so far and -2 as the
  last edge; a strict route with an empty leg has none.
\<close>

theorem via_route_answers:
  assumes "adjacency_list B d I" "searches B I" "arcs_ok (rows_arcs d True edges)" "set (s # ts) \<subseteq> rows_ids edges"
  shows "\<exists>qs rows. via_of_rows B edges [] (s # ts) d strict U True = Inr (ViaRows rows) \<and>
    legs_ok (rows_arcs d True edges) U None s ts qs \<and> route_of (if strict \<and> [] \<in> path ` set qs then [] else qs) rows"
  by (rule via_of_rows_answers[OF assms])

lemma via_route_answers_witness:
  "\<exists>q1 q2 rows. via_of_rows directed_bgl streets [] [10, 20, 30] True False False True = Inr (ViaRows rows) \<and>
     path_walks (rows_arcs True True streets) q1 \<and> path_walks (rows_arcs True True streets) q2 \<and>
     map route_node rows = map node (path q1) @ map node (path q2)"
proof -
  let ?A = "rows_arcs True True streets"
  have "arc_walk ?A 10 [(10, 20, 1, Fin 1)] 20" "arc_walk ?A 20 [(20, 30, 2, Fin 2)] 30" by (simp_all add: streets_arcs)
  then have r: "reachable ?A 10 20" "reachable ?A 20 30" unfolding reachable_def by blast+
  have V: "set [10, 20, 30] \<subseteq> rows_ids streets" by (simp add: streets_ids)
  obtain qs rows where q: "via_of_rows directed_bgl streets [] [10, 20, 30] True False False True = Inr (ViaRows rows)"
      "legs_ok ?A False None 10 [20, 30] qs" "route_of qs rows"
    using via_route_answers[OF list_bgl_adjacency list_bgl_searches streets_arcs_ok V, of False False] by auto
  obtain q1 q2 where "qs = [q1, q2]" "leg_ok ?A False None 10 20 q1" "leg_ok ?A False (arrival_edge q1) 20 30 q2"
    using q(2) by (cases qs; cases "tl qs") auto
  then show ?thesis using q(1,3) r by (intro exI[of _ q1] exI[of _ q2] exI[of _ rows]) (simp add: leg_ok_def route_of_def)
qed

text \<open>
  C7: If the constructor accepts the fleet and every order alone is feasible on every vehicle,
  the kinds of initial solution that push orders (one per truck, front, back) lead to result
  rows: no assertion of the planner fails. The only way not to get rows is that a truck has a
  clock on which durations can fail to be numbers (a cost of the matrix that is not finite, a
  speed that is NaN, a start window that opens at minus infinity): then the sort by durations
  may be undefined.
\<close>

theorem planner_finds_solution:
  assumes "dm_wf cm" "orders \<noteq> []" "vehicles \<noteq> []" "build_orders cm orders [] = Inr (nodes, os)"
    and "build_fleet cm vehicles factor nodes = Inr (nodes', f)" "is_fleet_ok [] f = Inr (True, err)"
    and "\<forall>q \<in> set os. \<forall>v \<in> set (m_trucks f).
      order_is_valid cm q (veh_speed v) = Inr True \<and> is_order_feasable cm q v = Inr True"
    and "initial \<in> {kind_code OnePerTruck, kind_code FrontTruck, kind_code BackTruck}"
  shows "(\<exists>rs. run_problem orders vehicles cm factor cycles initial = Inr (Rows rs)) \<or>
    run_problem orders vehicles cm factor cycles initial = Inl UndefinedBehaviour \<and>
      \<not> (\<forall>v \<in> set (m_trucks f). timed cm (clock v))"
  using run_problem_solves[OF assms(1-6) _ assms(8)] assms(7) unfolding all_alone_def by blast

lemma planner_finds_solution_witness:
  "\<exists>rs. run_problem ex_orders [ex_vehicle] ex_matrix 1 1 1 = Inr (Rows rs)"
proof -
  obtain nodes os nodes' f where "build_orders ex_matrix ex_orders [] = Inr (nodes, os)"
    "build_fleet ex_matrix [ex_vehicle] 1 nodes = Inr (nodes', f)" "is_fleet_ok [] f = Inr (True, [])"
    "all_alone ex_matrix os f" and t: "\<forall>v \<in> set (m_trucks f). timed ex_matrix (clock v)"
    by (rule ex_build)
  moreover have "ex_orders \<noteq> []" by (simp add: ex_orders_def)
  ultimately show ?thesis
    using planner_finds_solution[OF ex_dm(1), of ex_orders "[ex_vehicle]" nodes os 1 nodes' f "[]" 1 1]
    by (simp add: all_alone_def)
qed

text \<open>
  C8: Without turn restrictions a search between two different vertices of the handler is a
  shortest path search: an empty answer means that every walk costs the largest double or more,
  and otherwise the answer follows a walk of exactly its total, which no walk undercuts. This is
  claimed for a handler whose priority queue is empty, as the constructor leaves it (the first
  search on a handler: clear() does not empty the queue, and what a later search answers is not
  claimed), where every edge cost that is not negative is below the largest double.
\<close>

theorem search_answer_is_cheapest:
  assumes "handler_ok h" "m_que h = []" "m_ruleTable h = []" "costs_ok h" "v \<noteq> w"
    and "process fuel v w h = Inr (p, h')" "v \<in> dom (map_of (m_id_to_idx h))" "w \<in> dom (map_of (m_id_to_idx h))"
  shows "if path p = [] then \<forall>as \<in> walks h v w. \<not> walk_cost (m_edges h) as < dbl_max
    else \<exists>as \<in> walks h v w. follows h as p \<and> m_tot_cost p = walk_cost (m_edges h) as \<and>
      (\<forall>bs \<in> walks h v w. walk_cost (m_edges h) as \<le> walk_cost (m_edges h) bs)"
proof -
  have "rules_ok h" using assms(3) by (simp add: rules_ok_def)
  from process_route[OF assms(1,2) this assms(4-8)] have r: "route_ok h v w p" .
  show ?thesis
  proof (cases "path p = []")
    case True
    then have "\<not> follows h as p" for as by (simp add: follows_def path_ok_def)
    then show ?thesis using True r assms(3) by (simp add: route_ok_def)
  next
    case False
    then obtain as where as: "as \<in> walks h v w" "follows h as p" "walk_cost (m_edges h) as \<le> m_tot_cost p"
        "\<forall>bs \<in> walks h v w. m_tot_cost p \<le> walk_cost (m_edges h) bs"
      using r assms(3) unfolding route_ok_def by blast
    have eq: "m_tot_cost p = walk_cost (m_edges h) as" using dbl_le_antisym as(1,3,4) by blast
    then show ?thesis unfolding if_not_P[OF False] using as(1,2,4) by (intro bexI[of _ as]) simp_all
  qed
qed

lemma search_answer_is_cheapest_witness:
  "\<exists>p h'. process 20 10 30 (net_of []) = Inr (p, h') \<and>
     (\<exists>as \<in> walks (net_of []) 10 30. m_tot_cost p = walk_cost (m_edges (net_of [])) as)"
proof -
  obtain p h' where p: "process 20 10 30 (net_of []) = Inr (p, h')" "path p \<noteq> []" using net_process(1) by blast
  show ?thesis
    using search_answer_is_cheapest[OF net_handler(1,2) net_edge_values(2) net_costs_ok(1) _ p(1)] net_handler(3) p
    by auto
qed

text \<open>
  C9: What a search between two different vertices of the handler returns is either the empty
  path between them, or a finished path from the one to the other whose rows name, in order, the
  vertices and edges of a walk along existing arcs that uses no arc twice; the total is the sum
  of the rows and not less than the cost of the edges. This is claimed for a handler whose
  priority queue is empty, as the constructor leaves it (the first search on a handler: clear()
  does not empty the queue, and what a later search answers is not claimed), where every edge
  cost that is not negative is below the largest double, and no rule has a negative cost or
  names the first edge of the handler, m_edges[0], among its edges before the last two.
\<close>

theorem search_answer_is_walk:
  assumes "handler_ok h" "m_que h = []" "rules_ok h" "costs_ok h" "v \<noteq> w"
    and "process fuel v w h = Inr (p, h')" "v \<in> dom (map_of (m_id_to_idx h))" "w \<in> dom (map_of (m_id_to_idx h))"
  shows "m_start_id p = v \<and> m_end_id p = w \<and>
    (path p = [] \<or>
     (\<exists>as \<in> walks h v w. distinct as \<and> path_ok p \<and> map edge (path p) = edge_ids h as @ [-1] \<and>
        map node (path p) = map (\<lambda>a. id_of h (arc_from (m_edges h) a)) as @ [w] \<and>
        walk_cost (m_edges h) as \<le> m_tot_cost p))"
  using process_route[OF assms] unfolding route_ok_def follows_def by blast

lemma search_answer_is_walk_witness:
  "\<exists>p h'. process 20 10 30 (net_of [turn_rule [1, 2]]) = Inr (p, h') \<and> path_ok p"
proof -
  obtain p h' where p: "process 20 10 30 (net_of [turn_rule [1, 2]]) = Inr (p, h')" "path p \<noteq> []"
    using net_process(2) by blast
  show ?thesis
    using search_answer_is_walk[OF net_handler(1,2) net_rules_ok(2) net_costs_ok(2) _ p(1)] net_handler(3) p by auto
qed

text \<open>
  C10: The search of TrspHandler between two different vertices ends with a path (empty when
  there is none, or when a vertex is in no edge): with enough rounds no loop is cut off, no
  assertion fails and no vector is indexed outside of its range. This is claimed for a handler
  whose priority queue is empty, as the constructor leaves it (the first search on a handler:
  clear() does not empty the queue, and what a later search answers is not claimed), where every
  edge cost that is not negative is below the largest double, and no rule has a negative cost or
  names the first edge of the handler, m_edges[0], among its edges before the last two.
\<close>

theorem search_terminates:
  assumes "handler_ok h" "m_que h = []" "rules_ok h" "costs_ok h" "v \<noteq> w"
  shows "\<exists>N. \<forall>fuel \<ge> N. \<exists>p h'. process fuel v w h = Inr (p, h')"
proof (cases "v \<in> dom (map_of (m_id_to_idx h)) \<and> w \<in> dom (map_of (m_id_to_idx h))")
  case True
  then show ?thesis using process_answers[OF assms] by blast
next
  case False
  then show ?thesis using process_unknown by blast
qed

lemma search_terminates_witness:
  "\<exists>fuel p h'. process fuel 10 30 (net_of [turn_rule [1, 2]]) = Inr (p, h')"
  using search_terminates[OF net_handler(1,2) net_rules_ok(2) net_costs_ok(2), of 10 30] by fastforce

text \<open>
  C11: The matrices that the drivers make, of cost rows and of places, are well formed, and on
  such a matrix a constructor of Pgr_pickDeliver that leaves no error message has a well-formed
  table of orders and a fleet whose vehicles are unladen, feasible and know exactly the orders
  that fit them.
\<close>

theorem constructor_establishes_invariant:
  assumes "Dmatrix_of_rows rows = Inr cm \<or> Dmatrix_of_points pts = Inr cm"
    and "Pgr_pickDeliver_of orders vehicles cm factor cycles initial = Inr p" "msg_error p = []"
  shows "dm_wf cm \<and> m_cost_matrix p = cm \<and> orders_ok cm (p_orders p) \<and>
    (\<forall>v \<in> set (m_trucks (p_trucks p)). pd_wf cm v \<and> is_feasable v \<and> m_orders_in_vehicle v = ids_none \<and>
      ids_set (m_feasable_orders v) = {i. i < length (p_orders p) \<and> fits cm v (p_orders p ! i)}) \<and>
    length (p_orders p) = length orders \<and> 0 < m_initial_id p \<and> m_initial_id p \<le> 7"
proof -
  have wf: "dm_wf cm" using Dmatrix_of_rows_spec[of rows] Dmatrix_of_points_spec[of pts] assms(1) by auto
  show ?thesis
    using Pgr_pickDeliver_of_spec[OF wf assms(2,3)] wf by (auto simp: problem_ok_def fleet_ok_def truck_ok_def)
qed

lemma constructor_establishes_invariant_witness:
  "\<exists>p. Pgr_pickDeliver_of ex_orders [ex_vehicle] ex_matrix 1 1 1 = Inr p \<and> msg_error p = [] \<and>
     orders_ok ex_matrix (p_orders p)"
proof -
  obtain p where p: "Pgr_pickDeliver_of ex_orders [ex_vehicle] ex_matrix 1 1 1 = Inr p" "msg_error p = []"
    by (rule ex_problem)
  show ?thesis using p constructor_establishes_invariant[OF disjI1[OF ex_matrix_rows] p] by blast
qed



text \<open>
  C13: The constructor of TrspHandler never fails, whatever edges and rules it is given; it
  numbers exactly the vertices of the edges, every edge knows its index and the edges that can
  follow it in each direction, and the rules are grouped by their last edge in the order they
  came.
\<close>

theorem handler_constructor:
  "\<exists>es' h. TrspHandler_of edges new_edges directed rules = Inr (es', h) \<and> handler_ok h \<and> m_que h = [] \<and>
    dom (map_of (m_id_to_idx h)) = source ` set (edges @ new_edges) \<union> target ` set (edges @ new_edges) \<and>
    length (m_edges h) = length edges + length new_edges \<and>
    (\<forall>d. (case map_of (m_ruleTable h) d of None \<Rightarrow> [] | Some rs \<Rightarrow> rs) = filter (\<lambda>r. m_dest_id r = d) rules)"
proof -
  obtain es' ns' h where h: "TrspHandler_of edges new_edges directed rules = Inr (es', h)" "handler_ok h"
      "dom (map_of (m_id_to_idx h)) = source ` set (edges @ new_edges) \<union> target ` set (edges @ new_edges)"
      "list_all2 (renumbered (m_id_to_idx h)) (edges @ new_edges) (es' @ ns')"
      "map m_edge (m_edges h) = map (\<lambda>e. oriented e directed) (es' @ ns')"
      "m_ruleTable h = m_ruleTable (initialize_restrictions rules no_handler)" "m_que h = []"
    using TrspHandler_of_ok by blast
  have "length (m_edges h) = length edges + length new_edges"
    using arg_cong[OF h(5), of length] list_all2_lengthD[OF h(4)] by simp
  then show ?thesis using h rule_table[of rules] by (intro exI[of _ es'] exI[of _ h]) simp
qed

text \<open>
  C14: Optimize never fails an assertion, always ends, keeps every vehicle well formed and every
  order in exactly one vehicle, and never returns more vehicles than it was given; the one
  exception is the sort by durations, which is undefined when durations fail to be numbers, and
  that needs a cost that is not finite, a speed that is NaN or a start window that opens at
  minus infinity.
\<close>

theorem optimisation_keeps_solution:
  assumes "orders_ok cm os" "vehicles_ok cm os (fleet old)" "mset (loads (fleet old)) = mset [0..<length os]"
    and "os \<noteq> []"
  shows "(\<exists>s. Optimize_of cm kind old n = Inr s \<and> vehicles_ok cm os (fleet s) \<and>
      mset (loads (fleet s)) = mset [0..<length os] \<and> length (fleet s) \<le> length (fleet old)) \<or>
    Optimize_of cm kind old n = Inl UndefinedBehaviour \<and> \<not> (\<forall>v \<in> set (fleet old). timed cm (clock v))"
  by (rule Optimize_of_spec[OF assms(1) _ assms(4), of old kind n]) (use assms(2,3) in \<open>auto simp: serves_once_def\<close>)

lemma optimisation_keeps_solution_witness:
  "\<exists>old s. fleet old \<noteq> [] \<and> Optimize_of ex_matrix BestInsert old 3 = Inr s \<and>
     mset (loads (fleet s)) = mset [0..<2]"
proof -
  obtain old :: Solution where old: "vehicles_ok ex_matrix (table_of ex_orders) (fleet old)" "fleet old \<noteq> []"
      "mset (loads (fleet old)) = mset [0..<length (table_of ex_orders)]"
      "\<forall>v \<in> set (fleet old). timed ex_matrix (clock v)"
    by (rule ex_solution)
  have "orders_ok ex_matrix (table_of ex_orders)" "table_of ex_orders \<noteq> []" "length (table_of ex_orders) = 2"
    using ex_table_ok by (simp_all add: ex_orders_def table_of_def)
  then show ?thesis
    using optimisation_keeps_solution[OF _ old(1,3), of BestInsert 3] old(2,4) by metis
qed

text \<open>
  C15: The recursion of decrease_truck() ends: calling it with more fuel than decrease_bound
  (the sum of the vehicle positions weighted by their loads, plus the number of vehicles) always
  returns, and the fleet does not grow.
\<close>

theorem decrease_truck_terminates:
  assumes "orders_ok cm os" "opt_ok cm os s" "decrease_bound s < fuel"
  shows "\<exists>s'. decrease_truck cm fuel s = Inr s' \<and> opt_ok cm os s' \<and>
    length (fleet s') \<le> length (fleet s)"
  using decrease_truck_spec[OF assms] .

lemma decrease_truck_terminates_witness:
  "\<exists>s s'. opt_ok ex_matrix (table_of ex_orders) s \<and>
    decrease_truck ex_matrix (Suc (decrease_bound s)) s = Inr s'"
proof -
  obtain old :: Solution where old: "vehicles_ok ex_matrix (table_of ex_orders) (fleet old)"
      "mset (loads (fleet old)) = mset [0..<length (table_of ex_orders)]"
    by (rule ex_solution)
  let ?s = "\<lparr>fleet = fleet old, trucks = trucks old, best_solution = old\<rparr>"
  have ok: "opt_ok ex_matrix (table_of ex_orders) ?s" using old by (simp add: opt_ok_def serves_once_def)
  show ?thesis
    using decrease_truck_terminates[OF ex_table_ok(1) ok, of "Suc (decrease_bound ?s)"] ok by blast
qed

text \<open>
  C16: Vehicle_pickDeliver::insert puts the order at a feasible pair of positions within the
  limits of its two nodes such that no other feasible pair is cheaper, or returns False with the
  vehicle unchanged when no such pair exists.
\<close>

theorem insert_finds_cheapest_slot:
  fixes v :: Vehicle_pickDeliver
  assumes "veh_wf cm v" "ids_inv (m_orders_in_vehicle v)" "\<not> has_order v order"
    and "inner cm (m_pickup order)" "inner cm (m_delivery order)"
  shows "(\<exists>p d. (p, d) \<in> slots cm v order \<and>
      is_feasable (via cm v (with_order order (sites v) p d)) \<and>
      pd_insert cm order v = Inr (True, carry order (via cm v (with_order order (sites v) p d))) \<and>
      (\<forall>(p', d') \<in> slots cm v order. is_feasable (via cm v (with_order order (sites v) p' d')) \<longrightarrow>
        \<not> duration (via cm v (with_order order (sites v) p' d')) - duration v
          < duration (via cm v (with_order order (sites v) p d)) - duration v)) \<or>
    pd_insert cm order v = Inr (False, v) \<and>
      (\<forall>(p, d) \<in> slots cm v order. is_feasable (via cm v (with_order order (sites v) p d)) \<longrightarrow>
        \<not> duration (via cm v (with_order order (sites v) p d)) - duration v < dbl_max)"
  using pd_insert_spec[OF assms] .

lemma insert_finds_cheapest_slot_witness:
  "\<exists>b v'. pd_insert ex_matrix (ex_table ! 0) ex_truck = Inr (b, v')"
  using insert_finds_cheapest_slot[OF pd_wfD(1,3)[OF ex_pd_wf] ex_in_table(2)
      in_table_ok(2,3)[OF pd_wfD(2)[OF ex_pd_wf] ex_in_table(1)]]
  by blast

text \<open>
  C17: insert, push_back, push_front and semiLIFO never fail on a well-formed vehicle and keep
  it well formed: sites distinct, exactly the pickups and deliveries of the carried orders, each
  pickup before its delivery, all cached times up to date.
\<close>

theorem loading_keeps_invariant:
  assumes "pd_wf cm v" "in_table (m_orders v) q" "\<not> has_order v q"
  shows "(\<exists>b v'. pd_insert cm q v = Inr (b, v') \<and> pd_wf cm v' \<and> has_order v' q = b) \<and>
    (\<exists>v'. pd_push_back cm q v = Inr v' \<and> pd_wf cm v' \<and> has_order v' q) \<and>
    (\<exists>v'. pd_push_front cm q v = Inr v' \<and> pd_wf cm v' \<and> has_order v' q) \<and>
    (\<exists>b v'. pd_semiLIFO cm q v = Inr (b, v') \<and> pd_wf cm v' \<and> has_order v' q = b)"
proof (intro conjI)
  have ext: "pd_wf cm v' \<and> has_order v' q" if "extends cm v q v'" for v'
    using extends_wf[OF that assms] extends_fields(7)[OF that] by simp
  have two: "2 \<le> length (m_path v)" by (rule veh_wf_nonempty[OF pd_wfD(1)[OF assms(1)]])
  show "\<exists>b v'. pd_insert cm q v = Inr (b, v') \<and> pd_wf cm v' \<and> has_order v' q = b"
    by (cases rule: pd_insert_cases[OF assms]) (use ext assms in auto)
  show "\<exists>v'. pd_push_back cm q v = Inr v' \<and> pd_wf cm v' \<and> has_order v' q"
    using pd_push_back_eq[OF assms] ext extendsI[of "length (m_path v) - 1"] two by auto
  show "\<exists>v'. pd_push_front cm q v = Inr v' \<and> pd_wf cm v' \<and> has_order v' q"
    using pd_push_front_eq[OF assms] ext extendsI[of 1 2] two by auto
  show "\<exists>b v'. pd_semiLIFO cm q v = Inr (b, v') \<and> pd_wf cm v' \<and> has_order v' q = b"
    using pd_semiLIFO_spec[OF assms] ext extendsI[of 1] assms(1,3) by fastforce
qed

lemma loading_keeps_invariant_witness:
  "\<exists>b v'. pd_insert ex_matrix (ex_table ! 0) ex_truck = Inr (b, v') \<and> pd_wf ex_matrix v'"
  using loading_keeps_invariant[OF ex_pd_wf ex_in_table] by blast



text \<open>
  C19: The graph refines the multiset of the arcs of the edge rows: over any adjacency list that
  keeps the promises of the Boost graph library, insert_edges on an empty graph never fails and
  leaves a graph whose arcs between vertex ids are those of the rows (in an undirected graph
  both ways, the reverse one only when its cost differs, with the negated id when the graph is
  not normal), whose ids are the ends of the rows that can be travelled, and whose map from ids
  to descriptors is a bijection.
\<close>

theorem graph_holds_rows:
  assumes "adjacency_list B d I"
  shows "\<exists>g. insert_edges B es normal (Pgr_base_graph_empty B d) = Inr g \<and> base_graph_ok B d I g \<and>
    id_arcs B g = rows_arcs d normal es \<and> vertex_ids g = rows_ids es \<and> removed_edges g = []"
  by (rule graph_of_rows[OF assms, where es = es and normal = normal]) blast

lemma graph_holds_rows_witness:
  "\<exists>g. insert_edges directed_bgl streets True (Pgr_base_graph_empty directed_bgl True) = Inr g \<and>
     id_arcs directed_bgl g =
       {#(10, 20, 1, Fin 1), (20, 10, 1, Fin 1), (20, 30, 2, Fin 2), (10, 30, 3, Fin 5), (20, 20, 4, Fin 1)#} \<and>
     vertex_ids g = {10, 20, 30}"
  using graph_holds_rows[OF list_bgl_adjacency, of True streets True] unfolding streets_arcs streets_ids by blast

text \<open>
  C20: disconnect_out_going_edge and restore_graph: no arc with the edge id leaves the vertex
  any more, only arcs with that id at that vertex are gone, and restore_graph brings back
  exactly the arcs of before; the loop of the removal ends.
\<close>

theorem out_going_edge_roundtrip:
  assumes "adjacency_list B d I" "base_graph_ok B d I g" "nonnegative_arcs (id_arcs B g)" "vid \<in> vertex_ids g" "removed_edges g = []"
  shows "\<exists>g1 g2. disconnect_out_going_edge B vid eid g = Inr g1 \<and> base_graph_ok B d I g1 \<and> id_arcs B g1 \<subseteq># id_arcs B g \<and>
    (\<forall>a \<in># id_arcs B g1. \<not> (fst a = vid \<and> fst (snd (snd a)) = eid)) \<and>
    (\<forall>a \<in># id_arcs B g - id_arcs B g1. touches vid a \<and> fst (snd (snd a)) = eid) \<and>
    restore_graph B g1 = Inr g2 \<and> base_graph_ok B d I g2 \<and> id_arcs B g2 = id_arcs B g \<and> removed_edges g2 = []"
  using disconnect_restore_out_going[OF assms, of eid] by blast

lemma out_going_edge_roundtrip_witness:
  "\<exists>g g1 g2. insert_edges directed_bgl streets True (Pgr_base_graph_empty directed_bgl True) = Inr g \<and>
     disconnect_out_going_edge directed_bgl 20 2 g = Inr g1 \<and>
     (\<forall>a \<in># id_arcs directed_bgl g1. \<not> (fst a = 20 \<and> fst (snd (snd a)) = 2)) \<and>
     restore_graph directed_bgl g1 = Inr g2 \<and> id_arcs directed_bgl g2 = rows_arcs True True streets"
proof -
  obtain g where g: "insert_edges directed_bgl streets True (Pgr_base_graph_empty directed_bgl True) = Inr g"
      "base_graph_ok directed_bgl True lg_ok g" "id_arcs directed_bgl g = rows_arcs True True streets" "vertex_ids g = {10, 20, 30}"
      "removed_edges g = []"
    by (rule streets_graph)
  have "nonnegative_arcs (id_arcs directed_bgl g)" "20 \<in> vertex_ids g" using g(3,4) streets_nonnegative by simp_all
  from out_going_edge_roundtrip[OF list_bgl_adjacency g(2) this g(5), of 2] show ?thesis using g(1,3) by auto
qed

text \<open>
  C21: pgr_get_edges refines reading the table by the names of its columns: when the columns
  have the right types and the cells it uses are not null, it answers one edge per row, in the
  order of the query, with the values of the named cells, infinities replaced, a missing reverse
  cost as -1, a missing id counted from 0, and the ends exchanged when the graph is not normal.
\<close>

theorem edges_read:
  assumes "query spi sql d rows" "columns_ok spi d (edge_columns ignore_id)"
    and "\<forall>t \<in> set rows. no_nulls spi d [''id'', ''source'', ''target'', ''cost'', ''reverse_cost''] t"
  shows "get_edges spi sql normal ignore_id =
    Inr (map (\<lambda>(k, t). edge_of_row normal spi d t (int k)) (zip [0..<length rows] rows))"
proof -
  have eq: "get_edges spi sql normal ignore_id = Inr (edges.numbered_rows normal spi d 0 rows)"
    unfolding get_edges_def by (rule edges.read_all[OF assms])
  have "edges.numbered_rows normal spi d 0 rows =
      map (\<lambda>(k, t). edge_of_row normal spi d t (int k)) (zip [0..<length rows] rows)"
    by (auto simp: edges.numbered_rows_def edge_of_row_def int_at_or_def)
  then show ?thesis using eq by simp
qed

lemma edges_read_witness:
  "get_edges (spi_of example_db) ''edges'' True True =
    Inr [\<lparr>edge_id = 0, source = 10, target = 20, edge_cost = Fin 2, reverse_cost = -1\<rparr>,
         \<lparr>edge_id = 1, source = 20, target = 30, edge_cost = dbl_max, reverse_cost = -1\<rparr>]"
proof -
  have "columns_ok (spi_of example_db) edge_columns_of_table (edge_columns True)"
    by (simp add: columns_ok_def edge_columns_def example_cells edge_columns_of_table_def oids.simps)
  moreover have "no_nulls (spi_of example_db) edge_columns_of_table [''id'', ''source'', ''target'', ''cost'', ''reverse_cost''] t"
    if "t = [Num 10, Num 20, Real (Fin 2)] \<or> t = [Num 20, Num 30, Real PInf]" for t
    using that by (auto simp: no_nulls_def example_cells edge_columns_of_table_def)
  ultimately show ?thesis
    using edges_read[OF example_queries(1), of True True]
    by (simp add: edge_of_row_def int_at_or_def float_at_or_def int_at_def float_at_def element_value_def example_cells
        edge_columns_of_table_def oids.simps infinity_to_max_def isinf_def one_double_def)
qed

text \<open>
  C22: The check of the paths of the unrestricted search against the turn restrictions keeps
  exactly the paths that are not empty and break no rule, and asks the restricted search for the
  pairs of ends of the others; a path that breaks two rules adds the pair (0, 0), because it is
  emptied at the first. This is claimed for paths as a search finishes them (the last row has
  edge -1 and no edge occurs twice) and for rules that have edges, do not start with edge 0 and
  do not name -1; for a rule that starts with edge 0 it is false, see the property on such
  rules.
\<close>

theorem paths_checked_against_rules:
  assumes "\<forall>p \<in> set paths. finished_path p" "\<forall>r \<in> set ruleList. proper_rule r"
  shows "\<exists>m. get_combinations_of_paths paths ruleList =
      Inr (m, filter (\<lambda>p. path p \<noteq> [] \<and> (\<forall>r \<in> set ruleList. \<not> has_restriction r p)) paths) \<and>
    combinations_ok m \<and> pairs m = (\<Union>p \<in> set paths. pairs_of_path ruleList p)"
proof -
  have "(broken ruleList p = []) = (\<forall>r \<in> set ruleList. \<not> has_restriction r p)" for p
    by (simp add: broken_def filter_empty_conv)
  then show ?thesis using get_combinations_of_paths_spec[OF assms] by simp
qed

lemma paths_checked_against_rules_witness:
  "\<exists>m. get_combinations_of_paths [turning_path] [turn_rule [1, 2], turn_rule [2, 3]] = Inr (m, []) \<and>
    pairs m = {(10, 40), (0, 0)}"
proof -
  have fin: "\<forall>p \<in> set [turning_path]. finished_path p" by (simp add: finished_path_def turning_path_def)
  have proper: "\<forall>r \<in> set [turn_rule [1, 2], turn_rule [2, 3]]. proper_rule r"
    by (simp add: proper_rule_def turn_rule_def)
  have broken: "broken [turn_rule [1, 2], turn_rule [2, 3]] turning_path = [turn_rule [1, 2], turn_rule [2, 3]]"
    by code_simp
  have "has_restriction (turn_rule [1, 2]) turning_path" by code_simp
  then show ?thesis
    using paths_checked_against_rules[OF fin proper]
    by (auto simp: pairs_of_path_def broken) (auto simp: turning_path_def)
qed

text \<open>
  C23: For the planner without a matrix, orders and vehicles with finite coordinates get node
  ids such that the distance of two ids in the matrix is the Euclidean distance of the places
  that carry them, and nothing else of an order or a vehicle changes.
\<close>

theorem sites_keep_their_distances:
  assumes "\<forall>p \<in> points_of orders vehicles. finite_pt p"
  shows "\<exists>os vs m cm. euclidean_nodes orders vehicles = (os, vs, m) \<and> Dmatrix_of_points m = Inr cm \<and>
    list_all2 same_order orders os \<and> list_all2 same_vehicle vehicles vs \<and>
    (\<forall>(P, a) \<in> places os vs. \<forall>(Q, b) \<in> places os vs. dm_distance cm a b = Inr (get_distance P Q))"
proof -
  obtain os vs m where e: "euclidean_nodes orders vehicles = (os, vs, m)" "list_all2 same_order orders os"
      "list_all2 same_vehicle vehicles vs" "finite_keys m" "distinct (map snd m)" "places os vs \<subseteq> set m"
    using euclidean_nodes_spec[OF assms] by blast
  obtain cm where cm: "Dmatrix_of_points m = Inr cm" using Dmatrix_of_points_spec[of m] by blast
  have "\<forall>(P, a) \<in> places os vs. \<forall>(Q, b) \<in> places os vs. dm_distance cm a b = Inr (get_distance P Q)"
    using distances[OF e(5) _ cm] e(4,6) by blast
  then show ?thesis using e(1-3) cm by (intro exI conjI)
qed

lemma sites_keep_their_distances_witness:
  "\<exists>os vs m cm a b. euclidean_nodes [far_order] [ex_vehicle] = (os, vs, m) \<and> Dmatrix_of_points m = Inr cm \<and>
    map pick_node_id os = [a] \<and> map deliver_node_id os = [b] \<and> dm_distance cm a b = Inr (Fin 5)"
proof -
  obtain os vs m cm where e: "euclidean_nodes [far_order] [ex_vehicle] = (os, vs, m)" "Dmatrix_of_points m = Inr cm"
      "list_all2 same_order [far_order] os"
      "\<forall>(P, a) \<in> places os vs. \<forall>(Q, b) \<in> places os vs. dm_distance cm a b = Inr (get_distance P Q)"
    using sites_keep_their_distances[OF far_points] by blast
  obtain q where q: "os = [q]" "same_order far_order q" using e(3) by (auto simp: list_all2_Cons1)
  have pts: "pick_pt q = (Fin 0, Fin 0)" "deliver_pt q = (Fin 3, Fin 4)"
    by (subst q(2)[unfolded same_order_def], simp add: pick_pt_def deliver_pt_def far_order_def ex_order_def zero_double_def)+
  have "(pick_pt q, pick_node_id q) \<in> places os vs" "(deliver_pt q, deliver_node_id q) \<in> places os vs"
    by (simp_all add: places_def q(1))
  then have "dm_distance cm (pick_node_id q) (deliver_node_id q) = Inr (get_distance (pick_pt q) (deliver_pt q))"
    using e(4) by blast
  also have "get_distance (pick_pt q) (deliver_pt q) = Fin 5"
    by (simp add: pts get_distance_finite)
  finally show ?thesis using e(1,2) q(1) by auto
qed

text \<open>
  C24: Pg_points_graph cuts an edge at the points strictly inside it, when the graph is not
  reversed (normal = true) and the edges have distinct ids: in the direction of the edge the new
  edges with its id are a chain from its source to its target, their costs add up to its cost,
  and the vertices between them are exactly the negated ids of the points visible in that
  direction.
\<close>

theorem edges_cut_forward:
  assumes "Pg_points_graph_of points edges True ds directed = Inr g" "wp_error g = []"
    and "distinct (map edge_id edges)" "e \<in> set edges" "\<forall>p \<in> set points. inside_edge p" "edge_cost e = Fin ce" "0 \<le> ce"
  defines "fs \<equiv> filter (\<lambda>x. edge_id x = edge_id e \<and> 0 \<le> edge_cost x) (m_new_edges g)"
  shows "chain_of (source e) fs (target e) \<and> sum_list (map edge_cost fs) = edge_cost e \<and>
    set (butlast (map target fs)) =
      (\<lambda>p. - pid p) ` {p \<in> set points. point_edge_id p = edge_id e \<and> seen_forward (m_driving_side g) e p}"
proof -
  let ?A = "{p \<in> set points. point_edge_id p = edge_id e}"
  obtain ps segs ps' c where cut: "cut_points (m_driving_side g) e ps (Cut_of e) = Inr (True, segs, ps', c)"
      "\<forall>p \<in> set ps. inside_edge p" "by_fraction ps" "set ps \<subseteq> ?A" "\<forall>p \<in> ?A. \<exists>q \<in> set ps. same_point p q"
      "filter (\<lambda>x. edge_id x = edge_id e) (m_new_edges g) = segs @ last_segments e c"
    using Pg_points_graph_cut[OF assms(1-5)] by blast
  have fs: "fs = forward (segs @ last_segments e c)"
    unfolding fs_def cut(6)[symmetric] filter_filter by (rule filter_cong) auto
  note r = segments_forward[OF cut(1-3) assms(6,7), folded fs]
  have "set (butlast (map target fs)) = (\<lambda>p. - pid p) ` {p \<in> set ps. seen_forward (m_driving_side g) e p}"
    using r by simp
  also have "\<dots> = (\<lambda>p. - pid p) ` {p \<in> ?A. seen_forward (m_driving_side g) e p}"
    using same_point_seen by (intro seen_pids[OF cut(4,5)]) blast
  finally show ?thesis using r by (simp add: conj_assoc)
qed

lemma edges_cut_forward_witness:
  "\<exists>g. road_with [right_of, left_of] = Inr g \<and>
    chain_of 10 (filter (\<lambda>x. edge_id x = 1 \<and> 0 \<le> edge_cost x) (m_new_edges g)) 20"
proof -
  obtain g where g: "Pg_points_graph_of [right_of, left_of] [road] True kRight True = Inr g" "wp_error g = []"
    using road_both_sides unfolding road_with_def by blast
  show ?thesis
    using edges_cut_forward[OF g _ _ road_points_inner road_fields(4)] g(1) by (simp add: road_fields road_with_def)
qed

text \<open>
  C25: The same against the direction of the edge, for a graph that is not reversed (normal =
  true) and edges with distinct ids, when its points are either all visible from both directions
  or all on one side: the new edges that can be travelled backwards are a chain between the
  ends, their reverse costs add up to the reverse cost of the edge, and the vertices between
  them are the points visible in that direction.
\<close>

theorem edges_cut_backward:
  assumes "Pg_points_graph_of points edges True ds directed = Inr g" "wp_error g = []"
    and "distinct (map edge_id edges)" "e \<in> set edges" "\<forall>p \<in> set points. inside_edge p" "reverse_cost e = Fin ce" "0 \<le> ce"
    and "(\<forall>p \<in> set points. point_edge_id p = edge_id e \<longrightarrow> both_ways (m_driving_side g) e p) \<or>
      (\<forall>p \<in> set points. point_edge_id p = edge_id e \<longrightarrow> \<not> both_ways (m_driving_side g) e p)"
  defines "bs \<equiv> filter (\<lambda>x. edge_id x = edge_id e \<and> 0 \<le> reverse_cost x) (m_new_edges g)"
  shows "chain_of (source e) bs (target e) \<and> sum_list (map reverse_cost bs) = reverse_cost e \<and>
    set (butlast (map target bs)) =
      (\<lambda>p. - pid p) ` {p \<in> set points. point_edge_id p = edge_id e \<and> seen_backward (m_driving_side g) e p}"
proof -
  let ?A = "{p \<in> set points. point_edge_id p = edge_id e}"
  obtain ps segs ps' c where cut: "cut_points (m_driving_side g) e ps (Cut_of e) = Inr (True, segs, ps', c)"
      "\<forall>p \<in> set ps. inside_edge p" "by_fraction ps" "set ps \<subseteq> ?A" "\<forall>p \<in> ?A. \<exists>q \<in> set ps. same_point p q"
      "filter (\<lambda>x. edge_id x = edge_id e) (m_new_edges g) = segs @ last_segments e c"
    using Pg_points_graph_cut[OF assms(1-5)] by blast
  have bs: "bs = backward (segs @ last_segments e c)"
    unfolding bs_def cut(6)[symmetric] filter_filter by (rule filter_cong) auto
  have "(\<forall>p \<in> set ps. both_ways (m_driving_side g) e p) \<or> (\<forall>p \<in> set ps. \<not> both_ways (m_driving_side g) e p)"
    using assms(8) cut(4) by auto
  note r = segments_backward[OF cut(1-3) assms(6,7) this, folded bs]
  have "set (butlast (map target bs)) = (\<lambda>p. - pid p) ` {p \<in> set ps. seen_backward (m_driving_side g) e p}"
    using r by simp
  also have "\<dots> = (\<lambda>p. - pid p) ` {p \<in> ?A. seen_backward (m_driving_side g) e p}"
    using same_point_seen by (intro seen_pids[OF cut(4,5)]) blast
  finally show ?thesis using r by (simp add: conj_assoc)
qed

lemma edges_cut_backward_witness:
  "\<exists>g. road_with [right_of, left_of] = Inr g \<and>
    chain_of 10 (filter (\<lambda>x. edge_id x = 1 \<and> 0 \<le> reverse_cost x) (m_new_edges g)) 20"
proof -
  obtain g where g: "Pg_points_graph_of [right_of, left_of] [road] True kRight True = Inr g" "wp_error g = []"
      "m_driving_side g = kRight"
    using road_both_sides unfolding road_with_def by blast
  have "\<forall>p \<in> set [right_of, left_of]. point_edge_id p = edge_id road \<longrightarrow> \<not> both_ways (m_driving_side g) road p"
    using road_points_one_side unfolding g(3) by blast
  from edges_cut_backward[OF g(1,2) _ _ road_points_inner road_fields(5) _ disjI2[OF this]]
  show ?thesis using g(1) by (simp add: road_fields road_with_def)
qed



text \<open>
  C27: Appending one finished path to another that starts where it ends gives a finished path:
  it starts and ends where it says, only its last row has no edge, every aggregate cost is the
  sum of the costs before it, the total is the sum of both totals.
\<close>

theorem append_keeps_path_shape:
  assumes "path_ok p" "path_ok q" "m_end_id p = m_start_id q" "m_start_id p \<noteq> m_end_id p" "m_start_id q \<noteq> m_end_id q"
  shows "\<exists>r. append_path p q = Inr r \<and> path_ok r \<and> m_start_id r = m_start_id p \<and> m_end_id r = m_end_id q \<and>
    m_tot_cost r = m_tot_cost p + m_tot_cost q \<and>
    map edge (path r) = butlast (map edge (path p)) @ map edge (path q)"
  using append_path_joins[OF assms] by blast

lemma append_keeps_path_shape_witness:
  "\<exists>r. append_path (leg_path 2 4 5) (leg_path 5 8 6) = Inr r \<and> path_ok r \<and> m_start_id r = 2 \<and> m_end_id r = 6"
  using append_keeps_path_shape[OF leg_path_ok leg_path_ok, of 2 4 5 5 8 6] by auto

text \<open>
  C28: equi_cost leaves every vertex to the start that reaches it at the smallest cost: of each
  path exactly those rows remain that no path reaches at a smaller aggregate cost, for any
  number of paths in any order.
\<close>

theorem equi_cost_keeps_nearest:
  assumes "distinct (map m_start_id paths)" "\<forall>p \<in> set paths. distinct (map node (path p))"
  shows "(\<lambda>p. (m_start_id p, m_end_id p, set (path p))) ` set (equi_cost paths) =
    (\<lambda>p. (m_start_id p, m_end_id p,
           {r \<in> set (path p). \<forall>q \<in> set paths. \<forall>t \<in> set (path q). \<not> (node t = node r \<and> agg_cost t < agg_cost r)})) ` set paths"
  using equi_cost_summaries(1)[OF assms] unfolding summary_def nearest_rows_def better_def .

lemma equi_cost_keeps_nearest_witness:
  "(\<lambda>p. (m_start_id p, m_end_id p, set (path p))) ` set (equi_cost [leg_path 2 4 5]) =
    {(2, 5, set (path (leg_path 2 4 5)))}"
proof -
  have d: "\<forall>p \<in> set [leg_path 2 4 5]. distinct (map node (path p))" by simp
  have "{r \<in> set (path (leg_path 2 4 5)). \<forall>q \<in> set [leg_path 2 4 5]. \<forall>t \<in> set (path q). \<not> (node t = node r \<and> agg_cost t < agg_cost r)}
      = set (path (leg_path 2 4 5))"
    by (auto simp: leg_path_value path_row_def)
  then show ?thesis using equi_cost_keeps_nearest[OF _ d] by simp
qed

text \<open>
  C29: Inserting, erasing and swapping nodes re-evaluates only the tail of the path, and the
  result is the vehicle whose whole path is evaluated from scratch over the changed list of
  sites.
\<close>

theorem incremental_evaluation_is_complete:
  assumes "veh_wf cm v"
  shows "(\<forall>i n. 0 < i \<and> i < length (m_path v) \<and> inner cm n \<longrightarrow>
      veh_insert cm i n v = evaluate cm (v\<lparr>m_path := map Vehicle_node_of (insert_at i (site n) (sites v))\<rparr>)) \<and>
    (\<forall>i. 0 < i \<and> Suc i < length (m_path v) \<longrightarrow>
      veh_erase_at cm i v = evaluate cm (v\<lparr>m_path := map Vehicle_node_of (erase_at i (sites v))\<rparr>)) \<and>
    (\<forall>i j. 0 < i \<and> Suc i < length (m_path v) \<and> 0 < j \<and> Suc j < length (m_path v) \<and> 3 < length (m_path v) \<longrightarrow>
      veh_swap cm i j v = evaluate cm (v\<lparr>m_path := map Vehicle_node_of (swap_at i j (sites v))\<rparr>))"
  using veh_insert_schedule[OF assms] veh_erase_at_schedule[OF assms] veh_swap_schedule[OF assms]
  by (simp_all add: schedule_def)

lemma incremental_evaluation_is_complete_witness:
  "veh_insert ex_matrix 1 (m_pickup (ex_table ! 0)) ex_truck =
     evaluate ex_matrix (ex_truck\<lparr>m_path :=
       map Vehicle_node_of (insert_at 1 (site (m_pickup (ex_table ! 0))) (sites ex_truck))\<rparr>)"
  using incremental_evaluation_is_complete[OF ex_veh_wf]
    in_table_ok(2)[OF pd_wfD(2)[OF ex_pd_wf] ex_in_table(1)] by (simp add: ex_truck_orders)

text \<open>
  C30: A vehicle is feasible exactly when no node of its path is reached after its window closes
  and none exceeds the capacity (or is laden at the ends); the counters of the last node count
  these violations.
\<close>

theorem feasible_iff_no_violation:
  assumes "veh_wf cm v"
  shows "(is_feasable v \<longleftrightarrow> list_all (\<lambda>n. \<not> node_has_twv n \<and> \<not> node_has_cv n (m_capacity v)) (m_path v)) \<and>
    twvTot v = int (length (filter node_has_twv (m_path v))) \<and>
    cvTot v = int (length (filter (\<lambda>n. node_has_cv n (m_capacity v)) (m_path v)))"
  using is_feasable_iff[OF assms] veh_counters[OF assms] by (simp add: list_all_iff)

lemma feasible_iff_no_violation_witness:
  "twvTot ex_truck = int (length (filter node_has_twv (m_path ex_truck)))"
  using feasible_iff_no_violation[OF ex_veh_wf] by blast

text \<open>
  C31: check_points leaves one point per id in ascending order and loses no id, and it writes
  its message exactly when two points with one id differ in edge, fraction or side.
\<close>

theorem points_checked:
  assumes "\<forall>p \<in> set (m_points g). fraction p \<noteq> NaN"
  shows "sorted_wrt (\<lambda>p q. pid p < pid q) (m_points (check_points g)) \<and>
    set (m_points (check_points g)) \<subseteq> set (m_points g) \<and> pid ` set (m_points (check_points g)) = pid ` set (m_points g) \<and>
    (wp_error (check_points g) = wp_error g \<longleftrightarrow>
      (\<forall>p \<in> set (m_points g). \<forall>q \<in> set (m_points g). pid p = pid q \<longrightarrow> same_point p q))"
  using check_points_spec[OF assms] by blast

lemma points_checked_witness:
  "pid ` set (m_points (check_points \<lparr>m_points = [right_of, left_of, right_of], m_o_points = [], m_edges_of_points = [],
     m_new_edges = [], m_driving_side = kRight, m_directed = True, wp_error = []\<rparr>)) = {1, 2}"
  using points_checked[of "\<lparr>m_points = [right_of, left_of, right_of], m_o_points = [], m_edges_of_points = [],
     m_new_edges = [], m_driving_side = kRight, m_directed = True, wp_error = []\<rparr>"]
  by (simp add: right_of_def left_of_def point_at_def insert_commute)

text \<open>
  C32: A query is refused for the first column, in the order in which the getter lists them,
  that is missing though it is compulsory, has no type or has an unexpected type; the error
  names that column and no row is looked at, whatever is in the rows.
\<close>

theorem first_wrong_column_reported:
  assumes "query spi sql d rows" "columns_ok spi d good" "column_error spi d c = Some e"
  shows "get_data spi sql flag (good @ c # cols) func = Inl e"
proof -
  have "List.map_filter (column_error spi d) (good @ c # cols) = e # List.map_filter (column_error spi d) cols"
    using assms(2,3) by (induction good) (simp_all add: columns_ok_def List.map_filter_simps)
  then show ?thesis by (simp add: get_data_blocks[OF assms(1)] fetch_column_info_spec)
qed

lemma first_wrong_column_reported_witness:
  "get_edges (spi_of example_db) ''bad'' True True = Inl (ColumnNotFound ''target'')"
  using first_wrong_column_reported[OF example_queries(3),
      of "[column False ''id'' ANY_INTEGER, column True ''source'' ANY_INTEGER]" "column True ''target'' ANY_INTEGER"
        "ColumnNotFound ''target''" True "[column True ''cost'' ANY_NUMERICAL, column False ''reverse_cost'' ANY_NUMERICAL]" fetch_edge]
  by (simp add: get_edges_def edge_columns_def columns_ok_def column_error_def example_cells oids.simps)

text \<open>
  C33: The size of the blocks in which a cursor delivers the rows does not matter: get_data, a
  loop that fetches block after block until one is empty and reads the columns only in its first
  round, ends, and equals checking the columns and passing all rows through the fetcher in one
  block, counters included.
\<close>

theorem cursor_blocks_do_not_matter:
  assumes "query spi sql d rows"
  shows "get_data spi sql flag cols func =
    bindE (fetch_column_info spi d cols) (\<lambda>info.
    bindE (fetch_block spi d info func flag rows (0, 0, [])) (\<lambda>(default_id, valid, xs). Inr xs))"
  unfolding get_data_blocks[OF assms] by (intro bindE_cong refl) auto

lemma cursor_blocks_do_not_matter_witness:
  "get_data (spi_of example_db) ''vehicles'' True (vehicle_columns True) fetch_vehicle =
    bindE (fetch_column_info (spi_of example_db) vehicle_columns_of_table (vehicle_columns True)) (\<lambda>info.
    bindE (fetch_block (spi_of example_db) vehicle_columns_of_table info fetch_vehicle True [[Num 1, Num 50, Num 6, Num 7]] (0, 0, []))
      (\<lambda>(default_id, valid, xs). Inr xs))"
  by (rule cursor_blocks_do_not_matter[OF example_queries(2)])

text \<open>
  C34: fetch_vehicle asks for the column of the end service where it means the column of the end
  vertex: without a column end_service every vehicle of a matrix planner ends where it starts,
  also when the table has a column end_node_id that says otherwise.
\<close>

theorem end_node_needs_end_service:
  assumes "query spi sql d rows" "get_vehicles spi sql True = Inr vs" "\<not> has_column spi d ''end_service''"
  shows "\<forall>v \<in> set vs. end_node_id v = start_node_id v"
  by (rule vehicles_end_at_start[OF assms])

lemma end_node_needs_end_service_witness:
  "\<exists>v. get_vehicles (spi_of example_db) ''vehicles'' True = Inr [v] \<and> start_node_id v = 6 \<and> end_node_id v = 6 \<and>
    datum_at (spi_of example_db) vehicle_columns_of_table [Num 1, Num 50, Num 6, Num 7] ''end_node_id'' = Num 7"
proof -
  obtain v where v: "get_vehicles (spi_of example_db) ''vehicles'' True = Inr [v]" "start_node_id v = 6"
    using example_vehicles by blast
  then have "end_node_id v = start_node_id v"
    using end_node_needs_end_service[OF example_queries(2) v(1)] by (simp add: example_cells vehicle_columns_of_table_def)
  then show ?thesis using v by (simp add: example_cells vehicle_columns_of_table_def)
qed

text \<open>
  C35: A turn restriction that starts with edge 0, and goes on with another edge, is never found
  by the check of the paths: the list of edges it searches starts with as many zeros as the path
  has rows, and only the first zero is looked at. Paths of two rows or more are all kept and no
  pair is asked of the restricted search, whether the restriction occurs in them or not.
\<close>

theorem zero_rules_are_missed:
  assumes "\<forall>r \<in> set ruleList. \<exists>x xs. m_all r = 0 # x # xs \<and> x \<noteq> 0" "\<forall>p \<in> set paths. 2 \<le> length (path p)"
  shows "get_combinations_of_paths paths ruleList = Inr ([], paths)"
  using zero_rules_keep_paths[of ruleList paths] assms unfolding zero_rule_def by blast

lemma zero_rules_are_missed_witness:
  "get_combinations_of_paths [zero_path] [turn_rule [0, 2]] = Inr ([], [zero_path]) \<and> has_restriction (turn_rule [0, 2]) zero_path"
proof
  show "get_combinations_of_paths [zero_path] [turn_rule [0, 2]] = Inr ([], [zero_path])"
    by (rule zero_rules_are_missed) (simp_all add: turn_rule_def zero_path_def turning_path_def)
  show "has_restriction (turn_rule [0, 2]) zero_path" by code_simp
qed

text \<open>
  C36: disconnect_vertex takes all arcs at the vertex away, and restore_graph brings all of them
  back; a loop at the vertex, which leaves it and enters it, is stored twice and comes back
  twice.
\<close>

theorem disconnected_vertex_doubles_loops:
  assumes "adjacency_list B d I" "base_graph_ok B d I g" "nonnegative_arcs (id_arcs B g)" "vid \<in> vertex_ids g" "removed_edges g = []"
  shows "\<exists>g1 g2. disconnect_vertex B vid g = Inr g1 \<and> id_arcs B g1 = filter_mset (\<lambda>a. \<not> touches vid a) (id_arcs B g) \<and>
    restore_graph B g1 = Inr g2 \<and> base_graph_ok B d I g2 \<and> removed_edges g2 = [] \<and>
    id_arcs B g2 = id_arcs B g + filter_mset (from_to vid vid) (id_arcs B g)"
  by (rule disconnect_restore_vertex[OF assms])

lemma disconnected_vertex_doubles_loops_witness:
  "\<exists>g g1 g2. insert_edges directed_bgl streets True (Pgr_base_graph_empty directed_bgl True) = Inr g \<and>
     disconnect_vertex directed_bgl 20 g = Inr g1 \<and> id_arcs directed_bgl g1 = {#(10, 30, 3, Fin 5)#} \<and>
     restore_graph directed_bgl g1 = Inr g2 \<and>
     id_arcs directed_bgl g2 = rows_arcs True True streets + {#(20, 20, 4, Fin 1)#}"
proof -
  obtain g where g: "insert_edges directed_bgl streets True (Pgr_base_graph_empty directed_bgl True) = Inr g"
      "base_graph_ok directed_bgl True lg_ok g" "id_arcs directed_bgl g = rows_arcs True True streets" "vertex_ids g = {10, 20, 30}"
      "removed_edges g = []"
    by (rule streets_graph)
  have "nonnegative_arcs (id_arcs directed_bgl g)" "20 \<in> vertex_ids g" using g(3,4) streets_nonnegative by simp_all
  from disconnected_vertex_doubles_loops[OF list_bgl_adjacency g(2) this g(5)] show ?thesis
    unfolding g(3) using g(1) by (simp add: streets_arcs touches_def from_to_def) blast
qed

text \<open>
  C37: disconnect_edge takes all arcs from one vertex to the other away (in an undirected graph
  both ways) but stores only one of them: restore_graph brings back one arc, and its parallel
  ones are lost.
\<close>

theorem parallel_edges_lost:
  assumes "adjacency_list B d I" "base_graph_ok B d I g" "nonnegative_arcs (id_arcs B g)" "p \<in> vertex_ids g" "q \<in> vertex_ids g"
    and "removed_edges g = []" "\<exists>a \<in># id_arcs B g. from_to p q a"
  shows "\<exists>g1 g2 i c. disconnect_edge B p q g = Inr g1 \<and> restore_graph B g1 = Inr g2 \<and> base_graph_ok B d I g2 \<and>
    removed_edges g2 = [] \<and> (p, q, i, c) \<in># id_arcs B g \<and>
    id_arcs B g1 = filter_mset (\<lambda>a. \<not> (from_to p q a \<or> \<not> d \<and> from_to q p a)) (id_arcs B g) \<and>
    id_arcs B g2 = id_arcs B g1 + ways d p q i c"
  by (rule disconnect_restore_edge[OF assms])

lemma parallel_edges_lost_witness:
  "\<exists>g g1 g2 i c. insert_edges directed_bgl (streets @ streets) True (Pgr_base_graph_empty directed_bgl True) = Inr g \<and>
     size (filter_mset (from_to 20 30) (id_arcs directed_bgl g)) = 2 \<and>
     disconnect_edge directed_bgl 20 30 g = Inr g1 \<and> restore_graph directed_bgl g1 = Inr g2 \<and>
     id_arcs directed_bgl g2 = filter_mset (\<lambda>a. \<not> from_to 20 30 a) (id_arcs directed_bgl g) + {#(20, 30, i, c)#}"
proof -
  obtain g where g: "insert_edges directed_bgl (streets @ streets) True (Pgr_base_graph_empty directed_bgl True) = Inr g"
      "base_graph_ok directed_bgl True lg_ok g" "id_arcs directed_bgl g = rows_arcs True True (streets @ streets)"
      "vertex_ids g = rows_ids (streets @ streets)" "removed_edges g = []"
    by (rule graph_of_rows[OF list_bgl_adjacency])
  have arcs: "id_arcs directed_bgl g = rows_arcs True True streets + rows_arcs True True streets" using g(3) by (simp add: rows_arcs_def)
  have ids: "vertex_ids g = {10, 20, 30}" using g(4) streets_ids by (auto simp: rows_ids_def)
  have "nonnegative_arcs (id_arcs directed_bgl g)" using streets_nonnegative unfolding arcs by (auto simp: nonnegative_arcs_def)
  moreover have "20 \<in> vertex_ids g" "30 \<in> vertex_ids g" unfolding ids by simp_all
  moreover note g(5)
  moreover have "\<exists>a \<in># id_arcs directed_bgl g. from_to 20 30 a" unfolding arcs streets_arcs by (simp add: from_to_def)
  ultimately have lost: "\<exists>g1 g2 i c. disconnect_edge directed_bgl 20 30 g = Inr g1 \<and> restore_graph directed_bgl g1 = Inr g2 \<and>
      base_graph_ok directed_bgl True lg_ok g2 \<and> removed_edges g2 = [] \<and> (20, 30, i, c) \<in># id_arcs directed_bgl g \<and>
      id_arcs directed_bgl g1 = filter_mset (\<lambda>a. \<not> (from_to 20 30 a \<or> \<not> True \<and> from_to 30 20 a)) (id_arcs directed_bgl g) \<and>
      id_arcs directed_bgl g2 = id_arcs directed_bgl g1 + ways True 20 30 i c"
    by (rule parallel_edges_lost[OF list_bgl_adjacency g(2)])
  then obtain g1 g2 i c where r: "disconnect_edge directed_bgl 20 30 g = Inr g1" "restore_graph directed_bgl g1 = Inr g2"
      "id_arcs directed_bgl g1 = filter_mset (\<lambda>a. \<not> from_to 20 30 a) (id_arcs directed_bgl g)"
      "id_arcs directed_bgl g2 = id_arcs directed_bgl g1 + {#(20, 30, i, c)#}"
    by (auto simp: ways_def)
  have "size (filter_mset (from_to 20 30) (id_arcs directed_bgl g)) = 2" unfolding arcs streets_arcs by (simp add: from_to_def)
  then show ?thesis using g(1) r by metis
qed

text \<open>
  C38: A route whose first or second via vertex is on no edge that can be travelled has no
  defined behaviour, strict or not: the search between the two answers the first of no paths.
\<close>

theorem via_vertex_missing:
  assumes "adjacency_list B d I" "s \<notin> rows_ids edges \<or> t \<notin> rows_ids edges"
  shows "via_of_rows B edges [] (s # t # ts) d strict U details = Inl UndefinedBehaviour"
  by (rule via_of_rows_missing[OF assms])

lemma via_vertex_missing_witness:
  "via_of_rows directed_bgl streets [] [10, 99, 30] True True False True = Inl UndefinedBehaviour"
  by (rule via_vertex_missing[OF list_bgl_adjacency]) (simp add: streets_ids)

text \<open>
  C39: Dmatrix built from rows never fails, holds exactly the identifiers of the rows in
  ascending order, and gives a pair the cost of its last row, zero on the diagonal and the
  maximal double when no row names it.
\<close>

theorem matrix_constructor:
  "\<exists>m. Dmatrix_of_rows rows = Inr m \<and> dm_wf m \<and> sorted_wrt (<) (dm_ids m) \<and>
    set (dm_ids m) = from_vid ` set rows \<union> to_vid ` set rows \<and>
    list_all (\<lambda>i. list_all (\<lambda>j. dm_distance m i j =
      Inr (if i = j then 0 else case last_cost rows i j of Some c \<Rightarrow> c | None \<Rightarrow> dbl_max)) (dm_ids m)) (dm_ids m)"
  using Dmatrix_of_rows_spec[of rows] set_ids_ascending[of rows] set_ids_set[of rows]
  by (auto simp: list_all_iff)

text \<open>
  C40: A position is within position_limits of a node exactly when every node before it may
  precede and every node from it on may follow the new node, by the travel-time compatibility of
  the pair.
\<close>

theorem position_limits_exact:
  assumes "veh_wf cm v" "in_matrix cm n"
  shows "\<exists>l h. position_limits cm v n = Inr (l, h) \<and> 0 < l \<and> h < length (m_path v) \<and>
    (\<forall>i \<le> length (m_path v). l \<le> i \<and> i \<le> h \<longleftrightarrow>
      (\<forall>k < i. is_compatible_IJ cm n (m_path v ! k) (veh_speed v) = Inr True) \<and>
      (\<forall>k. i \<le> k \<longrightarrow> k < length (m_path v) \<longrightarrow>
        is_compatible_IJ cm (m_path v ! k) n (veh_speed v) = Inr True))"
  using position_limits_spec[OF assms] by (simp add: admits_def)

lemma position_limits_exact_witness:
  "\<exists>l h. position_limits ex_matrix ex_truck (m_pickup (ex_table ! 0)) = Inr (l, h) \<and> 0 < l \<and> h < 2"
  using position_limits_exact[OF ex_veh_wf, of "m_pickup (ex_table ! 0)"]
    in_table_ok(2)[OF pd_wfD(2)[OF ex_pd_wf] ex_in_table(1)] by (auto simp: inner_def ex_truck_orders)

end
